(* ===== verification/Prelude.thy ===== *)
theory Prelude
  imports Main "HOL-Library.AList" "HOL-Library.Word"
begin

text \<open>
  Shared vocabulary of the development.  JavaScript values that every component uses are
  given once: numbers as they are inspected by argument checks, bytes, the decimal
  rendering of counters in messages, and \<open>Map\<close> objects, which are association lists
  because JavaScript iterates a \<open>Map\<close> in insertion order.  The lemmas below are the list
  and association-list facts the component theories rely on.
\<close>

section \<open>Collections of facts\<close>

named_theorems result_simps \<open>when a sequence of steps that may throw succeeds\<close>

section \<open>Values\<close>

type_synonym byte = "8 word"

text \<open>A JavaScript string is the list of its code points; an unpaired surrogate is a code point of its own.\<close>

type_synonym ustring = "nat list"

text \<open>
  A JavaScript number as an argument check sees it: an integral value, or anything for
  which \<open>Number.isInteger\<close> answers false (a fraction, an infinity, \<open>NaN\<close>).
\<close>

datatype js_number = Integral int | NonIntegral

fun isInteger :: "js_number \<Rightarrow> bool" where
  "isInteger (Integral _) = True"
| "isInteger NonIntegral = False"

text \<open>\<open>Number.MAX_SAFE_INTEGER\<close> and \<open>Number.isSafeInteger\<close> on a natural number.\<close>

definition max_safe_integer :: nat where
  "max_safe_integer = 2 ^ 53 - 1"

definition isSafeInteger :: "nat \<Rightarrow> bool" where
  "isSafeInteger n \<longleftrightarrow> n \<le> max_safe_integer"

text \<open>The decimal text of a number inside a template string.\<close>

fun show_nat :: "nat \<Rightarrow> string" where
  "show_nat n = (if n < 10 then [char_of (48 + n)]
                 else show_nat (n div 10) @ [char_of (48 + n mod 10)])"

declare show_nat.simps [simp del]

section \<open>Methods that may throw\<close>

text \<open>
  A method that can throw returns the exception or its value together with the state of
  the object at that moment: mutations made before the throw stay.  \<open>and_then\<close> goes on
  with the next statement unless an exception was thrown.
\<close>

type_synonym ('e, 'a, 's) outcome = "('e + 'a) \<times> 's"

definition and_then ::
  "('e, 'a, 's) outcome \<Rightarrow> ('a \<Rightarrow> 's \<Rightarrow> ('e, 'b, 's) outcome) \<Rightarrow> ('e, 'b, 's) outcome" where
  "and_then r f = (case r of (Inl e, s) \<Rightarrow> (Inl e, s) | (Inr a, s) \<Rightarrow> f a s)"

lemma and_then_simps [simp]:
  "and_then (Inl e, s) f = (Inl e, s)"
  "and_then (Inr a, s) f = f a s"
  by (simp_all add: and_then_def)

text \<open>
  Functions without state that may throw return \<open>Inl\<close> the error or \<open>Inr\<close> the value;
  \<open>bind_result\<close> goes on with the value and \<open>map_results\<close> maps such a function over an array,
  throwing at the first element that throws.
\<close>

definition bind_result :: "'e + 'a \<Rightarrow> ('a \<Rightarrow> 'e + 'b) \<Rightarrow> 'e + 'b" where
  "bind_result r f = (case r of Inl e \<Rightarrow> Inl e | Inr a \<Rightarrow> f a)"

lemma bind_result_simps [simp]:
  "bind_result (Inl e) f = Inl e"
  "bind_result (Inr a) f = f a"
  by (simp_all add: bind_result_def)

lemma bind_result_Inr [result_simps]: "bind_result r f = Inr b \<longleftrightarrow> (\<exists>a. r = Inr a \<and> f a = Inr b)"
  by (cases r) simp_all

lemma bind_result_Inl: "bind_result r f = Inl e \<longleftrightarrow> r = Inl e \<or> (\<exists>a. r = Inr a \<and> f a = Inl e)"
  by (cases r) simp_all

primrec map_results :: "('a \<Rightarrow> 'e + 'b) \<Rightarrow> 'a list \<Rightarrow> 'e + 'b list" where
  "map_results f [] = Inr []"
| "map_results f (x # xs) = bind_result (f x) (\<lambda>y. bind_result (map_results f xs) (\<lambda>ys. Inr (y # ys)))"

lemma map_results_Inr [result_simps]:
  "map_results f xs = Inr ys \<longleftrightarrow> list_all2 (\<lambda>x y. f x = Inr y) xs ys"
  by (induction xs arbitrary: ys) (auto simp: list_all2_Cons1 bind_result_Inr)

lemma list_all2_elem: "list_all2 R xs ys \<Longrightarrow> y \<in> set ys \<Longrightarrow> \<exists>x \<in> set xs. R x y"
  by (induction rule: list_all2_induct) auto

lemma map_results_Inl: "map_results f xs = Inl e \<Longrightarrow> \<exists>x \<in> set xs. f x = Inl e"
  by (induction xs) (auto simp: bind_result_Inl)

lemma map_results_append:
  "map_results f (xs @ ys) =
     bind_result (map_results f xs) (\<lambda>as. bind_result (map_results f ys) (\<lambda>bs. Inr (as @ bs)))"
  by (induction xs) (auto simp: bind_result_def split: sum.splits)

section \<open>Association lists as JavaScript maps\<close>

text \<open>
  \<open>Map.prototype.set\<close> is \<^const>\<open>AList.update\<close>: a key that is present keeps its position,
  a new key goes to the end.  \<open>Map.prototype.delete\<close> is \<^const>\<open>AList.delete\<close>.
\<close>

lemma update_new_key:
  "k \<notin> fst ` set xs \<Longrightarrow> AList.update k v xs = xs @ [(k, v)]"
  by (induction xs) auto

lemma delete_eq_filter: "AList.delete k xs = filter (\<lambda>p. fst p \<noteq> k) xs"
  by (induction xs) auto

lemma filter_map_of:
  "distinct (map fst xs) \<Longrightarrow>
   map_of (filter (\<lambda>p. P (snd p)) xs) k =
     (case map_of xs k of None \<Rightarrow> None | Some v \<Rightarrow> if P v then Some v else None)"
  by (induction xs) (auto split: option.splits dest: map_of_SomeD simp: image_iff)

lemma distinct_fst_filter:
  "distinct (map fst xs) \<Longrightarrow> distinct (map fst (filter P xs))"
  by (induction xs) (auto simp: image_iff)

section \<open>Lists\<close>

text \<open>\<open>Array.prototype.find\<close> is \<^const>\<open>List.find\<close>; \<open>indexOf\<close>, \<open>findIndex\<close> and \<open>splice\<close>:\<close>

primrec find_index :: "('a \<Rightarrow> bool) \<Rightarrow> 'a list \<Rightarrow> nat option" where
  "find_index P [] = None"
| "find_index P (x # xs) = (if P x then Some 0 else map_option Suc (find_index P xs))"

definition insert_at :: "nat \<Rightarrow> 'a \<Rightarrow> 'a list \<Rightarrow> 'a list" where
  "insert_at i x xs = take i xs @ x # drop i xs"

lemma find_index_Some:
  "find_index P xs = Some i \<Longrightarrow> i < length xs \<and> P (xs ! i) \<and> (\<forall>j < i. \<not> P (xs ! j))"
proof (induction xs arbitrary: i)
  case (Cons x xs)
  show ?case
  proof (cases "P x")
    case False
    with Cons.prems obtain j where j: "find_index P xs = Some j" "i = Suc j" by auto
    with Cons.IH[OF j(1)] False show ?thesis by (auto simp: nth_Cons split: nat.splits)
  qed (use Cons.prems in auto)
qed simp

lemma find_index_None: "find_index P xs = None \<longleftrightarrow> (\<forall>x\<in>set xs. \<not> P x)"
  by (induction xs) auto

text \<open>Removing the element that \<open>indexOf\<close> finds.\<close>

lemma remove_found:
  "distinct (map f xs) \<Longrightarrow>
   (case find_index (\<lambda>x. f x = t) xs of None \<Rightarrow> xs | Some k \<Rightarrow> take k xs @ drop (Suc k) xs) = filter (\<lambda>x. f x \<noteq> t) xs"
proof (induction xs)
  case (Cons x xs)
  show ?case
  proof (cases "f x = t")
    case True
    then have "filter (\<lambda>x. f x \<noteq> t) xs = xs" using Cons.prems by (auto simp: filter_id_conv image_iff)
    then show ?thesis using True by simp
  next
    case False
    then show ?thesis using Cons by (auto split: option.splits)
  qed
qed simp

lemma set_insert_at [simp]: "set (insert_at i x xs) = insert x (set xs)"
proof -
  have "set xs = set (take i xs) \<union> set (drop i xs)"
    by (metis append_take_drop_id set_append)
  then show ?thesis by (auto simp: insert_at_def)
qed

lemma length_insert_at [simp]: "length (insert_at i x xs) = Suc (length xs)"
  by (simp add: insert_at_def)

lemma distinct_insert_at:
  "distinct xs \<Longrightarrow> x \<notin> set xs \<Longrightarrow> distinct (insert_at i x xs)"
  by (auto simp: insert_at_def set_take_disj_set_drop_if_distinct dest: in_set_takeD in_set_dropD)

lemma filter_insert_at:
  "x \<notin> set xs \<Longrightarrow> filter (\<lambda>y. y \<noteq> x) (insert_at i x xs) = xs"
proof -
  assume "x \<notin> set xs"
  then have "filter (\<lambda>y. y \<noteq> x) (take i xs) = take i xs"
    and "filter (\<lambda>y. y \<noteq> x) (drop i xs) = drop i xs"
    by (auto simp: filter_id_conv dest: in_set_takeD in_set_dropD)
  then show ?thesis by (simp add: insert_at_def)
qed

lemma in_set_update: "x \<in> set xs \<Longrightarrow> x \<noteq> xs ! i \<Longrightarrow> x \<in> set (xs[i := y])"
  by (metis in_set_conv_nth length_list_update nth_list_update_neq)

lemma upt_split: "i \<le> j \<Longrightarrow> j \<le> k \<Longrightarrow> [i..<k] = [i..<j] @ [j..<k]"
  by (metis le_Suc_ex upt_add_eq_append)

end
