(* ===== verification/Queues.thy ===== *)
theory Queues
  imports Prelude
begin

text \<open>
  The message queues of \<open>packages/collaboration/src/websocket/core/queue\<close>: the
  \<open>Queue\<close> interface as a locale, \<open>ArrayQueue\<close> (unbounded) and \<open>RingQueue\<close> (a ring
  buffer of fixed capacity that overwrites its oldest element) with the locale
  interpreted on both.  Queue elements are values other than \<open>undefined\<close>; a slot of the
  ring that was never written is \<^const>\<open>None\<close>.
\<close>

section \<open>The \<open>Queue\<close> interface\<close>

text \<open>What a queue holds after an element went in: with a bound, the oldest ones go.\<close>

definition keep_newest :: "nat option \<Rightarrow> 'a list \<Rightarrow> 'a list" where
  "keep_newest c xs = (case c of None \<Rightarrow> xs | Some n \<Rightarrow> drop (length xs - n) xs)"

lemma keep_newest_None [simp]: "keep_newest None xs = xs"
  by (simp add: keep_newest_def)

lemma keep_newest_Some: "keep_newest (Some n) xs = drop (length xs - n) xs"
  by (simp add: keep_newest_def)

lemma keep_newest_within: "length xs \<le> n \<Longrightarrow> keep_newest (Some n) xs = xs"
  by (simp add: keep_newest_def)

lemma keep_newest_append:
  "keep_newest c (keep_newest c xs @ ys) = keep_newest c (xs @ ys)"
proof (cases c)
  case (Some n)
  have "drop (length xs - n) xs @ ys = drop (length xs - n) (xs @ ys)" by simp
  moreover have "length (drop (length xs - n) (xs @ ys)) - n + (length xs - n)
      = length (xs @ ys) - n" by simp
  ultimately show ?thesis using Some by (simp add: keep_newest_Some drop_drop del: drop_append)
qed simp

text \<open>Reading repeatedly, at most \<open>n\<close> times, as a loop that drains the queue does.\<close>

primrec read_n :: "('q \<Rightarrow> 'a option \<times> 'q) \<Rightarrow> nat \<Rightarrow> 'q \<Rightarrow> 'a list \<times> 'q" where
  "read_n read 0 q = ([], q)"
| "read_n read (Suc n) q = (case read q of
     (None, q') \<Rightarrow> ([], q')
   | (Some x, q') \<Rightarrow> let (xs, q'') = read_n read n q' in (x # xs, q''))"

text \<open>
  The interface: \<open>contents\<close> are the elements from the next one to be read to the newest,
  \<open>bound\<close> is the capacity, if there is one.
\<close>

locale js_queue =
  fixes add :: "'a \<Rightarrow> 'q \<Rightarrow> 'q"
    and clear :: "'q \<Rightarrow> 'q"
    and len :: "'q \<Rightarrow> nat"
    and is_empty :: "'q \<Rightarrow> bool"
    and peek :: "'q \<Rightarrow> 'a option"
    and read :: "'q \<Rightarrow> 'a option \<times> 'q"
    and contents :: "'q \<Rightarrow> 'a list"
    and bound :: "'q \<Rightarrow> nat option"
    and invar :: "'q \<Rightarrow> bool"
  assumes contents_add: "invar q \<Longrightarrow> contents (add x q) = keep_newest (bound q) (contents q @ [x])"
    and contents_clear: "invar q \<Longrightarrow> contents (clear q) = []"
    and len_contents: "invar q \<Longrightarrow> len q = length (contents q)"
    and is_empty_contents: "invar q \<Longrightarrow> is_empty q \<longleftrightarrow> contents q = []"
    and peek_contents: "invar q \<Longrightarrow> peek q = (case contents q of [] \<Rightarrow> None | x # _ \<Rightarrow> Some x)"
    and fst_read: "invar q \<Longrightarrow> fst (read q) = peek q"
    and contents_read: "invar q \<Longrightarrow> contents (snd (read q)) = tl (contents q)"
    and contents_bound: "invar q \<Longrightarrow> bound q = Some n \<Longrightarrow> length (contents q) \<le> n"
    and invar_add: "invar q \<Longrightarrow> invar (add x q)"
    and invar_clear: "invar q \<Longrightarrow> invar (clear q)"
    and invar_read: "invar q \<Longrightarrow> invar (snd (read q))"
    and bound_add: "bound (add x q) = bound q"
    and bound_read: "bound (snd (read q)) = bound q"
begin

lemma fold_add:
  "invar q \<Longrightarrow>
     invar (fold add xs q) \<and> bound (fold add xs q) = bound q \<and>
     contents (fold add xs q) = keep_newest (bound q) (contents q @ xs)"
proof (induction xs arbitrary: q)
  case Nil
  then show ?case
    using contents_bound by (cases "bound q") (auto simp: keep_newest_within)
next
  case (Cons x xs)
  then show ?case
    by (simp add: invar_add bound_add contents_add keep_newest_append)
qed

lemma read_contents:
  "invar q \<Longrightarrow> read q = (case contents q of [] \<Rightarrow> None | x # _ \<Rightarrow> Some x, snd (read q))"
  by (metis fst_read peek_contents prod.collapse)

lemma read_empty: "invar q \<Longrightarrow> contents q = [] \<Longrightarrow> fst (read q) = None"
  by (simp add: fst_read peek_contents)

lemma read_Cons:
  assumes "invar q" and "contents q = x # xs"
  obtains q' where "read q = (Some x, q')" "invar q'" "contents q' = xs" "bound q' = bound q"
proof
  show "read q = (Some x, snd (read q))" using read_contents[OF assms(1)] assms(2) by simp
qed (use assms in \<open>simp_all add: invar_read contents_read bound_read\<close>)

lemma fst_read_n:
  "invar q \<Longrightarrow> fst (read_n read n q) = take n (contents q)"
proof (induction n arbitrary: q)
  case (Suc n)
  show ?case
  proof (cases "contents q")
    case Nil
    with Suc.prems show ?thesis by (auto dest: read_empty split: prod.splits option.splits)
  next
    case (Cons x xs)
    from read_Cons[OF Suc.prems Cons] obtain q'
      where "read q = (Some x, q')" "invar q'" "contents q' = xs" .
    with Suc.IH[of q'] Cons show ?thesis by (simp add: split_beta Let_def)
  qed
qed simp

lemma snd_read_n:
  "invar q \<Longrightarrow> invar (snd (read_n read n q)) \<and> contents (snd (read_n read n q)) = drop n (contents q)"
proof (induction n arbitrary: q)
  case (Suc n)
  show ?case
  proof (cases "contents q")
    case Nil
    then have "read q = (None, snd (read q))" using read_contents[OF Suc.prems] by simp
    then have "snd (read_n read (Suc n) q) = snd (read q)" by (cases "read q") simp
    then show ?thesis using Nil Suc.prems by (simp add: invar_read contents_read)
  next
    case (Cons x xs)
    from read_Cons[OF Suc.prems Cons] obtain q'
      where "read q = (Some x, q')" "invar q'" "contents q' = xs" .
    with Suc.IH[of q'] Cons show ?thesis by (simp add: split_beta Let_def)
  qed
qed simp

lemma fifo_reads:
  assumes "invar q" and "contents q = []"
  shows "fst (read_n read n (fold add xs q)) = take n (keep_newest (bound q) xs)"
    and "invar (snd (read_n read n (fold add xs q)))"
    and "contents (snd (read_n read n (fold add xs q))) = drop n (keep_newest (bound q) xs)"
  using fold_add[of q xs] fst_read_n[of "fold add xs q" n] snd_read_n[of "fold add xs q" n] assms by simp_all

lemma fifo:
  "invar q \<Longrightarrow> contents q = [] \<Longrightarrow> length xs \<le> n \<Longrightarrow>
     fst (read_n read n (fold add xs q)) = keep_newest (bound q) xs"
  using fold_add[of q xs] fst_read_n[of "fold add xs q" n]
  by (auto simp: keep_newest_def split: option.splits)

end

section \<open>\<open>ArrayQueue\<close>\<close>

record 'a array_queue =
  aq_elements :: "'a list"

definition array_queue_new :: "'a array_queue" where
  "array_queue_new = \<lparr>aq_elements = []\<rparr>"

definition aq_add :: "'a \<Rightarrow> 'a array_queue \<Rightarrow> 'a array_queue" where
  "aq_add x q = q\<lparr>aq_elements := aq_elements q @ [x]\<rparr>"

definition aq_clear :: "'a array_queue \<Rightarrow> 'a array_queue" where
  "aq_clear q = q\<lparr>aq_elements := []\<rparr>"

text \<open>\<open>forEach\<close> threads the caller's state through the elements, oldest first.\<close>

definition aq_forEach :: "('a \<Rightarrow> 's \<Rightarrow> 's) \<Rightarrow> 'a array_queue \<Rightarrow> 's \<Rightarrow> 's" where
  "aq_forEach fn q s = fold fn (aq_elements q) s"

definition aq_length :: "'a array_queue \<Rightarrow> nat" where
  "aq_length q = length (aq_elements q)"

definition aq_isEmpty :: "'a array_queue \<Rightarrow> bool" where
  "aq_isEmpty q \<longleftrightarrow> length (aq_elements q) = 0"

definition aq_peek :: "'a array_queue \<Rightarrow> 'a option" where
  "aq_peek q = (if 0 < length (aq_elements q) then Some (aq_elements q ! 0) else None)"

text \<open>\<open>Array.prototype.shift\<close> removes and returns the first element.\<close>

definition aq_read :: "'a array_queue \<Rightarrow> 'a option \<times> 'a array_queue" where
  "aq_read q = (case aq_elements q of
      [] \<Rightarrow> (None, q)
    | x # xs \<Rightarrow> (Some x, q\<lparr>aq_elements := xs\<rparr>))"

lemmas aq_defs = aq_add_def aq_clear_def aq_length_def aq_isEmpty_def aq_peek_def aq_read_def

interpretation aq: js_queue aq_add aq_clear aq_length aq_isEmpty aq_peek aq_read
  aq_elements "\<lambda>_. None" "\<lambda>_. True"
  by unfold_locales (auto simp: aq_defs split: list.splits)

section \<open>\<open>RingQueue\<close>\<close>

record 'a ring_queue =
  rq_elements :: "'a option list"
  rq_head :: nat \<comment> \<open>index of the next position to write to\<close>
  rq_tail :: nat \<comment> \<open>index of the next position to read from\<close>

text \<open>The constructor throws unless the capacity is a positive integer.\<close>

fun ring_queue_new :: "js_number \<Rightarrow> string + 'a ring_queue" where
  "ring_queue_new (Integral c) =
     (if c \<le> 0 then Inl ''Capacity must be a positive integer''
      else Inr \<lparr>rq_elements = replicate (nat c + 1) None, rq_head = 0, rq_tail = 0\<rparr>)"
| "ring_queue_new NonIntegral = Inl ''Capacity must be a positive integer''"

abbreviation rq_size :: "'a ring_queue \<Rightarrow> nat" where
  "rq_size q \<equiv> length (rq_elements q)"

definition rq_add :: "'a \<Rightarrow> 'a ring_queue \<Rightarrow> 'a ring_queue" where
  "rq_add x q =
    (let q1 = q\<lparr>rq_elements := (rq_elements q)[rq_head q := Some x]\<rparr>;
         q2 = q1\<lparr>rq_head := (rq_head q1 + 1) mod rq_size q1\<rparr>
     in if rq_head q2 = rq_tail q2
        then q2\<lparr>rq_tail := (rq_tail q2 + 1) mod rq_size q2\<rparr>
        else q2)"

definition rq_clear :: "'a ring_queue \<Rightarrow> 'a ring_queue" where
  "rq_clear q = q\<lparr>rq_head := 0, rq_tail := 0\<rparr>"

text \<open>The loop of \<open>forEach\<close>; it ends only when the index meets the head.\<close>

partial_function (option) rq_forEach_from ::
  "('a option \<Rightarrow> 's \<Rightarrow> 's) \<Rightarrow> 'a ring_queue \<Rightarrow> nat \<Rightarrow> 's \<Rightarrow> 's option" where
  "rq_forEach_from fn q i s =
     (if i = rq_head q then Some s
      else rq_forEach_from fn q ((i + 1) mod rq_size q) (fn (rq_elements q ! i) s))"

definition rq_forEach :: "('a option \<Rightarrow> 's \<Rightarrow> 's) \<Rightarrow> 'a ring_queue \<Rightarrow> 's \<Rightarrow> 's option" where
  "rq_forEach fn q s = rq_forEach_from fn q (rq_tail q) s"

definition rq_length :: "'a ring_queue \<Rightarrow> nat" where
  "rq_length q =
    (if rq_tail q = rq_head q then 0
     else if rq_tail q < rq_head q then rq_head q - rq_tail q
     else rq_size q - rq_tail q + rq_head q)"

definition rq_isEmpty :: "'a ring_queue \<Rightarrow> bool" where
  "rq_isEmpty q \<longleftrightarrow> rq_head q = rq_tail q"

definition rq_peek :: "'a ring_queue \<Rightarrow> 'a option" where
  "rq_peek q = (if rq_isEmpty q then None else rq_elements q ! rq_tail q)"

definition rq_read :: "'a ring_queue \<Rightarrow> 'a option \<times> 'a ring_queue" where
  "rq_read q =
    (case rq_peek q of
       None \<Rightarrow> (None, q)
     | Some e \<Rightarrow> (Some e, q\<lparr>rq_tail := (rq_tail q + 1) mod rq_size q\<rparr>))"

subsection \<open>Well-formed rings and their contents\<close>

definition rq_slot :: "'a ring_queue \<Rightarrow> nat \<Rightarrow> nat" where
  "rq_slot q k = (rq_tail q + k) mod rq_size q"

definition rq_inv :: "'a ring_queue \<Rightarrow> bool" where
  "rq_inv q \<longleftrightarrow> 2 \<le> rq_size q \<and> rq_head q < rq_size q \<and> rq_tail q < rq_size q \<and>
     (\<forall>k < rq_length q. rq_elements q ! rq_slot q k \<noteq> None)"

definition rq_contents :: "'a ring_queue \<Rightarrow> 'a list" where
  "rq_contents q = map (\<lambda>k. the (rq_elements q ! rq_slot q k)) [0..<rq_length q]"

definition rq_capacity :: "'a ring_queue \<Rightarrow> nat" where
  "rq_capacity q = rq_size q - 1"

lemma rq_invD:
  assumes "rq_inv q"
  shows "2 \<le> rq_size q" "rq_head q < rq_size q" "rq_tail q < rq_size q"
    and "k < rq_length q \<Longrightarrow> rq_elements q ! rq_slot q k \<noteq> None"
    and "0 < rq_size q"
  using assms by (auto simp: rq_inv_def)

text \<open>Positions modulo the size, written without \<open>mod\<close>.\<close>

lemma wrap_mod: "i < n \<Longrightarrow> k \<le> n \<Longrightarrow> (i + k) mod n = (if i + k < n then i + k else i + k - n)"
  for i k n :: nat
  by (auto simp: mod_if)

lemma wrap_Suc: "i < n \<Longrightarrow> Suc i mod n = (if Suc i = n then 0 else Suc i)"
  by (simp add: mod_Suc)

text \<open>The distance from tail to head, and how one step of the head changes it.\<close>

definition ring_len :: "nat \<Rightarrow> nat \<Rightarrow> nat \<Rightarrow> nat" where
  "ring_len n h t = (if t = h then 0 else if t < h then h - t else n - t + h)"

lemma rq_length_alt: "rq_length q = ring_len (rq_size q) (rq_head q) (rq_tail q)"
  by (simp add: rq_length_def ring_len_def)

lemma ring_step:
  assumes "h < n" "t < n" "2 \<le> n"
  shows "Suc h mod n = t \<longleftrightarrow> \<not> ring_len n h t < n - Suc 0"
    and "ring_len n h t < n - Suc 0 \<Longrightarrow> ring_len n (Suc h mod n) t = Suc (ring_len n h t)"
    and "\<not> ring_len n h t < n - Suc 0 \<Longrightarrow> ring_len n (Suc h mod n) (Suc t mod n) = ring_len n h t"
  using assms by (auto simp: ring_len_def wrap_Suc split: if_splits)

lemma rq_length_less: "rq_inv q \<Longrightarrow> rq_length q < rq_size q"
  by (auto simp: rq_length_def rq_inv_def)

lemma rq_slot_head: "rq_inv q \<Longrightarrow> rq_slot q (rq_length q) = rq_head q"
  by (auto simp: rq_slot_def rq_length_def rq_inv_def wrap_mod)

lemma rq_slot_lt: "rq_inv q \<Longrightarrow> rq_slot q k < rq_size q"
  using rq_invD(5)[of q] by (simp add: rq_slot_def)

lemma rq_slot_inj:
  "rq_inv q \<Longrightarrow> j < rq_size q \<Longrightarrow> k < rq_size q \<Longrightarrow> rq_slot q j = rq_slot q k \<longleftrightarrow> j = k"
  using rq_invD(3)[of q] by (auto simp: rq_slot_def wrap_mod split: if_splits)

lemma length_rq_contents [simp]: "length (rq_contents q) = rq_length q"
  by (simp add: rq_contents_def)

lemma rq_contents_empty: "rq_inv q \<Longrightarrow> rq_contents q = [] \<longleftrightarrow> rq_head q = rq_tail q"
  by (auto simp: rq_contents_def rq_length_def rq_inv_def)

lemma nth_rq_contents: "k < rq_length q \<Longrightarrow> rq_contents q ! k = the (rq_elements q ! rq_slot q k)"
  by (simp add: rq_contents_def)

subsection \<open>The operations on well-formed rings\<close>

lemma rq_size_add [simp]: "rq_size (rq_add x q) = rq_size q"
  by (simp add: rq_add_def Let_def)

lemma rq_add_fields:
  assumes "rq_inv q"
  shows "rq_elements (rq_add x q) = (rq_elements q)[rq_slot q (rq_length q) := Some x]"
    and "rq_length (rq_add x q) =
           (if rq_length q < rq_capacity q then Suc (rq_length q) else rq_length q)"
    and "rq_slot (rq_add x q) k =
           rq_slot q (if rq_length q < rq_capacity q then k else Suc k)"
    and "rq_head (rq_add x q) < rq_size q \<and> rq_tail (rq_add x q) < rq_size q"
proof -
  show "rq_elements (rq_add x q) = (rq_elements q)[rq_slot q (rq_length q) := Some x]"
    using assms by (simp add: rq_add_def Let_def rq_slot_head)
  show "rq_length (rq_add x q) =
      (if rq_length q < rq_capacity q then Suc (rq_length q) else rq_length q)"
    using ring_step[OF rq_invD(2,3,1)[OF assms]]
    by (simp add: rq_add_def Let_def rq_length_alt rq_capacity_def)
  have "rq_tail (rq_add x q) =
      (if rq_length q < rq_capacity q then rq_tail q else (rq_tail q + 1) mod rq_size q)"
    using ring_step(1)[OF rq_invD(2,3,1)[OF assms]]
    by (simp add: rq_add_def Let_def rq_length_alt rq_capacity_def)
  then show "rq_slot (rq_add x q) k = rq_slot q (if rq_length q < rq_capacity q then k else Suc k)"
    by (simp add: rq_slot_def mod_simps)
  show "rq_head (rq_add x q) < rq_size q \<and> rq_tail (rq_add x q) < rq_size q"
    using rq_invD(2,3,5)[OF assms] by (simp add: rq_add_def Let_def)
qed

text \<open>Only the slot at the head is written, and no stored element lives there.\<close>

lemma nth_rq_add:
  assumes "rq_inv q" and "k \<le> rq_length q"
  shows "rq_elements (rq_add x q) ! rq_slot q k =
           (if k = rq_length q then Some x else rq_elements q ! rq_slot q k)"
  using assms rq_length_less[OF assms(1)]
  by (auto simp: rq_add_fields(1) rq_slot_lt rq_slot_inj)

lemma rq_inv_add: "rq_inv q \<Longrightarrow> rq_inv (rq_add x q)"
proof -
  assume q: "rq_inv q"
  have "rq_elements (rq_add x q) ! rq_slot (rq_add x q) k \<noteq> None"
    if "k < rq_length (rq_add x q)" for k
  proof -
    let ?j = "if rq_length q < rq_capacity q then k else Suc k"
    have "?j \<le> rq_length q" using that by (auto simp: rq_add_fields(2)[OF q] split: if_splits)
    then show ?thesis
      using rq_invD(4)[OF q, of ?j] unfolding rq_add_fields(3)[OF q] by (simp add: nth_rq_add[OF q])
  qed
  with rq_add_fields(4)[OF q, of x] rq_invD(1)[OF q] show ?thesis by (simp add: rq_inv_def)
qed

lemma rq_contents_add:
  assumes "rq_inv q"
  shows "rq_contents (rq_add x q) = keep_newest (Some (rq_capacity q)) (rq_contents q @ [x])"
proof (rule nth_equalityI)
  have le: "rq_length q \<le> rq_capacity q"
    using rq_length_less[OF assms] by (simp add: rq_capacity_def)
  then show "length (rq_contents (rq_add x q)) =
      length (keep_newest (Some (rq_capacity q)) (rq_contents q @ [x]))"
    by (auto simp: rq_add_fields(2)[OF assms] keep_newest_Some)
  fix k assume "k < length (rq_contents (rq_add x q))"
  then have k: "k < rq_length (rq_add x q)" by simp
  let ?j = "if rq_length q < rq_capacity q then k else Suc k"
  have j: "?j \<le> rq_length q" using k by (auto simp: rq_add_fields(2)[OF assms] split: if_splits)
  have "rq_contents (rq_add x q) ! k =
      the (if ?j = rq_length q then Some x else rq_elements q ! rq_slot q ?j)"
    unfolding nth_rq_contents[OF k] rq_add_fields(3)[OF assms] nth_rq_add[OF assms j] ..
  also have "\<dots> = (rq_contents q @ [x]) ! ?j"
    using j by (auto simp: nth_append nth_rq_contents)
  also have "\<dots> = keep_newest (Some (rq_capacity q)) (rq_contents q @ [x]) ! k"
  proof (cases "rq_length q < rq_capacity q")
    case False
    with le have "length (rq_contents q @ [x]) - rq_capacity q = 1" by simp
    with False show ?thesis by (simp add: keep_newest_Some del: drop_append)
  qed (simp add: keep_newest_within)
  finally show "rq_contents (rq_add x q) ! k = \<dots>" .
qed

lemma rq_read_fields:
  assumes "rq_inv q" and "rq_head q \<noteq> rq_tail q"
  shows "rq_read q = (rq_elements q ! rq_tail q, q\<lparr>rq_tail := Suc (rq_tail q) mod rq_size q\<rparr>)"
    and "rq_length (q\<lparr>rq_tail := Suc (rq_tail q) mod rq_size q\<rparr>) = rq_length q - 1"
    and "rq_slot (q\<lparr>rq_tail := Suc (rq_tail q) mod rq_size q\<rparr>) k = rq_slot q (Suc k)"
    and "0 < rq_length q"
proof -
  show len: "0 < rq_length q" using rq_invD(1-3)[OF assms(1)] assms(2) by (auto simp: rq_length_def)
  have "rq_slot q 0 = rq_tail q" using rq_invD(3)[OF assms(1)] by (simp add: rq_slot_def)
  then show "rq_read q = (rq_elements q ! rq_tail q, q\<lparr>rq_tail := Suc (rq_tail q) mod rq_size q\<rparr>)"
    using rq_invD(4)[OF assms(1) len] assms(2) by (auto simp: rq_read_def rq_peek_def rq_isEmpty_def)
  show "rq_length (q\<lparr>rq_tail := Suc (rq_tail q) mod rq_size q\<rparr>) = rq_length q - 1"
    using rq_invD(1-3)[OF assms(1)] assms(2)
    by (auto simp: rq_length_def wrap_Suc split: if_splits)
  show "rq_slot (q\<lparr>rq_tail := Suc (rq_tail q) mod rq_size q\<rparr>) k = rq_slot q (Suc k)"
    by (simp add: rq_slot_def mod_simps)
qed

lemma rq_read_empty: "rq_head q = rq_tail q \<Longrightarrow> rq_read q = (None, q)"
  by (simp add: rq_read_def rq_peek_def rq_isEmpty_def)

lemma rq_inv_read: "rq_inv q \<Longrightarrow> rq_inv (snd (rq_read q))"
proof (cases "rq_head q = rq_tail q")
  case False
  assume q: "rq_inv q"
  show ?thesis
    using rq_invD(1,2,5)[OF q] rq_invD(4)[OF q] rq_read_fields(2,3)[OF q False]
    by (auto simp: rq_inv_def rq_read_fields(1)[OF q False])
qed (simp add: rq_read_empty)

lemma rq_contents_read: "rq_inv q \<Longrightarrow> rq_contents (snd (rq_read q)) = tl (rq_contents q)"
proof (cases "rq_head q = rq_tail q")
  case True
  assume q: "rq_inv q"
  then show ?thesis using True rq_contents_empty[OF q] by (simp add: rq_read_empty)
next
  case False
  assume q: "rq_inv q"
  show ?thesis
    by (rule nth_equalityI)
      (auto simp: rq_read_fields(1)[OF q False] rq_read_fields(2,3)[OF q False]
        nth_rq_contents nth_tl)
qed

lemma rq_peek_contents:
  "rq_inv q \<Longrightarrow> rq_peek q = (case rq_contents q of [] \<Rightarrow> None | x # _ \<Rightarrow> Some x)"
proof (cases "rq_head q = rq_tail q")
  case True
  assume q: "rq_inv q"
  then show ?thesis using True rq_contents_empty[OF q] by (simp add: rq_peek_def rq_isEmpty_def)
next
  case False
  assume q: "rq_inv q"
  note len = rq_read_fields(4)[OF q False]
  then obtain y ys where ys: "rq_contents q = y # ys"
    by (metis length_rq_contents list.exhaust list.size(3) less_nat_zero_code)
  have "rq_slot q 0 = rq_tail q" using rq_invD(3)[OF q] by (simp add: rq_slot_def)
  with ys nth_rq_contents[OF len] rq_invD(4)[OF q len] False show ?thesis
    by (auto simp: rq_peek_def rq_isEmpty_def)
qed

interpretation rq: js_queue rq_add rq_clear rq_length rq_isEmpty rq_peek rq_read
  rq_contents "\<lambda>q. Some (rq_capacity q)" rq_inv
proof unfold_locales
  fix q :: "'a ring_queue" and x :: 'a
  show "Some (rq_capacity (rq_add x q)) = Some (rq_capacity q)" by (simp add: rq_capacity_def)
  show "Some (rq_capacity (snd (rq_read q))) = Some (rq_capacity q)"
    by (simp add: rq_capacity_def rq_read_def split: option.splits)
  show "rq_inv q \<Longrightarrow> rq_inv (rq_clear q)"
    by (auto simp: rq_inv_def rq_clear_def rq_length_def)
  show "rq_inv q \<Longrightarrow> rq_contents (rq_clear q) = []"
    by (simp add: rq_contents_def rq_clear_def rq_length_def)
  show "rq_inv q \<Longrightarrow> rq_isEmpty q \<longleftrightarrow> rq_contents q = []"
    by (simp add: rq_isEmpty_def rq_contents_empty)
  show "rq_inv q \<Longrightarrow> fst (rq_read q) = rq_peek q"
    by (simp add: rq_read_def split: option.splits)
  show "length (rq_contents q) \<le> n" if "rq_inv q" "Some (rq_capacity q) = Some n" for n
    using that rq_length_less[of q] by (simp add: rq_capacity_def)
qed (simp_all add: rq_contents_add rq_inv_add rq_inv_read rq_contents_read rq_peek_contents)

section \<open>What the queues promise\<close>

lemma ring_queue_new_inv:
  "ring_queue_new c = Inr q \<Longrightarrow>
     rq_inv q \<and> rq_contents q = [] \<and> c = Integral (int (rq_capacity q))"
  by (cases c) (auto simp: rq_inv_def rq_length_def rq_contents_def rq_capacity_def split: if_splits)

lemma rq_forEach_from_slot:
  assumes "rq_inv q" and "k \<le> rq_length q"
  shows "rq_forEach_from fn q (rq_slot q k) s =
           Some (fold (\<lambda>x. fn (Some x)) (drop k (rq_contents q)) s)"
  using assms(2)
proof (induction "rq_length q - k" arbitrary: k s)
  case 0
  then have "k = rq_length q" by simp
  then show ?case by (simp add: rq_forEach_from.simps rq_slot_head[OF assms(1)])
next
  case (Suc m)
  then have k: "k < rq_length q" by simp
  have "rq_slot q k \<noteq> rq_head q"
    using k rq_length_less[OF assms(1)] rq_slot_inj[OF assms(1), of k "rq_length q"]
    by (simp add: rq_slot_head[OF assms(1)])
  moreover have "Suc (rq_slot q k) mod rq_size q = rq_slot q (Suc k)"
    by (simp add: rq_slot_def mod_Suc_eq)
  moreover have "rq_elements q ! rq_slot q k = Some (rq_contents q ! k)"
    using rq_invD(4)[OF assms(1) k] by (simp add: nth_rq_contents[OF k])
  moreover have "drop k (rq_contents q) = rq_contents q ! k # drop (Suc k) (rq_contents q)"
    using k by (simp add: Cons_nth_drop_Suc)
  ultimately show ?case
    using Suc.hyps(1)[of "Suc k"] Suc.hyps(2) k by (simp add: rq_forEach_from.simps[of _ _ "rq_slot q k"])
qed

text \<open>
  C39.  A ring queue made with a positive integral capacity behaves as a bounded FIFO: after any sequence of additions to it,
  reading any number of times returns elements from the oldest of the newest ones that the capacity keeps on, in the order they were
  added, and nothing more once they are read; what was not read then stays, so reading on, with any further additions in
  between, continues where the reads stopped.
\<close>

theorem ring_queue_fifo:
  assumes "ring_queue_new (Integral c) = Inr q"
  shows "fst (read_n rq_read n (fold rq_add xs q)) = take n (drop (length xs - nat c) xs) \<and>
    fst (read_n rq_read k (fold rq_add ys (snd (read_n rq_read n (fold rq_add xs q))))) =
      (let kept = drop n (drop (length xs - nat c) xs) @ ys in take k (drop (length kept - nat c) kept))"
proof -
  have q: "rq_inv q" "rq_contents q = []" "nat c = rq_capacity q" using ring_queue_new_inv[OF assms] by auto
  have keep: "keep_newest (Some (rq_capacity q)) zs = drop (length zs - nat c) zs" for zs :: "'a list"
    using q(3) by (simp add: keep_newest_Some)
  let ?q = "snd (read_n rq_read n (fold rq_add xs q))"
  have r: "rq_inv ?q" "rq_contents ?q = drop n (drop (length xs - nat c) xs)"
    using rq.fifo_reads(2,3)[OF q(1,2), of n xs] by (simp_all add: keep)
  have cap: "rq_capacity (fold rq_add zs p) = rq_capacity p" for zs p
    by (induction zs arbitrary: p) (simp_all add: rq_capacity_def rq_add_def Let_def)
  have cap_read: "rq_capacity (snd (read_n rq_read m p)) = rq_capacity p" for m p
  proof (induction m arbitrary: p)
    case (Suc m)
    have "rq_capacity (snd (rq_read p)) = rq_capacity p" by (simp add: rq_capacity_def rq_read_def split: option.splits)
    then show ?case using Suc[of "snd (rq_read p)"] by (cases "rq_read p"; cases "fst (rq_read p)") (simp_all add: split_beta Let_def)
  qed simp
  have c: "rq_capacity ?q = rq_capacity q" by (simp add: cap cap_read)
  have "rq_inv (fold rq_add ys ?q)" "rq_contents (fold rq_add ys ?q) = keep_newest (Some (rq_capacity q)) (rq_contents ?q @ ys)"
    using rq.fold_add[OF r(1), of ys] c by simp_all
  then have "fst (read_n rq_read k (fold rq_add ys ?q)) = take k (keep_newest (Some (rq_capacity q)) (rq_contents ?q @ ys))"
    using rq.fst_read_n by metis
  moreover have "fst (read_n rq_read n (fold rq_add xs q)) = take n (drop (length xs - nat c) xs)"
    using rq.fifo_reads(1)[OF q(1,2), of n xs] by (simp add: keep)
  ultimately show ?thesis unfolding keep r(2) Let_def by blast
qed

theorem ring_queue_fifo_witness:
  "fst (read_n rq_read 1 (fold rq_add [10, 20, 30::nat]
      \<lparr>rq_elements = [None, None, None], rq_head = 0, rq_tail = 0\<rparr>)) = [20]"
proof -
  have "ring_queue_new (Integral 2) =
      Inr \<lparr>rq_elements = [None, None, None], rq_head = 0, rq_tail = 0\<rparr>"
    by (simp add: numeral_eq_Suc)
  from conjunct1[OF ring_queue_fifo[OF this, of 1 "[10, 20, 30::nat]" 3 "[]"]] show ?thesis by simp
qed

text \<open>
  On a well-formed ring the loop of \<open>forEach\<close> ends, and it has called its argument
  once for each stored element, oldest first, never for an empty slot.
\<close>

theorem ring_forEach_returns:
  assumes "rq_inv q"
  shows "rq_forEach fn q s = Some (fold (\<lambda>x. fn (Some x)) (rq_contents q) s)"
proof -
  have "rq_slot q 0 = rq_tail q" using rq_invD(3)[OF assms] by (simp add: rq_slot_def)
  with rq_forEach_from_slot[OF assms, of 0 fn s] show ?thesis by (simp add: rq_forEach_def)
qed

theorem ring_forEach_returns_witness:
  "rq_forEach (\<lambda>x xs. x # xs) \<lparr>rq_elements = [Some 7, None, Some (5::nat)], rq_head = 1, rq_tail = 2\<rparr> [] =
     Some [Some 7, Some 5]"
proof -
  let ?q = "\<lparr>rq_elements = [Some 7, None, Some (5::nat)], rq_head = 1, rq_tail = 2\<rparr>"
  have "rq_length ?q = 2" by (simp add: rq_length_def)
  then have "rq_inv ?q" by (auto simp: rq_inv_def rq_slot_def less_2_cases_iff)
  from ring_forEach_returns[OF this, of "\<lambda>x xs. x # xs" "[]"] show ?thesis
    by (simp add: rq_contents_def rq_length_def rq_slot_def)
qed

end
