(* ===== verification/Backoff.thy ===== *)
theory Backoff
  imports Prelude
begin

text \<open>
  The retry delays of \<open>packages/collaboration/src/websocket/core/backoff\<close>.  The
  \<open>Backoff\<close> interface is a locale (a series given by its starting state, advanced by
  \<open>next\<close> and rewound by \<open>reset\<close>), interpreted on the three classes that implement it.
  Delays are integral numbers of milliseconds; the rounding of products beyond
  \<open>Number.MAX_SAFE_INTEGER\<close> is not modelled.
\<close>

section \<open>The \<open>Backoff\<close> interface\<close>

text \<open>The values of \<open>n\<close> successive calls of \<open>next\<close>.\<close>

primrec delays :: "('b \<Rightarrow> int \<times> 'b) \<Rightarrow> nat \<Rightarrow> 'b \<Rightarrow> int list" where
  "delays nxt 0 b = []"
| "delays nxt (Suc n) b = fst (nxt b) # delays nxt n (snd (nxt b))"

text \<open>
  \<open>series b n\<close> is the documented value of the series of \<open>b\<close> after \<open>n\<close> calls of
  \<open>next\<close>; \<open>next\<close> returns the value it advances to.
\<close>

locale backoff_series =
  fixes retries :: "'b \<Rightarrow> nat"
    and current :: "'b \<Rightarrow> int"
    and nxt :: "'b \<Rightarrow> int \<times> 'b"
    and reset :: "'b \<Rightarrow> 'b"
    and series :: "'b \<Rightarrow> nat \<Rightarrow> int"
    and invar :: "'b \<Rightarrow> bool"
  assumes current_series: "invar b \<Longrightarrow> current b = series b (retries b)"
    and fst_nxt: "fst (nxt b) = current (snd (nxt b))"
    and retries_nxt: "retries (snd (nxt b)) = Suc (retries b)"
    and series_nxt: "series (snd (nxt b)) = series b"
    and invar_nxt: "invar b \<Longrightarrow> invar (snd (nxt b))"
    and retries_reset: "retries (reset b) = 0"
    and series_reset: "series (reset b) = series b"
    and invar_reset: "invar (reset b)"
begin

lemma delays_series:
  "invar b \<Longrightarrow> delays nxt n b = map (series b) [Suc (retries b)..<Suc (retries b + n)]"
proof (induction n arbitrary: b)
  case (Suc n)
  then have "delays nxt n (snd (nxt b)) =
      map (series b) [Suc (Suc (retries b))..<Suc (Suc (retries b) + n)]"
    by (simp add: invar_nxt retries_nxt series_nxt)
  moreover have "fst (nxt b) = series b (Suc (retries b))"
    using Suc.prems by (simp add: fst_nxt current_series invar_nxt retries_nxt series_nxt)
  moreover have "[Suc (retries b)..<Suc (retries b + Suc n)] =
      Suc (retries b) # [Suc (Suc (retries b))..<Suc (Suc (retries b) + n)]"
    by (simp add: upt_conv_Cons)
  ultimately show ?case by simp
qed simp

lemma delays_after_reset: "delays nxt n (reset b) = map (series b) [1..<Suc n]"
  by (simp add: delays_series invar_reset retries_reset series_reset)

end

section \<open>\<open>ConstantBackoff\<close>\<close>

record constant_backoff =
  cb_backoff :: int
  cb_retries :: nat

fun constant_new :: "js_number \<Rightarrow> string + constant_backoff" where
  "constant_new (Integral b) =
     (if b < 0 then Inl ''Backoff must be a positive integer''
      else Inr \<lparr>cb_backoff = b, cb_retries = 0\<rparr>)"
| "constant_new NonIntegral = Inl ''Backoff must be a positive integer''"

definition cb_current :: "constant_backoff \<Rightarrow> int" where
  "cb_current b = cb_backoff b"

definition cb_next :: "constant_backoff \<Rightarrow> int \<times> constant_backoff" where
  "cb_next b = (let b' = b\<lparr>cb_retries := cb_retries b + 1\<rparr> in (cb_backoff b', b'))"

definition cb_reset :: "constant_backoff \<Rightarrow> constant_backoff" where
  "cb_reset b = b\<lparr>cb_retries := 0\<rparr>"

interpretation cb: backoff_series cb_retries cb_current cb_next cb_reset
  "\<lambda>b _. cb_backoff b" "\<lambda>_. True"
  by unfold_locales (auto simp: cb_current_def cb_next_def cb_reset_def Let_def)

section \<open>\<open>ExponentialBackoff\<close>\<close>

record exponential_backoff =
  eb_base :: int
  eb_expMax :: "nat option"
  eb_i :: nat
  eb_retries :: nat

definition exponential_new :: "js_number \<Rightarrow> js_number option \<Rightarrow> string + exponential_backoff" where
  "exponential_new base expMax =
    (case base of
       NonIntegral \<Rightarrow> Inl ''Base must be a positive integer or zero''
     | Integral b \<Rightarrow>
         if b < 0 then Inl ''Base must be a positive integer or zero''
         else (case expMax of
             None \<Rightarrow> Inr \<lparr>eb_base = b, eb_expMax = None, eb_i = 0, eb_retries = 0\<rparr>
           | Some NonIntegral \<Rightarrow> Inl ''ExpMax must be a undefined, a positive integer or zero''
           | Some (Integral m) \<Rightarrow>
               if m < 0 then Inl ''ExpMax must be a undefined, a positive integer or zero''
               else Inr \<lparr>eb_base = b, eb_expMax = Some (nat m), eb_i = 0, eb_retries = 0\<rparr>))"

definition eb_current :: "exponential_backoff \<Rightarrow> int" where
  "eb_current b = eb_base b * 2 ^ eb_i b"

definition eb_next :: "exponential_backoff \<Rightarrow> int \<times> exponential_backoff" where
  "eb_next b =
    (let b1 = b\<lparr>eb_retries := eb_retries b + 1\<rparr>;
         b2 = b1\<lparr>eb_i := (case eb_expMax b1 of
                            None \<Rightarrow> eb_i b1 + 1
                          | Some m \<Rightarrow> min (eb_i b1 + 1) m)\<rparr>
     in (eb_current b2, b2))"

definition eb_reset :: "exponential_backoff \<Rightarrow> exponential_backoff" where
  "eb_reset b = b\<lparr>eb_retries := 0, eb_i := 0\<rparr>"

text \<open>The series of the class comment: the exponent is capped by \<open>expMax\<close>.\<close>

definition eb_exponent :: "exponential_backoff \<Rightarrow> nat \<Rightarrow> nat" where
  "eb_exponent b n = (case eb_expMax b of None \<Rightarrow> n | Some m \<Rightarrow> min n m)"

definition eb_inv :: "exponential_backoff \<Rightarrow> bool" where
  "eb_inv b \<longleftrightarrow> eb_i b = eb_exponent b (eb_retries b)"

interpretation eb: backoff_series eb_retries eb_current eb_next eb_reset
  "\<lambda>b n. eb_base b * 2 ^ eb_exponent b n" eb_inv
proof unfold_locales
  fix b :: exponential_backoff
  show "eb_inv b \<Longrightarrow> eb_inv (snd (eb_next b))"
    by (auto simp: eb_inv_def eb_exponent_def eb_next_def Let_def split: option.splits)
  show "eb_inv (eb_reset b)"
    by (auto simp: eb_inv_def eb_exponent_def eb_reset_def split: option.splits)
qed (auto simp: eb_inv_def eb_current_def eb_next_def eb_reset_def eb_exponent_def Let_def)

section \<open>\<open>LinearBackoff\<close>\<close>

record linear_backoff =
  lb_initial :: int
  lb_increment :: int
  lb_max :: "int option"
  lb_i :: nat
  lb_retries :: nat

definition linear_new :: "int \<Rightarrow> int \<Rightarrow> int option \<Rightarrow> string + linear_backoff" where
  "linear_new initial increment mx =
    (if initial < 0 then Inl ''Initial must be a positive number or zero''
     else if increment < 0 then Inl ''Increment must be a positive number or zero''
     else (case mx of
         None \<Rightarrow> Inr \<lparr>lb_initial = initial, lb_increment = increment, lb_max = None,
                      lb_i = 0, lb_retries = 0\<rparr>
       | Some m \<Rightarrow>
           if m < 0 then Inl ''Max must be undefined, a positive number or zero''
           else if m < initial
             then Inl ''Max must be undefined or greater than or equal to initial''
           else Inr \<lparr>lb_initial = initial, lb_increment = increment, lb_max = Some m,
                      lb_i = 0, lb_retries = 0\<rparr>))"

definition lb_value :: "linear_backoff \<Rightarrow> nat \<Rightarrow> int" where
  "lb_value b n = (case lb_max b of
      None \<Rightarrow> lb_initial b + lb_increment b * int n
    | Some m \<Rightarrow> min (lb_initial b + lb_increment b * int n) m)"

definition lb_current :: "linear_backoff \<Rightarrow> int" where
  "lb_current b = lb_value b (lb_i b)"

definition lb_next :: "linear_backoff \<Rightarrow> int \<times> linear_backoff" where
  "lb_next b =
    (let b1 = b\<lparr>lb_retries := lb_retries b + 1\<rparr>; b2 = b1\<lparr>lb_i := lb_i b1 + 1\<rparr>
     in (lb_current b2, b2))"

definition lb_reset :: "linear_backoff \<Rightarrow> linear_backoff" where
  "lb_reset b = b\<lparr>lb_retries := 0, lb_i := 0\<rparr>"

interpretation lb: backoff_series lb_retries lb_current lb_next lb_reset
  lb_value "\<lambda>b. lb_i b = lb_retries b"
  by unfold_locales (auto simp: lb_current_def lb_value_def lb_next_def lb_reset_def Let_def
      fun_eq_iff split: option.splits)

section \<open>A strategy is one of the three classes\<close>

datatype backoff = Constant constant_backoff | Exponential exponential_backoff | Linear linear_backoff

fun bo_retries :: "backoff \<Rightarrow> nat" where
  "bo_retries (Constant b) = cb_retries b"
| "bo_retries (Exponential b) = eb_retries b"
| "bo_retries (Linear b) = lb_retries b"

fun bo_current :: "backoff \<Rightarrow> int" where
  "bo_current (Constant b) = cb_current b"
| "bo_current (Exponential b) = eb_current b"
| "bo_current (Linear b) = lb_current b"

fun bo_next :: "backoff \<Rightarrow> int \<times> backoff" where
  "bo_next (Constant b) = map_prod id Constant (cb_next b)"
| "bo_next (Exponential b) = map_prod id Exponential (eb_next b)"
| "bo_next (Linear b) = map_prod id Linear (lb_next b)"

fun bo_reset :: "backoff \<Rightarrow> backoff" where
  "bo_reset (Constant b) = Constant (cb_reset b)"
| "bo_reset (Exponential b) = Exponential (eb_reset b)"
| "bo_reset (Linear b) = Linear (lb_reset b)"

fun bo_series :: "backoff \<Rightarrow> nat \<Rightarrow> int" where
  "bo_series (Constant b) n = cb_backoff b"
| "bo_series (Exponential b) n = eb_base b * 2 ^ eb_exponent b n"
| "bo_series (Linear b) n = lb_value b n"

fun bo_inv :: "backoff \<Rightarrow> bool" where
  "bo_inv (Constant b) = True"
| "bo_inv (Exponential b) = eb_inv b"
| "bo_inv (Linear b) = (lb_i b = lb_retries b)"

interpretation bo: backoff_series bo_retries bo_current bo_next bo_reset bo_series bo_inv
proof unfold_locales
  fix b
  show "bo_inv b \<Longrightarrow> bo_current b = bo_series b (bo_retries b)"
    by (cases b) (auto simp: cb.current_series eb.current_series lb.current_series)
  show "fst (bo_next b) = bo_current (snd (bo_next b))"
    by (cases b) (auto simp: cb.fst_nxt eb.fst_nxt lb.fst_nxt)
  show "bo_retries (snd (bo_next b)) = Suc (bo_retries b)"
    by (cases b) (auto simp: cb.retries_nxt eb.retries_nxt lb.retries_nxt)
  show "bo_series (snd (bo_next b)) = bo_series b"
    using cb.series_nxt eb.series_nxt lb.series_nxt by (cases b) (auto simp: fun_eq_iff)
  show "bo_inv b \<Longrightarrow> bo_inv (snd (bo_next b))"
    by (cases b) (auto simp: eb.invar_nxt lb.invar_nxt)
  show "bo_retries (bo_reset b) = 0"
    by (cases b) (auto simp: cb.retries_reset eb.retries_reset lb.retries_reset)
  show "bo_series (bo_reset b) = bo_series b"
    using cb.series_reset eb.series_reset lb.series_reset by (cases b) (auto simp: fun_eq_iff)
  show "bo_inv (bo_reset b)"
    by (cases b) (auto simp: eb.invar_reset lb.invar_reset)
qed

section \<open>What the strategies promise\<close>

text \<open>
  An exponential backoff made with base \<open>b\<close> and an optional bound on the exponent
  produces, on its first \<open>n\<close> calls of \<open>next\<close>, the delays \<open>b * 2^1\<close>, \<open>b * 2^2\<close>, and so
  on, with the exponent capped: the series starts at exponent 1, so the base itself is
  never a retry delay.
\<close>

theorem exponential_delays:
  assumes "exponential_new (Integral b) (map_option (\<lambda>m. Integral (int m)) mx) = Inr e"
  shows "delays eb_next n e =
           map (\<lambda>k. b * 2 ^ (case mx of None \<Rightarrow> k | Some m \<Rightarrow> min k m)) [1..<Suc n]"
proof -
  have "eb_inv e" and "eb_retries e = 0" and "eb_base e = b" and "eb_expMax e = mx"
    using assms
    by (auto simp: exponential_new_def eb_inv_def eb_exponent_def split: if_splits option.splits)
  then show ?thesis
    using eb.delays_series[of e n] by (simp add: eb_exponent_def)
qed

theorem exponential_delays_witness:
  "delays eb_next 4 \<lparr>eb_base = 1000, eb_expMax = Some 3, eb_i = 0, eb_retries = 0\<rparr> =
     [2000, 4000, 8000, 8000]"
proof -
  have "exponential_new (Integral 1000) (map_option (\<lambda>m. Integral (int m)) (Some 3)) =
      Inr \<lparr>eb_base = 1000, eb_expMax = Some 3, eb_i = 0, eb_retries = 0\<rparr>"
    by (simp add: exponential_new_def)
  moreover have "[1..<Suc 4] = [1, 2, 3, 4::nat]" by (simp add: upt_rec)
  ultimately show ?thesis using exponential_delays[of 1000 "Some 3" _ 4] by simp
qed

lemma lb_value_mono: "0 \<le> lb_increment b \<Longrightarrow> m \<le> n \<Longrightarrow> lb_value b m \<le> lb_value b n"
proof -
  assume inc: "0 \<le> lb_increment b" and le: "m \<le> n"
  have "lb_increment b * int m \<le> lb_increment b * int n"
    using le by (intro mult_left_mono) (simp_all add: inc)
  then show ?thesis by (auto simp: lb_value_def split: option.splits)
qed

text \<open>
  The delays of a linear backoff that its constructor accepts never decrease, never
  fall below the initial delay and never exceed the maximum.
\<close>

theorem linear_delays_bounded:
  assumes "linear_new initial increment mx = Inr b"
  shows "sorted (delays lb_next n b) \<and>
         (\<forall>d \<in> set (delays lb_next n b). initial \<le> d \<and> (mx = None \<or> d \<le> the mx))"
proof -
  have b: "lb_i b = lb_retries b" "0 \<le> lb_increment b" "lb_initial b = initial" "lb_max b = mx"
    and mx: "\<forall>m. mx = Some m \<longrightarrow> initial \<le> m"
    using assms by (auto simp: linear_new_def split: if_splits option.splits)
  note eq = lb.delays_series[OF b(1), of n]
  have "sorted (delays lb_next n b)"
    unfolding eq sorted_map
    by (rule sorted_wrt_mono_rel[OF _ sorted_wrt_upt]) (auto intro: lb_value_mono b(2))
  moreover have "initial \<le> lb_value b k \<and> (mx = None \<or> lb_value b k \<le> the mx)" for k
    using mx lb_value_mono[OF b(2), of 0 k]
    by (auto simp: lb_value_def b(3,4) split: option.splits)
  ultimately show ?thesis unfolding eq by auto
qed

theorem linear_delays_bounded_witness:
  "sorted (delays lb_next 2
     \<lparr>lb_initial = 5, lb_increment = 10, lb_max = Some 20, lb_i = 0, lb_retries = 0\<rparr>)"
  using linear_delays_bounded[of 5 10 "Some 20"
      "\<lparr>lb_initial = 5, lb_increment = 10, lb_max = Some 20, lb_i = 0, lb_retries = 0\<rparr>" 2]
  by (simp add: linear_new_def)

end
