(* ===== verification/Framing.thy ===== *)
theory Framing
  imports Prelude
begin

text \<open>
  Message framing of \<open>packages/collaboration/src/websocket/platform/framing\<close>: a binary
  message is split into frames \<open>[isFinal, ...chunk]\<close> of bounded size
  (\<open>frames.ts: intoFrames\<close>), put together again by a \<open>Reassembler\<close>, and both are wired
  around a socket by \<open>FramedWebSocket\<close> (\<open>framed-websocket.ts\<close>), which leaves strings
  alone.  The loop of \<open>intoFrames\<close> does not end for a chunk size of 0, so it is a partial
  function.
\<close>

section \<open>\<open>frames.ts\<close>\<close>

definition MAX_CHUNK_SIZE :: nat where
  "MAX_CHUNK_SIZE = 900000"

text \<open>\<open>Uint8Array.subarray(from, to)\<close>, clamped to the array.\<close>

definition subarray :: "'a list \<Rightarrow> nat \<Rightarrow> nat \<Rightarrow> 'a list" where
  "subarray xs from to = take (to - from) (drop from xs)"

partial_function (option) intoFrames_loop ::
  "byte list \<Rightarrow> nat \<Rightarrow> nat \<Rightarrow> byte list list \<Rightarrow> byte list list option" where
  "intoFrames_loop payload maxChunk offset frames =
     (if offset < length payload \<or> length frames = 0 then
        let chunk = subarray payload offset (offset + maxChunk);
            isFinal = (offset + maxChunk \<ge> length payload);
            frame = (if isFinal then 1 else 0) # chunk
        in intoFrames_loop payload maxChunk (offset + maxChunk) (frames @ [frame])
      else Some frames)"

definition intoFrames :: "byte list \<Rightarrow> nat \<Rightarrow> byte list list option" where
  "intoFrames payload maxChunk = intoFrames_loop payload maxChunk 0 []"

text \<open>\<open>concat\<close>: allocate the total length, then copy each chunk to its offset.\<close>

definition typed_set :: "byte list \<Rightarrow> byte list \<Rightarrow> nat \<Rightarrow> byte list" where
  "typed_set out chunk offset = take offset out @ chunk @ drop (offset + length chunk) out"

definition concat_chunks :: "byte list list \<Rightarrow> byte list" where
  "concat_chunks chunks =
    (let total = fold (\<lambda>chunk sum. sum + length chunk) chunks 0;
         out = replicate total 0
     in fst (fold (\<lambda>chunk (out, offset). (typed_set out chunk offset, offset + length chunk))
               chunks (out, 0)))"

record reassembler =
  ra_chunks :: "byte list list"

definition reassembler_new :: reassembler where
  "reassembler_new = \<lparr>ra_chunks = []\<rparr>"

definition ra_push :: "byte list \<Rightarrow> reassembler \<Rightarrow> byte list option \<times> reassembler" where
  "ra_push frame r =
    (let isFinal = (case frame of [] \<Rightarrow> False | b # _ \<Rightarrow> b = 1);
         r1 = r\<lparr>ra_chunks := ra_chunks r @ [drop 1 frame]\<rparr>
     in if \<not> isFinal then (None, r1)
        else (Some (concat_chunks (ra_chunks r1)), r1\<lparr>ra_chunks := []\<rparr>))"

section \<open>\<open>framed-websocket.ts\<close>\<close>

text \<open>What \<open>send\<close> is given, and what crosses the wire.\<close>

datatype payload =
    PString string
  | PUint8Array "byte list"
  | PView "byte list" nat nat \<comment> \<open>buffer, byteOffset, byteLength\<close>
  | PArrayBuffer "byte list"
  | PBlob "byte list"

datatype wire = Text string | Binary "byte list"

fun toBytes :: "payload \<Rightarrow> string + byte list" where
  "toBytes (PUint8Array bs) = Inr bs"
| "toBytes (PView buf off len) = Inr (take len (drop off buf))"
| "toBytes (PArrayBuffer bs) = Inr bs"
| "toBytes _ = Inl ''FramedWebSocket: unsupported binary payload type''"

text \<open>The messages handed to the inner socket; \<^const>\<open>None\<close> if framing does not end.\<close>

fun framed_send :: "nat \<Rightarrow> payload \<Rightarrow> (string + wire list) option" where
  "framed_send maxChunk (PString s) = Some (Inr [Text s])"
| "framed_send maxChunk data =
     (case toBytes data of
        Inl e \<Rightarrow> Some (Inl e)
      | Inr bytes \<Rightarrow> map_option (\<lambda>frames. Inr (map Binary frames)) (intoFrames bytes maxChunk))"

record 'l framed =
  messageListeners :: "'l list" \<comment> \<open>a \<open>Set\<close>, in insertion order\<close>
  fr_reassembler :: reassembler

definition framed_new :: "'l framed" where
  "framed_new = \<lparr>messageListeners = [], fr_reassembler = reassembler_new\<rparr>"

datatype event_target = OwnListeners | InnerSocket

text \<open>Only listeners of \<open>message\<close> are kept here; the others go to the inner socket.\<close>

definition framed_addEventListener :: "string \<Rightarrow> 'l \<Rightarrow> 'l framed \<Rightarrow> event_target \<times> 'l framed" where
  "framed_addEventListener type l s =
    (if type = ''message''
     then (OwnListeners, s\<lparr>messageListeners := (if l \<in> set (messageListeners s)
             then messageListeners s else messageListeners s @ [l])\<rparr>)
     else (InnerSocket, s))"

definition framed_removeEventListener :: "string \<Rightarrow> 'l \<Rightarrow> 'l framed \<Rightarrow> event_target \<times> 'l framed" where
  "framed_removeEventListener type l s =
    (if type = ''message''
     then (OwnListeners, s\<lparr>messageListeners := filter (\<lambda>x. x \<noteq> l) (messageListeners s)\<rparr>)
     else (InnerSocket, s))"

definition framed_dispatchMessage :: "wire \<Rightarrow> 'l framed \<Rightarrow> ('l \<times> wire) list" where
  "framed_dispatchMessage event s = map (\<lambda>listener. (listener, event)) (messageListeners s)"

fun handleInnerMessage :: "wire \<Rightarrow> 'l framed \<Rightarrow> ('l \<times> wire) list \<times> 'l framed" where
  "handleInnerMessage (Text t) s = (framed_dispatchMessage (Text t) s, s)"
| "handleInnerMessage (Binary frame) s =
     (let (message, r) = ra_push frame (fr_reassembler s);
          s1 = s\<lparr>fr_reassembler := r\<rparr>
      in case message of
           None \<Rightarrow> ([], s1)
         | Some m \<Rightarrow> (framed_dispatchMessage (Binary m) s1, s1))"

section \<open>The chunks of a message\<close>

text \<open>The frames \<open>intoFrames\<close> is meant to produce, by recursion on the rest of the payload.\<close>

function frames_of :: "nat \<Rightarrow> byte list \<Rightarrow> byte list list" where
  "frames_of n bs = (if length bs \<le> n \<or> n = 0 then [1 # bs]
                     else (0 # take n bs) # frames_of n (drop n bs))"
  by pat_completeness auto
termination by (relation "measure (\<lambda>(n, bs). length bs)") auto

declare frames_of.simps [simp del]

lemma frames_of_last: "length bs \<le> n \<Longrightarrow> frames_of n bs = [1 # bs]"
  by (simp add: frames_of.simps)

lemma frames_of_more:
  "0 < n \<Longrightarrow> n < length bs \<Longrightarrow> frames_of n bs = (0 # take n bs) # frames_of n (drop n bs)"
  by (simp add: frames_of.simps)

lemma intoFrames_loop_frames_of:
  assumes "0 < n" and "offset < length bs \<or> frames = [] \<and> offset = 0"
  shows "intoFrames_loop bs n offset frames = Some (frames @ frames_of n (drop offset bs))"
  using assms(2)
proof (induction "length bs - offset" arbitrary: offset frames rule: less_induct)
  case less
  let ?rest = "drop offset bs"
  note unfold = intoFrames_loop.simps[of bs n offset frames]
  show ?case
  proof (cases "offset + n < length bs")
    case True
    then have "intoFrames_loop bs n offset frames =
        intoFrames_loop bs n (offset + n) (frames @ [0 # take n ?rest])"
      using less.prems by (auto simp: unfold subarray_def Let_def)
    also have "\<dots> = Some ((frames @ [0 # take n ?rest]) @ frames_of n (drop (offset + n) bs))"
      using True assms(1) by (intro less.hyps) auto
    also have "(frames @ [0 # take n ?rest]) @ frames_of n (drop (offset + n) bs) =
        frames @ frames_of n ?rest"
      using True assms(1) by (simp add: frames_of_more add.commute)
    finally show ?thesis .
  next
    case False
    then have "intoFrames_loop bs n offset frames =
        intoFrames_loop bs n (offset + n) (frames @ [1 # ?rest])"
      using less.prems by (auto simp: unfold subarray_def Let_def)
    also have "\<dots> = Some (frames @ [1 # ?rest])"
      using False by (simp add: intoFrames_loop.simps[of bs n "offset + n"])
    finally show ?thesis using False by (simp add: frames_of_last)
  qed
qed

lemma intoFrames_eq: "0 < n \<Longrightarrow> intoFrames bs n = Some (frames_of n bs)"
  using intoFrames_loop_frames_of[of n 0 bs "[]"] by (simp add: intoFrames_def)

subsection \<open>Copying chunks\<close>

lemma total_length: "fold (\<lambda>chunk sum. sum + length chunk) cs n = n + length (concat cs)"
  by (induction cs arbitrary: n) auto

lemma copy_loop:
  "fst (fold (\<lambda>chunk (out, offset). (typed_set out chunk offset, offset + length chunk)) cs
         (done @ replicate (length (concat cs)) 0, length done)) = done @ concat cs"
proof (induction cs arbitrary: "done")
  case (Cons c cs)
  have "typed_set (done @ replicate (length (concat (c # cs))) 0) c (length done) =
      (done @ c) @ replicate (length (concat cs)) 0"
    by (simp add: typed_set_def)
  with Cons.IH[of "done @ c"] show ?case by simp
qed simp

lemma concat_chunks_eq: "concat_chunks cs = concat cs"
  using copy_loop[of cs "[]"] by (simp add: concat_chunks_def total_length)

subsection \<open>Reassembly\<close>

text \<open>Feeding a list of frames, collecting the completed messages.\<close>

primrec feed :: "byte list list \<Rightarrow> reassembler \<Rightarrow> byte list list \<times> reassembler" where
  "feed [] r = ([], r)"
| "feed (f # fs) r =
     (let (m, r1) = ra_push f r; (ms, r2) = feed fs r1
      in (case m of None \<Rightarrow> ms | Some x \<Rightarrow> x # ms, r2))"

lemma feed_append:
  "feed (fs @ gs) r = (fst (feed fs r) @ fst (feed gs (snd (feed fs r))),
                       snd (feed gs (snd (feed fs r))))"
  by (induction fs arbitrary: r) (auto simp: Let_def split: prod.splits option.splits)

lemma feed_frames_of:
  "0 < n \<Longrightarrow> feed (frames_of n bs) r = ([concat (ra_chunks r) @ bs], r\<lparr>ra_chunks := []\<rparr>)"
proof (induction n bs arbitrary: r rule: frames_of.induct)
  case (1 n bs)
  show ?case
  proof (cases "length bs \<le> n")
    case True
    then show ?thesis by (simp add: frames_of_last ra_push_def Let_def concat_chunks_eq)
  next
    case False
    with 1 show ?thesis by (simp add: frames_of_more ra_push_def Let_def)
  qed
qed

text \<open>
  For every positive chunk size, framing returns, and a receiver that had delivered
  everything before gets exactly the sent messages back, one for each, in order, and is
  again ready for the next message.
\<close>

theorem frames_roundtrip:
  assumes "0 < n" and "map (\<lambda>m. intoFrames m n) ms = map Some fss"
  shows "feed (concat fss) reassembler_new = (ms, reassembler_new)"
  using assms(2)
proof (induction ms arbitrary: fss)
  case Nil
  then show ?case by (simp add: reassembler_new_def)
next
  case (Cons m ms)
  then obtain fs fss' where fss: "fss = fs # fss'" and "intoFrames m n = Some fs"
    and rest: "map (\<lambda>m. intoFrames m n) ms = map Some fss'"
    by (cases fss) auto
  then have "fs = frames_of n m" using intoFrames_eq[OF assms(1)] by simp
  then have "feed fs reassembler_new = ([m], reassembler_new)"
    using feed_frames_of[OF assms(1), of m reassembler_new] by (simp add: reassembler_new_def)
  with Cons.IH[OF rest] fss show ?case by (simp add: feed_append)
qed

theorem frames_roundtrip_witness:
  "feed [[0, 7, 8], [1, 9], [1]] reassembler_new = ([[7, 8, 9], []], reassembler_new)"
proof -
  have "map (\<lambda>m. intoFrames m 2) [[7, 8, 9], []] = map Some [[[0, 7, 8], [1, 9]], [[1]]]"
    by (simp add: intoFrames_eq frames_of.simps numeral_2_eq_2)
  from frames_roundtrip[OF _ this] show ?thesis by simp
qed

lemma frames_of_bound: "0 < n \<Longrightarrow> f \<in> set (frames_of n bs) \<Longrightarrow> 1 \<le> length f \<and> length f \<le> Suc n"
proof (induction n bs rule: frames_of.induct)
  case (1 n bs)
  then show ?case
    by (cases "length bs \<le> n") (auto simp: frames_of_last frames_of_more)
qed

lemma frames_of_flags:
  "0 < n \<Longrightarrow> map hd (frames_of n bs) = replicate (length (frames_of n bs) - 1) 0 @ [1]"
proof (induction n bs rule: frames_of.induct)
  case (1 n bs)
  show ?case
  proof (cases "length bs \<le> n")
    case False
    have "0 < length (frames_of n (drop n bs))" by (subst frames_of.simps) simp
    then obtain k where "length (frames_of n (drop n bs)) = Suc k" by (cases "length (frames_of n (drop n bs))") auto
    with False 1 show ?thesis by (simp add: frames_of_more)
  qed (simp add: frames_of_last)
qed

text \<open>
  Every frame that \<open>intoFrames\<close> produces is non-empty and carries at most
  \<open>maxChunk\<close> payload bytes after its flag byte, and exactly the last one is marked final.
\<close>

theorem frames_bounded:
  assumes "intoFrames bs n = Some fs" and "0 < n"
  shows "(\<forall>f \<in> set fs. 1 \<le> length f \<and> length f \<le> Suc n) \<and>
         map hd fs = replicate (length fs - 1) 0 @ [1]"
  using assms frames_of_bound[OF assms(2)] frames_of_flags[OF assms(2)] by (auto simp: intoFrames_eq)

theorem frames_bounded_witness:
  "map hd [[0, 7, 8], [1, 9 :: byte]] = replicate (length [[0, 7, 8], [1, 9 :: byte]] - 1) 0 @ [1]"
proof -
  have "intoFrames [7, 8, 9] 2 = Some [[0, 7, 8], [1, 9]]"
    by (simp add: intoFrames_eq frames_of.simps numeral_2_eq_2)
  from frames_bounded[OF this] show ?thesis by simp
qed

section \<open>Two framed sockets, end to end\<close>

primrec receive_all :: "wire list \<Rightarrow> 'l framed \<Rightarrow> ('l \<times> wire) list \<times> 'l framed" where
  "receive_all [] s = ([], s)"
| "receive_all (w # ws) s =
     (let (d, s1) = handleInnerMessage w s; (ds, s2) = receive_all ws s1 in (d @ ds, s2))"

text \<open>What the application at the other end sees of a payload.\<close>

fun seen :: "payload \<Rightarrow> wire" where
  "seen (PString s) = Text s"
| "seen p = Binary (case toBytes p of Inl _ \<Rightarrow> [] | Inr bs \<Rightarrow> bs)"

lemma receive_all_append:
  "receive_all (xs @ ys) s = (fst (receive_all xs s) @ fst (receive_all ys (snd (receive_all xs s))),
                              snd (receive_all ys (snd (receive_all xs s))))"
  by (induction xs arbitrary: s) (auto simp: Let_def split: prod.splits)

lemma receive_frames:
  "receive_all (map Binary fs) s =
     (concat (map (\<lambda>m. framed_dispatchMessage (Binary m) s) (fst (feed fs (fr_reassembler s)))),
      s\<lparr>fr_reassembler := snd (feed fs (fr_reassembler s))\<rparr>)"
  by (induction fs arbitrary: s)
    (auto simp: Let_def framed_dispatchMessage_def split: prod.splits option.splits)

lemma receive_sent:
  assumes "0 < n" and "framed_send n p = Some (Inr ws)" and "fr_reassembler s = reassembler_new"
  shows "receive_all ws s = (framed_dispatchMessage (seen p) s, s)"
proof (cases "\<exists>t. p = PString t")
  case True
  with assms show ?thesis by auto
next
  case False
  then obtain bs where bs: "toBytes p = Inr bs" and ws: "ws = map Binary (frames_of n bs)"
    using assms(1,2) by (cases p) (auto simp: intoFrames_eq)
  have "seen p = Binary bs" using False bs by (cases p) auto
  then show ?thesis
    unfolding ws receive_frames
    using assms(3) by (simp add: feed_frames_of[OF assms(1)] reassembler_new_def)
qed

text \<open>
  C38.  End to end over an ordered connection: whatever strings and binary payloads are
  sent through one framed socket, every message listener of the other one is called once
  for each, with the payload's content, in the order they were sent; strings pass
  unframed.  Nothing partial is left behind.
\<close>

theorem framed_delivery:
  assumes "0 < n" and "map (framed_send n) ps = map (Some \<circ> Inr) wss"
    and "fr_reassembler s = reassembler_new"
  shows "receive_all (concat wss) s =
           (concat (map (\<lambda>p. map (\<lambda>l. (l, seen p)) (messageListeners s)) ps), s)"
  using assms(2)
proof (induction ps arbitrary: wss)
  case (Cons p ps)
  then obtain ws wss' where wss: "wss = ws # wss'" and p: "framed_send n p = Some (Inr ws)"
    and rest: "map (framed_send n) ps = map (Some \<circ> Inr) wss'"
    by (cases wss) auto
  show ?case
    using receive_sent[OF assms(1) p assms(3)] Cons.IH[OF rest]
    by (simp add: wss receive_all_append framed_dispatchMessage_def)
qed simp

theorem framed_delivery_witness:
  "receive_all [Text ''ping'', Binary [0, 1, 2], Binary [1, 3]]
      \<lparr>messageListeners = [''a''], fr_reassembler = reassembler_new\<rparr> =
     ([(''a'', Text ''ping''), (''a'', Binary [1, 2, 3])],
      \<lparr>messageListeners = [''a''], fr_reassembler = reassembler_new\<rparr>)"
proof -
  have "map (framed_send 2) [PString ''ping'', PUint8Array [1, 2, 3]] =
      map (Some \<circ> Inr) [[Text ''ping''], [Binary [0, 1, 2], Binary [1, 3]]]"
    by (simp add: intoFrames_eq frames_of.simps numeral_2_eq_2)
  from framed_delivery[OF _ this, of "\<lparr>messageListeners = [''a''], fr_reassembler = reassembler_new\<rparr>"]
  show ?thesis by simp
qed

end
