(* ===== verification/Coordinator.thy ===== *)
theory Coordinator
  imports Prelude
begin

text \<open>
  The cache coordinator of \<open>apps/web/src/lib/graphql-cache/worker/coordinator-core.ts\<close>: a
  state machine in a shared worker that elects one browser tab to own the cache database,
  numbers owners by epochs, routes the requests of every tab to the owner, drains it when
  it leaves and recovers when it is lost.  This theory holds the data and every method of
  \<open>CoordinatorCore\<close>; \<open>Coordinator_Invariant\<close> proves what it promises.  The payloads of
  requests, responses and pushes are opaque to the coordinator and are type parameters.
  Epochs and route ids are natural numbers; \<open>route\<close> checks the safe-integer bound as the
  code does.
\<close>

section \<open>Data\<close>

type_synonym tab = string
type_synonym owner_epoch = nat
type_synonym route_id = nat

datatype database_action = OpenExisting | WipeBeforeOpen
datatype database_action_proof = ProofOpenedExisting | ProofWipedBeforeOpen

datatype engine_open_outcome =
  OpenedExisting | OpenedNew | ResetIncompatible | ResetCorrupt | ResetStorageUncertain

datatype engine_startup_phase = LoadingAssets | AwaitingOwnerLock | OpeningDatabase

datatype cache_request_kind =
    Init | CurrentRevision | CurrentStorageGeneration | InspectMutations | Read | Write | Hydrate
  | EnqueueOptimisticMutation | ClaimNextMutation | DeferOptimisticWrite | CommitOptimisticWrite
  | RollbackOptimisticWrite | ReadRecordsByKeys | Search | EntityFilter | CalendarRange
  | CalendarCommit | InspectQuery | InspectQueryVariants | Teardown | Invalidate | DeleteRecords
  | ClearCache

record 'p cache_request =
  req_id :: nat
  req_kind :: cache_request_kind
  req_body :: 'p

datatype cache_response_error_code = OwnerEpochLost | OwnerLockUnavailable | AdmittedEnqueueUncertain

record 'r cache_response =
  res_id :: nat
  res_body :: 'r

datatype coordinator_state =
    WaitingForTab database_action
  | Parked database_action
  | Activating tab owner_epoch database_action engine_startup_phase
  | Active tab owner_epoch
  | Draining tab owner_epoch
  | ResettingAfterLoss tab owner_epoch owner_epoch database_action string
      \<comment> \<open>previous tab, previous epoch, next epoch, database action, reason\<close>
  | Failed string bool \<comment> \<open>reason, storage untouched\<close>

record 'p queued_request =
  q_tabId :: tab
  q_request :: "'p cache_request"

record 'p in_flight_request =
  f_tabId :: tab
  f_request :: "'p cache_request"
  f_routeId :: route_id
  f_ownerEpoch :: owner_epoch

datatype stale_reason = StaleEpoch | UnknownRoute | InactiveEngine

datatype ('p, 'r, 'u) coordinator_action =
    ElectOwner tab owner_epoch database_action
  | RouteRequest tab tab owner_epoch route_id "'p cache_request"
      \<comment> \<open>owner, requester, epoch, route, request renumbered by the route\<close>
  | DeliverResponse tab "'r cache_response"
  | BroadcastPush 'u
  | RejectRequest tab nat string "cache_response_error_code option"
  | DrainOwner tab owner_epoch bool \<comment> \<open>tab, epoch, handoff\<close>
  | ReleaseOwner tab owner_epoch
  | HandoffPending owner_epoch
  | CloseEngineRoute tab owner_epoch
  | DropTab tab
  | RetireTab tab owner_epoch
  | ScheduleResetActivation
  | BroadcastCacheUnavailable string
  | BroadcastCacheSuperseded string
  | NotifyCacheUnavailable tab string
  | BroadcastEngineReplaced owner_epoch engine_open_outcome
  | DropStaleEngineMessage owner_epoch "route_id option" stale_reason
  | ProtocolViolation string
  | TerminalFailure string bool

datatype core_error =
  EmptyScope | RequestsWithoutOwner | StaleOwnerEpochInFlight | RouteIdSpaceExhausted

record engine_ready =
  er_tabId :: tab
  er_ownerEpoch :: owner_epoch
  er_ownerLockName :: string
  er_expectedOwnerLockName :: string
  er_ownerLockHeld :: bool
  er_databaseActionProof :: database_action_proof
  er_openOutcome :: engine_open_outcome

record 'p core =
  scope :: string
  stateValue :: coordinator_state
  tabs :: "tab list"
  retiringTabs :: "tab set"
  visibleTabs :: "tab set"
  unavailableTabs :: "tab \<rightharpoonup> string"
  supersededReason :: "string option"
  queuedRequests :: "'p queued_request list"
  inFlight :: "(route_id \<times> 'p in_flight_request) list"
  currentEpoch :: owner_epoch
  nextRouteId :: route_id
  staleMessageDrops :: nat
  protocolViolations :: nat

text \<open>The constructor throws on an empty scope.\<close>

definition core_new :: "string \<Rightarrow> core_error + 'p core" where
  "core_new s =
    (if length s = 0 then Inl EmptyScope
     else Inr \<lparr>scope = s, stateValue = WaitingForTab OpenExisting, tabs = [], retiringTabs = {},
               visibleTabs = {}, unavailableTabs = Map.empty, supersededReason = None,
               queuedRequests = [], inFlight = [], currentEpoch = 0, nextRouteId = 1,
               staleMessageDrops = 0, protocolViolations = 0\<rparr>)"

fun proofFor :: "engine_open_outcome \<Rightarrow> database_action_proof" where
  "proofFor ResetIncompatible = ProofWipedBeforeOpen"
| "proofFor ResetCorrupt = ProofWipedBeforeOpen"
| "proofFor ResetStorageUncertain = ProofWipedBeforeOpen"
| "proofFor OpenedExisting = ProofOpenedExisting"
| "proofFor OpenedNew = ProofOpenedExisting"

definition startupPhaseMayTouchStorage :: "engine_startup_phase \<Rightarrow> bool" where
  "startupPhaseMayTouchStorage phase \<longleftrightarrow> phase = OpeningDatabase"

definition OWNER_LOCK_UNAVAILABLE_REASON :: string where
  "OWNER_LOCK_UNAVAILABLE_REASON =
    ''cache database owner lock is held by another context, such as another app version''"

definition STORAGE_BUSY_REASON :: string where
  "STORAGE_BUSY_REASON =
    ''cache database files are still open in another context, such as a closing tab''"

definition SUPERSEDED_REASON :: string where
  "SUPERSEDED_REASON = ''a newer version of the app took over the local cache''"

definition isMutationSettlement :: "'p cache_request \<Rightarrow> bool" where
  "isMutationSettlement r \<longleftrightarrow>
     req_kind r = CommitOptimisticWrite \<or> req_kind r = RollbackOptimisticWrite \<or>
     req_kind r = DeferOptimisticWrite"

section \<open>Private methods\<close>

type_synonym ('p, 'r, 'u) actions = "('p, 'r, 'u) coordinator_action list"

definition eligibleTabs :: "'p core \<Rightarrow> tab list" where
  "eligibleTabs c = filter (\<lambda>t. t \<notin> retiringTabs c \<and> unavailableTabs c t = None) (tabs c)"

definition chooseCandidate :: "tab option \<Rightarrow> 'p core \<Rightarrow> tab option" where
  "chooseCandidate avoid c =
    (let visible = filter (\<lambda>t. t \<in> visibleTabs c) (eligibleTabs c)
     in case List.find (\<lambda>t. Some t \<noteq> avoid) visible of
          Some t \<Rightarrow> Some t
        | None \<Rightarrow> (case visible of [] \<Rightarrow> None | t # _ \<Rightarrow> Some t))"

text \<open>The visible getter on the same choice.\<close>

definition hasVisibleTab :: "'p core \<Rightarrow> bool" where
  "hasVisibleTab c \<longleftrightarrow> chooseCandidate None c \<noteq> None"

text \<open>Electing tests the candidate with \<open>!candidate\<close>, which also skips the empty string.\<close>

definition truthyCandidate :: "tab option \<Rightarrow> 'p core \<Rightarrow> tab option" where
  "truthyCandidate avoid c =
    (case chooseCandidate avoid c of None \<Rightarrow> None | Some t \<Rightarrow> if t = [] then None else Some t)"

definition activateNext ::
  "database_action \<Rightarrow> 'p core \<Rightarrow> ('p, 'r, 'u) actions \<times> 'p core" where
  "activateNext databaseAction c =
    (case truthyCandidate None c of
       None \<Rightarrow>
         ([], c\<lparr>stateValue := (if length (eligibleTabs c) > 0 then Parked databaseAction
                              else WaitingForTab databaseAction)\<rparr>)
     | Some candidate \<Rightarrow>
         (let c1 = c\<lparr>currentEpoch := currentEpoch c + 1\<rparr>
          in ([ElectOwner candidate (currentEpoch c1) databaseAction],
              c1\<lparr>stateValue := Activating candidate (currentEpoch c1) databaseAction
                                 LoadingAssets\<rparr>)))"

definition handoffIfNeeded :: "'p core \<Rightarrow> ('p, 'r, 'u) actions \<times> 'p core" where
  "handoffIfNeeded c =
    (case stateValue c of
       Active t e \<Rightarrow>
         if t \<in> visibleTabs c then ([], c)
         else ([DrainOwner t e True], c\<lparr>stateValue := Draining t e\<rparr>)
     | Activating t e _ _ \<Rightarrow>
         if t \<in> visibleTabs c then ([], c) else ([HandoffPending e], c)
     | _ \<Rightarrow> ([], c))"

definition route ::
  "'p queued_request \<Rightarrow> tab \<Rightarrow> owner_epoch \<Rightarrow> 'p core \<Rightarrow>
   (core_error, ('p, 'r, 'u) coordinator_action, 'p core) outcome" where
  "route queued owner epoch c =
    (if \<not> isSafeInteger (nextRouteId c) then (Inl RouteIdSpaceExhausted, c)
     else
      let routeId = nextRouteId c;
          c1 = c\<lparr>nextRouteId := nextRouteId c + 1,
                 inFlight := AList.update routeId
                   \<lparr>f_tabId = q_tabId queued, f_request = q_request queued,
                    f_routeId = routeId, f_ownerEpoch = epoch\<rparr> (inFlight c)\<rparr>
      in (Inr (RouteRequest owner (q_tabId queued) epoch routeId
                 ((q_request queued)\<lparr>req_id := routeId\<rparr>)), c1))"

definition removeTabRecord :: "tab \<Rightarrow> 'p core \<Rightarrow> 'p core" where
  "removeTabRecord t c =
    c\<lparr>tabs := remove1 t (tabs c),
      unavailableTabs := (unavailableTabs c)(t := None),
      visibleTabs := visibleTabs c - {t},
      queuedRequests := filter (\<lambda>q. \<not> (q_tabId q = t \<and> \<not> isMutationSettlement (q_request q)))
                               (queuedRequests c),
      inFlight := filter (\<lambda>(_, f). f_tabId f \<noteq> t) (inFlight c)\<rparr>"

definition acceptsEngineMessages :: "owner_epoch \<Rightarrow> 'p core \<Rightarrow> bool" where
  "acceptsEngineMessages epoch c =
    (case stateValue c of Active _ e \<Rightarrow> e = epoch | Draining _ e \<Rightarrow> e = epoch | _ \<Rightarrow> False)"

definition reject ::
  "tab \<Rightarrow> nat \<Rightarrow> string \<Rightarrow> cache_response_error_code option \<Rightarrow> ('p, 'r, 'u) coordinator_action" where
  "reject t requestId error errorCode = RejectRequest t requestId error errorCode"

definition rejectUnavailable :: "tab \<Rightarrow> nat \<Rightarrow> string \<Rightarrow> ('p, 'r, 'u) coordinator_action" where
  "rejectUnavailable t requestId reason = reject t requestId reason (Some OwnerLockUnavailable)"

definition rejectEpochRequests ::
  "owner_epoch \<Rightarrow> string \<Rightarrow> cache_response_error_code option \<Rightarrow> 'p core \<Rightarrow>
   ('p, 'r, 'u) actions \<times> 'p core" where
  "rejectEpochRequests epoch error errorCode c =
    (map (\<lambda>(_, f). reject (f_tabId f) (req_id (f_request f)) error
            (if req_kind (f_request f) = EnqueueOptimisticMutation
             then Some AdmittedEnqueueUncertain else errorCode))
         (filter (\<lambda>(_, f). f_ownerEpoch f = epoch) (inFlight c)),
     c\<lparr>inFlight := filter (\<lambda>(_, f). f_ownerEpoch f \<noteq> epoch) (inFlight c)\<rparr>)"

definition dropStale ::
  "owner_epoch \<Rightarrow> route_id option \<Rightarrow> stale_reason \<Rightarrow> 'p core \<Rightarrow>
   ('p, 'r, 'u) coordinator_action \<times> 'p core" where
  "dropStale epoch routeId reason c =
    (DropStaleEngineMessage epoch routeId reason,
     c\<lparr>staleMessageDrops := staleMessageDrops c + 1\<rparr>)"

definition recordProtocolViolation :: "string \<Rightarrow> 'p core \<Rightarrow> ('p, 'r, 'u) actions \<times> 'p core" where
  "recordProtocolViolation error c =
    ([ProtocolViolation error], c\<lparr>protocolViolations := protocolViolations c + 1\<rparr>)"

text \<open>The exception \<open>assertInvariants\<close> throws, if any.\<close>

definition assertInvariants :: "'p core \<Rightarrow> core_error option" where
  "assertInvariants c =
    (let check = (\<lambda>epoch. if \<exists>(_, f) \<in> set (inFlight c). f_ownerEpoch f \<noteq> epoch
                          then Some StaleOwnerEpochInFlight else None)
     in case stateValue c of
          Active _ e \<Rightarrow> check e
        | Draining _ e \<Rightarrow> check e
        | _ \<Rightarrow> if length (inFlight c) > 0 then Some RequestsWithoutOwner else None)"

definition asserting :: "'a \<Rightarrow> 'p core \<Rightarrow> (core_error, 'a, 'p core) outcome" where
  "asserting x c = (case assertInvariants c of None \<Rightarrow> (Inr x, c) | Some e \<Rightarrow> (Inl e, c))"

definition markUnavailable :: "string \<Rightarrow> 'p core \<Rightarrow> 'p core" where
  "markUnavailable reason c =
    c\<lparr>unavailableTabs := (\<lambda>t. if t \<in> set (tabs c) then Some reason else unavailableTabs c t)\<rparr>"

definition failClosed ::
  "tab \<Rightarrow> owner_epoch \<Rightarrow> database_action \<Rightarrow> string \<Rightarrow> 'p core \<Rightarrow>
   (core_error, ('p, 'r, 'u) actions, 'p core) outcome" where
  "failClosed t epoch nextDatabaseAction reason c =
    (let refused = map (\<lambda>q. rejectUnavailable (q_tabId q) (req_id (q_request q)) reason)
                       (queuedRequests c);
         c1 = markUnavailable reason (c\<lparr>queuedRequests := []\<rparr>);
         c2 = c1\<lparr>stateValue := WaitingForTab nextDatabaseAction\<rparr>
     in asserting (refused @ [CloseEngineRoute t epoch, BroadcastCacheUnavailable reason]) c2)"

text \<open>The owner a state names, with its epoch.\<close>

definition ownerOf :: "coordinator_state \<Rightarrow> (tab \<times> owner_epoch) option" where
  "ownerOf s = (case s of
      Activating t e _ _ \<Rightarrow> Some (t, e)
    | Active t e \<Rightarrow> Some (t, e)
    | Draining t e \<Rightarrow> Some (t, e)
    | _ \<Rightarrow> None)"

definition lossDatabaseAction :: "coordinator_state \<Rightarrow> database_action" where
  "lossDatabaseAction s = (case s of
      Activating _ _ databaseAction phase \<Rightarrow>
        if \<not> startupPhaseMayTouchStorage phase then databaseAction else WipeBeforeOpen
    | _ \<Rightarrow> WipeBeforeOpen)"

definition transitionToAbruptLoss ::
  "tab \<Rightarrow> owner_epoch \<Rightarrow> string \<Rightarrow> 'p core \<Rightarrow>
   (core_error, ('p, 'r, 'u) actions, 'p core) outcome" where
  "transitionToAbruptLoss t epoch reason c =
    (if ownerOf (stateValue c) \<noteq> Some (t, epoch) then (Inr [], c)
     else
      let (rejected, c1) = rejectEpochRequests epoch
            (''owner epoch '' @ show_nat epoch @ '' was lost: '' @ reason)
            (Some OwnerEpochLost) c;
          c2 = c1\<lparr>stateValue := ResettingAfterLoss t epoch (currentEpoch c1 + 1)
                    (lossDatabaseAction (stateValue c)) reason\<rparr>
      in asserting (rejected @ [CloseEngineRoute t epoch, ScheduleResetActivation]) c2)"

section \<open>Public methods\<close>

definition registerTab :: "tab \<Rightarrow> bool \<Rightarrow> 'p core \<Rightarrow> ('p, 'r, 'u) actions \<times> 'p core" where
  "registerTab t visible c =
    (if t \<in> set (tabs c) then ([], c)
     else
      let c1 = c\<lparr>tabs := tabs c @ [t],
                 visibleTabs := (if visible then insert t (visibleTabs c) else visibleTabs c)\<rparr>
      in case supersededReason c1 of
           Some r \<Rightarrow>
             ([NotifyCacheUnavailable t r], c1\<lparr>unavailableTabs := (unavailableTabs c1)(t \<mapsto> r)\<rparr>)
         | None \<Rightarrow>
             let c2 = (case stateValue c1 of
                         Failed _ True \<Rightarrow> c1\<lparr>stateValue := WaitingForTab OpenExisting\<rparr>
                       | _ \<Rightarrow> c1)
             in case stateValue c2 of
                  Failed reason untouched \<Rightarrow> ([TerminalFailure reason untouched], c2)
                | WaitingForTab a \<Rightarrow> activateNext a c2
                | Parked a \<Rightarrow> activateNext a c2
                | _ \<Rightarrow> handoffIfNeeded c2)"

definition setTabVisibility :: "tab \<Rightarrow> bool \<Rightarrow> 'p core \<Rightarrow> ('p, 'r, 'u) actions \<times> 'p core" where
  "setTabVisibility t visible c =
    (if t \<notin> set (tabs c) then ([], c)
     else
      let c1 = c\<lparr>visibleTabs := (if visible then insert t (visibleTabs c)
                                 else visibleTabs c - {t})\<rparr>
      in case stateValue c1 of
           Parked a \<Rightarrow> activateNext a c1
         | WaitingForTab a \<Rightarrow> activateNext a c1
         | _ \<Rightarrow> handoffIfNeeded c1)"

definition request ::
  "tab \<Rightarrow> 'p cache_request \<Rightarrow> 'p core \<Rightarrow> (core_error, ('p, 'r, 'u) actions, 'p core) outcome" where
  "request t req c =
    (if t \<notin> set (tabs c) then (Inr [reject t (req_id req) ''requester tab is not registered'' None], c)
     else if t \<in> retiringTabs c then (Inr [reject t (req_id req) ''requester tab is retiring'' None], c)
     else case stateValue c of
         Failed reason _ \<Rightarrow> (Inr [reject t (req_id req) reason None], c)
       | s \<Rightarrow>
         (case unavailableTabs c t of
            Some reason \<Rightarrow> (Inr [rejectUnavailable t (req_id req) reason], c)
          | None \<Rightarrow>
            let queued = \<lparr>q_tabId = t, q_request = req\<rparr>
            in case s of
                 Active owner epoch \<Rightarrow>
                   and_then (route queued owner epoch c) (\<lambda>a c1. (Inr [a], c1))
               | _ \<Rightarrow> (Inr [], c\<lparr>queuedRequests := queuedRequests c @ [queued]\<rparr>)))"

definition beginOwnerLockWait :: "tab \<Rightarrow> owner_epoch \<Rightarrow> 'p core \<Rightarrow> bool \<times> 'p core" where
  "beginOwnerLockWait t epoch c =
    (case stateValue c of
       Activating t' e' a LoadingAssets \<Rightarrow>
         if t' = t \<and> e' = epoch
         then (True, c\<lparr>stateValue := Activating t' e' a AwaitingOwnerLock\<rparr>)
         else (False, c)
     | _ \<Rightarrow> (False, c))"

definition ownerLockUnavailable ::
  "tab \<Rightarrow> owner_epoch \<Rightarrow> 'p core \<Rightarrow> (core_error, ('p, 'r, 'u) actions, 'p core) outcome" where
  "ownerLockUnavailable t epoch c =
    (case stateValue c of
       Activating t' e' a phase \<Rightarrow>
         if t' \<noteq> t \<or> e' \<noteq> epoch \<or> startupPhaseMayTouchStorage phase then (Inr [], c)
         else failClosed t epoch a OWNER_LOCK_UNAVAILABLE_REASON c
     | _ \<Rightarrow> (Inr [], c))"

definition storageBusy ::
  "tab \<Rightarrow> owner_epoch \<Rightarrow> 'p core \<Rightarrow> (core_error, ('p, 'r, 'u) actions, 'p core) outcome" where
  "storageBusy t epoch c =
    (case stateValue c of
       Activating t' e' a phase \<Rightarrow>
         if t' \<noteq> t \<or> e' \<noteq> epoch \<or> phase \<noteq> OpeningDatabase then (Inr [], c)
         else failClosed t epoch a STORAGE_BUSY_REASON c
     | _ \<Rightarrow> (Inr [], c))"

definition beginEngineOpen :: "tab \<Rightarrow> owner_epoch \<Rightarrow> 'p core \<Rightarrow> bool \<times> 'p core" where
  "beginEngineOpen t epoch c =
    (case stateValue c of
       Activating t' e' a AwaitingOwnerLock \<Rightarrow>
         if t' = t \<and> e' = epoch
         then (True, c\<lparr>stateValue := Activating t' e' a OpeningDatabase\<rparr>)
         else (False, c)
     | _ \<Rightarrow> (False, c))"

text \<open>The loop at the end of \<open>engineReady\<close>: the queue is taken from the front.\<close>

fun flushQueued ::
  "tab \<Rightarrow> owner_epoch \<Rightarrow> 'p queued_request list \<Rightarrow> 'p core \<Rightarrow>
   (core_error, ('p, 'r, 'u) actions, 'p core) outcome" where
  "flushQueued owner epoch [] c = (Inr [], c)"
| "flushQueued owner epoch (q # qs) c =
     (let c1 = c\<lparr>queuedRequests := qs\<rparr>
      in if q_tabId q \<in> set (tabs c1) \<or> isMutationSettlement (q_request q)
         then and_then (route q owner epoch c1) (\<lambda>a c2.
                and_then (flushQueued owner epoch qs c2) (\<lambda>as c3. (Inr (a # as), c3)))
         else flushQueued owner epoch qs c1)"

fun show_outcome :: "engine_open_outcome \<Rightarrow> string" where
  "show_outcome OpenedExisting = ''opened-existing''"
| "show_outcome OpenedNew = ''opened-new''"
| "show_outcome ResetIncompatible = ''reset-incompatible''"
| "show_outcome ResetCorrupt = ''reset-corrupt''"
| "show_outcome ResetStorageUncertain = ''reset-storage-uncertain''"

definition readyError :: "engine_ready \<Rightarrow> string option" where
  "readyError ready =
    (if \<not> er_ownerLockHeld ready
       then Some ''engine became ready without the exclusive owner lock''
     else if er_ownerLockName ready \<noteq> er_expectedOwnerLockName ready
       then Some ''engine reported the wrong physical owner lock''
     else if er_databaseActionProof ready \<noteq> proofFor (er_openOutcome ready)
       then Some (''engine proof does not match open outcome '' @ show_outcome (er_openOutcome ready))
     else None)"

definition engineReady ::
  "engine_ready \<Rightarrow> 'p core \<Rightarrow> (core_error, ('p, 'r, 'u) actions, 'p core) outcome" where
  "engineReady ready c =
    (case stateValue c of
       Activating t e a OpeningDatabase \<Rightarrow>
         if t \<noteq> er_tabId ready \<or> e \<noteq> er_ownerEpoch ready
         then apfst Inr (recordProtocolViolation
                (''unexpected engine-ready from '' @ er_tabId ready @ '' at epoch '' @
                 show_nat (er_ownerEpoch ready)) c)
         else (case readyError ready of
             Some error \<Rightarrow>
               (let (violation, c1) = recordProtocolViolation error c
                in and_then (transitionToAbruptLoss t e error c1) (\<lambda>lost c2.
                     (Inr (violation @ lost), c2)))
           | None \<Rightarrow>
               (let c1 = c\<lparr>stateValue := Active t e\<rparr>;
                    replaced = (if e > 1 then [BroadcastEngineReplaced e (er_openOutcome ready)]
                                else []);
                    (handoff, c2) = handoffIfNeeded c1
                in if length handoff > 0 then (Inr (replaced @ handoff), c2)
                   else and_then (flushQueued t e (queuedRequests c2) c2) (\<lambda>routed c3.
                          asserting (replaced @ routed) c3)))
     | _ \<Rightarrow> apfst Inr (recordProtocolViolation
              (''unexpected engine-ready from '' @ er_tabId ready @ '' at epoch '' @
               show_nat (er_ownerEpoch ready)) c))"

definition engineResponse ::
  "owner_epoch \<Rightarrow> route_id \<Rightarrow> 'r cache_response \<Rightarrow> 'p core \<Rightarrow> ('p, 'r, 'u) actions \<times> 'p core" where
  "engineResponse epoch routeId response c =
    (if \<not> acceptsEngineMessages epoch c
     then apfst (\<lambda>a. [a]) (dropStale epoch (Some routeId) StaleEpoch c)
     else (case map_of (inFlight c) routeId of
         None \<Rightarrow> apfst (\<lambda>a. [a]) (dropStale epoch (Some routeId) UnknownRoute c)
       | Some f \<Rightarrow>
           if f_ownerEpoch f \<noteq> epoch
           then apfst (\<lambda>a. [a]) (dropStale epoch (Some routeId) UnknownRoute c)
           else
            let c1 = c\<lparr>inFlight := AList.delete routeId (inFlight c)\<rparr>
            in if f_tabId f \<notin> set (tabs c1) then ([], c1)
               else ([DeliverResponse (f_tabId f) (response\<lparr>res_id := req_id (f_request f)\<rparr>)], c1)))"

definition enginePush :: "owner_epoch \<Rightarrow> 'u \<Rightarrow> 'p core \<Rightarrow> ('p, 'r, 'u) actions \<times> 'p core" where
  "enginePush epoch push c =
    (if \<not> acceptsEngineMessages epoch c
     then apfst (\<lambda>a. [a]) (dropStale epoch None StaleEpoch c)
     else ([BroadcastPush push], c))"

definition beginGracefulDeparture ::
  "tab \<Rightarrow> owner_epoch \<Rightarrow> 'p core \<Rightarrow> ('p, 'r, 'u) actions \<times> 'p core" where
  "beginGracefulDeparture t epoch c =
    (let unexpected = recordProtocolViolation
           (''unexpected graceful departure from '' @ t @ '' at epoch '' @ show_nat epoch) c;
         c1 = c\<lparr>retiringTabs := insert t (retiringTabs c)\<rparr>
     in case stateValue c of
          Active t' e' \<Rightarrow>
            if t' = t \<and> e' = epoch
            then ([DrainOwner t epoch False], c1\<lparr>stateValue := Draining t epoch\<rparr>)
            else unexpected
        | Draining t' e' \<Rightarrow> if t' = t \<and> e' = epoch then ([], c1) else unexpected
        | _ \<Rightarrow> unexpected)"

definition engineDrained ::
  "tab \<Rightarrow> owner_epoch \<Rightarrow> 'p core \<Rightarrow> (core_error, ('p, 'r, 'u) actions, 'p core) outcome" where
  "engineDrained t epoch c =
    (if stateValue c \<noteq> Draining t epoch
     then apfst Inr (recordProtocolViolation
            (''unexpected engine-drained from '' @ t @ '' at epoch '' @ show_nat epoch) c)
     else
      let (rejected, c1) = rejectEpochRequests epoch
            ''engine drained before delivering its response'' None c;
          (left, c2) =
            (if t \<in> retiringTabs c1
             then ([RetireTab t epoch], removeTabRecord t (c1\<lparr>retiringTabs := retiringTabs c1 - {t}\<rparr>))
             else ([ReleaseOwner t epoch], c1));
          c3 = c2\<lparr>stateValue := WaitingForTab OpenExisting\<rparr>;
          (elected, c4) = activateNext OpenExisting c3
      in asserting (rejected @ [CloseEngineRoute t epoch] @ left @ elected) c4)"

definition ownerLost ::
  "tab \<Rightarrow> owner_epoch \<Rightarrow> string \<Rightarrow> 'p core \<Rightarrow> (core_error, ('p, 'r, 'u) actions, 'p core) outcome" where
  "ownerLost t epoch reason c = transitionToAbruptLoss t epoch reason c"

definition supersede :: "'p core \<Rightarrow> (core_error, ('p, 'r, 'u) actions, 'p core) outcome" where
  "supersede c =
    (let settled = (case stateValue c of
           Active _ _ \<Rightarrow> True | WaitingForTab _ \<Rightarrow> True | Parked _ \<Rightarrow> True | Failed _ _ \<Rightarrow> True
         | _ \<Rightarrow> False)
     in if supersededReason c \<noteq> None \<or> \<not> settled then (Inr [], c)
        else
         let refused = map (\<lambda>q. rejectUnavailable (q_tabId q) (req_id (q_request q)) SUPERSEDED_REASON)
                           (queuedRequests c);
             c1 = markUnavailable SUPERSEDED_REASON
                    (c\<lparr>supersededReason := Some SUPERSEDED_REASON, queuedRequests := []\<rparr>)
         in asserting (refused @ [BroadcastCacheSuperseded SUPERSEDED_REASON]) c1)"

definition terminalFailure ::
  "string \<Rightarrow> 'p core \<Rightarrow> (core_error, ('p, 'r, 'u) actions, 'p core) outcome" where
  "terminalFailure reason c =
    (case stateValue c of
       Failed _ _ \<Rightarrow> (Inr [], c)
     | s \<Rightarrow>
       (let storageUntouched =
              (case s of ResettingAfterLoss _ _ _ a _ \<Rightarrow> a = OpenExisting | _ \<Rightarrow> False);
            c1 = markUnavailable reason (c\<lparr>queuedRequests := [], inFlight := []\<rparr>);
            c2 = c1\<lparr>stateValue := Failed reason storageUntouched\<rparr>
        in asserting [TerminalFailure reason storageUntouched] c2))"

definition departForNavigation ::
  "tab \<Rightarrow> owner_epoch \<Rightarrow> string \<Rightarrow> 'p core \<Rightarrow> (core_error, ('p, 'r, 'u) actions, 'p core) outcome" where
  "departForNavigation t epoch reason c =
    (if ownerOf (stateValue c) \<noteq> Some (t, epoch)
     then apfst Inr (recordProtocolViolation
            (''unexpected navigation departure from '' @ t @ '' at epoch '' @ show_nat epoch) c)
     else
      let nextDatabaseAction = (case stateValue c of Activating _ _ a _ \<Rightarrow> a | _ \<Rightarrow> OpenExisting);
          (rejected, c1) = rejectEpochRequests epoch
            (''owner epoch '' @ show_nat epoch @ '' departed for navigation: '' @ reason)
            (Some OwnerEpochLost) c;
          c2 = removeTabRecord t c1;
          c3 = c2\<lparr>retiringTabs := retiringTabs c2 - {t},
                  stateValue := WaitingForTab nextDatabaseAction\<rparr>;
          (elected, c4) = activateNext nextDatabaseAction c3
      in asserting (rejected @ [CloseEngineRoute t epoch, DropTab t] @ elected) c4)"

definition tabLost ::
  "tab \<Rightarrow> string \<Rightarrow> 'p core \<Rightarrow> (core_error, ('p, 'r, 'u) actions, 'p core) outcome" where
  "tabLost t reason c =
    (if t \<notin> set (tabs c) then (Inr [], c)
     else
      let lost = (case ownerOf (stateValue c) of
                    Some (owner, epoch) \<Rightarrow>
                      if owner = t then transitionToAbruptLoss t epoch reason c else (Inr [], c)
                  | None \<Rightarrow> (Inr [], c))
      in and_then lost (\<lambda>as c1.
           let c2 = removeTabRecord t c1; c3 = c2\<lparr>retiringTabs := retiringTabs c2 - {t}\<rparr>
           in asserting (DropTab t # as) c3))"

definition resumeAfterLoss :: "'p core \<Rightarrow> ('p, 'r, 'u) actions \<times> 'p core" where
  "resumeAfterLoss c =
    (case stateValue c of
       ResettingAfterLoss previousTab previousEpoch nextEpoch databaseAction _ \<Rightarrow>
         (case truthyCandidate (Some previousTab) c of
            None \<Rightarrow>
              ([], c\<lparr>stateValue := (if length (eligibleTabs c) > 0 then Parked databaseAction
                                   else WaitingForTab databaseAction)\<rparr>)
          | Some candidate \<Rightarrow>
              ([ElectOwner candidate nextEpoch databaseAction],
               c\<lparr>currentEpoch := nextEpoch,
                 stateValue := Activating candidate nextEpoch databaseAction LoadingAssets\<rparr>))
     | _ \<Rightarrow> ([], c))"

definition expectsEngine :: "tab \<Rightarrow> owner_epoch \<Rightarrow> 'p core \<Rightarrow> bool" where
  "expectsEngine t epoch c =
    (case stateValue c of Activating t' e' _ _ \<Rightarrow> t' = t \<and> e' = epoch | _ \<Rightarrow> False)"

text \<open>The getters; \<open>snapshot\<close> reports one active owner exactly in the active state.\<close>

record coordinator_snapshot =
  sn_scope :: string
  sn_state :: coordinator_state
  sn_tabIds :: "tab list"
  sn_ownerEpoch :: owner_epoch
  sn_queuedRequestCount :: nat
  sn_inFlightRequestCount :: nat
  sn_staleMessageDrops :: nat
  sn_protocolViolations :: nat
  sn_activeOwnerCount :: nat

definition snapshot :: "'p core \<Rightarrow> coordinator_snapshot" where
  "snapshot c =
    \<lparr>sn_scope = scope c, sn_state = stateValue c, sn_tabIds = tabs c, sn_ownerEpoch = currentEpoch c,
     sn_queuedRequestCount = length (queuedRequests c), sn_inFlightRequestCount = length (inFlight c),
     sn_staleMessageDrops = staleMessageDrops c, sn_protocolViolations = protocolViolations c,
     sn_activeOwnerCount = (case stateValue c of Active _ _ \<Rightarrow> 1 | _ \<Rightarrow> 0)\<rparr>"

definition superseded :: "'p core \<Rightarrow> bool" where
  "superseded c \<longleftrightarrow> supersededReason c \<noteq> None"

section \<open>The machine as a whole\<close>

datatype ('p, 'r, 'u) core_event =
    RegisterTab tab bool
  | SetTabVisibility tab bool
  | Request tab "'p cache_request"
  | BeginOwnerLockWait tab owner_epoch
  | OwnerLockUnavailableEv tab owner_epoch
  | StorageBusy tab owner_epoch
  | BeginEngineOpen tab owner_epoch
  | EngineReady engine_ready
  | EngineResponse owner_epoch route_id "'r cache_response"
  | EnginePush owner_epoch 'u
  | BeginGracefulDeparture tab owner_epoch
  | EngineDrained tab owner_epoch
  | OwnerLost tab owner_epoch string
  | Supersede
  | TerminalFailureEv string
  | DepartForNavigation tab owner_epoch string
  | TabLost tab string
  | ResumeAfterLoss

fun core_step ::
  "('p, 'r, 'u) core_event \<Rightarrow> 'p core \<Rightarrow> (core_error, ('p, 'r, 'u) actions, 'p core) outcome" where
  "core_step (RegisterTab t v) c = apfst Inr (registerTab t v c)"
| "core_step (SetTabVisibility t v) c = apfst Inr (setTabVisibility t v c)"
| "core_step (Request t r) c = request t r c"
| "core_step (BeginOwnerLockWait t e) c = (Inr [], snd (beginOwnerLockWait t e c))"
| "core_step (OwnerLockUnavailableEv t e) c = ownerLockUnavailable t e c"
| "core_step (StorageBusy t e) c = storageBusy t e c"
| "core_step (BeginEngineOpen t e) c = (Inr [], snd (beginEngineOpen t e c))"
| "core_step (EngineReady r) c = engineReady r c"
| "core_step (EngineResponse e i r) c = apfst Inr (engineResponse e i r c)"
| "core_step (EnginePush e u) c = apfst Inr (enginePush e u c)"
| "core_step (BeginGracefulDeparture t e) c = apfst Inr (beginGracefulDeparture t e c)"
| "core_step (EngineDrained t e) c = engineDrained t e c"
| "core_step (OwnerLost t e r) c = ownerLost t e r c"
| "core_step Supersede c = supersede c"
| "core_step (TerminalFailureEv r) c = terminalFailure r c"
| "core_step (DepartForNavigation t e r) c = departForNavigation t e r c"
| "core_step (TabLost t r) c = tabLost t r c"
| "core_step ResumeAfterLoss c = apfst Inr (resumeAfterLoss c)"

text \<open>
  A run: the actions of every event that did not throw, in order, and the final state.
  After an exception the object keeps the state it had when it was thrown.
\<close>

fun core_run ::
  "('p, 'r, 'u) core_event list \<Rightarrow> 'p core \<Rightarrow> ('p, 'r, 'u) actions \<times> 'p core" where
  "core_run [] c = ([], c)"
| "core_run (e # es) c =
     (let (r, c1) = core_step e c; (as, c2) = core_run es c1
      in ((case r of Inl _ \<Rightarrow> [] | Inr a \<Rightarrow> a) @ as, c2))"

text \<open>
  The messages of tabs are validated first: \<open>validateTabToCoordinatorEnvelope\<close> of
  \<open>coordinator-protocol.ts\<close> only lets non-empty tab ids through.
\<close>

fun decoded_event :: "('p, 'r, 'u) core_event \<Rightarrow> bool" where
  "decoded_event (RegisterTab t v) \<longleftrightarrow> t \<noteq> []"
| "decoded_event e \<longleftrightarrow> True"

text \<open>The states some run reaches; the payload types of responses and pushes do not matter.\<close>

inductive reachable :: "'p core \<Rightarrow> bool" where
  start: "core_new s = Inr c \<Longrightarrow> reachable c"
| step: "reachable c \<Longrightarrow> decoded_event e \<Longrightarrow>
    reachable (snd (core_step (e :: ('p, unit, unit) core_event) c))"

end
