(* ===== verification/Coordinator_Invariant.thy ===== *)
theory Coordinator_Invariant
  imports Coordinator
begin

text \<open>
  What the cache coordinator promises.  The invariant \<open>core_inv\<close> ties its fields together;
  every method keeps it, so \<open>assertInvariants\<close> never throws, a request is in flight only
  with the engine of the current epoch, and no eligible tab is left waiting while nobody
  is elected.  Epochs fence old owners: they only grow, and messages of an older epoch
  change nothing.
\<close>

section \<open>The invariant\<close>

definition no_candidate :: "'p core \<Rightarrow> bool" where
  "no_candidate c \<longleftrightarrow>
    (\<forall>t \<in> set (tabs c). t \<in> visibleTabs c \<longrightarrow> t \<in> retiringTabs c \<or> unavailableTabs c t \<noteq> None)"

definition base_inv :: "'p core \<Rightarrow> bool" where
  "base_inv c \<longleftrightarrow>
     distinct (tabs c) \<and> [] \<notin> set (tabs c) \<and>
     distinct (map fst (inFlight c)) \<and>
     (\<forall>(k, f) \<in> set (inFlight c). k < nextRouteId c \<and> f_routeId f = k \<and>
        (f_tabId f \<in> set (tabs c) \<or> isMutationSettlement (f_request f))) \<and>
     (\<forall>q \<in> set (queuedRequests c). q_tabId q \<in> set (tabs c) \<or> isMutationSettlement (q_request q)) \<and>
     (supersededReason c \<noteq> None \<longrightarrow> (\<forall>t \<in> set (tabs c). unavailableTabs c t \<noteq> None))"

definition owned_by :: "owner_epoch \<Rightarrow> 'p core \<Rightarrow> bool" where
  "owned_by e c \<longleftrightarrow> (\<forall>(k, f) \<in> set (inFlight c). f_ownerEpoch f = e)"

definition state_inv :: "'p core \<Rightarrow> bool" where
  "state_inv c = (case stateValue c of
      WaitingForTab _ \<Rightarrow> inFlight c = [] \<and> no_candidate c
    | Parked _ \<Rightarrow> inFlight c = [] \<and> no_candidate c
    | Activating t e _ _ \<Rightarrow> inFlight c = [] \<and> t \<in> set (tabs c) \<and> e = currentEpoch c
    | Active t e \<Rightarrow> owned_by e c \<and> t \<in> set (tabs c) \<and> e = currentEpoch c \<and>
        (queuedRequests c = [] \<or> \<not> isSafeInteger (nextRouteId c))
    | Draining t e \<Rightarrow> owned_by e c \<and> t \<in> set (tabs c) \<and> e = currentEpoch c
    | ResettingAfterLoss _ pe ne _ _ \<Rightarrow> inFlight c = [] \<and> pe = currentEpoch c \<and> ne = Suc pe
    | Failed _ _ \<Rightarrow> inFlight c = [] \<and> queuedRequests c = [])"

definition core_inv :: "'p core \<Rightarrow> bool" where
  "core_inv c \<longleftrightarrow> base_inv c \<and> state_inv c"

lemma owned_by_Nil [simp]: "inFlight c = [] \<Longrightarrow> owned_by e c"
  by (simp add: owned_by_def)

lemma state_inv_cases [simp]:
  "stateValue c = WaitingForTab a \<Longrightarrow> state_inv c \<longleftrightarrow> inFlight c = [] \<and> no_candidate c"
  "stateValue c = Parked a \<Longrightarrow> state_inv c \<longleftrightarrow> inFlight c = [] \<and> no_candidate c"
  "stateValue c = Activating t e a ph \<Longrightarrow>
     state_inv c \<longleftrightarrow> inFlight c = [] \<and> t \<in> set (tabs c) \<and> e = currentEpoch c"
  "stateValue c = Active t e \<Longrightarrow>
     state_inv c \<longleftrightarrow> owned_by e c \<and> t \<in> set (tabs c) \<and> e = currentEpoch c \<and>
       (queuedRequests c = [] \<or> \<not> isSafeInteger (nextRouteId c))"
  "stateValue c = Draining t e \<Longrightarrow>
     state_inv c \<longleftrightarrow> owned_by e c \<and> t \<in> set (tabs c) \<and> e = currentEpoch c"
  "stateValue c = ResettingAfterLoss p pe ne a r \<Longrightarrow>
     state_inv c \<longleftrightarrow> inFlight c = [] \<and> pe = currentEpoch c \<and> ne = Suc pe"
  "stateValue c = Failed r b \<Longrightarrow> state_inv c \<longleftrightarrow> inFlight c = [] \<and> queuedRequests c = []"
  by (auto simp: state_inv_def)

text \<open>The invariants the code asserts follow.\<close>

lemma assertInvariants_core_inv: "core_inv c \<Longrightarrow> assertInvariants c = None"
  by (cases "stateValue c") (auto simp: core_inv_def assertInvariants_def owned_by_def)

lemma asserting_core_inv [simp]: "core_inv c \<Longrightarrow> asserting x c = (Inr x, c)"
  by (simp add: asserting_def assertInvariants_core_inv)

lemma core_new_inv: "core_new s = Inr c \<Longrightarrow> core_inv c"
  by (auto simp: core_new_def core_inv_def base_inv_def state_inv_def no_candidate_def split: if_splits)

subsection \<open>Choosing a candidate\<close>

lemma first_or_head:
  "(case List.find P v of Some t \<Rightarrow> Some t | None \<Rightarrow> (case v of [] \<Rightarrow> None | t # _ \<Rightarrow> Some t)) = Some t
     \<Longrightarrow> t \<in> set v"
  by (auto simp: find_Some_iff split: option.splits list.splits)

lemma chooseCandidate_None: "chooseCandidate avoid c = None \<longleftrightarrow> no_candidate c"
proof -
  let ?v = "filter (\<lambda>t. t \<in> visibleTabs c) (eligibleTabs c)"
  have "chooseCandidate avoid c = None \<longleftrightarrow> ?v = []"
    by (auto simp: chooseCandidate_def Let_def find_None_iff2[symmetric] split: option.splits list.splits)
  also have "\<dots> \<longleftrightarrow> no_candidate c"
    by (auto simp: no_candidate_def eligibleTabs_def filter_empty_conv)
  finally show ?thesis .
qed

lemma chooseCandidate_Some:
  assumes "chooseCandidate avoid c = Some t"
  shows "t \<in> set (tabs c) \<and> t \<in> visibleTabs c \<and> t \<notin> retiringTabs c \<and> unavailableTabs c t = None"
proof -
  let ?v = "filter (\<lambda>t. t \<in> visibleTabs c) (eligibleTabs c)"
  have "t \<in> set ?v"
    using assms unfolding chooseCandidate_def Let_def by (rule first_or_head)
  then show ?thesis by (auto simp: eligibleTabs_def)
qed

lemma truthyCandidate_Some:
  "truthyCandidate avoid c = Some t \<Longrightarrow>
     t \<in> set (tabs c) \<and> t \<in> visibleTabs c \<and> t \<notin> retiringTabs c \<and> unavailableTabs c t = None"
  by (auto simp: truthyCandidate_def dest: chooseCandidate_Some split: option.splits if_splits)

lemma truthyCandidate_None:
  assumes "base_inv c"
  shows "truthyCandidate avoid c = None \<longleftrightarrow> no_candidate c"
proof -
  have "chooseCandidate avoid c \<noteq> Some []"
    using assms chooseCandidate_Some[of avoid c "[]"] by (auto simp: base_inv_def)
  then have "truthyCandidate avoid c = None \<longleftrightarrow> chooseCandidate avoid c = None"
    by (auto simp: truthyCandidate_def split: option.splits)
  then show ?thesis by (simp add: chooseCandidate_None)
qed

subsection \<open>Private methods keep it\<close>

lemma no_candidate_cong:
  "no_candidate (c\<lparr>stateValue := s\<rparr>) = no_candidate c"
  "no_candidate (c\<lparr>inFlight := f\<rparr>) = no_candidate c"
  "no_candidate (c\<lparr>queuedRequests := q\<rparr>) = no_candidate c"
  "no_candidate (c\<lparr>currentEpoch := e\<rparr>) = no_candidate c"
  "no_candidate (c\<lparr>protocolViolations := n\<rparr>) = no_candidate c"
  "no_candidate (c\<lparr>staleMessageDrops := n\<rparr>) = no_candidate c"
  by (simp_all add: no_candidate_def)

lemma base_inv_cong:
  "base_inv (c\<lparr>stateValue := s\<rparr>) = base_inv c"
  "base_inv (c\<lparr>currentEpoch := e\<rparr>) = base_inv c"
  "base_inv (c\<lparr>protocolViolations := n\<rparr>) = base_inv c"
  "base_inv (c\<lparr>staleMessageDrops := n\<rparr>) = base_inv c"
  "base_inv (c\<lparr>visibleTabs := v\<rparr>) = base_inv c"
  "base_inv (c\<lparr>retiringTabs := v\<rparr>) = base_inv c"
  by (simp_all add: base_inv_def)

lemmas inv_cong [simp] = no_candidate_cong base_inv_cong

lemma base_inv_tabs: "base_inv c \<Longrightarrow> distinct (tabs c)"
  by (simp add: base_inv_def)

lemma base_inv_sub:
  "base_inv c \<Longrightarrow> base_inv (c\<lparr>inFlight := filter P (inFlight c)\<rparr>)"
  "base_inv c \<Longrightarrow> base_inv (c\<lparr>queuedRequests := []\<rparr>)"
  "base_inv c \<Longrightarrow> base_inv (c\<lparr>inFlight := []\<rparr>)"
  by (auto simp: base_inv_def distinct_fst_filter)

lemma activateNext_inv:
  assumes "base_inv c" and "inFlight c = []"
  shows "core_inv (snd (activateNext a c))"
proof (cases "truthyCandidate None c")
  case None
  then have "no_candidate c" using assms(1) by (simp add: truthyCandidate_None)
  with assms None show ?thesis by (simp add: activateNext_def core_inv_def)
next
  case (Some t)
  from truthyCandidate_Some[OF Some] assms Some show ?thesis
    by (simp add: activateNext_def core_inv_def)
qed

lemma handoffIfNeeded_inv:
  "core_inv c \<Longrightarrow> core_inv (snd (handoffIfNeeded c))"
  by (cases "stateValue c") (auto simp: handoffIfNeeded_def core_inv_def owned_by_def)

lemma base_inv_removeTabRecord: "base_inv c \<Longrightarrow> base_inv (removeTabRecord t c)"
  by (auto simp: base_inv_def removeTabRecord_def distinct_fst_filter)

lemma no_candidate_removeTabRecord:
  "base_inv c \<Longrightarrow> no_candidate c \<Longrightarrow> no_candidate (removeTabRecord t c)"
  by (auto simp: no_candidate_def removeTabRecord_def base_inv_def)

lemma no_candidate_unretire:
  "no_candidate c \<Longrightarrow> t \<notin> set (tabs c) \<Longrightarrow> no_candidate (c\<lparr>retiringTabs := retiringTabs c - {t}\<rparr>)"
  by (auto simp: no_candidate_def)

lemma tabs_removeTabRecord: "base_inv c \<Longrightarrow> set (tabs (removeTabRecord t c)) = set (tabs c) - {t}"
  by (simp add: removeTabRecord_def base_inv_def)

lemma removeTabRecord_fields [simp]:
  "stateValue (removeTabRecord t c) = stateValue c"
  "currentEpoch (removeTabRecord t c) = currentEpoch c"
  "nextRouteId (removeTabRecord t c) = nextRouteId c"
  "retiringTabs (removeTabRecord t c) = retiringTabs c"
  "supersededReason (removeTabRecord t c) = supersededReason c"
  by (simp_all add: removeTabRecord_def)

lemma removeTabRecord_empty:
  "inFlight c = [] \<Longrightarrow> inFlight (removeTabRecord t c) = []"
  "queuedRequests c = [] \<Longrightarrow> queuedRequests (removeTabRecord t c) = []"
  "owned_by e c \<Longrightarrow> owned_by e (removeTabRecord t c)"
  by (auto simp: removeTabRecord_def owned_by_def)

lemma owned_by_rejected:
  "owned_by e c \<Longrightarrow> filter (\<lambda>(_, f). f_ownerEpoch f \<noteq> e) (inFlight c) = []"
  by (auto simp: owned_by_def filter_empty_conv)

lemma core_inv_owner:
  assumes "core_inv c" and "ownerOf (stateValue c) = Some (t, e)"
  shows "t \<in> set (tabs c)" and "e = currentEpoch c" and "owned_by e c" and "base_inv c"
  using assms by (auto simp: core_inv_def ownerOf_def split: coordinator_state.splits)

lemma rejectEpochRequests_owner:
  assumes "core_inv c" and "ownerOf (stateValue c) = Some (t, e)"
  shows "snd (rejectEpochRequests e m ec c) = c\<lparr>inFlight := []\<rparr>"
  using owned_by_rejected[OF core_inv_owner(3)[OF assms]] by (simp add: rejectEpochRequests_def)

text \<open>
  A call is safe when the invariant holds afterwards, whatever happened, and the only
  exception it can throw is the exhaustion of the route ids.
\<close>

definition safe_outcome :: "(core_error, 'a, 'p core) outcome \<Rightarrow> bool" where
  "safe_outcome r \<longleftrightarrow> core_inv (snd r) \<and>
     (\<forall>e. fst r = Inl e \<longrightarrow> e = RouteIdSpaceExhausted \<and> \<not> isSafeInteger (nextRouteId (snd r)))"

lemma safe_Inr [simp]: "safe_outcome (Inr a, c) \<longleftrightarrow> core_inv c"
  by (simp add: safe_outcome_def)

lemma safe_apfst [simp]: "safe_outcome (apfst Inr r) \<longleftrightarrow> core_inv (snd r)"
  by (simp add: safe_outcome_def apfst_def map_prod_def split: prod.splits)

lemma safe_asserting [simp]: "core_inv c \<Longrightarrow> safe_outcome (asserting x c)"
  by simp

lemma safe_and_then:
  "safe_outcome r \<Longrightarrow> (\<And>a c. r = (Inr a, c) \<Longrightarrow> core_inv c \<Longrightarrow> safe_outcome (f a c)) \<Longrightarrow>
   safe_outcome (and_then r f)"
  by (cases r; cases "fst r") (auto simp: safe_outcome_def)

lemma transitionToAbruptLoss_safe:
  assumes "core_inv c"
  shows "safe_outcome (transitionToAbruptLoss t e r c)"
proof (cases "ownerOf (stateValue c) = Some (t, e)")
  case True
  let ?c = "c\<lparr>inFlight := [], stateValue := ResettingAfterLoss t e (Suc (currentEpoch c))
      (lossDatabaseAction (stateValue c)) r\<rparr>"
  have "core_inv ?c"
    using core_inv_owner[OF assms True] by (simp add: core_inv_def base_inv_def)
  then show ?thesis
    using True
    by (simp add: transitionToAbruptLoss_def split_beta Let_def rejectEpochRequests_owner[OF assms True])
qed (simp add: transitionToAbruptLoss_def assms)

lemma base_inv_markUnavailable: "base_inv c \<Longrightarrow> base_inv (markUnavailable r c)"
  by (auto simp: base_inv_def markUnavailable_def)

lemma markUnavailable_fields [simp]:
  "stateValue (markUnavailable r c) = stateValue c"
  "inFlight (markUnavailable r c) = inFlight c"
  "queuedRequests (markUnavailable r c) = queuedRequests c"
  "tabs (markUnavailable r c) = tabs c"
  "currentEpoch (markUnavailable r c) = currentEpoch c"
  "nextRouteId (markUnavailable r c) = nextRouteId c"
  "supersededReason (markUnavailable r c) = supersededReason c"
  "owned_by e (markUnavailable r c) = owned_by e c"
  "no_candidate (markUnavailable r c)"
  by (simp_all add: markUnavailable_def owned_by_def no_candidate_def)

lemma failClosed_safe:
  assumes "core_inv c" and "inFlight c = []"
  shows "safe_outcome (failClosed t e a r c)"
proof -
  let ?c = "(markUnavailable r (c\<lparr>queuedRequests := []\<rparr>))\<lparr>stateValue := WaitingForTab a\<rparr>"
  have "core_inv ?c"
    using assms by (simp add: core_inv_def base_inv_markUnavailable base_inv_sub(2))
  then show ?thesis by (simp add: failClosed_def Let_def)
qed

subsection \<open>Routing\<close>

lemma isSafeInteger_Suc: "\<not> isSafeInteger n \<Longrightarrow> \<not> isSafeInteger (Suc n)"
  by (simp add: isSafeInteger_def)

lemma route_eq:
  assumes "base_inv c" and "isSafeInteger (nextRouteId c)"
  shows "route q t e c =
    (Inr (RouteRequest t (q_tabId q) e (nextRouteId c) ((q_request q)\<lparr>req_id := nextRouteId c\<rparr>)),
     c\<lparr>nextRouteId := Suc (nextRouteId c),
       inFlight := inFlight c @ [(nextRouteId c, \<lparr>f_tabId = q_tabId q, f_request = q_request q,
                                  f_routeId = nextRouteId c, f_ownerEpoch = e\<rparr>)]\<rparr>)"
proof -
  have "nextRouteId c \<notin> fst ` set (inFlight c)"
    using assms(1) by (force simp: base_inv_def)
  then show ?thesis using assms(2) by (simp add: route_def update_new_key Let_def)
qed

lemma base_inv_route:
  assumes "base_inv c" and "q_tabId q \<in> set (tabs c) \<or> isMutationSettlement (q_request q)"
  shows "base_inv (snd (route q t e c))"
proof (cases "isSafeInteger (nextRouteId c)")
  case True
  have "nextRouteId c \<notin> fst ` set (inFlight c)" using assms(1) by (force simp: base_inv_def)
  with assms True show ?thesis by (auto simp: route_eq base_inv_def)
qed (use assms in \<open>simp add: route_def\<close>)

lemma route_fields [simp]:
  "stateValue (snd (route q t e c)) = stateValue c"
  "tabs (snd (route q t e c)) = tabs c"
  "queuedRequests (snd (route q t e c)) = queuedRequests c"
  "currentEpoch (snd (route q t e c)) = currentEpoch c"
  "supersededReason (snd (route q t e c)) = supersededReason c"
  by (simp_all add: route_def Let_def)

lemma inFlight_route:
  "base_inv c \<Longrightarrow> set (inFlight (snd (route q t e c))) \<subseteq>
     insert (nextRouteId c, \<lparr>f_tabId = q_tabId q, f_request = q_request q,
                             f_routeId = nextRouteId c, f_ownerEpoch = e\<rparr>) (set (inFlight c))"
proof (cases "isSafeInteger (nextRouteId c)")
  case True
  assume "base_inv c"
  with True show ?thesis by (auto simp: route_eq)
qed (auto simp: route_def)

lemma owned_by_route:
  "owned_by e c \<Longrightarrow> base_inv c \<Longrightarrow> owned_by e (snd (route q t e c))"
  using inFlight_route[of c q t e] by (fastforce simp: owned_by_def)

lemma route_exhausted:
  "\<not> isSafeInteger (nextRouteId c) \<Longrightarrow> route q t e c = (Inl RouteIdSpaceExhausted, c)"
  by (simp add: route_def)

text \<open>The coordinator while it hands queued requests to the owner.\<close>

lemma flushQueued_safe:
  assumes "base_inv c" and "owned_by e c" and "queuedRequests c = qs"
    and "stateValue c = Active t e" and "t \<in> set (tabs c)" and "e = currentEpoch c"
  shows "safe_outcome (flushQueued t e qs c)"
  using assms
proof (induction qs arbitrary: c)
  case Nil
  then show ?case by (simp add: core_inv_def)
next
  case (Cons q qs)
  let ?c = "c\<lparr>queuedRequests := qs\<rparr>"
  have base: "base_inv ?c" and own: "owned_by e ?c"
    using Cons.prems by (auto simp: base_inv_def owned_by_def)
  show ?case
  proof (cases "q_tabId q \<in> set (tabs c) \<or> isMutationSettlement (q_request q)")
    case False
    then show ?thesis using Cons.IH[of ?c] Cons.prems base own by simp
  next
    case True
    show ?thesis
    proof (cases "isSafeInteger (nextRouteId c)")
      case False
      then show ?thesis
        using True Cons.prems base own by (simp add: route_exhausted safe_outcome_def core_inv_def)
    next
      case safe: True
      let ?d = "?c\<lparr>nextRouteId := Suc (nextRouteId c),
          inFlight := inFlight c @ [(nextRouteId c, \<lparr>f_tabId = q_tabId q, f_request = q_request q,
                                     f_routeId = nextRouteId c, f_ownerEpoch = e\<rparr>)]\<rparr>"
      have "base_inv ?d" and "owned_by e ?d"
        using base_inv_route[OF base, of q t e] owned_by_route[OF own base, of q t] True safe base
        by (simp_all add: route_eq)
      then show ?thesis
        using Cons.IH[of ?d] Cons.prems True safe base by (simp add: route_eq safe_and_then)
    qed
  qed
qed

subsection \<open>Public methods keep it\<close>

lemma registerTab_inv:
  assumes "core_inv c" and "t \<noteq> []"
  shows "core_inv (snd (registerTab t v c))"
proof (cases "t \<in> set (tabs c)")
  case True
  then show ?thesis by (simp add: registerTab_def assms(1))
next
  case False
  let ?c = "c\<lparr>tabs := tabs c @ [t], visibleTabs := if v then insert t (visibleTabs c) else visibleTabs c\<rparr>"
  have base: "supersededReason c = None \<Longrightarrow> base_inv ?c" and "base_inv c" and "state_inv c"
    using assms False by (auto simp: core_inv_def base_inv_def)
  show ?thesis
  proof (cases "supersededReason c")
    case (Some r)
    have "base_inv (?c\<lparr>unavailableTabs := (unavailableTabs c)(t \<mapsto> r)\<rparr>)"
      using \<open>base_inv c\<close> False Some assms(2) by (auto simp: base_inv_def)
    moreover have "state_inv (?c\<lparr>unavailableTabs := (unavailableTabs c)(t \<mapsto> r)\<rparr>)"
      using \<open>state_inv c\<close> by (cases "stateValue c") (auto simp: no_candidate_def owned_by_def split: if_splits)
    ultimately show ?thesis using False Some by (simp add: registerTab_def core_inv_def)
  next
    case None
    have "core_inv ?c" if "\<And>a. stateValue c \<noteq> WaitingForTab a \<and> stateValue c \<noteq> Parked a"
      using that base[OF None] \<open>state_inv c\<close>
      by (cases "stateValue c") (auto simp: core_inv_def owned_by_def)
    then show ?thesis
      using None False base \<open>state_inv c\<close>
      by (cases "stateValue c")
        (auto simp: registerTab_def Let_def activateNext_inv handoffIfNeeded_inv split: bool.splits)
  qed
qed

lemma setTabVisibility_inv:
  assumes "core_inv c"
  shows "core_inv (snd (setTabVisibility t v c))"
proof -
  let ?c = "c\<lparr>visibleTabs := if v then insert t (visibleTabs c) else visibleTabs c - {t}\<rparr>"
  have "base_inv ?c" and "state_inv c" using assms by (auto simp: core_inv_def)
  moreover have "core_inv ?c" if "\<And>a. stateValue c \<noteq> WaitingForTab a \<and> stateValue c \<noteq> Parked a"
    using that assms by (cases "stateValue c") (auto simp: core_inv_def owned_by_def)
  ultimately show ?thesis
    using assms by (cases "stateValue c")
      (auto simp: setTabVisibility_def Let_def activateNext_inv handoffIfNeeded_inv)
qed

lemma request_safe:
  assumes "core_inv c"
  shows "safe_outcome (request t r c)"
proof -
  let ?q = "\<lparr>q_tabId = t, q_request = r\<rparr>"
  have enq: "base_inv (c\<lparr>queuedRequests := queuedRequests c @ [?q]\<rparr>)" if "t \<in> set (tabs c)"
    using assms that by (auto simp: core_inv_def base_inv_def)
  have routed: "safe_outcome (and_then (route ?q w e c) (\<lambda>a c1. (Inr [a], c1)))"
    if t: "t \<in> set (tabs c)" and s: "stateValue c = Active w e" for w e
  proof (cases "isSafeInteger (nextRouteId c)")
    case True
    have base: "base_inv c" and own: "owned_by e c" using assms s by (auto simp: core_inv_def)
    from base_inv_route[OF base, of ?q w e] owned_by_route[OF own base, of ?q w] t True base
    have "base_inv (c\<lparr>nextRouteId := Suc (nextRouteId c), inFlight := inFlight c @
        [(nextRouteId c, \<lparr>f_tabId = t, f_request = r, f_routeId = nextRouteId c, f_ownerEpoch = e\<rparr>)]\<rparr>)"
      and "owned_by e (c\<lparr>nextRouteId := Suc (nextRouteId c), inFlight := inFlight c @
        [(nextRouteId c, \<lparr>f_tabId = t, f_request = r, f_routeId = nextRouteId c, f_ownerEpoch = e\<rparr>)]\<rparr>)"
      by (simp_all add: route_eq)
    then show ?thesis using assms s True base by (auto simp: route_eq core_inv_def)
  qed (use assms in \<open>simp add: route_exhausted safe_outcome_def\<close>)
  show ?thesis
    using assms enq routed
    by (cases "stateValue c")
      (auto simp: request_def Let_def core_inv_def no_candidate_def owned_by_def split: option.splits)
qed

lemma beginOwnerLockWait_inv: "core_inv c \<Longrightarrow> core_inv (snd (beginOwnerLockWait t e c))"
  by (cases "stateValue c")
    (auto simp: beginOwnerLockWait_def core_inv_def split: engine_startup_phase.splits)

lemma beginEngineOpen_inv: "core_inv c \<Longrightarrow> core_inv (snd (beginEngineOpen t e c))"
  by (cases "stateValue c")
    (auto simp: beginEngineOpen_def core_inv_def split: engine_startup_phase.splits)

lemma ownerLockUnavailable_safe: "core_inv c \<Longrightarrow> safe_outcome (ownerLockUnavailable t e c)"
  by (cases "stateValue c") (auto simp: ownerLockUnavailable_def core_inv_def intro!: failClosed_safe)

lemma storageBusy_safe: "core_inv c \<Longrightarrow> safe_outcome (storageBusy t e c)"
  by (cases "stateValue c") (auto simp: storageBusy_def core_inv_def intro!: failClosed_safe)

lemma recordProtocolViolation_inv: "core_inv c \<Longrightarrow> core_inv (snd (recordProtocolViolation m c))"
  by (cases "stateValue c") (auto simp: recordProtocolViolation_def core_inv_def owned_by_def)

lemma dropStale_inv: "core_inv c \<Longrightarrow> core_inv (snd (dropStale e i r c))"
  by (cases "stateValue c") (auto simp: dropStale_def core_inv_def owned_by_def)

lemma engineReady_safe:
  assumes "core_inv c"
  shows "safe_outcome (engineReady r c)"
proof (cases "\<exists>a. stateValue c = Activating (er_tabId r) (er_ownerEpoch r) a OpeningDatabase")
  case False
  then show ?thesis
    using recordProtocolViolation_inv[OF assms]
    by (cases "stateValue c") (auto simp: engineReady_def split: engine_startup_phase.splits)
next
  case True
  then obtain a where s: "stateValue c = Activating (er_tabId r) (er_ownerEpoch r) a OpeningDatabase" ..
  let ?t = "er_tabId r" and ?e = "er_ownerEpoch r"
  let ?c = "c\<lparr>stateValue := Active ?t ?e\<rparr>"
  have facts: "base_inv c" "inFlight c = []" "?t \<in> set (tabs c)" "?e = currentEpoch c"
    using assms s by (auto simp: core_inv_def)
  show ?thesis
  proof (cases "readyError r")
    case (Some m)
    have "core_inv (snd (recordProtocolViolation m c))" by (rule recordProtocolViolation_inv[OF assms])
    then show ?thesis
      using s Some by (auto simp: engineReady_def split_beta Let_def
          intro!: safe_and_then transitionToAbruptLoss_safe)
  next
    case None
    show ?thesis
    proof (cases "?t \<in> visibleTabs c")
      case True
      have "owned_by ?e ?c" using facts by simp
      with True None s show ?thesis
        by (auto simp: engineReady_def handoffIfNeeded_def Let_def
            intro!: safe_and_then flushQueued_safe facts)
    next
      case False
      with None s facts show ?thesis
        by (auto simp: engineReady_def handoffIfNeeded_def Let_def core_inv_def)
    qed
  qed
qed

lemma engineResponse_inv: "core_inv c \<Longrightarrow> core_inv (snd (engineResponse e i r c))"
proof -
  assume c: "core_inv c"
  have "core_inv (c\<lparr>inFlight := AList.delete i (inFlight c)\<rparr>)" if "acceptsEngineMessages e c"
    using c that unfolding delete_eq_filter core_inv_def
    by (cases "stateValue c") (auto simp: acceptsEngineMessages_def owned_by_def base_inv_sub(1))
  with c show ?thesis by (auto simp: engineResponse_def Let_def dropStale_inv split: option.splits)
qed

lemma enginePush_inv: "core_inv c \<Longrightarrow> core_inv (snd (enginePush e u c))"
  by (auto simp: enginePush_def dropStale_inv)

lemma beginGracefulDeparture_inv: "core_inv c \<Longrightarrow> core_inv (snd (beginGracefulDeparture t e c))"
  using recordProtocolViolation_inv[of c]
  by (cases "stateValue c") (auto simp: beginGracefulDeparture_def Let_def core_inv_def owned_by_def)

lemma engineDrained_safe:
  assumes "core_inv c"
  shows "safe_outcome (engineDrained t e c)"
proof (cases "stateValue c = Draining t e")
  case True
  then have own: "ownerOf (stateValue c) = Some (t, e)" by (simp add: ownerOf_def)
  let ?r = "removeTabRecord t (c\<lparr>inFlight := [], retiringTabs := retiringTabs c - {t}\<rparr>)"
  have base: "base_inv (c\<lparr>inFlight := []\<rparr>)"
    using core_inv_owner(4)[OF assms own] by (rule base_inv_sub(3))
  then have "base_inv ?r"
    using base_inv_removeTabRecord[of "c\<lparr>inFlight := [], retiringTabs := retiringTabs c - {t}\<rparr>"]
    by (simp add: base_inv_def)
  then show ?thesis
    using True base
    by (auto simp: engineDrained_def split_beta Let_def rejectEpochRequests_owner[OF assms own]
        removeTabRecord_empty intro!: safe_asserting activateNext_inv)
qed (simp add: engineDrained_def recordProtocolViolation_inv assms)

lemma supersede_safe:
  assumes "core_inv c"
  shows "safe_outcome (supersede c)"
proof -
  let ?c = "markUnavailable SUPERSEDED_REASON
      (c\<lparr>supersededReason := Some SUPERSEDED_REASON, queuedRequests := []\<rparr>)"
  have "base_inv ?c" using assms by (auto simp: core_inv_def base_inv_def markUnavailable_def)
  then have "core_inv ?c" if "stateValue c \<noteq> Draining t e" for t e
    using assms by (cases "stateValue c") (auto simp: core_inv_def owned_by_def)
  then show ?thesis
    using assms by (cases "stateValue c") (auto simp: supersede_def Let_def)
qed

lemma terminalFailure_safe:
  assumes "core_inv c"
  shows "safe_outcome (terminalFailure r c)"
proof -
  have "base_inv (markUnavailable r (c\<lparr>queuedRequests := [], inFlight := []\<rparr>))"
    using assms by (intro base_inv_markUnavailable) (auto simp: core_inv_def base_inv_def)
  then have "core_inv ((markUnavailable r (c\<lparr>queuedRequests := [], inFlight := []\<rparr>))
      \<lparr>stateValue := Failed r b\<rparr>)" for b by (simp add: core_inv_def)
  then show ?thesis
    using assms by (cases "stateValue c") (auto simp: terminalFailure_def Let_def)
qed

lemma departForNavigation_safe:
  assumes "core_inv c"
  shows "safe_outcome (departForNavigation t e r c)"
proof (cases "ownerOf (stateValue c) = Some (t, e)")
  case True
  let ?r = "removeTabRecord t (c\<lparr>inFlight := []\<rparr>)"
  have "base_inv ?r"
    using core_inv_owner(4)[OF assms True] by (intro base_inv_removeTabRecord base_inv_sub(3))
  then show ?thesis
    using True
    by (auto simp: departForNavigation_def split_beta Let_def rejectEpochRequests_owner[OF assms True]
        removeTabRecord_empty intro!: activateNext_inv safe_asserting)
qed (simp add: departForNavigation_def recordProtocolViolation_inv assms)

text \<open>A tab that owns nothing can go at any time.\<close>

lemma forget_tab_inv:
  assumes "core_inv c" and "\<forall>e. ownerOf (stateValue c) \<noteq> Some (t, e)"
  shows "core_inv ((removeTabRecord t c)\<lparr>retiringTabs := retiringTabs c - {t}\<rparr>)"
proof -
  let ?c = "removeTabRecord t c" and ?d = "(removeTabRecord t c)\<lparr>retiringTabs := retiringTabs c - {t}\<rparr>"
  have base: "base_inv c" using assms(1) by (simp add: core_inv_def)
  then have tabs: "set (tabs ?c) = set (tabs c) - {t}" by (rule tabs_removeTabRecord)
  have "no_candidate c \<Longrightarrow> no_candidate ?d"
    using no_candidate_unretire[of ?c t] no_candidate_removeTabRecord[OF base, of t] tabs by simp
  moreover have "owned_by e c \<Longrightarrow> owned_by e ?d" for e
    using removeTabRecord_empty(3)[of e c t] by (simp add: owned_by_def)
  moreover have "queuedRequests c = [] \<Longrightarrow> queuedRequests ?c = []" and "inFlight c = [] \<Longrightarrow> inFlight ?c = []"
    by (simp_all add: removeTabRecord_empty)
  ultimately show ?thesis
    using assms base_inv_removeTabRecord[OF base, of t] tabs
    by (cases "stateValue c") (auto simp: core_inv_def ownerOf_def)
qed

lemma loss_has_no_owner:
  "ownerOf (stateValue c) = Some (t, e) \<Longrightarrow> transitionToAbruptLoss t e r c = (Inr as, c') \<Longrightarrow>
     ownerOf (stateValue c') = None"
  by (auto simp: transitionToAbruptLoss_def Let_def asserting_def ownerOf_def split: option.splits prod.splits)

lemma tabLost_safe:
  assumes "core_inv c"
  shows "safe_outcome (tabLost t r c)"
proof -
  have "safe_outcome (and_then (transitionToAbruptLoss t e r c) (\<lambda>as c1.
      let c2 = removeTabRecord t c1; c3 = c2\<lparr>retiringTabs := retiringTabs c2 - {t}\<rparr>
      in asserting (DropTab t # as) c3))" if "ownerOf (stateValue c) = Some (t, e)" for e
    using that by (intro safe_and_then transitionToAbruptLoss_safe[OF assms])
      (auto simp: Let_def intro!: safe_asserting forget_tab_inv dest: loss_has_no_owner)
  moreover have "core_inv ((removeTabRecord t c)\<lparr>retiringTabs := retiringTabs c - {t}\<rparr>)"
    if "\<forall>e. ownerOf (stateValue c) \<noteq> Some (t, e)" by (rule forget_tab_inv[OF assms that])
  ultimately show ?thesis
    using assms by (auto simp: tabLost_def Let_def split: option.splits)
qed

lemma resumeAfterLoss_inv: "core_inv c \<Longrightarrow> core_inv (snd (resumeAfterLoss c))"
  by (cases "stateValue c")
    (auto simp: resumeAfterLoss_def core_inv_def truthyCandidate_None
      dest: truthyCandidate_Some split: option.splits)

lemmas public_inv =
  registerTab_inv setTabVisibility_inv request_safe beginOwnerLockWait_inv ownerLockUnavailable_safe
  storageBusy_safe beginEngineOpen_inv engineReady_safe engineResponse_inv enginePush_inv
  beginGracefulDeparture_inv engineDrained_safe supersede_safe terminalFailure_safe
  departForNavigation_safe tabLost_safe resumeAfterLoss_inv

lemma core_step_safe: "core_inv c \<Longrightarrow> decoded_event e \<Longrightarrow> safe_outcome (core_step e c)"
  by (cases e) (simp_all add: public_inv ownerLost_def transitionToAbruptLoss_safe)

lemma core_step_inv: "core_inv c \<Longrightarrow> decoded_event e \<Longrightarrow> core_inv (snd (core_step e c))"
  using core_step_safe[of c e] by (simp add: safe_outcome_def)

lemma reachable_inv: "reachable c \<Longrightarrow> core_inv c"
  by (induction rule: reachable.induct) (auto intro: core_new_inv core_step_inv)

end
