(* ===== verification/Coordinator_Properties.thy ===== *)
theory Coordinator_Properties
  imports Coordinator_Invariant
begin

text \<open>
  The properties of the cache coordinator over single calls and over whole runs: the
  numbering of owner epochs and of routes, who can be elected, what a lost owner leaves
  behind, and that old engines are fenced off.
\<close>

section \<open>The actions of a call\<close>

definition acts :: "(core_error, ('p, 'r, 'u) actions, 'p core) outcome \<Rightarrow> ('p, 'r, 'u) actions" where
  "acts r = (case fst r of Inl _ \<Rightarrow> [] | Inr as \<Rightarrow> as)"

primrec elections :: "('p, 'r, 'u) actions \<Rightarrow> (tab \<times> owner_epoch \<times> database_action) list" where
  "elections [] = []"
| "elections (a # as) = (case a of ElectOwner t e d \<Rightarrow> [(t, e, d)] | _ \<Rightarrow> []) @ elections as"

primrec routed_ids :: "('p, 'r, 'u) actions \<Rightarrow> route_id list" where
  "routed_ids [] = []"
| "routed_ids (a # as) = (case a of RouteRequest _ _ _ i _ \<Rightarrow> [i] | _ \<Rightarrow> []) @ routed_ids as"

lemma elections_append [simp]: "elections (xs @ ys) = elections xs @ elections ys"
  by (induction xs) auto

lemma routed_ids_append [simp]: "routed_ids (xs @ ys) = routed_ids xs @ routed_ids ys"
  by (induction xs) auto

lemma rejects_quiet [simp]:
  "elections (map (\<lambda>x. reject (t x) (i x) m (ec x)) xs) = []"
  "routed_ids (map (\<lambda>x. reject (t x) (i x) m (ec x)) xs) = []"
  "elections (map (\<lambda>x. RejectRequest (t x) (i x) m (ec x)) xs) = []"
  by (induction xs) (simp_all add: reject_def)

lemma acts_simps [simp]:
  "acts (Inr as, c) = as" "acts (Inl e, c) = []" "acts (apfst Inr r) = fst r"
  by (simp_all add: acts_def apfst_def map_prod_def split: prod.splits)

lemma acts_asserting: "core_inv c \<Longrightarrow> acts (asserting as c) = as"
  by simp

text \<open>Numbers handed out one after the other, from \<open>lo\<close> up to \<open>hi\<close>.\<close>

definition numbered :: "nat \<Rightarrow> nat list \<Rightarrow> nat \<Rightarrow> bool" where
  "numbered lo ns hi \<longleftrightarrow> sorted_wrt (<) ns \<and> (\<forall>n \<in> set ns. lo \<le> n \<and> n < hi) \<and> lo \<le> hi"

lemma numbered_Nil [simp]: "numbered n [] n"
  by (simp add: numbered_def)

lemma numbered_append: "numbered a xs b \<Longrightarrow> numbered b ys c \<Longrightarrow> numbered a (xs @ ys) c"
  by (force simp: numbered_def sorted_wrt_append)

lemma numbered_skip: "numbered a [] b \<Longrightarrow> numbered b ys c \<Longrightarrow> numbered a ys c"
  using numbered_append[of a "[]" b ys c] by simp

text \<open>A call elects at most the next epoch and routes under fresh ids.\<close>

definition tracks :: "'p core \<Rightarrow> (core_error, ('p, 'r, 'u) actions, 'p core) outcome \<Rightarrow> bool" where
  "tracks c r \<longleftrightarrow>
     map (fst \<circ> snd) (elections (acts r)) = [Suc (currentEpoch c)..<Suc (currentEpoch (snd r))] \<and>
     currentEpoch c \<le> currentEpoch (snd r) \<and>
     numbered (nextRouteId c) (routed_ids (acts r)) (nextRouteId (snd r))"

lemma tracks_quiet:
  "elections (acts r) = [] \<Longrightarrow> routed_ids (acts r) = [] \<Longrightarrow>
   currentEpoch (snd r) = currentEpoch c \<Longrightarrow> nextRouteId (snd r) = nextRouteId c \<Longrightarrow> tracks c r"
  by (simp add: tracks_def)

subsection \<open>The methods one by one\<close>

lemma activateNext_tracks:
  "activateNext a d = (el, d') \<Longrightarrow>
     map (fst \<circ> snd) (elections el) = [Suc (currentEpoch d)..<Suc (currentEpoch d')] \<and>
     currentEpoch d \<le> currentEpoch d' \<and> nextRouteId d' = nextRouteId d \<and> routed_ids el = []"
  by (auto simp: activateNext_def Let_def split: option.splits)

lemma tracks_activateNext:
  "currentEpoch d = currentEpoch c \<Longrightarrow> nextRouteId d = nextRouteId c \<Longrightarrow>
   tracks c (apfst Inr (activateNext a d))"
  by (auto simp: tracks_def activateNext_def Let_def split: option.splits)

lemma tracks_elect:
  assumes "activateNext a d = r" and "base_inv d" and "inFlight d = []"
    and "currentEpoch d = currentEpoch c" and "nextRouteId d = nextRouteId c"
    and "elections pre = []" and "routed_ids pre = []"
    and "elections [x, y] = []" and "routed_ids [x, y] = []"
  shows "tracks c (asserting (pre @ x # y # fst r) (snd r))"
proof -
  have "core_inv (snd r)" unfolding assms(1)[symmetric] by (rule activateNext_inv[OF assms(2,3)])
  moreover have "elections (x # y # fst r) = elections (fst r)" "routed_ids (x # y # fst r) = routed_ids (fst r)"
    using assms(8,9) by auto
  moreover note activateNext_tracks[of a d "fst r" "snd r"]
  ultimately show ?thesis using assms(1,4-7) by (simp add: tracks_def del: upt_Suc)
qed

lemma handoffIfNeeded_fields [simp]:
  "nextRouteId (snd (handoffIfNeeded c)) = nextRouteId c"
  "currentEpoch (snd (handoffIfNeeded c)) = currentEpoch c"
  "routed_ids (fst (handoffIfNeeded c)) = []"
  "elections (fst (handoffIfNeeded c)) = []"
  by (auto simp: handoffIfNeeded_def split: coordinator_state.splits)

lemma rejectEpochRequests_fields [simp]:
  "nextRouteId (snd (rejectEpochRequests e m ec c)) = nextRouteId c"
  "currentEpoch (snd (rejectEpochRequests e m ec c)) = currentEpoch c"
  "retiringTabs (snd (rejectEpochRequests e m ec c)) = retiringTabs c"
  "elections (fst (rejectEpochRequests e m ec c)) = []"
  "routed_ids (fst (rejectEpochRequests e m ec c)) = []"
  by (simp_all add: rejectEpochRequests_def split_def)

lemma recordProtocolViolation_fields [simp]:
  "nextRouteId (snd (recordProtocolViolation m c)) = nextRouteId c"
  "currentEpoch (snd (recordProtocolViolation m c)) = currentEpoch c"
  "elections (fst (recordProtocolViolation m c)) = []"
  "routed_ids (fst (recordProtocolViolation m c)) = []"
  by (simp_all add: recordProtocolViolation_def)

lemma asserting_snd [simp]: "snd (asserting x c) = c"
  by (simp add: asserting_def split: option.splits)

lemma asserting_quiet:
  "elections as = [] \<Longrightarrow> elections (acts (asserting as c)) = []"
  "routed_ids as = [] \<Longrightarrow> routed_ids (acts (asserting as c)) = []"
  by (simp_all add: asserting_def split: option.splits)

lemma transitionToAbruptLoss_tracks:
  "elections (acts (transitionToAbruptLoss t e m c)) = []"
  "routed_ids (acts (transitionToAbruptLoss t e m c)) = []"
  "currentEpoch (snd (transitionToAbruptLoss t e m c)) = currentEpoch c"
  "nextRouteId (snd (transitionToAbruptLoss t e m c)) = nextRouteId c"
  by (simp_all add: transitionToAbruptLoss_def Let_def split_beta asserting_quiet)

lemma failClosed_tracks:
  "elections (acts (failClosed t e a m c)) = []"
  "routed_ids (acts (failClosed t e a m c)) = []"
  "currentEpoch (snd (failClosed t e a m c)) = currentEpoch c"
  "nextRouteId (snd (failClosed t e a m c)) = nextRouteId c"
  by (simp_all add: failClosed_def Let_def asserting_quiet rejectUnavailable_def)

lemma route_tracks:
  "currentEpoch (snd (route q t e c)) = currentEpoch c"
  "fst (route q t e c) = Inr a \<Longrightarrow>
     nextRouteId (snd (route q t e c)) = Suc (nextRouteId c) \<and> elections [a] = [] \<and>
     routed_ids [a] = [nextRouteId c]"
  "nextRouteId c \<le> nextRouteId (snd (route q t e c))"
  by (auto simp: route_def Let_def split: if_splits)

lemma snd_and_then: "snd (and_then r (\<lambda>as d. (Inr (f as), d))) = snd r"
  by (cases r; cases "fst r") simp_all

lemma flushQueued_epoch: "currentEpoch (snd (flushQueued t e qs c)) = currentEpoch c"
proof (induction qs arbitrary: c)
  case (Cons q qs)
  then show ?case
    by (cases "isSafeInteger (nextRouteId c)") (auto simp: route_def Let_def snd_and_then)
qed simp

lemma tracks_routed:
  assumes "tracks d r" and "currentEpoch d = currentEpoch c" and "nextRouteId d = Suc (nextRouteId c)"
    and "routed_ids [a] = [nextRouteId c]" and "elections [a] = []"
  shows "tracks c (and_then r (\<lambda>as c3. (Inr (a # as), c3)))"
proof (cases r)
  case (Pair x d')
  show ?thesis
  proof (cases x)
    case (Inl er)
    with Pair assms show ?thesis by (simp add: tracks_def numbered_def)
  next
    case (Inr as)
    with Pair assms have "numbered (nextRouteId c) (nextRouteId c # routed_ids as) (nextRouteId d')"
      by (force simp: tracks_def numbered_def)
    moreover have "routed_ids (a # as) = nextRouteId c # routed_ids as" "elections (a # as) = elections as"
      using assms(4,5) by auto
    ultimately show ?thesis using Pair Inr assms(1,2) by (simp add: tracks_def)
  qed
qed

lemma flushQueued_tracks: "tracks c (flushQueued t e qs c)"
proof (induction qs arbitrary: c)
  case Nil
  then show ?case by (simp add: tracks_def)
next
  case (Cons q qs)
  let ?c = "c\<lparr>queuedRequests := qs\<rparr>"
  show ?case
  proof (cases "q_tabId q \<in> set (tabs c) \<or> isMutationSettlement (q_request q)")
    case False
    with Cons.IH[of ?c] show ?thesis by (simp add: tracks_def)
  next
    case True
    show ?thesis
    proof (cases "isSafeInteger (nextRouteId c)")
      case False
      with True show ?thesis by (simp add: route_exhausted tracks_def)
    next
      case safe: True
      let ?d = "?c\<lparr>nextRouteId := Suc (nextRouteId c),
          inFlight := AList.update (nextRouteId c) \<lparr>f_tabId = q_tabId q, f_request = q_request q,
            f_routeId = nextRouteId c, f_ownerEpoch = e\<rparr> (inFlight c)\<rparr>"
      from Cons.IH[of ?d] True safe show ?thesis
        by (auto simp: route_def Let_def intro!: tracks_routed)
    qed
  qed
qed

lemma registerTab_tracks: "tracks c (apfst Inr (registerTab t v c))"
  by (auto simp: registerTab_def Let_def intro!: tracks_activateNext
      split: option.splits coordinator_state.splits bool.splits intro: tracks_quiet)

lemma setTabVisibility_tracks: "tracks c (apfst Inr (setTabVisibility t v c))"
  by (auto simp: setTabVisibility_def Let_def intro!: tracks_activateNext
      split: coordinator_state.splits intro: tracks_quiet)

lemma request_tracks: "tracks c (request t r c)"
  by (auto simp: tracks_def request_def Let_def reject_def rejectUnavailable_def route_def numbered_def
      split: option.splits coordinator_state.splits)

lemma tracks_cong:
  "tracks c r \<Longrightarrow> currentEpoch d = currentEpoch c \<Longrightarrow> nextRouteId d = nextRouteId c \<Longrightarrow> tracks d r"
  by (simp add: tracks_def)

lemma tracks_and_then:
  assumes "tracks c r" and "safe_outcome r"
    and "\<And>as d. r = (Inr as, d) \<Longrightarrow> core_inv d \<Longrightarrow>
          \<exists>d'. f as d = (Inr (pre @ as), d') \<and> currentEpoch d' = currentEpoch d \<and> nextRouteId d' = nextRouteId d"
    and "elections pre = []" and "routed_ids pre = []"
  shows "tracks c (and_then r f)"
proof (cases r)
  case (Pair x d)
  show ?thesis
  proof (cases x)
    case (Inr as)
    from assms(3)[of as d] assms(2) Pair Inr obtain d' where
      "f as d = (Inr (pre @ as), d')" "currentEpoch d' = currentEpoch d" "nextRouteId d' = nextRouteId d"
      by (auto simp: safe_outcome_def)
    with assms(1,4,5) Pair Inr show ?thesis by (simp add: tracks_def del: upt_Suc)
  qed (use assms(1) Pair in simp)
qed

lemma lost_tracks: "tracks c (transitionToAbruptLoss t e m c)"
  by (rule tracks_quiet) (simp_all add: transitionToAbruptLoss_tracks)

lemma engineReady_tracks:
  assumes "core_inv c"
  shows "tracks c (engineReady r c)"
proof (cases "\<exists>a. stateValue c = Activating (er_tabId r) (er_ownerEpoch r) a OpeningDatabase")
  case False
  then show ?thesis
    by (cases "stateValue c")
      (auto simp: engineReady_def intro!: tracks_quiet split: engine_startup_phase.splits)
next
  case True
  then obtain a where s: "stateValue c = Activating (er_tabId r) (er_ownerEpoch r) a OpeningDatabase" ..
  let ?t = "er_tabId r" and ?e = "er_ownerEpoch r"
  let ?c = "c\<lparr>stateValue := Active ?t ?e\<rparr>"
  have facts: "base_inv c" "inFlight c = []" "?t \<in> set (tabs c)" "?e = currentEpoch c"
    using assms s by (auto simp: core_inv_def)
  show ?thesis
  proof (cases "readyError r")
    case (Some m)
    let ?d = "c\<lparr>protocolViolations := Suc (protocolViolations c)\<rparr>"
    have "core_inv ?d" using recordProtocolViolation_inv[OF assms, of m] by (simp add: recordProtocolViolation_def)
    then show ?thesis
      using s Some by (auto simp: engineReady_def recordProtocolViolation_def
          intro!: tracks_and_then[where pre = "[ProtocolViolation m]"] transitionToAbruptLoss_safe
            tracks_cong[OF lost_tracks])
  next
    case None
    have own: "owned_by ?e ?c" using facts by simp
    show ?thesis
    proof (cases "?t \<in> visibleTabs c")
      case True
      from True None s show ?thesis
        by (cases "Suc 0 < ?e")
          (auto simp: engineReady_def handoffIfNeeded_def Let_def
            intro!: tracks_and_then[where pre =
                "if Suc 0 < ?e then [BroadcastEngineReplaced ?e (er_openOutcome r)] else []"]
              flushQueued_safe facts own tracks_cong[OF flushQueued_tracks])
    next
      case False
      with None s show ?thesis
        by (auto simp: engineReady_def handoffIfNeeded_def Let_def intro!: tracks_quiet)
    qed
  qed
qed

lemma departed_base:
  "core_inv c \<Longrightarrow> ownerOf (stateValue c) = Some (t, e) \<Longrightarrow>
     base_inv (c\<lparr>inFlight := []\<rparr>) \<and> base_inv (removeTabRecord t (c\<lparr>inFlight := []\<rparr>)) \<and>
     base_inv (removeTabRecord t (c\<lparr>inFlight := [], retiringTabs := R\<rparr>))"
proof -
  assume "core_inv c" and "ownerOf (stateValue c) = Some (t, e)"
  then have "base_inv c" by (rule core_inv_owner(4))
  then have "base_inv (c\<lparr>inFlight := [], retiringTabs := R\<rparr>)" and "base_inv (c\<lparr>inFlight := []\<rparr>)"
    by (auto simp: base_inv_def)
  then show ?thesis by (simp add: base_inv_removeTabRecord)
qed

lemma engineDrained_tracks:
  assumes "core_inv c"
  shows "tracks c (engineDrained t e c)"
proof (cases "stateValue c = Draining t e")
  case True
  then have own: "ownerOf (stateValue c) = Some (t, e)" by (simp add: ownerOf_def)
  show ?thesis
    using True departed_base[OF assms own]
    by (auto simp: engineDrained_def Let_def split_beta rejectEpochRequests_owner[OF assms own]
        removeTabRecord_empty intro!: tracks_elect[OF refl])
qed (auto simp: engineDrained_def intro!: tracks_quiet)

lemma departForNavigation_tracks:
  assumes "core_inv c"
  shows "tracks c (departForNavigation t e r c)"
proof (cases "ownerOf (stateValue c) = Some (t, e)")
  case True
  show ?thesis
    using True departed_base[OF assms True]
    by (auto simp: departForNavigation_def Let_def split_beta rejectEpochRequests_owner[OF assms True]
        removeTabRecord_empty intro!: tracks_elect[OF refl])
qed (auto simp: departForNavigation_def intro!: tracks_quiet)

lemma tabLost_owner_tracks:
  assumes "core_inv c" and own: "ownerOf (stateValue c) = Some (t, e)"
  shows "tracks c (and_then (transitionToAbruptLoss t e r c) (\<lambda>as c1.
      asserting (DropTab t # as) ((removeTabRecord t c1)\<lparr>retiringTabs := retiringTabs c1 - {t}\<rparr>)))"
proof (rule tracks_and_then[where pre = "[DropTab t]", OF lost_tracks transitionToAbruptLoss_safe[OF assms(1)]])
  fix as d
  assume lost: "transitionToAbruptLoss t e r c = (Inr as, d)" and d: "core_inv d"
  from loss_has_no_owner[OF own lost] d
  have "core_inv ((removeTabRecord t d)\<lparr>retiringTabs := retiringTabs d - {t}\<rparr>)"
    by (simp add: forget_tab_inv)
  then show "\<exists>d'. asserting (DropTab t # as) ((removeTabRecord t d)\<lparr>retiringTabs := retiringTabs d - {t}\<rparr>)
      = (Inr ([DropTab t] @ as), d') \<and> currentEpoch d' = currentEpoch d \<and> nextRouteId d' = nextRouteId d"
    by simp
qed simp_all

lemma tabLost_tracks:
  assumes "core_inv c"
  shows "tracks c (tabLost t r c)"
proof (cases "\<exists>e. ownerOf (stateValue c) = Some (t, e)")
  case True
  then show ?thesis
    using assms by (auto simp: tabLost_def Let_def intro: tracks_quiet tabLost_owner_tracks)
next
  case False
  then have "core_inv ((removeTabRecord t c)\<lparr>retiringTabs := retiringTabs c - {t}\<rparr>)"
    by (intro forget_tab_inv[OF assms]) simp
  with False show ?thesis
    by (auto simp: tabLost_def Let_def intro!: tracks_quiet split: option.splits)
qed

lemma resumeAfterLoss_tracks: "core_inv c \<Longrightarrow> tracks c (apfst Inr (resumeAfterLoss c))"
  by (auto simp: resumeAfterLoss_def core_inv_def tracks_def
      split: option.splits coordinator_state.splits)

lemma ownerLockUnavailable_tracks: "tracks c (ownerLockUnavailable t e c)"
  by (auto simp: ownerLockUnavailable_def failClosed_tracks intro!: tracks_quiet
      split: coordinator_state.splits)

lemma storageBusy_tracks: "tracks c (storageBusy t e c)"
  by (auto simp: storageBusy_def failClosed_tracks intro!: tracks_quiet split: coordinator_state.splits)

lemma supersede_tracks: "tracks c (supersede c)"
  by (auto simp: supersede_def Let_def asserting_quiet rejectUnavailable_def intro!: tracks_quiet)

lemma terminalFailure_tracks: "tracks c (terminalFailure m c)"
  by (auto simp: terminalFailure_def Let_def asserting_quiet intro!: tracks_quiet
      split: coordinator_state.splits)

lemma engineResponse_tracks: "tracks c (apfst Inr (engineResponse e i x c))"
  by (auto simp: engineResponse_def Let_def dropStale_def intro!: tracks_quiet split: option.splits)

lemma enginePush_tracks: "tracks c (apfst Inr (enginePush e u c))"
  by (auto simp: enginePush_def dropStale_def intro!: tracks_quiet)

lemma beginGracefulDeparture_tracks: "tracks c (apfst Inr (beginGracefulDeparture t e c))"
  by (auto simp: beginGracefulDeparture_def Let_def intro!: tracks_quiet split: coordinator_state.splits)

lemma startup_tracks:
  "tracks c (Inr [], snd (beginOwnerLockWait t e c))" "tracks c (Inr [], snd (beginEngineOpen t e c))"
  by (auto simp: beginOwnerLockWait_def beginEngineOpen_def intro!: tracks_quiet
      split: coordinator_state.splits engine_startup_phase.splits)

lemmas public_tracks =
  registerTab_tracks setTabVisibility_tracks request_tracks ownerLockUnavailable_tracks
  storageBusy_tracks engineReady_tracks engineResponse_tracks enginePush_tracks
  beginGracefulDeparture_tracks engineDrained_tracks supersede_tracks terminalFailure_tracks
  departForNavigation_tracks tabLost_tracks resumeAfterLoss_tracks startup_tracks lost_tracks

lemma core_step_tracks: "core_inv c \<Longrightarrow> tracks c (core_step ev c)"
  by (cases ev) (simp_all add: public_tracks ownerLost_def)

lemma core_run_tracks:
  "core_inv c \<Longrightarrow> core_run es c = (as, d) \<Longrightarrow> list_all decoded_event es \<Longrightarrow> core_inv d \<and> tracks c (Inr as, d)"
proof (induction es arbitrary: c as)
  case (Cons ev es)
  obtain r c1 bs where r: "core_step ev c = (r, c1)" and run: "core_run es c1 = (bs, d)"
    and as: "as = (case r of Inl _ \<Rightarrow> [] | Inr a \<Rightarrow> a) @ bs"
    using Cons.prems(2) by (auto split: prod.splits)
  have c1: "core_inv c1" and t1: "tracks c (r, c1)"
    using core_step_inv[OF Cons.prems(1), of ev] core_step_tracks[OF Cons.prems(1), of ev] Cons.prems(3)
    by (simp_all add: r)
  from Cons.IH[OF c1 run] Cons.prems(3) have "core_inv d" and t2: "tracks c1 (Inr bs, d)" by auto
  have "[Suc (currentEpoch c)..<Suc (currentEpoch d)] =
      [Suc (currentEpoch c)..<Suc (currentEpoch c1)] @ [Suc (currentEpoch c1)..<Suc (currentEpoch d)]"
    using t1 t2 by (auto simp: tracks_def simp del: upt_Suc intro!: upt_split)
  with t1 t2 \<open>core_inv d\<close> show ?case
    by (auto simp: tracks_def acts_def as simp del: upt_Suc intro: numbered_append numbered_skip split: sum.splits)
qed (simp add: tracks_def)

section \<open>Who is elected\<close>

definition elects_eligible :: "(core_error, ('p, 'r, 'u) actions, 'p core) outcome \<Rightarrow> bool" where
  "elects_eligible r \<longleftrightarrow> (\<forall>(t, e, a) \<in> set (elections (acts r)).
     stateValue (snd r) = Activating t e a LoadingAssets \<and> t \<in> set (tabs (snd r)) \<and>
     t \<in> visibleTabs (snd r) \<and> t \<notin> retiringTabs (snd r) \<and> unavailableTabs (snd r) t = None)"

lemma elects_quiet: "elections (acts r) = [] \<Longrightarrow> elects_eligible r"
  by (simp add: elects_eligible_def)

lemma activateNext_eligible: "elects_eligible (apfst Inr (activateNext a c))"
  by (auto simp: elects_eligible_def activateNext_def Let_def dest: truthyCandidate_Some split: option.splits)

lemma elect_eligible:
  assumes "activateNext a d = r" and "elections pre = []" and "elections [x, y] = []"
  shows "elects_eligible (asserting (pre @ x # y # fst r) (snd r))"
proof -
  have "elections (pre @ x # y # fst r) = elections (fst r)" using assms(2,3) by auto
  moreover have "elects_eligible (apfst Inr r)"
    unfolding assms(1)[symmetric] by (rule activateNext_eligible)
  ultimately show ?thesis
    by (auto simp: elects_eligible_def asserting_def split: option.splits)
qed

lemma elections_and_then:
  "(\<And>as d. x = (Inr as, d) \<Longrightarrow> elections (acts (f as d)) = []) \<Longrightarrow> elections (acts (and_then x f)) = []"
  by (cases x; cases "fst x") auto

lemma elections_acts_Inr: "elections (acts x) = [] \<Longrightarrow> x = (Inr as, d) \<Longrightarrow> elections as = []"
  by simp

lemma flushQueued_elections: "elections (acts (flushQueued t e qs d)) = []"
proof (induction qs arbitrary: d)
  case (Cons q qs)
  show ?case
    using Cons.IH
    by (auto simp: route_def Let_def intro!: elections_and_then dest: elections_acts_Inr[OF Cons.IH])
qed simp

lemma engineReady_elections: "elections (acts (engineReady r c)) = []"
  by (auto simp: engineReady_def Let_def split_beta asserting_quiet
      dest: elections_acts_Inr[OF flushQueued_elections]
        elections_acts_Inr[OF transitionToAbruptLoss_tracks(1)]
      intro!: elections_and_then
      split: coordinator_state.splits engine_startup_phase.splits option.splits)

lemma tabLost_elections: "elections (acts (tabLost t r c)) = []"
  by (auto simp: tabLost_def Let_def split_beta asserting_quiet
      dest: elections_acts_Inr[OF transitionToAbruptLoss_tracks(1)]
      intro!: elections_and_then split: option.splits if_splits)

lemma registerTab_eligible: "elects_eligible (apfst Inr (registerTab t v c))"
  by (auto simp: registerTab_def Let_def intro!: activateNext_eligible
      split: option.splits coordinator_state.splits bool.splits intro: elects_quiet)

lemma setTabVisibility_eligible: "elects_eligible (apfst Inr (setTabVisibility t v c))"
  by (auto simp: setTabVisibility_def Let_def intro!: activateNext_eligible
      split: coordinator_state.splits intro: elects_quiet)

lemma engineDrained_eligible: "elects_eligible (engineDrained t e c)"
  by (auto simp: engineDrained_def Let_def split_beta intro!: elect_eligible[OF refl] intro: elects_quiet)

lemma departForNavigation_eligible: "elects_eligible (departForNavigation t e r c)"
  by (auto simp: departForNavigation_def Let_def split_beta intro!: elect_eligible[OF refl] intro: elects_quiet)

lemma resumeAfterLoss_eligible: "elects_eligible (apfst Inr (resumeAfterLoss c))"
  by (auto simp: elects_eligible_def resumeAfterLoss_def dest: truthyCandidate_Some
      split: option.splits coordinator_state.splits)

lemma quiet_elections:
  "elections (acts (request t q c)) = []" "elections (acts (ownerLockUnavailable t e c)) = []"
  "elections (acts (storageBusy t e c)) = []" "elections (acts (supersede c)) = []"
  "elections (acts (terminalFailure m c)) = []" "elections (acts (ownerLost t e m c)) = []"
  "elections (fst (engineResponse e i x c)) = []" "elections (fst (enginePush e u c)) = []"
  "elections (fst (beginGracefulDeparture t e c)) = []"
  by (auto simp: request_def reject_def rejectUnavailable_def route_def ownerLockUnavailable_def
      storageBusy_def failClosed_tracks supersede_def terminalFailure_def ownerLost_def
      transitionToAbruptLoss_tracks engineResponse_def enginePush_def beginGracefulDeparture_def
      dropStale_def asserting_quiet Let_def split: option.splits coordinator_state.splits)

lemmas public_eligible =
  registerTab_eligible setTabVisibility_eligible engineDrained_eligible departForNavigation_eligible
  resumeAfterLoss_eligible

lemma core_step_eligible: "elects_eligible (core_step ev c)"
  by (cases ev)
    (simp_all add: public_eligible elects_quiet quiet_elections engineReady_elections tabLost_elections)

subsection \<open>Superseded coordinators\<close>

lemma activateNext_superseded [simp]: "supersededReason (snd (activateNext a c)) = supersededReason c"
  by (simp add: activateNext_def Let_def split: option.splits)

lemma handoffIfNeeded_superseded [simp]: "supersededReason (snd (handoffIfNeeded c)) = supersededReason c"
  by (simp add: handoffIfNeeded_def split: coordinator_state.splits)

lemma flushQueued_superseded [simp]:
  "supersededReason (snd (flushQueued t e qs c)) = supersededReason c"
proof (induction qs arbitrary: c)
  case (Cons q qs)
  then show ?case by (auto simp: route_def Let_def snd_and_then)
qed simp

lemma snd_and_then_field:
  "(\<And>as d. F (snd (f as d)) = F d) \<Longrightarrow> F (snd (and_then r f)) = F (snd r)"
  by (cases r; cases "fst r") simp_all

lemma transitionToAbruptLoss_superseded [simp]:
  "supersededReason (snd (transitionToAbruptLoss t e m c)) = supersededReason c"
  by (simp add: transitionToAbruptLoss_def Let_def rejectEpochRequests_def)

lemma failClosed_superseded [simp]:
  "supersededReason (snd (failClosed t e a m c)) = supersededReason c"
  by (simp add: failClosed_def Let_def)

lemma core_step_superseded:
  "supersededReason c = Some x \<Longrightarrow> supersededReason (snd (core_step ev c)) = Some x"
proof (cases ev)
  case (EngineReady r)
  assume "supersededReason c = Some x"
  with EngineReady show ?thesis
    by (auto simp: engineReady_def Let_def split_beta recordProtocolViolation_def snd_and_then_field
        split: coordinator_state.splits engine_startup_phase.splits option.splits)
qed (auto simp: registerTab_def setTabVisibility_def request_def beginOwnerLockWait_def
    ownerLockUnavailable_def storageBusy_def beginEngineOpen_def engineResponse_def enginePush_def
    dropStale_def beginGracefulDeparture_def recordProtocolViolation_def engineDrained_def
    rejectEpochRequests_def ownerLost_def supersede_def terminalFailure_def departForNavigation_def
    tabLost_def resumeAfterLoss_def snd_and_then_field split_beta Let_def
    split: option.splits coordinator_state.splits engine_startup_phase.splits bool.splits)

section \<open>What the coordinator promises\<close>

text \<open>A small run used by the witnesses: one visible tab registers and becomes the owner.\<close>

definition witness_core :: "nat core" where
  "witness_core = \<lparr>scope = ''s'', stateValue = WaitingForTab OpenExisting, tabs = [], retiringTabs = {},
     visibleTabs = {}, unavailableTabs = Map.empty, supersededReason = None, queuedRequests = [],
     inFlight = [], currentEpoch = 0, nextRouteId = 1, staleMessageDrops = 0, protocolViolations = 0\<rparr>"

definition witness_ready :: engine_ready where
  "witness_ready = \<lparr>er_tabId = ''a'', er_ownerEpoch = 1, er_ownerLockName = ''l'',
     er_expectedOwnerLockName = ''l'', er_ownerLockHeld = True,
     er_databaseActionProof = ProofOpenedExisting, er_openOutcome = OpenedNew\<rparr>"

definition witness_events :: "(nat, unit, unit) core_event list" where
  "witness_events = [RegisterTab ''a'' True, BeginOwnerLockWait ''a'' 1, BeginEngineOpen ''a'' 1,
     EngineReady witness_ready, Request ''a'' \<lparr>req_id = 7, req_kind = EnqueueOptimisticMutation, req_body = 0\<rparr>]"

definition witness_active :: "nat core" where
  "witness_active = witness_core\<lparr>stateValue := Active ''a'' 1, tabs := [''a''], visibleTabs := {''a''},
     currentEpoch := 1, nextRouteId := 2,
     inFlight := [(1, \<lparr>f_tabId = ''a'', f_request = \<lparr>req_id = 7, req_kind = EnqueueOptimisticMutation,
        req_body = 0\<rparr>, f_routeId = 1, f_ownerEpoch = 1\<rparr>)]\<rparr>"

lemma witness_new: "core_new ''s'' = Inr witness_core"
  by (simp add: core_new_def witness_core_def)

lemma witness_run:
  "core_run witness_events witness_core =
     ([ElectOwner ''a'' 1 OpenExisting,
       RouteRequest ''a'' ''a'' 1 1 \<lparr>req_id = 1, req_kind = EnqueueOptimisticMutation, req_body = 0\<rparr>],
      witness_active)"
  by (simp add: witness_events_def witness_core_def witness_active_def witness_ready_def Let_def
      registerTab_def activateNext_def truthyCandidate_def chooseCandidate_def eligibleTabs_def beginOwnerLockWait_def
      beginEngineOpen_def engineReady_def readyError_def handoffIfNeeded_def asserting_def
      assertInvariants_def request_def route_def isSafeInteger_def max_safe_integer_def)

lemma core_run_reachable:
  "reachable c \<Longrightarrow> list_all decoded_event es \<Longrightarrow> reachable (snd (core_run (es :: ('p, unit, unit) core_event list) c))"
proof (induction es arbitrary: c)
  case (Cons e es)
  then have "reachable (snd (core_step e c))" by (intro reachable.step) simp_all
  with Cons show ?case by (simp add: split_beta Let_def)
qed simp

lemma witness_decoded: "list_all decoded_event witness_events"
  by (simp add: witness_events_def)

lemma witness_reachable: "reachable witness_core" "reachable witness_active"
  using core_run_reachable[OF reachable.start[OF witness_new], of witness_events]
    reachable.start[OF witness_new] witness_decoded by (simp_all add: witness_run)

text \<open>
  C1.  In every reachable state every call returns normally and the invariant holds again
  afterwards: the internal assertions never fire.  The only exception left is the one for
  the exhaustion of the \<open>2^53 - 1\<close> safe route ids.
\<close>

theorem coordinator_asserts_hold:
  assumes "reachable c" and "decoded_event ev"
  shows "core_inv (snd (core_step ev c)) \<and>
    ((\<exists>as. fst (core_step ev c) = Inr as) \<or>
     fst (core_step ev c) = Inl RouteIdSpaceExhausted \<and>
     max_safe_integer < nextRouteId (snd (core_step ev c)))"
proof -
  have "safe_outcome (core_step ev c)" by (rule core_step_safe[OF reachable_inv[OF assms(1)] assms(2)])
  then show ?thesis
    by (cases "fst (core_step ev c)") (auto simp: safe_outcome_def isSafeInteger_def)
qed

theorem coordinator_asserts_hold_witness:
  "core_inv (snd (core_step (OwnerLost ''a'' 1 ''gone'' :: (nat, unit, unit) core_event) witness_active))"
  using coordinator_asserts_hold[OF witness_reachable(2),
      of "OwnerLost ''a'' 1 ''gone'' :: (nat, unit, unit) core_event"] by (simp del: core_step.simps(13))

text \<open>
  C6.  While a registered tab is visible and usable, the coordinator is never idle: it is
  starting, using, draining or replacing an owner, or it has failed for good.
\<close>

theorem coordinator_not_idle:
  assumes "reachable c" and "hasVisibleTab c"
  shows "stateValue c \<noteq> WaitingForTab a \<and> stateValue c \<noteq> Parked a"
proof -
  have "\<not> no_candidate c" using assms(2) by (simp add: hasVisibleTab_def chooseCandidate_None)
  then show ?thesis using reachable_inv[OF assms(1)] by (auto simp: core_inv_def)
qed

theorem coordinator_not_idle_witness: "stateValue witness_active \<noteq> Parked OpenExisting"
proof -
  have "hasVisibleTab witness_active"
    by (simp add: hasVisibleTab_def chooseCandidate_def eligibleTabs_def witness_active_def witness_core_def)
  from coordinator_not_idle[OF witness_reachable(2) this] show ?thesis by blast
qed

text \<open>
  Over any run of a fresh coordinator the owners it elects carry the epochs
  \<open>1, 2, 3, \<dots>\<close>: no epoch is skipped or given twice, so an epoch identifies its owner.
\<close>

theorem epochs_consecutive:
  assumes "core_new s = Inr c" and "core_run es c = (as, d)" and "list_all decoded_event es"
  shows "map (fst \<circ> snd) (elections as) = [1..<Suc (currentEpoch d)]"
proof -
  have "tracks c (Inr as, d)" using core_run_tracks[OF core_new_inv[OF assms(1)] assms(2,3)] ..
  moreover have "currentEpoch c = 0" using assms(1) by (auto simp: core_new_def split: if_splits)
  ultimately show ?thesis by (simp add: tracks_def del: upt_Suc)
qed

theorem epochs_consecutive_witness: "[1..<Suc (currentEpoch witness_active)] = [1]"
  using epochs_consecutive[OF witness_new witness_run witness_decoded] by simp

text \<open>
  Over any run of a fresh coordinator the ids under which requests are routed to
  engines strictly increase: a route id is never reused, across owners too.
\<close>

theorem routes_never_reused:
  assumes "core_new s = Inr c" and "core_run es c = (as, d)" and "list_all decoded_event es"
  shows "sorted_wrt (<) (routed_ids as) \<and> (\<forall>i \<in> set (routed_ids as). i < nextRouteId d)"
  using core_run_tracks[OF core_new_inv[OF assms(1)] assms(2,3)] by (auto simp: tracks_def numbered_def)

theorem routes_never_reused_witness: "1 < nextRouteId witness_active"
  using routes_never_reused[OF witness_new witness_run witness_decoded] by simp

text \<open>
  Whoever is elected is, at that moment, a registered and visible tab that is neither
  retiring nor excluded from the cache, and the coordinator waits for exactly that tab's
  engine, which has not been granted storage yet.
\<close>

theorem elected_tab_is_eligible:
  assumes "core_step ev c = (Inr as, d)" and "ElectOwner t e a \<in> set as"
  shows "stateValue d = Activating t e a LoadingAssets \<and> t \<in> set (tabs d) \<and> t \<in> visibleTabs d \<and>
         t \<notin> retiringTabs d \<and> unavailableTabs d t = None"
proof -
  have "(t, e, a) \<in> set (elections as)" using assms(2) by (induction as) auto
  moreover have "elects_eligible (core_step ev c)" by (rule core_step_eligible)
  ultimately show ?thesis by (auto simp: assms(1) elects_eligible_def)
qed

theorem elected_tab_is_eligible_witness:
  "stateValue (snd (core_step (RegisterTab ''a'' True :: (nat, unit, unit) core_event) witness_core)) =
     Activating ''a'' 1 OpenExisting LoadingAssets"
proof -
  have "core_step (RegisterTab ''a'' True :: (nat, unit, unit) core_event) witness_core =
      (Inr [ElectOwner ''a'' 1 OpenExisting], snd (core_step (RegisterTab ''a'' True :: (nat, unit, unit) core_event) witness_core))"
    by (simp add: witness_core_def registerTab_def activateNext_def truthyCandidate_def chooseCandidate_def eligibleTabs_def Let_def)
  from elected_tab_is_eligible[OF this, of "''a''" 1 OpenExisting] show ?thesis by simp
qed

text \<open>
  Once a newer build of the app has taken the database over, no tab is ever elected
  again, whatever happens afterwards.
\<close>

theorem superseded_never_elects:
  assumes "reachable c" and "supersededReason c \<noteq> None" and "list_all decoded_event es"
  shows "elections (fst (core_run es c)) = []"
proof -
  have "core_inv c \<Longrightarrow> supersededReason c \<noteq> None \<Longrightarrow> list_all decoded_event es \<Longrightarrow> elections (fst (core_run es c)) = []"
  proof (induction es arbitrary: c)
    case (Cons ev es)
    obtain r d where r: "core_step ev c = (r, d)" by fastforce
    have d: "core_inv d" "supersededReason d \<noteq> None"
      using core_step_inv[OF Cons.prems(1), of ev] Cons.prems(2,3) core_step_superseded[of c _ ev] r by auto
    have "\<forall>t \<in> set (tabs d). unavailableTabs d t \<noteq> None"
      using d by (auto simp: core_inv_def base_inv_def)
    moreover have "elects_eligible (r, d)" using core_step_eligible[of ev c] r by simp
    ultimately have "elections (acts (r, d)) = []"
      by (cases "elections (acts (r, d))") (auto simp: elects_eligible_def)
    with Cons.IH[OF d] Cons.prems(3) show ?case by (simp add: r split_beta Let_def acts_def)
  qed simp
  then show ?thesis using reachable_inv[OF assms(1)] assms(2,3) by simp
qed

theorem superseded_never_elects_witness:
  "elections (fst (core_run [RegisterTab ''b'' True :: (nat, unit, unit) core_event]
      (snd (core_run [Supersede :: (nat, unit, unit) core_event] witness_active)))) = []"
proof (rule superseded_never_elects)
  show "reachable (snd (core_run [Supersede :: (nat, unit, unit) core_event] witness_active))"
    by (rule core_run_reachable[OF witness_reachable(2)]) simp
  show "supersededReason (snd (core_run [Supersede :: (nat, unit, unit) core_event] witness_active)) \<noteq> None"
    by (simp add: supersede_def witness_active_def witness_core_def Let_def split_beta)
qed simp

end
