(* ===== verification/Coordinator_Requests.thy ===== *)
theory Coordinator_Requests
  imports Coordinator_Properties
begin

text \<open>
  What the cache coordinator promises about the requests it carries and about the
  database: an answer reaches the tab that asked, under the id it used, and once; a lost
  owner settles every request it had; engines of other epochs are ignored; and a database
  that may be damaged is wiped before anybody uses it again.
\<close>

section \<open>Fencing\<close>

lemma accepts_current: "core_inv c \<Longrightarrow> acceptsEngineMessages e c \<Longrightarrow> e = currentEpoch c"
  by (auto simp: acceptsEngineMessages_def core_inv_def split: coordinator_state.splits)

text \<open>
  C4.  An engine whose epoch is not the current one cannot influence anything: its
  responses and pushes are dropped and only the counter of dropped messages changes.
\<close>

theorem stale_engine_fenced:
  assumes "reachable c" and "e \<noteq> currentEpoch c"
  shows "engineResponse e i x c = ([DropStaleEngineMessage e (Some i) StaleEpoch],
           c\<lparr>staleMessageDrops := staleMessageDrops c + 1\<rparr>) \<and>
         enginePush e u c = ([DropStaleEngineMessage e None StaleEpoch],
           c\<lparr>staleMessageDrops := staleMessageDrops c + 1\<rparr>)"
  using accepts_current[OF reachable_inv[OF assms(1)], of e] assms(2)
  by (auto simp: engineResponse_def enginePush_def dropStale_def)

theorem stale_engine_fenced_witness:
  "enginePush 0 (5 :: nat) witness_active = ([DropStaleEngineMessage 0 None StaleEpoch],
     witness_active\<lparr>staleMessageDrops := staleMessageDrops witness_active + 1\<rparr>)"
proof -
  have "0 \<noteq> currentEpoch witness_active" by (simp add: witness_active_def)
  from stale_engine_fenced[OF witness_reachable(2) this, of 1 "\<lparr>res_id = 1, res_body = ()\<rparr>" 5]
  show ?thesis by blast
qed

section \<open>Requests\<close>

text \<open>
  C3.  A request of a usable tab to an active owner is routed under a fresh id.  The
  engine's answer under that id is delivered to the tab that asked, renumbered with the
  id of its request, and the route is closed: a second answer is dropped.
\<close>

theorem request_roundtrip:
  assumes "reachable c" and "stateValue c = Active w e" and "t \<in> set (tabs c)"
    and "t \<notin> retiringTabs c" and "unavailableTabs c t = None" and "isSafeInteger (nextRouteId c)"
  shows "\<exists>c1 c2. request t q c =
           (Inr [RouteRequest w t e (nextRouteId c) (q\<lparr>req_id := nextRouteId c\<rparr>)], c1) \<and>
         engineResponse e (nextRouteId c) x c1 = ([DeliverResponse t (x\<lparr>res_id := req_id q\<rparr>)], c2) \<and>
         inFlight c2 = inFlight c \<and>
         fst (engineResponse e (nextRouteId c) y c2) =
           [DropStaleEngineMessage e (Some (nextRouteId c)) UnknownRoute]"
proof -
  have base: "base_inv c" using reachable_inv[OF assms(1)] by (simp add: core_inv_def)
  then have fresh: "nextRouteId c \<notin> fst ` set (inFlight c)" by (auto simp: base_inv_def)
  then have none: "map_of (inFlight c) (nextRouteId c) = None" by (simp add: map_of_eq_None_iff)
  have keep: "filter (\<lambda>x. fst x \<noteq> nextRouteId c) (inFlight c) = inFlight c"
    using fresh by (force simp: filter_id_conv)
  let ?f = "\<lparr>f_tabId = t, f_request = q, f_routeId = nextRouteId c, f_ownerEpoch = e\<rparr>"
  let ?c1 = "c\<lparr>nextRouteId := Suc (nextRouteId c), inFlight := inFlight c @ [(nextRouteId c, ?f)]\<rparr>"
  have "request t q c = (Inr [RouteRequest w t e (nextRouteId c) (q\<lparr>req_id := nextRouteId c\<rparr>)], ?c1)"
    using assms base by (simp add: request_def route_eq)
  moreover have "engineResponse e (nextRouteId c) x ?c1 =
      ([DeliverResponse t (x\<lparr>res_id := req_id q\<rparr>)], ?c1\<lparr>inFlight := inFlight c\<rparr>)"
    using assms none keep
    by (simp add: engineResponse_def acceptsEngineMessages_def map_add_def delete_eq_filter)
  moreover have "fst (engineResponse e (nextRouteId c) y (?c1\<lparr>inFlight := inFlight c\<rparr>)) =
      [DropStaleEngineMessage e (Some (nextRouteId c)) UnknownRoute]"
    using assms(2) none by (simp add: engineResponse_def acceptsEngineMessages_def dropStale_def)
  ultimately show ?thesis by (intro exI conjI) simp_all
qed

theorem request_roundtrip_witness:
  "\<exists>c1 c2. request ''a'' \<lparr>req_id = 9, req_kind = Read, req_body = 0\<rparr> witness_active =
     (Inr [RouteRequest ''a'' ''a'' 1 2 \<lparr>req_id = 2, req_kind = Read, req_body = 0\<rparr>], c1) \<and>
   engineResponse 1 2 \<lparr>res_id = 2, res_body = True\<rparr> c1 =
     ([DeliverResponse ''a'' \<lparr>res_id = 9, res_body = True\<rparr>], c2)"
proof -
  have w: "stateValue witness_active = Active ''a'' 1" "''a'' \<in> set (tabs witness_active)"
    "''a'' \<notin> retiringTabs witness_active" "unavailableTabs witness_active ''a'' = None"
    "isSafeInteger (nextRouteId witness_active)" "nextRouteId witness_active = 2"
    by (simp_all add: witness_active_def witness_core_def isSafeInteger_def max_safe_integer_def)
  from request_roundtrip[OF witness_reachable(2) w(1-5), of "\<lparr>req_id = 9, req_kind = Read, req_body = 0\<rparr>"
      "\<lparr>res_id = 2, res_body = True\<rparr>" "\<lparr>res_id = 2, res_body = True\<rparr>"]
  show ?thesis unfolding w(6) by auto
qed

lemma owned_filter:
  "owned_by e c \<Longrightarrow> filter (\<lambda>(_, f). f_ownerEpoch f = e) (inFlight c) = inFlight c"
  "owned_by e c \<Longrightarrow> filter (\<lambda>(_, f). f_ownerEpoch f \<noteq> e) (inFlight c) = []"
  by (auto simp: owned_by_def filter_id_conv filter_empty_conv)

lemma owner_owns: "core_inv c \<Longrightarrow> ownerOf (stateValue c) = Some (t, e) \<Longrightarrow> owned_by e c \<and> e = currentEpoch c"
  by (auto simp: core_inv_def ownerOf_def split: coordinator_state.splits)

text \<open>
  C2.  When the owner is lost, each request it still had is rejected exactly once, to the
  tab that made it.  An enqueued mutation is reported as possibly admitted, never as
  merely lost, so no caller repeats it.  Requests still queued are kept, nothing stays in
  flight, and the database is wiped unless the owner never had access to it.
\<close>

theorem owner_loss_settles_requests:
  assumes "reachable c" and "ownerOf (stateValue c) = Some (t, e)"
  shows "\<exists>d. ownerLost t e m c =
     (Inr (map (\<lambda>(_, f). RejectRequest (f_tabId f) (req_id (f_request f))
              (''owner epoch '' @ show_nat e @ '' was lost: '' @ m)
              (Some (if req_kind (f_request f) = EnqueueOptimisticMutation
                     then AdmittedEnqueueUncertain else OwnerEpochLost))) (inFlight c) @
           [CloseEngineRoute t e, ScheduleResetActivation]), d) \<and>
     inFlight d = [] \<and> queuedRequests d = queuedRequests c \<and>
     (\<exists>a. stateValue d = ResettingAfterLoss t e (e + 1) a m \<and>
          (a = WipeBeforeOpen \<or> (\<exists>ph. stateValue c = Activating t e a ph \<and> ph \<noteq> OpeningDatabase)))"
proof -
  have own: "owned_by e c" "e = currentEpoch c"
    using owner_owns[OF reachable_inv[OF assms(1)] assms(2)] by auto
  let ?d = "c\<lparr>inFlight := [], stateValue := ResettingAfterLoss t e (e + 1)
      (lossDatabaseAction (stateValue c)) m\<rparr>"
  have "assertInvariants ?d = None" by (simp add: assertInvariants_def)
  then have "ownerLost t e m c =
     (Inr (map (\<lambda>(_, f). RejectRequest (f_tabId f) (req_id (f_request f))
              (''owner epoch '' @ show_nat e @ '' was lost: '' @ m)
              (Some (if req_kind (f_request f) = EnqueueOptimisticMutation
                     then AdmittedEnqueueUncertain else OwnerEpochLost))) (inFlight c) @
           [CloseEngineRoute t e, ScheduleResetActivation]), ?d)"
    using assms(2) own
    by (simp add: ownerLost_def transitionToAbruptLoss_def rejectEpochRequests_def owned_filter
        asserting_def reject_def if_distrib cong: if_cong)
  moreover have "lossDatabaseAction (stateValue c) = WipeBeforeOpen \<or>
      (\<exists>ph. stateValue c = Activating t e (lossDatabaseAction (stateValue c)) ph \<and> ph \<noteq> OpeningDatabase)"
    using assms(2)
    by (auto simp: lossDatabaseAction_def ownerOf_def startupPhaseMayTouchStorage_def
        split: coordinator_state.splits)
  ultimately show ?thesis by (intro exI[of _ ?d]) simp
qed

theorem owner_loss_settles_requests_witness:
  "\<exists>d. ownerLost ''a'' 1 ''gone'' witness_active =
    (Inr [RejectRequest ''a'' 7 (''owner epoch '' @ show_nat 1 @ '' was lost: '' @ ''gone'')
            (Some AdmittedEnqueueUncertain),
          CloseEngineRoute ''a'' 1, ScheduleResetActivation], d) \<and>
    (\<exists>a. stateValue d = ResettingAfterLoss ''a'' 1 2 a ''gone'' \<and> a = WipeBeforeOpen)"
proof -
  have w: "ownerOf (stateValue witness_active) = Some (''a'', 1)"
    "inFlight witness_active = [(1, \<lparr>f_tabId = ''a'', f_request = \<lparr>req_id = 7,
       req_kind = EnqueueOptimisticMutation, req_body = 0\<rparr>, f_routeId = 1, f_ownerEpoch = 1\<rparr>)]"
    "stateValue witness_active = Active ''a'' 1"
    by (simp_all add: witness_active_def ownerOf_def)
  from owner_loss_settles_requests[OF witness_reachable(2) w(1), of "''gone''"]
  show ?thesis by (auto simp: w(2,3))
qed

section \<open>A pending wipe\<close>

text \<open>
  A wipe is owed: the next engine to open the database has to wipe it first, or the
  coordinator has failed without permission to retry.
\<close>

fun wipe_pending :: "coordinator_state \<Rightarrow> bool" where
  "wipe_pending (WaitingForTab a) \<longleftrightarrow> a = WipeBeforeOpen"
| "wipe_pending (Parked a) \<longleftrightarrow> a = WipeBeforeOpen"
| "wipe_pending (Activating t e a ph) \<longleftrightarrow> a = WipeBeforeOpen"
| "wipe_pending (ResettingAfterLoss p pe ne a r) \<longleftrightarrow> a = WipeBeforeOpen"
| "wipe_pending (Failed r untouched) \<longleftrightarrow> \<not> untouched"
| "wipe_pending (Active t e) \<longleftrightarrow> False"
| "wipe_pending (Draining t e) \<longleftrightarrow> False"

text \<open>No engine reports itself ready with a valid proof.\<close>

fun not_ready :: "('p, 'r, 'u) core_event \<Rightarrow> bool" where
  "not_ready (EngineReady r) \<longleftrightarrow> readyError r \<noteq> None"
| "not_ready ev \<longleftrightarrow> True"

lemma activateNext_wipe: "wipe_pending (stateValue (snd (activateNext WipeBeforeOpen c)))"
  by (simp add: activateNext_def Let_def split: option.splits)

lemma handoffIfNeeded_wipe:
  "wipe_pending (stateValue c) \<Longrightarrow> wipe_pending (stateValue (snd (handoffIfNeeded c)))"
  by (cases "stateValue c") (simp_all add: handoffIfNeeded_def)

lemma transitionToAbruptLoss_wipe:
  "wipe_pending (stateValue c) \<Longrightarrow> wipe_pending (stateValue (snd (transitionToAbruptLoss t e m c)))"
  by (cases "stateValue c")
    (simp_all add: transitionToAbruptLoss_def ownerOf_def lossDatabaseAction_def split_beta Let_def)

lemma snd_and_then_state:
  "(\<And>as d. x = (Inr as, d) \<Longrightarrow> stateValue (snd (f as d)) = stateValue d) \<Longrightarrow>
   stateValue (snd (and_then x f)) = stateValue (snd x)"
  by (cases x; cases "fst x") auto

lemma recordProtocolViolation_state [simp]:
  "stateValue (snd (recordProtocolViolation m c)) = stateValue c"
  by (simp add: recordProtocolViolation_def)

lemma failClosed_wipe: "wipe_pending (stateValue (snd (failClosed t e WipeBeforeOpen m c)))"
  by (simp add: failClosed_def Let_def)

lemma removeTabRecord_state [simp]: "stateValue (removeTabRecord t c) = stateValue c"
  by (simp add: removeTabRecord_def)

lemma engineReady_wipe:
  assumes "wipe_pending (stateValue c)" and "readyError r \<noteq> None"
  shows "wipe_pending (stateValue (snd (engineReady r c)))"
proof -
  obtain m where m: "readyError r = Some m" using assms(2) by auto
  have "wipe_pending (stateValue (snd (transitionToAbruptLoss t e m (snd (recordProtocolViolation m c)))))"
    for t e using assms(1) by (intro transitionToAbruptLoss_wipe) simp
  then show ?thesis
    using assms(1) m
    by (auto simp: engineReady_def split_beta Let_def snd_and_then_state
        split: coordinator_state.splits engine_startup_phase.splits)
qed

lemma tabLost_wipe:
  assumes "wipe_pending (stateValue c)"
  shows "wipe_pending (stateValue (snd (tabLost t m c)))"
  using assms transitionToAbruptLoss_wipe[OF assms]
  by (auto simp: tabLost_def Let_def snd_and_then_state split: option.splits)

lemma core_step_wipe:
  assumes "wipe_pending (stateValue c)" and "not_ready ev"
  shows "wipe_pending (stateValue (snd (core_step ev c)))"
proof (cases ev)
  case (RegisterTab t v)
  then show ?thesis using assms(1)
    by (cases "stateValue c")
      (auto simp: registerTab_def Let_def activateNext_wipe intro!: handoffIfNeeded_wipe
        split: option.splits bool.splits)
next
  case (SetTabVisibility t v)
  then show ?thesis using assms(1)
    by (cases "stateValue c")
      (auto simp: setTabVisibility_def Let_def activateNext_wipe intro!: handoffIfNeeded_wipe)
next
  case (Request t q)
  then show ?thesis using assms(1)
    by (cases "stateValue c") (auto simp: request_def Let_def split: option.splits)
next
  case (OwnerLockUnavailableEv t e)
  then show ?thesis using assms(1)
    by (cases "stateValue c") (auto simp: ownerLockUnavailable_def failClosed_wipe)
next
  case (StorageBusy t e)
  then show ?thesis using assms(1)
    by (cases "stateValue c") (auto simp: storageBusy_def failClosed_wipe)
next
  case (EngineResponse e i x)
  then show ?thesis using assms(1)
    by (auto simp: engineResponse_def dropStale_def Let_def split: option.splits)
next
  case Supersede
  then show ?thesis using assms(1)
    by (auto simp: supersede_def Let_def markUnavailable_def)
next
  case (DepartForNavigation t e m)
  then show ?thesis using assms(1)
    by (cases "stateValue c")
      (auto simp: departForNavigation_def ownerOf_def split_beta Let_def activateNext_wipe)
next
  case (TabLost t m)
  then show ?thesis using tabLost_wipe[OF assms(1)] by simp
next
  case (EngineReady r)
  then show ?thesis using engineReady_wipe[OF assms(1)] assms(2) by simp
next
  case (OwnerLost t e m)
  then show ?thesis using transitionToAbruptLoss_wipe[OF assms(1)] by (simp add: ownerLost_def)
qed (use assms(1) in \<open>cases "stateValue c";
      auto simp: beginOwnerLockWait_def beginEngineOpen_def enginePush_def dropStale_def
        beginGracefulDeparture_def engineDrained_def terminalFailure_def resumeAfterLoss_def Let_def
        split: engine_startup_phase.splits option.splits\<close>)+

text \<open>
  C5.  A wipe that is owed stays owed: whatever happens, until an engine reports ready
  with a valid proof every owner elected is told to wipe the database before it opens it,
  and the coordinator stays in a state that demands the wipe.
\<close>

theorem pending_wipe_kept:
  assumes "wipe_pending (stateValue c)" and "list_all not_ready es"
  shows "wipe_pending (stateValue (snd (core_run es c))) \<and>
         (\<forall>(t, e, a) \<in> set (elections (fst (core_run es c))). a = WipeBeforeOpen)"
  using assms
proof (induction es arbitrary: c)
  case (Cons ev es)
  obtain r d where r: "core_step ev c = (r, d)" by fastforce
  have d: "wipe_pending (stateValue d)" using core_step_wipe[OF Cons.prems(1), of ev] Cons.prems(2) r by simp
  moreover have "elects_eligible (r, d)" using core_step_eligible[of ev c] r by simp
  ultimately have "\<forall>(t, e, a) \<in> set (elections (acts (r, d))). a = WipeBeforeOpen"
    by (auto simp: elects_eligible_def)
  with Cons.IH[OF d] Cons.prems(2) show ?case by (auto simp: r split_beta Let_def acts_def)
qed simp

theorem pending_wipe_kept_witness:
  "wipe_pending (stateValue (snd (core_run [ResumeAfterLoss, TabLost ''a'' ''closed''
      :: (nat, unit, unit) core_event]
      (witness_active\<lparr>stateValue := ResettingAfterLoss ''a'' 1 2 WipeBeforeOpen ''gone''\<rparr>))))"
proof -
  have "wipe_pending (stateValue (witness_active\<lparr>stateValue :=
      ResettingAfterLoss ''a'' 1 2 WipeBeforeOpen ''gone''\<rparr>))" by simp
  from pending_wipe_kept[OF this, of "[ResumeAfterLoss, TabLost ''a'' ''closed'' :: (nat, unit, unit) core_event]"]
  show ?thesis by (simp del: core_run.simps)
qed

end
