(* ===== verification/Pane_History.thy ===== *)
theory Pane_History
  imports Prelude
begin

text \<open>
  One pane's navigation history, \<open>apps/web/src/lib/split-router/panes/history.ts\<close> with the
  data of \<open>types.ts\<close>: a list of entries and a cursor.  Entries carry an id, optional props
  that are handed over once unless they are kept, and a rest the router does not look at.
  Indices are integers, as in the code, so that what it does out of range is visible.
\<close>

section \<open>Data\<close>

type_synonym pane_id = ustring

datatype pane_arrival = Fresh | Back | Forward | Replaced

record ('x, 'y) pane_entry =
  e_id :: ustring
  e_props :: "'x option"
  e_keepProps :: bool
  e_rest :: 'y

record ('x, 'y) pane_snapshot =
  entries :: "('x, 'y) pane_entry list"
  index :: int

datatype ('x, 'y) pane_change =
    Push "('x, 'y) pane_entry"
  | Replace "('x, 'y) pane_entry"
  | Go int "('x, 'y) pane_entry"
  | Reset "('x, 'y) pane_entry list" int

type_synonym ('x, 'y) history_target = "('x, 'y) pane_entry \<times> int"

datatype history_error =
    NoEntryAt int \<comment> \<open>thrown by the code\<close>
  | UndefinedEntry \<comment> \<open>a property of \<open>undefined\<close> is read\<close>
  | IndexOutOfRange \<comment> \<open>thrown by \<open>Array.prototype.with\<close>\<close>

text \<open>Array access and \<open>Array.prototype.with\<close>, which counts a negative index from the end.\<close>

definition js_at :: "'a list \<Rightarrow> int \<Rightarrow> 'a option" where
  "js_at xs i = (if 0 \<le> i \<and> i < int (length xs) then Some (xs ! nat i) else None)"

definition js_with :: "'a list \<Rightarrow> int \<Rightarrow> 'a \<Rightarrow> history_error + 'a list" where
  "js_with xs i v =
    (let k = (if i < 0 then int (length xs) + i else i)
     in if k < 0 \<or> int (length xs) \<le> k then Inl IndexOutOfRange else Inr (xs[nat k := v]))"

section \<open>Operations\<close>

definition currentEntry :: "('x, 'y) pane_snapshot \<Rightarrow> ('x, 'y) pane_entry option" where
  "currentEntry s = js_at (entries s) (index s)"

definition leaveEntry :: "('x, 'y) pane_entry \<Rightarrow> ('x, 'y) pane_entry" where
  "leaveEntry e = (if e_keepProps e \<or> e_props e = None then e else e\<lparr>e_props := None\<rparr>)"

definition afterLeave :: "('x, 'y) pane_snapshot \<Rightarrow> history_error + ('x, 'y) pane_entry list" where
  "afterLeave s = (case js_at (entries s) (index s) of
      None \<Rightarrow> Inl UndefinedEntry
    | Some e \<Rightarrow> js_with (entries s) (index s) (leaveEntry e))"

fun applyHistoryChange ::
  "('x, 'y) pane_snapshot \<Rightarrow> ('x, 'y) pane_change \<Rightarrow> history_error + ('x, 'y) pane_snapshot" where
  "applyHistoryChange s (Push entry) =
     (case afterLeave s of
        Inl e \<Rightarrow> Inl e
      | Inr es \<Rightarrow> Inr \<lparr>entries = take (nat (index s + 1)) es @ [entry], index = index s + 1\<rparr>)"
| "applyHistoryChange s (Replace entry) =
     (case js_with (entries s) (index s) entry of
        Inl e \<Rightarrow> Inl e
      | Inr es \<Rightarrow> Inr \<lparr>entries = es, index = index s\<rparr>)"
| "applyHistoryChange s (Go i entry) =
     (if i < 0 \<or> int (length (entries s)) \<le> i then Inl (NoEntryAt i)
      else case (if i = index s then Inr (entries s) else afterLeave s) of
        Inl e \<Rightarrow> Inl e
      | Inr base \<Rightarrow>
          (case js_with base i entry of
             Inl e \<Rightarrow> Inl e
           | Inr es \<Rightarrow> Inr \<lparr>entries = es, index = i\<rparr>))"
| "applyHistoryChange s (Reset es i) = Inr \<lparr>entries = es, index = i\<rparr>"

definition hasIndex :: "'a list \<Rightarrow> int \<Rightarrow> bool" where
  "hasIndex xs i \<longleftrightarrow> 0 \<le> i \<and> i < int (length xs)"

text \<open>The loop of \<open>findStep\<close>: \<open>remaining\<close> accepted entries are still to be passed.\<close>

function findStep_loop ::
  "(('x, 'y) pane_entry \<Rightarrow> bool) \<Rightarrow> ('x, 'y) pane_entry list \<Rightarrow> bool \<Rightarrow> int \<Rightarrow> nat \<Rightarrow>
   ('x, 'y) history_target option" where
  "findStep_loop visit es forward i remaining =
    (let next = (if forward then i + 1 else i - 1)
     in if \<not> hasIndex es i then None
        else if \<not> visit (es ! nat i) then findStep_loop visit es forward next remaining
        else if remaining - 1 = 0 then Some (es ! nat i, i)
        else findStep_loop visit es forward next (remaining - 1))"
  by pat_completeness auto
termination
  by (relation "measure (\<lambda>(_, es, forward, i, _). if forward then nat (int (length es) - i) else nat (i + 1))")
    (auto simp: hasIndex_def)

declare findStep_loop.simps [simp del]

definition findStep ::
  "('x, 'y) pane_snapshot \<Rightarrow> js_number \<Rightarrow> (('x, 'y) pane_entry \<Rightarrow> bool) \<Rightarrow>
   ('x, 'y) history_target option" where
  "findStep s delta visit =
    (case delta of
       NonIntegral \<Rightarrow> None
     | Integral d \<Rightarrow>
         if \<not> isSafeInteger (nat \<bar>d\<bar>) \<or> d = 0 then None
         else findStep_loop visit (entries s) (\<not> d < 0)
                (if d < 0 then index s - 1 else index s + 1) (nat \<bar>d\<bar>))"

text \<open>
  The loop of \<open>findBack\<close>.  The predicates read fields of the entry, so a cursor past the end,
  which no well-formed history has, raises.
\<close>

function findBack_loop ::
  "(('x, 'y) pane_entry \<Rightarrow> bool) \<Rightarrow> (('x, 'y) pane_entry \<Rightarrow> bool) \<Rightarrow> ('x, 'y) pane_entry list \<Rightarrow> int \<Rightarrow>
   (history_error + ('x, 'y) history_target option)" where
  "findBack_loop p visit es i =
    (if i < 0 then Inr None
     else case js_at es i of
       None \<Rightarrow> Inl UndefinedEntry
     | Some e \<Rightarrow> if visit e \<and> p e then Inr (Some (e, i)) else findBack_loop p visit es (i - 1))"
  by pat_completeness auto
termination by (relation "measure (\<lambda>(_, _, _, i). nat (i + 1))") auto

declare findBack_loop.simps [simp del]

definition findBack ::
  "('x, 'y) pane_snapshot \<Rightarrow> (('x, 'y) pane_entry \<Rightarrow> bool) \<Rightarrow> (('x, 'y) pane_entry \<Rightarrow> bool) \<Rightarrow>
   (history_error + ('x, 'y) history_target option)" where
  "findBack s p visit = findBack_loop p visit (entries s) (index s - 1)"

definition findEntry ::
  "('x, 'y) pane_snapshot \<Rightarrow> ustring \<Rightarrow> ('x, 'y) history_target option" where
  "findEntry s entryId =
    (case find_index (\<lambda>e. e_id e = entryId) (entries s) of
       None \<Rightarrow> None
     | Some i \<Rightarrow> Some (entries s ! i, int i))"

text \<open>The callback of \<open>removeEntries\<close>: the survivors so far and the cursor so far.\<close>

fun removeEntries_loop ::
  "(('x, 'y) pane_entry \<Rightarrow> bool) \<Rightarrow> int \<Rightarrow> nat \<Rightarrow> ('x, 'y) pane_entry list \<Rightarrow>
   ('x, 'y) pane_entry list \<times> int \<Rightarrow> ('x, 'y) pane_entry list \<times> int" where
  "removeEntries_loop p cursor position [] acc = acc"
| "removeEntries_loop p cursor position (e # es) (kept, i) =
     removeEntries_loop p cursor (position + 1) es
       (if \<not> p e then (kept @ [e], i)
        else (kept, if int position < cursor then i - 1 else i))"

definition removeEntries ::
  "('x, 'y) pane_snapshot \<Rightarrow> (('x, 'y) pane_entry \<Rightarrow> bool) \<Rightarrow> ('x, 'y) pane_snapshot option" where
  "removeEntries s p =
    (let (kept, i) = removeEntries_loop p (index s) 0 (entries s) ([], index s)
     in if length kept = 0 then None
        else Some \<lparr>entries = kept, index = min (max i 0) (int (length kept) - 1)\<rparr>)"

section \<open>Well-formed histories\<close>

definition snapshot_wf :: "('x, 'y) pane_snapshot \<Rightarrow> bool" where
  "snapshot_wf s \<longleftrightarrow> hasIndex (entries s) (index s)"

text \<open>What a change needs: the entry it lands on exists.\<close>

fun change_ok :: "('x, 'y) pane_snapshot \<Rightarrow> ('x, 'y) pane_change \<Rightarrow> bool" where
  "change_ok s (Push e) \<longleftrightarrow> True"
| "change_ok s (Replace e) \<longleftrightarrow> True"
| "change_ok s (Go i e) \<longleftrightarrow> hasIndex (entries s) i"
| "change_ok s (Reset es i) \<longleftrightarrow> hasIndex es i"

fun change_lands_on :: "('x, 'y) pane_change \<Rightarrow> ('x, 'y) pane_entry" where
  "change_lands_on (Push e) = e"
| "change_lands_on (Replace e) = e"
| "change_lands_on (Go i e) = e"
| "change_lands_on (Reset es i) = es ! nat i"

text \<open>Only the entry on screen may still hold props that are meant for one visit.\<close>

definition spent :: "('x, 'y) pane_entry \<Rightarrow> bool" where
  "spent e \<longleftrightarrow> e_keepProps e \<or> e_props e = None"

definition one_shot_inv :: "('x, 'y) pane_snapshot \<Rightarrow> bool" where
  "one_shot_inv s \<longleftrightarrow> (\<forall>i < length (entries s). int i \<noteq> index s \<longrightarrow> spent (entries s ! i))"

lemma js_at_Some [simp]: "hasIndex xs i \<Longrightarrow> js_at xs i = Some (xs ! nat i)"
  by (simp add: js_at_def hasIndex_def)

lemma js_with_Inr [simp]: "hasIndex xs i \<Longrightarrow> js_with xs i v = Inr (xs[nat i := v])"
  by (simp add: js_with_def hasIndex_def)

lemma hasIndex_update [simp]: "hasIndex (xs[k := v]) i = hasIndex xs i"
  by (simp add: hasIndex_def)

lemma spent_leaveEntry [simp]: "spent (leaveEntry e)"
  by (simp add: spent_def leaveEntry_def)

lemma e_id_leaveEntry [simp]: "e_id (leaveEntry e) = e_id e"
  by (simp add: leaveEntry_def)

lemma afterLeave_wf [simp]:
  "snapshot_wf s \<Longrightarrow> afterLeave s = Inr ((entries s)[nat (index s) := leaveEntry (entries s ! nat (index s))])"
  by (simp add: afterLeave_def snapshot_wf_def)

lemma currentEntry_wf: "snapshot_wf s \<Longrightarrow> currentEntry s = Some (entries s ! nat (index s))"
  by (simp add: currentEntry_def snapshot_wf_def)

text \<open>What each change does to a well-formed history.\<close>

lemma apply_push:
  assumes "snapshot_wf s"
  shows "applyHistoryChange s (Push e) = Inr \<lparr>entries = take (nat (index s)) (entries s) @
    [leaveEntry (entries s ! nat (index s)), e], index = index s + 1\<rparr>"
proof -
  have "0 \<le> index s" and "nat (index s) < length (entries s)"
    using assms by (auto simp: snapshot_wf_def hasIndex_def)
  then have "nat (index s + 1) = Suc (nat (index s))" and
    "take (Suc (nat (index s))) ((entries s)[nat (index s) := x]) = take (nat (index s)) (entries s) @ [x]" for x
    by (simp_all add: take_Suc_conv_app_nth)
  then show ?thesis using assms by simp
qed

lemma apply_replace:
  "snapshot_wf s \<Longrightarrow> applyHistoryChange s (Replace e) =
     Inr \<lparr>entries = (entries s)[nat (index s) := e], index = index s\<rparr>"
  by (simp add: snapshot_wf_def)

lemma apply_go:
  assumes "snapshot_wf s" and "hasIndex (entries s) i"
  shows "applyHistoryChange s (Go i e) =
    Inr \<lparr>entries = (entries s)[nat (index s) := leaveEntry (entries s ! nat (index s)), nat i := e],
         index = i\<rparr>"
proof -
  have "\<not> (i < 0 \<or> int (length (entries s)) \<le> i)" using assms(2) by (auto simp: hasIndex_def)
  then show ?thesis using assms by (cases "i = index s") simp_all
qed

lemma change_error_cases:
  assumes "snapshot_wf s"
  shows "(\<exists>s'. applyHistoryChange s c = Inr s') \<or> (\<exists>i e. c = Go i e \<and> \<not> hasIndex (entries s) i)"
  using assms by (cases c) (auto simp: apply_push apply_go apply_replace simp del: applyHistoryChange.simps(1-3))

lemma change_ok_lands:
  assumes "snapshot_wf s" and "change_ok s c"
  shows "\<exists>s'. applyHistoryChange s c = Inr s' \<and> snapshot_wf s' \<and> currentEntry s' = Some (change_lands_on c)"
proof -
  have r: "0 \<le> index s" "nat (index s) < length (entries s)"
    using assms(1) by (auto simp: snapshot_wf_def hasIndex_def)
  show ?thesis
  proof (cases c)
    case (Push e)
    have "hasIndex (take (nat (index s)) (entries s) @ [x, e]) (index s + 1)" for x
      using r by (simp add: hasIndex_def)
    then show ?thesis using assms r
      by (simp add: Push apply_push snapshot_wf_def currentEntry_def nth_append nat_add_distrib
          del: applyHistoryChange.simps)
  next
    case (Go i e)
    then show ?thesis using assms r
      by (auto simp: apply_go snapshot_wf_def currentEntry_def hasIndex_def js_at_def
          simp del: applyHistoryChange.simps)
  qed (use assms r in \<open>simp_all add: snapshot_wf_def currentEntry_def hasIndex_def js_at_def js_with_def\<close>)
qed

text \<open>
  On a well-formed history a change whose target exists succeeds, leaves a
  well-formed history and puts its entry on screen; going to an entry that does not exist
  is refused with the error that names it.
\<close>

theorem history_change_lands:
  assumes "snapshot_wf s"
  shows "(change_ok s c \<longrightarrow> (\<exists>s'. applyHistoryChange s c = Inr s' \<and> snapshot_wf s' \<and>
            currentEntry s' = Some (change_lands_on c))) \<and>
         (\<not> hasIndex (entries s) i \<longrightarrow> applyHistoryChange s (Go i e) = Inl (NoEntryAt i))"
  using change_ok_lands[OF assms] by (simp add: hasIndex_def del: applyHistoryChange.simps(1,2,4))

definition sample_entry :: "ustring \<Rightarrow> nat option \<Rightarrow> (nat, unit) pane_entry" where
  "sample_entry i p = \<lparr>e_id = i, e_props = p, e_keepProps = False, e_rest = ()\<rparr>"

definition sample_history :: "(nat, unit) pane_snapshot" where
  "sample_history = \<lparr>entries = [sample_entry [97] None, sample_entry [98] (Some 3), sample_entry [99] None],
     index = 1\<rparr>"

lemma sample_wf: "snapshot_wf sample_history"
  by (simp add: snapshot_wf_def hasIndex_def sample_history_def)

theorem history_change_lands_witness:
  "(\<exists>s'. applyHistoryChange sample_history (Push (sample_entry [100] (Some 4))) = Inr s' \<and> snapshot_wf s' \<and>
      currentEntry s' = Some (sample_entry [100] (Some 4))) \<and>
   applyHistoryChange sample_history (Go 3 (sample_entry [100] None)) = Inl (NoEntryAt 3)"
  using history_change_lands[OF sample_wf, of "Push (sample_entry [100] (Some 4))" 3 "sample_entry [100] None"]
  by (simp add: hasIndex_def sample_history_def del: applyHistoryChange.simps)

text \<open>
  Props that are not marked to be kept are handed over once: if only the entry on
  screen holds such props, the same is true after any successful push, replacement or
  move, so coming back to an entry never hands its props over again.
\<close>

theorem one_shot_props:
  assumes "snapshot_wf s" and "one_shot_inv s" and "\<forall>es i. c \<noteq> Reset es i"
    and "applyHistoryChange s c = Inr s'"
  shows "one_shot_inv s'"
proof (cases c)
  case (Push e)
  have r: "0 \<le> index s" "nat (index s) < length (entries s)"
    using assms(1) by (auto simp: snapshot_wf_def hasIndex_def)
  have "s' = \<lparr>entries = take (nat (index s)) (entries s) @ [leaveEntry (entries s ! nat (index s)), e],
      index = index s + 1\<rparr>"
    using assms(1,4) by (simp add: Push apply_push del: applyHistoryChange.simps)
  moreover have "spent ((take (nat (index s)) (entries s) @ [leaveEntry x, e]) ! i)"
    if "i < nat (index s) + 2" "int i \<noteq> index s + 1" for i x
  proof (cases "i < nat (index s)")
    case True
    then show ?thesis using assms(2) r by (simp add: one_shot_inv_def nth_append)
  next
    case False
    then have "i = nat (index s)" using that r by linarith
    then show ?thesis using r by (simp add: nth_append)
  qed
  ultimately show ?thesis using r by (simp add: one_shot_inv_def)
next
  case (Go i e)
  have h: "hasIndex (entries s) i"
    using Go assms(4) by (auto simp: hasIndex_def split: if_splits)
  then have "s' = \<lparr>entries = (entries s)[nat (index s) := leaveEntry (entries s ! nat (index s)), nat i := e],
      index = i\<rparr>"
    using assms(1,4) by (simp add: Go apply_go del: applyHistoryChange.simps)
  then show ?thesis
    using assms(1,2) h by (auto simp: one_shot_inv_def nth_list_update snapshot_wf_def hasIndex_def)
next
  case (Replace e)
  then have "s' = \<lparr>entries = (entries s)[nat (index s) := e], index = index s\<rparr>"
    using assms(1,4) by (simp add: apply_replace del: applyHistoryChange.simps)
  then show ?thesis using assms(1,2) by (auto simp: one_shot_inv_def nth_list_update snapshot_wf_def hasIndex_def)
qed (use assms(3) in auto)

theorem one_shot_props_witness:
  "one_shot_inv \<lparr>entries = [sample_entry [97] None, sample_entry [98] None, sample_entry [99] (Some 9)],
     index = 2\<rparr>"
proof -
  have i: "one_shot_inv sample_history"
    by (auto simp: one_shot_inv_def sample_history_def spent_def sample_entry_def less_Suc_eq nth_Cons'
        split: if_splits)
  have "applyHistoryChange sample_history (Go 2 (sample_entry [99] (Some 9))) =
      Inr \<lparr>entries = [sample_entry [97] None, sample_entry [98] None, sample_entry [99] (Some 9)], index = 2\<rparr>"
    by (simp add: sample_history_def sample_entry_def leaveEntry_def afterLeave_def js_at_def js_with_def
        nat_numeral)
  from one_shot_props[OF sample_wf i _ this] show ?thesis by simp
qed

section \<open>Searching\<close>

text \<open>The positions an accepted entry has on one side of the cursor, nearest first.\<close>

definition steps :: "('x, 'y) pane_snapshot \<Rightarrow> bool \<Rightarrow> (('x, 'y) pane_entry \<Rightarrow> bool) \<Rightarrow> nat list" where
  "steps s forward visit = filter (\<lambda>i. visit (entries s ! i))
     (if forward then [nat (index s) + 1..<length (entries s)] else rev [0..<nat (index s)])"

text \<open>One round of the loop, and the loop along either side of the cursor.\<close>

definition pick :: "('x, 'y) pane_entry list \<Rightarrow> nat list \<Rightarrow> nat \<Rightarrow> ('x, 'y) history_target option" where
  "pick es ps n = (if n < length ps then Some (es ! (ps ! n), int (ps ! n)) else None)"

lemma findStep_round:
  assumes "i < length es" and "0 < n"
    and "\<And>m. 0 < m \<Longrightarrow> findStep_loop visit es forward (if forward then int i + 1 else int i - 1) m = pick es ps (m - 1)"
  shows "findStep_loop visit es forward (int i) n = pick es (if visit (es ! i) then i # ps else ps) (n - 1)"
proof -
  have "hasIndex es (int i)" using assms(1) by (simp add: hasIndex_def)
  moreover obtain m where n: "n = Suc m" using assms(2) by (cases n) auto
  ultimately show ?thesis
    using assms(3)[of n] assms(3)[of m]
    by (subst findStep_loop.simps) (cases m; cases forward; simp add: pick_def)
qed

lemma findStep_forward:
  "0 < n \<Longrightarrow> findStep_loop visit es True (int i) n = pick es (filter (\<lambda>k. visit (es ! k)) [i..<length es]) (n - 1)"
proof (induction "length es - i" arbitrary: i n)
  case 0
  then show ?case by (subst findStep_loop.simps) (simp add: hasIndex_def pick_def)
next
  case (Suc d)
  then have lt: "i < length es" by simp
  have "findStep_loop visit es True (if True then int i + 1 else int i - 1) m =
      pick es (filter (\<lambda>k. visit (es ! k)) [Suc i..<length es]) (m - 1)" if "0 < m" for m
    using Suc.hyps(1)[of "Suc i" m] Suc.hyps(2) that by (simp add: add.commute)
  from findStep_round[OF lt Suc.prems this] show ?case by (simp add: upt_conv_Cons[OF lt])
qed

lemma findStep_backward:
  "0 < n \<Longrightarrow> i \<le> length es \<Longrightarrow>
   findStep_loop visit es False (int i - 1) n = pick es (filter (\<lambda>k. visit (es ! k)) (rev [0..<i])) (n - 1)"
proof (induction i arbitrary: n)
  case 0
  then show ?case by (subst findStep_loop.simps) (simp add: hasIndex_def pick_def)
next
  case (Suc i)
  have "findStep_loop visit es False (if False then int i + 1 else int i - 1) m =
      pick es (filter (\<lambda>k. visit (es ! k)) (rev [0..<i])) (m - 1)" if "0 < m" for m
    using Suc.IH[of m] Suc.prems that by simp
  from findStep_round[OF _ Suc.prems(1) this] Suc.prems show ?case by simp
qed

text \<open>
  Stepping by \<open>d\<close> lands on the \<open>|d|\<close>-th entry that \<open>visit\<close> accepts on that side of
  the cursor, nearest first, and finds nothing exactly when there are fewer.
\<close>

theorem findStep_nth_accepted:
  assumes "snapshot_wf s" and "d \<noteq> 0" and "isSafeInteger (nat \<bar>d\<bar>)"
  shows "findStep s (Integral d) visit =
    (let ps = steps s (0 < d) visit; n = nat \<bar>d\<bar> - 1
     in if n < length ps then Some (entries s ! (ps ! n), int (ps ! n)) else None)"
proof -
  have r: "0 \<le> index s" "nat (index s) < length (entries s)"
    using assms(1) by (auto simp: snapshot_wf_def hasIndex_def)
  have n: "0 < nat \<bar>d\<bar>" using assms(2) by simp
  show ?thesis
  proof (cases "d < 0")
    case True
    then show ?thesis
      using findStep_backward[OF n, of "nat (index s)" "entries s" visit] r assms(3)
      by (simp add: findStep_def steps_def pick_def Let_def)
  next
    case False
    have "int (nat (index s) + 1) = index s + 1" using r by simp
    with findStep_forward[OF n, of visit "entries s" "nat (index s) + 1"]
    have "findStep_loop visit (entries s) True (index s + 1) (nat \<bar>d\<bar>) =
        pick (entries s) (steps s True visit) (nat \<bar>d\<bar> - 1)" by (simp only: steps_def if_True)
    then show ?thesis
      using assms(2,3) False by (simp add: findStep_def pick_def Let_def)
  qed
qed

theorem findStep_nth_accepted_witness:
  "findStep sample_history (Integral (-1)) (\<lambda>e. True) = Some (sample_entry [97] None, 0)"
  using findStep_nth_accepted[OF sample_wf, of "-1" "\<lambda>e. True"]
  by (simp add: isSafeInteger_def max_safe_integer_def steps_def Let_def sample_history_def)

text \<open>
  Pushing an entry and stepping back finds the entry that was left, under its old
  position and without its one-shot props; going there and stepping forward again finds the
  pushed one.
\<close>

theorem push_back_forward:
  assumes "snapshot_wf s" and "currentEntry s = Some old"
  shows "\<exists>s1 s2. applyHistoryChange s (Push e) = Inr s1 \<and>
    findStep s1 (Integral (-1)) (\<lambda>_. True) = Some (leaveEntry old, index s) \<and>
    applyHistoryChange s1 (Go (index s) (leaveEntry old)) = Inr s2 \<and>
    currentEntry s2 = Some (leaveEntry old) \<and>
    findStep s2 (Integral 1) (\<lambda>_. True) = Some (leaveEntry e, index s + 1)"
proof -
  have r: "0 \<le> index s" "nat (index s) < length (entries s)"
    using assms(1) by (auto simp: snapshot_wf_def hasIndex_def)
  have old: "entries s ! nat (index s) = old"
    using assms by (simp add: currentEntry_wf)
  let ?es = "take (nat (index s)) (entries s)"
  have len: "length ?es = nat (index s)" using r by simp
  have nx: "nat (index s + 1) = Suc (nat (index s))" using r by simp
  let ?s1 = "\<lparr>entries = ?es @ [leaveEntry old, e], index = index s + 1\<rparr>"
  let ?s2 = "\<lparr>entries = ?es @ [leaveEntry old, leaveEntry e], index = index s\<rparr>"
  have w1: "snapshot_wf ?s1" and w2: "snapshot_wf ?s2" and h: "hasIndex (entries ?s1) (index s)"
    using r len by (auto simp: snapshot_wf_def hasIndex_def)
  have "applyHistoryChange s (Push e) = Inr ?s1" by (simp only: apply_push[OF assms(1)] old)
  moreover have "findStep ?s1 (Integral (-1)) (\<lambda>_. True) = Some (leaveEntry old, index s)"
    using findStep_nth_accepted[OF w1, of "-1" "\<lambda>_. True"] r len nx
    by (simp add: isSafeInteger_def max_safe_integer_def steps_def Let_def nth_append)
  moreover have "applyHistoryChange ?s1 (Go (index s) (leaveEntry old)) = Inr ?s2"
    using apply_go[OF w1 h] len nx by (simp add: nth_append list_update_append del: applyHistoryChange.simps)
  moreover have "currentEntry ?s2 = Some (leaveEntry old)"
    using w2 r len by (simp add: currentEntry_wf nth_append)
  moreover have "findStep ?s2 (Integral 1) (\<lambda>_. True) = Some (leaveEntry e, index s + 1)"
    using findStep_nth_accepted[OF w2, of 1 "\<lambda>_. True"] r len nx
    by (simp add: isSafeInteger_def max_safe_integer_def steps_def Let_def nth_append)
  ultimately show ?thesis by blast
qed

theorem push_back_forward_witness:
  "\<exists>s1 s2. applyHistoryChange sample_history (Push (sample_entry [100] None)) = Inr s1 \<and>
    findStep s1 (Integral (-1)) (\<lambda>_. True) = Some (sample_entry [98] None, 1) \<and>
    applyHistoryChange s1 (Go 1 (sample_entry [98] None)) = Inr s2"
proof -
  have "currentEntry sample_history = Some (sample_entry [98] (Some 3))"
    by (simp add: currentEntry_wf[OF sample_wf]) (simp add: sample_history_def)
  from push_back_forward[OF sample_wf this, of "sample_entry [100] None"]
  have "\<exists>s1 s2. applyHistoryChange sample_history (Push (sample_entry [100] None)) = Inr s1 \<and>
      findStep s1 (Integral (-1)) (\<lambda>_. True) = Some (leaveEntry (sample_entry [98] (Some 3)), index sample_history) \<and>
      applyHistoryChange s1 (Go (index sample_history) (leaveEntry (sample_entry [98] (Some 3)))) = Inr s2"
    by blast
  moreover have "leaveEntry (sample_entry [98] (Some 3)) = sample_entry [98] None" "index sample_history = 1"
    by (simp_all add: leaveEntry_def sample_entry_def sample_history_def)
  ultimately show ?thesis by simp
qed

lemma findBack_loop_filter:
  "i \<le> length es \<Longrightarrow> findBack_loop p visit es (int i - 1) =
     Inr (case filter (\<lambda>k. visit (es ! k) \<and> p (es ! k)) (rev [0..<i]) of
            [] \<Rightarrow> None | k # _ \<Rightarrow> Some (es ! k, int k))"
proof (induction i)
  case 0
  then show ?case by (subst findBack_loop.simps) simp
next
  case (Suc i)
  then have "hasIndex es (int i)" by (simp add: hasIndex_def)
  then show ?case using Suc by (subst findBack_loop.simps) simp
qed

text \<open>
  Going back to an entry that matches never fails on a well-formed history: it finds
  the nearest earlier entry that is both acceptable and a match, or nothing when there is
  none.
\<close>

theorem findBack_nearest:
  assumes "snapshot_wf s"
  shows "\<exists>r. findBack s p visit = Inr r \<and>
    (case r of
       None \<Rightarrow> \<forall>k < nat (index s). \<not> (visit (entries s ! k) \<and> p (entries s ! k))
     | Some (e, i) \<Rightarrow> 0 \<le> i \<and> i < index s \<and> e = entries s ! nat i \<and> visit e \<and> p e \<and>
         (\<forall>k. nat i < k \<and> k < nat (index s) \<longrightarrow> \<not> (visit (entries s ! k) \<and> p (entries s ! k))))"
proof -
  let ?P = "\<lambda>k. visit (entries s ! k) \<and> p (entries s ! k)"
  have r: "0 \<le> index s" "nat (index s) < length (entries s)"
    using assms by (auto simp: snapshot_wf_def hasIndex_def)
  then have eq: "findBack s p visit = Inr (case filter ?P (rev [0..<nat (index s)]) of
      [] \<Rightarrow> None | k # _ \<Rightarrow> Some (entries s ! k, int k))"
    using findBack_loop_filter[of "nat (index s)" "entries s" p visit] by (simp add: findBack_def)
  show ?thesis
  proof (cases "filter ?P (rev [0..<nat (index s)])")
    case Nil
    then have "\<forall>k < nat (index s). \<not> ?P k" by (auto simp: filter_empty_conv)
    then show ?thesis using eq Nil by auto
  next
    case (Cons k ks)
    then obtain us vs where split: "rev [0..<nat (index s)] = us @ k # vs" "\<forall>u \<in> set us. \<not> ?P u" "?P k"
      by (auto simp: filter_eq_Cons_iff)
    from split(1) have up: "[0..<nat (index s)] = rev vs @ k # rev us" by (simp add: rev_swap)
    have "length [0..<nat (index s)] = Suc (length vs + length us)" unfolding up by simp
    then have lt: "length vs < nat (index s)" by simp
    have "k = length vs" using arg_cong[OF up, of "\<lambda>xs. xs ! length vs"] lt by (simp add: nth_append)
    moreover have "rev us = [Suc (length vs)..<nat (index s)]"
      using arg_cong[OF up, of "drop (Suc (length vs))"] by (simp add: drop_upt)
    ultimately have k: "k < nat (index s)" "set us = {Suc k..<nat (index s)}"
      using lt set_rev[of us] by simp_all
    then have "\<not> ?P j" if "k < j" "j < nat (index s)" for j using split(2) that by auto
    then show ?thesis using eq Cons k split(3) r by auto
  qed
qed

theorem findBack_nearest_witness:
  "\<exists>r. findBack sample_history (\<lambda>e. True) (\<lambda>e. e_id e = [122]) = Inr r \<and> r = None"
proof -
  obtain r where "findBack sample_history (\<lambda>e. True) (\<lambda>e. e_id e = [122]) = Inr r"
    and "case r of None \<Rightarrow> True | Some (e, i) \<Rightarrow> 0 \<le> i \<and> i < 1 \<and> e = entries sample_history ! nat i \<and> e_id e = [122]"
    using findBack_nearest[OF sample_wf, of "\<lambda>e. True" "\<lambda>e. e_id e = [122]"]
    by (auto simp: sample_history_def split: option.splits)
  moreover from this(2) have "r = None"
    by (cases r) (auto simp: sample_history_def sample_entry_def)
  ultimately show ?thesis by blast
qed

section \<open>Removing entries\<close>

lemma removeEntries_loop_eq:
  "removeEntries_loop p cursor position es (kept, i) =
     (kept @ filter (\<lambda>e. \<not> p e) es,
      i - int (length (filter p (take (nat (cursor - int position)) es))))"
proof (induction es arbitrary: position kept i)
  case (Cons e es)
  show ?case
  proof (cases "int position < cursor")
    case True
    then have "nat (cursor - int position) = Suc (nat (cursor - int (position + 1)))" by simp
    with True show ?thesis by (simp add: Cons.IH del: of_nat_Suc)
  next
    case False
    then show ?thesis by (simp add: Cons.IH)
  qed
qed simp

lemma filter_split: "length (filter p xs) + length (filter (\<lambda>x. \<not> p x) xs) = length xs"
  by (rule sum_length_filter_compl)

text \<open>
  Removing entries keeps the survivors in order and the history well-formed; it
  gives nothing exactly when all are removed.  The cursor lands behind the survivors that
  were before it, at the end if there are no more, so an entry on screen that survives
  stays on screen.
\<close>

theorem removeEntries_cursor:
  assumes "snapshot_wf s"
  shows "case removeEntries s p of
      None \<Rightarrow> \<forall>e \<in> set (entries s). p e
    | Some s' \<Rightarrow> snapshot_wf s' \<and> entries s' = filter (\<lambda>e. \<not> p e) (entries s) \<and>
        index s' = min (int (length (filter (\<lambda>e. \<not> p e) (take (nat (index s)) (entries s)))))
                       (int (length (entries s')) - 1) \<and>
        (\<forall>e. currentEntry s = Some e \<and> \<not> p e \<longrightarrow> currentEntry s' = Some e)"
proof -
  let ?q = "\<lambda>e. \<not> p e" and ?n = "nat (index s)"
  let ?b = "filter ?q (take ?n (entries s))"
  have r: "0 \<le> index s" "?n < length (entries s)"
    using assms by (auto simp: snapshot_wf_def hasIndex_def)
  then have "index s - int (length (filter p (take ?n (entries s)))) = int (length ?b)"
    using filter_split[of p "take ?n (entries s)"] by simp
  then have eq: "removeEntries s p =
      (if filter ?q (entries s) = [] then None
       else Some \<lparr>entries = filter ?q (entries s),
                  index = min (int (length ?b)) (int (length (filter ?q (entries s))) - 1)\<rparr>)"
    by (simp add: removeEntries_def removeEntries_loop_eq Let_def)
  have "(filter ?q (entries s)) ! length ?b = entries s ! ?n \<and> length ?b < length (filter ?q (entries s))"
    if "\<not> p (entries s ! ?n)"
  proof -
    have "filter ?q (entries s) = ?b @ filter ?q (drop ?n (entries s))"
      by (simp flip: filter_append)
    moreover have "filter ?q (drop ?n (entries s)) = entries s ! ?n # filter ?q (drop (Suc ?n) (entries s))"
      using r that by (simp flip: Cons_nth_drop_Suc)
    ultimately show ?thesis by simp
  qed
  then show ?thesis
    using assms r
    by (auto simp: eq snapshot_wf_def hasIndex_def currentEntry_def js_at_def filter_empty_conv min_def
        nat_diff_distrib length_greater_0_conv[symmetric] simp del: length_greater_0_conv)
qed

theorem removeEntries_cursor_witness:
  "\<exists>s'. removeEntries sample_history (\<lambda>e. e_id e = [97]) = Some s' \<and>
     currentEntry s' = Some (sample_entry [98] (Some 3))"
proof -
  have "currentEntry sample_history = Some (sample_entry [98] (Some 3))"
    by (simp add: currentEntry_wf[OF sample_wf]) (simp add: sample_history_def)
  then show ?thesis
    using removeEntries_cursor[OF sample_wf, of "\<lambda>e. e_id e = [97]"]
    by (cases "removeEntries sample_history (\<lambda>e. e_id e = [97])")
      (auto simp: sample_entry_def sample_history_def)
qed

end
