(* ===== verification/Pane_Diff.thy ===== *)
theory Pane_Diff
  imports Pane_History
begin

text \<open>
  How the panes decoded from a URL line up with the open ones:
  \<open>apps/web/src/lib/split-router/panes/diff.ts\<close>.  The local functions of \<open>diffPanes\<close> are
  definitions that take what they close over; \<open>used\<close> is threaded through the loop.
  \<open>createPaneId\<close> is a supply of ids: its \<open>n\<close>-th call returns \<open>gen n\<close>.  An empty pane id is
  treated as no id wherever the code tests an id for truth.
\<close>

section \<open>Data\<close>

record ('x, 'y) incoming_pane =
  in_paneId :: "pane_id option"
  in_entry :: "('x, 'y) pane_entry"

datatype ('x, 'y) pane_diff =
    Keep (diff_pane: pane_id)
  | Change (diff_pane: pane_id) "('x, 'y) pane_entry option" "('x, 'y) pane_entry" "int option"
      \<comment> \<open>pane, from, to, index\<close>
  | Create (diff_pane: pane_id) "('x, 'y) pane_entry"

record ('x, 'y) panes_diff =
  diff_panes :: "('x, 'y) pane_diff list"
  diff_removed :: "pane_id list"

record ('x, 'y) live_panes =
  live_ids :: "pane_id list"
  live_read :: "pane_id \<Rightarrow> ('x, 'y) pane_snapshot option"

record ('x, 'y) diff_options =
  same_opt :: "('x, 'y) pane_entry option \<Rightarrow> ('x, 'y) pane_entry \<Rightarrow> bool"
  adopt_opt :: "(('x, 'y) pane_entry \<Rightarrow> ('x, 'y) pane_entry \<Rightarrow> ('x, 'y) pane_entry) option"

fun truthy :: "ustring option \<Rightarrow> bool" where
  "truthy None = False"
| "truthy (Some s) = (s \<noteq> [])"

section \<open>Matching\<close>

definition isLive :: "('x, 'y) live_panes \<Rightarrow> pane_id \<Rightarrow> bool" where
  "isLive live pane \<longleftrightarrow> pane \<in> set (live_ids live)"

definition showsSame ::
  "('x, 'y) live_panes \<Rightarrow> ('x, 'y) diff_options \<Rightarrow> pane_id \<Rightarrow> ('x, 'y) pane_entry \<Rightarrow> bool" where
  "showsSame live opts pane entry =
    (case live_read live pane of
       None \<Rightarrow> False
     | Some snapshot \<Rightarrow> same_opt opts (currentEntry snapshot) entry)"

text \<open>Whether the incoming id is given and open.\<close>

definition hasLiveId :: "('x, 'y) live_panes \<Rightarrow> pane_id option \<Rightarrow> bool" where
  "hasLiveId live paneId \<longleftrightarrow> truthy paneId \<and> isLive live (the paneId)"

definition showing ::
  "('x, 'y) live_panes \<Rightarrow> ('x, 'y) diff_options \<Rightarrow> ('x, 'y) incoming_pane list \<Rightarrow> pane_id option list" where
  "showing live opts incoming =
    map (\<lambda>inc. if hasLiveId live (in_paneId inc) then None
               else List.find (\<lambda>pane. showsSame live opts pane (in_entry inc)) (live_ids live)) incoming"

definition reservedElsewhere :: "pane_id option list \<Rightarrow> pane_id \<Rightarrow> nat \<Rightarrow> bool" where
  "reservedElsewhere shown pane position \<longleftrightarrow>
    (\<exists>i \<in> set [0..<length shown]. shown ! i = Some pane \<and> i \<noteq> position)"

definition matchPane ::
  "('x, 'y) live_panes \<Rightarrow> ('x, 'y) diff_options \<Rightarrow> pane_id option list \<Rightarrow> pane_id list \<Rightarrow>
   ('x, 'y) incoming_pane \<Rightarrow> nat \<Rightarrow> pane_id option" where
  "matchPane live opts shown used inc position =
    (let paneId = in_paneId inc; showed = shown ! position
     in if hasLiveId live paneId \<and> the paneId \<notin> set used then paneId
        else if truthy showed \<and> the showed \<notin> set used then showed
        else if length (live_ids live) \<le> position then None
        else
         let positional = live_ids live ! position
         in if positional \<in> set used \<or> reservedElsewhere shown positional position then None
            else if \<not> truthy paneId then Some positional
            else if isLive live (the paneId) then None
            else if showsSame live opts positional (in_entry inc) then Some positional else None)"

definition idForNewPane ::
  "('x, 'y) live_panes \<Rightarrow> (nat \<Rightarrow> pane_id) \<Rightarrow> pane_id list \<Rightarrow> nat \<Rightarrow> pane_id option \<Rightarrow> pane_id \<times> nat" where
  "idForNewPane live gen used n paneId =
    (if truthy paneId \<and> \<not> isLive live (the paneId) \<and> the paneId \<notin> set used then (the paneId, n)
     else (gen n, n + 1))"

definition createPane ::
  "('x, 'y) live_panes \<Rightarrow> (nat \<Rightarrow> pane_id) \<Rightarrow> ('x, 'y) incoming_pane \<Rightarrow> pane_id list \<times> nat \<Rightarrow>
   ('x, 'y) pane_diff \<times> pane_id list \<times> nat" where
  "createPane live gen inc = (\<lambda>(used, n).
    let (pane, n1) = idForNewPane live gen used n (in_paneId inc)
    in (Create pane (in_entry inc), used @ [pane], n1))"

definition updatePane ::
  "('x, 'y) diff_options \<Rightarrow> pane_id \<Rightarrow> ('x, 'y) pane_snapshot \<Rightarrow> ('x, 'y) pane_entry \<Rightarrow>
   pane_id list \<times> nat \<Rightarrow> ('x, 'y) pane_diff \<times> pane_id list \<times> nat" where
  "updatePane opts pane snapshot entry = (\<lambda>(used, n).
    let current = currentEntry snapshot;
        stored = findEntry snapshot (e_id entry);
        movesCursor = (case stored of None \<Rightarrow> False | Some (_, i) \<Rightarrow> i \<noteq> index snapshot);
        d = (if \<not> movesCursor \<and> same_opt opts current entry then Keep pane
             else case stored of
               None \<Rightarrow> Change pane current entry None
             | Some (found, i) \<Rightarrow>
                 Change pane current
                   (case adopt_opt opts of None \<Rightarrow> entry | Some adopt \<Rightarrow> adopt found entry) (Some i))
    in (d, used @ [pane], n))"

definition diffPane ::
  "('x, 'y) live_panes \<Rightarrow> ('x, 'y) diff_options \<Rightarrow> (nat \<Rightarrow> pane_id) \<Rightarrow> pane_id option list \<Rightarrow>
   ('x, 'y) incoming_pane \<Rightarrow> nat \<Rightarrow> pane_id list \<times> nat \<Rightarrow> ('x, 'y) pane_diff \<times> pane_id list \<times> nat" where
  "diffPane live opts gen shown inc position st =
    (let matched = matchPane live opts shown (fst st) inc position
     in if \<not> truthy matched then createPane live gen inc st
        else case live_read live (the matched) of
          None \<Rightarrow> createPane live gen inc st
        | Some snapshot \<Rightarrow> updatePane opts (the matched) snapshot (in_entry inc) st)"

fun diffPane_all ::
  "('x, 'y) live_panes \<Rightarrow> ('x, 'y) diff_options \<Rightarrow> (nat \<Rightarrow> pane_id) \<Rightarrow> pane_id option list \<Rightarrow>
   ('x, 'y) incoming_pane list \<Rightarrow> nat \<Rightarrow> pane_id list \<times> nat \<Rightarrow>
   ('x, 'y) pane_diff list \<times> pane_id list \<times> nat" where
  "diffPane_all live opts gen shown [] position st = ([], st)"
| "diffPane_all live opts gen shown (inc # incs) position st =
     (let (d, st1) = diffPane live opts gen shown inc position st;
          (ds, st2) = diffPane_all live opts gen shown incs (position + 1) st1
      in (d # ds, st2))"

definition diffPanes ::
  "('x, 'y) live_panes \<Rightarrow> ('x, 'y) incoming_pane list \<Rightarrow> ('x, 'y) diff_options \<Rightarrow> (nat \<Rightarrow> pane_id) \<Rightarrow> nat \<Rightarrow>
   ('x, 'y) panes_diff \<times> nat" where
  "diffPanes live incoming opts gen n =
    (let (ds, used, n1) = diffPane_all live opts gen (showing live opts incoming) incoming 0 ([], n)
     in (\<lparr>diff_panes = ds, diff_removed = filter (\<lambda>p. p \<notin> set used) (live_ids live)\<rparr>, n1))"

definition changedPanes :: "('x, 'y) panes_diff \<Rightarrow> ('x, 'y) pane_diff list" where
  "changedPanes d = filter (\<lambda>p. \<not> is_Keep p) (diff_panes d)"

section \<open>Every incoming pane gets its own pane\<close>

text \<open>
  What one matched pane may be: kept only if it shows the entry, changed only if it is open,
  created only under an id that is not open.
\<close>

fun diff_fits ::
  "('x, 'y) live_panes \<Rightarrow> ('x, 'y) diff_options \<Rightarrow> ('x, 'y) incoming_pane \<Rightarrow> ('x, 'y) pane_diff \<Rightarrow> bool" where
  "diff_fits live opts inc (Keep p) \<longleftrightarrow> isLive live p \<and> showsSame live opts p (in_entry inc)"
| "diff_fits live opts inc (Change p old e i) \<longleftrightarrow> isLive live p \<and>
     (\<exists>s. live_read live p = Some s \<and> old = currentEntry s \<and>
       (case i of None \<Rightarrow> e = in_entry inc | Some k \<Rightarrow> hasIndex (entries s) k))"
| "diff_fits live opts inc (Create p e) \<longleftrightarrow> \<not> isLive live p \<and> e = in_entry inc"

lemma findEntry_hasIndex: "findEntry s i = Some (e, k) \<Longrightarrow> hasIndex (entries s) k \<and> e_id e = i \<and> e = entries s ! nat k"
  by (auto simp: findEntry_def hasIndex_def dest: find_index_Some split: option.splits)

lemma showing_live:
  "i < length incoming \<Longrightarrow> showing live opts incoming ! i = Some p \<Longrightarrow> isLive live p"
  by (auto simp: showing_def isLive_def find_Some_iff split: if_splits)

lemma matchPane_free:
  assumes "matchPane live opts (showing live opts incoming) used inc position = Some p"
    and "position < length incoming"
  shows "isLive live p \<and> p \<notin> set used"
  using assms
  by (cases "in_paneId inc"; cases "showing live opts incoming ! position")
    (auto simp: matchPane_def Let_def hasLiveId_def isLive_def split: if_splits
      dest: showing_live[unfolded isLive_def] nth_mem)

text \<open>From its \<open>n\<close>-th call on the supply returns new ids: never one of \<open>taken\<close>, never one twice.\<close>

definition fresh_supply :: "(nat \<Rightarrow> pane_id) \<Rightarrow> nat \<Rightarrow> pane_id set \<Rightarrow> bool" where
  "fresh_supply gen n taken \<longleftrightarrow> inj gen \<and> gen ` {n..} \<inter> taken = {}"

text \<open>
  The ids a diff may come across before it creates any, and the state of the loop: distinct
  ids, each open, incoming or drawn from the supply already.
\<close>

definition known_ids :: "('x, 'y) live_panes \<Rightarrow> ('x, 'y) incoming_pane list \<Rightarrow> pane_id set" where
  "known_ids live incoming = set (live_ids live) \<union> {p. \<exists>inc \<in> set incoming. in_paneId inc = Some p}"

definition used_ok :: "pane_id set \<Rightarrow> (nat \<Rightarrow> pane_id) \<Rightarrow> nat \<Rightarrow> pane_id list \<Rightarrow> nat \<Rightarrow> bool" where
  "used_ok known gen n0 used n \<longleftrightarrow> n0 \<le> n \<and> distinct used \<and> set used \<subseteq> known \<union> gen ` {n0..<n}"

lemma createPane_ok:
  assumes "used_ok known gen n0 used n" and "fresh_supply gen n0 known"
    and "set (live_ids live) \<subseteq> known" and "\<And>p. in_paneId inc = Some p \<Longrightarrow> p \<in> known"
    and "createPane live gen inc (used, n) = (d, used', n')"
  shows "used_ok known gen n0 used' n' \<and> used' = used @ [diff_pane d] \<and> diff_fits live opts inc d"
proof (cases "truthy (in_paneId inc) \<and> \<not> isLive live (the (in_paneId inc)) \<and> the (in_paneId inc) \<notin> set used")
  case True
  then obtain p where "in_paneId inc = Some p" by (cases "in_paneId inc") auto
  with True assms show ?thesis
    by (auto simp: createPane_def idForNewPane_def used_ok_def isLive_def)
next
  case False
  have "gen n \<notin> known" and "gen n \<notin> gen ` {n0..<n}"
    using assms(1,2) by (auto simp: fresh_supply_def used_ok_def inj_eq)
  then have "gen n \<notin> set used" and "gen n \<notin> set (live_ids live)"
    using assms(1,3) by (auto simp: used_ok_def)
  moreover have "d = Create (gen n) (in_entry inc)" "used' = used @ [gen n]" "n' = n + 1"
    using False assms(5) by (auto simp: createPane_def idForNewPane_def)
  moreover have "set (used @ [gen n]) \<subseteq> known \<union> gen ` {n0..<n + 1}"
    using assms(1) by (auto simp: used_ok_def)
  ultimately show ?thesis using assms(1) by (simp add: used_ok_def isLive_def)
qed

lemma updatePane_ok:
  assumes "used_ok known gen n0 used n" and "isLive live p" and "p \<notin> set used"
    and "set (live_ids live) \<subseteq> known" and "live_read live p = Some s"
    and "updatePane opts p s (in_entry inc) (used, n) = (d, used', n')"
  shows "used_ok known gen n0 used' n' \<and> used' = used @ [diff_pane d] \<and> diff_fits live opts inc d"
  using assms
  by (auto simp: updatePane_def Let_def used_ok_def isLive_def showsSame_def dest: findEntry_hasIndex
      split: if_splits option.splits)

lemma diffPane_ok:
  assumes "used_ok known gen n0 used n" and "fresh_supply gen n0 known"
    and "set (live_ids live) \<subseteq> known" and "\<And>p. in_paneId inc = Some p \<Longrightarrow> p \<in> known"
    and "position < length incoming"
    and "diffPane live opts gen (showing live opts incoming) inc position (used, n) = (d, used', n')"
  shows "used_ok known gen n0 used' n' \<and> used' = used @ [diff_pane d] \<and> diff_fits live opts inc d"
proof -
  let ?m = "matchPane live opts (showing live opts incoming) used inc position"
  consider "createPane live gen inc (used, n) = (d, used', n')"
    | p s where "?m = Some p" "live_read live p = Some s"
        "updatePane opts p s (in_entry inc) (used, n) = (d, used', n')"
    using assms(6) by (cases ?m) (auto simp: diffPane_def Let_def split: if_splits option.splits)
  then show ?thesis
  proof cases
    case 1
    then show ?thesis using createPane_ok[OF assms(1-4)] by blast
  next
    case 2
    with matchPane_free[OF 2(1) assms(5)] show ?thesis using updatePane_ok[OF assms(1) _ _ assms(3)] by blast
  qed
qed

lemma diffPane_all_ok:
  assumes "used_ok known gen n0 used n" and "fresh_supply gen n0 known"
    and "set (live_ids live) \<subseteq> known" and "\<And>inc p. inc \<in> set incs \<Longrightarrow> in_paneId inc = Some p \<Longrightarrow> p \<in> known"
    and "position + length incs \<le> length incoming"
    and "diffPane_all live opts gen (showing live opts incoming) incs position (used, n) = (ds, used', n')"
  shows "used_ok known gen n0 used' n' \<and> used' = used @ map diff_pane ds \<and>
         list_all2 (diff_fits live opts) incs ds"
  using assms
proof (induction incs arbitrary: used n position ds)
  case (Cons inc incs)
  obtain d u m where d: "diffPane live opts gen (showing live opts incoming) inc position (used, n) = (d, u, m)"
    by (metis prod_cases3)
  obtain ds' where ds': "diffPane_all live opts gen (showing live opts incoming) incs (position + 1) (u, m) =
      (ds', used', n')" "ds = d # ds'"
    using Cons.prems(6) d by (auto split: prod.splits)
  have ok: "used_ok known gen n0 u m \<and> u = used @ [diff_pane d] \<and> diff_fits live opts inc d"
    using Cons.prems by (intro diffPane_ok[OF _ _ _ _ _ d]) auto
  with Cons.IH[OF _ Cons.prems(2,3) _ _ ds'(1)] Cons.prems(4,5) ds'(2) show ?case by auto
qed auto

lemma diffPanes_ok:
  assumes "fresh_supply gen n0 (known_ids live incoming)"
    and "diffPanes live incoming opts gen n0 = (d, n)"
  shows "distinct (map diff_pane (diff_panes d)) \<and>
    list_all2 (diff_fits live opts) incoming (diff_panes d) \<and>
    diff_removed d = filter (\<lambda>p. p \<notin> diff_pane ` set (diff_panes d)) (live_ids live)"
proof -
  let ?known = "known_ids live incoming"
  obtain ds used m where run:
    "diffPane_all live opts gen (showing live opts incoming) incoming 0 ([], n0) = (ds, used, m)"
    by (metis prod_cases3)
  then have d: "d = \<lparr>diff_panes = ds, diff_removed = filter (\<lambda>p. p \<notin> set used) (live_ids live)\<rparr>"
    using assms(2) by (simp add: diffPanes_def)
  have "used_ok ?known gen n0 used m \<and> used = [] @ map diff_pane ds \<and> list_all2 (diff_fits live opts) incoming ds"
  proof (rule diffPane_all_ok[OF _ assms(1) _ _ _ run])
    show "used_ok ?known gen n0 [] n0" by (simp add: used_ok_def)
  qed (auto simp: known_ids_def)
  then show ?thesis by (auto simp: d used_ok_def)
qed

text \<open>
  Lining up incoming panes with the open ones gives every incoming pane its own pane,
  in order: no id occurs twice, kept panes are open and show the entry already, changed panes
  are open, created ones carry an id that is not open, and exactly the open panes that nobody
  got are removed.  The supply of new ids has to be fresh.
\<close>

theorem diffPanes_assigns:
  assumes "fresh_supply gen n0 (known_ids live incoming)"
    and "diffPanes live incoming opts gen n0 = (d, n)"
  shows "distinct (map diff_pane (diff_panes d)) \<and>
    list_all2 (diff_fits live opts) incoming (diff_panes d) \<and>
    diff_removed d = filter (\<lambda>p. p \<notin> diff_pane ` set (diff_panes d)) (live_ids live)"
  by (rule diffPanes_ok[OF assms])

definition sample_live :: "(nat, unit) live_panes" where
  "sample_live = \<lparr>live_ids = [[112], [113]],
     live_read = [[112] \<mapsto> sample_history, [113] \<mapsto> \<lparr>entries = [sample_entry [120] None], index = 0\<rparr>]\<rparr>"

definition sample_options :: "(nat, unit) diff_options" where
  "sample_options = \<lparr>same_opt = (\<lambda>c e. map_option e_id c = Some (e_id e)), adopt_opt = None\<rparr>"

definition sample_supply :: "nat \<Rightarrow> pane_id" where
  "sample_supply n = replicate (n + 2) 110"

lemma sample_supply_fresh:
  "(\<forall>p \<in> known. length p = 1) \<Longrightarrow> fresh_supply sample_supply n known"
  by (auto simp: fresh_supply_def inj_def sample_supply_def dest: arg_cong[of _ _ length])

theorem diffPanes_assigns_witness:
  "distinct (map diff_pane (diff_panes (fst (diffPanes sample_live
     [\<lparr>in_paneId = None, in_entry = sample_entry [120] None\<rparr>, \<lparr>in_paneId = Some [112], in_entry = sample_entry [97] None\<rparr>,
      \<lparr>in_paneId = Some [112], in_entry = sample_entry [122] None\<rparr>] sample_options sample_supply 0))))"
proof -
  let ?inc = "[\<lparr>in_paneId = None, in_entry = sample_entry [120] None\<rparr>,
      \<lparr>in_paneId = Some [112], in_entry = sample_entry [97] None\<rparr>,
      \<lparr>in_paneId = Some [112], in_entry = sample_entry [122] None\<rparr>]"
  have "fresh_supply sample_supply 0 (known_ids sample_live ?inc)"
    by (rule sample_supply_fresh) (auto simp: known_ids_def sample_live_def)
  from diffPanes_assigns[OF this] show ?thesis by (metis prod.collapse)
qed

section \<open>Nothing to do\<close>

text \<open>The pane as a URL that describes what is on screen gives it back.\<close>

definition as_incoming :: "('x, 'y) live_panes \<Rightarrow> pane_id \<Rightarrow> ('x, 'y) incoming_pane" where
  "as_incoming live p =
    \<lparr>in_paneId = Some p, in_entry = the (currentEntry (the (live_read live p)))\<rparr>"

lemma findEntry_current:
  assumes "snapshot_wf s" and "distinct (map e_id (entries s))" and "currentEntry s = Some e"
  shows "findEntry s (e_id e) = Some (e, index s)"
proof -
  let ?n = "nat (index s)"
  have r: "0 \<le> index s" "?n < length (entries s)" "e = entries s ! ?n"
    using assms(1,3) by (auto simp: snapshot_wf_def hasIndex_def currentEntry_wf)
  have "find_index (\<lambda>x. e_id x = e_id e) (entries s) \<noteq> None"
    using r by (auto simp: find_index_None)
  then obtain k where k: "find_index (\<lambda>x. e_id x = e_id e) (entries s) = Some k" by auto
  from find_index_Some[OF k] have "k < length (entries s)" "map e_id (entries s) ! k = map e_id (entries s) ! ?n"
    using r by auto
  then have "k = ?n" using assms(2) r by (metis length_map nth_eq_iff_index_eq)
  then show ?thesis using k r by (simp add: findEntry_def)
qed

lemma diffPane_all_keeps:
  assumes "\<And>p. p \<in> set ps \<Longrightarrow> p \<noteq> [] \<and> isLive live p \<and> (\<exists>s. live_read live p = Some s \<and> snapshot_wf s \<and>
      distinct (map e_id (entries s)))"
    and "\<And>e. same_opt opts (Some e) e" and "distinct (used @ ps)"
  shows "diffPane_all live opts gen shown (map (as_incoming live) ps) position (used, n) =
    (map Keep ps, used @ ps, n)"
  using assms(1,3)
proof (induction ps arbitrary: position used)
  case (Cons p ps)
  obtain s where s: "live_read live p = Some s" "snapshot_wf s" "distinct (map e_id (entries s))"
    using Cons.prems(1)[of p] by auto
  obtain e where e: "currentEntry s = Some e" using s(2) by (simp add: currentEntry_wf)
  have "diffPane live opts gen shown (as_incoming live p) position (used, n) = (Keep p, used @ [p], n)"
    using Cons.prems s e assms(2)
    by (simp add: diffPane_def matchPane_def hasLiveId_def as_incoming_def updatePane_def
        findEntry_current[OF s(2,3) e] Let_def)
  then show ?case using Cons.IH[of "used @ [p]" "position + 1"] Cons.prems by simp
qed simp

text \<open>
  Applying a URL that describes exactly what is on screen changes nothing: every pane is
  kept, none is created or removed and no id is drawn.
\<close>

theorem diffPanes_unchanged:
  assumes "distinct (live_ids live)" and "[] \<notin> set (live_ids live)"
    and "\<forall>p \<in> set (live_ids live). \<exists>s. live_read live p = Some s \<and> snapshot_wf s \<and> distinct (map e_id (entries s))"
    and "\<forall>e. same_opt opts (Some e) e"
  shows "diffPanes live (map (as_incoming live) (live_ids live)) opts gen n =
    (\<lparr>diff_panes = map Keep (live_ids live), diff_removed = []\<rparr>, n)"
proof -
  have "diffPane_all live opts gen shown (map (as_incoming live) (live_ids live)) 0 ([], n) =
      (map Keep (live_ids live), [] @ live_ids live, n)" for shown
    using assms by (intro diffPane_all_keeps) (auto simp: isLive_def)
  then show ?thesis by (simp add: diffPanes_def)
qed

theorem diffPanes_unchanged_witness:
  "diffPanes sample_live (map (as_incoming sample_live) [[112], [113]]) sample_options sample_supply 0 =
    (\<lparr>diff_panes = [Keep [112], Keep [113]], diff_removed = []\<rparr>, 0)"
  using diffPanes_unchanged[of sample_live sample_options sample_supply 0]
  by (simp add: sample_live_def sample_options_def sample_history_def sample_entry_def snapshot_wf_def hasIndex_def)

end
