(* ===== verification/Panes.thy ===== *)
theory Panes
  imports Pane_Diff
begin

text \<open>
  The open panes: \<open>apps/web/src/lib/split-router/panes/panes.ts\<close> over a pane store, the
  interface \<open>PaneStore\<close> of \<open>types.ts\<close>, and \<open>memory-store.ts\<close>, which implements it.  The
  store handed to \<open>createPanes\<close> is a record of operations; the locale \<open>pane_store_laws\<close> says
  what an implementation promises, the memory store satisfies it, and the lemmas on the pane
  operations are proved once against the laws.  A \<open>batch\<close> only delays notifications, so it
  does not appear; the calls of \<open>onRemove\<close> are logged.
\<close>

section \<open>The store\<close>

datatype store_error =
    NoHistory pane_id
  | HistoryError history_error
  | NoSnapshot pane_id \<comment> \<open>\<open>undefined\<close> is destructured\<close>
  | MissingEntry \<comment> \<open>fewer entries than changed panes are handed to \<open>applyDiff\<close>\<close>

record ('s, 'x, 'y) pane_store =
  st_create :: "pane_id \<Rightarrow> ('x, 'y) pane_entry \<Rightarrow> 's \<Rightarrow> 's"
  st_remove :: "pane_id \<Rightarrow> 's \<Rightarrow> 's"
  st_read :: "pane_id \<Rightarrow> 's \<Rightarrow> ('x, 'y) pane_snapshot option"
  st_apply :: "pane_id \<Rightarrow> ('x, 'y) pane_change \<Rightarrow> 's \<Rightarrow> (store_error, unit, 's) outcome"

type_synonym ('x, 'y) stored = "(pane_id \<times> ('x, 'y) pane_snapshot) list"

definition ms_create :: "pane_id \<Rightarrow> ('x, 'y) pane_entry \<Rightarrow> ('x, 'y) stored \<Rightarrow> ('x, 'y) stored" where
  "ms_create pane entry stored = AList.update pane \<lparr>entries = [entry], index = 0\<rparr> stored"

definition ms_remove :: "pane_id \<Rightarrow> ('x, 'y) stored \<Rightarrow> ('x, 'y) stored" where
  "ms_remove pane stored =
    (case find_index (\<lambda>item. fst item = pane) stored of
       None \<Rightarrow> stored
     | Some i \<Rightarrow> take i stored @ drop (Suc i) stored)"

definition ms_read :: "pane_id \<Rightarrow> ('x, 'y) stored \<Rightarrow> ('x, 'y) pane_snapshot option" where
  "ms_read pane stored = map_option snd (List.find (\<lambda>item. fst item = pane) stored)"

definition ms_apply ::
  "pane_id \<Rightarrow> ('x, 'y) pane_change \<Rightarrow> ('x, 'y) stored \<Rightarrow> (store_error, unit, ('x, 'y) stored) outcome" where
  "ms_apply pane change stored =
    (case ms_read pane stored of
       None \<Rightarrow> (Inl (NoHistory pane), stored)
     | Some snapshot \<Rightarrow>
         (case applyHistoryChange snapshot change of
            Inl e \<Rightarrow> (Inl (HistoryError e), stored)
          | Inr next \<Rightarrow> (Inr (), AList.update pane next stored)))"

definition memory_store :: "(('x, 'y) stored, 'x, 'y) pane_store" where
  "memory_store = \<lparr>st_create = ms_create, st_remove = ms_remove, st_read = ms_read, st_apply = ms_apply\<rparr>"

text \<open>What \<open>createPanes\<close> relies on.\<close>

locale pane_store_laws =
  fixes st :: "('s, 'x, 'y) pane_store" and sinv :: "'s \<Rightarrow> bool"
  assumes read_create: "sinv s \<Longrightarrow>
      st_read st q (st_create st p e s) = (if q = p then Some \<lparr>entries = [e], index = 0\<rparr> else st_read st q s)"
    and read_remove: "sinv s \<Longrightarrow> st_read st q (st_remove st p s) = (if q = p then None else st_read st q s)"
    and apply_ok: "sinv s \<Longrightarrow> st_read st p s = Some h \<Longrightarrow> applyHistoryChange h c = Inr h' \<Longrightarrow>
      \<exists>s'. st_apply st p c s = (Inr (), s') \<and> sinv s' \<and>
           (\<forall>q. st_read st q s' = (if q = p then Some h' else st_read st q s))"
    and apply_refused: "sinv s \<Longrightarrow>
      (case st_read st p s of None \<Rightarrow> True | Some h \<Rightarrow> \<exists>e. applyHistoryChange h c = Inl e) \<Longrightarrow>
      \<exists>e. st_apply st p c s = (Inl e, s)"
    and inv_create: "sinv s \<Longrightarrow> sinv (st_create st p e s)"
    and inv_remove: "sinv s \<Longrightarrow> sinv (st_remove st p s)"

definition ms_inv :: "('x, 'y) stored \<Rightarrow> bool" where
  "ms_inv stored \<longleftrightarrow> distinct (map fst stored)"

lemma ms_read_map_of: "ms_read pane stored = map_of stored pane"
  by (induction stored) (auto simp: ms_read_def)

lemma ms_remove_delete: "ms_inv stored \<Longrightarrow> ms_remove pane stored = AList.delete pane stored"
proof (induction stored)
  case (Cons item stored)
  then have IH: "ms_remove pane stored = AList.delete pane stored" by (simp add: ms_inv_def)
  show ?case
  proof (cases "fst item = pane")
    case True
    then have "AList.delete pane stored = stored"
      using Cons.prems by (intro AList.delete_id) (auto simp: ms_inv_def)
    with True show ?thesis by (cases item) (simp add: ms_remove_def)
  next
    case False
    with IH show ?thesis by (cases item) (auto simp: ms_remove_def split: option.splits)
  qed
qed (simp add: ms_remove_def)

interpretation mem: pane_store_laws memory_store ms_inv
proof unfold_locales
  fix s :: "('x, 'y) stored" and p q e h h' c
  assume s: "ms_inv s"
  show "st_read memory_store q (st_create memory_store p e s) =
      (if q = p then Some \<lparr>entries = [e], index = 0\<rparr> else st_read memory_store q s)"
    by (simp add: memory_store_def ms_create_def ms_read_map_of update_conv)
  show "st_read memory_store q (st_remove memory_store p s) = (if q = p then None else st_read memory_store q s)"
    using s by (simp add: memory_store_def ms_remove_delete ms_read_map_of delete_conv)
  show "ms_inv (st_create memory_store p e s)"
    using s by (simp add: memory_store_def ms_create_def ms_inv_def distinct_update)
  show "ms_inv (st_remove memory_store p s)"
    using s ms_remove_delete[OF s] by (simp add: memory_store_def ms_inv_def distinct_delete)
  show "\<exists>s'. st_apply memory_store p c s = (Inr (), s') \<and> ms_inv s' \<and>
      (\<forall>q. st_read memory_store q s' = (if q = p then Some h' else st_read memory_store q s))"
    if "st_read memory_store p s = Some h" "applyHistoryChange h c = Inr h'"
    using that s
    by (simp add: memory_store_def ms_apply_def ms_read_map_of ms_inv_def distinct_update update_conv)
  show "\<exists>e. st_apply memory_store p c s = (Inl e, s)"
    if "case st_read memory_store p s of None \<Rightarrow> True | Some h \<Rightarrow> \<exists>e. applyHistoryChange h c = Inl e"
    using that by (auto simp: memory_store_def ms_apply_def split: option.splits)
qed

section \<open>Where a new pane goes\<close>

definition sameIds :: "pane_id list \<Rightarrow> pane_id list \<Rightarrow> bool" where
  "sameIds left right \<longleftrightarrow>
     length left = length right \<and> list_all (\<lambda>i. left ! i = right ! i) [0..<length left]"

definition isOpenedSince :: "pane_id list \<Rightarrow> pane_id option \<Rightarrow> bool" where
  "isOpenedSince decided pane = (case pane of None \<Rightarrow> False | Some p \<Rightarrow> p \<notin> set decided)"

function skipOpenedSince :: "pane_id list \<Rightarrow> pane_id list \<Rightarrow> nat \<Rightarrow> nat" where
  "skipOpenedSince decided current i =
    (if isOpenedSince decided (if i < length current then Some (current ! i) else None)
     then skipOpenedSince decided current (i + 1) else i)"
  by pat_completeness auto
termination
  by (relation "measure (\<lambda>(_, current, i). length current - i)")
    (auto simp: isOpenedSince_def split: if_splits)

declare skipOpenedSince.simps [simp del]

definition insertionIndex :: "pane_id list \<Rightarrow> int \<Rightarrow> pane_id list \<Rightarrow> nat" where
  "insertionIndex decided insertAt current =
    (let at = nat (max 0 (min insertAt (int (length decided))))
     in if at = 0 then skipOpenedSince decided current 0
        else case find_index (\<lambda>p. p = decided ! (at - 1)) current of
          None \<Rightarrow> min at (length current)
        | Some afterIndex \<Rightarrow> skipOpenedSince decided current (afterIndex + 1))"

lemma sameIds_eq [simp]: "sameIds xs ys \<longleftrightarrow> xs = ys"
  unfolding sameIds_def list_eq_iff_nth_eq[of xs ys] by (auto simp: list_all_iff)

lemma skipOpenedSince_spec:
  "i \<le> length current \<Longrightarrow>
   i \<le> skipOpenedSince decided current i \<and> skipOpenedSince decided current i \<le> length current \<and>
   (\<forall>k. i \<le> k \<and> k < skipOpenedSince decided current i \<longrightarrow> current ! k \<notin> set decided) \<and>
   (skipOpenedSince decided current i < length current \<longrightarrow>
      current ! skipOpenedSince decided current i \<in> set decided)"
proof (induction decided current i rule: skipOpenedSince.induct)
  case (1 decided current i)
  show ?case
  proof (cases "i < length current \<and> current ! i \<notin> set decided")
    case True
    then have "skipOpenedSince decided current i = skipOpenedSince decided current (i + 1)"
      by (subst skipOpenedSince.simps) (simp add: isOpenedSince_def)
    moreover have "current ! k \<notin> set decided"
      if "i \<le> k" "k < skipOpenedSince decided current (i + 1)" for k
      using that 1 True by (cases "k = i") (auto simp: isOpenedSince_def)
    ultimately show ?thesis using 1 True by (auto simp: isOpenedSince_def)
  next
    case False
    then have "skipOpenedSince decided current i = i"
      by (subst skipOpenedSince.simps) (auto simp: isOpenedSince_def)
    with False 1 show ?thesis by auto
  qed
qed

text \<open>
  A pane placed behind a pane that is still open goes behind it, past exactly the panes
  that were opened since the decision: the place is in range, everything between is new, and
  what follows was already there.
\<close>

theorem insertionIndex_behind_anchor:
  assumes "0 < insertAt" and "insertAt \<le> int (length decided)"
    and "find_index (\<lambda>p. p = decided ! nat (insertAt - 1)) current = Some a"
  shows "a < insertionIndex decided insertAt current \<and>
    insertionIndex decided insertAt current \<le> length current \<and>
    (\<forall>k. a < k \<and> k < insertionIndex decided insertAt current \<longrightarrow> current ! k \<notin> set decided) \<and>
    (insertionIndex decided insertAt current < length current \<longrightarrow>
       current ! insertionIndex decided insertAt current \<in> set decided)"
proof -
  have "nat (max 0 (min insertAt (int (length decided)))) = nat insertAt" "nat insertAt \<noteq> 0"
    "nat insertAt - 1 = nat (insertAt - 1)" using assms by auto
  then have "insertionIndex decided insertAt current = skipOpenedSince decided current (a + 1)"
    using assms(3) by (simp add: insertionIndex_def Let_def)
  moreover have "a + 1 \<le> length current" using find_index_Some[OF assms(3)] by simp
  ultimately show ?thesis using skipOpenedSince_spec[of "a + 1" current decided] by auto
qed

theorem insertionIndex_behind_anchor_witness:
  "1 < insertionIndex [[97], [98]] 1 [[122], [97], [110], [98]]"
  using insertionIndex_behind_anchor[of 1 "[[97], [98]]" "[[122], [97], [110], [98]]" 1] by simp

lemma insertionIndex_le: "insertionIndex decided insertAt current \<le> length current"
proof -
  have "skipOpenedSince decided current i \<le> length current" if "i \<le> length current" for i
    using skipOpenedSince_spec[OF that] by blast
  then show ?thesis
    by (auto simp: insertionIndex_def Let_def Suc_le_eq dest!: find_index_Some split: option.splits)
qed

section \<open>The open panes\<close>

record 's panes =
  ids :: "pane_id list"
  arrivals :: "pane_id \<rightharpoonup> pane_arrival"
  store :: 's
  onRemove_calls :: "pane_id list"
  paneIds_drawn :: nat

definition panes_new :: "'s \<Rightarrow> 's panes" where
  "panes_new s = \<lparr>ids = [], arrivals = Map.empty, store = s, onRemove_calls = [], paneIds_drawn = 0\<rparr>"

definition panes_current ::
  "('s, 'x, 'y) pane_store \<Rightarrow> pane_id \<Rightarrow> 's panes \<Rightarrow> ('x, 'y) pane_entry option" where
  "panes_current st pane p =
    (case st_read st pane (store p) of None \<Rightarrow> None | Some snapshot \<Rightarrow> currentEntry snapshot)"

definition panes_arrival :: "pane_id \<Rightarrow> 's panes \<Rightarrow> pane_arrival" where
  "panes_arrival pane p = (case arrivals p pane of None \<Rightarrow> Fresh | Some a \<Rightarrow> a)"

definition addPane ::
  "('s, 'x, 'y) pane_store \<Rightarrow> pane_id \<Rightarrow> ('x, 'y) pane_entry \<Rightarrow> 's panes \<Rightarrow> 's panes" where
  "addPane st pane entry p =
    p\<lparr>store := st_create st pane entry (store p), arrivals := (arrivals p)(pane \<mapsto> Fresh)\<rparr>"

definition forget :: "('s, 'x, 'y) pane_store \<Rightarrow> pane_id \<Rightarrow> 's panes \<Rightarrow> 's panes" where
  "forget st pane p =
    p\<lparr>store := st_remove st pane (store p), arrivals := (arrivals p)(pane := None),
      onRemove_calls := onRemove_calls p @ [pane]\<rparr>"

definition historyChangeFor :: "('x, 'y) pane_entry \<Rightarrow> int option \<Rightarrow> ('x, 'y) pane_change" where
  "historyChangeFor entry i = (case i of None \<Rightarrow> Push entry | Some k \<Rightarrow> Go k entry)"

definition arrivalFor ::
  "('s, 'x, 'y) pane_store \<Rightarrow> pane_id \<Rightarrow> int option \<Rightarrow> 's panes \<Rightarrow> store_error + pane_arrival" where
  "arrivalFor st pane i p =
    (case i of
       None \<Rightarrow> Inr Fresh
     | Some k \<Rightarrow>
         (case st_read st pane (store p) of
            None \<Rightarrow> Inl (NoSnapshot pane)
          | Some s \<Rightarrow> Inr (if k = index s then Replaced else if k < index s then Back else Forward)))"

text \<open>A pane's own history change: the store may refuse it.\<close>

definition storeApply ::
  "('s, 'x, 'y) pane_store \<Rightarrow> pane_id \<Rightarrow> ('x, 'y) pane_change \<Rightarrow> 's panes \<Rightarrow>
   (store_error, unit, 's panes) outcome" where
  "storeApply st pane change p =
    (let (r, s) = st_apply st pane change (store p) in (r, p\<lparr>store := s\<rparr>))"

fun applyChange ::
  "('s, 'x, 'y) pane_store \<Rightarrow> ('x, 'y) pane_diff \<Rightarrow> ('x, 'y) pane_entry \<Rightarrow> 's panes \<Rightarrow>
   (store_error, unit, 's panes) outcome" where
  "applyChange st (Create pane _) entry p = (Inr (), addPane st pane entry p)"
| "applyChange st (Change pane _ _ i) entry p =
     (case arrivalFor st pane i p of
        Inl e \<Rightarrow> (Inl e, p)
      | Inr a \<Rightarrow>
          storeApply st pane (historyChangeFor entry i) (p\<lparr>arrivals := (arrivals p)(pane \<mapsto> a)\<rparr>))"
| "applyChange st (Keep pane) entry p = (Inr (), p)" \<comment> \<open>never a changed pane\<close>

definition panes_commit ::
  "('s, 'x, 'y) pane_store \<Rightarrow> pane_id \<Rightarrow> ('x, 'y) pane_change \<Rightarrow> pane_arrival option \<Rightarrow> 's panes \<Rightarrow>
   (store_error, unit, 's panes) outcome" where
  "panes_commit st pane change arrival p =
    and_then (storeApply st pane change p) (\<lambda>_ p1.
      (Inr (), case arrival of None \<Rightarrow> p1 | Some a \<Rightarrow> p1\<lparr>arrivals := (arrivals p1)(pane \<mapsto> a)\<rparr>))"

definition panes_insert ::
  "('s, 'x, 'y) pane_store \<Rightarrow> pane_id \<Rightarrow> ('x, 'y) pane_entry \<Rightarrow> int \<Rightarrow> pane_id list option \<Rightarrow>
   's panes \<Rightarrow> 's panes" where
  "panes_insert st pane entry insertAt decided p =
    (let at = insertionIndex (case decided of None \<Rightarrow> ids p | Some d \<Rightarrow> d) insertAt (ids p)
     in (addPane st pane entry p)\<lparr>ids := insert_at at pane (ids p)\<rparr>)"

definition panes_remove :: "('s, 'x, 'y) pane_store \<Rightarrow> pane_id \<Rightarrow> 's panes \<Rightarrow> 's panes" where
  "panes_remove st pane p = (forget st pane p)\<lparr>ids := filter (\<lambda>q. q \<noteq> pane) (ids p)\<rparr>"

definition panes_move :: "pane_id \<Rightarrow> int \<Rightarrow> 's panes \<Rightarrow> bool \<times> 's panes" where
  "panes_move pane to p =
    (if pane \<notin> set (ids p) then (False, p)
     else
      let rest = filter (\<lambda>q. q \<noteq> pane) (ids p);
          at = nat (max 0 (min to (int (length rest))));
          next = insert_at at pane rest
      in if sameIds (ids p) next then (False, p) else (True, p\<lparr>ids := next\<rparr>))"

definition live_of :: "('s, 'x, 'y) pane_store \<Rightarrow> 's panes \<Rightarrow> ('x, 'y) live_panes" where
  "live_of st p = \<lparr>live_ids = ids p, live_read = (\<lambda>pane. st_read st pane (store p))\<rparr>"

definition panes_diff_with ::
  "('s, 'x, 'y) pane_store \<Rightarrow> (nat \<Rightarrow> pane_id) \<Rightarrow> ('x, 'y) incoming_pane list \<Rightarrow> ('x, 'y) diff_options \<Rightarrow>
   's panes \<Rightarrow> ('x, 'y) panes_diff \<times> 's panes" where
  "panes_diff_with st gen incoming opts p =
    (let (d, n) = diffPanes (live_of st p) incoming opts gen (paneIds_drawn p)
     in (d, p\<lparr>paneIds_drawn := n\<rparr>))"

fun applyChanges ::
  "('s, 'x, 'y) pane_store \<Rightarrow> ('x, 'y) pane_diff list \<Rightarrow> ('x, 'y) pane_entry list \<Rightarrow> 's panes \<Rightarrow>
   (store_error, unit, 's panes) outcome" where
  "applyChanges st [] es p = (Inr (), p)"
| "applyChanges st (c # cs) [] p = (Inl MissingEntry, p)"
| "applyChanges st (c # cs) (e # es) p =
     and_then (applyChange st c e p) (\<lambda>_ p1. applyChanges st cs es p1)"

definition applyDiff ::
  "('s, 'x, 'y) pane_store \<Rightarrow> ('x, 'y) panes_diff \<Rightarrow> ('x, 'y) pane_entry list \<Rightarrow> 's panes \<Rightarrow>
   (store_error, unit, 's panes) outcome" where
  "applyDiff st d es p =
    and_then (applyChanges st (changedPanes d) es (fold (forget st) (diff_removed d) p)) (\<lambda>_ p1.
      (Inr (), p1\<lparr>ids := map diff_pane (diff_panes d)\<rparr>))"

text \<open>
  The app's policy is a parameter: \<open>createPanes\<close> asks it with the panes as they are and
  fills in the defaults of a request.
\<close>

datatype placement = InPane pane_id | InsertAt int

datatype ('x, 'y, 'd) close_action =
    CloseRemove
  | CloseKeep
  | CloseNavigate 'd bool
  | CloseBackTo "('x, 'y) pane_entry \<Rightarrow> bool" "('x, 'y, 'd) close_action option"

record ('d, 'i) place_request =
  pr_destination :: 'd
  pr_source :: "pane_id option"
  pr_intent :: "'i option"
  pr_holder :: "pane_id option"
  pr_allowDuplicate :: "bool option"
  pr_opening :: "nat option"

record ('d, 'i) full_place_request =
  fr_destination :: 'd
  fr_source :: "pane_id option"
  fr_intent :: 'i
  fr_panes :: "pane_id list"
  fr_holder :: "pane_id option"
  fr_allowDuplicate :: bool
  fr_opening :: nat

definition panes_placeNewPane ::
  "(('d, 'i) full_place_request \<Rightarrow> placement) \<Rightarrow> 'i \<Rightarrow> ('d, 'i) place_request \<Rightarrow> 's panes \<Rightarrow> placement" where
  "panes_placeNewPane policy emptyIntent r p =
    policy \<lparr>fr_destination = pr_destination r, fr_source = pr_source r,
      fr_intent = (case pr_intent r of None \<Rightarrow> emptyIntent | Some i \<Rightarrow> i),
      fr_panes = ids p, fr_holder = pr_holder r,
      fr_allowDuplicate = (case pr_allowDuplicate r of None \<Rightarrow> False | Some b \<Rightarrow> b),
      fr_opening = (case pr_opening r of None \<Rightarrow> 0 | Some n \<Rightarrow> n)\<rparr>"

definition panes_closeAction ::
  "(pane_id \<Rightarrow> pane_id list \<Rightarrow> ('x, 'y, 'd) close_action) \<Rightarrow> pane_id \<Rightarrow> 's panes \<Rightarrow> ('x, 'y, 'd) close_action" where
  "panes_closeAction policy pane p = policy pane (ids p)"

section \<open>Their invariant\<close>

text \<open>
  The ids are distinct, exactly the panes in the list have a history, and every history is
  well-formed.
\<close>

definition panes_inv :: "('s, 'x, 'y) pane_store \<Rightarrow> ('s \<Rightarrow> bool) \<Rightarrow> 's panes \<Rightarrow> bool" where
  "panes_inv st sinv p \<longleftrightarrow> sinv (store p) \<and> distinct (ids p) \<and>
     (\<forall>q. st_read st q (store p) \<noteq> None \<longleftrightarrow> q \<in> set (ids p)) \<and>
     (\<forall>q s. st_read st q (store p) = Some s \<longrightarrow> snapshot_wf s)"

lemma singleton_wf [simp]:
  "snapshot_wf \<lparr>entries = [e], index = 0\<rparr>" "currentEntry \<lparr>entries = [e], index = 0\<rparr> = Some e"
  by (simp_all add: snapshot_wf_def hasIndex_def currentEntry_def js_at_def)

text \<open>What a change of a diff needs of the panes it is applied to.\<close>

fun change_applies :: "('s, 'x, 'y) pane_store \<Rightarrow> 's panes \<Rightarrow> ('x, 'y) pane_diff \<Rightarrow> bool" where
  "change_applies st p (Create q e) \<longleftrightarrow> True"
| "change_applies st p (Change q old e i) \<longleftrightarrow> (\<exists>s. st_read st q (store p) = Some s \<and> snapshot_wf s \<and>
     (case i of None \<Rightarrow> True | Some k \<Rightarrow> hasIndex (entries s) k))"
| "change_applies st p (Keep q) \<longleftrightarrow> False"

definition shows_entry ::
  "('s, 'x, 'y) pane_store \<Rightarrow> 's panes \<Rightarrow> pane_id \<Rightarrow> ('x, 'y) pane_entry \<Rightarrow> bool" where
  "shows_entry st p q e \<longleftrightarrow>
    (\<exists>s. st_read st q (store p) = Some s \<and> snapshot_wf s \<and> currentEntry s = Some e)"

lemma change_applies_cong:
  "st_read st (diff_pane c) (store p') = st_read st (diff_pane c) (store p) \<Longrightarrow>
   change_applies st p' c = change_applies st p c"
  by (cases c) auto

context pane_store_laws
begin

lemma insert_inv:
  assumes "panes_inv st sinv p" and "pane \<notin> set (ids p)"
  shows "panes_inv st sinv (panes_insert st pane entry insertAt decided p)"
  using assms
  by (auto simp: panes_inv_def panes_insert_def addPane_def Let_def read_create inv_create distinct_insert_at)

lemma remove_inv:
  "panes_inv st sinv p \<Longrightarrow> panes_inv st sinv (panes_remove st pane p)"
  by (auto simp: panes_inv_def panes_remove_def forget_def read_remove inv_remove split: if_splits)

lemma move_inv:
  "panes_inv st sinv p \<Longrightarrow> panes_inv st sinv (snd (panes_move pane to p))"
  by (auto simp: panes_inv_def panes_move_def Let_def intro!: distinct_insert_at)

lemma commit_inv:
  assumes "panes_inv st sinv p" and "st_read st pane (store p) = Some s" and "change_ok s c"
  shows "\<exists>p'. panes_commit st pane c a p = (Inr (), p') \<and> panes_inv st sinv p' \<and> ids p' = ids p \<and>
    panes_current st pane p' = Some (change_lands_on c)"
proof -
  have "snapshot_wf s" "sinv (store p)" using assms(1,2) by (auto simp: panes_inv_def)
  from change_ok_lands[OF this(1) assms(3)] obtain s' where
    s': "applyHistoryChange s c = Inr s'" "snapshot_wf s'" "currentEntry s' = Some (change_lands_on c)"
    by blast
  from apply_ok[OF \<open>sinv (store p)\<close> assms(2) s'(1)] obtain t where
    t: "st_apply st pane c (store p) = (Inr (), t)" "sinv t"
      "\<forall>q. st_read st q t = (if q = pane then Some s' else st_read st q (store p))" by blast
  have "pane \<in> set (ids p)" using assms(1,2) by (auto simp: panes_inv_def)
  then show ?thesis using assms(1) s' t
    by (auto simp: panes_commit_def storeApply_def panes_inv_def panes_current_def split: option.splits if_splits)
qed

lemma forget_all:
  "sinv (store p) \<Longrightarrow> sinv (store (fold (forget st) rs p)) \<and> ids (fold (forget st) rs p) = ids p \<and>
   (\<forall>q. st_read st q (store (fold (forget st) rs p)) = (if q \<in> set rs then None else st_read st q (store p)))"
proof (induction rs arbitrary: p)
  case (Cons r rs)
  have "sinv (store (forget st r p))" using Cons.prems by (simp add: forget_def inv_remove)
  from Cons.IH[OF this] Cons.prems show ?case by (simp add: forget_def read_remove)
qed simp

lemma applyChange_ok:
  assumes "sinv (store p)" and "change_applies st p c"
  shows "\<exists>p'. applyChange st c e p = (Inr (), p') \<and> sinv (store p') \<and> ids p' = ids p \<and>
    (\<forall>q. q \<noteq> diff_pane c \<longrightarrow> st_read st q (store p') = st_read st q (store p)) \<and> shows_entry st p' (diff_pane c) e"
proof (cases c)
  case (Create q x)
  then show ?thesis using assms(1) by (simp add: addPane_def read_create inv_create shows_entry_def)
next
  case (Change q old x i)
  then obtain s where s: "st_read st q (store p) = Some s" "snapshot_wf s" "change_ok s (historyChangeFor e i)"
    using assms(2) by (auto simp: historyChangeFor_def split: option.splits)
  have e: "change_lands_on (historyChangeFor e i) = e" by (simp add: historyChangeFor_def split: option.splits)
  from change_ok_lands[OF s(2,3)] obtain s' where
    s': "applyHistoryChange s (historyChangeFor e i) = Inr s'" "snapshot_wf s'" "currentEntry s' = Some e"
    unfolding e by blast
  from apply_ok[OF assms(1) s(1) s'(1)] obtain t where
    t: "st_apply st q (historyChangeFor e i) (store p) = (Inr (), t)" "sinv t"
      "\<forall>r. st_read st r t = (if r = q then Some s' else st_read st r (store p))" by blast
  obtain a where "arrivalFor st q i p = Inr a" using s(1) by (cases i) (simp_all add: arrivalFor_def)
  then show ?thesis using Change s' t by (simp add: storeApply_def shows_entry_def)
qed (use assms(2) in auto)

lemma applyChanges_ok:
  assumes "sinv (store p)" and "distinct (map diff_pane cs)" and "list_all (change_applies st p) cs"
    and "length es = length cs"
  shows "\<exists>p'. applyChanges st cs es p = (Inr (), p') \<and> sinv (store p') \<and> ids p' = ids p \<and>
    (\<forall>q. q \<notin> diff_pane ` set cs \<longrightarrow> st_read st q (store p') = st_read st q (store p)) \<and>
    list_all2 (shows_entry st p') (map diff_pane cs) es"
  using assms
proof (induction cs arbitrary: p es)
  case (Cons c cs)
  obtain e es' where es: "es = e # es'" using Cons.prems(4) by (cases es) auto
  obtain p1 where p1: "applyChange st c e p = (Inr (), p1)" "sinv (store p1)" "ids p1 = ids p"
    "\<forall>q. q \<noteq> diff_pane c \<longrightarrow> st_read st q (store p1) = st_read st q (store p)" "shows_entry st p1 (diff_pane c) e"
    using applyChange_ok[OF Cons.prems(1), of c e] Cons.prems(3) by auto
  have "list_all (change_applies st p1) cs"
    unfolding list_all_iff
  proof
    fix d assume d: "d \<in> set cs"
    then have "diff_pane d \<noteq> diff_pane c" using Cons.prems(2) by (auto simp: image_iff)
    with p1(4) d Cons.prems(3) show "change_applies st p1 d"
      using change_applies_cong[of st d p1 p] by (simp add: list_all_iff)
  qed
  moreover have "distinct (map diff_pane cs)" using Cons.prems(2) by simp
  moreover have "length es' = length cs" using Cons.prems(4) es by simp
  ultimately obtain p2 where p2: "applyChanges st cs es' p1 = (Inr (), p2)" "sinv (store p2)" "ids p2 = ids p1"
    "\<forall>q. q \<notin> diff_pane ` set cs \<longrightarrow> st_read st q (store p2) = st_read st q (store p1)"
    "list_all2 (shows_entry st p2) (map diff_pane cs) es'"
    using Cons.IH[OF p1(2)] by blast
  have "shows_entry st p2 (diff_pane c) e"
    using p1(5) p2(4) Cons.prems(2) by (simp add: shows_entry_def)
  with p1 p2 es show ?case by auto
qed simp

lemma fits_applies:
  assumes "panes_inv st sinv p" and "diff_fits (live_of st p) opts inc c" and "\<not> is_Keep c"
    and "\<And>q. isLive (live_of st p) q \<Longrightarrow> q = diff_pane c \<Longrightarrow> st_read st q (store p') = st_read st q (store p)"
  shows "change_applies st p' c"
  using assms by (cases c) (auto simp: live_of_def panes_inv_def split: option.splits)

lemma applyDiff_ok:
  assumes inv: "panes_inv st sinv p"
    and fresh: "fresh_supply gen (paneIds_drawn p) (known_ids (live_of st p) incoming)"
    and diff: "panes_diff_with st gen incoming opts p = (d, p1)"
    and len: "length es = length (changedPanes d)"
  shows "\<exists>p2. applyDiff st d es p1 = (Inr (), p2) \<and> panes_inv st sinv p2 \<and>
    ids p2 = map diff_pane (diff_panes d) \<and>
    list_all2 (shows_entry st p2) (map diff_pane (changedPanes d)) es \<and>
    (\<forall>q. Keep q \<in> set (diff_panes d) \<longrightarrow> st_read st q (store p2) = st_read st q (store p))"
proof -
  obtain n where d: "diffPanes (live_of st p) incoming opts gen (paneIds_drawn p) = (d, n)"
    and p1: "p1 = p\<lparr>paneIds_drawn := n\<rparr>"
    using diff by (auto simp: panes_diff_with_def split: prod.splits)
  let ?panes = "map diff_pane (diff_panes d)" and ?cs = "changedPanes d"
  let ?f = "fold (forget st) (diff_removed d) p1"
  have a: "distinct ?panes" "list_all2 (diff_fits (live_of st p) opts) incoming (diff_panes d)"
    and rem: "diff_removed d = filter (\<lambda>q. q \<notin> set ?panes) (ids p)"
    using diffPanes_ok[OF fresh d] by (auto simp: live_of_def)
  have s: "sinv (store p)" and dom: "\<And>q. st_read st q (store p) \<noteq> None \<longleftrightarrow> q \<in> set (ids p)"
    and wf: "\<And>q h. st_read st q (store p) = Some h \<Longrightarrow> snapshot_wf h"
    using inv by (auto simp: panes_inv_def)
  have f: "sinv (store ?f)" "\<And>q. st_read st q (store ?f) =
      (if q \<in> set (ids p) \<and> q \<notin> set ?panes then None else st_read st q (store p))"
    using forget_all[of p1 "diff_removed d"] s by (auto simp: p1 rem)
  then have f': "st_read st q (store ?f) = (if q \<in> set ?panes then st_read st q (store p) else None)" for q
    using dom[of q] by auto
  have fits: "\<exists>inc. diff_fits (live_of st p) opts inc c" if "c \<in> set (diff_panes d)" for c
    using a(2) that by (auto simp: list_all2_conv_all_nth in_set_conv_nth)
  have cs: "set ?cs \<subseteq> set (diff_panes d)" "distinct (map diff_pane ?cs)"
    using a(1) by (auto simp: changedPanes_def distinct_map_filter)
  have "list_all (change_applies st ?f) ?cs"
    unfolding list_all_iff
  proof
    fix c assume c: "c \<in> set ?cs"
    then obtain inc where inc: "diff_fits (live_of st p) opts inc c" using fits cs(1) by blast
    have "st_read st (diff_pane c) (store ?f) = st_read st (diff_pane c) (store p)"
      using c cs(1) by (auto simp: f')
    with fits_applies[OF inv inc, of ?f] c show "change_applies st ?f c" by (auto simp: changedPanes_def)
  qed
  from applyChanges_ok[OF f(1) cs(2) this len] obtain p2 where p2:
    "applyChanges st ?cs es ?f = (Inr (), p2)" "sinv (store p2)"
    "\<And>q. q \<notin> diff_pane ` set ?cs \<Longrightarrow> st_read st q (store p2) = st_read st q (store ?f)"
    "list_all2 (shows_entry st p2) (map diff_pane ?cs) es" by blast
  let ?p2 = "p2\<lparr>ids := ?panes\<rparr>"
  have shown: "\<exists>h. st_read st q (store p2) = Some h \<and> snapshot_wf h" if "q \<in> diff_pane ` set ?cs" for q
  proof -
    from that obtain k where "k < length ?cs" "q = map diff_pane ?cs ! k" by (auto simp: in_set_conv_nth)
    then show ?thesis using list_all2_nthD[OF p2(4), of k] by (auto simp: shows_entry_def)
  qed
  have kept: "\<exists>h. st_read st q (store p2) = Some h \<and> st_read st q (store p) = Some h"
    if "Keep q \<in> set (diff_panes d)" for q
  proof -
    have "inj_on diff_pane (set (diff_panes d))" using a(1) by (simp add: distinct_map)
    then have "c = Keep q" if "c \<in> set (diff_panes d)" "diff_pane c = q" for c
      using inj_onD[of diff_pane _ c "Keep q"] that \<open>Keep q \<in> set (diff_panes d)\<close> by simp
    then have "q \<notin> diff_pane ` set ?cs" by (auto simp: changedPanes_def) (metis pane_diff.disc(1))
    then have "st_read st q (store p2) = st_read st q (store p)"
      using p2(3)[of q] that by (auto simp: f' image_iff intro: bexI[of _ "Keep q"])
    moreover have "st_read st q (store p) \<noteq> None"
      using fits[OF that] by (auto simp: showsSame_def live_of_def split: option.splits)
    ultimately show ?thesis by auto
  qed
  have cases: "q \<in> diff_pane ` set ?cs \<or> Keep q \<in> set (diff_panes d)" if "q \<in> set ?panes" for q
    using that by (auto simp: changedPanes_def is_Keep_def)
  have out: "st_read st q (store p2) = None" if "q \<notin> set ?panes" for q
    using that p2(3)[of q] cs(1) by (auto simp: f')
  have "panes_inv st sinv ?p2"
    unfolding panes_inv_def
  proof (intro conjI allI impI)
    fix q show "(st_read st q (store ?p2) \<noteq> None) = (q \<in> set (ids ?p2))"
      using cases[of q] out[of q] shown[of q] kept[of q] by (cases "q \<in> set ?panes") auto
  next
    fix q h assume "st_read st q (store ?p2) = Some h"
    then show "snapshot_wf h"
      using cases[of q] out[of q] shown[of q] kept[of q] wf[of q] by fastforce
  qed (use p2(2) a(1) in simp_all)
  moreover have "applyDiff st d es p1 = (Inr (), ?p2)" by (simp add: applyDiff_def p2(1))
  moreover have "list_all2 (shows_entry st ?p2) (map diff_pane ?cs) es"
    using p2(4) by (simp add: shows_entry_def[abs_def])
  ultimately show ?thesis using kept by fastforce
qed

end

section \<open>What the open panes promise\<close>

text \<open>
  C30.  Applying a URL works as a whole: whatever panes it describes, the changes computed for
  it all apply, afterwards the open panes are exactly the described ones in their order,
  each changed pane shows the entry handed in for it, kept panes are untouched, and again
  exactly the open panes have a history.
\<close>

theorem applyDiff_shows_url:
  assumes "panes_inv memory_store ms_inv p"
    and "fresh_supply gen (paneIds_drawn p) (known_ids (live_of memory_store p) incoming)"
    and "panes_diff_with memory_store gen incoming opts p = (d, p1)"
    and "length es = length (changedPanes d)"
  shows "\<exists>p2. applyDiff memory_store d es p1 = (Inr (), p2) \<and> panes_inv memory_store ms_inv p2 \<and>
    ids p2 = map diff_pane (diff_panes d) \<and> length (ids p2) = length incoming \<and>
    list_all2 (\<lambda>q e. panes_current memory_store q p2 = Some e) (map diff_pane (changedPanes d)) es \<and>
    (\<forall>q. Keep q \<in> set (diff_panes d) \<longrightarrow> ms_read q (store p2) = ms_read q (store p))"
proof -
  from mem.applyDiff_ok[OF assms] obtain p2 where p2: "applyDiff memory_store d es p1 = (Inr (), p2)"
    "panes_inv memory_store ms_inv p2" "ids p2 = map diff_pane (diff_panes d)"
    "list_all2 (shows_entry memory_store p2) (map diff_pane (changedPanes d)) es"
    "\<forall>q. Keep q \<in> set (diff_panes d) \<longrightarrow>
       st_read memory_store q (store p2) = st_read memory_store q (store p)" by blast
  have "list_all2 (\<lambda>q e. panes_current memory_store q p2 = Some e) (map diff_pane (changedPanes d)) es"
    using p2(4) by (rule list_all2_mono) (auto simp: shows_entry_def panes_current_def)
  moreover obtain n where "diffPanes (live_of memory_store p) incoming opts gen (paneIds_drawn p) = (d, n)"
    using assms(3) by (auto simp: panes_diff_with_def split: prod.splits)
  then have "length incoming = length (diff_panes d)"
    using diffPanes_ok[OF assms(2)] list_all2_lengthD by blast
  ultimately show ?thesis using p2 by (intro exI[of _ p2]) (simp add: memory_store_def)
qed

lemma panes_new_inv: "panes_inv memory_store ms_inv (panes_new [])"
  by (simp add: panes_inv_def panes_new_def memory_store_def ms_inv_def ms_read_def)

theorem applyDiff_shows_url_witness:
  "\<exists>d p1 p2. panes_diff_with memory_store sample_supply
      [\<lparr>in_paneId = None, in_entry = sample_entry [120] None\<rparr>, \<lparr>in_paneId = Some [107], in_entry = sample_entry [121] None\<rparr>]
      sample_options (panes_new []) = (d, p1) \<and>
    applyDiff memory_store d [sample_entry [120] None, sample_entry [121] None] p1 = (Inr (), p2) \<and> length (ids p2) = 2"
proof -
  let ?inc = "[\<lparr>in_paneId = None, in_entry = sample_entry [120] None\<rparr>,
    \<lparr>in_paneId = Some [107], in_entry = sample_entry [121] None\<rparr>]"
  let ?r = "panes_diff_with memory_store sample_supply ?inc sample_options (panes_new [])"
  have fresh: "fresh_supply sample_supply (paneIds_drawn (panes_new []))
      (known_ids (live_of memory_store (panes_new [])) ?inc)"
    by (rule sample_supply_fresh) (auto simp: known_ids_def live_of_def panes_new_def)
  have r: "?r = (fst ?r, snd ?r)" by simp
  have "length [sample_entry [120] None, sample_entry [121] None] = length (changedPanes (fst ?r))"
    by (simp add: panes_diff_with_def diffPanes_def live_of_def panes_new_def diffPane_def matchPane_def
        showing_def hasLiveId_def isLive_def createPane_def idForNewPane_def changedPanes_def Let_def)
  from applyDiff_shows_url[OF panes_new_inv fresh r this]
  obtain p2 where "applyDiff memory_store (fst ?r) [sample_entry [120] None, sample_entry [121] None] (snd ?r) = (Inr (), p2)"
    "length (ids p2) = 2" by auto
  then show ?thesis using r by blast
qed

text \<open>The panes other than \<open>q\<close> are open in the same order, with the histories and arrivals they had.\<close>

definition others_untouched :: "('s, 'x, 'y) pane_store \<Rightarrow> pane_id \<Rightarrow> 's panes \<Rightarrow> 's panes \<Rightarrow> bool" where
  "others_untouched st q p p' \<longleftrightarrow>
    filter (\<lambda>r. r \<noteq> q) (ids p') = filter (\<lambda>r. r \<noteq> q) (ids p) \<and>
    (\<forall>r. r \<noteq> q \<longrightarrow> st_read st r (store p') = st_read st r (store p) \<and> panes_arrival r p' = panes_arrival r p)"

lemma insert_at_nth: "i \<le> length xs \<Longrightarrow> insert_at i x xs ! i = x"
  by (simp add: insert_at_def nth_append)

context pane_store_laws
begin

lemma remove_spec:
  assumes "panes_inv st sinv p"
  shows "others_untouched st q p (panes_remove st q p) \<and> q \<notin> set (ids (panes_remove st q p)) \<and>
    st_read st q (store (panes_remove st q p)) = None"
  using assms by (simp add: others_untouched_def panes_remove_def forget_def read_remove panes_inv_def panes_arrival_def)

lemma insert_spec:
  assumes "panes_inv st sinv p" and "q \<notin> set (ids p)"
  shows "others_untouched st q p (panes_insert st q e insertAt decided p) \<and>
    st_read st q (store (panes_insert st q e insertAt decided p)) = Some \<lparr>entries = [e], index = 0\<rparr> \<and>
    panes_arrival q (panes_insert st q e insertAt decided p) = Fresh \<and>
    ids (panes_insert st q e insertAt decided p) ! insertionIndex (case decided of None \<Rightarrow> ids p | Some d \<Rightarrow> d) insertAt (ids p) = q"
proof -
  have "filter (\<lambda>r. r \<noteq> q) (ids p) = ids p" using assms(2) by (auto simp: filter_id_conv)
  then show ?thesis using assms insertionIndex_le
    by (simp add: others_untouched_def panes_insert_def addPane_def Let_def filter_insert_at read_create panes_inv_def
        panes_arrival_def insert_at_nth)
qed

lemma commit_spec:
  assumes "panes_inv st sinv p" and "st_read st q (store p) = Some s" and "change_ok s c"
  shows "\<exists>p' s'. panes_commit st q c a p = (Inr (), p') \<and> panes_inv st sinv p' \<and> ids p' = ids p \<and>
    others_untouched st q p p' \<and> applyHistoryChange s c = Inr s' \<and> st_read st q (store p') = Some s' \<and>
    currentEntry s' = Some (change_lands_on c) \<and>
    panes_arrival q p' = (case a of None \<Rightarrow> panes_arrival q p | Some x \<Rightarrow> x)"
proof -
  have w: "snapshot_wf s" "sinv (store p)" using assms(1,2) by (auto simp: panes_inv_def)
  from change_ok_lands[OF w(1) assms(3)] obtain s' where
    s': "applyHistoryChange s c = Inr s'" "currentEntry s' = Some (change_lands_on c)" by blast
  from apply_ok[OF w(2) assms(2) s'(1)] obtain t where
    t: "st_apply st q c (store p) = (Inr (), t)" "\<forall>r. st_read st r t = (if r = q then Some s' else st_read st r (store p))" by blast
  obtain p' where p': "panes_commit st q c a p = (Inr (), p')" "panes_inv st sinv p'" "ids p' = ids p"
    using commit_inv[OF assms] by blast
  then have "store p' = t" "arrivals p' = (case a of None \<Rightarrow> arrivals p | Some x \<Rightarrow> (arrivals p)(q \<mapsto> x))"
    using t(1) by (auto simp: panes_commit_def storeApply_def split: option.splits)
  then show ?thesis using p' s' t(2)
    by (auto simp: others_untouched_def panes_arrival_def split: option.splits)
qed

end

lemma move_spec:
  assumes "distinct (ids p)" and "panes_move q to p = (moved, p')"
  shows "others_untouched st q p p' \<and> store p' = store p \<and> set (ids p') = set (ids p) \<and> (moved \<longleftrightarrow> ids p' \<noteq> ids p) \<and>
    (q \<in> set (ids p) \<longrightarrow> ids p' ! nat (max 0 (min to (int (length (ids p)) - 1))) = q)"
proof (cases "q \<in> set (ids p)")
  case True
  let ?rest = "filter (\<lambda>r. r \<noteq> q) (ids p)"
  have r: "?rest = remove1 q (ids p)" using assms(1) by (simp add: distinct_remove1_removeAll removeAll_filter_not_eq) (metis)
  have len: "int (length ?rest) = int (length (ids p)) - 1"
    unfolding r length_remove1 using True by (cases "ids p") auto
  let ?at = "nat (max 0 (min to (int (length (ids p)) - 1)))"
  have "?at \<le> length ?rest" using len by linarith
  then have "insert_at ?at q ?rest ! ?at = q" by (rule insert_at_nth)
  moreover have "ids p' = insert_at ?at q ?rest \<and> (moved \<longleftrightarrow> ids p' \<noteq> ids p) \<and> store p' = store p \<and> arrivals p' = arrivals p"
    using assms(2) True len by (auto simp: panes_move_def Let_def split: if_splits)
  ultimately show ?thesis using True
    by (auto simp: others_untouched_def panes_arrival_def filter_insert_at)
next
  case False
  then show ?thesis using assms(2) by (auto simp: panes_move_def others_untouched_def)
qed

text \<open>
  C31.  What each operation does to the panes.  All of them keep the invariant (ids are distinct, and exactly the open
  panes have a history, which is well-formed) and leave the other panes open in the same order with the same histories and
  arrivals.  Removing a pane closes it and takes its history away; moving it only permutes the list, puts it at the place asked for,
  clamped to the list, and says whether the list changed; a new pane that is inserted holds its entry alone at the place that
  \<open>insertionIndex\<close> gives; a legal change of an open pane's history is made and the pane shows the entry it lands on, with the arrival
  handed in; and a change to a pane that is not open is refused and leaves everything as it was.
\<close>

theorem panes_operations_keep_invariant:
  assumes "panes_inv memory_store ms_inv p"
  shows "(let p' = panes_remove memory_store q p in
      panes_inv memory_store ms_inv p' \<and> others_untouched memory_store q p p' \<and> q \<notin> set (ids p') \<and> ms_read q (store p') = None) \<and>
    (let (moved, p') = panes_move q to p in
      panes_inv memory_store ms_inv p' \<and> others_untouched memory_store q p p' \<and> store p' = store p \<and> set (ids p') = set (ids p) \<and>
      (moved \<longleftrightarrow> ids p' \<noteq> ids p) \<and>
      (q \<in> set (ids p) \<longrightarrow> ids p' ! nat (max 0 (min to (int (length (ids p)) - 1))) = q)) \<and>
    (q \<notin> set (ids p) \<longrightarrow>
      (let p' = panes_insert memory_store q e insertAt decided p in
        panes_inv memory_store ms_inv p' \<and> others_untouched memory_store q p p' \<and>
        ms_read q (store p') = Some \<lparr>entries = [e], index = 0\<rparr> \<and> panes_arrival q p' = Fresh \<and>
        ids p' ! insertionIndex (case decided of None \<Rightarrow> ids p | Some d \<Rightarrow> d) insertAt (ids p) = q)) \<and>
    (\<forall>s. ms_read q (store p) = Some s \<and> change_ok s c \<longrightarrow>
      (\<exists>p' s'. panes_commit memory_store q c a p = (Inr (), p') \<and> panes_inv memory_store ms_inv p' \<and> ids p' = ids p \<and>
        others_untouched memory_store q p p' \<and> applyHistoryChange s c = Inr s' \<and> ms_read q (store p') = Some s' \<and>
        currentEntry s' = Some (change_lands_on c) \<and>
        panes_arrival q p' = (case a of None \<Rightarrow> panes_arrival q p | Some x \<Rightarrow> x))) \<and>
    (ms_read q (store p) = None \<longrightarrow> panes_commit memory_store q c a p = (Inl (NoHistory q), p))"
proof -
  have read: "st_read memory_store r s = ms_read r s" for r s by (simp add: memory_store_def)
  have ref: "panes_commit memory_store q c a p = (Inl (NoHistory q), p)" if "ms_read q (store p) = None"
    using that by (simp add: panes_commit_def storeApply_def memory_store_def ms_apply_def)
  have "distinct (ids p)" using assms by (simp add: panes_inv_def)
  from move_spec[OF this prod.collapse[symmetric], of memory_store q to] have mv: "let (moved, p') = panes_move q to p in
      panes_inv memory_store ms_inv p' \<and> others_untouched memory_store q p p' \<and> store p' = store p \<and> set (ids p') = set (ids p) \<and>
      (moved \<longleftrightarrow> ids p' \<noteq> ids p) \<and> (q \<in> set (ids p) \<longrightarrow> ids p' ! nat (max 0 (min to (int (length (ids p)) - 1))) = q)"
    using mem.move_inv[OF assms, of q to] by (simp add: case_prod_beta)
  show ?thesis
    using mem.remove_inv[OF assms, of q] mem.remove_spec[OF assms, of q] mv mem.insert_inv[OF assms, of q e insertAt decided]
      mem.insert_spec[OF assms, of q e insertAt decided] mem.commit_spec[OF assms, of q _ c a] ref
    unfolding Let_def read by blast
qed

theorem panes_operations_keep_invariant_witness:
  "let p' = panes_insert memory_store [112] (sample_entry [120] None) 0 None (panes_new []) in
    panes_inv memory_store ms_inv p' \<and> ms_read [112] (store p') = Some \<lparr>entries = [sample_entry [120] None], index = 0\<rparr>"
  using panes_operations_keep_invariant[OF panes_new_inv, of "[112]" 0 "sample_entry [120] None" 0 None]
  by (simp add: panes_new_def Let_def)

end
