(* ===== verification/Wal_Store.thy ===== *)
theory Wal_Store
  imports Prelude
begin

text \<open>
  The stores of the write-ahead log, \<open>packages/collaboration/src/collab/wal.ts\<close>: the
  interface \<open>WALStore\<close>, the in-memory store, and the browser store, which keeps the rows of
  all documents in one IndexedDB object store and selects its own by scope.  The clock is an
  argument.  The locale \<open>wal_store_laws\<close> says what a store promises and both satisfy it.
\<close>

section \<open>Entries and the interface\<close>

record 'u wal_entry =
  w_id :: nat
  w_update :: 'u
  w_delivered :: bool
  w_createdAt :: int

definition hasExpired :: "'u wal_entry \<Rightarrow> int \<Rightarrow> bool" where
  "hasExpired entry cutoff \<longleftrightarrow> \<not> w_delivered entry \<and> w_createdAt entry < cutoff"

definition WAL_TTL_MS :: int where
  "WAL_TTL_MS = 7 * 24 * 60 * 60 * 1000"

record ('s, 'u) wal_store =
  ws_append :: "'u \<Rightarrow> int \<Rightarrow> 's \<Rightarrow> 's"
  ws_getAll :: "'s \<Rightarrow> 'u wal_entry list"
  ws_markDelivered :: "nat list \<Rightarrow> 's \<Rightarrow> 's"
  ws_pruneDelivered :: "'s \<Rightarrow> 's"
  ws_pruneExpired :: "int \<Rightarrow> int \<Rightarrow> 's \<Rightarrow> nat \<times> 's"
  ws_count :: "'s \<Rightarrow> nat"

definition mark :: "nat list \<Rightarrow> 'u wal_entry \<Rightarrow> 'u wal_entry" where
  "mark is e = (if w_id e \<in> set is then e\<lparr>w_delivered := True\<rparr> else e)"

lemma mark_simps [simp]:
  "w_id (mark is e) = w_id e" "w_update (mark is e) = w_update e" "w_createdAt (mark is e) = w_createdAt e"
  "w_delivered (mark is e) \<longleftrightarrow> w_delivered e \<or> w_id e \<in> set is"
  by (simp_all add: mark_def)

lemma mark_Nil [simp]: "mark [] e = e"
  by (simp add: mark_def)

locale wal_store_laws =
  fixes st :: "('s, 'u) wal_store" and sinv :: "'s \<Rightarrow> bool" and nextId :: "'s \<Rightarrow> nat"
  assumes append: "sinv s \<Longrightarrow> ws_getAll st (ws_append st u now s) =
        ws_getAll st s @ [\<lparr>w_id = nextId s, w_update = u, w_delivered = False, w_createdAt = now\<rparr>]"
    and below: "sinv s \<Longrightarrow> e \<in> set (ws_getAll st s) \<Longrightarrow> w_id e < nextId s"
    and nextId: "nextId (ws_append st u now s) = Suc (nextId s)" "nextId (ws_markDelivered st is s) = nextId s"
      "nextId (ws_pruneDelivered st s) = nextId s" "nextId (snd (ws_pruneExpired st ttl now s)) = nextId s"
    and markDelivered: "sinv s \<Longrightarrow> ws_getAll st (ws_markDelivered st is s) = map (mark is) (ws_getAll st s)"
    and pruneDelivered: "sinv s \<Longrightarrow>
      ws_getAll st (ws_pruneDelivered st s) = filter (\<lambda>e. \<not> w_delivered e) (ws_getAll st s)"
    and pruneExpired: "sinv s \<Longrightarrow> ws_pruneExpired st ttl now s = (n, s') \<Longrightarrow>
      ws_getAll st s' = filter (\<lambda>e. \<not> hasExpired e (now - ttl)) (ws_getAll st s) \<and>
      n + length (ws_getAll st s') = length (ws_getAll st s)"
    and count: "sinv s \<Longrightarrow> ws_count st s = length (ws_getAll st s)"
    and ids: "sinv s \<Longrightarrow> distinct (map w_id (ws_getAll st s))"
    and inv: "sinv s \<Longrightarrow> sinv (ws_append st u now s)" "sinv s \<Longrightarrow> sinv (ws_markDelivered st is s)"
      "sinv s \<Longrightarrow> sinv (ws_pruneDelivered st s)" "sinv s \<Longrightarrow> sinv (snd (ws_pruneExpired st ttl now s))"

section \<open>In memory\<close>

record 'u mem_wal =
  mw_entries :: "'u wal_entry list"
  mw_seq :: nat

definition mem_wal_new :: "'u mem_wal" where
  "mem_wal_new = \<lparr>mw_entries = [], mw_seq = 0\<rparr>"

definition mw_append :: "'u \<Rightarrow> int \<Rightarrow> 'u mem_wal \<Rightarrow> 'u mem_wal" where
  "mw_append u now s =
    s\<lparr>mw_seq := mw_seq s + 1,
      mw_entries := mw_entries s @
        [\<lparr>w_id = mw_seq s + 1, w_update = u, w_delivered = False, w_createdAt = now\<rparr>]\<rparr>"

definition mw_getAll :: "'u mem_wal \<Rightarrow> 'u wal_entry list" where
  "mw_getAll s = mw_entries s"

definition mw_markDelivered :: "nat list \<Rightarrow> 'u mem_wal \<Rightarrow> 'u mem_wal" where
  "mw_markDelivered is s = s\<lparr>mw_entries := map (mark is) (mw_entries s)\<rparr>"

definition mw_pruneDelivered :: "'u mem_wal \<Rightarrow> 'u mem_wal" where
  "mw_pruneDelivered s = s\<lparr>mw_entries := filter (\<lambda>e. \<not> w_delivered e) (mw_entries s)\<rparr>"

definition mw_pruneExpired :: "int \<Rightarrow> int \<Rightarrow> 'u mem_wal \<Rightarrow> nat \<times> 'u mem_wal" where
  "mw_pruneExpired ttl now s =
    (let before = length (mw_entries s);
         s1 = s\<lparr>mw_entries := filter (\<lambda>e. \<not> hasExpired e (now - ttl)) (mw_entries s)\<rparr>
     in (before - length (mw_entries s1), s1))"

definition mw_count :: "'u mem_wal \<Rightarrow> nat" where
  "mw_count s = length (mw_entries s)"

definition mem_wal_store :: "('u mem_wal, 'u) wal_store" where
  "mem_wal_store = \<lparr>ws_append = mw_append, ws_getAll = mw_getAll, ws_markDelivered = mw_markDelivered,
     ws_pruneDelivered = mw_pruneDelivered, ws_pruneExpired = mw_pruneExpired, ws_count = mw_count\<rparr>"

definition mw_inv :: "'u mem_wal \<Rightarrow> bool" where
  "mw_inv s \<longleftrightarrow> distinct (map w_id (mw_entries s)) \<and> (\<forall>e \<in> set (mw_entries s). w_id e \<le> mw_seq s)"

lemma map_w_id_mark [simp]: "map (w_id \<circ> mark is) es = map w_id es"
  by simp

lemma distinct_w_id_filter: "distinct (map w_id es) \<Longrightarrow> distinct (map w_id (filter P es))"
  by (rule distinct_map_filter)

lemmas mw_defs = mem_wal_store_def mw_append_def mw_getAll_def mw_markDelivered_def
  mw_pruneDelivered_def mw_pruneExpired_def mw_count_def mw_inv_def

interpretation mw: wal_store_laws mem_wal_store mw_inv "\<lambda>s. Suc (mw_seq s)"
proof unfold_locales
  fix s s' :: "'u mem_wal" and now ttl n
  assume s: "mw_inv s"
  show "ws_getAll mem_wal_store s' = filter (\<lambda>e. \<not> hasExpired e (now - ttl)) (ws_getAll mem_wal_store s) \<and>
      n + length (ws_getAll mem_wal_store s') = length (ws_getAll mem_wal_store s)"
    if "ws_pruneExpired mem_wal_store ttl now s = (n, s')"
    using that by (auto simp: mw_defs Let_def)
qed (auto simp: mw_defs Let_def comp_def le_imp_less_Suc intro: distinct_w_id_filter)

section \<open>In the browser\<close>

text \<open>
  The object store: rows in key order and the next key of its generator.  A committed
  transaction of the code is one update of it.
\<close>

record 'u idb_row =
  r_entry :: "'u wal_entry"
  r_scopeId :: string

record 'u idb =
  rows :: "'u idb_row list"
  next_key :: nat

definition row_add :: "string \<Rightarrow> 'u \<Rightarrow> int \<Rightarrow> 'u idb \<Rightarrow> 'u idb" where
  "row_add scopeId u now db =
    db\<lparr>rows := rows db @ [\<lparr>r_entry = \<lparr>w_id = next_key db, w_update = u, w_delivered = False,
                                       w_createdAt = now\<rparr>, r_scopeId = scopeId\<rparr>],
       next_key := next_key db + 1\<rparr>"

definition bw_getAll :: "string \<Rightarrow> 'u idb \<Rightarrow> 'u wal_entry list" where
  "bw_getAll scopeId db = map r_entry (filter (\<lambda>r. r_scopeId r = scopeId) (rows db))"

text \<open>\<open>markDelivered\<close> gets each row by its key and puts it back.\<close>

definition row_put_delivered :: "nat \<Rightarrow> 'u idb \<Rightarrow> 'u idb" where
  "row_put_delivered i db =
    db\<lparr>rows := map (\<lambda>r. if w_id (r_entry r) = i then r\<lparr>r_entry := (r_entry r)\<lparr>w_delivered := True\<rparr>\<rparr> else r)
                   (rows db)\<rparr>"

definition bw_markDelivered :: "nat list \<Rightarrow> 'u idb \<Rightarrow> 'u idb" where
  "bw_markDelivered is db = (if is = [] then db else fold row_put_delivered is db)"

definition row_delete :: "nat \<Rightarrow> 'u idb \<Rightarrow> 'u idb" where
  "row_delete i db = db\<lparr>rows := filter (\<lambda>r. w_id (r_entry r) \<noteq> i) (rows db)\<rparr>"

definition bw_pruneDelivered :: "string \<Rightarrow> 'u idb \<Rightarrow> 'u idb" where
  "bw_pruneDelivered scopeId db =
    fold (\<lambda>e db. if w_delivered e then row_delete (w_id e) db else db) (bw_getAll scopeId db) db"

definition bw_pruneExpired :: "string \<Rightarrow> int \<Rightarrow> int \<Rightarrow> 'u idb \<Rightarrow> nat \<times> 'u idb" where
  "bw_pruneExpired scopeId ttl now db =
    (let cutoff = now - ttl
     in fold (\<lambda>e (deleted, db). if hasExpired e cutoff then (deleted + 1, row_delete (w_id e) db)
                                else (deleted, db))
          (bw_getAll scopeId db) (0, db))"

definition bw_count :: "string \<Rightarrow> 'u idb \<Rightarrow> nat" where
  "bw_count scopeId db = length (bw_getAll scopeId db)"

definition browser_wal_store :: "string \<Rightarrow> ('u idb, 'u) wal_store" where
  "browser_wal_store scopeId = \<lparr>ws_append = row_add scopeId, ws_getAll = bw_getAll scopeId,
     ws_markDelivered = bw_markDelivered, ws_pruneDelivered = bw_pruneDelivered scopeId,
     ws_pruneExpired = bw_pruneExpired scopeId, ws_count = bw_count scopeId\<rparr>"

definition idb_inv :: "'u idb \<Rightarrow> bool" where
  "idb_inv db \<longleftrightarrow> distinct (map (w_id \<circ> r_entry) (rows db)) \<and>
     (\<forall>r \<in> set (rows db). w_id (r_entry r) < next_key db)"

text \<open>Marking and deleting row by row amounts to one pass.\<close>

lemma fold_row_put:
  "fold row_put_delivered is db = db\<lparr>rows := map (\<lambda>r. r\<lparr>r_entry := mark is (r_entry r)\<rparr>) (rows db)\<rparr>"
proof (induction "is" arbitrary: db)
  case (Cons i "is")
  have "(if w_id (r_entry r) = i then r\<lparr>r_entry := (r_entry r)\<lparr>w_delivered := True\<rparr>\<rparr> else r)
      = r\<lparr>r_entry := mark [i] (r_entry r)\<rparr>" for r :: "'a idb_row"
    by (cases r) (simp add: mark_def)
  then have "row_put_delivered i db = db\<lparr>rows := map (\<lambda>r. r\<lparr>r_entry := mark [i] (r_entry r)\<rparr>) (rows db)\<rparr>"
    by (simp add: row_put_delivered_def)
  moreover have "mark is (mark [i] e) = mark (i # is) e" for e :: "'a wal_entry" by (simp add: mark_def)
  ultimately show ?case by (simp add: Cons.IH)
qed simp

lemma fold_row_delete:
  "fold (\<lambda>e db. if P e then row_delete (w_id e) db else db) es db =
   db\<lparr>rows := filter (\<lambda>r. w_id (r_entry r) \<notin> w_id ` {e \<in> set es. P e}) (rows db)\<rparr>"
proof (induction es arbitrary: db)
  case (Cons e es)
  have "w_id ` {x \<in> set (e # es). P x} = (if P e then {w_id e} else {}) \<union> w_id ` {x \<in> set es. P x}"
    by auto
  then show ?case by (simp only: fold.simps comp_apply Cons.IH) (simp add: row_delete_def)
qed simp

lemma fold_count_delete:
  "fold (\<lambda>e (n, db). if P e then (n + 1, row_delete (w_id e) db) else (n, db)) es (n, db) =
   (n + length (filter P es), fold (\<lambda>e db. if P e then row_delete (w_id e) db else db) es db)"
  by (induction es arbitrary: n db) auto

lemma own_rows:
  assumes "idb_inv db" and "r \<in> set (rows db)"
  shows "w_id (r_entry r) \<in> w_id ` {e \<in> set (bw_getAll scopeId db). P e} \<longleftrightarrow> r_scopeId r = scopeId \<and> P (r_entry r)"
proof -
  have "x = r" if "x \<in> set (rows db)" "w_id (r_entry x) = w_id (r_entry r)" for x
    using assms that by (auto simp: idb_inv_def distinct_map inj_on_def)
  then show ?thesis using assms(2) by (auto simp: bw_getAll_def image_iff)
qed

text \<open>What is left after the rows of a scope that satisfy \<open>P\<close> are deleted.\<close>

lemma scope_delete:
  assumes "idb_inv db"
  shows "fold (\<lambda>e db. if P e then row_delete (w_id e) db else db) (bw_getAll scopeId db) db =
    db\<lparr>rows := filter (\<lambda>r. r_scopeId r = scopeId \<longrightarrow> \<not> P (r_entry r)) (rows db)\<rparr>"
  using own_rows[OF assms] by (simp add: fold_row_delete cong: filter_cong)

lemma getAll_scope_delete:
  "bw_getAll scopeId (db\<lparr>rows := filter (\<lambda>r. r_scopeId r = scopeId \<longrightarrow> \<not> P (r_entry r)) (rows db)\<rparr>) =
   filter (\<lambda>e. \<not> P e) (bw_getAll scopeId db)"
  by (simp add: bw_getAll_def filter_map comp_def conj_commute cong: filter_cong conj_cong)

lemma idb_inv_filter: "idb_inv db \<Longrightarrow> idb_inv (db\<lparr>rows := filter P (rows db)\<rparr>)"
  by (auto simp: idb_inv_def distinct_map_filter)

lemma pruneExpired_browser:
  "idb_inv db \<Longrightarrow> bw_pruneExpired scopeId ttl now db =
     (length (filter (\<lambda>e. hasExpired e (now - ttl)) (bw_getAll scopeId db)),
      db\<lparr>rows := filter (\<lambda>r. r_scopeId r = scopeId \<longrightarrow> \<not> hasExpired (r_entry r) (now - ttl)) (rows db)\<rparr>)"
  by (simp add: bw_pruneExpired_def Let_def fold_count_delete scope_delete)

lemma pruneDelivered_browser:
  "idb_inv db \<Longrightarrow> bw_pruneDelivered scopeId db =
     db\<lparr>rows := filter (\<lambda>r. r_scopeId r = scopeId \<longrightarrow> \<not> w_delivered (r_entry r)) (rows db)\<rparr>"
  by (simp add: bw_pruneDelivered_def scope_delete)

lemmas bw_defs = browser_wal_store_def row_add_def bw_markDelivered_def fold_row_put
  pruneDelivered_browser pruneExpired_browser bw_count_def getAll_scope_delete[where P = w_delivered]

lemma next_key_fold [simp]:
  "next_key (fold row_put_delivered is db) = next_key db"
  "next_key (fold (\<lambda>e db. if P e then row_delete (w_id e) db else db) es db) = next_key db"
  by (simp_all add: fold_row_put fold_row_delete)

lemma next_key_prune [simp]:
  "next_key (bw_pruneDelivered scopeId db) = next_key db"
  "next_key (snd (bw_pruneExpired scopeId ttl now db)) = next_key db"
  by (simp_all add: bw_pruneDelivered_def bw_pruneExpired_def Let_def fold_count_delete)

interpretation bw: wal_store_laws "browser_wal_store scopeId" idb_inv next_key
proof unfold_locales
  fix s s' :: "'u idb" and u now "is" ttl n
  assume s: "idb_inv s"
  show "ws_getAll (browser_wal_store scopeId) (ws_append (browser_wal_store scopeId) u now s) =
        ws_getAll (browser_wal_store scopeId) s @
          [\<lparr>w_id = next_key s, w_update = u, w_delivered = False, w_createdAt = now\<rparr>]"
    by (simp add: bw_defs bw_getAll_def)
  show "w_id e < next_key s" if "e \<in> set (ws_getAll (browser_wal_store scopeId) s)" for e
    using s that by (auto simp: browser_wal_store_def bw_getAll_def idb_inv_def)
  show "ws_getAll (browser_wal_store scopeId) s' =
      filter (\<lambda>e. \<not> hasExpired e (now - ttl)) (ws_getAll (browser_wal_store scopeId) s) \<and>
      n + length (ws_getAll (browser_wal_store scopeId) s') = length (ws_getAll (browser_wal_store scopeId) s)"
    if "ws_pruneExpired (browser_wal_store scopeId) ttl now s = (n, s')"
  proof -
    have "n = length (filter (\<lambda>e. hasExpired e (now - ttl)) (bw_getAll scopeId s))"
      and s': "s' = s\<lparr>rows := filter (\<lambda>r. r_scopeId r = scopeId \<longrightarrow> \<not> hasExpired (r_entry r) (now - ttl)) (rows s)\<rparr>"
      using that s by (simp_all add: browser_wal_store_def pruneExpired_browser)
    moreover have "bw_getAll scopeId s' = filter (\<lambda>e. \<not> hasExpired e (now - ttl)) (bw_getAll scopeId s)"
      unfolding s' by (rule getAll_scope_delete)
    ultimately show ?thesis using sum_length_filter_compl[of "\<lambda>e. hasExpired e (now - ttl)" "bw_getAll scopeId s"]
      by (simp add: browser_wal_store_def)
  qed
  show "ws_getAll (browser_wal_store scopeId) (ws_markDelivered (browser_wal_store scopeId) is s) =
      map (mark is) (ws_getAll (browser_wal_store scopeId) s)"
    by (simp add: bw_defs bw_getAll_def filter_map comp_def)
  show "distinct (map w_id (ws_getAll (browser_wal_store scopeId) s))"
    using s distinct_map_filter[of "w_id \<circ> r_entry" "rows s"]
    by (simp add: browser_wal_store_def bw_getAll_def idb_inv_def)
qed (auto simp: bw_defs idb_inv_filter, auto simp: idb_inv_def comp_def browser_wal_store_def)

section \<open>Appending with recovery\<close>

text \<open>
  \<open>append\<close> of the browser store runs one transaction and repeats it once if it was aborted.
  What an attempt meets is given by the environment: \<open>transaction\<close> throws; or the request and
  the transaction end, with \<open>rejects\<close> whether an error is seen, \<open>committed\<close> whether the
  \<open>complete\<close> event and not \<open>abort\<close> fires, the name of \<open>tx.error\<close>, and the name of the error when
  it is a \<open>DOMException\<close>.
\<close>

datatype tx_attempt =
    TransactionThrows string
  | Attempt bool bool "string option" "string option" \<comment> \<open>rejects, committed, transaction error, error\<close>

partial_function (option) bw_append_loop ::
  "(nat \<Rightarrow> tx_attempt) \<Rightarrow> string \<Rightarrow> 'u \<Rightarrow> int \<Rightarrow> nat \<Rightarrow> 'u idb \<Rightarrow> ((string + unit) \<times> 'u idb) option" where
  "bw_append_loop env scopeId u now attempt db =
    (case env attempt of
       TransactionThrows e \<Rightarrow> Some (Inl e, db)
     | Attempt rejects committed txError error \<Rightarrow>
         (let db1 = (if committed then row_add scopeId u now db else db)
          in if \<not> rejects then Some (Inr (), db1)
             else if attempt = 1 \<or> committed \<or> (txError \<noteq> None \<and> txError \<noteq> Some ''AbortError'') \<or>
                     error \<noteq> Some ''AbortError''
             then Some (Inl (case txError of Some e \<Rightarrow> e
                             | None \<Rightarrow> (case error of Some e \<Rightarrow> e | None \<Rightarrow> ''Error'')), db1)
             else bw_append_loop env scopeId u now (attempt + 1) db1))"

declare bw_append_loop.simps [code]

definition bw_append ::
  "(nat \<Rightarrow> tx_attempt) \<Rightarrow> string \<Rightarrow> 'u \<Rightarrow> int \<Rightarrow> 'u idb \<Rightarrow> ((string + unit) \<times> 'u idb) option" where
  "bw_append env scopeId u now db = bw_append_loop env scopeId u now 0 db"

text \<open>
  Appending to the browser store always ends, after at most one retry.  The update is
  stored at most once, whatever fails and is retried, and when the call succeeds it is stored
  exactly once.  The hypothesis is IndexedDB's: a transaction that ends without an error has
  committed.
\<close>

theorem browser_append_once:
  assumes "\<forall>k c t e. env k = Attempt False c t e \<longrightarrow> c"
  shows "\<exists>r db'. bw_append env scopeId u now db = Some (r, db') \<and>
    (db' = db \<or> db' = row_add scopeId u now db) \<and> (r = Inr () \<longrightarrow> db' = row_add scopeId u now db)"
proof -
  have last: "\<exists>r db'. bw_append_loop env scopeId u now 1 db = Some (r, db') \<and>
      (db' = db \<or> db' = row_add scopeId u now db) \<and> (r = Inr () \<longrightarrow> db' = row_add scopeId u now db)"
    using assms by (subst bw_append_loop.simps) (auto simp: Let_def split: tx_attempt.splits)
  show ?thesis
  proof (cases "env 0")
    case (TransactionThrows e)
    then show ?thesis unfolding bw_append_def by (subst bw_append_loop.simps) simp
  next
    case (Attempt rej com t e)
    then show ?thesis
      using last assms unfolding bw_append_def
      by (subst bw_append_loop.simps) (cases rej; cases com; auto simp: Let_def)
  qed
qed

theorem browser_append_once_witness:
  "\<exists>r db'. bw_append ((\<lambda>_. Attempt False True None None)(0 := Attempt True False None (Some ''AbortError'')))
      ''doc'' (5 :: nat) 100 \<lparr>rows = [], next_key = 1\<rparr> = Some (r, db') \<and>
    (db' = \<lparr>rows = [], next_key = 1\<rparr> \<or> db' = row_add ''doc'' 5 100 \<lparr>rows = [], next_key = 1\<rparr>)"
proof -
  have "\<forall>k c t e. ((\<lambda>_. Attempt False True None None)(0 := Attempt True False None (Some ''AbortError''))) k =
      Attempt False c t e \<longrightarrow> c" by simp
  from browser_append_once[OF this, of "''doc''" "5 :: nat" 100 "\<lparr>rows = [], next_key = 1\<rparr>"] show ?thesis by blast
qed

text \<open>
  The logs of different documents share one object store and do not touch each other:
  appending to, pruning and expiring the log of one document leave the rows of every other as
  they are, in order.
\<close>

theorem browser_scopes_separate:
  assumes "idb_inv db" and "other \<noteq> scopeId"
  shows "bw_getAll other (row_add scopeId u now db) = bw_getAll other db \<and>
    bw_getAll other (bw_pruneDelivered scopeId db) = bw_getAll other db \<and>
    bw_getAll other (snd (bw_pruneExpired scopeId ttl now db)) = bw_getAll other db \<and>
    bw_getAll other (bw_markDelivered (map w_id (bw_getAll scopeId db)) db) = bw_getAll other db"
proof -
  have "filter (\<lambda>r. r_scopeId r = other \<and> (r_scopeId r = scopeId \<longrightarrow> \<not> P (r_entry r))) rs =
      filter (\<lambda>r. r_scopeId r = other) rs" for P and rs :: "'a idb_row list"
    using assms(2) by (intro filter_cong) auto
  then have del: "bw_getAll other (db\<lparr>rows := filter (\<lambda>r. r_scopeId r = scopeId \<longrightarrow> \<not> P (r_entry r)) (rows db)\<rparr>) =
      bw_getAll other db" for P
    by (simp add: bw_getAll_def conj_commute)
  have foreign: "mark (map w_id (bw_getAll scopeId db)) (r_entry r) = r_entry r"
    if "r \<in> set (rows db)" "r_scopeId r = other" for r
    using own_rows[OF assms(1) that(1), of scopeId "\<lambda>_. True"] that(2) assms(2) by (auto simp: mark_def)
  have "bw_getAll other (bw_markDelivered (map w_id (bw_getAll scopeId db)) db) = bw_getAll other db"
    using foreign
    by (auto simp: bw_markDelivered_def fold_row_put bw_getAll_def[of other] filter_map comp_def intro!: map_cong)
  moreover have "bw_getAll other (row_add scopeId u now db) = bw_getAll other db"
    using assms(2) by (simp add: row_add_def bw_getAll_def)
  ultimately show ?thesis
    using del[of w_delivered] del[of "\<lambda>e. hasExpired e (now - ttl)"]
    by (simp add: pruneDelivered_browser[OF assms(1)] pruneExpired_browser[OF assms(1)])
qed

theorem browser_scopes_separate_witness:
  "bw_getAll ''b'' (bw_pruneDelivered ''a'' (row_add ''b'' (5 :: nat) 1 \<lparr>rows = [], next_key = 1\<rparr>)) =
   bw_getAll ''b'' (row_add ''b'' 5 1 \<lparr>rows = [], next_key = 1\<rparr>)"
  by (rule conjunct1[OF conjunct2[OF browser_scopes_separate[of _ "''b''" "''a''"]]])
    (simp_all add: idb_inv_def row_add_def)

end
