(* ===== verification/Wal_Syncer.thy ===== *)
theory Wal_Syncer
  imports Wal_Store
begin

text \<open>
  \<open>WALSyncer\<close> of \<open>packages/collaboration/src/collab/wal.ts\<close>: it stores each update, pushes
  all that are undelivered in one batch and marks them when the transport acknowledges.  Its
  methods are asynchronous, so calls and flushes in progress are values of the state, and one
  step runs one of them from one \<open>await\<close> to the next.  A store operation has three moments that
  may interleave with everything else: it is called, it takes effect, its promise is resumed
  or rejected.  What the transport and the store answer, and the clock, come with the events.
\<close>

section \<open>State\<close>

datatype failure_stage = Initialization | FlushStage
datatype failure_kind = NotAcked | PushError

text \<open>The promise of \<open>setup\<close>: called, done pruning (with the number dropped), settled.\<close>

datatype setup_status = SetupCalled | SetupPruned nat | SetupResolved | SetupRejected string

text \<open>Where an \<open>append\<close> and a \<open>doFlush\<close> are suspended.\<close>

datatype 'u append_pc =
    AppendAwaitsReady 'u nat
  | AppendAwaitsStore 'u bool \<comment> \<open>whether the store has taken the update\<close>

datatype 'u flush_pc =
    FlushAwaitsReady nat
  | FlushAwaitsEntries "'u wal_entry list option" \<comment> \<open>the entries once read\<close>
  | FlushAwaitsPush "'u wal_entry list"
  | FlushAwaitsMark "'u wal_entry list" bool \<comment> \<open>whether the store has marked them\<close>

record delivery_outage =
  startedAt :: int
  firstFailure :: failure_kind
  failedAttempts :: nat
  maxUndelivered :: nat

text \<open>
  The last four fields are history: the calls of \<open>push\<close> with whether they were acknowledged,
  every update that was undelivered in the log at some time, those dropped as expired, and
  whether the last flush failed or none ran yet.
\<close>

record ('s, 'u) syncer =
  label :: bool
  wal :: 's
  isFlushing :: bool
  hasNewPending :: bool
  reportedFailures :: "failure_stage \<rightharpoonup> string"
  reports :: "(failure_stage \<times> string) list"
  readyPromise :: "nat option"
  setups :: "setup_status list"
  appends :: "'u append_pc list"
  flushes :: "'u flush_pc list"
  deliveryOutage :: "delivery_outage option"
  pushes :: "('u list \<times> bool) list"
  logged :: "'u list"
  expired :: "'u list"
  unflushed :: bool

section \<open>Operations\<close>

definition ready :: "('s, 'u) syncer \<Rightarrow> nat \<times> ('s, 'u) syncer" where
  "ready y = (case readyPromise y of
      Some p \<Rightarrow> (p, y)
    | None \<Rightarrow> (length (setups y), y\<lparr>setups := setups y @ [SetupCalled], readyPromise := Some (length (setups y))\<rparr>))"

definition undelivered :: "('s, 'u) wal_store \<Rightarrow> 's \<Rightarrow> 'u wal_entry list" where
  "undelivered st s = filter (\<lambda>e. \<not> w_delivered e) (ws_getAll st s)"

definition syncer_new :: "('s, 'u) wal_store \<Rightarrow> bool \<Rightarrow> 's \<Rightarrow> ('s, 'u) syncer" where
  "syncer_new st lab s = snd (ready
    \<lparr>label = lab, wal = s, isFlushing = False, hasNewPending = False, reportedFailures = Map.empty,
     reports = [], readyPromise = None, setups = [], appends = [], flushes = [], deliveryOutage = None,
     pushes = [], logged = map w_update (undelivered st s), expired = [], unflushed = True\<rparr>)"

definition reportFailure :: "failure_stage \<Rightarrow> string \<Rightarrow> ('s, 'u) syncer \<Rightarrow> ('s, 'u) syncer" where
  "reportFailure stage fingerprint y =
    (if reportedFailures y stage = Some fingerprint then y
     else y\<lparr>reportedFailures := (reportedFailures y)(stage \<mapsto> fingerprint),
            reports := reports y @ [(stage, fingerprint)]\<rparr>)"

definition recordDeliveryFailure ::
  "failure_kind \<Rightarrow> nat \<Rightarrow> int \<Rightarrow> ('s, 'u) syncer \<Rightarrow> ('s, 'u) syncer" where
  "recordDeliveryFailure kind n now y =
    (if \<not> label y then y
     else case deliveryOutage y of
       Some o' \<Rightarrow> y\<lparr>deliveryOutage := Some (o'\<lparr>failedAttempts := failedAttempts o' + 1,
                                                maxUndelivered := max (maxUndelivered o') n\<rparr>)\<rparr>
     | None \<Rightarrow> y\<lparr>deliveryOutage := Some \<lparr>startedAt = now, firstFailure = kind, failedAttempts = 1,
                                           maxUndelivered = n\<rparr>\<rparr>)"

definition recordDeliveryRecovery :: "('s, 'u) syncer \<Rightarrow> ('s, 'u) syncer" where
  "recordDeliveryRecovery y =
    (if deliveryOutage y = None \<or> \<not> label y then y else y\<lparr>deliveryOutage := None\<rparr>)"

definition finishDeliveryOutage :: "('s, 'u) syncer \<Rightarrow> ('s, 'u) syncer" where
  "finishDeliveryOutage y = (if deliveryOutage y = None then y else y\<lparr>deliveryOutage := None\<rparr>)"

text \<open>\<open>doFlush\<close> up to its first \<open>await\<close>, and \<open>flush\<close>.\<close>

definition doFlush :: "('s, 'u) syncer \<Rightarrow> ('s, 'u) syncer" where
  "doFlush y =
    (let (p, y1) = ready (y\<lparr>hasNewPending := False, unflushed := False\<rparr>)
     in y1\<lparr>flushes := flushes y1 @ [FlushAwaitsReady p]\<rparr>)"

definition flush :: "('s, 'u) syncer \<Rightarrow> ('s, 'u) syncer" where
  "flush y = (if isFlushing y then y else doFlush (y\<lparr>isFlushing := True\<rparr>))"

definition drop_at :: "nat \<Rightarrow> 'a list \<Rightarrow> 'a list" where
  "drop_at i xs = take i xs @ drop (Suc i) xs"

text \<open>
  The ends of \<open>doFlush\<close>, each with the \<open>finally\<close> block and \<open>observeFlush\<close>: nothing to push, the
  push not acknowledged, all delivered (which starts over if something was appended), and
  an exception.
\<close>

definition flush_returns :: "nat \<Rightarrow> ('s, 'u) syncer \<Rightarrow> ('s, 'u) syncer" where
  "flush_returns i y =
    y\<lparr>isFlushing := False, flushes := drop_at i (flushes y),
      reportedFailures := (reportedFailures y)(FlushStage := None)\<rparr>"

definition flush_not_acked :: "nat \<Rightarrow> ('s, 'u) syncer \<Rightarrow> ('s, 'u) syncer" where
  "flush_not_acked i y = (flush_returns i y)\<lparr>unflushed := True\<rparr>"

definition flush_delivered :: "nat \<Rightarrow> ('s, 'u) syncer \<Rightarrow> ('s, 'u) syncer" where
  "flush_delivered i y =
    (if hasNewPending y
     then doFlush (y\<lparr>isFlushing := True, flushes := drop_at i (flushes y)\<rparr>)
     else flush_returns i y)"

definition flush_throws :: "nat \<Rightarrow> string \<Rightarrow> ('s, 'u) syncer \<Rightarrow> ('s, 'u) syncer" where
  "flush_throws i err y =
    reportFailure FlushStage err
      (y\<lparr>isFlushing := False, flushes := drop_at i (flushes y), unflushed := True\<rparr>)"

section \<open>Steps\<close>

datatype 'u wal_event =
    CallAppend 'u
  | CallFlush
  | CallPruneDelivered
  | CallDestroy
  | SetupPrunes nat int \<comment> \<open>promise, clock\<close>
  | SetupEnds nat
  | SetupFails nat string
  | AppendReady nat \<comment> \<open>the position of the suspended call, here and below\<close>
  | AppendStored nat int
  | AppendFails nat
  | AppendResumes nat
  | FlushReady nat
  | FlushReads nat
  | FlushReadFails nat string
  | FlushGotEntries nat
  | FlushSummaryFails nat string
  | FlushPushed nat bool int
  | FlushPushFails nat string int
  | FlushMarks nat
  | FlushMarkFails nat string
  | FlushMarked nat

definition at_flush :: "nat \<Rightarrow> ('s, 'u) syncer \<Rightarrow> 'u flush_pc option" where
  "at_flush i y = (if i < length (flushes y) then Some (flushes y ! i) else None)"

definition at_append :: "nat \<Rightarrow> ('s, 'u) syncer \<Rightarrow> 'u append_pc option" where
  "at_append i y = (if i < length (appends y) then Some (appends y ! i) else None)"

definition setup_at :: "nat \<Rightarrow> ('s, 'u) syncer \<Rightarrow> setup_status option" where
  "setup_at p y = (if p < length (setups y) then Some (setups y ! p) else None)"

text \<open>A step is \<open>None\<close> when nothing is suspended at that point.\<close>

fun wal_step :: "('s, 'u) wal_store \<Rightarrow> 'u wal_event \<Rightarrow> ('s, 'u) syncer \<Rightarrow> ('s, 'u) syncer option" where
  "wal_step st (CallAppend u) y =
     (let (p, y1) = ready y in Some (y1\<lparr>appends := appends y1 @ [AppendAwaitsReady u p]\<rparr>))"
| "wal_step st CallFlush y = Some (flush y)"
| "wal_step st CallPruneDelivered y = Some (y\<lparr>wal := ws_pruneDelivered st (wal y)\<rparr>)"
| "wal_step st CallDestroy y = Some (finishDeliveryOutage y)"
| "wal_step st (SetupPrunes p now) y =
     (case setup_at p y of
        Some SetupCalled \<Rightarrow>
          (let (deleted, s) = ws_pruneExpired st WAL_TTL_MS now (wal y)
           in Some (y\<lparr>wal := s, setups := (setups y)[p := SetupPruned deleted],
                      expired := expired y @ map w_update
                        (filter (\<lambda>e. hasExpired e (now - WAL_TTL_MS)) (ws_getAll st (wal y)))\<rparr>))
      | _ \<Rightarrow> None)"
| "wal_step st (SetupEnds p) y =
     (case setup_at p y of
        Some (SetupPruned deleted) \<Rightarrow>
          Some (y\<lparr>setups := (setups y)[p := SetupResolved],
                  reportedFailures := (reportedFailures y)(Initialization := None)\<rparr>)
      | _ \<Rightarrow> None)"
| "wal_step st (SetupFails p err) y =
     (let failed = reportFailure Initialization err
            (y\<lparr>setups := (setups y)[p := SetupRejected err],
               readyPromise := (if readyPromise y = Some p then None else readyPromise y)\<rparr>)
      in case setup_at p y of
           Some SetupCalled \<Rightarrow> Some failed
         | Some (SetupPruned deleted) \<Rightarrow> if deleted > 0 \<and> label y then Some failed else None
         | _ \<Rightarrow> None)"
| "wal_step st (AppendReady i) y =
     (case at_append i y of
        Some (AppendAwaitsReady u p) \<Rightarrow>
          (case setup_at p y of
             Some SetupResolved \<Rightarrow> Some (y\<lparr>appends := (appends y)[i := AppendAwaitsStore u False]\<rparr>)
           | Some (SetupRejected e) \<Rightarrow> Some (y\<lparr>appends := drop_at i (appends y)\<rparr>)
           | _ \<Rightarrow> None)
      | _ \<Rightarrow> None)"
| "wal_step st (AppendStored i now) y =
     (case at_append i y of
        Some (AppendAwaitsStore u False) \<Rightarrow>
          Some (y\<lparr>wal := ws_append st u now (wal y), appends := (appends y)[i := AppendAwaitsStore u True],
                  logged := logged y @ [u]\<rparr>)
      | _ \<Rightarrow> None)"
| "wal_step st (AppendFails i) y =
     (case at_append i y of
        Some (AppendAwaitsStore u taken) \<Rightarrow>
          if \<not> taken \<or> label y then Some (y\<lparr>appends := drop_at i (appends y)\<rparr>) else None
      | _ \<Rightarrow> None)"
| "wal_step st (AppendResumes i) y =
     (case at_append i y of
        Some (AppendAwaitsStore u True) \<Rightarrow>
          Some (flush (y\<lparr>appends := drop_at i (appends y), hasNewPending := True\<rparr>))
      | _ \<Rightarrow> None)"
| "wal_step st (FlushReady i) y =
     (case at_flush i y of
        Some (FlushAwaitsReady p) \<Rightarrow>
          (case setup_at p y of
             Some SetupResolved \<Rightarrow> Some (y\<lparr>flushes := (flushes y)[i := FlushAwaitsEntries None]\<rparr>)
           | Some (SetupRejected e) \<Rightarrow> Some (flush_throws i e y)
           | _ \<Rightarrow> None)
      | _ \<Rightarrow> None)"
| "wal_step st (FlushReads i) y =
     (case at_flush i y of
        Some (FlushAwaitsEntries None) \<Rightarrow>
          Some (y\<lparr>flushes := (flushes y)[i := FlushAwaitsEntries (Some (ws_getAll st (wal y)))]\<rparr>)
      | _ \<Rightarrow> None)"
| "wal_step st (FlushReadFails i err) y =
     (case at_flush i y of
        Some (FlushAwaitsEntries None) \<Rightarrow> Some (flush_throws i err y)
      | _ \<Rightarrow> None)"
| "wal_step st (FlushGotEntries i) y =
     (case at_flush i y of
        Some (FlushAwaitsEntries (Some es)) \<Rightarrow>
          (let und = filter (\<lambda>e. \<not> w_delivered e) es
           in Some (if length und = 0 then flush_returns i y
                    else y\<lparr>flushes := (flushes y)[i := FlushAwaitsPush und]\<rparr>))
      | _ \<Rightarrow> None)"
| "wal_step st (FlushSummaryFails i err) y =
     (case at_flush i y of
        Some (FlushAwaitsEntries (Some es)) \<Rightarrow>
          if label y \<and> filter (\<lambda>e. \<not> w_delivered e) es \<noteq> [] then Some (flush_throws i err y) else None
      | Some (FlushAwaitsMark es True) \<Rightarrow>
          if label y then Some (flush_throws i err (recordDeliveryRecovery y)) else None
      | _ \<Rightarrow> None)"
| "wal_step st (FlushPushed i ack now) y =
     (case at_flush i y of
        Some (FlushAwaitsPush es) \<Rightarrow>
          (let y1 = y\<lparr>pushes := pushes y @ [(map w_update es, ack)]\<rparr>
           in Some (if ack then y1\<lparr>flushes := (flushes y1)[i := FlushAwaitsMark es False]\<rparr>
                    else flush_not_acked i (recordDeliveryFailure NotAcked (length es) now y1)))
      | _ \<Rightarrow> None)"
| "wal_step st (FlushPushFails i err now) y =
     (case at_flush i y of
        Some (FlushAwaitsPush es) \<Rightarrow>
          Some (flush_throws i err (recordDeliveryFailure PushError (length es) now
            (y\<lparr>pushes := pushes y @ [(map w_update es, False)]\<rparr>)))
      | _ \<Rightarrow> None)"
| "wal_step st (FlushMarks i) y =
     (case at_flush i y of
        Some (FlushAwaitsMark es False) \<Rightarrow>
          Some (y\<lparr>wal := ws_markDelivered st (map w_id es) (wal y),
                  flushes := (flushes y)[i := FlushAwaitsMark es True]\<rparr>)
      | _ \<Rightarrow> None)"
| "wal_step st (FlushMarkFails i err) y =
     (case at_flush i y of
        Some (FlushAwaitsMark es False) \<Rightarrow> Some (flush_throws i err y)
      | _ \<Rightarrow> None)"
| "wal_step st (FlushMarked i) y =
     (case at_flush i y of
        Some (FlushAwaitsMark es True) \<Rightarrow> Some (flush_delivered i (recordDeliveryRecovery y))
      | _ \<Rightarrow> None)"

text \<open>Running a schedule; events that are not enabled do not happen.\<close>

fun wal_run :: "('s, 'u) wal_store \<Rightarrow> 'u wal_event list \<Rightarrow> ('s, 'u) syncer \<Rightarrow> ('s, 'u) syncer" where
  "wal_run st [] y = y"
| "wal_run st (ev # evs) y =
     wal_run st evs (case wal_step st ev y of None \<Rightarrow> y | Some y' \<Rightarrow> y')"

text \<open>\<open>summary\<close> reads the log only.\<close>

record wal_context =
  wc_count :: nat
  wc_dirty :: nat
  wc_mostRecentEdit :: "int option"

definition summary :: "('s, 'u) wal_store \<Rightarrow> ('s, 'u) syncer \<Rightarrow> wal_context" where
  "summary st y =
    (let und = undelivered st (wal y)
     in \<lparr>wc_count = length (ws_getAll st (wal y)), wc_dirty = length und,
         wc_mostRecentEdit = (if und = [] then None else Some (w_createdAt (last und)))\<rparr>)"

section \<open>Frame lemmas\<close>

lemma ready_fields [simp]:
  "label (snd (ready y)) = label y" "wal (snd (ready y)) = wal y" "isFlushing (snd (ready y)) = isFlushing y"
  "hasNewPending (snd (ready y)) = hasNewPending y" "appends (snd (ready y)) = appends y"
  "flushes (snd (ready y)) = flushes y" "pushes (snd (ready y)) = pushes y"
  "logged (snd (ready y)) = logged y" "expired (snd (ready y)) = expired y"
  "unflushed (snd (ready y)) = unflushed y"
  by (simp_all add: ready_def split: option.splits)

lemma quiet_fields [simp]:
  "wal (reportFailure k e y) = wal y" "wal (recordDeliveryFailure f n t y) = wal y"
  "wal (recordDeliveryRecovery y) = wal y" "wal (finishDeliveryOutage y) = wal y"
  "flushes (reportFailure k e y) = flushes y" "flushes (recordDeliveryFailure f n t y) = flushes y"
  "flushes (recordDeliveryRecovery y) = flushes y" "flushes (finishDeliveryOutage y) = flushes y"
  "isFlushing (reportFailure k e y) = isFlushing y" "isFlushing (recordDeliveryFailure f n t y) = isFlushing y"
  "isFlushing (recordDeliveryRecovery y) = isFlushing y" "isFlushing (finishDeliveryOutage y) = isFlushing y"
  "hasNewPending (reportFailure k e y) = hasNewPending y" "hasNewPending (recordDeliveryFailure f n t y) = hasNewPending y"
  "hasNewPending (recordDeliveryRecovery y) = hasNewPending y" "hasNewPending (finishDeliveryOutage y) = hasNewPending y"
  "appends (reportFailure k e y) = appends y" "appends (recordDeliveryFailure f n t y) = appends y"
  "appends (recordDeliveryRecovery y) = appends y" "appends (finishDeliveryOutage y) = appends y"
  "pushes (reportFailure k e y) = pushes y" "pushes (recordDeliveryFailure f n t y) = pushes y"
  "pushes (recordDeliveryRecovery y) = pushes y" "pushes (finishDeliveryOutage y) = pushes y"
  "logged (reportFailure k e y) = logged y" "logged (recordDeliveryFailure f n t y) = logged y"
  "logged (recordDeliveryRecovery y) = logged y" "logged (finishDeliveryOutage y) = logged y"
  "expired (reportFailure k e y) = expired y" "expired (recordDeliveryFailure f n t y) = expired y"
  "expired (recordDeliveryRecovery y) = expired y" "expired (finishDeliveryOutage y) = expired y"
  "unflushed (reportFailure k e y) = unflushed y" "unflushed (recordDeliveryFailure f n t y) = unflushed y"
  "unflushed (recordDeliveryRecovery y) = unflushed y" "unflushed (finishDeliveryOutage y) = unflushed y"
  "label (reportFailure k e y) = label y" "label (recordDeliveryFailure f n t y) = label y"
  "label (recordDeliveryRecovery y) = label y" "label (finishDeliveryOutage y) = label y"
  by (simp_all add: reportFailure_def recordDeliveryFailure_def recordDeliveryRecovery_def
      finishDeliveryOutage_def split: option.splits)

lemma doFlush_fields [simp]:
  "label (doFlush y) = label y" "wal (doFlush y) = wal y" "isFlushing (doFlush y) = isFlushing y"
  "hasNewPending (doFlush y) = False" "unflushed (doFlush y) = False" "appends (doFlush y) = appends y"
  "pushes (doFlush y) = pushes y" "logged (doFlush y) = logged y" "expired (doFlush y) = expired y"
  "\<exists>p. flushes (doFlush y) = flushes y @ [FlushAwaitsReady p]"
  "length (flushes (doFlush y)) = Suc (length (flushes y))"
  by (simp_all add: doFlush_def split_beta)

lemma flush_fields [simp]:
  "label (flush y) = label y" "wal (flush y) = wal y" "appends (flush y) = appends y"
  "pushes (flush y) = pushes y" "logged (flush y) = logged y" "expired (flush y) = expired y"
  by (simp_all add: flush_def)

text \<open>How each end of a flush leaves the fields the invariants speak about.\<close>

lemma flush_end_fields [simp]:
  "wal (flush_returns i y) = wal y" "wal (flush_not_acked i y) = wal y" "wal (flush_throws i e y) = wal y"
  "wal (flush_delivered i y) = wal y"
  "pushes (flush_returns i y) = pushes y" "pushes (flush_not_acked i y) = pushes y"
  "pushes (flush_throws i e y) = pushes y" "pushes (flush_delivered i y) = pushes y"
  "logged (flush_returns i y) = logged y" "logged (flush_not_acked i y) = logged y"
  "logged (flush_throws i e y) = logged y" "logged (flush_delivered i y) = logged y"
  "expired (flush_returns i y) = expired y" "expired (flush_not_acked i y) = expired y"
  "expired (flush_throws i e y) = expired y" "expired (flush_delivered i y) = expired y"
  "appends (flush_returns i y) = appends y" "appends (flush_not_acked i y) = appends y"
  "appends (flush_throws i e y) = appends y" "appends (flush_delivered i y) = appends y"
  "label (flush_returns i y) = label y" "label (flush_not_acked i y) = label y"
  "label (flush_throws i e y) = label y" "label (flush_delivered i y) = label y"
  "hasNewPending (flush_returns i y) = hasNewPending y" "unflushed (flush_returns i y) = unflushed y"
  "unflushed (flush_not_acked i y) = True" "unflushed (flush_throws i e y) = True"
  "flushes (flush_returns i y) = drop_at i (flushes y)" "flushes (flush_not_acked i y) = drop_at i (flushes y)"
  "flushes (flush_throws i e y) = drop_at i (flushes y)"
  by (simp_all add: flush_returns_def flush_not_acked_def flush_throws_def flush_delivered_def)

lemma set_drop_at: "set (drop_at i xs) \<subseteq> set xs"
  by (auto simp: drop_at_def dest: in_set_takeD in_set_dropD)

lemma length_drop_at: "i < length xs \<Longrightarrow> length (drop_at i xs) = length xs - 1"
  by (simp add: drop_at_def)

lemma at_flush_Some: "at_flush i y = Some f \<longleftrightarrow> i < length (flushes y) \<and> flushes y ! i = f"
  by (auto simp: at_flush_def)

lemma at_flush_cong: "flushes z = flushes y \<Longrightarrow> at_flush i z = at_flush i y"
  by (simp add: at_flush_def)

lemma at_append_Some: "at_append i y = Some f \<longleftrightarrow> i < length (appends y) \<and> appends y ! i = f"
  by (auto simp: at_append_def)

section \<open>The kinds of step\<close>

text \<open>
  Most events only move bookkeeping.  \<open>same_core\<close> says that the fields the invariants speak
  about are unchanged, apart from the suspended appends; \<open>taken\<close> that some append has stored its
  update and not yet asked for a flush.
\<close>

definition same_core :: "('s, 'u) syncer \<Rightarrow> ('s, 'u) syncer \<Rightarrow> bool" where
  "same_core y z \<longleftrightarrow> label z = label y \<and> wal z = wal y \<and> isFlushing z = isFlushing y \<and>
     hasNewPending z = hasNewPending y \<and> flushes z = flushes y \<and> pushes z = pushes y \<and>
     logged z = logged y \<and> expired z = expired y \<and> unflushed z = unflushed y"

definition taken :: "('s, 'u) syncer \<Rightarrow> bool" where
  "taken y \<longleftrightarrow> (\<exists>u. AppendAwaitsStore u True \<in> set (appends y))"

inductive wal_moves :: "('s, 'u) wal_store \<Rightarrow> ('s, 'u) syncer \<Rightarrow> ('s, 'u) syncer \<Rightarrow> bool" for st where
  quiet: "same_core y z \<Longrightarrow> (taken y \<longrightarrow> label y \<or> taken z) \<Longrightarrow> wal_moves st y z"
| flushed: "wal_moves st y (flush y)"
| pruned: "wal_moves st y (y\<lparr>wal := ws_pruneDelivered st (wal y)\<rparr>)"
| expires: "ws_pruneExpired st WAL_TTL_MS now (wal y) = (n, s) \<Longrightarrow>
    wal_moves st y (y\<lparr>wal := s, setups := ss, expired := expired y @ map w_update
      (filter (\<lambda>e. hasExpired e (now - WAL_TTL_MS)) (ws_getAll st (wal y)))\<rparr>)"
| stores: "taken z \<Longrightarrow> z = y\<lparr>wal := ws_append st u now (wal y), appends := as, logged := logged y @ [u]\<rparr> \<Longrightarrow>
    wal_moves st y z"
| resumes: "wal_moves st y (flush (y\<lparr>appends := as, hasNewPending := True\<rparr>))"
| readies: "at_flush i y = Some (FlushAwaitsReady p) \<Longrightarrow>
    wal_moves st y (y\<lparr>flushes := (flushes y)[i := FlushAwaitsEntries None]\<rparr>)"
| reads: "at_flush i y = Some (FlushAwaitsEntries None) \<Longrightarrow>
    wal_moves st y (y\<lparr>flushes := (flushes y)[i := FlushAwaitsEntries (Some (ws_getAll st (wal y)))]\<rparr>)"
| throws: "at_flush i y = Some f \<Longrightarrow> same_core (y\<lparr>pushes := pushes z\<rparr>) z \<Longrightarrow>
    pushes z = pushes y \<or> pushes z = pushes y @ [(b, False)] \<Longrightarrow> appends z = appends y \<Longrightarrow>
    wal_moves st y (flush_throws i e z)"
| returns: "at_flush i y = Some (FlushAwaitsEntries (Some es)) \<Longrightarrow> filter (\<lambda>e. \<not> w_delivered e) es = [] \<Longrightarrow>
    wal_moves st y (flush_returns i y)"
| calls_push: "at_flush i y = Some (FlushAwaitsEntries (Some es)) \<Longrightarrow>
    wal_moves st y (y\<lparr>flushes := (flushes y)[i := FlushAwaitsPush (filter (\<lambda>e. \<not> w_delivered e) es)]\<rparr>)"
| acked: "at_flush i y = Some (FlushAwaitsPush es) \<Longrightarrow>
    wal_moves st y (y\<lparr>pushes := pushes y @ [(map w_update es, True)],
      flushes := (flushes y)[i := FlushAwaitsMark es False]\<rparr>)"
| not_acked: "at_flush i y = Some f \<Longrightarrow> same_core (y\<lparr>pushes := pushes y @ [(b, False)]\<rparr>) z \<Longrightarrow>
    appends z = appends y \<Longrightarrow> wal_moves st y (flush_not_acked i z)"
| marks: "at_flush i y = Some (FlushAwaitsMark es False) \<Longrightarrow>
    wal_moves st y (y\<lparr>wal := ws_markDelivered st (map w_id es) (wal y),
      flushes := (flushes y)[i := FlushAwaitsMark es True]\<rparr>)"
| delivered: "at_flush i y = Some (FlushAwaitsMark es True) \<Longrightarrow> same_core y z \<Longrightarrow> appends z = appends y \<Longrightarrow>
    wal_moves st y (flush_delivered i z)"

lemma same_core_refl [simp]: "same_core y y"
  by (simp add: same_core_def)

lemma same_core_quiet [simp]:
  "same_core y (recordDeliveryRecovery y)" "same_core y (finishDeliveryOutage y)"
  "same_core y (recordDeliveryFailure k n t y)" "same_core y (reportFailure g e y)"
  by (simp_all add: same_core_def)

lemma taken_set:
  "at_append i y = Some a \<Longrightarrow> (\<nexists>u. a = AppendAwaitsStore u True) \<Longrightarrow> taken y \<Longrightarrow>
   taken (y\<lparr>appends := (appends y)[i := x]\<rparr>)"
proof -
  assume i: "at_append i y = Some a" "\<nexists>u. a = AppendAwaitsStore u True" and "taken y"
  then obtain u k where k: "k < length (appends y)" "appends y ! k = AppendAwaitsStore u True"
    by (auto simp: taken_def in_set_conv_nth)
  with i have "k \<noteq> i" by (auto simp: at_append_Some)
  then have "(appends y)[i := x] ! k = AppendAwaitsStore u True" using k by simp
  then show ?thesis using k(1) by (auto simp: taken_def in_set_conv_nth intro!: exI[of _ k])
qed

lemma drop_at_keeps:
  "x \<in> set xs \<Longrightarrow> i < length xs \<Longrightarrow> xs ! i \<noteq> x \<Longrightarrow> x \<in> set (drop_at i xs)"
proof -
  assume x: "x \<in> set xs" "i < length xs" "xs ! i \<noteq> x"
  then have "xs = take i xs @ xs ! i # drop (Suc i) xs" by (simp add: id_take_nth_drop)
  then have "set xs = insert (xs ! i) (set (drop_at i xs))"
    by (metis drop_at_def list.set(2) set_append Un_insert_right)
  then show ?thesis using x by auto
qed

lemma taken_drop:
  "at_append i y = Some a \<Longrightarrow> (\<nexists>u. a = AppendAwaitsStore u True) \<Longrightarrow> taken y \<Longrightarrow>
   taken (y\<lparr>appends := drop_at i (appends y)\<rparr>)"
  by (auto simp: taken_def at_append_Some intro!: drop_at_keeps)

lemma same_core_simps [simp]:
  "same_core y (y\<lparr>setups := x\<rparr>)" "same_core y (y\<lparr>appends := x2\<rparr>)"
  "same_core y (y\<lparr>setups := x, reportedFailures := x3\<rparr>)"
  "same_core y (reportFailure k e (y\<lparr>setups := x, readyPromise := x4\<rparr>))"
  "same_core y (reportFailure k e (y\<lparr>setups := x\<rparr>))"
  "same_core y (snd (ready y)\<lparr>appends := x2\<rparr>)"
  by (simp_all add: same_core_def)

lemma taken_simps [simp]:
  "taken (y\<lparr>setups := x, reportedFailures := x3\<rparr>) = taken y"
  "taken (reportFailure k e (y\<lparr>setups := x, readyPromise := x4\<rparr>)) = taken y"
  "taken (reportFailure k e (y\<lparr>setups := x\<rparr>)) = taken y"
  "taken (finishDeliveryOutage y) = taken y"
  "taken y \<Longrightarrow> taken (snd (ready y)\<lparr>appends := appends y @ as\<rparr>)"
  by (auto simp: taken_def)

lemma wal_step_moves: "wal_step st ev y = Some z \<Longrightarrow> wal_moves st y z"
proof (induction st ev y rule: wal_step.induct)
  case (5 st p now y)
  then show ?case by (auto simp: split_beta Let_def intro!: wal_moves.expires[OF prod.collapse[symmetric]]
      split: option.splits setup_status.splits)
next
  case (8 st i y)
  then show ?case
    by (auto intro!: wal_moves.quiet intro: taken_set taken_drop split: option.splits append_pc.splits setup_status.splits)
next
  case (9 st i now y)
  then show ?case
    by (auto simp: taken_def at_append_Some intro!: wal_moves.stores
        split: option.splits append_pc.splits bool.splits) (blast intro: set_update_memI)
next
  case (10 st i y)
  then show ?case
    by (auto intro!: wal_moves.quiet intro: taken_drop split: option.splits append_pc.splits if_splits)
next
  case (11 st i y)
  then show ?case by (auto intro!: wal_moves.resumes split: option.splits append_pc.splits bool.splits)
next
  case (12 st i y)
  then show ?case
    by (auto intro: wal_moves.readies wal_moves.throws[where z = y] split: option.splits flush_pc.splits setup_status.splits)
next
  case (16 st i err y)
  have "wal_moves st y (flush_throws i err z)" if "at_flush i y = Some f" "same_core y z" "appends z = appends y" for f z
    using that by (intro wal_moves.throws[where z = z]) (auto simp: same_core_def)
  then show ?case using 16
    by (auto split: option.splits flush_pc.splits bool.splits if_splits)
next
  case (17 st i ack now y)
  then show ?case
    by (auto simp: Let_def same_core_def intro: wal_moves.acked intro!: wal_moves.not_acked
        split: option.splits flush_pc.splits if_splits)
next
  case (18 st i err now y)
  then show ?case
    by (auto simp: same_core_def intro!: wal_moves.throws[where b = "map w_update _"] split: option.splits flush_pc.splits)
next
  case (21 st i y)
  then show ?case
    by (auto intro!: wal_moves.delivered split: option.splits flush_pc.splits bool.splits)
qed (auto simp: split_beta Let_def intro: wal_moves.intros split: option.splits append_pc.splits flush_pc.splits
      setup_status.splits bool.splits if_splits)

section \<open>One flush at a time\<close>

definition one_flush :: "('s, 'u) syncer \<Rightarrow> bool" where
  "one_flush y \<longleftrightarrow> length (flushes y) = (if isFlushing y then 1 else 0)"

lemma doFlush_one: "flushes y = [] \<Longrightarrow> isFlushing y \<Longrightarrow> one_flush (doFlush y)"
  by (simp add: doFlush_def one_flush_def split_beta)

lemma flush_one: "one_flush y \<Longrightarrow> one_flush (flush y)"
  by (cases "isFlushing y") (auto simp: flush_def one_flush_def intro!: doFlush_one[unfolded one_flush_def])

lemma one_flush_drop:
  "one_flush y \<Longrightarrow> at_flush i y = Some f \<Longrightarrow> drop_at i (flushes y) = []"
  by (cases "flushes y") (auto simp: one_flush_def at_flush_def drop_at_def split: if_splits)

lemma flush_ends_one:
  assumes "one_flush y" and "at_flush i y = Some f"
  shows "one_flush (flush_returns i y)" "one_flush (flush_not_acked i y)" "one_flush (flush_throws i e y)"
    "one_flush (flush_delivered i y)"
  using one_flush_drop[OF assms]
  by (auto simp: flush_returns_def flush_not_acked_def flush_throws_def flush_delivered_def one_flush_def
      intro!: doFlush_one[unfolded one_flush_def])

lemma one_flush_cong:
  "flushes y' = flushes y \<Longrightarrow> isFlushing y' = isFlushing y \<Longrightarrow> one_flush y' = one_flush y"
  by (simp add: one_flush_def)


lemma same_core_one: "same_core y z \<Longrightarrow> one_flush z = one_flush y"
  by (simp add: same_core_def one_flush_def)

lemma wal_moves_one:
  assumes "wal_moves st y z" and "one_flush y"
  shows "one_flush z"
  using assms
proof (cases rule: wal_moves.cases)
  case (throws i f z' b e)
  then have "one_flush z'" "at_flush i z' = Some f"
    using assms(2) one_flush_cong[of z' y] at_flush_cong[of z' y i] by (simp_all add: same_core_def)
  then show ?thesis using throws(1) flush_ends_one by blast
next
  case (not_acked i f b z')
  then have "one_flush z'" "at_flush i z' = Some f"
    using assms(2) one_flush_cong[of z' y] at_flush_cong[of z' y i] by (simp_all add: same_core_def)
  then show ?thesis using not_acked(1) flush_ends_one by blast
next
  case (delivered i es z')
  then have "one_flush z'" "at_flush i z' = Some (FlushAwaitsMark es True)"
    using assms(2) one_flush_cong[of z' y] at_flush_cong[of z' y i] by (simp_all add: same_core_def)
  then show ?thesis using delivered(1) flush_ends_one by blast
next
  case (returns i es)
  then show ?thesis using flush_ends_one(1)[OF assms(2) returns(2)] by simp
next
  case (resumes as)
  then show ?thesis using flush_one[of "y\<lparr>appends := as, hasNewPending := True\<rparr>"] assms(2)
    by (simp add: one_flush_def)
next
  case quiet
  then show ?thesis using assms(2) same_core_one by blast
next
  case flushed
  then show ?thesis using flush_one[OF assms(2)] by simp
qed (use assms(2) in \<open>auto simp: one_flush_def\<close>)

section \<open>Nothing is lost\<close>

fun batch_of :: "'u flush_pc \<Rightarrow> 'u wal_entry list" where
  "batch_of (FlushAwaitsReady p) = []"
| "batch_of (FlushAwaitsEntries None) = []"
| "batch_of (FlushAwaitsEntries (Some es)) = es"
| "batch_of (FlushAwaitsPush es) = es"
| "batch_of (FlushAwaitsMark es b) = es"

definition settled :: "('s, 'u) syncer \<Rightarrow> 'u \<Rightarrow> bool" where
  "settled y u \<longleftrightarrow> (\<exists>b. (b, True) \<in> set (pushes y) \<and> u \<in> set b) \<or> u \<in> set (expired y)"

context wal_store_laws
begin

text \<open>An entry a flush works on is the entry the log has under that id, if it still has one.\<close>

definition current :: "'s \<Rightarrow> 'u wal_entry list \<Rightarrow> bool" where
  "current s es \<longleftrightarrow> (\<forall>x \<in> set es. w_id x < nextId s \<and>
     (\<forall>e \<in> set (ws_getAll st s). w_id e = w_id x \<longrightarrow> w_update e = w_update x))"

definition wal_inv :: "('s, 'u) syncer \<Rightarrow> bool" where
  "wal_inv y \<longleftrightarrow> sinv (wal y) \<and>
     (\<forall>f \<in> set (flushes y). current (wal y) (batch_of f) \<and>
        (\<forall>es b. f = FlushAwaitsMark es b \<longrightarrow> (map w_update es, True) \<in> set (pushes y))) \<and>
     (\<forall>u \<in> set (logged y). (\<exists>e \<in> set (ws_getAll st (wal y)). w_update e = u \<and> \<not> w_delivered e) \<or> settled y u)"

lemma current_filter: "current s es \<Longrightarrow> current s (filter P es)"
  by (auto simp: current_def)

lemma current_all: "sinv s \<Longrightarrow> current s (ws_getAll st s)"
  using below ids[of s] by (auto simp: current_def distinct_map dest: inj_onD)

lemma current_append: "sinv s \<Longrightarrow> current s es \<Longrightarrow> current (ws_append st u now s) es"
  by (auto simp: current_def append nextId)

lemma current_mark: "sinv s \<Longrightarrow> current s es \<Longrightarrow> current (ws_markDelivered st is s) es"
  by (auto simp: current_def markDelivered nextId)

lemma current_prune:
  "sinv s \<Longrightarrow> current s es \<Longrightarrow> current (ws_pruneDelivered st s) es"
  "sinv s \<Longrightarrow> ws_pruneExpired st ttl now s = (n, s') \<Longrightarrow> current s es \<Longrightarrow> current s' es"
  using nextId(4)[of ttl now s] by (auto simp: current_def pruneDelivered nextId dest!: pruneExpired)

lemma settled_push [simp]: "settled (y\<lparr>flushes := f\<rparr>) u = settled y u"
  by (simp add: settled_def)

lemma wal_inv_mono:
  assumes "wal_inv y" and "wal z = wal y" and "set (pushes y) \<subseteq> set (pushes z)" and "expired z = expired y"
    and "logged z = logged y"
    and "\<And>f. f \<in> set (flushes z) \<Longrightarrow> f \<in> set (flushes y) \<or>
      current (wal y) (batch_of f) \<and> (\<forall>es b. f = FlushAwaitsMark es b \<longrightarrow> (map w_update es, True) \<in> set (pushes z))"
  shows "wal_inv z"
proof -
  have "settled y u \<Longrightarrow> settled z u" for u using assms(3,4) by (auto simp: settled_def)
  then have "\<forall>u \<in> set (logged z). (\<exists>e \<in> set (ws_getAll st (wal z)). w_update e = u \<and> \<not> w_delivered e) \<or> settled z u"
    using assms(1,2,5) by (auto simp: wal_inv_def)
  moreover have "current (wal z) (batch_of f) \<and>
      (\<forall>es b. f = FlushAwaitsMark es b \<longrightarrow> (map w_update es, True) \<in> set (pushes z))" if "f \<in> set (flushes z)" for f
    using assms(6)[OF that] assms(1,2,3) by (auto simp: wal_inv_def)
  ultimately show ?thesis using assms(1,2) by (simp add: wal_inv_def)
qed

lemma current_Nil [simp]: "current s []"
  by (simp add: current_def)

lemma in_update: "f \<in> set (xs[i := x]) \<Longrightarrow> f = x \<or> f \<in> set xs"
  by (meson insertE set_update_subset_insert subsetD)

lemma at_flush_batch: "wal_inv y \<Longrightarrow> at_flush i y = Some f \<Longrightarrow> current (wal y) (batch_of f)"
  by (auto simp: wal_inv_def at_flush_Some)

lemma wal_inv_doFlush: "wal_inv y \<Longrightarrow> wal_inv (doFlush y)"
proof -
  assume inv: "wal_inv y"
  obtain p where "flushes (doFlush y) = flushes y @ [FlushAwaitsReady p]" using doFlush_fields(10) by blast
  with inv show ?thesis by (intro wal_inv_mono[OF inv]) auto
qed

lemma wal_inv_cong:
  "wal_inv y \<Longrightarrow> wal z = wal y \<Longrightarrow> pushes z = pushes y \<Longrightarrow> expired z = expired y \<Longrightarrow> logged z = logged y \<Longrightarrow>
   set (flushes z) \<subseteq> set (flushes y) \<Longrightarrow> wal_inv z"
  by (rule wal_inv_mono) auto

lemma wal_inv_flush: "wal_inv y \<Longrightarrow> wal_inv (flush y)"
  unfolding flush_def by (auto intro!: wal_inv_doFlush intro: wal_inv_cong)

lemma wal_inv_step_flush:
  assumes "wal_inv y" and "current (wal y) (batch_of f)" and "\<And>es b. f \<noteq> FlushAwaitsMark es b"
  shows "wal_inv (y\<lparr>flushes := (flushes y)[i := f]\<rparr>)"
  using assms by (intro wal_inv_mono[OF assms(1)]) (auto dest: in_update)

lemma wal_inv_drop:
  "wal_inv y \<Longrightarrow> wal z = wal y \<Longrightarrow> set (pushes y) \<subseteq> set (pushes z) \<Longrightarrow> expired z = expired y \<Longrightarrow>
   logged z = logged y \<Longrightarrow> flushes z = drop_at i (flushes y) \<Longrightarrow> wal_inv z"
  by (rule wal_inv_mono) (use set_drop_at in force)+

lemma wal_inv_wal:
  assumes "wal_inv y" and "sinv s" and "\<And>es. current (wal y) es \<Longrightarrow> current s es"
    and "\<And>e. e \<in> set (ws_getAll st (wal y)) \<Longrightarrow> \<not> w_delivered e \<Longrightarrow>
      (\<exists>x \<in> set (ws_getAll st s). w_update x = w_update e \<and> \<not> w_delivered x) \<or> settled z (w_update e)"
    and "wal z = s" and "pushes z = pushes y" and "set (expired y) \<subseteq> set (expired z)" and "logged z = logged y"
    and "set (flushes z) \<subseteq> set (flushes y)"
  shows "wal_inv z"
proof -
  have "settled y u \<Longrightarrow> settled z u" for u using assms(6,7) by (auto simp: settled_def)
  moreover have "(\<exists>e \<in> set (ws_getAll st (wal y)). w_update e = u \<and> \<not> w_delivered e) \<or> settled y u"
    if "u \<in> set (logged z)" for u using assms(1,8) that by (simp add: wal_inv_def)
  ultimately have "\<forall>u \<in> set (logged z). (\<exists>e \<in> set (ws_getAll st s). w_update e = u \<and> \<not> w_delivered e) \<or> settled z u"
    using assms(4) by blast
  moreover have "current s (batch_of f) \<and>
      (\<forall>es b. f = FlushAwaitsMark es b \<longrightarrow> (map w_update es, True) \<in> set (pushes z))" if "f \<in> set (flushes z)" for f
    using assms(1,3,6,9) that by (auto simp: wal_inv_def)
  ultimately show ?thesis using assms(2,5) by (simp add: wal_inv_def)
qed

lemma wal_inv_mark:
  assumes "wal_inv y" and "at_flush i y = Some (FlushAwaitsMark es False)"
  shows "wal_inv (y\<lparr>wal := ws_markDelivered st (map w_id es) (wal y), flushes := (flushes y)[i := FlushAwaitsMark es True]\<rparr>)"
proof -
  let ?s = "ws_markDelivered st (map w_id es) (wal y)"
  have f: "FlushAwaitsMark es False \<in> set (flushes y)"
    using assms(2) nth_mem[of i "flushes y"] by (simp add: at_flush_Some)
  have s: "sinv (wal y)" "current (wal y) es" "(map w_update es, True) \<in> set (pushes y)"
    using assms(1) f at_flush_batch[OF assms] by (auto simp: wal_inv_def)
  have "wal_inv (y\<lparr>wal := ?s\<rparr>)"
  proof (rule wal_inv_wal[OF assms(1)])
    fix e assume e: "e \<in> set (ws_getAll st (wal y))" "\<not> w_delivered e"
    show "(\<exists>x \<in> set (ws_getAll st ?s). w_update x = w_update e \<and> \<not> w_delivered x) \<or> settled (y\<lparr>wal := ?s\<rparr>) (w_update e)"
    proof (cases "w_id e \<in> w_id ` set es")
      case True
      then obtain x where "x \<in> set es" "w_id e = w_id x" by auto
      then have "w_update e \<in> set (map w_update es)" using s(2) e(1) by (auto simp: current_def)
      then show ?thesis using s(3) by (auto simp: settled_def)
    next
      case False
      then show ?thesis using e by (auto simp: markDelivered[OF s(1)] intro!: bexI[of _ e])
    qed
  qed (use s(1) in \<open>auto simp: inv intro: current_mark\<close>)
  then show ?thesis
    by (rule wal_inv_mono) (use s in \<open>auto simp: current_mark dest!: in_update\<close>)
qed

lemma wal_moves_inv:
  assumes "wal_moves st y z" and w: "wal_inv y"
  shows "wal_inv z"
  using assms(1)
proof (cases rule: wal_moves.cases)
  case quiet
  then show ?thesis by (intro wal_inv_cong[OF w]) (auto simp: same_core_def)
next
  case flushed
  then show ?thesis using wal_inv_flush[OF w] by simp
next
  case pruned
  have "sinv (wal y)" using w by (simp add: wal_inv_def)
  then show ?thesis
    by (intro wal_inv_wal[OF w, of "ws_pruneDelivered st (wal y)"])
      (auto simp: pruned pruneDelivered inv current_prune)
next
  case (expires now n s ss)
  have s: "sinv (wal y)" using w by (simp add: wal_inv_def)
  have "sinv s" using inv(4)[OF s, of WAL_TTL_MS now] expires(2) by simp
  moreover have "ws_getAll st s = filter (\<lambda>e. \<not> hasExpired e (now - WAL_TTL_MS)) (ws_getAll st (wal y))"
    using pruneExpired[OF s expires(2)] by simp
  ultimately show ?thesis
    by (intro wal_inv_wal[OF w, of s])
      (auto simp: expires(1) settled_def intro: current_prune(2)[OF s expires(2)])
next
  case (stores u as now)
  have s: "sinv (wal y)" using w by (simp add: wal_inv_def)
  have "wal_inv (y\<lparr>wal := ws_append st u now (wal y)\<rparr>)"
    using s by (intro wal_inv_wal[OF w]) (auto simp: append inv current_append)
  then show ?thesis
    using s by (auto simp: stores(2) wal_inv_def settled_def append)
next
  case (resumes as)
  have "wal_inv (y\<lparr>appends := as, hasNewPending := True\<rparr>)" by (rule wal_inv_cong[OF w]) auto
  then show ?thesis using wal_inv_flush resumes by simp
next
  case (readies i p)
  then show ?thesis using wal_inv_step_flush[OF w] by simp
next
  case (reads i)
  have "current (wal y) (ws_getAll st (wal y))" using w by (intro current_all) (simp add: wal_inv_def)
  then show ?thesis using wal_inv_step_flush[OF w, of "FlushAwaitsEntries (Some (ws_getAll st (wal y)))"] reads by simp
next
  case (throws i f z' b e)
  then show ?thesis by (intro wal_inv_drop[OF w, of _ i]) (auto simp: same_core_def)
next
  case (returns i es)
  then show ?thesis by (intro wal_inv_drop[OF w, of _ i]) auto
next
  case (calls_push i es)
  then show ?thesis using wal_inv_step_flush[OF w, of "FlushAwaitsPush (filter (\<lambda>e. \<not> w_delivered e) es)"]
      at_flush_batch[OF w calls_push(2)] current_filter by simp
next
  case (acked i es)
  then show ?thesis using at_flush_batch[OF w acked(2)]
    by (intro wal_inv_mono[OF w]) (auto dest!: in_update)
next
  case (not_acked i f b z')
  then show ?thesis by (intro wal_inv_drop[OF w, of _ i]) (auto simp: same_core_def)
next
  case (marks i es)
  then show ?thesis using wal_inv_mark[OF w] by simp
next
  case (delivered i es z')
  then have z': "wal_inv (z'\<lparr>isFlushing := True, flushes := drop_at i (flushes z')\<rparr>)" "wal_inv (flush_returns i z')"
    by (auto intro!: wal_inv_drop[OF w, of _ i] simp: same_core_def)
  then show ?thesis using delivered(1) wal_inv_doFlush[OF z'(1)] by (simp add: flush_delivered_def)
qed

lemma wal_step_inv: "wal_inv y \<Longrightarrow> wal_step st ev y = Some z \<Longrightarrow> wal_inv z"
  using wal_moves_inv wal_step_moves by blast

lemma wal_run_inv: "wal_inv y \<Longrightarrow> wal_inv (wal_run st evs y)"
  by (induction evs arbitrary: y) (auto split: option.splits intro: wal_step_inv)

lemma syncer_new_inv: "sinv s \<Longrightarrow> wal_inv (syncer_new st lab s)"
  by (auto simp: syncer_new_def wal_inv_def undelivered_def)

end

end
