(* ===== verification/Wal_Properties.thy ===== *)
theory Wal_Properties
  imports Wal_Syncer
begin

text \<open>
  What the write-ahead log promises whatever the order in which calls, the store and the
  transport take their turns: no update is lost, nothing is marked that was not acknowledged,
  one flush runs at a time, and when everything is quiet nothing is left unsent, with one
  exception that is shown to be reachable.
\<close>

section \<open>Coverage of undelivered entries\<close>

text \<open>A flush that is going to send the entry, or has it in its batch.\<close>

fun covers :: "'u flush_pc \<Rightarrow> 'u wal_entry \<Rightarrow> bool" where
  "covers (FlushAwaitsReady p) e \<longleftrightarrow> True"
| "covers (FlushAwaitsEntries None) e \<longleftrightarrow> True"
| "covers (FlushAwaitsEntries (Some es)) e \<longleftrightarrow> w_id e \<in> w_id ` {x \<in> set es. \<not> w_delivered x}"
| "covers (FlushAwaitsPush es) e \<longleftrightarrow> w_id e \<in> w_id ` set es"
| "covers (FlushAwaitsMark es done) e \<longleftrightarrow> \<not> done \<and> w_id e \<in> w_id ` set es"

definition taken_with :: "'u \<Rightarrow> ('s, 'u) syncer \<Rightarrow> bool" where
  "taken_with u y \<longleftrightarrow> AppendAwaitsStore u True \<in> set (appends y)"

definition covered :: "('s, 'u) syncer \<Rightarrow> 'u wal_entry \<Rightarrow> bool" where
  "covered y e \<longleftrightarrow> hasNewPending y \<or> unflushed y \<or> taken_with (w_update e) y \<or> (\<exists>f \<in> set (flushes y). covers f e)"

text \<open>The updates whose append failed after the store had taken them: with a label, the summary for the log line can fail.\<close>

fun failed_after_storing :: "'u wal_event \<Rightarrow> ('s, 'u) syncer \<Rightarrow> 'u list" where
  "failed_after_storing (AppendFails i) y =
     (case at_append i y of Some (AppendAwaitsStore u True) \<Rightarrow> if label y then [u] else [] | _ \<Rightarrow> [])"
| "failed_after_storing _ y = []"

fun stranded :: "('s, 'u) wal_store \<Rightarrow> 'u wal_event list \<Rightarrow> ('s, 'u) syncer \<Rightarrow> 'u list" where
  "stranded st [] y = []"
| "stranded st (ev # evs) y =
     failed_after_storing ev y @ stranded st evs (case wal_step st ev y of None \<Rightarrow> y | Some z \<Rightarrow> z)"

text \<open>Every undelivered entry is covered, except for updates in \<open>S\<close>.\<close>

definition all_covered :: "'u set \<Rightarrow> ('s, 'u) wal_store \<Rightarrow> ('s, 'u) syncer \<Rightarrow> bool" where
  "all_covered S st y \<longleftrightarrow> (\<forall>e \<in> set (undelivered st (wal y)). covered y e \<or> w_update e \<in> S)"

text \<open>What a step does to the appends that have stored their update.\<close>

lemma taken_with_appends: "appends z = appends y \<Longrightarrow> taken_with u z = taken_with u y"
  by (simp add: taken_with_def)

lemma taken_with_flush: "hasNewPending (flush y) \<or> (\<exists>p. FlushAwaitsReady p \<in> set (flushes (flush y)))" if "hasNewPending y"
proof (cases "isFlushing y")
  case False
  obtain p where "flushes (doFlush (y\<lparr>isFlushing := True\<rparr>)) = flushes (y\<lparr>isFlushing := True\<rparr>) @ [FlushAwaitsReady p]"
    using doFlush_fields(10) by blast
  then show ?thesis using False by (auto simp: flush_def)
qed (use that in \<open>simp add: flush_def\<close>)

lemma taken_with_step:
  assumes "wal_step st ev y = Some z" and "taken_with u y"
  shows "taken_with u z \<or> u \<in> set (failed_after_storing ev y) \<or> hasNewPending z \<or> (\<exists>p. FlushAwaitsReady p \<in> set (flushes z))"
proof (cases ev)
  case (CallAppend v)
  then show ?thesis using assms by (auto simp: taken_with_def split_beta Let_def)
next
  case (AppendReady i)
  then obtain v p where i: "at_append i y = Some (AppendAwaitsReady v p)"
    using assms(1) by (auto split: option.splits append_pc.splits)
  have "AppendAwaitsStore u True \<in> set (drop_at i (appends y))" "AppendAwaitsStore u True \<in> set ((appends y)[i := x])" for x
    using assms(2) i drop_at_keeps[of "AppendAwaitsStore u True" "appends y" i] in_set_update[of "AppendAwaitsStore u True" "appends y" i x]
    by (auto simp: taken_with_def at_append_Some)
  then show ?thesis using AppendReady assms(1) i by (auto simp: taken_with_def split: option.splits setup_status.splits)
next
  case (AppendStored i now)
  then obtain v where i: "at_append i y = Some (AppendAwaitsStore v False)"
    using assms(1) by (auto split: option.splits append_pc.splits bool.splits)
  have "AppendAwaitsStore u True \<in> set ((appends y)[i := x])" for x
    using assms(2) i in_set_update[of "AppendAwaitsStore u True" "appends y" i x] by (auto simp: taken_with_def at_append_Some)
  then show ?thesis using AppendStored assms(1) i by (auto simp: taken_with_def)
next
  case (AppendFails i)
  then obtain v t where i: "at_append i y = Some (AppendAwaitsStore v t)" "\<not> t \<or> label y" "z = y\<lparr>appends := drop_at i (appends y)\<rparr>"
    using assms(1) by (auto split: option.splits append_pc.splits if_splits)
  show ?thesis
  proof (cases "t \<and> v = u")
    case True
    then show ?thesis using AppendFails i by simp
  next
    case False
    then show ?thesis using assms(2) i drop_at_keeps[of "AppendAwaitsStore u True" "appends y" i]
      by (auto simp: taken_with_def at_append_Some)
  qed
next
  case (AppendResumes i)
  then show ?thesis using assms(1) taken_with_flush[of "y\<lparr>appends := drop_at i (appends y), hasNewPending := True\<rparr>"]
    by (auto split: option.splits append_pc.splits bool.splits)
qed (use assms in \<open>auto simp: taken_with_def split_beta Let_def split: option.splits setup_status.splits flush_pc.splits bool.splits if_splits\<close>)

lemma stored_is_taken: "wal_step st ev y = Some z \<Longrightarrow> logged z = logged y @ [u] \<Longrightarrow> taken_with u z"
  by (cases ev) (auto simp: taken_with_def split_beta Let_def at_append_Some set_update_memI
      split: option.splits setup_status.splits append_pc.splits flush_pc.splits bool.splits if_splits)

lemma covered_doFlush: "covered (doFlush y) e"
proof -
  obtain p where "flushes (doFlush y) = flushes y @ [FlushAwaitsReady p]" using doFlush_fields(10) by blast
  then show ?thesis by (auto simp: covered_def)
qed

lemma covered_update:
  assumes "one_flush y" and "at_flush i y = Some f" and "covered y e" and "covers f e \<Longrightarrow> covers g e"
    and "hasNewPending z = hasNewPending y" and "unflushed z = unflushed y" and "appends z = appends y"
    and "flushes z = (flushes y)[i := g]"
  shows "covered z e"
proof -
  have "flushes y = [f]" "i = 0"
    using assms(1,2) by (auto simp: one_flush_def at_flush_Some length_Suc_conv split: if_splits)
  then show ?thesis using assms by (auto simp: covered_def taken_with_def)
qed

lemma covered_return:
  assumes "one_flush y" and "at_flush i y = Some f" and "covered y e" and "\<not> covers f e"
    and "hasNewPending z = hasNewPending y" and "unflushed z = unflushed y" and "appends z = appends y"
  shows "covered z e"
proof -
  have "flushes y = [f]"
    using assms(1,2) by (auto simp: one_flush_def at_flush_Some length_Suc_conv split: if_splits)
  then show ?thesis using assms by (auto simp: covered_def taken_with_def)
qed

context wal_store_laws
begin

lemma undelivered_mark:
  "sinv s \<Longrightarrow> e \<in> set (undelivered st (ws_markDelivered st is s)) \<Longrightarrow> e \<in> set (undelivered st s) \<and> w_id e \<notin> set is"
  by (auto simp: undelivered_def markDelivered mark_def split: if_splits)

lemma wal_moves_covered:
  assumes "wal_moves st y z" and one: "one_flush y" and w: "wal_inv y" and c: "all_covered S st y"
    and kept: "\<And>u. taken_with u y \<Longrightarrow> taken_with u z \<or> u \<in> L \<or> hasNewPending z \<or> (\<exists>p. FlushAwaitsReady p \<in> set (flushes z))"
    and stored: "\<And>u. logged z = logged y @ [u] \<Longrightarrow> taken_with u z"
  shows "all_covered (S \<union> L) st z"
proof -
  have taken: "covered z e \<or> w_update e \<in> L" if "taken_with (w_update e) y" for e
    using kept[OF that] covers.simps(1) unfolding covered_def by blast
  show ?thesis
  using assms(1)
proof (cases rule: wal_moves.cases)
  case quiet
  have "covered y e \<Longrightarrow> covered z e \<or> w_update e \<in> L" for e
    using quiet taken[of e] by (auto simp: covered_def same_core_def)
  then show ?thesis using c quiet unfolding all_covered_def same_core_def by (metis UnCI)
next
  case flushed
  have "covered y e \<Longrightarrow> covered (flush y) e" for e by (simp add: flush_def covered_doFlush)
  moreover have "wal z = wal y" "z = flush y" using flushed by simp_all
  ultimately show ?thesis using c unfolding all_covered_def by auto
next
  case pruned
  have "sinv (wal y)" using w by (simp add: wal_inv_def)
  then show ?thesis using c pruned by (auto simp: all_covered_def undelivered_def covered_def taken_with_def pruneDelivered)
next
  case (expires now n s ss)
  have "sinv (wal y)" using w by (simp add: wal_inv_def)
  from pruneExpired[OF this expires(2)] show ?thesis
    using c expires(1) by (auto simp: all_covered_def undelivered_def covered_def taken_with_def)
next
  case (stores u as now)
  have s: "sinv (wal y)" using w by (simp add: wal_inv_def)
  have "taken_with u z" by (rule stored) (use stores in simp)
  show ?thesis
    unfolding all_covered_def
  proof
    fix e assume "e \<in> set (undelivered st (wal z))"
    then have "w_update e = u \<or> e \<in> set (undelivered st (wal y))" using stores(2) append[OF s] by (auto simp: undelivered_def)
    then show "covered z e \<or> w_update e \<in> S \<union> L"
    proof
      assume "e \<in> set (undelivered st (wal y))"
      then have "covered y e \<or> w_update e \<in> S" using c by (simp add: all_covered_def)
      then show ?thesis using taken[of e] stores(2) by (auto simp: covered_def)
    qed (use \<open>taken_with u z\<close> in \<open>simp add: covered_def\<close>)
  qed
next
  case (resumes as)
  have "covered (flush (y\<lparr>appends := as, hasNewPending := True\<rparr>)) e" for e
    by (simp add: flush_def covered_doFlush) (simp add: covered_def)
  then show ?thesis using resumes by (simp add: all_covered_def)
next
  case (readies i p)
  then show ?thesis using c covered_update[OF one readies(2), of _ "FlushAwaitsEntries None" z]
    by (auto simp: all_covered_def)
next
  case (reads i)
  show ?thesis
    unfolding all_covered_def
  proof
    fix e assume "e \<in> set (undelivered st (wal z))"
    then have e: "e \<in> set (undelivered st (wal y))" using reads by simp
    then have "covers (FlushAwaitsEntries (Some (ws_getAll st (wal y)))) e" by (auto simp: undelivered_def)
    with e show "covered z e \<or> w_update e \<in> S \<union> L"
      using c covered_update[OF one reads(2), of e "FlushAwaitsEntries (Some (ws_getAll st (wal y)))" z] reads(1)
      unfolding all_covered_def by auto
  qed
next
  case (throws i f z' b e)
  then show ?thesis by (simp add: all_covered_def covered_def)
next
  case (returns i es)
  then have "covered y e \<Longrightarrow> covered z e" for e
    using covered_return[OF one returns(2), of e z] by (auto simp: filter_empty_conv)
  then show ?thesis using c returns by (auto simp: all_covered_def)
next
  case (calls_push i es)
  then have "covered y e \<Longrightarrow> covered z e" for e
    using covered_update[OF one calls_push(2), of e "FlushAwaitsPush (filter (\<lambda>e. \<not> w_delivered e) es)" z] by auto
  then show ?thesis using c calls_push by (auto simp: all_covered_def)
next
  case (acked i es)
  then have "covered y e \<Longrightarrow> covered z e" for e
    using covered_update[OF one acked(2), of e "FlushAwaitsMark es False" z] by auto
  then show ?thesis using c acked by (auto simp: all_covered_def)
next
  case (not_acked i f b z')
  then show ?thesis by (simp add: all_covered_def covered_def)
next
  case (marks i es)
  have s: "sinv (wal y)" using w by (simp add: wal_inv_def)
  show ?thesis
    unfolding all_covered_def
  proof
    fix e assume "e \<in> set (undelivered st (wal z))"
    then have e: "e \<in> set (undelivered st (wal y))" "w_id e \<notin> w_id ` set es"
      using undelivered_mark[OF s, of e "map w_id es"] marks(1) by auto
    then show "covered z e \<or> w_update e \<in> S \<union> L"
      using c covered_update[OF one marks(2), of e "FlushAwaitsMark es True" z] marks(1) unfolding all_covered_def by auto
  qed
next
  case (delivered i es z')
  show ?thesis
  proof (cases "hasNewPending z'")
    case True
    then show ?thesis using delivered(1) by (simp add: all_covered_def flush_delivered_def covered_doFlush)
  next
    case False
    then have "covered y e \<Longrightarrow> covered z e" for e
      using covered_return[OF one delivered(2), of e z] delivered by (auto simp: flush_delivered_def same_core_def)
    then show ?thesis using c delivered by (auto simp: all_covered_def same_core_def)
  qed
qed
qed

lemma label_step: "wal_moves st y z \<Longrightarrow> label z = label y"
  by (cases rule: wal_moves.cases) (auto simp: same_core_def)

definition quiet_inv :: "'u set \<Rightarrow> ('s, 'u) syncer \<Rightarrow> bool" where
  "quiet_inv S y \<longleftrightarrow> wal_inv y \<and> one_flush y \<and> all_covered S st y"

lemma wal_step_quiet:
  assumes "quiet_inv S y" and "wal_step st ev y = Some z"
  shows "quiet_inv (S \<union> set (failed_after_storing ev y)) z"
proof -
  note y = assms(1)[unfolded quiet_inv_def]
  have "all_covered (S \<union> set (failed_after_storing ev y)) st z"
    by (rule wal_moves_covered[OF wal_step_moves[OF assms(2)]])
      (use y taken_with_step[OF assms(2)] stored_is_taken[OF assms(2)] in auto)
  then show ?thesis using y wal_moves_inv wal_moves_one wal_step_moves[OF assms(2)] unfolding quiet_inv_def by blast
qed

lemma not_taken_not_failed: "wal_step st ev y = None \<Longrightarrow> failed_after_storing ev y = []"
  by (cases ev) (auto split: option.splits append_pc.splits bool.splits if_splits)

lemma wal_run_quiet: "quiet_inv S y \<Longrightarrow> quiet_inv (S \<union> set (stranded st evs y)) (wal_run st evs y)"
proof (induction evs arbitrary: S y)
  case (Cons ev evs)
  show ?case
  proof (cases "wal_step st ev y")
    case None
    then show ?thesis using Cons not_taken_not_failed[OF None] by simp
  next
    case (Some z)
    show ?thesis using Cons.IH[OF wal_step_quiet[OF Cons.prems Some]] Some by (simp add: Un_assoc)
  qed
qed simp

lemma wal_run_label: "label (wal_run st evs y) = label y"
  by (induction evs arbitrary: y) (auto split: option.splits dest!: wal_step_moves label_step)

lemma stranded_unlabelled: "\<not> label y \<Longrightarrow> stranded st evs y = []"
proof (induction evs arbitrary: y)
  case (Cons ev evs)
  have "failed_after_storing ev y = []" using Cons.prems by (cases ev) (auto split: option.splits append_pc.splits bool.splits)
  moreover have "\<not> label z" if "wal_step st ev y = Some z" for z
    using label_step[OF wal_step_moves[OF that]] Cons.prems by simp
  ultimately show ?case using Cons by (simp split: option.splits)
qed simp

lemma syncer_new_quiet: "sinv s \<Longrightarrow> quiet_inv {} (syncer_new st lab s)"
  using syncer_new_inv[of s lab]
  by (auto simp: quiet_inv_def all_covered_def covered_def one_flush_def syncer_new_def)

end

section \<open>What the log promises\<close>

lemma getAll_browser [simp]: "ws_getAll (browser_wal_store scopeId) = bw_getAll scopeId"
  by (simp add: browser_wal_store_def)

lemma label_new [simp]: "label (syncer_new st lab s) = lab"
  by (simp add: syncer_new_def)

text \<open>
  C32.  No update is lost.  For any schedule of calls, store and transport, with any failures:
  every update that was ever in the log undelivered is still there undelivered, or was in a
  batch the transport acknowledged, or was dropped for its age by the start-up pruning.
\<close>

theorem wal_loses_nothing:
  assumes "idb_inv db" and "y = wal_run (browser_wal_store scopeId) evs (syncer_new (browser_wal_store scopeId) lab db)"
    and "u \<in> set (logged y)"
  shows "(\<exists>e \<in> set (bw_getAll scopeId (wal y)). w_update e = u \<and> \<not> w_delivered e) \<or>
         (\<exists>b. (b, True) \<in> set (pushes y) \<and> u \<in> set b) \<or> u \<in> set (expired y)"
proof -
  have "bw.wal_inv scopeId y" unfolding assms(2) by (intro bw.wal_run_inv bw.syncer_new_inv assms(1))
  then show ?thesis using assms(3) by (auto simp: bw.wal_inv_def settled_def)
qed

definition wal_witness_events :: "nat wal_event list" where
  "wal_witness_events = [CallAppend 7, SetupPrunes 0 1000, SetupEnds 0, AppendReady 0, AppendStored 0 1000]"

definition empty_db :: "nat idb" where
  "empty_db = \<lparr>rows = [], next_key = 1\<rparr>"

lemma empty_db_inv: "idb_inv empty_db"
  by (simp add: empty_db_def idb_inv_def)

lemmas wal_run_simps = wal_witness_events_def syncer_new_def ready_def empty_db_def setup_at_def at_append_def
  at_flush_def browser_wal_store_def bw_pruneExpired_def bw_getAll_def row_add_def undelivered_def
  flush_def doFlush_def drop_at_def flush_returns_def Let_def

theorem wal_loses_nothing_witness:
  "\<exists>e \<in> set (bw_getAll ''d'' (wal (wal_run (browser_wal_store ''d'') wal_witness_events
     (syncer_new (browser_wal_store ''d'') False empty_db)))). w_update e = 7 \<and> \<not> w_delivered e"
proof -
  let ?y = "wal_run (browser_wal_store ''d'') wal_witness_events (syncer_new (browser_wal_store ''d'') False empty_db)"
  have "7 \<in> set (logged ?y)" "pushes ?y = []" "expired ?y = []" by (simp_all add: wal_run_simps)
  with wal_loses_nothing[OF empty_db_inv refl, of 7 "''d''" wal_witness_events False] show ?thesis by auto
qed

text \<open>
  At most one flush runs at any time, and \<open>isFlushing\<close> says exactly whether one does,
  whatever is called while it runs and however it ends.
\<close>

theorem wal_one_flush:
  assumes "idb_inv db"
  shows "length (flushes (wal_run (browser_wal_store scopeId) evs (syncer_new (browser_wal_store scopeId) lab db))) =
    (if isFlushing (wal_run (browser_wal_store scopeId) evs (syncer_new (browser_wal_store scopeId) lab db)) then 1 else 0)"
  using bw.wal_run_quiet[OF bw.syncer_new_quiet[OF assms], of scopeId evs lab]
  by (simp add: bw.quiet_inv_def one_flush_def)

theorem wal_one_flush_witness:
  "length (flushes (wal_run (browser_wal_store ''d'') [CallFlush, CallFlush]
     (syncer_new (browser_wal_store ''d'') False empty_db))) = 1"
  using wal_one_flush[OF empty_db_inv, of "''d''" "[CallFlush, CallFlush]" False]
  by (simp add: wal_run_simps)

text \<open>
  C33.  When a flush has run and the last one did not fail, no append is between storing its update and asking for a flush, and no
  request to run again is pending, then everything in the log has been delivered, except for updates whose append failed
  after the store had taken them.  That happens only with a label, where an append reads the log once more for its log
  line before it asks for a flush: without a label there is no exception.
\<close>

theorem wal_quiescent_delivered:
  assumes "idb_inv db" and "start = syncer_new (browser_wal_store scopeId) lab db" and "y = wal_run (browser_wal_store scopeId) evs start"
    and "flushes y = []" and "\<not> unflushed y" and "\<not> taken y" and "\<not> hasNewPending y"
  shows "w_update ` set (undelivered (browser_wal_store scopeId) (wal y)) \<subseteq> set (stranded (browser_wal_store scopeId) evs start) \<and>
    (\<not> lab \<longrightarrow> undelivered (browser_wal_store scopeId) (wal y) = [])"
proof -
  have "bw.quiet_inv scopeId ({} \<union> set (stranded (browser_wal_store scopeId) evs start)) y"
    unfolding assms(2,3) by (intro bw.wal_run_quiet bw.syncer_new_quiet assms(1))
  then have "all_covered (set (stranded (browser_wal_store scopeId) evs start)) (browser_wal_store scopeId) y"
    by (simp add: bw.quiet_inv_def)
  then have sub: "w_update ` set (undelivered (browser_wal_store scopeId) (wal y)) \<subseteq> set (stranded (browser_wal_store scopeId) evs start)"
    using assms(4-7) by (auto simp: all_covered_def covered_def taken_with_def taken_def)
  moreover have "stranded (browser_wal_store scopeId) evs start = []" if "\<not> lab"
    by (rule bw.stranded_unlabelled) (use that assms(2) in simp)
  ultimately show ?thesis by (auto simp: image_iff)
qed

definition wal_delivery_events :: "nat wal_event list" where
  "wal_delivery_events = wal_witness_events @ [AppendResumes 0, FlushReady 0, FlushReads 0, FlushGotEntries 0,
     FlushPushed 0 True 1001, FlushMarks 0, FlushMarked 0]"

theorem wal_quiescent_delivered_witness:
  "undelivered (browser_wal_store ''d'') (wal (wal_run (browser_wal_store ''d'') wal_delivery_events
     (syncer_new (browser_wal_store ''d'') True empty_db))) = []"
proof -
  let ?start = "syncer_new (browser_wal_store ''d'') True empty_db"
  let ?y = "wal_run (browser_wal_store ''d'') wal_delivery_events ?start"
  note run = wal_delivery_events_def wal_run_simps taken_def flush_delivered_def recordDeliveryRecovery_def
      bw_markDelivered_def row_put_delivered_def
  have y: "flushes ?y = []" "\<not> unflushed ?y" "\<not> taken ?y" "\<not> hasNewPending ?y" by (simp_all add: run)
  have "stranded (browser_wal_store ''d'') wal_delivery_events ?start = []" by (simp add: run)
  then show ?thesis using wal_quiescent_delivered[OF empty_db_inv refl refl y] by simp
qed

text \<open>
  The exception is real.  A flush that read the log before an update was stored and
  finds nothing to send returns without looking at \<open>hasNewPending\<close>: the append of that
  update relied on the running flush, nothing runs any more, no call failed, and the update
  stays unsent until something else asks for a flush.
\<close>

theorem wal_can_strand_update:
  "\<exists>evs. let y = wal_run (browser_wal_store ''d'') evs (syncer_new (browser_wal_store ''d'') False empty_db)
     in flushes y = [] \<and> appends y = [] \<and> \<not> isFlushing y \<and> \<not> unflushed y \<and> reports y = [] \<and> hasNewPending y \<and>
        map w_update (undelivered (browser_wal_store ''d'') (wal y)) = [7]"
  by (rule exI[of _ "[CallFlush, SetupPrunes 0 1000, SetupEnds 0, FlushReady 0, FlushReads 0, CallAppend 7,
      AppendReady 0, AppendStored 0 1001, AppendResumes 0, FlushGotEntries 0]"])
    (simp add: wal_run_simps)

text \<open>
  So is the one for an append that failed after its update was stored: with a label the summary for the log line may fail, the
  append is then rejected without asking for a flush, and the update stays unsent although the log holds it.
\<close>

theorem wal_failed_summary_strands:
  "let evs = [CallFlush, SetupPrunes 0 1000, SetupEnds 0, FlushReady 0, FlushReads 0, FlushGotEntries 0, CallAppend 7,
      AppendReady 0, AppendStored 0 1001, AppendFails 0];
     start = syncer_new (browser_wal_store ''d'') True empty_db;
     y = wal_run (browser_wal_store ''d'') evs start
   in flushes y = [] \<and> appends y = [] \<and> \<not> unflushed y \<and> \<not> hasNewPending y \<and>
      map w_update (undelivered (browser_wal_store ''d'') (wal y)) = [7] \<and> stranded (browser_wal_store ''d'') evs start = [7]"
  by (simp add: wal_run_simps)

end
