(* ===== verification/Websocket.thy ===== *)
theory Websocket
  imports Queues Backoff
begin

text \<open>
  The reconnecting websocket of \<open>packages/collaboration/src/websocket/core/websocket.ts\<close>.  The
  native sockets it opens are kept in a list and named by their position, so that a socket
  that is no longer the current one can still be spoken about.  Timers and connection attempts
  in progress are values of the state; opening, closing and messages of sockets, timers
  firing and urls being resolved are inputs.  Listeners are the caller's: a parameter says
  which public methods a listener calls for an event.  None of these dispatches events itself,
  and listeners are taken not to throw.  Log output and the timestamps in events are left out.
\<close>

section \<open>Data\<close>

datatype websocket_connection_state = Connecting | Open | Closing | Closed | Reconnecting

datatype ready_state = CONNECTING | OPEN | CLOSING | CLOSED

datatype websocket_event =
    UrlResolved | OpenEvent | CloseEvent | ErrorEvent | Message | Retry | Reconnect
  | HeartbeatSent | HeartbeatReceived | HeartbeatMissed

record retry_event_detail =
  rd_retries :: nat
  rd_backoff :: int
  rd_lastConnection :: "int option"
  rd_url :: "string option"

datatype 'd event_detail =
    UrlResolvedDetail string
  | NoDetail websocket_event \<comment> \<open>open, close and error\<close>
  | MessageDetail 'd
  | RetryDetail retry_event_detail
  | ReconnectDetail nat "int option" "string option"
  | HeartbeatDetail websocket_event 'd
  | HeartbeatMissedDetail nat bool

fun event_type :: "'d event_detail \<Rightarrow> websocket_event" where
  "event_type (UrlResolvedDetail u) = UrlResolved"
| "event_type (NoDetail t) = t"
| "event_type (MessageDetail d) = Message"
| "event_type (RetryDetail d) = Retry"
| "event_type (ReconnectDetail n l u) = Reconnect"
| "event_type (HeartbeatDetail t d) = t"
| "event_type (HeartbeatMissedDetail n b) = HeartbeatMissed"

text \<open>A listener with its options, which are compared by identity and may say \<open>once\<close>.\<close>

record listener_with_options =
  l_listener :: nat
  l_options :: "(nat \<times> bool) option"

record 'd heartbeat_options =
  hb_interval :: "int option"
  hb_timeout :: "int option"
  hb_pingMessage :: "'d option"
  hb_pongMessage :: "'d option"
  hb_maxMissedHeartbeats :: "nat option"
  hb_autoStart :: "bool option"

definition isRequiredHeartbeatOptions :: "'d heartbeat_options option \<Rightarrow> bool" where
  "isRequiredHeartbeatOptions h = (case h of
      None \<Rightarrow> False
    | Some h \<Rightarrow> hb_interval h \<noteq> None \<and> hb_timeout h \<noteq> None \<and> hb_pingMessage h \<noteq> None \<and>
        hb_pongMessage h \<noteq> None \<and> hb_maxMissedHeartbeats h \<noteq> None)"

record 'd websocket_serializer =
  serialize :: "'d \<Rightarrow> 'd"
  deserialize :: "'d \<Rightarrow> 'd option" \<comment> \<open>\<open>None\<close> when it throws\<close>

definition serializeIfNeeded :: "'d \<Rightarrow> 'd websocket_serializer option \<Rightarrow> 'd" where
  "serializeIfNeeded d s = (case s of None \<Rightarrow> d | Some s \<Rightarrow> serialize s d)"

definition deserializeIfNeeded :: "'d \<Rightarrow> 'd websocket_serializer option \<Rightarrow> 'd option" where
  "deserializeIfNeeded d s = (case s of None \<Rightarrow> Some d | Some s \<Rightarrow> deserialize s d)"

text \<open>The buffers that exist: the two queues.\<close>

datatype 'd websocket_buffer = ArrayBuffered "'d array_queue" | RingBuffered "'d ring_queue"

fun buffer_add :: "'d \<Rightarrow> 'd websocket_buffer \<Rightarrow> 'd websocket_buffer" where
  "buffer_add d (ArrayBuffered q) = ArrayBuffered (aq_add d q)"
| "buffer_add d (RingBuffered q) = RingBuffered (rq_add d q)"

fun buffer_read :: "'d websocket_buffer \<Rightarrow> 'd option \<times> 'd websocket_buffer" where
  "buffer_read (ArrayBuffered q) = apsnd ArrayBuffered (aq_read q)"
| "buffer_read (RingBuffered q) = apsnd RingBuffered (rq_read q)"

text \<open>
  A native socket: its state, whether the four handlers are attached, whether it is to be
  closed as soon as it opens, and what was sent on it.
\<close>

record 'd socket =
  so_url :: string
  so_readyState :: ready_state
  so_attached :: bool
  so_abandoned :: bool
  so_sent :: "'d list"

record 'd websocket =
  ws_url :: "string option"
  closedByUser :: bool
  connectionGeneration :: nat
  lastConnection :: "int option"
  sockets :: "'d socket list"
  underlyingWebsocket :: "nat option"
  connectPending :: bool
  attempts :: "nat list" \<comment> \<open>the generations of the suspended \<open>tryConnect\<close> calls\<close>
  retryTimeout :: "retry_event_detail option" \<comment> \<open>the live retry timer\<close>
  heartbeatInterval :: bool
  heartbeatTimeout :: "nat option"
  heartbeatTimers :: "nat list" \<comment> \<open>the live heartbeat timeouts\<close>
  timersStarted :: nat
  missedHeartbeats :: nat
  connectionState :: websocket_connection_state
  buffer :: "'d websocket_buffer option"
  maxRetries :: "nat option"
  instantReconnect :: "bool option"
  retryBackoff :: "backoff option"
  heartbeat :: "'d heartbeat_options"
  serializer :: "'d websocket_serializer option"
  listeners :: "websocket_event \<Rightarrow> listener_with_options list"
  notified :: "(nat \<times> 'd event_detail) list" \<comment> \<open>the calls of listeners so far\<close>

section \<open>Methods\<close>

definition current_socket :: "'d websocket \<Rightarrow> 'd socket option" where
  "current_socket w = (case underlyingWebsocket w of
      None \<Rightarrow> None | Some k \<Rightarrow> if k < length (sockets w) then Some (sockets w ! k) else None)"

definition update_socket :: "nat \<Rightarrow> ('d socket \<Rightarrow> 'd socket) \<Rightarrow> 'd websocket \<Rightarrow> 'd websocket" where
  "update_socket k f w = w\<lparr>sockets := (if k < length (sockets w) then (sockets w)[k := f (sockets w ! k)] else sockets w)\<rparr>"

definition update_current :: "('d socket \<Rightarrow> 'd socket) \<Rightarrow> 'd websocket \<Rightarrow> 'd websocket" where
  "update_current f w = (case underlyingWebsocket w of None \<Rightarrow> w | Some k \<Rightarrow> update_socket k f w)"

text \<open>\<open>close\<close> of a native socket.\<close>

definition socket_close :: "'d socket \<Rightarrow> 'd socket" where
  "socket_close s = (if so_readyState s = CLOSED then s else s\<lparr>so_readyState := CLOSING\<rparr>)"

definition ready_state_of :: "'d websocket \<Rightarrow> ready_state" where
  "ready_state_of w = (case current_socket w of
      Some s \<Rightarrow> so_readyState s
    | None \<Rightarrow> if closedByUser w then CLOSED else CONNECTING)"

definition send :: "'d \<Rightarrow> 'd websocket \<Rightarrow> bool \<times> 'd websocket" where
  "send rawData w =
    (if closedByUser w then (False, w)
     else
      let data = serializeIfNeeded rawData (serializer w)
      in if (case current_socket w of None \<Rightarrow> False | Some s \<Rightarrow> so_readyState s = OPEN)
         then (True, update_current (\<lambda>s. s\<lparr>so_sent := so_sent s @ [data]\<rparr>) w)
         else (False, case buffer w of None \<Rightarrow> w | Some b \<Rightarrow> w\<lparr>buffer := Some (buffer_add rawData b)\<rparr>))"

definition cancelScheduledConnectionRetry :: "'d websocket \<Rightarrow> 'd websocket" where
  "cancelScheduledConnectionRetry w = w\<lparr>retryTimeout := None\<rparr>"

definition stopHeartbeat :: "'d websocket \<Rightarrow> 'd websocket" where
  "stopHeartbeat w =
    w\<lparr>heartbeatInterval := False,
      heartbeatTimers := (case heartbeatTimeout w of None \<Rightarrow> heartbeatTimers w
                          | Some t \<Rightarrow> filter (\<lambda>x. x \<noteq> t) (heartbeatTimers w)),
      heartbeatTimeout := None, missedHeartbeats := 0\<rparr>"

definition startHeartbeat :: "'d websocket \<Rightarrow> 'd websocket" where
  "startHeartbeat w =
    (let w1 = (stopHeartbeat w)\<lparr>missedHeartbeats := 0\<rparr>
     in if \<not> isRequiredHeartbeatOptions (Some (heartbeat w1)) then w1
        else if connectionState w1 \<noteq> Open then w1
        else w1\<lparr>heartbeatInterval := True\<rparr>)"

definition close :: "'d websocket \<Rightarrow> 'd websocket" where
  "close w =
    (let w1 = cancelScheduledConnectionRetry w;
         w2 = w1\<lparr>closedByUser := True, connectionGeneration := connectionGeneration w1 + 1\<rparr>
     in stopHeartbeat (update_current socket_close w2))"

definition addEventListener :: "websocket_event \<Rightarrow> listener_with_options \<Rightarrow> 'd websocket \<Rightarrow> 'd websocket" where
  "addEventListener t l w = w\<lparr>listeners := (listeners w)(t := listeners w t @ [l])\<rparr>"

definition removeEventListener ::
  "websocket_event \<Rightarrow> nat \<Rightarrow> (nat \<times> bool) option \<Rightarrow> 'd websocket \<Rightarrow> 'd websocket" where
  "removeEventListener t listener options w =
    w\<lparr>listeners := (listeners w)(t := filter (\<lambda>l. l_listener l \<noteq> listener \<or> l_options l \<noteq> options)
                                          (listeners w t))\<rparr>"

text \<open>\<open>tryConnect\<close> up to the \<open>await\<close> of the url; \<open>tryConnect_resumes\<close> below is the rest.\<close>

definition tryConnect :: "'d websocket \<Rightarrow> 'd websocket" where
  "tryConnect w = w\<lparr>connectPending := True, attempts := attempts w @ [connectionGeneration w]\<rparr>"

definition clearWebsocket :: "'d websocket \<Rightarrow> 'd websocket" where
  "clearWebsocket w =
    update_current (\<lambda>s.
      let s1 = s\<lparr>so_attached := False\<rparr>
      in if so_readyState s = CONNECTING then s1\<lparr>so_abandoned := True\<rparr>
         else if so_readyState s \<noteq> CLOSED then socket_close s1 else s1) w"

definition reconnect :: "'d websocket \<Rightarrow> 'd websocket" where
  "reconnect w =
    (let w1 = w\<lparr>closedByUser := False\<rparr>
     in if connectPending w1 then w1
        else tryConnect ((clearWebsocket (stopHeartbeat (cancelScheduledConnectionRetry w1)))
               \<lparr>connectionState := Reconnecting\<rparr>))"

definition reconnectIfDisconnected :: "'d websocket \<Rightarrow> 'd websocket" where
  "reconnectIfDisconnected w =
    (if connectPending w \<or> closedByUser w then w
     else if (case current_socket w of None \<Rightarrow> False
              | Some s \<Rightarrow> so_readyState s = OPEN \<or> so_readyState s = CONNECTING) then w
     else reconnect w)"

text \<open>The public methods a listener or the application may call.\<close>

datatype 'd api =
    ApiSend 'd
  | ApiClose
  | ApiAddEventListener websocket_event listener_with_options
  | ApiRemoveEventListener websocket_event nat "(nat \<times> bool) option"
  | ApiStartHeartbeat
  | ApiReconnect
  | ApiReconnectIfDisconnected

fun ws_call :: "'d api \<Rightarrow> 'd websocket \<Rightarrow> 'd websocket" where
  "ws_call (ApiSend d) w = snd (send d w)"
| "ws_call ApiClose w = close w"
| "ws_call (ApiAddEventListener t l) w = addEventListener t l w"
| "ws_call (ApiRemoveEventListener t l opts) w = removeEventListener t l opts w"
| "ws_call ApiStartHeartbeat w = startHeartbeat w"
| "ws_call ApiReconnect w = reconnect w"
| "ws_call ApiReconnectIfDisconnected w = reconnectIfDisconnected w"

type_synonym 'd listening = "nat \<Rightarrow> 'd event_detail \<Rightarrow> 'd websocket \<Rightarrow> 'd api list"

definition is_once :: "listener_with_options \<Rightarrow> bool" where
  "is_once l = (case l_options l of None \<Rightarrow> False | Some (_, once) \<Rightarrow> once)"

definition notify :: "'d listening \<Rightarrow> 'd event_detail \<Rightarrow> listener_with_options \<Rightarrow> 'd websocket \<Rightarrow> 'd websocket" where
  "notify L ev l w =
    fold ws_call (L (l_listener l) ev w) (w\<lparr>notified := notified w @ [(l_listener l, ev)]\<rparr>)"

definition dispatchEvent :: "'d listening \<Rightarrow> 'd event_detail \<Rightarrow> 'd websocket \<Rightarrow> 'd websocket" where
  "dispatchEvent L ev w =
    (let eventListeners = listeners w (event_type ev);
         w1 = fold (notify L ev) eventListeners w
     in w1\<lparr>listeners := (listeners w1)(event_type ev := filter (\<lambda>l. \<not> is_once l) eventListeners)\<rparr>)"

definition scheduleConnectionRetryIfNeeded :: "'d websocket \<Rightarrow> 'd websocket" where
  "scheduleConnectionRetryIfNeeded w =
    (if closedByUser w then w
     else case retryBackoff w of
       None \<Rightarrow> w
     | Some b \<Rightarrow>
        (let w1 = cancelScheduledConnectionRetry w;
             instant = (instantReconnect w1 = Some True);
             (delay, b1) = (if instant then (0, b) else bo_next b);
             detail = \<lparr>rd_retries = (if instant then 0 else bo_retries b1), rd_backoff = delay,
                       rd_lastConnection = lastConnection w1, rd_url = ws_url w1\<rparr>;
             w2 = w1\<lparr>retryBackoff := Some b1\<rparr>
         in if (case maxRetries w2 of None \<Rightarrow> True | Some m \<Rightarrow> rd_retries detail \<le> m)
            then w2\<lparr>retryTimeout := Some detail\<rparr> else w2))"

text \<open>The loop that empties the buffer need not end, so it is a partial function.\<close>

partial_function (option) sendBufferedData_loop ::
  "'d option \<Rightarrow> 'd websocket_buffer \<Rightarrow> 'd websocket \<Rightarrow> 'd websocket option" where
  "sendBufferedData_loop ele b w =
    (case ele of
       None \<Rightarrow> Some (w\<lparr>buffer := Some b\<rparr>)
     | Some d \<Rightarrow>
         (let w1 = snd (send d (w\<lparr>buffer := Some b\<rparr>))
          in case buffer w1 of
               None \<Rightarrow> Some w1
             | Some b1 \<Rightarrow> (let (ele1, b2) = buffer_read b1 in sendBufferedData_loop ele1 b2 w1)))"

declare sendBufferedData_loop.simps [code]

definition sendBufferedData :: "'d websocket \<Rightarrow> 'd websocket option" where
  "sendBufferedData w =
    (case buffer w of
       None \<Rightarrow> Some w
     | Some b \<Rightarrow> (let (ele, b1) = buffer_read b in sendBufferedData_loop ele b1 w))"

definition handleClose :: "'d listening \<Rightarrow> 'd websocket \<Rightarrow> 'd websocket" where
  "handleClose L w =
    scheduleConnectionRetryIfNeeded
      (dispatchEvent L (NoDetail CloseEvent) ((stopHeartbeat w)\<lparr>connectionState := Closed\<rparr>))"

definition handleOpen :: "'d listening \<Rightarrow> int \<Rightarrow> 'd websocket \<Rightarrow> 'd websocket option" where
  "handleOpen L now w =
    (let w1 = w\<lparr>connectionState := Open\<rparr>;
         w2 = (case retryBackoff w1 of
                 Some b \<Rightarrow> if lastConnection w1 \<noteq> None
                           then dispatchEvent L (ReconnectDetail (bo_retries b) (lastConnection w1) (ws_url w1)) w1 else w1
               | None \<Rightarrow> w1);
         w3 = w2\<lparr>retryBackoff := map_option bo_reset (retryBackoff w2)\<rparr>;
         w4 = (if hb_autoStart (heartbeat w3) \<noteq> Some False then startHeartbeat w3 else w3);
         w5 = dispatchEvent L (NoDetail OpenEvent) (w4\<lparr>lastConnection := Some now\<rparr>)
     in sendBufferedData w5)"

definition handleRetry :: "'d listening \<Rightarrow> retry_event_detail \<Rightarrow> 'd websocket \<Rightarrow> 'd websocket" where
  "handleRetry L detail w =
    tryConnect (clearWebsocket
      (dispatchEvent L (RetryDetail detail) (w\<lparr>connectionState := Reconnecting\<rparr>)))"

definition handleError :: "'d listening \<Rightarrow> 'd websocket \<Rightarrow> 'd websocket" where
  "handleError L w = dispatchEvent L (NoDetail ErrorEvent) (w\<lparr>connectionState := Closing\<rparr>)"

definition handleHeartbeatReceived :: "'d listening \<Rightarrow> 'd \<Rightarrow> 'd websocket \<Rightarrow> 'd websocket" where
  "handleHeartbeatReceived L d w =
    (let w1 = w\<lparr>heartbeatTimers := (case heartbeatTimeout w of None \<Rightarrow> heartbeatTimers w
                                    | Some t \<Rightarrow> filter (\<lambda>x. x \<noteq> t) (heartbeatTimers w)),
                heartbeatTimeout := None, missedHeartbeats := 0\<rparr>
     in dispatchEvent L (HeartbeatDetail HeartbeatReceived d) w1)"

text \<open>When the message does not deserialize, the error goes to the native dispatch and nobody is notified.\<close>

definition deliver_message :: "'d listening \<Rightarrow> 'd \<Rightarrow> 'd websocket \<Rightarrow> 'd websocket" where
  "deliver_message L d w =
    (case deserializeIfNeeded d (serializer w) of
       None \<Rightarrow> w
     | Some data \<Rightarrow> dispatchEvent L (MessageDetail data) w)"

definition handleMessageEvent :: "'d listening \<Rightarrow> 'd \<Rightarrow> 'd websocket \<Rightarrow> 'd websocket" where
  "handleMessageEvent L d w =
    (if Some d = hb_pongMessage (heartbeat w) then handleHeartbeatReceived L d w
     else deliver_message L d w)"

definition handleHeartbeatTimeout :: "'d listening \<Rightarrow> 'd websocket \<Rightarrow> 'd websocket" where
  "handleHeartbeatTimeout L w =
    (let w1 = w\<lparr>missedHeartbeats := missedHeartbeats w + 1\<rparr>
     in case hb_maxMissedHeartbeats (heartbeat w1) of
          None \<Rightarrow> w1
        | Some m \<Rightarrow>
            if \<not> isRequiredHeartbeatOptions (Some (heartbeat w1)) then w1
            else
             let shouldReconnect = missedHeartbeats w1 > m;
                 w2 = dispatchEvent L (HeartbeatMissedDetail (missedHeartbeats w1) shouldReconnect) w1
             in if shouldReconnect then update_current socket_close w2 else w2)"

text \<open>Sending on a native socket that is still connecting throws, which ends the timer callback.\<close>

definition sendHeartbeat :: "'d listening \<Rightarrow> 'd websocket \<Rightarrow> 'd websocket" where
  "sendHeartbeat L w =
    (case (current_socket w, hb_pingMessage (heartbeat w)) of
       (Some s, Some ping) \<Rightarrow>
         if closedByUser w \<or> \<not> isRequiredHeartbeatOptions (Some (heartbeat w)) then w
         else if so_readyState s = CLOSING \<or> so_readyState s = CLOSED then handleClose L w
         else if so_readyState s = CONNECTING then w
         else
          let w1 = update_current (\<lambda>s. s\<lparr>so_sent := so_sent s @ [ping]\<rparr>) w;
              w2 = dispatchEvent L (HeartbeatDetail HeartbeatSent ping) w1
          in w2\<lparr>heartbeatTimeout := Some (timersStarted w2),
                heartbeatTimers := heartbeatTimers w2 @ [timersStarted w2],
                timersStarted := timersStarted w2 + 1\<rparr>
     | _ \<Rightarrow> w)"

text \<open>
  The rest of \<open>tryConnect\<close>, once the url is there (\<open>Some\<close>) or its resolution failed, with
  whether the factory succeeds.
\<close>

definition superseded_attempt :: "nat \<Rightarrow> 'd websocket \<Rightarrow> bool" where
  "superseded_attempt generation w \<longleftrightarrow> closedByUser w \<or> generation \<noteq> connectionGeneration w"

definition connect_fails :: "'d listening \<Rightarrow> nat \<Rightarrow> 'd websocket \<Rightarrow> 'd websocket" where
  "connect_fails L generation w =
    (if superseded_attempt generation w then w
     else scheduleConnectionRetryIfNeeded
            (dispatchEvent L (NoDetail ErrorEvent) (w\<lparr>connectionState := Closed\<rparr>)))"

definition open_socket :: "string \<Rightarrow> 'd websocket \<Rightarrow> 'd websocket" where
  "open_socket url w =
    w\<lparr>sockets := sockets w @ [\<lparr>so_url = url, so_readyState = CONNECTING, so_attached = True,
                               so_abandoned = False, so_sent = []\<rparr>],
      underlyingWebsocket := Some (length (sockets w))\<rparr>"

definition connect_finally :: "nat \<Rightarrow> 'd websocket \<Rightarrow> 'd websocket" where
  "connect_finally generation w =
    (let w1 = w\<lparr>connectPending := False\<rparr>
     in if \<not> closedByUser w1 \<and> generation \<noteq> connectionGeneration w1 then tryConnect w1 else w1)"

definition tryConnect_resumes ::
  "'d listening \<Rightarrow> nat \<Rightarrow> string option \<Rightarrow> bool \<Rightarrow> 'd websocket \<Rightarrow> 'd websocket" where
  "tryConnect_resumes L generation resolved factoryOk w =
    connect_finally generation
      (case resolved of
         None \<Rightarrow> connect_fails L generation w
       | Some url \<Rightarrow>
           if superseded_attempt generation w then w
           else
            let w1 = dispatchEvent L (UrlResolvedDetail url) (w\<lparr>ws_url := Some url\<rparr>)
            in if superseded_attempt generation w1 then w1
               else if factoryOk then open_socket url w1
               else connect_fails L generation w1)"

section \<open>Construction and inputs\<close>

record 'd websocket_options =
  o_autoConnect :: "bool option"
  o_buffer :: "'d websocket_buffer option"
  o_maxRetries :: "nat option"
  o_instantReconnect :: "bool option"
  o_backoff :: "backoff option"
  o_heartbeat :: "'d heartbeat_options"
  o_serializer :: "'d websocket_serializer option"
  o_listeners :: "websocket_event \<Rightarrow> listener_with_options list"

text \<open>The constructor copies the options; the copy of the heartbeat options has no \<open>autoStart\<close>.\<close>

definition websocket_new :: "string option \<Rightarrow> 'd websocket_options \<Rightarrow> 'd websocket" where
  "websocket_new url opts =
    (let w = \<lparr>ws_url = url, closedByUser = (o_autoConnect opts = Some False), connectionGeneration = 0,
              lastConnection = None, sockets = [], underlyingWebsocket = None, connectPending = False,
              attempts = [], retryTimeout = None, heartbeatInterval = False, heartbeatTimeout = None,
              heartbeatTimers = [], timersStarted = 0, missedHeartbeats = 0, connectionState = Connecting,
              buffer = o_buffer opts, maxRetries = o_maxRetries opts,
              instantReconnect = o_instantReconnect opts, retryBackoff = o_backoff opts,
              heartbeat = (o_heartbeat opts)\<lparr>hb_autoStart := None\<rparr>, serializer = o_serializer opts,
              listeners = o_listeners opts, notified = []\<rparr>
     in if closedByUser w then w\<lparr>connectionState := Closed\<rparr> else tryConnect w)"

datatype 'd ws_input =
    Call "'d api"
  | UrlSettles nat "string option" bool \<comment> \<open>attempt, url, whether the factory succeeds\<close>
  | SocketOpens nat int
  | SocketCloses nat
  | SocketErrors nat
  | SocketReceives nat 'd
  | RetryFires
  | HeartbeatTicks
  | HeartbeatTimesOut nat

definition drop_nth :: "nat \<Rightarrow> 'a list \<Rightarrow> 'a list" where
  "drop_nth i xs = take i xs @ drop (Suc i) xs"

definition attached :: "nat \<Rightarrow> 'd websocket \<Rightarrow> bool" where
  "attached k w \<longleftrightarrow> k < length (sockets w) \<and> so_attached (sockets w ! k)"

definition socket_state :: "nat \<Rightarrow> 'd websocket \<Rightarrow> ready_state option" where
  "socket_state k w = (if k < length (sockets w) then Some (so_readyState (sockets w ! k)) else None)"

text \<open>
  One input.  An input that cannot happen leaves the state as it is; \<open>None\<close> means that the
  handler never returns.
\<close>

fun ws_step :: "'d listening \<Rightarrow> 'd ws_input \<Rightarrow> 'd websocket \<Rightarrow> 'd websocket option" where
  "ws_step L (Call a) w = Some (ws_call a w)"
| "ws_step L (UrlSettles i resolved factoryOk) w =
     Some (if i < length (attempts w)
           then tryConnect_resumes L (attempts w ! i) resolved factoryOk
                  (w\<lparr>attempts := drop_nth i (attempts w)\<rparr>)
           else w)"
| "ws_step L (SocketOpens k now) w =
     (if socket_state k w \<noteq> Some CONNECTING then Some w
      else
       let w1 = update_socket k (\<lambda>s. let s1 = s\<lparr>so_readyState := OPEN\<rparr> in
                  if so_abandoned s then socket_close s1 else s1) w
       in if attached k w then handleOpen L now w1 else Some w1)"
| "ws_step L (SocketCloses k) w =
     (if socket_state k w = None \<or> socket_state k w = Some CLOSED then Some w
      else
       let w1 = update_socket k (\<lambda>s. s\<lparr>so_readyState := CLOSED\<rparr>) w
       in Some (if attached k w then handleClose L w1 else w1))"
| "ws_step L (SocketErrors k) w = Some (if attached k w then handleError L w else w)"
| "ws_step L (SocketReceives k d) w =
     Some (if attached k w \<and> socket_state k w = Some OPEN then handleMessageEvent L d w else w)"
| "ws_step L RetryFires w =
     Some (case retryTimeout w of None \<Rightarrow> w | Some d \<Rightarrow> handleRetry L d (w\<lparr>retryTimeout := None\<rparr>))"
| "ws_step L HeartbeatTicks w =
     Some (if heartbeatInterval w \<and> connectionState w = Open then sendHeartbeat L w else w)"
| "ws_step L (HeartbeatTimesOut t) w =
     Some (if t \<in> set (heartbeatTimers w)
           then handleHeartbeatTimeout L (w\<lparr>heartbeatTimers := filter (\<lambda>x. x \<noteq> t) (heartbeatTimers w)\<rparr>)
           else w)"

fun ws_run :: "'d listening \<Rightarrow> 'd ws_input list \<Rightarrow> 'd websocket \<Rightarrow> 'd websocket option" where
  "ws_run L [] w = Some w"
| "ws_run L (i # is) w = (case ws_step L i w of None \<Rightarrow> None | Some w1 \<Rightarrow> ws_run L is w1)"

end
