(* ===== verification/Websocket_Properties.thy ===== *)
theory Websocket_Properties
  imports Websocket
begin

text \<open>
  What the reconnecting websocket promises: at most one native socket feeds events into it, a
  close by the user is final until somebody reconnects, and opening drains the buffer in
  order.  Where a promise needs listeners to behave, the theorems say so, and the runs that
  break it otherwise are shown to exist.
\<close>

section \<open>Listeners that leave the connection alone\<close>

fun harmless :: "'d api \<Rightarrow> bool" where
  "harmless ApiReconnect \<longleftrightarrow> False"
| "harmless ApiReconnectIfDisconnected \<longleftrightarrow> False"
| "harmless a \<longleftrightarrow> True"

definition no_reconnect :: "'d listening \<Rightarrow> bool" where
  "no_reconnect L \<longleftrightarrow> (\<forall>l ev w. list_all harmless (L l ev w))"

text \<open>
  A property of the state that no harmless call, log entry or listener change can break
  survives every dispatch.
\<close>

definition call_stable :: "('d websocket \<Rightarrow> bool) \<Rightarrow> bool" where
  "call_stable P \<longleftrightarrow>
     (\<forall>a w. harmless a \<longrightarrow> P w \<longrightarrow> P (ws_call a w)) \<and>
     (\<forall>w ls. P w \<longrightarrow> P (w\<lparr>listeners := ls\<rparr>)) \<and> (\<forall>w n. P w \<longrightarrow> P (w\<lparr>notified := n\<rparr>))"

lemma call_stableD: "call_stable P \<Longrightarrow> harmless a \<Longrightarrow> P w \<Longrightarrow> P (ws_call a w)"
  unfolding call_stable_def by blast

lemma fold_invariant_list: "(\<And>x s. P s \<Longrightarrow> P (f x s)) \<Longrightarrow> P s \<Longrightarrow> P (fold f xs s)"
  by (induction xs arbitrary: s) simp_all

lemma dispatchEvent_stable:
  assumes "call_stable P" and "no_reconnect L" and "P w"
  shows "P (dispatchEvent L ev w)"
proof -
  have stable: "\<And>a v. harmless a \<Longrightarrow> P v \<Longrightarrow> P (ws_call a v)" "\<And>v ls. P v \<Longrightarrow> P (v\<lparr>listeners := ls\<rparr>)"
    "\<And>v n. P v \<Longrightarrow> P (v\<lparr>notified := n\<rparr>)" using assms(1) unfolding call_stable_def by blast+
  have calls: "P (fold ws_call as v)" if "list_all harmless as" "P v" for as v
    using that by (induction as arbitrary: v) (simp_all add: stable(1))
  have "P (notify L ev l v)" if "P v" for l v
    unfolding notify_def
  proof (rule calls)
    show "list_all harmless (L (l_listener l) ev v)" using assms(2) unfolding no_reconnect_def by blast
  qed (rule stable(3)[OF that])
  then have "P (fold (notify L ev) (listeners w (event_type ev)) w)"
    using assms(3) by (rule fold_invariant_list[where P = P])
  then show ?thesis unfolding dispatchEvent_def Let_def by (rule stable(2))
qed

section \<open>At most one socket\<close>

definition attached_in :: "'d socket list \<Rightarrow> nat \<Rightarrow> bool" where
  "attached_in ss k \<longleftrightarrow> k < length ss \<and> so_attached (ss ! k)"

definition over_in :: "'d socket list \<Rightarrow> nat \<Rightarrow> bool" where
  "over_in ss k \<longleftrightarrow> k < length ss \<and> so_readyState (ss ! k) \<in> {CLOSING, CLOSED}"

text \<open>
  Only the current socket is attached; at most one connection attempt runs, and then no
  socket is attached, no retry is scheduled and the heartbeat is off; a scheduled retry comes
  with a connection that is over.
\<close>

definition sockets_ok ::
  "nat list \<Rightarrow> bool \<Rightarrow> 'd socket list \<Rightarrow> nat option \<Rightarrow> bool \<Rightarrow> bool \<Rightarrow> bool \<Rightarrow> bool" where
  "sockets_ok tries pending ss cur retrying isOpen beating \<longleftrightarrow>
     length tries = (if pending then 1 else 0) \<and>
     (\<forall>k. attached_in ss k \<longrightarrow> cur = Some k) \<and>
     (\<forall>k. cur = Some k \<longrightarrow> k < length ss) \<and>
     (pending \<longrightarrow> (\<forall>k. \<not> attached_in ss k) \<and> \<not> retrying) \<and>
     (pending \<or> retrying \<longrightarrow> \<not> isOpen \<and> \<not> beating) \<and>
     (retrying \<longrightarrow> (\<forall>k. attached_in ss k \<longrightarrow> over_in ss k))"

text \<open>
  The invariant as it holds between inputs is \<open>socket_inv\<close>.  While a handler runs, the attempts
  and the pending flag may be ahead of or behind it, and a retry may be about to be scheduled;
  \<open>inv_as\<close> says what holds then.
\<close>

definition inv_as :: "nat list \<Rightarrow> bool \<Rightarrow> bool \<Rightarrow> 'd websocket \<Rightarrow> bool" where
  "inv_as t p r w = sockets_ok t p (sockets w) (underlyingWebsocket w)
     (r \<or> retryTimeout w \<noteq> None) (connectionState w = Open) (heartbeatInterval w)"

definition socket_inv :: "'d websocket \<Rightarrow> bool" where
  "socket_inv w = inv_as (attempts w) (connectPending w) False w"

lemma sockets_ok_weaken:
  "sockets_ok t p ss c r i b \<Longrightarrow> (r' \<longrightarrow> r) \<Longrightarrow> (i' \<longrightarrow> i) \<Longrightarrow> (b' \<longrightarrow> b \<or> i) \<Longrightarrow> sockets_ok t p ss c r' i' b'"
  unfolding sockets_ok_def by blast

text \<open>Changes of a socket that do not attach it and leave it at least as closed.\<close>

definition mild :: "('d socket \<Rightarrow> 'd socket) \<Rightarrow> bool" where
  "mild f \<longleftrightarrow> (\<forall>s. (so_attached (f s) \<longrightarrow> so_attached s) \<and>
     (so_readyState s \<in> {CLOSING, CLOSED} \<longrightarrow> so_readyState (f s) \<in> {CLOSING, CLOSED}))"

lemma mild_simps [simp]:
  "mild socket_close" "mild (\<lambda>s. s\<lparr>so_sent := g s\<rparr>)" "mild (\<lambda>s. s\<lparr>so_readyState := CLOSED\<rparr>)"
  by (auto simp: mild_def socket_close_def)

lemma sockets_ok_update:
  assumes "sockets_ok t p ss c r i b" and "mild f" and "k < length ss"
  shows "sockets_ok t p (ss[k := f (ss ! k)]) c r i b"
proof -
  have m: "so_attached (f (ss ! k)) \<Longrightarrow> so_attached (ss ! k)"
    "so_readyState (ss ! k) \<in> {CLOSING, CLOSED} \<Longrightarrow> so_readyState (f (ss ! k)) \<in> {CLOSING, CLOSED}"
    using assms(2) unfolding mild_def by blast+
  have "attached_in ss j" if "attached_in (ss[k := f (ss ! k)]) j" for j
    using that m(1) assms(3) unfolding attached_in_def by (cases "j = k") simp_all
  moreover have "over_in (ss[k := f (ss ! k)]) j" if "over_in ss j" for j
    using that m(2) assms(3) unfolding over_in_def by (cases "j = k") (simp_all del: insert_iff)
  ultimately show ?thesis using assms(1) unfolding sockets_ok_def length_list_update by blast
qed

lemma update_socket_fields [simp]:
  "attempts (update_socket k f w) = attempts w" "connectPending (update_socket k f w) = connectPending w"
  "underlyingWebsocket (update_socket k f w) = underlyingWebsocket w" "retryTimeout (update_socket k f w) = retryTimeout w"
  "connectionState (update_socket k f w) = connectionState w" "heartbeatInterval (update_socket k f w) = heartbeatInterval w"
  "length (sockets (update_socket k f w)) = length (sockets w)" "closedByUser (update_socket k f w) = closedByUser w"
  "buffer (update_socket k f w) = buffer w" "connectionGeneration (update_socket k f w) = connectionGeneration w"
  "serializer (update_socket k f w) = serializer w" "listeners (update_socket k f w) = listeners w"
  by (simp_all add: update_socket_def)

lemma update_current_fields [simp]:
  "attempts (update_current f w) = attempts w" "connectPending (update_current f w) = connectPending w"
  "underlyingWebsocket (update_current f w) = underlyingWebsocket w" "retryTimeout (update_current f w) = retryTimeout w"
  "connectionState (update_current f w) = connectionState w" "heartbeatInterval (update_current f w) = heartbeatInterval w"
  "length (sockets (update_current f w)) = length (sockets w)" "closedByUser (update_current f w) = closedByUser w"
  "buffer (update_current f w) = buffer w" "connectionGeneration (update_current f w) = connectionGeneration w"
  "serializer (update_current f w) = serializer w" "listeners (update_current f w) = listeners w"
  by (simp_all add: update_current_def split: option.splits)

lemma inv_as_update_socket: "mild f \<Longrightarrow> inv_as t p r w \<Longrightarrow> inv_as t p r (update_socket k f w)"
  unfolding inv_as_def update_socket_def using sockets_ok_update[of t p "sockets w" _ _ _ _ f k]
  by (cases "k < length (sockets w)") simp_all

lemma inv_as_update: "mild f \<Longrightarrow> inv_as t p r w \<Longrightarrow> inv_as t p r (update_current f w)"
  unfolding update_current_def using inv_as_update_socket[of f t p r w] by (cases "underlyingWebsocket w") simp_all

text \<open>Fields the invariant does not mention, and those that only make it weaker.\<close>

lemma inv_as_cong:
  assumes "inv_as t p r w" and "sockets v = sockets w" and "underlyingWebsocket v = underlyingWebsocket w"
    and "retryTimeout v \<noteq> None \<longrightarrow> r \<or> retryTimeout w \<noteq> None"
    and "heartbeatInterval v \<longrightarrow> heartbeatInterval w \<or> connectionState w = Open"
    and "connectionState v = Open \<longrightarrow> connectionState w = Open"
  shows "inv_as t p r v"
  using sockets_ok_weaken[OF assms(1)[unfolded inv_as_def], of "r \<or> retryTimeout v \<noteq> None"] assms(4-6)
  unfolding inv_as_def assms(2,3) by blast

lemma stopHeartbeat_fields [simp]:
  "attempts (stopHeartbeat w) = attempts w" "connectPending (stopHeartbeat w) = connectPending w"
  "sockets (stopHeartbeat w) = sockets w" "underlyingWebsocket (stopHeartbeat w) = underlyingWebsocket w"
  "retryTimeout (stopHeartbeat w) = retryTimeout w" "connectionState (stopHeartbeat w) = connectionState w"
  "heartbeatInterval (stopHeartbeat w) = False" "closedByUser (stopHeartbeat w) = closedByUser w"
  "connectionGeneration (stopHeartbeat w) = connectionGeneration w" "heartbeat (stopHeartbeat w) = heartbeat w"
  "buffer (stopHeartbeat w) = buffer w" "serializer (stopHeartbeat w) = serializer w"
  "listeners (stopHeartbeat w) = listeners w" "lastConnection (stopHeartbeat w) = lastConnection w"
  by (simp_all add: stopHeartbeat_def)

lemma startHeartbeat_fields [simp]:
  "attempts (startHeartbeat w) = attempts w" "connectPending (startHeartbeat w) = connectPending w"
  "sockets (startHeartbeat w) = sockets w" "underlyingWebsocket (startHeartbeat w) = underlyingWebsocket w"
  "retryTimeout (startHeartbeat w) = retryTimeout w" "connectionState (startHeartbeat w) = connectionState w"
  "closedByUser (startHeartbeat w) = closedByUser w" "buffer (startHeartbeat w) = buffer w"
  "serializer (startHeartbeat w) = serializer w" "listeners (startHeartbeat w) = listeners w"
  "connectionGeneration (startHeartbeat w) = connectionGeneration w"
  by (simp_all add: startHeartbeat_def Let_def)

lemma startHeartbeat_open: "heartbeatInterval (startHeartbeat w) \<longrightarrow> connectionState w = Open"
  by (simp add: startHeartbeat_def Let_def)

lemma send_inv: "inv_as t p r w \<Longrightarrow> inv_as t p r (snd (send d w))"
proof -
  assume w: "inv_as t p r w"
  have "inv_as t p r (w\<lparr>buffer := b\<rparr>)" for b by (rule inv_as_cong[OF w]) simp_all
  then show ?thesis using w inv_as_update[OF _ w] by (simp add: send_def Let_def split: option.splits)
qed

lemma close_inv:
  assumes "inv_as t p r w"
  shows "inv_as t p r (close w)"
proof -
  have "inv_as t p r ((cancelScheduledConnectionRetry w)\<lparr>closedByUser := True,
      connectionGeneration := connectionGeneration (cancelScheduledConnectionRetry w) + 1\<rparr>)"
    by (rule inv_as_cong[OF assms]) (simp_all add: cancelScheduledConnectionRetry_def)
  then have "inv_as t p r (update_current socket_close ((cancelScheduledConnectionRetry w)\<lparr>closedByUser := True,
      connectionGeneration := connectionGeneration (cancelScheduledConnectionRetry w) + 1\<rparr>))"
    by (rule inv_as_update[rotated]) simp
  then show ?thesis unfolding close_def Let_def by (rule inv_as_cong) simp_all
qed

lemma startHeartbeat_inv: "inv_as t p r w \<Longrightarrow> inv_as t p r (startHeartbeat w)"
  using startHeartbeat_open[of w] by (auto elim!: inv_as_cong)

lemma listeners_inv: "inv_as t p r w \<Longrightarrow> inv_as t p r (w\<lparr>listeners := ls\<rparr>)"
  by (erule inv_as_cong) simp_all

lemma inv_as_stable: "call_stable (inv_as t p r)"
  unfolding call_stable_def
proof (intro conjI allI impI)
  fix a :: "'a api" and w :: "'a websocket" assume "harmless a" "inv_as t p r w"
  then show "inv_as t p r (ws_call a w)"
    by (cases a) (simp_all add: send_inv close_inv startHeartbeat_inv addEventListener_def
        removeEventListener_def listeners_inv)
next
  fix w :: "'a websocket" and n assume "inv_as t p r w"
  then show "inv_as t p r (w\<lparr>notified := n\<rparr>)" by (rule inv_as_cong) simp_all
qed (rule listeners_inv)

lemmas dispatch_inv = dispatchEvent_stable[OF inv_as_stable]

text \<open>What a harmless call does not touch at all.\<close>

lemma send_frame [simp]:
  "attempts (snd (send d w)) = attempts w" "connectPending (snd (send d w)) = connectPending w"
  "closedByUser (snd (send d w)) = closedByUser w" "length (sockets (snd (send d w))) = length (sockets w)"
  "retryTimeout (snd (send d w)) = retryTimeout w" "connectionGeneration (snd (send d w)) = connectionGeneration w"
  by (simp_all add: send_def Let_def split: option.splits)

lemma close_frame [simp]:
  "attempts (close w) = attempts w" "connectPending (close w) = connectPending w" "closedByUser (close w)"
  "length (sockets (close w)) = length (sockets w)" "retryTimeout (close w) = None"
  by (simp_all add: close_def Let_def cancelScheduledConnectionRetry_def)

lemma attempts_stable: "call_stable (\<lambda>w. attempts w = t \<and> connectPending w = p)"
  unfolding call_stable_def
proof (intro conjI allI impI)
  fix a :: "'a api" and w :: "'a websocket" assume "harmless a" "attempts w = t \<and> connectPending w = p"
  then show "attempts (ws_call a w) = t" and "connectPending (ws_call a w) = p"
    by (cases a; simp add: addEventListener_def removeEventListener_def)+
qed simp_all

lemma dispatch_attempts:
  "no_reconnect L \<Longrightarrow> attempts (dispatchEvent L ev w) = attempts w \<and> connectPending (dispatchEvent L ev w) = connectPending w"
  by (rule dispatchEvent_stable[OF attempts_stable]) simp_all

lemma socket_inv_dispatch: "no_reconnect L \<Longrightarrow> socket_inv w \<Longrightarrow> socket_inv (dispatchEvent L ev w)"
  unfolding socket_inv_def using dispatch_inv[of L] dispatch_attempts[of L ev w] by simp

section \<open>Handlers\<close>

lemma schedule_frame:
  "attempts (scheduleConnectionRetryIfNeeded w) = attempts w"
  "connectPending (scheduleConnectionRetryIfNeeded w) = connectPending w"
  "sockets (scheduleConnectionRetryIfNeeded w) = sockets w"
  "underlyingWebsocket (scheduleConnectionRetryIfNeeded w) = underlyingWebsocket w"
  "heartbeatInterval (scheduleConnectionRetryIfNeeded w) = heartbeatInterval w"
  "connectionState (scheduleConnectionRetryIfNeeded w) = connectionState w"
  "closedByUser (scheduleConnectionRetryIfNeeded w) = closedByUser w"
  "connectionGeneration (scheduleConnectionRetryIfNeeded w) = connectionGeneration w"
  by (simp_all add: scheduleConnectionRetryIfNeeded_def cancelScheduledConnectionRetry_def Let_def split_beta
      split: option.splits)

lemma schedule_inv: "inv_as t p True w \<Longrightarrow> inv_as t p True (scheduleConnectionRetryIfNeeded w)"
  unfolding inv_as_def schedule_frame by simp

lemma inv_as_weaken: "inv_as t p True w \<Longrightarrow> inv_as t p False w"
  unfolding inv_as_def by (erule sockets_ok_weaken) simp_all

text \<open>When the connection is over, a retry may be scheduled.\<close>

lemma inv_as_over:
  assumes "inv_as t False r w" and "\<And>k. attached_in (sockets w) k \<Longrightarrow> over_in (sockets w) k"
    and "connectionState w \<noteq> Open" and "\<not> heartbeatInterval w"
  shows "inv_as t False True w"
  using assms unfolding inv_as_def sockets_ok_def by simp

lemma handleClose_inv:
  assumes "no_reconnect L" and "socket_inv w" and "\<not> connectPending w"
    and "\<And>k. attached_in (sockets w) k \<Longrightarrow> over_in (sockets w) k"
  shows "socket_inv (handleClose L w)"
proof -
  let ?v = "(stopHeartbeat w)\<lparr>connectionState := Closed\<rparr>"
  have "inv_as (attempts w) False False ?v"
    using assms(2,3) unfolding socket_inv_def by (auto elim!: inv_as_cong)
  then have "inv_as (attempts w) False True ?v" by (rule inv_as_over) (use assms(4) in simp_all)
  then have "inv_as (attempts w) False True (handleClose L w)"
    unfolding handleClose_def using dispatch_inv[OF assms(1)] schedule_inv by blast
  moreover have "attempts (handleClose L w) = attempts w" "connectPending (handleClose L w) = False"
    using assms(3) dispatch_attempts[OF assms(1), of "NoDetail CloseEvent" ?v]
    by (simp_all add: handleClose_def schedule_frame)
  ultimately show ?thesis unfolding socket_inv_def by (simp add: inv_as_weaken)
qed

text \<open>A new attempt may start once nothing is attached, scheduled or beating.\<close>

lemma tryConnect_inv:
  assumes "\<And>k. \<not> attached_in (sockets w) k" and "\<And>k. underlyingWebsocket w = Some k \<Longrightarrow> k < length (sockets w)"
    and "attempts w = []" and "retryTimeout w = None" and "connectionState w \<noteq> Open" and "\<not> heartbeatInterval w"
  shows "socket_inv (tryConnect w)"
  using assms unfolding socket_inv_def inv_as_def sockets_ok_def tryConnect_def by simp

lemma inv_as_current: "inv_as t p r w \<Longrightarrow> underlyingWebsocket w = Some k \<Longrightarrow> k < length (sockets w)"
  unfolding inv_as_def sockets_ok_def by blast

lemma inv_as_attached: "inv_as t p r w \<Longrightarrow> attached_in (sockets w) k \<Longrightarrow> underlyingWebsocket w = Some k \<and> \<not> p"
  unfolding inv_as_def sockets_ok_def by blast

lemma inv_as_pending:
  "inv_as t True r w \<Longrightarrow> retryTimeout w = None \<and> connectionState w \<noteq> Open \<and> \<not> heartbeatInterval w"
  unfolding inv_as_def sockets_ok_def by blast

lemma inv_as_retrying:
  "inv_as t p True w \<Longrightarrow> connectionState w \<noteq> Open \<and> \<not> heartbeatInterval w"
  unfolding inv_as_def sockets_ok_def by blast

lemma inv_as_idle: "inv_as t False r w \<Longrightarrow> t = []"
  unfolding inv_as_def sockets_ok_def by simp

lemma clearWebsocket_fields [simp]:
  "attempts (clearWebsocket w) = attempts w" "connectPending (clearWebsocket w) = connectPending w"
  "underlyingWebsocket (clearWebsocket w) = underlyingWebsocket w" "retryTimeout (clearWebsocket w) = retryTimeout w"
  "connectionState (clearWebsocket w) = connectionState w" "heartbeatInterval (clearWebsocket w) = heartbeatInterval w"
  "length (sockets (clearWebsocket w)) = length (sockets w)" "closedByUser (clearWebsocket w) = closedByUser w"
  by (simp_all add: clearWebsocket_def)

lemma clearWebsocket_detaches:
  assumes "inv_as t p r w"
  shows "\<not> attached_in (sockets (clearWebsocket w)) k"
proof (cases "underlyingWebsocket w")
  case None
  then show ?thesis using inv_as_attached[OF assms, of k] by (simp add: clearWebsocket_def update_current_def) blast
next
  case (Some j)
  have "so_attached (let s1 = s\<lparr>so_attached := False\<rparr> in if so_readyState s = CONNECTING then s1\<lparr>so_abandoned := True\<rparr>
      else if so_readyState s \<noteq> CLOSED then socket_close s1 else s1) = False" for s :: "'a socket"
    by (simp add: socket_close_def Let_def)
  then show ?thesis using Some inv_as_attached[OF assms, of k] inv_as_current[OF assms Some]
    by (cases "k = j") (simp_all add: clearWebsocket_def update_current_def update_socket_def attached_in_def, blast)
qed

lemma reconnect_inv:
  assumes "socket_inv w"
  shows "socket_inv (reconnect w)"
proof (cases "connectPending w")
  case True
  then show ?thesis using assms unfolding socket_inv_def
    by (auto simp: reconnect_def Let_def elim!: inv_as_cong)
next
  case False
  let ?v = "stopHeartbeat (cancelScheduledConnectionRetry (w\<lparr>closedByUser := False\<rparr>))"
  have v: "inv_as (attempts w) (connectPending w) False ?v"
    using assms unfolding socket_inv_def
    by (rule inv_as_cong) (simp_all add: cancelScheduledConnectionRetry_def)
  have "socket_inv (tryConnect ((clearWebsocket ?v)\<lparr>connectionState := Reconnecting\<rparr>))"
  proof (rule tryConnect_inv)
    show "\<not> attached_in (sockets ((clearWebsocket ?v)\<lparr>connectionState := Reconnecting\<rparr>)) k" for k
      using clearWebsocket_detaches[OF v, of k] by simp
    show "attempts ((clearWebsocket ?v)\<lparr>connectionState := Reconnecting\<rparr>) = []"
      using inv_as_idle[of "attempts w" False w] assms False
      by (simp add: cancelScheduledConnectionRetry_def socket_inv_def)
  qed (use inv_as_current[OF v] in \<open>simp_all add: cancelScheduledConnectionRetry_def\<close>)
  then show ?thesis using False by (simp add: reconnect_def Let_def)
qed

lemma ws_call_inv: "socket_inv w \<Longrightarrow> socket_inv (ws_call a w)"
proof -
  assume w: "socket_inv w"
  have "socket_inv (ws_call a w)" if "harmless a"
    using call_stableD[OF inv_as_stable that w[unfolded socket_inv_def]]
      call_stableD[OF attempts_stable[of "attempts w" "connectPending w"] that] unfolding socket_inv_def by simp
  then show ?thesis using w reconnect_inv[OF w] by (cases a) (simp_all add: reconnectIfDisconnected_def)
qed

text \<open>The loop that empties the buffer keeps what sending keeps.\<close>

lemma sendBufferedData_loop_keeps:
  assumes send: "\<And>d v. P v \<Longrightarrow> P (snd (send d v))" and buf: "\<And>b v. P v \<Longrightarrow> P (v\<lparr>buffer := b\<rparr>)"
    and "sendBufferedData_loop ele b w = Some w'" and "P w"
  shows "P w'"
proof -
  have "P w \<longrightarrow> P w'"
  proof (rule sendBufferedData_loop.raw_induct[OF _ assms(3), where P = "\<lambda>ele b w w'. P w \<longrightarrow> P w'"], rule impI)
    fix loop and ele :: "'a option" and b w w'
    assume IH: "\<And>ele b w w'. loop ele b w = Some w' \<Longrightarrow> P w \<longrightarrow> P w'"
      and eq: "(case ele of None \<Rightarrow> Some (w\<lparr>buffer := Some b\<rparr>)
        | Some d \<Rightarrow> (let w1 = snd (send d (w\<lparr>buffer := Some b\<rparr>))
          in case buffer w1 of None \<Rightarrow> Some w1
             | Some b1 \<Rightarrow> (let (ele1, b2) = buffer_read b1 in loop ele1 b2 w1))) = Some w'"
      and w: "P w"
    show "P w'"
    proof (cases ele)
      case None
      then show ?thesis using eq buf[OF w] by auto
    next
      case (Some d)
      let ?w1 = "snd (send d (w\<lparr>buffer := Some b\<rparr>))"
      have "P ?w1" by (rule send[OF buf[OF w]])
      then show ?thesis using eq Some IH by (cases "buffer ?w1") (auto simp: Let_def split_beta)
    qed
  qed
  then show ?thesis using assms(4) by blast
qed

lemma sendBufferedData_keeps:
  assumes "\<And>d v. P v \<Longrightarrow> P (snd (send d v))" and "\<And>b v. P v \<Longrightarrow> P (v\<lparr>buffer := b\<rparr>)"
    and "sendBufferedData w = Some w'" and "P w"
  shows "P w'"
  using assms(3,4) sendBufferedData_loop_keeps[of P, OF assms(1,2)]
  by (auto simp: sendBufferedData_def Let_def split_beta split: option.splits)

definition socket_inv_at :: "nat list \<Rightarrow> bool \<Rightarrow> 'd websocket \<Rightarrow> bool" where
  "socket_inv_at t p w \<longleftrightarrow> inv_as t p False w \<and> attempts w = t \<and> connectPending w = p"

lemma socket_inv_atI: "socket_inv w \<Longrightarrow> socket_inv_at (attempts w) (connectPending w) w"
  by (simp add: socket_inv_at_def socket_inv_def)

lemma socket_inv_atD: "socket_inv_at t p w \<Longrightarrow> socket_inv w"
  by (simp add: socket_inv_at_def socket_inv_def)

lemma at_dispatch: "no_reconnect L \<Longrightarrow> socket_inv_at t p w \<Longrightarrow> socket_inv_at t p (dispatchEvent L ev w)"
  using dispatch_inv[of L] dispatch_attempts[of L ev w] by (simp add: socket_inv_at_def)

lemma at_cong:
  "socket_inv_at t p w \<Longrightarrow> sockets v = sockets w \<Longrightarrow> underlyingWebsocket v = underlyingWebsocket w \<Longrightarrow>
   attempts v = attempts w \<Longrightarrow> connectPending v = connectPending w \<Longrightarrow>
   (retryTimeout v \<noteq> None \<longrightarrow> retryTimeout w \<noteq> None) \<Longrightarrow>
   (heartbeatInterval v \<longrightarrow> heartbeatInterval w \<or> connectionState w = Open) \<Longrightarrow>
   (connectionState v = Open \<longrightarrow> connectionState w = Open) \<Longrightarrow> socket_inv_at t p v"
  using inv_as_cong[of t p False w v] by (simp add: socket_inv_at_def)

lemma at_send: "socket_inv_at t p w \<Longrightarrow> socket_inv_at t p (snd (send d w))"
  by (simp add: socket_inv_at_def send_inv)

text \<open>A socket that opens: nothing is pending and no retry is scheduled, so the state may be \<open>Open\<close>.\<close>

lemma handleOpen_inv:
  assumes "no_reconnect L" and "socket_inv w" and "\<not> connectPending w" and "retryTimeout w = None"
    and "handleOpen L now w = Some w'"
  shows "socket_inv w'"
proof -
  let ?I = "socket_inv_at (attempts w) False"
  have w1: "?I (w\<lparr>connectionState := Open\<rparr>)"
    using assms(2-4) unfolding socket_inv_at_def socket_inv_def inv_as_def sockets_ok_def by simp
  define w2 where "w2 = (case retryBackoff (w\<lparr>connectionState := Open\<rparr>) of
      Some b \<Rightarrow> if lastConnection (w\<lparr>connectionState := Open\<rparr>) \<noteq> None
        then dispatchEvent L (ReconnectDetail (bo_retries b) (lastConnection (w\<lparr>connectionState := Open\<rparr>)) (ws_url (w\<lparr>connectionState := Open\<rparr>))) (w\<lparr>connectionState := Open\<rparr>)
        else w\<lparr>connectionState := Open\<rparr>
    | None \<Rightarrow> w\<lparr>connectionState := Open\<rparr>)"
  define w3 where "w3 = w2\<lparr>retryBackoff := map_option bo_reset (retryBackoff w2)\<rparr>"
  define w4 where "w4 = (if hb_autoStart (heartbeat w3) \<noteq> Some False then startHeartbeat w3 else w3)"
  have "?I w2" unfolding w2_def using w1 at_dispatch[OF assms(1) w1] by (simp split: option.splits)
  then have w3: "?I w3" unfolding w3_def by (rule at_cong) simp_all
  have "?I (startHeartbeat w3)" using startHeartbeat_open[of w3] by (intro at_cong[OF w3]) simp_all
  then have "?I w4" using w3 by (simp add: w4_def)
  then have "?I (w4\<lparr>lastConnection := Some now\<rparr>)" by (rule at_cong) simp_all
  then have w5: "?I (dispatchEvent L (NoDetail OpenEvent) (w4\<lparr>lastConnection := Some now\<rparr>))"
    by (rule at_dispatch[OF assms(1)])
  have "?I w'"
  proof (rule sendBufferedData_keeps[of ?I, OF at_send _ _ w5])
    show "?I (v\<lparr>buffer := b\<rparr>)" if "?I v" for b v by (rule at_cong[OF that]) simp_all
    show "sendBufferedData (dispatchEvent L (NoDetail OpenEvent) (w4\<lparr>lastConnection := Some now\<rparr>)) = Some w'"
      using assms(5) unfolding handleOpen_def Let_def w2_def w3_def w4_def .
  qed
  then show ?thesis by (rule socket_inv_atD)
qed

lemma no_retry_stable: "call_stable (\<lambda>w. retryTimeout w = None)"
  unfolding call_stable_def
proof (intro conjI allI impI)
  fix a :: "'a api" and w :: "'a websocket" assume "harmless a" "retryTimeout w = None"
  then show "retryTimeout (ws_call a w) = None" by (cases a) (simp_all add: addEventListener_def removeEventListener_def)
qed simp_all

lemma handleRetry_inv:
  assumes "no_reconnect L" and "socket_inv w" and "retryTimeout w \<noteq> None"
  shows "socket_inv (handleRetry L d (w\<lparr>retryTimeout := None\<rparr>))"
proof -
  have pending: "\<not> connectPending w" and w: "inv_as (attempts w) (connectPending w) True w"
    using assms(2,3) unfolding socket_inv_def inv_as_def sockets_ok_def by blast+
  let ?v = "w\<lparr>retryTimeout := None, connectionState := Reconnecting\<rparr>"
  let ?d = "dispatchEvent L (RetryDetail d) ?v"
  have "inv_as (attempts w) (connectPending w) True ?v" by (rule inv_as_cong[OF w]) simp_all
  then have d: "inv_as (attempts w) (connectPending w) True ?d" by (rule dispatch_inv[OF assms(1)])
  have t: "attempts w = []" using inv_as_idle w pending by simp
  have none: "retryTimeout ?d = None" by (rule dispatchEvent_stable[OF no_retry_stable assms(1)]) simp
  have "socket_inv (tryConnect (clearWebsocket ?d))"
    by (rule tryConnect_inv)
      (use clearWebsocket_detaches[OF d] inv_as_current[OF d] inv_as_retrying[OF d] none t
        dispatch_attempts[OF assms(1), of "RetryDetail d" ?v] in simp_all)
  then show ?thesis by (simp add: handleRetry_def)
qed

lemma at_socket_close: "socket_inv_at t p w \<Longrightarrow> socket_inv_at t p (update_current socket_close w)"
  by (simp add: socket_inv_at_def inv_as_update)

lemma at_timers:
  "socket_inv_at t p w \<Longrightarrow> socket_inv_at t p (w\<lparr>heartbeatTimeout := a, heartbeatTimers := b, timersStarted := c\<rparr>)"
  by (erule at_cong) simp_all

lemma handleHeartbeatTimeout_inv:
  assumes "no_reconnect L" and "socket_inv w"
  shows "socket_inv (handleHeartbeatTimeout L w)"
proof -
  let ?I = "socket_inv_at (attempts w) (connectPending w)"
  let ?w1 = "w\<lparr>missedHeartbeats := missedHeartbeats w + 1\<rparr>"
  have w1: "?I ?w1" by (rule at_cong[OF socket_inv_atI[OF assms(2)]]) simp_all
  then have "?I (handleHeartbeatTimeout L w)"
    using at_dispatch[OF assms(1) w1] at_socket_close[OF at_dispatch[OF assms(1) w1]]
    by (simp add: handleHeartbeatTimeout_def Let_def split: option.splits)
  then show ?thesis by (rule socket_inv_atD)
qed

lemma sendHeartbeat_inv:
  assumes "no_reconnect L" and "socket_inv w" and "connectionState w = Open"
  shows "socket_inv (sendHeartbeat L w)"
proof (cases "\<exists>s. current_socket w = Some s \<and> (so_readyState s = CLOSING \<or> so_readyState s = CLOSED)")
  case True
  then obtain s k where s: "underlyingWebsocket w = Some k" "sockets w ! k = s"
      "so_readyState s = CLOSING \<or> so_readyState s = CLOSED" and cur: "current_socket w = Some s"
    by (auto simp: current_socket_def split: option.splits if_splits)
  have "over_in (sockets w) j" if "attached_in (sockets w) j" for j
    using inv_as_attached[OF assms(2)[unfolded socket_inv_def] that] s that by (auto simp: over_in_def attached_in_def)
  moreover have "\<not> connectPending w"
    using assms(2,3) unfolding socket_inv_def inv_as_def sockets_ok_def by blast
  ultimately have "socket_inv (handleClose L w)" by (intro handleClose_inv assms)
  then show ?thesis using cur s(3) assms(2) by (simp add: sendHeartbeat_def split: option.splits)
next
  case False
  let ?I = "socket_inv_at (attempts w) (connectPending w)"
  have w: "?I w" by (rule socket_inv_atI[OF assms(2)])
  have "?I (let w1 = update_current (\<lambda>s. s\<lparr>so_sent := so_sent s @ [ping]\<rparr>) w;
              w2 = dispatchEvent L (HeartbeatDetail HeartbeatSent ping) w1
          in w2\<lparr>heartbeatTimeout := Some (timersStarted w2),
                heartbeatTimers := heartbeatTimers w2 @ [timersStarted w2],
                timersStarted := timersStarted w2 + 1\<rparr>)" for ping
  proof -
    have "?I (update_current (\<lambda>s. s\<lparr>so_sent := so_sent s @ [ping]\<rparr>) w)"
      using w by (simp add: socket_inv_at_def inv_as_update)
    then show ?thesis unfolding Let_def by (intro at_timers at_dispatch assms(1))
  qed
  then have "?I (sendHeartbeat L w)" using False w by (auto simp: sendHeartbeat_def split: option.splits)
  then show ?thesis by (rule socket_inv_atD)
qed

lemma handleMessageEvent_inv:
  assumes "no_reconnect L" and "socket_inv w"
  shows "socket_inv (handleMessageEvent L d w)"
proof -
  have "socket_inv (handleHeartbeatReceived L d w)"
    unfolding handleHeartbeatReceived_def Let_def
    by (rule socket_inv_atD[OF at_dispatch[OF assms(1) at_cong[OF socket_inv_atI[OF assms(2)]]]]) simp_all
  then show ?thesis
    using assms by (simp add: handleMessageEvent_def deliver_message_def socket_inv_dispatch split: option.splits)
qed

section \<open>The end of a connection attempt\<close>

lemma finally_inv:
  assumes "inv_as [0] True False w" and "attempts w = []"
  shows "socket_inv (connect_finally g w)"
proof -
  have "socket_inv (tryConnect (w\<lparr>connectPending := False\<rparr>))"
    by (rule tryConnect_inv) (use inv_as_attached[OF assms(1)] inv_as_current[OF assms(1)]
        inv_as_pending[OF assms(1)] assms(2) in auto)
  moreover have "socket_inv (w\<lparr>connectPending := False\<rparr>)"
    using assms unfolding socket_inv_def inv_as_def sockets_ok_def by simp
  ultimately show ?thesis by (simp add: connect_finally_def Let_def)
qed

definition kept_generation :: "nat \<Rightarrow> 'd websocket \<Rightarrow> bool" where
  "kept_generation g w \<longleftrightarrow> closedByUser w \<or> g = connectionGeneration w"

lemma kept_generation_stable: "call_stable (kept_generation g)"
  unfolding call_stable_def
proof (intro conjI allI impI)
  fix a :: "'a api" and w :: "'a websocket" assume "harmless a" "kept_generation g w"
  then show "kept_generation g (ws_call a w)"
    by (cases a) (simp_all add: kept_generation_def addEventListener_def removeEventListener_def)
qed (simp_all add: kept_generation_def)

lemma finally_retry_inv:
  assumes "inv_as [0] True False w" and "attempts w = []" and "kept_generation g w"
  shows "socket_inv (connect_finally g (scheduleConnectionRetryIfNeeded w))"
proof -
  have "connect_finally g (scheduleConnectionRetryIfNeeded w) = (scheduleConnectionRetryIfNeeded w)\<lparr>connectPending := False\<rparr>"
    using assms(3) by (auto simp: connect_finally_def Let_def schedule_frame kept_generation_def)
  then show ?thesis using assms(1,2) unfolding socket_inv_def inv_as_def sockets_ok_def by (simp add: schedule_frame)
qed

lemma finally_open_inv:
  assumes "inv_as [0] True False w" and "attempts w = []" and "kept_generation g w"
  shows "socket_inv (connect_finally g (open_socket url w))"
proof -
  have eq: "connect_finally g (open_socket url w) = (open_socket url w)\<lparr>connectPending := False\<rparr>"
    using assms(3) by (auto simp: connect_finally_def Let_def open_socket_def kept_generation_def)
  have "underlyingWebsocket (open_socket url w) = Some k"
    if "attached_in (sockets (open_socket url w)) k" for k
    using that inv_as_attached[OF assms(1), of k]
    by (auto simp: open_socket_def attached_in_def nth_append less_Suc_eq split: if_splits)
  moreover have "retryTimeout (open_socket url w) = None"
    using inv_as_pending[OF assms(1)] by (simp add: open_socket_def)
  ultimately show ?thesis using assms(2)
    unfolding eq socket_inv_def inv_as_def sockets_ok_def by (simp add: open_socket_def)
qed

lemma tryConnect_resumes_inv:
  assumes "no_reconnect L" and "inv_as [0] True False w" and "attempts w = []"
  shows "socket_inv (tryConnect_resumes L g resolved factoryOk w)"
proof -
  have fails: "socket_inv (connect_finally g (connect_fails L g v))" if "inv_as [0] True False v" "attempts v = []" for v
  proof (cases "superseded_attempt g v")
    case True
    then show ?thesis using finally_inv[OF that] by (simp add: connect_fails_def)
  next
    case False
    let ?v = "v\<lparr>connectionState := Closed\<rparr>" and ?e = "NoDetail ErrorEvent"
    have "inv_as [0] True False ?v" by (rule inv_as_cong[OF that(1)]) simp_all
    then have "inv_as [0] True False (dispatchEvent L ?e ?v)" by (rule dispatch_inv[OF assms(1)])
    moreover have "kept_generation g (dispatchEvent L ?e ?v)"
      by (rule dispatchEvent_stable[OF kept_generation_stable assms(1)])
        (use False in \<open>simp add: superseded_attempt_def kept_generation_def\<close>)
    ultimately have "socket_inv (connect_finally g (scheduleConnectionRetryIfNeeded (dispatchEvent L ?e ?v)))"
      by (intro finally_retry_inv) (simp_all add: dispatch_attempts[OF assms(1)] that(2))
    then show ?thesis using False by (simp add: connect_fails_def)
  qed
  show ?thesis
  proof (cases resolved)
    case None
    then show ?thesis using fails[OF assms(2,3)] by (simp add: tryConnect_resumes_def)
  next
    case (Some url)
    let ?v = "w\<lparr>ws_url := Some url\<rparr>"
    define w1 where "w1 = dispatchEvent L (UrlResolvedDetail url) ?v"
    have "inv_as [0] True False ?v" by (rule inv_as_cong[OF assms(2)]) simp_all
    then have w1: "inv_as [0] True False w1" unfolding w1_def by (rule dispatch_inv[OF assms(1)])
    have t: "attempts w1 = []" by (simp add: w1_def dispatch_attempts[OF assms(1)] assms(3))
    have "kept_generation g w1" if "\<not> superseded_attempt g w1"
      using that by (simp add: superseded_attempt_def kept_generation_def)
    then have "socket_inv (connect_finally g (if superseded_attempt g w1 then w1
        else if factoryOk then open_socket url w1 else connect_fails L g w1))"
      using finally_inv[OF w1 t] finally_open_inv[OF w1 t] fails[OF w1 t] by simp
    then show ?thesis using finally_inv[OF assms(2,3)]
      by (simp add: tryConnect_resumes_def Some Let_def flip: w1_def)
  qed
qed

section \<open>Every input\<close>

lemma opening_idle:
  assumes "socket_inv w" and "attached k w" and "socket_state k w = Some CONNECTING"
  shows "\<not> connectPending w" and "retryTimeout w = None"
proof -
  have "attached_in (sockets w) k" and "\<not> over_in (sockets w) k"
    using assms(2,3) by (auto simp: attached_def attached_in_def over_in_def socket_state_def)
  then show "\<not> connectPending w" and "retryTimeout w = None"
    using assms(1) unfolding socket_inv_def inv_as_def sockets_ok_def by blast+
qed

lemma not_over_update:
  assumes "inv_as t p r w" and "socket_state k w = Some CONNECTING"
    and "\<And>s. so_attached (f s) = so_attached s"
  shows "inv_as t p r (update_socket k f w)"
proof (cases "k < length (sockets w)")
  case True
  let ?ss = "(sockets w)[k := f (sockets w ! k)]"
  have "attached_in ?ss j = attached_in (sockets w) j" for j
    using assms(3) True by (cases "j = k") (simp_all add: attached_in_def)
  moreover have "over_in ?ss j" if "over_in (sockets w) j" for j
    using that assms(2) by (cases "j = k") (auto simp: over_in_def socket_state_def)
  ultimately show ?thesis using assms(1) True
    unfolding inv_as_def sockets_ok_def update_socket_def by simp
qed (use assms in \<open>simp add: update_socket_def\<close>)

lemma SocketOpens_inv:
  assumes "no_reconnect L" and "socket_inv w" and "ws_step L (SocketOpens k now) w = Some w'"
  shows "socket_inv w'"
proof (cases "socket_state k w = Some CONNECTING")
  case True
  let ?f = "\<lambda>s. let s1 = s\<lparr>so_readyState := OPEN\<rparr> in if so_abandoned s then socket_close s1 else s1"
  have f: "so_attached (?f s) = so_attached s" for s :: "'a socket" by (simp add: Let_def socket_close_def)
  have v: "socket_inv (update_socket k ?f w)"
    using not_over_update[OF assms(2)[unfolded socket_inv_def] True f] by (simp add: socket_inv_def)
  show ?thesis
  proof (cases "attached k w")
    case att: True
    then have "handleOpen L now (update_socket k ?f w) = Some w'" using assms(3) True by (simp add: Let_def)
    then show ?thesis using handleOpen_inv[OF assms(1) v] opening_idle[OF assms(2) att True] by simp
  qed (use assms(3) v True in \<open>simp add: Let_def\<close>)
qed (use assms in simp)

lemma SocketCloses_inv:
  assumes "no_reconnect L" and "socket_inv w"
  shows "socket_inv (if attached k w then handleClose L (update_socket k (\<lambda>s. s\<lparr>so_readyState := CLOSED\<rparr>) w)
           else update_socket k (\<lambda>s. s\<lparr>so_readyState := CLOSED\<rparr>) w)"
proof -
  let ?v = "update_socket k (\<lambda>s. s\<lparr>so_readyState := CLOSED\<rparr>) w"
  have v: "socket_inv ?v" using assms(2) by (simp add: socket_inv_def inv_as_update_socket)
  have "socket_inv (handleClose L ?v)" if "attached k w"
  proof (rule handleClose_inv[OF assms(1) v])
    have a: "attached_in (sockets w) k" using that by (simp add: attached_def attached_in_def)
    note cur = inv_as_attached[OF assms(2)[unfolded socket_inv_def] a]
    then show "\<not> connectPending ?v" by simp
    show "over_in (sockets ?v) j" if "attached_in (sockets ?v) j" for j
      using inv_as_attached[OF v[unfolded socket_inv_def] that] cur a
      by (simp add: over_in_def update_socket_def attached_in_def)
  qed
  then show ?thesis using v by simp
qed

lemma ws_step_inv:
  assumes "no_reconnect L" and "socket_inv w" and "ws_step L i w = Some w'"
  shows "socket_inv w'"
proof (cases i)
  case (Call a)
  then show ?thesis using assms ws_call_inv by auto
next
  case (UrlSettles n resolved factoryOk)
  have "socket_inv (tryConnect_resumes L (attempts w ! n) resolved factoryOk (w\<lparr>attempts := drop_nth n (attempts w)\<rparr>))"
    if "n < length (attempts w)"
  proof (rule tryConnect_resumes_inv[OF assms(1)])
    have p: "connectPending w" "length (attempts w) = 1"
      using that assms(2) unfolding socket_inv_def inv_as_def sockets_ok_def by (simp_all split: if_splits)
    then show "inv_as [0] True False (w\<lparr>attempts := drop_nth n (attempts w)\<rparr>)"
      using assms(2) unfolding socket_inv_def inv_as_def sockets_ok_def by simp
    show "attempts (w\<lparr>attempts := drop_nth n (attempts w)\<rparr>) = []" using that p by (simp add: drop_nth_def)
  qed
  then show ?thesis using assms UrlSettles by (auto split: if_splits)
next
  case (SocketOpens k now)
  then show ?thesis using SocketOpens_inv assms by blast
next
  case (SocketCloses k)
  then show ?thesis using SocketCloses_inv[OF assms(1,2), of k] assms by (auto simp: Let_def split: if_splits)
next
  case (SocketErrors k)
  have "socket_inv (handleError L w)" unfolding handleError_def
    by (rule socket_inv_atD[OF at_dispatch[OF assms(1) at_cong[OF socket_inv_atI[OF assms(2)]]]]) simp_all
  then show ?thesis using assms SocketErrors by (auto split: if_splits)
next
  case (SocketReceives k d)
  then show ?thesis using assms handleMessageEvent_inv[OF assms(1,2)] by (auto split: if_splits)
next
  case RetryFires
  then show ?thesis using assms handleRetry_inv[OF assms(1,2)] by (auto split: option.splits)
next
  case HeartbeatTicks
  then show ?thesis using assms sendHeartbeat_inv[OF assms(1,2)] by (auto split: if_splits)
next
  case (HeartbeatTimesOut t)
  have "socket_inv (w\<lparr>heartbeatTimers := ts\<rparr>)" for ts
    by (rule socket_inv_atD[OF at_cong[OF socket_inv_atI[OF assms(2)]]]) simp_all
  then show ?thesis using assms HeartbeatTimesOut handleHeartbeatTimeout_inv[OF assms(1)] by (auto split: if_splits)
qed

lemma ws_run_invariant:
  assumes "\<And>i w w'. P w \<Longrightarrow> ws_step L i w = Some w' \<Longrightarrow> P w'" and "P w" and "ws_run L is w = Some w'"
  shows "P w'"
  using assms(2,3) by (induction "is" arbitrary: w) (auto split: option.splits intro: assms(1))

lemma websocket_new_inv: "socket_inv (websocket_new url opts)"
  by (simp add: websocket_new_def Let_def tryConnect_def socket_inv_def inv_as_def sockets_ok_def attached_in_def)

text \<open>
  C34.  As long as no listener itself reconnects, whatever the application, the network and the
  timers do, at most one native socket feeds events into the websocket and it is the current
  one, at most one connection attempt is in progress, and while one is, no socket is attached
  and no retry is scheduled.
\<close>

theorem at_most_one_socket:
  assumes "no_reconnect L" and "ws_run L is (websocket_new url opts) = Some w"
  shows "(\<forall>k. attached k w \<longrightarrow> underlyingWebsocket w = Some k) \<and> length (attempts w) \<le> 1 \<and>
    (connectPending w \<longleftrightarrow> attempts w \<noteq> []) \<and>
    (attempts w \<noteq> [] \<longrightarrow> (\<forall>k. \<not> attached k w) \<and> retryTimeout w = None)"
proof -
  have w: "socket_inv w"
    by (rule ws_run_invariant[where P = socket_inv, OF _ websocket_new_inv assms(2)]) (rule ws_step_inv[OF assms(1)])
  have att: "attached k w = attached_in (sockets w) k" for k by (simp add: attached_def attached_in_def)
  have "length (attempts w) = (if connectPending w then 1 else 0)"
    using w unfolding socket_inv_def inv_as_def sockets_ok_def by blast
  moreover have "\<forall>k. attached_in (sockets w) k \<longrightarrow> underlyingWebsocket w = Some k"
    "connectPending w \<longrightarrow> (\<forall>k. \<not> attached_in (sockets w) k) \<and> retryTimeout w = None"
    using w unfolding socket_inv_def inv_as_def sockets_ok_def by blast+
  ultimately show ?thesis unfolding att by (auto split: if_splits)
qed

end
