(* ===== verification/Websocket_Runs.thy ===== *)
theory Websocket_Runs
  imports Websocket_Properties
begin

text \<open>
  More of the reconnecting websocket: what a dispatch does to the listeners, how opening
  drains the buffer and when it hangs, that a close by the user is final until somebody
  reconnects, and the run in which a listener leaves two sockets attached.
\<close>

section \<open>Dispatching\<close>

lemma ws_call_notified [simp]: "notified (ws_call a w) = notified w"
  by (cases a) (simp_all add: send_def close_def startHeartbeat_def stopHeartbeat_def addEventListener_def
      removeEventListener_def reconnect_def reconnectIfDisconnected_def tryConnect_def clearWebsocket_def
      cancelScheduledConnectionRetry_def update_current_def update_socket_def Let_def split: option.splits)

lemma fold_ws_call_notified [simp]: "notified (fold ws_call as w) = notified w"
  by (induction as arbitrary: w) simp_all

lemma fold_notify_notified:
  "notified (fold (notify L ev) ls w) = notified w @ map (\<lambda>l. (l_listener l, ev)) ls"
  by (induction ls arbitrary: w) (simp_all add: notify_def)

text \<open>
  Whatever the listeners do, dispatching an event calls exactly the listeners that were
  registered for it when the dispatch began, each once and in order of registration, and
  leaves registered for it exactly those that are not once-listeners: a listener that another
  one adds or removes meanwhile, itself included, is as if it had not been added or removed.
\<close>

theorem dispatch_replaces_listeners:
  "notified (dispatchEvent L ev w) = notified w @ map (\<lambda>l. (l_listener l, ev)) (listeners w (event_type ev)) \<and>
   listeners (dispatchEvent L ev w) (event_type ev) = filter (\<lambda>l. \<not> is_once l) (listeners w (event_type ev))"
  by (simp add: dispatchEvent_def Let_def fold_notify_notified)

section \<open>The buffer\<close>

fun buffer_contents :: "'d websocket_buffer \<Rightarrow> 'd list" where
  "buffer_contents (ArrayBuffered q) = aq_elements q"
| "buffer_contents (RingBuffered q) = rq_contents q"

fun buffer_inv :: "'d websocket_buffer \<Rightarrow> bool" where
  "buffer_inv (ArrayBuffered q) = True"
| "buffer_inv (RingBuffered q) = rq_inv q"

lemma buffer_read_spec:
  assumes "buffer_inv b"
  obtains b' where "buffer_read b = (case buffer_contents b of [] \<Rightarrow> None | x # _ \<Rightarrow> Some x, b')"
    and "buffer_inv b'" and "buffer_contents b' = tl (buffer_contents b)"
proof (cases b)
  case (ArrayBuffered q)
  show ?thesis by (rule that[of "ArrayBuffered (snd (aq_read q))"])
      (use aq.fst_read[of q] aq.peek_contents[of q] aq.contents_read[of q] ArrayBuffered in \<open>simp_all add: apsnd_def map_prod_def split_beta\<close>)
next
  case (RingBuffered q)
  show ?thesis by (rule that[of "RingBuffered (snd (rq_read q))"])
      (use assms rq.fst_read[of q] rq.peek_contents[of q] rq.contents_read[of q] rq.invar_read[of q] RingBuffered in
        \<open>simp_all add: apsnd_def map_prod_def split_beta\<close>)
qed

lemma buffer_read_nonempty:
  assumes "buffer_inv b" and "buffer_contents b \<noteq> []"
  obtains x b' where "buffer_read b = (Some x, b')" and "buffer_inv b'"
  by (rule buffer_read_spec[OF assms(1)]) (use assms(2) that in \<open>auto simp: neq_Nil_conv\<close>)

lemma buffer_add_nonempty:
  assumes "buffer_inv b"
  shows "buffer_inv (buffer_add d b)" and "buffer_contents (buffer_add d b) \<noteq> []"
proof -
  show "buffer_inv (buffer_add d b)" using assms by (cases b) (simp_all add: rq.invar_add)
  have "rq_contents (rq_add d q) \<noteq> []" if "rq_inv q" for q :: "'a ring_queue"
    using that rq_invD(1)[OF that] by (simp add: rq.contents_add keep_newest_def rq_capacity_def)
  then show "buffer_contents (buffer_add d b) \<noteq> []" using assms by (cases b) (simp_all add: aq.contents_add)
qed

definition append_sent :: "'d list \<Rightarrow> 'd socket \<Rightarrow> 'd socket" where
  "append_sent ds s = s\<lparr>so_sent := so_sent s @ ds\<rparr>"

lemma append_sent_comp: "append_sent es (append_sent ds s) = append_sent (ds @ es) s"
  by (simp add: append_sent_def)

definition open_at :: "nat \<Rightarrow> 'd websocket \<Rightarrow> bool" where
  "open_at k w \<longleftrightarrow> underlyingWebsocket w = Some k \<and> k < length (sockets w) \<and>
     so_readyState (sockets w ! k) = OPEN \<and> \<not> closedByUser w"

definition sent_all :: "nat \<Rightarrow> 'd list \<Rightarrow> 'd websocket \<Rightarrow> 'd websocket" where
  "sent_all k ds w = update_socket k (append_sent (map (\<lambda>d. serializeIfNeeded d (serializer w)) ds)) w"

lemma sent_all_Nil: "open_at k w \<Longrightarrow> sent_all k [] w = w"
  by (simp add: sent_all_def update_socket_def append_sent_def)

lemma sent_all_Cons: "open_at k w \<Longrightarrow> sent_all k ds (sent_all k [d] w) = sent_all k (d # ds) w"
  by (simp add: sent_all_def update_socket_def append_sent_comp open_at_def)

lemma sent_all_buffer: "(sent_all k ds w)\<lparr>buffer := b\<rparr> = sent_all k ds (w\<lparr>buffer := b\<rparr>)"
  by (simp add: sent_all_def update_socket_def)

lemma send_open: "open_at k w \<Longrightarrow> snd (send d w) = sent_all k [d] w"
  by (simp add: open_at_def send_def current_socket_def sent_all_def update_current_def
      update_socket_def append_sent_def Let_def)

lemma open_at_sent: "open_at k w \<Longrightarrow> open_at k (sent_all k ds (w\<lparr>buffer := b\<rparr>))"
  by (simp add: open_at_def sent_all_def update_socket_def append_sent_def)

lemma drain:
  assumes "open_at k w" and "buffer_inv b"
  shows "\<exists>b'. (let (ele, b1) = buffer_read b in sendBufferedData_loop ele b1 w) =
             Some (sent_all k (buffer_contents b) (w\<lparr>buffer := Some b'\<rparr>)) \<and> buffer_contents b' = []"
  using assms
proof (induction "buffer_contents b" arbitrary: b w)
  case Nil
  from buffer_read_spec[OF Nil.prems(2)] Nil.hyps obtain b'
    where "buffer_read b = (None, b')" "buffer_contents b' = []" by auto
  moreover have "sent_all k [] (w\<lparr>buffer := Some b'\<rparr>) = w\<lparr>buffer := Some b'\<rparr>" for b'
    using Nil.prems(1) by (intro sent_all_Nil) (simp add: open_at_def)
  ultimately show ?case using Nil.hyps by (auto simp: sendBufferedData_loop.simps)
next
  case (Cons d ds)
  from buffer_read_spec[OF Cons.prems(2)] Cons.hyps(2)[symmetric] obtain b1
    where b1: "buffer_read b = (Some d, b1)" "buffer_inv b1" "ds = buffer_contents b1" by auto
  let ?w1 = "sent_all k [d] (w\<lparr>buffer := Some b1\<rparr>)"
  have o: "open_at k (w\<lparr>buffer := x\<rparr>)" for x using Cons.prems(1) by (simp add: open_at_def)
  from Cons.hyps(1)[OF b1(3) open_at_sent[OF Cons.prems(1)] b1(2), of "[d]" "Some b1"] obtain b' where
    "(let (ele, b2) = buffer_read b1 in sendBufferedData_loop ele b2 ?w1) =
       Some (sent_all k ds (?w1\<lparr>buffer := Some b'\<rparr>))" "buffer_contents b' = []" using b1(3) by blast
  moreover have "?w1\<lparr>buffer := Some b'\<rparr> = sent_all k [d] (w\<lparr>buffer := Some b'\<rparr>)" by (simp add: sent_all_buffer)
  moreover have "buffer ?w1 = Some b1" by (simp add: sent_all_def)
  ultimately have "sendBufferedData_loop (Some d) b1 w = Some (sent_all k (d # ds) (w\<lparr>buffer := Some b'\<rparr>))"
    by (simp add: sendBufferedData_loop.simps[of "Some d"] send_open[OF o] sent_all_Cons[OF o])
  then show ?case using b1(1) Cons.hyps(2)[symmetric] \<open>buffer_contents b' = []\<close> by auto
qed

text \<open>Listeners that call none of the methods of the websocket.\<close>

definition quiet :: "'d listening \<Rightarrow> bool" where
  "quiet L \<longleftrightarrow> (\<forall>l ev v. L l ev v = [])"

lemma quiet_dispatch:
  assumes "quiet L"
  shows "\<exists>n ls. dispatchEvent L ev w = w\<lparr>notified := n, listeners := ls\<rparr>"
proof -
  have "fold (notify L ev) xs v = v\<lparr>notified := notified v @ map (\<lambda>l. (l_listener l, ev)) xs\<rparr>" for xs and v :: "'a websocket"
    by (induction xs arbitrary: v) (use assms in \<open>simp_all add: notify_def quiet_def\<close>)
  then show ?thesis unfolding dispatchEvent_def Let_def by auto
qed

text \<open>The fields that decide what emptying the buffer does.\<close>

definition same_link :: "'d websocket \<Rightarrow> 'd websocket \<Rightarrow> bool" where
  "same_link v w \<longleftrightarrow> sockets v = sockets w \<and> underlyingWebsocket v = underlyingWebsocket w \<and>
     closedByUser v = closedByUser w \<and> serializer v = serializer w \<and> buffer v = buffer w"

lemma quiet_same_link: "quiet L \<Longrightarrow> same_link (dispatchEvent L ev w) w"
  using quiet_dispatch[of L ev w] by (auto simp: same_link_def)

lemma same_link_trans: "same_link u v \<Longrightarrow> same_link v w \<Longrightarrow> same_link u w"
  by (simp add: same_link_def)

lemma handleOpen_quiet:
  assumes "quiet L"
  shows "\<exists>v. handleOpen L now w = sendBufferedData v \<and> same_link v w"
proof -
  let ?w1 = "w\<lparr>connectionState := Open\<rparr>"
  define w2 where "w2 = (case retryBackoff ?w1 of
      Some b \<Rightarrow> if lastConnection ?w1 \<noteq> None
        then dispatchEvent L (ReconnectDetail (bo_retries b) (lastConnection ?w1) (ws_url ?w1)) ?w1 else ?w1
    | None \<Rightarrow> ?w1)"
  define w3 where "w3 = w2\<lparr>retryBackoff := map_option bo_reset (retryBackoff w2)\<rparr>"
  define w4 where "w4 = (if hb_autoStart (heartbeat w3) \<noteq> Some False then startHeartbeat w3 else w3)"
  have "same_link ?w1 w" by (simp add: same_link_def)
  then have "same_link w2 w" unfolding w2_def using same_link_trans[OF quiet_same_link[OF assms]] by (auto split: option.splits)
  then have "same_link (w4\<lparr>lastConnection := Some now\<rparr>) w" by (simp add: w4_def w3_def same_link_def)
  then have "same_link (dispatchEvent L (NoDetail OpenEvent) (w4\<lparr>lastConnection := Some now\<rparr>)) w"
    using same_link_trans[OF quiet_same_link[OF assms]] by blast
  then show ?thesis unfolding handleOpen_def Let_def w2_def w3_def w4_def by blast
qed

text \<open>
  C36.  When the current socket opens, no listener calls the websocket back, the user has not closed it, the socket was not
  abandoned by an earlier close, and the buffer is one that additions and reads give, the handler returns, and
  everything that was buffered has been sent on that socket, serialized, in the order in which
  it was buffered, after whatever was sent before; the buffer is empty.
\<close>

theorem open_drains_buffer:
  assumes "quiet L" and "underlyingWebsocket w = Some k" and "attached k w"
    and "socket_state k w = Some CONNECTING" and "\<not> so_abandoned (sockets w ! k)" and "\<not> closedByUser w"
    and "buffer w = Some b" and "buffer_inv b"
  shows "\<exists>w' b'. ws_step L (SocketOpens k now) w = Some w' \<and>
    so_sent (sockets w' ! k) =
      so_sent (sockets w ! k) @ map (\<lambda>d. serializeIfNeeded d (serializer w)) (buffer_contents b) \<and>
    buffer w' = Some b' \<and> buffer_contents b' = []"
proof -
  let ?f = "\<lambda>s. let s1 = s\<lparr>so_readyState := OPEN\<rparr> in if so_abandoned s then socket_close s1 else s1"
  let ?w1 = "update_socket k ?f w"
  have k: "k < length (sockets w)" using assms(3) by (simp add: attached_def)
  obtain v where v: "handleOpen L now ?w1 = sendBufferedData v" "same_link v ?w1"
    using handleOpen_quiet[OF assms(1)] by blast
  have s: "sockets v ! k = (sockets w ! k)\<lparr>so_readyState := OPEN\<rparr>" "serializer v = serializer w" "buffer v = Some b"
    and o: "open_at k v" and l: "k < length (sockets v)"
    using v(2) k assms(2,5,6,7) by (simp_all add: same_link_def update_socket_def open_at_def Let_def)
  from drain[OF o assms(8)] obtain b' where
    "sendBufferedData v = Some (sent_all k (buffer_contents b) (v\<lparr>buffer := Some b'\<rparr>))" "buffer_contents b' = []"
    using s(3) by (auto simp: sendBufferedData_def)
  moreover have "ws_step L (SocketOpens k now) w = sendBufferedData v"
    using assms(3,4) v(1) by (simp add: Let_def)
  ultimately show ?thesis using s l by (auto simp: sent_all_def update_socket_def append_sent_def)
qed

section \<open>When emptying the buffer hangs\<close>

definition not_open :: "'d websocket \<Rightarrow> bool" where
  "not_open w \<longleftrightarrow> \<not> closedByUser w \<and> (case current_socket w of None \<Rightarrow> True | Some s \<Rightarrow> so_readyState s \<noteq> OPEN)"

lemma send_not_open:
  assumes "not_open w" and "buffer w = Some b"
  shows "snd (send d w) = w\<lparr>buffer := Some (buffer_add d b)\<rparr>"
  using assms by (auto simp: not_open_def send_def Let_def split: option.splits)

lemma not_open_buffer [simp]: "not_open (w\<lparr>buffer := b\<rparr>) = not_open w"
  by (cases "underlyingWebsocket w") (simp_all add: not_open_def current_socket_def)

lemma sendBufferedData_loop_hangs:
  assumes "sendBufferedData_loop ele b w = Some w'"
  shows "ele = None \<or> \<not> not_open w \<or> \<not> buffer_inv b"
proof (rule sendBufferedData_loop.raw_induct[OF _ assms, where P = "\<lambda>ele b w w'. ele = None \<or> \<not> not_open w \<or> \<not> buffer_inv b"])
  fix loop and ele :: "'a option" and b w w'
  assume IH: "\<And>ele b w w'. loop ele b w = Some w' \<Longrightarrow> ele = None \<or> \<not> not_open w \<or> \<not> buffer_inv b"
    and eq: "(case ele of None \<Rightarrow> Some (w\<lparr>buffer := Some b\<rparr>)
      | Some d \<Rightarrow> (let w1 = snd (send d (w\<lparr>buffer := Some b\<rparr>))
        in case buffer w1 of None \<Rightarrow> Some w1
           | Some b1 \<Rightarrow> (let (ele1, b2) = buffer_read b1 in loop ele1 b2 w1))) = Some w'"
  show "ele = None \<or> \<not> not_open w \<or> \<not> buffer_inv b"
  proof (rule ccontr)
    assume "\<not> (ele = None \<or> \<not> not_open w \<or> \<not> buffer_inv b)"
    then obtain d where d: "ele = Some d" "not_open w" "buffer_inv b" by auto
    obtain x b2 where r: "buffer_read (buffer_add d b) = (Some x, b2)" "buffer_inv b2"
      by (rule buffer_read_nonempty[OF buffer_add_nonempty[OF d(3)]])
    have "loop (Some x) b2 (w\<lparr>buffer := Some (buffer_add d b)\<rparr>) = Some w'"
      using eq d(1,2) r(1) by (simp add: send_not_open)
    from IH[OF this] show False using d(2) r(2) by simp
  qed
qed

text \<open>
  C37.  Emptying a buffer that holds something, one that additions and reads give, never returns when there is no current socket or it is
  not open and the user has not closed: every element that is read is put back by \<open>send\<close>.  After a close by the user \<open>send\<close> drops it,
  and the loop ends.
\<close>

theorem sendBufferedData_hangs:
  assumes "\<not> closedByUser w" and "case current_socket w of None \<Rightarrow> True | Some s \<Rightarrow> so_readyState s \<noteq> OPEN"
    and "buffer w = Some b" and "buffer_inv b" and "buffer_contents b \<noteq> []"
  shows "sendBufferedData w = None"
proof -
  obtain x b1 where b1: "buffer_read b = (Some x, b1)" "buffer_inv b1"
    by (rule buffer_read_nonempty[OF assms(4,5)])
  have "sendBufferedData_loop (Some x) b1 w = None"
  proof (rule ccontr)
    assume "sendBufferedData_loop (Some x) b1 w \<noteq> None"
    then obtain w' where "sendBufferedData_loop (Some x) b1 w = Some w'" by blast
    from sendBufferedData_loop_hangs[OF this] show False using assms(1,2) b1(2) by (simp add: not_open_def)
  qed
  then show ?thesis using assms(3) b1(1) by (simp add: sendBufferedData_def)
qed

section \<open>A close by the user is final\<close>

definition ended :: "'d list list \<Rightarrow> nat \<Rightarrow> 'd websocket \<Rightarrow> bool" where
  "ended sent n w \<longleftrightarrow> closedByUser w \<and> retryTimeout w = None \<and> map so_sent (sockets w) = sent \<and>
     length (attempts w) \<le> n"

lemma ended_cong:
  "ended sent n w \<Longrightarrow> closedByUser v = closedByUser w \<Longrightarrow> retryTimeout v = retryTimeout w \<Longrightarrow>
   map so_sent (sockets v) = map so_sent (sockets w) \<Longrightarrow> attempts v = attempts w \<Longrightarrow> ended sent n v"
  by (simp add: ended_def)

lemma map_sent_update:
  assumes "\<And>s. so_sent (f s) = so_sent s"
  shows "map so_sent (sockets (update_socket k f w)) = map so_sent (sockets w)"
proof -
  have "(map so_sent (sockets w))[k := so_sent (sockets w ! k)] = map so_sent (sockets w)" if "k < length (sockets w)"
    using that list_update_id[of "map so_sent (sockets w)" k] by simp
  then show ?thesis using assms by (simp add: update_socket_def map_update)
qed

lemma sent_socket_close [simp]: "so_sent (socket_close s) = so_sent s"
  by (simp add: socket_close_def)

lemma map_sent_close: "map so_sent (sockets (update_current socket_close w)) = map so_sent (sockets w)"
  by (cases "underlyingWebsocket w") (simp_all add: update_current_def map_sent_update)

lemma ended_send: "ended sent n w \<Longrightarrow> ended sent n (snd (send d w))"
  by (simp add: ended_def send_def)

lemma ended_close:
  assumes "map so_sent (sockets w) = sent" and "length (attempts w) \<le> n"
  shows "ended sent n (close w)"
proof -
  let ?v = "(cancelScheduledConnectionRetry w)\<lparr>closedByUser := True,
      connectionGeneration := connectionGeneration (cancelScheduledConnectionRetry w) + 1\<rparr>"
  have "map so_sent (sockets (close w)) = map so_sent (sockets ?v)"
    unfolding close_def Let_def stopHeartbeat_fields by (rule map_sent_close)
  then show ?thesis using assms by (simp add: ended_def cancelScheduledConnectionRetry_def)
qed

lemma ended_stable: "call_stable (ended sent n)"
  unfolding call_stable_def
proof (intro conjI allI impI)
  fix a :: "'a api" and w :: "'a websocket" assume "harmless a" and w: "ended sent n w"
  moreover have "ended sent n (close w)" using w by (intro ended_close) (simp_all add: ended_def)
  moreover have "ended sent n (startHeartbeat w)" by (rule ended_cong[OF w]) simp_all
  moreover have "ended sent n (w\<lparr>listeners := ls\<rparr>)" for ls by (rule ended_cong[OF w]) simp_all
  ultimately show "ended sent n (ws_call a w)"
    by (cases a) (simp_all add: ended_send addEventListener_def removeEventListener_def)
qed (simp_all add: ended_def)

lemmas ended_dispatch = dispatchEvent_stable[OF ended_stable]

lemma ended_schedule: "ended sent n w \<Longrightarrow> ended sent n (scheduleConnectionRetryIfNeeded w)"
  by (simp add: ended_def scheduleConnectionRetryIfNeeded_def)

lemma ended_handleClose:
  assumes "no_reconnect L" and "ended sent n w"
  shows "ended sent n (handleClose L w)"
  unfolding handleClose_def by (rule ended_schedule[OF ended_dispatch[OF assms(1) ended_cong[OF assms(2)]]]) simp_all

lemma ended_handleOpen:
  assumes "no_reconnect L" and "ended sent n w" and "handleOpen L now w = Some w'"
  shows "ended sent n w'"
proof -
  let ?w1 = "w\<lparr>connectionState := Open\<rparr>"
  define w2 where "w2 = (case retryBackoff ?w1 of
      Some b \<Rightarrow> if lastConnection ?w1 \<noteq> None
        then dispatchEvent L (ReconnectDetail (bo_retries b) (lastConnection ?w1) (ws_url ?w1)) ?w1 else ?w1
    | None \<Rightarrow> ?w1)"
  define w3 where "w3 = w2\<lparr>retryBackoff := map_option bo_reset (retryBackoff w2)\<rparr>"
  define w4 where "w4 = (if hb_autoStart (heartbeat w3) \<noteq> Some False then startHeartbeat w3 else w3)"
  have w1: "ended sent n ?w1" by (rule ended_cong[OF assms(2)]) simp_all
  then have w2: "ended sent n w2" unfolding w2_def using ended_dispatch[OF assms(1) w1] by (simp split: option.splits)
  have "ended sent n (w4\<lparr>lastConnection := Some now\<rparr>)" by (rule ended_cong[OF w2]) (simp_all add: w4_def w3_def)
  note w5 = ended_dispatch[OF assms(1) this, of "NoDetail OpenEvent"]
  show ?thesis
  proof (rule sendBufferedData_keeps[of "ended sent n", OF ended_send _ _ w5])
    show "ended sent n (v\<lparr>buffer := b\<rparr>)" if "ended sent n v" for b v by (rule ended_cong[OF that]) simp_all
    show "sendBufferedData (dispatchEvent L (NoDetail OpenEvent) (w4\<lparr>lastConnection := Some now\<rparr>)) = Some w'"
      using assms(3) unfolding handleOpen_def Let_def w2_def w3_def w4_def .
  qed
qed

lemma ended_handleHeartbeatTimeout:
  assumes "no_reconnect L" and "ended sent n w"
  shows "ended sent n (handleHeartbeatTimeout L w)"
proof -
  have w1: "ended sent n (w\<lparr>missedHeartbeats := missedHeartbeats w + 1\<rparr>)" by (rule ended_cong[OF assms(2)]) simp_all
  have c: "ended sent n (update_current socket_close v)" if "ended sent n v" for v
    by (rule ended_cong[OF that]) (simp_all add: map_sent_close)
  show ?thesis using w1 ended_dispatch[OF assms(1) w1] c[OF ended_dispatch[OF assms(1) w1]]
    by (simp add: handleHeartbeatTimeout_def Let_def split: option.splits)
qed

lemma ended_handleMessageEvent:
  assumes "no_reconnect L" and "ended sent n w"
  shows "ended sent n (handleMessageEvent L d w)"
proof -
  have "ended sent n (handleHeartbeatReceived L d w)" unfolding handleHeartbeatReceived_def Let_def
    by (rule ended_dispatch[OF assms(1) ended_cong[OF assms(2)]]) simp_all
  then show ?thesis using ended_dispatch[OF assms] assms(2) by (simp add: handleMessageEvent_def deliver_message_def split: option.splits)
qed

lemma ended_step:
  assumes "no_reconnect L" and "ended sent n w" and "i \<noteq> Call ApiReconnect" and "ws_step L i w = Some w'"
  shows "ended sent n w'"
proof (cases i)
  case (Call a)
  have c: "closedByUser w" using assms(2) by (simp add: ended_def)
  show ?thesis
  proof (cases "harmless a")
    case True
    then show ?thesis using call_stableD[OF ended_stable True assms(2)] assms(4) Call by simp
  qed (use c assms Call in \<open>cases a; simp add: reconnectIfDisconnected_def\<close>)
next
  case (UrlSettles k resolved ok)
  then show ?thesis using assms
    by (auto simp: tryConnect_resumes_def connect_finally_def connect_fails_def superseded_attempt_def Let_def
        ended_def drop_nth_def split: option.splits if_splits)
next
  case (SocketOpens k now)
  let ?f = "\<lambda>s. let s1 = s\<lparr>so_readyState := OPEN\<rparr> in if so_abandoned s then socket_close s1 else s1"
  have "ended sent n (update_socket k ?f w)"
    by (rule ended_cong[OF assms(2)]) (simp_all add: Let_def map_sent_update)
  then show ?thesis using assms ended_handleOpen[OF assms(1)] SocketOpens by (auto simp: Let_def split: if_splits)
next
  case (SocketCloses k)
  have "ended sent n (update_socket k (\<lambda>s. s\<lparr>so_readyState := CLOSED\<rparr>) w)"
    by (rule ended_cong[OF assms(2)]) (simp_all add: map_sent_update)
  then show ?thesis using assms ended_handleClose[OF assms(1)] SocketCloses by (auto simp: Let_def split: if_splits)
next
  case (SocketErrors k)
  have "ended sent n (handleError L w)" unfolding handleError_def
    by (rule ended_dispatch[OF assms(1) ended_cong[OF assms(2)]]) simp_all
  then show ?thesis using assms SocketErrors by (auto split: if_splits)
next
  case (SocketReceives k d)
  then show ?thesis using assms ended_handleMessageEvent[OF assms(1,2)] by (auto split: if_splits)
next
  case RetryFires
  then show ?thesis using assms by (simp add: ended_def)
next
  case HeartbeatTicks
  then show ?thesis using assms by (auto simp: ended_def sendHeartbeat_def split: option.splits if_splits)
next
  case (HeartbeatTimesOut t)
  have "ended sent n (w\<lparr>heartbeatTimers := ts\<rparr>)" for ts by (rule ended_cong[OF assms(2)]) simp_all
  then show ?thesis using assms HeartbeatTimesOut ended_handleHeartbeatTimeout[OF assms(1)] by (auto split: if_splits)
qed

text \<open>
  C35.  After the user closes the websocket, and as long as neither the application nor a listener
  calls \<open>reconnect\<close>, whatever happens on the network: it stays closed, no retry is scheduled, no
  native socket is opened, no connection attempt is started and nothing more is sent on any
  socket.  \<open>reconnectIfDisconnected\<close> does not count: it does nothing.
\<close>

theorem closed_by_user_is_final:
  assumes "no_reconnect L" and "Call ApiReconnect \<notin> set is" and "ws_run L is (close w) = Some w'"
  shows "closedByUser w' \<and> retryTimeout w' = None \<and> map so_sent (sockets w') = map so_sent (sockets w) \<and>
    length (sockets w') = length (sockets w) \<and> length (attempts w') \<le> length (attempts w)"
proof -
  let ?E = "ended (map so_sent (sockets w)) (length (attempts w))"
  have "?E v \<Longrightarrow> ws_run L is v = Some w' \<Longrightarrow> ?E w'" for v
    using assms(2)
  proof (induction "is" arbitrary: v)
    case (Cons i js)
    then obtain u where u: "ws_step L i v = Some u" "ws_run L js u = Some w'" by (auto split: option.splits)
    have "?E u" by (rule ended_step[OF assms(1) Cons.prems(1) _ u(1)]) (use Cons.prems(3) in auto)
    then show ?case using Cons.IH u(2) Cons.prems(3) by simp
  qed simp
  then have w': "?E w'" using ended_close[of w] assms(3) by blast
  then have "length (map so_sent (sockets w')) = length (map so_sent (sockets w))" by (simp only: ended_def)
  then show ?thesis using w' by (simp add: ended_def)
qed

section \<open>Runs\<close>

text \<open>A websocket with a buffer, retries after a constant second and one listener for each of two events.\<close>

definition example_options :: "int websocket_options" where
  "example_options = \<lparr>o_autoConnect = None, o_buffer = Some (ArrayBuffered array_queue_new), o_maxRetries = None,
     o_instantReconnect = None, o_backoff = Some (Constant \<lparr>cb_backoff = 1000, cb_retries = 0\<rparr>),
     o_heartbeat = \<lparr>hb_interval = None, hb_timeout = None, hb_pingMessage = None, hb_pongMessage = None,
       hb_maxMissedHeartbeats = None, hb_autoStart = None\<rparr>,
     o_serializer = None,
     o_listeners = (\<lambda>_. [])(Retry := [\<lparr>l_listener = 0, l_options = None\<rparr>],
       OpenEvent := [\<lparr>l_listener = 1, l_options = None\<rparr>])\<rparr>"

definition quiet_listeners :: "int listening" where
  "quiet_listeners l ev w = []"

definition reconnecting_listener :: "nat \<Rightarrow> int listening" where
  "reconnecting_listener n l ev w = (if l = n then [ApiReconnect] else [])"

definition lost_connection :: "int ws_input list" where
  "lost_connection = [UrlSettles 0 (Some ''wss'') True, SocketOpens 0 5, SocketCloses 0, RetryFires]"

lemma quiet_listeners_ok: "quiet quiet_listeners" "no_reconnect quiet_listeners"
  by (simp_all add: quiet_def no_reconnect_def quiet_listeners_def)

text \<open>
  A listener for the retry event that calls \<open>reconnect\<close> leaves two native sockets attached
  when the connection is lost once: the attempt of the listener and the one that the
  retry handler starts after it both open a socket, and only the second is the current one.
\<close>

theorem retry_listener_orphans_socket:
  "\<exists>w. ws_run (reconnecting_listener 0)
      (lost_connection @ [UrlSettles 0 (Some ''wss'') True, UrlSettles 0 (Some ''wss'') True])
      (websocket_new None example_options) = Some w \<and>
    attached 1 w \<and> attached 2 w \<and> underlyingWebsocket w = Some 2"
proof -
  let ?r = "ws_run (reconnecting_listener 0)
      (lost_connection @ [UrlSettles 0 (Some ''wss'') True, UrlSettles 0 (Some ''wss'') True])
      (websocket_new None example_options)"
  have "map_option (\<lambda>w. (attached 1 w, attached 2 w, underlyingWebsocket w)) ?r = Some (True, True, Some 2)"
    by code_simp
  then show ?thesis by (auto simp: map_option_eq_Some)
qed

section \<open>Witnesses\<close>

theorem at_most_one_socket_witness:
  "\<exists>w. ws_run quiet_listeners (lost_connection @ [UrlSettles 0 (Some ''wss'') True]) (websocket_new None example_options) = Some w \<and>
     no_reconnect quiet_listeners \<and> (\<forall>k. attached k w \<longrightarrow> k = 1) \<and> underlyingWebsocket w = Some 1"
proof -
  let ?r = "ws_run quiet_listeners (lost_connection @ [UrlSettles 0 (Some ''wss'') True]) (websocket_new None example_options)"
  have "map_option underlyingWebsocket ?r = Some (Some 1)" by code_simp
  then obtain w where w: "?r = Some w" "underlyingWebsocket w = Some 1" by (auto simp: map_option_eq_Some)
  then show ?thesis using at_most_one_socket[OF quiet_listeners_ok(2) w(1)] quiet_listeners_ok(2) by auto
qed

theorem open_drains_buffer_witness:
  "\<exists>w w'. ws_run quiet_listeners [Call (ApiSend 7), Call (ApiSend 8), UrlSettles 0 (Some ''wss'') True]
       (websocket_new None example_options) = Some w \<and>
     ws_step quiet_listeners (SocketOpens 0 5) w = Some w' \<and> so_sent (sockets w' ! 0) = [7, 8]"
proof -
  let ?r = "ws_run quiet_listeners [Call (ApiSend 7), Call (ApiSend 8), UrlSettles 0 (Some ''wss'') True]
       (websocket_new None example_options)"
  have "map_option (\<lambda>w. (underlyingWebsocket w, attached 0 w, socket_state 0 w, so_abandoned (sockets w ! 0),
      so_sent (sockets w ! 0), closedByUser w)) ?r = Some (Some 0, True, Some CONNECTING, False, [], False)"
    by code_simp
  moreover have "map_option (\<lambda>w. (buffer w, map (\<lambda>d. serializeIfNeeded d (serializer w)) [7, 8])) ?r =
      Some (Some (ArrayBuffered \<lparr>aq_elements = [7, 8]\<rparr>), [7, 8])"
    by code_simp
  ultimately obtain w where w: "?r = Some w" "underlyingWebsocket w = Some 0" "attached 0 w"
      "socket_state 0 w = Some CONNECTING" "\<not> so_abandoned (sockets w ! 0)" "\<not> closedByUser w"
      "buffer w = Some (ArrayBuffered \<lparr>aq_elements = [7, 8]\<rparr>)"
      "so_sent (sockets w ! 0) = []" "map (\<lambda>d. serializeIfNeeded d (serializer w)) [7, 8] = [7, 8]"
    by (auto simp: map_option_eq_Some)
  obtain w' where "ws_step quiet_listeners (SocketOpens 0 5) w = Some w'"
    "so_sent (sockets w' ! 0) = [] @ map (\<lambda>d. serializeIfNeeded d (serializer w)) [7, 8]"
    using open_drains_buffer[OF quiet_listeners_ok(1) w(2-7), of 5] w(8) by (auto simp del: ws_step.simps)
  then show ?thesis using w(1,9) by (metis append_Nil)
qed

text \<open>The open listener reconnects, so that the socket that has just opened is closed again before the buffer is emptied.\<close>

theorem sendBufferedData_hangs_witness:
  "\<exists>w. ws_run (reconnecting_listener 1) [UrlSettles 0 (Some ''wss'') True] (ws_call (ApiSend 7) (websocket_new None example_options)) =
       Some w \<and> ws_step (reconnecting_listener 1) (SocketOpens 0 5) w = None"
proof -
  let ?L = "reconnecting_listener 1"
  let ?r = "ws_run ?L [UrlSettles 0 (Some ''wss'') True] (ws_call (ApiSend 7) (websocket_new None example_options))"
  let ?v = "\<lambda>w. dispatchEvent ?L (NoDetail OpenEvent) ((startHeartbeat ((update_socket 0 (\<lambda>s. s\<lparr>so_readyState := OPEN\<rparr>) w)
      \<lparr>connectionState := Open, retryBackoff := map_option bo_reset (retryBackoff w)\<rparr>))\<lparr>lastConnection := Some 5\<rparr>)"
  have "map_option (\<lambda>w. (closedByUser (?v w), map_option so_readyState (current_socket (?v w)), buffer (?v w))) ?r =
      Some (False, Some CLOSING, Some (ArrayBuffered \<lparr>aq_elements = [7]\<rparr>))" by code_simp
  moreover have "map_option (\<lambda>w. (attached 0 w, socket_state 0 w, so_abandoned (sockets w ! 0), lastConnection w,
      hb_autoStart (heartbeat w))) ?r = Some (True, Some CONNECTING, False, None, None)" by code_simp
  ultimately obtain w where r: "?r = Some w"
    and v: "\<not> closedByUser (?v w)" "map_option so_readyState (current_socket (?v w)) = Some CLOSING"
      "buffer (?v w) = Some (ArrayBuffered \<lparr>aq_elements = [7]\<rparr>)"
    and w: "attached 0 w" "socket_state 0 w = Some CONNECTING" "\<not> so_abandoned (sockets w ! 0)" "lastConnection w = None"
      "hb_autoStart (heartbeat w) = None" by (auto simp: map_option_eq_Some)
  have "sendBufferedData (?v w) = None"
    by (rule sendBufferedData_hangs[OF v(1) _ v(3)]) (use v(2) in \<open>auto simp: map_option_eq_Some\<close>)
  moreover have "ws_step ?L (SocketOpens 0 5) w = sendBufferedData (?v w)"
    using w by (simp add: handleOpen_def update_socket_def Let_def split: option.splits)
  ultimately show ?thesis using r by auto
qed

theorem closed_by_user_is_final_witness:
  "\<exists>w'. ws_run quiet_listeners [SocketCloses 0, UrlSettles 0 (Some ''wss'') True, Call ApiReconnectIfDisconnected]
       (close (websocket_new None example_options)) = Some w' \<and> closedByUser w' \<and> sockets w' = []"
proof -
  let ?is = "[SocketCloses 0, UrlSettles 0 (Some ''wss'') True, Call ApiReconnectIfDisconnected]"
  have "ws_run quiet_listeners ?is (close (websocket_new None example_options)) \<noteq> None" by code_simp
  then obtain w' where w': "ws_run quiet_listeners ?is (close (websocket_new None example_options)) = Some w'" by blast
  have "sockets (websocket_new None example_options) = []" by code_simp
  then show ?thesis using closed_by_user_is_final[OF quiet_listeners_ok(2) _ w'] w' by simp
qed

end
