(* ===== verification/Url_Encoding.thy ===== *)
theory Url_Encoding
  imports Prelude "HOL-Library.List_Lexorder"
begin

text \<open>
  What the split router uses of the platform to write and read URLs: \<open>encodeURIComponent\<close> and
  \<open>decodeURIComponent\<close> as ECMAScript defines them, and \<open>URLSearchParams\<close> as the URL standard
  does, down to UTF-8.  A JavaScript string is the list of its code points; an unpaired
  surrogate is a code point of its own.
\<close>

section \<open>Strings\<close>

text \<open>The string of a literal.\<close>

definition u :: "string \<Rightarrow> ustring" where
  "u = map of_char"

lemma u_simps [simp]: "u [] = []" "u (c # cs) = of_char c # u cs" "u (s @ t) = u s @ u t"
  by (simp_all add: u_def)

abbreviation slash :: nat where "slash \<equiv> 47"
abbreviation percent :: nat where "percent \<equiv> 37"
abbreviation tilde :: nat where "tilde \<equiv> 126"
abbreviation replacement :: nat where "replacement \<equiv> 0xFFFD"

definition scalar :: "nat \<Rightarrow> bool" where
  "scalar c \<longleftrightarrow> c < 0xD800 \<or> (0xE000 \<le> c \<and> c < 0x110000)"

text \<open>The UTF-16 code units of a string, which its length and order go by.\<close>

definition utf16 :: "nat \<Rightarrow> nat list" where
  "utf16 c = (if c < 0x10000 then [c]
              else [0xD800 + (c - 0x10000) div 0x400, 0xDC00 + (c - 0x10000) mod 0x400])"

definition units :: "ustring \<Rightarrow> nat list" where
  "units s = concat (map utf16 s)"

definition js_length :: "ustring \<Rightarrow> nat" where
  "js_length s = length (units s)"

text \<open>\<open>String.prototype.split\<close> with a separator of one character, and \<open>Array.prototype.join\<close>.\<close>

fun split_on :: "'a \<Rightarrow> 'a list \<Rightarrow> 'a list list" where
  "split_on c [] = [[]]"
| "split_on c (x # xs) =
     (if x = c then [] # split_on c xs
      else (case split_on c xs of [] \<Rightarrow> [[x]] | w # ws \<Rightarrow> (x # w) # ws))"

fun join :: "'a list \<Rightarrow> 'a list list \<Rightarrow> 'a list" where
  "join sep [] = []"
| "join sep [w] = w"
| "join sep (w # v # ws) = w @ sep @ join sep (v # ws)"

lemma split_on_ne [simp]: "split_on c xs \<noteq> []"
  by (induction xs) (auto split: list.splits)

lemma split_on_free: "c \<notin> set xs \<Longrightarrow> split_on c xs = [xs]"
  by (induction xs) auto

lemma split_on_append: "c \<notin> set xs \<Longrightarrow> split_on c (xs @ c # ys) = xs # split_on c ys"
  by (induction xs) auto

lemma split_on_Cons [simp]: "split_on c (c # ys) = [] # split_on c ys"
  by simp

lemma split_join:
  assumes "ws \<noteq> []" and "\<And>w. w \<in> set ws \<Longrightarrow> c \<notin> set w"
  shows "split_on c (join [c] ws) = ws"
  using assms by (induction "[c]" ws rule: join.induct) (simp_all add: split_on_free split_on_append)

lemma set_join: "set (join sep ws) \<subseteq> set sep \<union> \<Union> (set ` set ws)"
  by (induction sep ws rule: join.induct) auto

section \<open>UTF-8\<close>

definition utf8 :: "nat \<Rightarrow> nat list" where
  "utf8 c =
    (if c < 0x80 then [c]
     else if c < 0x800 then [0xC0 + c div 64, 0x80 + c mod 64]
     else if c < 0x10000 then [0xE0 + c div 4096, 0x80 + c div 64 mod 64, 0x80 + c mod 64]
     else [0xF0 + c div 262144, 0x80 + c div 4096 mod 64, 0x80 + c div 64 mod 64, 0x80 + c mod 64])"

text \<open>
  One code point from the front of a list of bytes; \<open>None\<close> for a malformed sequence, of which
  as much is consumed as could have begun a well-formed one.
\<close>

fun utf8_take :: "nat \<Rightarrow> nat \<Rightarrow> nat \<Rightarrow> nat \<Rightarrow> nat list \<Rightarrow> nat option \<times> nat list" where
  "utf8_take 0 lo hi acc bs = (Some acc, bs)"
| "utf8_take (Suc n) lo hi acc [] = (None, [])"
| "utf8_take (Suc n) lo hi acc (b # bs) =
     (if lo \<le> b \<and> b \<le> hi then utf8_take n 0x80 0xBF (acc * 64 + (b - 0x80)) bs else (None, b # bs))"

fun utf8_next :: "nat \<Rightarrow> nat list \<Rightarrow> nat option \<times> nat list" where
  "utf8_next b bs =
    (if b < 0x80 then (Some b, bs)
     else if 0xC2 \<le> b \<and> b \<le> 0xDF then utf8_take 1 0x80 0xBF (b - 0xC0) bs
     else if 0xE0 \<le> b \<and> b \<le> 0xEF then
       utf8_take 2 (if b = 0xE0 then 0xA0 else 0x80) (if b = 0xED then 0x9F else 0xBF) (b - 0xE0) bs
     else if 0xF0 \<le> b \<and> b \<le> 0xF4 then
       utf8_take 3 (if b = 0xF0 then 0x90 else 0x80) (if b = 0xF4 then 0x8F else 0xBF) (b - 0xF0) bs
     else (None, bs))"

declare utf8_next.simps [simp del]

lemma utf8_take_length: "length (snd (utf8_take n lo hi acc bs)) \<le> length bs"
  by (induction n lo hi acc bs rule: utf8_take.induct) auto

lemma utf8_next_length: "length (snd (utf8_next b bs)) \<le> length bs"
  by (simp add: utf8_next.simps utf8_take_length)

text \<open>The decoder of the URL standard, which replaces malformed sequences.\<close>

function utf8_decode :: "nat list \<Rightarrow> ustring" where
  "utf8_decode [] = []"
| "utf8_decode (b # bs) =
     (case utf8_next b bs of (c, rest) \<Rightarrow> (case c of None \<Rightarrow> replacement | Some c \<Rightarrow> c) # utf8_decode rest)"
  by pat_completeness auto
termination
  using utf8_next_length by (relation "measure length") (simp_all add: less_Suc_eq_le, metis snd_conv)

lemma utf8_next_bytes:
  "2 \<le> x \<Longrightarrow> x < 32 \<Longrightarrow> y < 64 \<Longrightarrow> utf8_next (0xC0 + x) ((0x80 + y) # rest) = (Some (x * 64 + y), rest)"
  "x < 16 \<Longrightarrow> y < 64 \<Longrightarrow> z < 64 \<Longrightarrow> (x = 0 \<longrightarrow> 32 \<le> y) \<Longrightarrow> (x = 13 \<longrightarrow> y < 32) \<Longrightarrow>
   utf8_next (0xE0 + x) ((0x80 + y) # (0x80 + z) # rest) = (Some ((x * 64 + y) * 64 + z), rest)"
  "x < 5 \<Longrightarrow> y < 64 \<Longrightarrow> z < 64 \<Longrightarrow> t < 64 \<Longrightarrow> (x = 0 \<longrightarrow> 16 \<le> y) \<Longrightarrow> (x = 4 \<longrightarrow> y < 16) \<Longrightarrow>
   utf8_next (0xF0 + x) ((0x80 + y) # (0x80 + z) # (0x80 + t) # rest) = (Some (((x * 64 + y) * 64 + z) * 64 + t), rest)"
  by (auto simp add: utf8_next.simps numeral_2_eq_2 numeral_3_eq_3)

lemma utf8_next_utf8:
  assumes "scalar c"
  obtains b bs where "utf8 c = b # bs" and "\<And>rest. utf8_next b (bs @ rest) = (Some c, rest)"
proof -
  consider "c < 0x80" | "0x80 \<le> c" "c < 0x800" | "0x800 \<le> c" "c < 0x10000" | "0x10000 \<le> c" "c < 0x110000"
    using assms unfolding scalar_def by linarith
  then have "\<exists>b bs. utf8 c = b # bs \<and> (\<forall>rest. utf8_next b (bs @ rest) = (Some c, rest))"
  proof cases
    case 1
    then show ?thesis by (simp add: utf8_def utf8_next.simps)
  next
    case 2
    have "2 \<le> c div 64" "c div 64 < 32" using 2 by linarith+
    then have "utf8_next (0xC0 + c div 64) ((0x80 + c mod 64) # rest) = (Some c, rest)" for rest
      using utf8_next_bytes(1)[of "c div 64" "c mod 64" rest] by simp
    then show ?thesis using 2 by (simp add: utf8_def)
  next
    case 3
    let ?a = "c div 64"
    have q: "c div 4096 = ?a div 64" using div_mult2_eq[of c 64 64] by simp
    have a: "32 \<le> ?a" "?a < 1024" using 3 by linarith+
    have g: "?a < 864 \<or> 896 \<le> ?a" using assms unfolding scalar_def by linarith
    have d: "?a div 64 * 64 + ?a mod 64 = ?a" by simp
    have "utf8_next (0xE0 + ?a div 64) ((0x80 + ?a mod 64) # (0x80 + c mod 64) # rest) = (Some c, rest)" for rest
    proof -
      have "?a div 64 = 0 \<longrightarrow> 32 \<le> ?a mod 64" "?a div 64 = 13 \<longrightarrow> ?a mod 64 < 32" "?a div 64 < 16"
        using a g d by linarith+
      then show ?thesis using utf8_next_bytes(2)[of "?a div 64" "?a mod 64" "c mod 64" rest] by simp
    qed
    then show ?thesis using 3 by (simp add: utf8_def q)
  next
    case 4
    let ?a = "c div 64" and ?b = "c div 64 div 64"
    have q: "c div 4096 = ?b" "c div 262144 = ?b div 64"
      using div_mult2_eq[of c 64 64] div_mult2_eq[of c 4096 64] by simp_all
    have "1024 \<le> ?a" "?a < 17408" using 4 by linarith+
    then have b: "16 \<le> ?b" "?b < 272" by linarith+
    have d: "?b div 64 * 64 + ?b mod 64 = ?b" by simp
    have "utf8_next (0xF0 + ?b div 64) ((0x80 + ?b mod 64) # (0x80 + ?a mod 64) # (0x80 + c mod 64) # rest) = (Some c, rest)" for rest
    proof -
      have "?b div 64 = 0 \<longrightarrow> 16 \<le> ?b mod 64" "?b div 64 = 4 \<longrightarrow> ?b mod 64 < 16" "?b div 64 < 5"
        using b d by linarith+
      then show ?thesis using utf8_next_bytes(3)[of "?b div 64" "?b mod 64" "?a mod 64" "c mod 64" rest] by simp
    qed
    then show ?thesis using 4 by (simp add: utf8_def q)
  qed
  then show thesis using that by blast
qed

lemma utf8_roundtrip: "(\<And>c. c \<in> set s \<Longrightarrow> scalar c) \<Longrightarrow> utf8_decode (concat (map utf8 s)) = s"
proof (induction s)
  case (Cons c s)
  obtain b bs where "utf8 c = b # bs" "\<And>rest. utf8_next b (bs @ rest) = (Some c, rest)"
    using utf8_next_utf8[of c] Cons.prems by auto
  then show ?case using Cons by simp
qed simp

lemma utf8_bytes: "c < 0x110000 \<Longrightarrow> b \<in> set (utf8 c) \<Longrightarrow> b < 256"
  by (auto simp: utf8_def split: if_splits)

section \<open>Percent encoding\<close>

definition hex_digit :: "nat \<Rightarrow> nat" where
  "hex_digit n = (if n < 10 then 48 + n else 55 + n)"

definition hex_value :: "nat \<Rightarrow> nat option" where
  "hex_value c =
    (if 48 \<le> c \<and> c \<le> 57 then Some (c - 48)
     else if 65 \<le> c \<and> c \<le> 70 then Some (c - 55)
     else if 97 \<le> c \<and> c \<le> 102 then Some (c - 87) else None)"

lemma hex_value_digit: "n < 16 \<Longrightarrow> hex_value (hex_digit n) = Some n"
  by (simp add: hex_value_def hex_digit_def)

definition percent_byte :: "nat \<Rightarrow> ustring" where
  "percent_byte b = [percent, hex_digit (b div 16), hex_digit (b mod 16)]"

text \<open>\<open>%XX\<close> at the front of a string.\<close>

fun read_byte :: "ustring \<Rightarrow> (nat \<times> ustring) option" where
  "read_byte (c # x # y # s) =
     (if c = percent then
        (case (hex_value x, hex_value y) of (Some h, Some l) \<Rightarrow> Some (16 * h + l, s) | _ \<Rightarrow> None)
      else None)"
| "read_byte _ = None"

lemma read_byte_length: "read_byte s = Some (b, t) \<Longrightarrow> length s = length t + 3"
  by (induction s rule: read_byte.induct) (auto split: if_splits option.splits)

lemma read_percent_byte: "b < 256 \<Longrightarrow> read_byte (percent_byte b @ s) = Some (b, s)"
  by (simp add: percent_byte_def hex_value_digit)

primrec read_bytes :: "nat \<Rightarrow> ustring \<Rightarrow> (nat list \<times> ustring) option" where
  "read_bytes 0 s = Some ([], s)"
| "read_bytes (Suc n) s =
     (case read_byte s of None \<Rightarrow> None
      | Some (b, t) \<Rightarrow> (case read_bytes n t of None \<Rightarrow> None | Some (bs, v) \<Rightarrow> Some (b # bs, v)))"

lemma read_bytes_length: "read_bytes n s = Some (bs, t) \<Longrightarrow> length s = length t + 3 * n"
  by (induction n arbitrary: s bs) (fastforce split: option.splits dest: read_byte_length)+

lemma read_percent_bytes:
  "(\<And>b. b \<in> set bs \<Longrightarrow> b < 256) \<Longrightarrow>
     read_bytes (length bs) (concat (map percent_byte bs) @ s) = Some (bs, s)"
  by (induction bs) (simp_all add: read_percent_byte)

section \<open>\<open>encodeURIComponent\<close> and \<open>decodeURIComponent\<close>\<close>

definition alphanumeric :: "nat \<Rightarrow> bool" where
  "alphanumeric c \<longleftrightarrow> (48 \<le> c \<and> c \<le> 57) \<or> (65 \<le> c \<and> c \<le> 90) \<or> (97 \<le> c \<and> c \<le> 122)"

definition unreserved :: "nat \<Rightarrow> bool" where
  "unreserved c \<longleftrightarrow> alphanumeric c \<or> c \<in> set (u ''-_.!~*'' @ [39] @ u ''()'')"

text \<open>The encoder throws on an unpaired surrogate.\<close>

definition encode_char :: "nat \<Rightarrow> ustring" where
  "encode_char c = (if unreserved c then [c] else concat (map percent_byte (utf8 c)))"

definition encodeURIComponent :: "ustring \<Rightarrow> ustring option" where
  "encodeURIComponent s = (if list_all scalar s then Some (concat (map encode_char s)) else None)"

text \<open>The decoder throws on a malformed escape or malformed UTF-8.\<close>

definition sequence_length :: "nat \<Rightarrow> nat" where
  "sequence_length b =
    (if b < 0x80 then 1 else if 0xC0 \<le> b \<and> b < 0xE0 then 2 else if 0xE0 \<le> b \<and> b < 0xF0 then 3
     else if 0xF0 \<le> b \<and> b < 0xF8 then 4 else 0)"

definition read_escape :: "ustring \<Rightarrow> (nat \<times> ustring) option" where
  "read_escape s =
    (case read_byte s of
       None \<Rightarrow> None
     | Some (b, _) \<Rightarrow>
         if sequence_length b = 0 then None
         else (case read_bytes (sequence_length b) s of
                 Some (b1 # bs, t) \<Rightarrow>
                   (case utf8_next b1 bs of (Some c, []) \<Rightarrow> Some (c, t) | _ \<Rightarrow> None)
               | _ \<Rightarrow> None))"

lemma read_escape_length: "read_escape s = Some (c, t) \<Longrightarrow> length t < length s"
  by (auto simp: read_escape_def split: option.splits list.splits prod.splits if_splits dest!: read_bytes_length)

function decodeURIComponent :: "ustring \<Rightarrow> ustring option" where
  "decodeURIComponent [] = Some []"
| "decodeURIComponent (c # s) =
     (if c = percent then
        (case read_escape (c # s) of
           None \<Rightarrow> None
         | Some (d, t) \<Rightarrow> map_option (Cons d) (decodeURIComponent t))
      else map_option (Cons c) (decodeURIComponent s))"
  by pat_completeness auto
termination
  by (relation "measure length") (auto dest!: read_escape_length)

lemma sequence_length_utf8:
  "scalar c \<Longrightarrow> utf8 c = b # bs \<Longrightarrow> sequence_length b = length (utf8 c)"
  by (auto simp: utf8_def sequence_length_def scalar_def split: if_splits)

lemma scalar_bytes: "scalar c \<Longrightarrow> b \<in> set (utf8 c) \<Longrightarrow> b < 256"
  by (rule utf8_bytes) (auto simp: scalar_def)

lemma read_escape_utf8:
  assumes "scalar c"
  shows "read_escape (concat (map percent_byte (utf8 c)) @ s) = Some (c, s)"
proof -
  obtain b bs where b: "utf8 c = b # bs" "\<And>rest. utf8_next b (bs @ rest) = (Some c, rest)"
    using utf8_next_utf8[OF assms] by blast
  have "read_bytes (sequence_length b) (concat (map percent_byte (utf8 c)) @ s) = Some (b # bs, s)"
    using read_percent_bytes[of "utf8 c" s] scalar_bytes[OF assms] sequence_length_utf8[OF assms b(1)] b(1) by simp
  moreover have "read_byte (concat (map percent_byte (utf8 c)) @ s) = Some (b, concat (map percent_byte bs) @ s)"
    using scalar_bytes[OF assms, of b] b(1) by (simp add: read_percent_byte)
  moreover have "sequence_length b \<noteq> 0" using sequence_length_utf8[OF assms b(1)] b(1) by simp
  ultimately show ?thesis using b(2)[of "[]"] by (simp add: read_escape_def)
qed

lemma unreserved_not_percent [simp]: "\<not> unreserved percent"
  by (simp add: unreserved_def alphanumeric_def)

lemma decode_encode_char:
  assumes "scalar c"
  shows "decodeURIComponent (encode_char c @ s) = map_option (Cons c) (decodeURIComponent s)"
proof (cases "unreserved c")
  case True
  then show ?thesis by (auto simp: encode_char_def)
next
  case False
  obtain b bs where "utf8 c = b # bs" using utf8_next_utf8[OF assms] by blast
  then have "\<exists>t. concat (map percent_byte (utf8 c)) @ s = percent # t" by (simp add: percent_byte_def)
  then obtain t where t: "concat (map percent_byte (utf8 c)) @ s = percent # t" by blast
  have "decodeURIComponent (percent # t) = map_option (Cons c) (decodeURIComponent s)"
    using read_escape_utf8[OF assms, of s] unfolding t by simp
  then show ?thesis using False t by (simp add: encode_char_def)
qed

lemma decode_encode: "encodeURIComponent s = Some e \<Longrightarrow> decodeURIComponent e = Some s"
proof (induction s arbitrary: e)
  case (Cons c s)
  then show ?case by (auto simp: encodeURIComponent_def decode_encode_char split: if_splits)
qed (simp add: encodeURIComponent_def)

text \<open>An encoded component has only unreserved characters and escapes.\<close>

lemma hex_digit_alphanumeric: "n < 16 \<Longrightarrow> alphanumeric (hex_digit n)"
  by (simp add: hex_digit_def alphanumeric_def)

lemma set_percent_byte: "b < 256 \<Longrightarrow> x \<in> set (percent_byte b) \<Longrightarrow> x = percent \<or> alphanumeric x"
  using hex_digit_alphanumeric[of "b div 16"] hex_digit_alphanumeric[of "b mod 16"] less_mult_imp_div_less[of b 16 16]
  by (auto simp: percent_byte_def)

lemma encoded_chars:
  assumes "encodeURIComponent s = Some e" and "x \<in> set e"
  shows "x = percent \<or> unreserved x"
proof -
  obtain c where c: "c \<in> set s" "x \<in> set (encode_char c)" "scalar c"
    using assms by (auto simp: encodeURIComponent_def list_all_iff split: if_splits)
  then show ?thesis using set_percent_byte scalar_bytes[OF c(3)]
    by (auto simp: encode_char_def unreserved_def split: if_splits)
qed

lemma encode_empty: "encodeURIComponent s = Some e \<Longrightarrow> e = [] \<longleftrightarrow> s = []"
  using decode_encode[of s e] by (cases s) (auto simp: encodeURIComponent_def)

section \<open>\<open>URLSearchParams\<close>\<close>

type_synonym query = "(ustring \<times> ustring) list"

text \<open>Strings that enter the object are made well-formed first.\<close>

definition usv :: "ustring \<Rightarrow> ustring" where
  "usv = map (\<lambda>c. if scalar c then c else replacement)"

definition form_safe :: "nat \<Rightarrow> bool" where
  "form_safe c \<longleftrightarrow> alphanumeric c \<or> c \<in> set (u ''*-._'')"

definition form_char :: "nat \<Rightarrow> ustring" where
  "form_char c = (if c = 32 then u ''+'' else if form_safe c then [c] else concat (map percent_byte (utf8 c)))"

definition form_encode :: "ustring \<Rightarrow> ustring" where
  "form_encode s = concat (map form_char s)"

definition query_toString :: "query \<Rightarrow> ustring" where
  "query_toString q = join (u ''&'') (map (\<lambda>(k, v). form_encode k @ u ''='' @ form_encode v) q)"

function percent_decode :: "nat list \<Rightarrow> nat list" where
  "percent_decode [] = []"
| "percent_decode (c # s) =
     (case read_byte (c # s) of None \<Rightarrow> c # percent_decode s | Some (b, t) \<Rightarrow> b # percent_decode t)"
  by pat_completeness auto
termination
  by (relation "measure length") (auto dest!: read_byte_length)

definition form_decode :: "ustring \<Rightarrow> ustring" where
  "form_decode s = utf8_decode (percent_decode (concat (map (\<lambda>c. utf8 (if c = 43 then 32 else c)) s)))"

text \<open>Name and value of one sequence, cut at the first equals sign.\<close>

definition form_pair :: "ustring \<Rightarrow> ustring \<times> ustring" where
  "form_pair s = (form_decode (takeWhile (\<lambda>c. c \<noteq> 61) s), form_decode (drop 1 (dropWhile (\<lambda>c. c \<noteq> 61) s)))"

definition form_parse :: "ustring \<Rightarrow> query" where
  "form_parse s = map form_pair (filter (\<lambda>w. w \<noteq> []) (split_on 38 s))"

text \<open>The constructor, which drops a leading question mark; \<open>append\<close>, \<open>delete\<close> and the stable \<open>sort\<close>.\<close>

definition query_new :: "ustring \<Rightarrow> query" where
  "query_new s = form_parse (usv (case s of c # t \<Rightarrow> if c = 63 then t else s | [] \<Rightarrow> []))"

definition query_append :: "ustring \<Rightarrow> ustring \<Rightarrow> query \<Rightarrow> query" where
  "query_append k v q = q @ [(usv k, usv v)]"

definition query_delete :: "ustring \<Rightarrow> query \<Rightarrow> query" where
  "query_delete k q = filter (\<lambda>p. fst p \<noteq> usv k) q"

definition query_sort :: "query \<Rightarrow> query" where
  "query_sort q = sort_key (\<lambda>p. units (fst p)) q"

definition wf_string :: "ustring \<Rightarrow> bool" where
  "wf_string s \<longleftrightarrow> list_all scalar s"

lemma usv_wf: "wf_string s \<Longrightarrow> usv s = s"
  by (auto simp: wf_string_def usv_def list_all_iff intro: map_idI)

lemma wf_usv: "wf_string (usv s)"
  by (auto simp: wf_string_def usv_def list_all_iff scalar_def)

text \<open>What is written decodes to what was written.\<close>

lemma escape_chars:
  assumes "scalar c" and "x \<in> set (concat (map percent_byte (utf8 c)))"
  shows "x = percent \<or> alphanumeric x"
proof -
  obtain b where "b \<in> set (utf8 c)" "x \<in> set (percent_byte b)" using assms(2) by auto
  then show ?thesis using set_percent_byte scalar_bytes[OF assms(1)] by blast
qed

lemma form_char_ascii: "scalar c \<Longrightarrow> x \<in> set (form_char c) \<Longrightarrow> x \<noteq> 38 \<and> x \<noteq> 61 \<and> x \<noteq> 63 \<and> x < 128"
proof -
  assume c: "scalar c" and x: "x \<in> set (form_char c)"
  have a: "alphanumeric y \<Longrightarrow> y \<noteq> 38 \<and> y \<noteq> 61 \<and> y \<noteq> 63 \<and> y < 128" for y by (auto simp: alphanumeric_def)
  consider "x = 43" | "form_safe x" | "x = percent" | "alphanumeric x"
    using x escape_chars[OF c] by (auto simp: form_char_def split: if_splits)
  then show ?thesis using a by cases (auto simp: form_safe_def)
qed

lemma form_encode_ascii:
  "wf_string s \<Longrightarrow> x \<in> set (form_encode s) \<Longrightarrow> x \<noteq> 38 \<and> x \<noteq> 61 \<and> x \<noteq> 63 \<and> x < 128"
  using form_char_ascii by (auto simp: form_encode_def wf_string_def list_all_iff)

lemma percent_decode_escapes:
  "(\<And>b. b \<in> set bs \<Longrightarrow> b < 256) \<Longrightarrow> percent_decode (concat (map percent_byte bs) @ s) = bs @ percent_decode s"
proof (induction bs)
  case (Cons b bs)
  have "read_byte (percent_byte b @ t) = Some (b, t)" for t using read_percent_byte Cons.prems by simp
  then have "percent_decode (percent_byte b @ t) = b # percent_decode t" for t
    by (simp add: percent_byte_def)
  then show ?case using Cons by simp
qed simp

lemma percent_decode_plain: "c \<noteq> percent \<Longrightarrow> percent_decode (c # s) = c # percent_decode s"
proof -
  assume "c \<noteq> percent"
  then have "read_byte (c # s) = None" by (cases "c # s" rule: read_byte.cases) auto
  then show ?thesis by simp
qed

lemma form_decode_chars:
  assumes "wf_string s"
  shows "percent_decode (concat (map (\<lambda>c. utf8 (if c = 43 then 32 else c)) (form_encode s))) = concat (map utf8 s)"
  using assms
proof (induction s)
  case (Cons c s)
  have c: "scalar c" and s: "wf_string s" using Cons.prems by (simp_all add: wf_string_def)
  have plain: "concat (map (\<lambda>c. utf8 (if c = 43 then 32 else c)) t) = t" if "\<And>x. x \<in> set t \<Longrightarrow> x < 128 \<and> x \<noteq> 43" for t
    using that by (induction t) (auto simp: utf8_def)
  consider "c = 32" | "c \<noteq> 32" "form_safe c" | "c \<noteq> 32" "\<not> form_safe c" by blast
  then show ?case
  proof cases
    case 1
    then show ?thesis using Cons.IH[OF s] by (simp add: form_encode_def form_char_def utf8_def percent_decode_plain del: percent_decode.simps(2))
  next
    case 2
    then have "c < 128" "c \<noteq> percent" "c \<noteq> 43" by (auto simp: form_safe_def alphanumeric_def)
    then show ?thesis using 2 Cons.IH[OF s] by (simp add: form_encode_def form_char_def utf8_def percent_decode_plain del: percent_decode.simps(2))
  next
    case 3
    let ?e = "concat (map percent_byte (utf8 c))"
    have "x < 128 \<and> x \<noteq> 43" if "x \<in> set ?e" for x
      using escape_chars[OF c that] by (auto simp: alphanumeric_def)
    then have "concat (map (\<lambda>c. utf8 (if c = 43 then 32 else c)) ?e) = ?e" by (rule plain)
    moreover have "percent_decode (?e @ t) = utf8 c @ percent_decode t" for t
      by (rule percent_decode_escapes) (rule scalar_bytes[OF c])
    ultimately show ?thesis using 3 Cons.IH[OF s] by (simp add: form_encode_def form_char_def)
  qed
qed (simp add: form_encode_def)

lemma form_decode_encode: "wf_string s \<Longrightarrow> form_decode (form_encode s) = s"
  unfolding form_decode_def by (subst form_decode_chars) (auto simp: wf_string_def list_all_iff intro: utf8_roundtrip)

definition wf_query :: "query \<Rightarrow> bool" where
  "wf_query q \<longleftrightarrow> (\<forall>(k, v) \<in> set q. wf_string k \<and> wf_string v)"

lemma form_pair_encode:
  assumes "wf_string k" and "wf_string v"
  shows "form_pair (form_encode k @ 61 # form_encode v) = (k, v)"
proof -
  have "\<forall>x \<in> set (form_encode k). x \<noteq> 61" using form_encode_ascii[OF assms(1)] by blast
  then have "takeWhile (\<lambda>c. c \<noteq> 61) (form_encode k @ 61 # form_encode v) = form_encode k"
    "dropWhile (\<lambda>c. c \<noteq> 61) (form_encode k @ 61 # form_encode v) = 61 # form_encode v"
    by (simp_all add: takeWhile_append2 dropWhile_append2)
  then show ?thesis by (simp add: form_pair_def form_decode_encode assms)
qed

definition form_word :: "ustring \<times> ustring \<Rightarrow> ustring" where
  "form_word p = form_encode (fst p) @ 61 # form_encode (snd p)"

lemma form_word_chars:
  assumes "wf_query q" and "p \<in> set q" and "x \<in> set (form_word p)"
  shows "x \<noteq> 38" and "x \<noteq> 63" and "x < 128"
proof -
  have "wf_string (fst p)" "wf_string (snd p)" using assms(1,2) by (auto simp: wf_query_def)
  then show "x \<noteq> 38" and "x \<noteq> 63" and "x < 128"
    using form_encode_ascii[of "fst p" x] form_encode_ascii[of "snd p" x] assms(3) by (auto simp: form_word_def)
qed

lemma query_roundtrip:
  assumes "wf_query q"
  shows "query_new (query_toString q) = q" and "query_new (63 # query_toString q) = q"
proof -
  have str: "query_toString q = join [38] (map form_word q)"
    by (simp add: query_toString_def form_word_def[abs_def] split_def)
  have chars: "x \<noteq> 63 \<and> x < 128" if "x \<in> set (query_toString q)" for x
  proof -
    have "x = 38 \<or> (\<exists>p \<in> set q. x \<in> set (form_word p))"
      using that set_join[of "[38]" "map form_word q"] unfolding str by auto
    then consider "x = 38" | p where "p \<in> set q" "x \<in> set (form_word p)" by blast
    then show ?thesis by cases (simp_all add: form_word_chars(2,3)[OF assms])
  qed
  have usv: "usv (query_toString q) = query_toString q"
  proof (rule usv_wf)
    show "wf_string (query_toString q)" using chars by (simp add: wf_string_def list_all_iff scalar_def) (use less_trans in fastforce)
  qed
  have "form_parse (query_toString q) = q"
  proof (cases "q = []")
    case False
    have "split_on 38 (query_toString q) = map form_word q" unfolding str
    proof (rule split_join)
      show "38 \<notin> set w" if "w \<in> set (map form_word q)" for w
        using that form_word_chars(1)[OF assms, of _ 38] by (auto simp del: split_paired_All split_paired_Ex)
    qed (use False in simp)
    moreover have "filter (\<lambda>w. w \<noteq> []) (map form_word q) = map form_word q"
      by (rule filter_True) (auto simp: form_word_def)
    moreover have "map form_pair (map form_word q) = q"
      using assms by (auto simp: wf_query_def form_word_def form_pair_encode intro!: map_idI)
    ultimately show ?thesis by (simp add: form_parse_def)
  qed (simp add: query_toString_def form_parse_def)
  then show "query_new (query_toString q) = q" "query_new (63 # query_toString q) = q"
    using chars usv by (auto simp: query_new_def usv_def split: list.splits)
qed

text \<open>Whatever string is parsed, names and values are well-formed: malformed bytes are replaced.\<close>

lemma utf8_take_step:
  "utf8_take (Suc n) lo hi acc bs = (Some c, r) \<Longrightarrow>
   \<exists>b bs'. bs = b # bs' \<and> lo \<le> b \<and> b \<le> hi \<and> utf8_take n 0x80 0xBF (acc * 64 + (b - 0x80)) bs' = (Some c, r)"
  by (cases bs) (auto split: if_splits)

lemma utf8_next_scalar:
  assumes "utf8_next b bs = (Some c, r)"
  shows "scalar c"
proof -
  have three: "utf8_take 3 lo hi acc xs = utf8_take (Suc (Suc (Suc 0))) lo hi acc xs"
    and two: "utf8_take 2 lo hi acc xs = utf8_take (Suc (Suc 0)) lo hi acc xs" for lo hi acc xs
    by (simp_all add: numeral_eq_Suc)
  show ?thesis using assms
    by (auto simp: utf8_next.simps three two scalar_def split: if_splits dest!: utf8_take_step)
qed

lemma utf8_decode_wf: "wf_string (utf8_decode bs)"
proof (induction bs rule: utf8_decode.induct)
  case (2 b bs)
  obtain c rest where n: "utf8_next b bs = (c, rest)" by (cases "utf8_next b bs")
  then show ?case using 2 utf8_next_scalar[of b bs] by (cases c) (auto simp: wf_string_def scalar_def)
qed (simp add: wf_string_def)

lemma wf_query_new: "wf_query (query_new s)"
  by (auto simp: wf_query_def query_new_def form_parse_def form_pair_def form_decode_def utf8_decode_wf)

lemma wf_query_sort: "wf_query q \<Longrightarrow> wf_query (query_sort q)"
  by (simp add: wf_query_def query_sort_def)

end
