(* ===== verification/Route_Path.thy ===== *)
theory Route_Path
  imports Url_Encoding
begin

text \<open>
  Path patterns of the split router, \<open>apps/web/src/lib/split-router/routes/path.ts\<close>: how a
  pattern such as \<open>/doc/:id/:tab?/*rest\<close> is compiled, matched against the segments of a path and
  formatted from parameters.  Thrown errors are values.  \<open>String.prototype.toLowerCase\<close> depends on
  the Unicode tables of the platform and is a parameter.
\<close>

section \<open>Values\<close>

text \<open>
  Values of unknown type as the router inspects them.  A number, a boolean and a bigint are
  given by their text.  Properties that every object inherits are not modelled.
\<close>

datatype js_value =
    Undefined
  | Str ustring
  | Primitive ustring \<comment> \<open>number, boolean or bigint\<close>
  | Arr "js_value list"
  | Obj "(ustring \<times> js_value) list"
  | Opaque \<comment> \<open>\<open>null\<close>, a function or a symbol\<close>

type_synonym route_params = "(ustring \<times> js_value) list"

definition param_value :: "route_params \<Rightarrow> ustring \<Rightarrow> js_value" where
  "param_value r k = (case map_of r k of None \<Rightarrow> Undefined | Some v \<Rightarrow> v)"

datatype route_error =
    InvalidParameter ustring
  | InvalidCatchAll ustring
  | InvalidPath ustring
  | CatchAllNotLast ustring
  | RequiresSerialize ustring
  | MissingCatchAll ustring
  | MissingParameter ustring
  | MalformedURI
  | InvalidRouteId ustring
  | DuplicateRouteId ustring
  | DuplicateSiblingPath ustring
  | LayoutWithoutChildren ustring
  | InvalidGlobalKey ustring
  | InvalidSearchName ustring
  | DuplicateNamespace ustring
  | SearchValueTooLong ustring
  | AsyncSchema
  | SchemaNotObject
  | EmptyBranch
  | InvalidMatch
  | InvalidBranch

section \<open>Patterns\<close>

datatype path_token =
    Static ustring
  | Param ustring bool \<comment> \<open>name, whether optional\<close>
  | CatchAll ustring

record route_pattern =
  canonical :: "path_token list"
  alternatives :: "path_token list list"

definition name_start :: "nat \<Rightarrow> bool" where
  "name_start c \<longleftrightarrow> (65 \<le> c \<and> c \<le> 90) \<or> (97 \<le> c \<and> c \<le> 122)"

fun PARAM_NAME :: "ustring \<Rightarrow> bool" where
  "PARAM_NAME [] \<longleftrightarrow> False"
| "PARAM_NAME (c # cs) \<longleftrightarrow> name_start c \<and> list_all (\<lambda>x. alphanumeric x \<or> x = 95) cs"

definition SPLIT_PATH_SEPARATOR :: ustring where
  "SPLIT_PATH_SEPARATOR = u ''~''"

definition trim_slashes :: "ustring \<Rightarrow> ustring" where
  "trim_slashes s = rev (dropWhile (\<lambda>c. c = slash) (rev (dropWhile (\<lambda>c. c = slash) s)))"

definition splitSegments :: "ustring \<Rightarrow> ustring list" where
  "splitSegments path = filter (\<lambda>w. w \<noteq> []) (split_on slash (trim_slashes path))"

definition decodeSegment :: "ustring \<Rightarrow> ustring" where
  "decodeSegment s = (case decodeURIComponent s of None \<Rightarrow> s | Some t \<Rightarrow> t)"

definition paramToken :: "ustring \<Rightarrow> route_error + path_token" where
  "paramToken segment =
    (let optional = segment \<noteq> [] \<and> last segment = 63;
         name = drop 1 (if optional then butlast segment else segment)
     in if PARAM_NAME name then Inr (Param name optional) else Inl (InvalidParameter segment))"

definition catchAllToken :: "ustring \<Rightarrow> route_error + path_token" where
  "catchAllToken segment =
    (let name = drop 1 segment
     in if PARAM_NAME name then Inr (CatchAll name) else Inl (InvalidCatchAll segment))"

definition segmentToken :: "ustring \<Rightarrow> ustring \<Rightarrow> route_error + path_token" where
  "segmentToken segment pattern =
    (if take 1 segment = u '':'' then paramToken segment
     else if take 1 segment = u ''*'' then catchAllToken segment
     else if segment = SPLIT_PATH_SEPARATOR then Inl (InvalidPath pattern)
     else Inr (Static segment))"

fun is_catchAll :: "path_token \<Rightarrow> bool" where
  "is_catchAll (CatchAll _) = True"
| "is_catchAll _ = False"

definition assertCatchAllLast :: "path_token list \<Rightarrow> ustring \<Rightarrow> route_error + unit" where
  "assertCatchAllLast tokens pattern =
    (case find_index is_catchAll tokens of
       None \<Rightarrow> Inr ()
     | Some i \<Rightarrow> if i = length tokens - 1 then Inr () else Inl (CatchAllNotLast pattern))"

definition tokenize :: "ustring \<Rightarrow> route_error + path_token list" where
  "tokenize pattern =
    bind_result (map_results (\<lambda>segment. segmentToken segment pattern) (splitSegments pattern)) (\<lambda>tokens.
      if tokens = [] then Inl (InvalidPath pattern)
      else bind_result (assertCatchAllLast tokens pattern) (\<lambda>_. Inr tokens))"

fun optionalRun :: "path_token list \<Rightarrow> path_token list" where
  "optionalRun (Param name True # ts) = Param name False # optionalRun ts"
| "optionalRun _ = []"

definition appendPrefixes :: "path_token list list \<Rightarrow> path_token list \<Rightarrow> path_token list list" where
  "appendPrefixes variants run =
    (let prefixes = map (\<lambda>count. take (count + 1) run) [0..<length run]
     in concat (map (\<lambda>variant. variant # map (\<lambda>prefix. variant @ prefix) prefixes) variants))"

lemma optionalRun_length: "length (optionalRun ts) \<le> length ts"
  by (induction ts rule: optionalRun.induct) simp_all

function expandOptionals_loop :: "path_token list \<Rightarrow> path_token list list \<Rightarrow> path_token list list" where
  "expandOptionals_loop [] variants = variants"
| "expandOptionals_loop (t # ts) variants =
     (let run = optionalRun (t # ts)
      in if run \<noteq> [] then expandOptionals_loop (drop (length run) (t # ts)) (appendPrefixes variants run)
         else expandOptionals_loop ts (map (\<lambda>variant. variant @ [t]) variants))"
  by pat_completeness auto
termination
  by (relation "measure (\<lambda>(ts, _). length ts)") auto

definition expandOptionals :: "path_token list \<Rightarrow> path_token list list" where
  "expandOptionals tokens = expandOptionals_loop tokens [[]]"

definition compileRoutePattern :: "ustring option \<Rightarrow> ustring list option \<Rightarrow> route_error + route_pattern" where
  "compileRoutePattern path aliases =
    bind_result (case path of None \<Rightarrow> Inr [] | Some p \<Rightarrow> if p = [] then Inr [] else tokenize p) (\<lambda>c.
    bind_result (map_results tokenize (case aliases of None \<Rightarrow> [] | Some as \<Rightarrow> as)) (\<lambda>as.
      Inr \<lparr>canonical = c, alternatives = concat (map expandOptionals (c # as))\<rparr>))"

definition patternKey :: "ustring \<Rightarrow> ustring" where
  "patternKey path = join [slash] (splitSegments path)"

fun tokenScore :: "path_token \<Rightarrow> int" where
  "tokenScore (Static _) = 4"
| "tokenScore (Param _ _) = 3"
| "tokenScore (CatchAll _) = -1"

definition specificity :: "path_token list \<Rightarrow> int" where
  "specificity tokens = sum_list (map tokenScore tokens)"

section \<open>Matching\<close>

fun matchToken ::
  "(ustring \<Rightarrow> ustring) \<Rightarrow> path_token \<Rightarrow> ustring list \<Rightarrow> nat \<Rightarrow> route_params \<Rightarrow> (nat \<times> route_params) option" where
  "matchToken toLower (CatchAll name) segments position ps =
     (let rest = drop position segments
      in if rest = [] then None
         else Some (length segments, AList.update name (Arr (map Str rest)) ps))"
| "matchToken toLower (Param name _) segments position ps =
     (if position < length segments
      then Some (position + 1, AList.update name (Str (segments ! position)) ps) else None)"
| "matchToken toLower (Static value) segments position ps =
     (if position < length segments \<and> toLower (segments ! position) = toLower value
      then Some (position + 1, ps) else None)"

fun matchTokens_loop ::
  "(ustring \<Rightarrow> ustring) \<Rightarrow> path_token list \<Rightarrow> ustring list \<Rightarrow> nat \<Rightarrow> route_params \<Rightarrow> (route_params \<times> nat) option" where
  "matchTokens_loop toLower [] segments position ps = Some (ps, position)"
| "matchTokens_loop toLower (t # ts) segments position ps =
     (case matchToken toLower t segments position ps of
        None \<Rightarrow> None
      | Some (next, ps1) \<Rightarrow> matchTokens_loop toLower ts segments next ps1)"

definition matchTokens ::
  "(ustring \<Rightarrow> ustring) \<Rightarrow> path_token list \<Rightarrow> ustring list \<Rightarrow> nat \<Rightarrow> (route_params \<times> nat) option" where
  "matchTokens toLower tokens segments offset = matchTokens_loop toLower tokens segments offset []"

section \<open>Formatting\<close>

fun serializeValue :: "js_value \<Rightarrow> ustring \<Rightarrow> route_error + ustring" where
  "serializeValue (Str s) name = Inr s"
| "serializeValue (Primitive s) name = Inr s"
| "serializeValue _ name = Inl (RequiresSerialize name)"

definition formatCatchAll :: "ustring \<Rightarrow> js_value \<Rightarrow> route_error + ustring list" where
  "formatCatchAll name value =
    (let items = (case value of Arr vs \<Rightarrow> vs | _ \<Rightarrow> [])
     in if items = [] then Inl (MissingCatchAll name)
        else map_results (\<lambda>item. serializeValue item name) items)"

definition formatParam :: "ustring \<Rightarrow> bool \<Rightarrow> js_value \<Rightarrow> route_error + ustring list" where
  "formatParam name optional value =
    (if value \<noteq> Undefined then bind_result (serializeValue value name) (\<lambda>s. Inr [s])
     else if optional then Inr [] else Inl (MissingParameter name))"

fun formatToken :: "route_params \<Rightarrow> path_token \<Rightarrow> route_error + ustring list" where
  "formatToken ps (Static value) = Inr [value]"
| "formatToken ps (CatchAll name) = formatCatchAll name (param_value ps name)"
| "formatToken ps (Param name optional) = formatParam name optional (param_value ps name)"

definition formatTokens :: "path_token list \<Rightarrow> route_params \<Rightarrow> route_error + ustring list" where
  "formatTokens tokens ps = bind_result (map_results (formatToken ps) tokens) (\<lambda>ss. Inr (concat ss))"

end
