(* ===== verification/Route_Manifest.thy ===== *)
theory Route_Manifest
  imports Route_Path "HOL-Library.Product_Lexorder"
begin

text \<open>
  The route table of the split router, \<open>routes/manifest.ts\<close> with the data of \<open>routes/types.ts\<close> and
  the name check of \<open>utils.ts\<close>: static definitions are compiled into nodes and branches, a pane's
  segments are decoded to the most specific route, and a route is formatted by its canonical
  path.  Schemas and the callbacks of a definition belong to the application: they are
  functions stored in the definition.  A node is found by its id, so the links between
  nodes are ids.
\<close>

section \<open>Data\<close>

datatype schema_result = SchemaPromise | SchemaIssues | SchemaValue js_value

type_synonym schema = "js_value \<Rightarrow> schema_result"

record route_match =
  m_id :: ustring
  m_params :: route_params

type_synonym route_state = "route_match list" \<comment> \<open>the \<open>matches\<close>, not empty\<close>

type_synonym search_params = "(ustring \<times> ustring list) list"
type_synonym search_state = "(ustring \<times> search_params) list"

record split_location =
  l_route :: route_state
  l_search :: "search_state option"

text \<open>An entry without the in-memory fields that the URL never shows.\<close>

record route_entry =
  en_id :: ustring
  en_location :: split_location
  en_state :: js_value

datatype search_decl = SearchNames "ustring list" | SearchEvery
datatype external_decl = ExternalKeys "ustring list" | ExternalEvery | ExternalFn "route_entry \<Rightarrow> ustring list"

datatype route_def = RouteDef
  (rd_id: ustring)
  (rd_path: "ustring option")
  (rd_aliases: "ustring list option")
  (rd_children: "route_def list")
  (rd_params: "schema option")
  (rd_serializeParams: "(route_params \<Rightarrow> route_params option) option")
  (rd_state: "schema option")
  (rd_search: "search_decl option")
  (rd_externalSearch: "external_decl option")
  (rd_claim: "(route_params \<Rightarrow> (ustring \<times> ustring) option) option")
  (rd_mountKey: "ustring option")
  (rd_remountKey: "(route_params \<Rightarrow> ustring \<Rightarrow> js_value) option") \<comment> \<open>parameters, entry id\<close>

datatype owned_search = Owned "ustring list" | AnySearch

record route_node =
  n_definition :: route_def
  n_parent :: "ustring option"
  n_branch :: "ustring list" \<comment> \<open>root to this node, inclusive\<close>
  n_pattern :: route_pattern
  n_search :: owned_search
  n_state :: "schema option"
  n_externalSearch :: "route_def list"

datatype compiled = Compiled route_node "compiled list"

record route_branch =
  b_nodes :: "route_node list"
  b_patterns :: "path_token list list"
  b_score :: int
  b_order :: nat

type_synonym nodes_by_id = "(ustring \<times> route_node) list"

record routes_manifest =
  byId :: nodes_by_id
  branches :: "route_branch list"
  globalSearch :: "ustring list"
  defaultRoute_value :: js_value \<comment> \<open>what the application's \<open>defaultRoute\<close> returns\<close>

abbreviation n_id :: "route_node \<Rightarrow> ustring" where
  "n_id n \<equiv> rd_id (n_definition n)"

section \<open>Names\<close>

fun SAFE_NAME :: "ustring \<Rightarrow> bool" where
  "SAFE_NAME [] \<longleftrightarrow> False"
| "SAFE_NAME (c # cs) \<longleftrightarrow> name_start c \<and> list_all (\<lambda>x. alphanumeric x \<or> x = 95 \<or> x = 45) cs"

definition isSafeName :: "ustring \<Rightarrow> bool" where
  "isSafeName value \<longleftrightarrow>
     js_length value \<le> 64 \<and> value \<noteq> u ''constructor'' \<and> value \<noteq> u ''prototype'' \<and> SAFE_NAME value"

definition assertSafeSearchName :: "ustring \<Rightarrow> route_error + unit" where
  "assertSafeSearchName value = (if isSafeName value then Inr () else Inl (InvalidSearchName value))"

section \<open>Parameters\<close>

definition validateRouteParams :: "schema option \<Rightarrow> route_params \<Rightarrow> route_error + route_params option" where
  "validateRouteParams schema ps =
    (case schema of
       None \<Rightarrow> Inr (Some ps)
     | Some validate \<Rightarrow>
         (case validate (Obj ps) of
            SchemaPromise \<Rightarrow> Inl AsyncSchema
          | SchemaIssues \<Rightarrow> Inr None
          | SchemaValue v \<Rightarrow> (case v of Obj r \<Rightarrow> Inr (Some r) | _ \<Rightarrow> Inl SchemaNotObject)))"

definition params_parse :: "route_def \<Rightarrow> route_params \<Rightarrow> route_error + route_params option" where
  "params_parse d ps = validateRouteParams (rd_params d) ps"

definition params_serialize :: "route_def \<Rightarrow> route_params \<Rightarrow> route_params" where
  "params_serialize d ps =
    (case rd_serializeParams d of None \<Rightarrow> ps | Some f \<Rightarrow> (case f ps of None \<Rightarrow> ps | Some r \<Rightarrow> r))"

section \<open>Compiling\<close>

fun ownNamespaces_loop :: "ustring list \<Rightarrow> ustring list \<Rightarrow> route_error + ustring list" where
  "ownNamespaces_loop [] own = Inr own"
| "ownNamespaces_loop (n # ns) own =
     bind_result (assertSafeSearchName n) (\<lambda>_.
       if n \<in> set own then Inl (DuplicateNamespace n) else ownNamespaces_loop ns (own @ [n]))"

definition ownNamespaces :: "search_decl option \<Rightarrow> route_error + ustring list" where
  "ownNamespaces search = ownNamespaces_loop (case search of Some (SearchNames ns) \<Rightarrow> ns | _ \<Rightarrow> []) []"

definition isLayout :: "route_def \<Rightarrow> bool" where
  "isLayout d \<longleftrightarrow> rd_path d = None"

text \<open>The enclosing nodes of a definition are a list, the nearest first.\<close>

definition searchParent :: "route_node list \<Rightarrow> route_node option" where
  "searchParent chain =
    List.find (\<lambda>n. \<not> (isLayout (n_definition n) \<and> rd_search (n_definition n) = None)) chain"

definition branchSearch :: "route_node list \<Rightarrow> search_decl option \<Rightarrow> route_error + owned_search" where
  "branchSearch chain search =
    (if search = Some SearchEvery then Inr AnySearch
     else bind_result (ownNamespaces search) (\<lambda>own.
       case searchParent chain of
         None \<Rightarrow> Inr (if search = None then AnySearch else Owned own)
       | Some parent \<Rightarrow>
           (case n_search parent of
              AnySearch \<Rightarrow> Inr AnySearch
            | Owned inherited \<Rightarrow> Inr (Owned (inherited @ filter (\<lambda>n. n \<notin> set inherited) own)))))"

definition createNode :: "route_def \<Rightarrow> route_node list \<Rightarrow> route_error + route_node" where
  "createNode d chain =
    bind_result (compileRoutePattern (rd_path d) (rd_aliases d)) (\<lambda>pattern.
    bind_result (branchSearch chain (rd_search d)) (\<lambda>search.
      Inr \<lparr>n_definition = d,
           n_parent = (case chain of [] \<Rightarrow> None | p # _ \<Rightarrow> Some (n_id p)),
           n_branch = (case chain of [] \<Rightarrow> [] | p # _ \<Rightarrow> n_branch p) @ [rd_id d],
           n_pattern = pattern,
           n_search = search,
           n_state = (case rd_state d of Some s \<Rightarrow> Some s
                      | None \<Rightarrow> (case chain of [] \<Rightarrow> None | p # _ \<Rightarrow> n_state p)),
           n_externalSearch = (case chain of [] \<Rightarrow> [] | p # _ \<Rightarrow> n_externalSearch p) @
             (if rd_externalSearch d = None then [] else [d])\<rparr>))"

definition assertNewRouteId :: "nodes_by_id \<Rightarrow> ustring \<Rightarrow> route_error + unit" where
  "assertNewRouteId ids i =
    (if \<not> isSafeName i then Inl (InvalidRouteId i)
     else if map_of ids i \<noteq> None then Inl (DuplicateRouteId i) else Inr ())"

definition assertLayoutHasChildren :: "route_def \<Rightarrow> route_error + unit" where
  "assertLayoutHasChildren d =
    (if \<not> isLayout d \<or> rd_children d \<noteq> [] then Inr () else Inl (LayoutWithoutChildren (rd_id d)))"

fun claimPaths :: "ustring list \<Rightarrow> ustring list \<Rightarrow> route_error + ustring list" where
  "claimPaths siblings [] = Inr siblings"
| "claimPaths siblings (p # ps) =
     (if patternKey p \<in> set siblings then Inl (DuplicateSiblingPath (patternKey p))
      else claimPaths (siblings @ [patternKey p]) ps)"

definition claimSiblingPaths :: "ustring list \<Rightarrow> route_def \<Rightarrow> route_error + ustring list" where
  "claimSiblingPaths siblings d =
    (case rd_path d of
       None \<Rightarrow> Inr siblings
     | Some p \<Rightarrow> claimPaths siblings (p # (case rd_aliases d of None \<Rightarrow> [] | Some as \<Rightarrow> as)))"

text \<open>\<open>compileNodes\<close> with the map of nodes and the paths of siblings, which it mutates, threaded through.\<close>

function (sequential) compileNodes ::
  "route_def list \<Rightarrow> route_node list \<Rightarrow> nodes_by_id \<Rightarrow> ustring list \<Rightarrow>
   route_error + compiled list \<times> nodes_by_id \<times> ustring list" where
  "compileNodes [] chain ids siblings = Inr ([], ids, siblings)"
| "compileNodes (d # ds) chain ids siblings =
     bind_result (assertNewRouteId ids (rd_id d)) (\<lambda>_.
     bind_result (assertLayoutHasChildren d) (\<lambda>_.
     bind_result (claimSiblingPaths siblings d) (\<lambda>siblings1.
     bind_result (createNode d chain) (\<lambda>node.
     bind_result (compileNodes (rd_children d) (node # chain) (ids @ [(rd_id d, node)])
         (if isLayout d then siblings1 else [])) (\<lambda>(children, ids1, siblings2).
     bind_result (compileNodes ds chain ids1 (if isLayout d then siblings2 else siblings1)) (\<lambda>(rest, ids2, siblings3).
       Inr (Compiled node children # rest, ids2, siblings3)))))))"
  by pat_completeness auto
termination
proof (relation "measure (\<lambda>(ds, _). size_list size ds)")
  fix d :: route_def and ds chain ids siblings children
  have "size_list size (rd_children d) < size d" by (cases d) simp
  then show "((rd_children d, children), d # ds, chain, ids, siblings) \<in> measure (\<lambda>(ds, _). size_list size ds)" for children
    by simp
qed simp_all

fun collectBranches ::
  "compiled \<Rightarrow> route_node list \<Rightarrow> path_token list list \<Rightarrow> route_branch list \<Rightarrow> route_branch list" where
  "collectBranches (Compiled node children) nodes patterns bs =
     fold (\<lambda>tokens bs1.
       let branchNodes = nodes @ [node];
           branchPatterns = patterns @ [tokens];
           bs2 = (if isLayout (n_definition node) then bs1
                  else bs1 @ [\<lparr>b_nodes = branchNodes, b_patterns = branchPatterns,
                               b_score = specificity (concat branchPatterns), b_order = length bs1\<rparr>])
       in fold (\<lambda>child bs3. collectBranches child branchNodes branchPatterns bs3) children bs2)
     (alternatives (n_pattern node)) bs"

definition compileBranches :: "compiled list \<Rightarrow> route_branch list" where
  "compileBranches roots =
    sort_key (\<lambda>b. (- b_score b, b_order b)) (fold (\<lambda>root bs. collectBranches root [] [] bs) roots [])"

definition assertGlobalSearch :: "ustring list \<Rightarrow> route_error + unit" where
  "assertGlobalSearch keys =
    (case List.find (\<lambda>k. \<not> isSafeName k) keys of None \<Rightarrow> Inr () | Some k \<Rightarrow> Inl (InvalidGlobalKey k))"

record split_routes =
  definitions :: "route_def list"
  r_defaultRoute :: js_value
  r_globalSearch :: "ustring list option"

definition createRoutesManifest :: "split_routes \<Rightarrow> route_error + routes_manifest" where
  "createRoutesManifest routes =
    (let gs = (case r_globalSearch routes of None \<Rightarrow> [] | Some ks \<Rightarrow> ks)
     in bind_result (assertGlobalSearch gs) (\<lambda>_.
        bind_result (compileNodes (definitions routes) [] [] []) (\<lambda>(roots, ids, _).
          Inr \<lparr>byId = ids, branches = compileBranches roots, globalSearch = gs,
               defaultRoute_value = r_defaultRoute routes\<rparr>)))"

section \<open>Decoding\<close>

fun matchBranch_loop ::
  "(ustring \<Rightarrow> ustring) \<Rightarrow> (route_node \<times> path_token list) list \<Rightarrow> ustring list \<Rightarrow> nat \<Rightarrow> route_state \<Rightarrow>
   route_error + route_state option" where
  "matchBranch_loop toLower [] segments offset matches =
     Inr (if offset = length segments then Some matches else None)"
| "matchBranch_loop toLower ((node, tokens) # rest) segments offset matches =
     (case matchTokens toLower tokens segments offset of
        None \<Rightarrow> Inr None
      | Some (raw, end) \<Rightarrow>
          bind_result (params_parse (n_definition node) raw) (\<lambda>ps.
            case ps of
              None \<Rightarrow> Inr None
            | Some ps1 \<Rightarrow>
                matchBranch_loop toLower rest segments end
                  (matches @ [\<lparr>m_id = n_id node, m_params = ps1\<rparr>])))"

definition matchBranch ::
  "(ustring \<Rightarrow> ustring) \<Rightarrow> route_branch \<Rightarrow> ustring list \<Rightarrow> route_error + route_state option" where
  "matchBranch toLower b segments = matchBranch_loop toLower (zip (b_nodes b) (b_patterns b)) segments 0 []"

fun decodeAmong ::
  "(ustring \<Rightarrow> ustring) \<Rightarrow> route_branch list \<Rightarrow> ustring list \<Rightarrow> route_error + route_state option" where
  "decodeAmong toLower [] segments = Inr None"
| "decodeAmong toLower (b # bs) segments =
     bind_result (matchBranch toLower b segments) (\<lambda>route.
       case route of Some r \<Rightarrow> Inr (Some r) | None \<Rightarrow> decodeAmong toLower bs segments)"

definition decodePane ::
  "(ustring \<Rightarrow> ustring) \<Rightarrow> routes_manifest \<Rightarrow> ustring list \<Rightarrow> route_error + route_state option" where
  "decodePane toLower routes segments = decodeAmong toLower (branches routes) segments"

definition isNestedCatchAll :: "route_branch \<Rightarrow> bool" where
  "isNestedCatchAll b \<longleftrightarrow> 2 \<le> length (b_nodes b) \<and>
     (case concat (b_patterns b) of [t] \<Rightarrow> is_catchAll t | _ \<Rightarrow> False)"

definition decodeFirstPane ::
  "(ustring \<Rightarrow> ustring) \<Rightarrow> routes_manifest \<Rightarrow> ustring list \<Rightarrow> route_error + route_state option" where
  "decodeFirstPane toLower routes segments =
    decodeAmong toLower (filter (\<lambda>b. \<not> isNestedCatchAll b) (branches routes)) segments"

section \<open>Route states\<close>

definition ids_of :: "route_state \<Rightarrow> ustring list" where
  "ids_of route = map m_id route"

definition branch_of :: "nodes_by_id \<Rightarrow> route_node \<Rightarrow> route_node list" where
  "branch_of ids n = List.map_filter (map_of ids) (n_branch n)"

definition resolveBranch :: "routes_manifest \<Rightarrow> route_state \<Rightarrow> route_error + route_node list" where
  "resolveBranch routes route =
    (let branch = (case map_of (byId routes) (m_id (last route)) of
                     None \<Rightarrow> [] | Some n \<Rightarrow> branch_of (byId routes) n)
     in if map n_id branch = ids_of route then Inr branch else Inl InvalidBranch)"

definition sameMatchIds :: "route_state \<Rightarrow> route_state \<Rightarrow> bool" where
  "sameMatchIds left right \<longleftrightarrow> ids_of left = ids_of right"

definition leafNode :: "routes_manifest \<Rightarrow> route_state \<Rightarrow> route_error + route_node" where
  "leafNode routes route = bind_result (resolveBranch routes route) (\<lambda>branch. Inr (last branch))"

definition searchRootId :: "routes_manifest \<Rightarrow> route_state \<Rightarrow> route_error + ustring" where
  "searchRootId routes route =
    bind_result (resolveBranch routes route) (\<lambda>branch.
      let index = find_index (\<lambda>n. \<not> isLayout (n_definition n)) branch
      in Inr (m_id (route ! (case index of None \<Rightarrow> 0 | Some i \<Rightarrow> i))))"

text \<open>The check of a state that comes from the application, and what it then is.\<close>

fun as_match :: "js_value \<Rightarrow> route_match option" where
  "as_match (Obj r) =
     (case (map_of r (u ''id''), map_of r (u ''params'')) of
        (Some (Str i), Some (Obj ps)) \<Rightarrow> Some \<lparr>m_id = i, m_params = ps\<rparr>
      | _ \<Rightarrow> None)"
| "as_match _ = None"

fun as_matches :: "js_value \<Rightarrow> js_value list" where
  "as_matches (Obj r) = (case map_of r (u ''matches'') of Some (Arr vs) \<Rightarrow> vs | _ \<Rightarrow> [])"
| "as_matches _ = []"

fun assert_matches ::
  "routes_manifest \<Rightarrow> ustring option \<Rightarrow> js_value list \<Rightarrow> route_error + route_state" where
  "assert_matches routes parent [] = Inr []"
| "assert_matches routes parent (v # vs) =
     (case as_match v of
        None \<Rightarrow> Inl InvalidMatch
      | Some m \<Rightarrow>
          (case map_of (byId routes) (m_id m) of
             None \<Rightarrow> Inl InvalidBranch
           | Some n \<Rightarrow>
               if n_parent n = parent
               then bind_result (assert_matches routes (Some (m_id m)) vs) (\<lambda>ms. Inr (m # ms))
               else Inl InvalidBranch))"

definition assertRouteState :: "routes_manifest \<Rightarrow> js_value \<Rightarrow> route_error + route_state" where
  "assertRouteState routes v =
    (if as_matches v = [] then Inl EmptyBranch else assert_matches routes None (as_matches v))"

definition defaultRoute :: "routes_manifest \<Rightarrow> route_error + route_state" where
  "defaultRoute routes = assertRouteState routes (defaultRoute_value routes)"

definition formatPane :: "routes_manifest \<Rightarrow> route_state \<Rightarrow> route_error + ustring list" where
  "formatPane routes route =
    bind_result (resolveBranch routes route) (\<lambda>branch.
    bind_result (map_results (\<lambda>(n, m). formatTokens (canonical (n_pattern n))
                               (params_serialize (n_definition n) (m_params m))) (zip branch route)) (\<lambda>ss.
      Inr (concat ss)))"

definition canonicalRoute ::
  "(ustring \<Rightarrow> ustring) \<Rightarrow> routes_manifest \<Rightarrow> route_state \<Rightarrow> route_error + route_state option" where
  "canonicalRoute toLower routes route =
    bind_result (formatPane routes route) (\<lambda>segments.
    bind_result (decodePane toLower routes segments) (\<lambda>decoded.
      Inr (case decoded of
             None \<Rightarrow> None
           | Some d \<Rightarrow> if sameMatchIds d route then Some d else None)))"

end
