(* ===== verification/Route_Table.thy ===== *)
theory Route_Table
  imports Route_Manifest
begin

text \<open>
  What the route table promises: a pattern matches what it formats, a compiled table resolves
  every route it decodes, and it decodes the most specific route.
\<close>

section \<open>A pattern matches what it formats\<close>

text \<open>The tokens that are left when the optional parameters outside \<open>P\<close> are dropped.\<close>

fun chosen :: "(ustring \<Rightarrow> bool) \<Rightarrow> path_token list \<Rightarrow> path_token list" where
  "chosen P [] = []"
| "chosen P (Param n True # ts) = (if P n then Param n False # chosen P ts else chosen P ts)"
| "chosen P (t # ts) = t # chosen P ts"

text \<open>Of adjacent optional parameters only the last ones may be missing.\<close>

fun prefixed :: "(ustring \<Rightarrow> bool) \<Rightarrow> path_token list \<Rightarrow> bool" where
  "prefixed P (Param a True # Param b True # ts) \<longleftrightarrow> (P b \<longrightarrow> P a) \<and> prefixed P (Param b True # ts)"
| "prefixed P (t # ts) \<longleftrightarrow> prefixed P ts"
| "prefixed P [] \<longleftrightarrow> True"

lemma prefixed_tl: "prefixed P (t # ts) \<Longrightarrow> prefixed P ts"
  by (cases "(P, t # ts)" rule: prefixed.cases) auto

lemma prefixed_drop: "prefixed P ts \<Longrightarrow> prefixed P (drop n ts)"
proof (induction ts arbitrary: n)
  case (Cons t ts)
  then show ?case using prefixed_tl by (cases n) auto
qed simp

lemma chosen_none: "prefixed P (Param n True # ts) \<Longrightarrow> \<not> P n \<Longrightarrow>
  chosen P ts = chosen P (drop (length (optionalRun ts)) ts)"
  by (induction ts arbitrary: n rule: optionalRun.induct) auto

lemma chosen_run: "prefixed P ts \<Longrightarrow>
  \<exists>k \<le> length (optionalRun ts). chosen P ts = take k (optionalRun ts) @ chosen P (drop (length (optionalRun ts)) ts)"
proof (induction ts rule: optionalRun.induct)
  case (1 n ts)
  show ?case
  proof (cases "P n")
    case True
    from 1 obtain k where "k \<le> length (optionalRun ts)"
      "chosen P ts = take k (optionalRun ts) @ chosen P (drop (length (optionalRun ts)) ts)"
      using prefixed_tl by blast
    then show ?thesis using True by (intro exI[of _ "Suc k"]) simp
  next
    case False
    then show ?thesis using chosen_none[OF 1(2) False] by (intro exI[of _ 0]) simp
  qed
qed auto

lemma appendPrefixes_take: "v \<in> set vs \<Longrightarrow> k \<le> length run \<Longrightarrow> v @ take k run \<in> set (appendPrefixes vs run)"
proof (cases k)
  case (Suc j)
  assume "v \<in> set vs" "k \<le> length run"
  then show ?thesis using Suc by (auto simp: appendPrefixes_def Let_def intro!: bexI[of _ v] image_eqI[of _ _ j])
qed (auto simp: appendPrefixes_def Let_def)

lemma expandOptionals_chosen:
  "prefixed P ts \<Longrightarrow> v \<in> set vs \<Longrightarrow> v @ chosen P ts \<in> set (expandOptionals_loop ts vs)"
proof (induction ts vs arbitrary: v rule: expandOptionals_loop.induct)
  case (2 t ts vs)
  let ?run = "optionalRun (t # ts)"
  show ?case
  proof (cases "?run = []")
    case True
    then have "chosen P (t # ts) = t # chosen P ts"
      by (cases t) (auto split: bool.splits, metis (full_types) chosen.simps(4) optionalRun.simps(1) list.distinct(1))
    moreover have "v @ [t] \<in> set (map (\<lambda>variant. variant @ [t]) vs)" using 2(4) by simp
    ultimately show ?thesis using 2(2)[OF refl _ prefixed_tl[OF 2(3)]] True by fastforce
  next
    case False
    obtain k where k: "k \<le> length ?run" "chosen P (t # ts) = take k ?run @ chosen P (drop (length ?run) (t # ts))"
      using chosen_run[OF 2(3)] by blast
    have "prefixed P (drop (length ?run) (t # ts))" by (rule prefixed_drop[OF 2(3)])
    from 2(1)[OF refl False this appendPrefixes_take[OF 2(4) k(1)]] show ?thesis using False k(2) by (simp add: Let_def)
  qed
qed simp

lemma chosen_alternative: "prefixed P ts \<Longrightarrow> chosen P ts \<in> set (expandOptionals ts)"
  using expandOptionals_chosen[of P ts "[]" "[[]]"] by (simp add: expandOptionals_def)

text \<open>Parameters as matching produces them: strings, and for a catch-all a list of strings.\<close>

fun token_fits :: "route_params \<Rightarrow> path_token \<Rightarrow> bool" where
  "token_fits ps (Static _) \<longleftrightarrow> True"
| "token_fits ps (Param n _) \<longleftrightarrow> (\<exists>s. map_of ps n = Some (Str s))"
| "token_fits ps (CatchAll n) \<longleftrightarrow> (\<exists>ss. map_of ps n = Some (Arr (map Str ss)))"

fun token_name :: "path_token \<Rightarrow> ustring option" where
  "token_name (Static _) = None"
| "token_name (Param n _) = Some n"
| "token_name (CatchAll n) = Some n"

fun catchAll_last :: "path_token list \<Rightarrow> bool" where
  "catchAll_last [] \<longleftrightarrow> True"
| "catchAll_last (t # ts) \<longleftrightarrow> (is_catchAll t \<longrightarrow> ts = []) \<and> catchAll_last ts"

lemma formatTokens_Cons:
  "formatTokens (t # ts) ps = Inr segs \<longleftrightarrow>
     (\<exists>xs ys. formatToken ps t = Inr xs \<and> formatTokens ts ps = Inr ys \<and> segs = xs @ ys)"
  by (auto simp: formatTokens_def bind_result_Inr)

lemma map_results_Str: "map_results (\<lambda>item. serializeValue item n) (map Str ss) = Inr ss"
  by (induction ss) simp_all

lemma match_format:
  assumes "formatTokens ts ps = Inr segs" and "\<And>t. t \<in> set ts \<Longrightarrow> token_fits ps t" and "catchAll_last ts"
    and "(\<exists>t \<in> set ts. is_catchAll t) \<longrightarrow> post = []"
  shows "\<exists>qs. matchTokens_loop lc ts (pre @ segs @ post) (length pre) acc = Some (qs, length pre + length segs) \<and>
    (\<forall>n. map_of qs n = (if Some n \<in> token_name ` set ts then map_of ps n else map_of acc n))"
  using assms
proof (induction ts arbitrary: pre segs acc)
  case Nil
  then show ?case by (simp add: formatTokens_def)
next
  case (Cons t ts)
  from Cons.prems(1) obtain xs ys where f: "formatToken ps t = Inr xs" "formatTokens ts ps = Inr ys" "segs = xs @ ys"
    by (auto simp: formatTokens_Cons)
  have IH: "\<exists>qs. matchTokens_loop lc ts ((pre @ xs) @ ys @ post) (length (pre @ xs)) acc1 = Some (qs, length (pre @ xs) + length ys) \<and>
    (\<forall>n. map_of qs n = (if Some n \<in> token_name ` set ts then map_of ps n else map_of acc1 n))" for acc1
    by (rule Cons.IH[OF f(2)]) (use Cons.prems in auto)
  show ?case
  proof (cases t)
    case (Static v)
    then have "xs = [v]" using f(1) by simp
    then show ?thesis using IH[of acc] Static f(3) by simp
  next
    case (Param n opt)
    then obtain s where "map_of ps n = Some (Str s)" using Cons.prems(2)[of t] by auto
    moreover from this have "xs = [s]" using f(1) Param by (simp add: formatParam_def param_value_def)
    ultimately show ?thesis using IH[of "AList.update n (Str s) acc"] Param f(3)
      by (auto simp: update_conv' nth_append)
  next
    case (CatchAll n)
    then obtain ss where ss: "map_of ps n = Some (Arr (map Str ss))" using Cons.prems(2)[of t] by auto
    then have "ss \<noteq> [] \<and> xs = ss" using f(1) CatchAll
      by (auto simp: formatCatchAll_def param_value_def Let_def map_results_Str split: if_splits)
    moreover have "ts = []" "post = []" using Cons.prems(3,4) CatchAll by auto
    ultimately show ?thesis using CatchAll f ss by (auto simp: formatTokens_def Let_def update_conv')
  qed
qed

text \<open>Formatting drops the optional parameters that are missing.\<close>

definition given :: "route_params \<Rightarrow> ustring \<Rightarrow> bool" where
  "given ps n \<longleftrightarrow> param_value ps n \<noteq> Undefined"

lemma format_chosen: "formatTokens (chosen (given ps) ts) ps = formatTokens ts ps"
proof (induction "given ps" ts rule: chosen.induct)
  case (2 n ts)
  then show ?case
    by (cases "given ps n") (auto simp: formatTokens_def formatParam_def given_def bind_result_def split: sum.splits)
qed (auto simp: formatTokens_def bind_result_def split: sum.splits)

lemma set_chosen: "t \<in> set (chosen P ts) \<Longrightarrow> \<exists>t' \<in> set ts. token_name t' = token_name t \<and> is_catchAll t' = is_catchAll t \<and> (\<forall>n b. t = Param n b \<longrightarrow> t' = Param n b \<or> P n)"
  by (induction P ts rule: chosen.induct) (auto split: if_splits)

lemma catchAll_last_chosen: "catchAll_last ts \<Longrightarrow> catchAll_last (chosen P ts)"
  by (induction P ts rule: chosen.induct) auto

lemma find_index_catchAll_last:
  "(case find_index is_catchAll ts of None \<Rightarrow> True | Some i \<Rightarrow> i = length ts - 1) \<Longrightarrow> catchAll_last ts"
proof (induction ts)
  case (Cons t ts)
  then show ?case
    by (cases "find_index is_catchAll ts") (auto split: if_splits option.splits dest: find_index_Some simp: find_index_None)
qed simp

lemma canonical_catchAll_last: "compileRoutePattern path aliases = Inr pat \<Longrightarrow> catchAll_last (canonical pat)"
  by (auto simp: compileRoutePattern_def bind_result_Inr tokenize_def assertCatchAllLast_def
      split: option.splits if_splits intro!: find_index_catchAll_last)

lemma fits_given: "token_fits ps t \<Longrightarrow> token_name t = Some n \<Longrightarrow> given ps n"
  by (cases t) (auto simp: given_def param_value_def)

lemma names_chosen:
  assumes "\<And>t. t \<in> set ts \<Longrightarrow> token_fits ps t \<or> (\<exists>n. t = Param n True \<and> \<not> given ps n)"
  shows "Some n \<in> token_name ` set (chosen (given ps) ts) \<longleftrightarrow> Some n \<in> token_name ` set ts \<and> given ps n"
  using assms
proof (induction ts)
  case (Cons t ts)
  have IH: "Some n \<in> token_name ` set (chosen (given ps) ts) \<longleftrightarrow> Some n \<in> token_name ` set ts \<and> given ps n"
    using Cons by auto
  have t: "token_fits ps t \<or> (\<exists>n. t = Param n True \<and> \<not> given ps n)" using Cons.prems by simp
  show ?case
  proof (cases t)
    case (Param m opt)
    then show ?thesis using IH t fits_given[of ps t m] by (cases opt) auto
  qed (use IH t fits_given[of ps t] in auto)
qed simp

lemma fits_chosen:
  assumes "\<And>t. t \<in> set ts \<Longrightarrow> token_fits ps t \<or> (\<exists>n. t = Param n True \<and> \<not> given ps n)"
    and "t \<in> set (chosen (given ps) ts)"
  shows "token_fits ps t"
  using assms
proof (induction ts)
  case (Cons x xs)
  have IH: "t \<in> set (chosen (given ps) xs) \<Longrightarrow> token_fits ps t" using Cons by simp
  have x: "token_fits ps x \<or> (\<exists>n. x = Param n True \<and> \<not> given ps n)" using Cons.prems(1) by simp
  show ?case
  proof (cases x)
    case (Param m opt)
    then show ?thesis using IH x Cons.prems(2) by (cases opt) (auto split: if_splits)
  qed (use IH x Cons.prems(2) in auto)
qed simp

text \<open>
  Whatever a route pattern formats from parameters it can have produced itself, one of its
  alternatives matches in full, and the match returns the same parameters: every one that was
  given under its name, and nothing else.  Optional parameters may be missing as long as of
  adjacent ones only the last are.
\<close>

theorem pattern_matches_what_it_formats:
  assumes "compileRoutePattern path aliases = Inr pat" and "formatTokens (canonical pat) ps = Inr segs"
    and "\<And>t. t \<in> set (canonical pat) \<Longrightarrow> token_fits ps t \<or> (\<exists>n. t = Param n True \<and> \<not> given ps n)"
    and "prefixed (given ps) (canonical pat)"
  shows "\<exists>ts \<in> set (alternatives pat). \<exists>qs. matchTokens lc ts segs 0 = Some (qs, length segs) \<and>
    (\<forall>n. map_of qs n = (if Some n \<in> token_name ` set (canonical pat) \<and> given ps n then map_of ps n else None))"
proof -
  let ?ts = "chosen (given ps) (canonical pat)"
  have alt: "?ts \<in> set (alternatives pat)"
    using assms(1) chosen_alternative[OF assms(4)] by (auto simp: compileRoutePattern_def bind_result_Inr)
  have f: "formatTokens ?ts ps = Inr segs" using assms(2) by (simp add: format_chosen)
  have last: "catchAll_last ?ts" by (intro catchAll_last_chosen canonical_catchAll_last[OF assms(1)])
  have fits: "\<And>t. t \<in> set ?ts \<Longrightarrow> token_fits ps t" by (rule fits_chosen[OF assms(3)])
  obtain qs where "matchTokens_loop lc ?ts ([] @ segs @ []) (length []) [] = Some (qs, length [] + length segs)"
    "\<forall>n. map_of qs n = (if Some n \<in> token_name ` set ?ts then map_of ps n else map_of [] n)"
    using match_format[OF f fits last, where lc = lc and pre = "[]" and post = "[]" and acc = "[]"] by auto
  moreover have "Some n \<in> token_name ` set ?ts \<longleftrightarrow> Some n \<in> token_name ` set (canonical pat) \<and> given ps n" for n
    by (rule names_chosen[OF assms(3)])
  ultimately show ?thesis using alt by (intro bexI[of _ ?ts] exI[of _ qs]) (simp_all add: matchTokens_def)
qed

section \<open>Every decoded route is a route of the table\<close>

definition ids_ok :: "nodes_by_id \<Rightarrow> bool" where
  "ids_ok ids \<longleftrightarrow> (\<forall>i n. map_of ids i = Some n \<longrightarrow> n_id n = i \<and>
     (case n_parent n of
        None \<Rightarrow> n_branch n = [i]
      | Some p \<Rightarrow> (\<exists>m. map_of ids p = Some m \<and> n_branch n = n_branch m @ [i])))"

definition known :: "nodes_by_id \<Rightarrow> route_node \<Rightarrow> bool" where
  "known ids n \<longleftrightarrow> map_of ids (n_id n) = Some n"

definition chain_ok :: "nodes_by_id \<Rightarrow> route_node list \<Rightarrow> bool" where
  "chain_ok ids chain \<longleftrightarrow> list_all (known ids) chain \<and>
     (case chain of [] \<Rightarrow> True | p # _ \<Rightarrow> n_branch p = rev (map n_id chain))"

fun tree_ok :: "nodes_by_id \<Rightarrow> route_node list \<Rightarrow> compiled \<Rightarrow> bool" where
  "tree_ok ids nodes (Compiled n kids) \<longleftrightarrow> known ids n \<and> n_branch n = map n_id nodes @ [n_id n] \<and>
     (\<forall>kid \<in> set kids. tree_ok ids (nodes @ [n]) kid)"

lemma known_mono: "known ids n \<Longrightarrow> known (ids @ ext) n"
  by (simp add: known_def map_add_Some_iff)

lemma tree_ok_mono: "tree_ok ids nodes t \<Longrightarrow> tree_ok (ids @ ext) nodes t"
  by (induction ids nodes t rule: tree_ok.induct) (simp add: known_mono)

lemma chain_ok_mono: "chain_ok ids chain \<Longrightarrow> chain_ok (ids @ ext) chain"
  by (auto simp: chain_ok_def list_all_iff known_mono)

lemma createNode_Inr:
  assumes "createNode d chain = Inr n"
  shows "n_definition n = d" and "n_parent n = (case chain of [] \<Rightarrow> None | p # _ \<Rightarrow> Some (n_id p))"
    and "n_branch n = (case chain of [] \<Rightarrow> [] | p # _ \<Rightarrow> n_branch p) @ [rd_id d]"
  using assms by (auto simp: createNode_def bind_result_Inr)

lemma add_node_ok:
  assumes "ids_ok ids" and "chain_ok ids chain" and "createNode d chain = Inr n" and "map_of ids (rd_id d) = None"
  shows "ids_ok (ids @ [(rd_id d, n)])" and "chain_ok (ids @ [(rd_id d, n)]) (n # chain)"
    and "n_branch n = rev (map n_id (n # chain))"
proof -
  note n = createNode_Inr[OF assms(3)]
  show branch: "n_branch n = rev (map n_id (n # chain))"
    using n assms(2) by (cases chain) (simp_all add: chain_ok_def)
  have known: "known (ids @ [(rd_id d, n)]) n" using n(1) assms(4) by (simp add: known_def map_add_Some_iff)
  then show "chain_ok (ids @ [(rd_id d, n)]) (n # chain)"
    using assms(2) branch known_mono by (auto simp: chain_ok_def list_all_iff)
  show "ids_ok (ids @ [(rd_id d, n)])"
    unfolding ids_ok_def
  proof (intro allI impI)
    fix i m assume m: "map_of (ids @ [(rd_id d, n)]) i = Some m"
    show "n_id m = i \<and> (case n_parent m of None \<Rightarrow> n_branch m = [i]
      | Some p \<Rightarrow> \<exists>k. map_of (ids @ [(rd_id d, n)]) p = Some k \<and> n_branch m = n_branch k @ [i])"
    proof (cases "map_of ids i")
      case None
      then have "i = rd_id d" "m = n" using m by (auto simp: map_add_Some_iff split: if_splits)
      then show ?thesis using n assms(2)
        by (cases chain) (auto simp: chain_ok_def known_def map_add_Some_iff)
    next
      case (Some k)
      then have "m = k" using m by (simp add: map_add_Some_iff)
      moreover have "map_of (ids @ [(rd_id d, n)]) p = Some q" if "map_of ids p = Some q" for p q
        using that by (simp add: map_add_Some_iff)
      moreover have "n_id k = i \<and> (case n_parent k of None \<Rightarrow> n_branch k = [i]
          | Some p \<Rightarrow> \<exists>q. map_of ids p = Some q \<and> n_branch k = n_branch q @ [i])"
        using assms(1) Some unfolding ids_ok_def by blast
      ultimately show ?thesis by (cases "n_parent k") (simp_all del: map_of_append, blast)
    qed
  qed
qed

lemma compileNodes_ok:
  "compileNodes ds chain ids sibs = Inr (trees, ids', sibs') \<Longrightarrow> ids_ok ids \<Longrightarrow> chain_ok ids chain \<Longrightarrow>
   ids_ok ids' \<and> (\<exists>ext. ids' = ids @ ext) \<and> (\<forall>t \<in> set trees. tree_ok ids' (rev chain) t)"
proof (induction ds chain ids sibs arbitrary: trees ids' sibs' rule: compileNodes.induct)
  case (2 d ds chain ids sibs)
  from 2(3) obtain sibs1 n kids ids1 sibs2 rest where
    new: "assertNewRouteId ids (rd_id d) = Inr ()" and a: "assertLayoutHasChildren d = Inr ()"
    and c: "claimSiblingPaths sibs d = Inr sibs1" and n: "createNode d chain = Inr n"
    and k: "compileNodes (rd_children d) (n # chain) (ids @ [(rd_id d, n)]) (if isLayout d then sibs1 else []) = Inr (kids, ids1, sibs2)"
    and r: "compileNodes ds chain ids1 (if isLayout d then sibs2 else sibs1) = Inr (rest, ids', sibs')"
    and trees: "trees = Compiled n kids # rest"
    by (auto simp: bind_result_Inr split: prod.splits)
  have fresh: "map_of ids (rd_id d) = None" using new by (auto simp: assertNewRouteId_def split: if_splits)
  note node = add_node_ok[OF 2(4,5) n fresh]
  from 2(1)[OF k node(1,2)] obtain ext where
    ids1: "ids_ok ids1" "ids1 = (ids @ [(rd_id d, n)]) @ ext" "\<forall>t \<in> set kids. tree_ok ids1 (rev (n # chain)) t" by blast
  have "chain_ok ids1 chain" using chain_ok_mono[OF 2(5), of "(rd_id d, n) # ext"] ids1(2) by simp
  from 2(2)[OF r ids1(1) this] obtain ext2 where
    ids': "ids_ok ids'" "ids' = ids1 @ ext2" "\<forall>t \<in> set rest. tree_ok ids' (rev chain) t" by auto
  have "known (ids @ [(rd_id d, n)]) n" using node(2) by (simp add: chain_ok_def)
  then have "known ids' n" using known_mono[of "ids @ [(rd_id d, n)]" n "ext @ ext2"] ids1(2) ids'(2) by simp
  moreover have "\<forall>t \<in> set kids. tree_ok ids' (rev chain @ [n]) t" using ids1(3) ids'(2) tree_ok_mono by auto
  ultimately have "tree_ok ids' (rev chain) (Compiled n kids)" using node(3) by (simp add: rev_map)
  then show ?case using ids' ids1(2) trees by auto
qed auto

definition branch_ok :: "nodes_by_id \<Rightarrow> route_branch \<Rightarrow> bool" where
  "branch_ok ids b \<longleftrightarrow> b_nodes b \<noteq> [] \<and> length (b_patterns b) = length (b_nodes b) \<and>
     list_all (known ids) (b_nodes b) \<and> n_branch (last (b_nodes b)) = map n_id (b_nodes b)"

lemma fold_list_all: "(\<And>x bs. x \<in> set xs \<Longrightarrow> list_all P bs \<Longrightarrow> list_all P (f x bs)) \<Longrightarrow> list_all P bs \<Longrightarrow> list_all P (fold f xs bs)"
  by (induction xs arbitrary: bs) auto

lemma collectBranches_ok:
  "tree_ok ids nodes t \<Longrightarrow> list_all (known ids) nodes \<Longrightarrow> length patterns = length nodes \<Longrightarrow>
   list_all (branch_ok ids) bs \<Longrightarrow> list_all (branch_ok ids) (collectBranches t nodes patterns bs)"
proof (induction t nodes patterns bs rule: collectBranches.induct)
  case (1 node children nodes patterns bs)
  have node: "known ids node" "n_branch node = map n_id (nodes @ [node])"
    "\<And>kid. kid \<in> set children \<Longrightarrow> tree_ok ids (nodes @ [node]) kid" using 1(2) by auto
  show ?case unfolding collectBranches.simps Let_def
  proof (rule fold_list_all[OF _ 1(5)])
    fix tokens bs1 assume tokens: "tokens \<in> set (alternatives (n_pattern node))" and bs1: "list_all (branch_ok ids) bs1"
    show "list_all (branch_ok ids) (fold (\<lambda>child. collectBranches child (nodes @ [node]) (patterns @ [tokens])) children
        (if isLayout (n_definition node) then bs1
         else bs1 @ [\<lparr>b_nodes = nodes @ [node], b_patterns = patterns @ [tokens],
           b_score = specificity (concat (patterns @ [tokens])), b_order = length bs1\<rparr>]))"
    proof (rule fold_list_all)
      fix kid bs2 assume kid: "kid \<in> set children" and bs2: "list_all (branch_ok ids) bs2"
      show "list_all (branch_ok ids) (collectBranches kid (nodes @ [node]) (patterns @ [tokens]) bs2)"
        using 1(1)[OF tokens refl refl refl kid node(3)[OF kid]] node(1) 1(3,4) bs2 by simp
    qed (use bs1 node 1(3,4) in \<open>simp add: branch_ok_def\<close>)
  qed
qed

definition manifest_ok :: "routes_manifest \<Rightarrow> bool" where
  "manifest_ok m \<longleftrightarrow> ids_ok (byId m) \<and> list_all (branch_ok (byId m)) (branches m)"

lemma createRoutesManifest_ok: "createRoutesManifest routes = Inr m \<Longrightarrow> manifest_ok m"
proof -
  assume "createRoutesManifest routes = Inr m"
  then obtain roots ids sibs where c: "compileNodes (definitions routes) [] [] [] = Inr (roots, ids, sibs)"
    and m: "byId m = ids" "branches m = compileBranches roots"
    by (auto simp: createRoutesManifest_def Let_def bind_result_Inr split: prod.splits)
  have ok: "ids_ok ids" "\<forall>t \<in> set roots. tree_ok ids [] t"
    using compileNodes_ok[OF c] by (auto simp: ids_ok_def chain_ok_def)
  have "list_all (branch_ok ids) (fold (\<lambda>root. collectBranches root [] []) roots [])"
    by (rule fold_list_all) (use ok collectBranches_ok in auto)
  then show ?thesis using ok m by (simp add: manifest_ok_def compileBranches_def list_all_iff)
qed

lemma matchBranch_ids:
  "matchBranch_loop lc nts segs off ms = Inr (Some r) \<Longrightarrow> ids_of r = ids_of ms @ map (n_id \<circ> fst) nts"
  by (induction lc nts segs off ms rule: matchBranch_loop.induct)
    (auto simp: ids_of_def bind_result_Inr split: option.splits if_splits)

lemma decodeAmong_Some:
  "decodeAmong lc bs segs = Inr (Some r) \<Longrightarrow>
     \<exists>pre b post. bs = pre @ b # post \<and> matchBranch lc b segs = Inr (Some r) \<and>
       (\<forall>b' \<in> set pre. matchBranch lc b' segs = Inr None)"
proof (induction bs)
  case (Cons b bs)
  then obtain x where x: "matchBranch lc b segs = Inr x" by (auto simp: bind_result_Inr)
  show ?case
  proof (cases x)
    case None
    then obtain pre c post where "bs = pre @ c # post" "matchBranch lc c segs = Inr (Some r)"
      "\<forall>b' \<in> set pre. matchBranch lc b' segs = Inr None" using Cons x by auto
    then show ?thesis using None x by (intro exI[of _ "b # pre"]) auto
  next
    case (Some y)
    then have "matchBranch lc b segs = Inr (Some r)" using Cons.prems x by auto
    then have "b # bs = [] @ b # bs \<and> matchBranch lc b segs = Inr (Some r) \<and> (\<forall>b' \<in> set []. matchBranch lc b' segs = Inr None)" by simp
    then show ?thesis by blast
  qed
qed simp

lemma resolve_matched:
  assumes "branch_ok (byId m) b" and "matchBranch lc b segs = Inr (Some r)"
  shows "resolveBranch m r = Inr (b_nodes b)" and "ids_of r = map n_id (b_nodes b)"
proof -
  have b: "b_nodes b \<noteq> []" "length (b_patterns b) = length (b_nodes b)" "list_all (known (byId m)) (b_nodes b)"
    "n_branch (last (b_nodes b)) = map n_id (b_nodes b)" using assms(1) by (simp_all add: branch_ok_def)
  show ids: "ids_of r = map n_id (b_nodes b)"
  proof -
    have "map (n_id \<circ> fst) (zip (b_nodes b) (b_patterns b)) = map n_id (map fst (zip (b_nodes b) (b_patterns b)))" by simp
    then show ?thesis using matchBranch_ids[OF assms(2)[unfolded matchBranch_def]] b(2) by (simp add: ids_of_def)
  qed
  then have "m_id (last r) = n_id (last (b_nodes b))" using b(1)
    by (metis ids_of_def last_map map_is_Nil_conv)
  moreover have "known (byId m) (last (b_nodes b))" using b(1,3) by (simp add: list_all_iff)
  moreover have "List.map_filter (map_of (byId m)) (map n_id ns) = ns" if "list_all (known (byId m)) ns" for ns
    using that by (induction ns) (simp_all add: known_def map_filter_simps)
  ultimately show "resolveBranch m r = Inr (b_nodes b)"
    using ids b(3,4) by (simp add: resolveBranch_def known_def branch_of_def Let_def)
qed

lemma decodeAmong_resolves:
  assumes "manifest_ok m" and "set bs \<subseteq> set (branches m)" and "decodeAmong lc bs segs = Inr (Some r)"
  shows "\<exists>b \<in> set bs. resolveBranch m r = Inr (b_nodes b) \<and> ids_of r = map n_id (b_nodes b) \<and> b_nodes b \<noteq> []"
proof -
  from decodeAmong_Some[OF assms(3)] obtain b where b: "b \<in> set bs" "matchBranch lc b segs = Inr (Some r)"
    by (metis in_set_conv_decomp)
  then have "branch_ok (byId m) b" using assms(1,2) by (auto simp: manifest_ok_def list_all_iff)
  from resolve_matched[OF this b(2)] this show ?thesis using b(1) by (auto simp: branch_ok_def)
qed

lemma assert_matches_branch:
  "assert_matches m parent vs = Inr ms \<Longrightarrow>
    (case parent of None \<Rightarrow> pre = [] | Some p \<Rightarrow> (\<exists>n. map_of (byId m) p = Some n \<and> n_branch n = pre)) \<Longrightarrow>
    ids_ok (byId m) \<Longrightarrow>
    (\<forall>i \<in> set (ids_of ms). map_of (byId m) i \<noteq> None) \<and>
    (ms \<noteq> [] \<longrightarrow> (\<exists>n. map_of (byId m) (m_id (last ms)) = Some n \<and> n_branch n = pre @ ids_of ms))"
proof (induction m parent vs arbitrary: ms pre rule: assert_matches.induct)
  case (2 m parent v vs)
  from 2(2) obtain x n ms1 where x: "as_match v = Some x" "map_of (byId m) (m_id x) = Some n" "n_parent n = parent"
    and ms: "assert_matches m (Some (m_id x)) vs = Inr ms1" "ms = x # ms1"
    by (auto simp: bind_result_Inr split: option.splits if_splits)
  have "n_branch n = pre @ [m_id x]"
  proof -
    have n: "case parent of None \<Rightarrow> n_branch n = [m_id x]
      | Some p \<Rightarrow> \<exists>q. map_of (byId m) p = Some q \<and> n_branch n = n_branch q @ [m_id x]"
      using "2.prems"(3) x(2,3) unfolding ids_ok_def by blast
    then show ?thesis using "2.prems"(2) by (cases parent) auto
  qed
  then show ?case using "2.IH"[OF x(1,2,3) ms(1), of "pre @ [m_id x]"] x ms "2.prems"(3)
    by (auto simp: ids_of_def)
qed (simp add: ids_of_def)

lemma branch_ids:
  assumes "ids_ok ids" and "\<And>i. i \<in> set is \<Longrightarrow> map_of ids i \<noteq> None"
  shows "map n_id (List.map_filter (map_of ids) is) = is"
  using assms(2)
proof (induction "is")
  case (Cons i "is")
  then obtain n where "map_of ids i = Some n" by fastforce
  moreover from this have "n_id n = i" using assms(1) unfolding ids_ok_def by blast
  ultimately show ?case using Cons by (simp add: map_filter_simps)
qed (simp add: map_filter_simps)

lemma default_resolves:
  assumes "manifest_ok m" and "defaultRoute m = Inr r"
  shows "\<exists>branch. resolveBranch m r = Inr branch \<and> map n_id branch = ids_of r \<and> branch \<noteq> []"
proof -
  have r: "assert_matches m None (as_matches (defaultRoute_value m)) = Inr r" "r \<noteq> []"
  proof -
    show a: "assert_matches m None (as_matches (defaultRoute_value m)) = Inr r"
      using assms(2) by (auto simp: defaultRoute_def assertRouteState_def split: if_splits)
    show "r \<noteq> []" using a assms(2)
      by (cases "as_matches (defaultRoute_value m)")
        (auto simp: defaultRoute_def assertRouteState_def bind_result_Inr split: option.splits if_splits)
  qed
  have ok: "ids_ok (byId m)" using assms(1) by (simp add: manifest_ok_def)
  from assert_matches_branch[OF r(1) _ ok, of "[]"] r(2) obtain n where
    n: "map_of (byId m) (m_id (last r)) = Some n" "n_branch n = ids_of r" "\<forall>i \<in> set (ids_of r). map_of (byId m) i \<noteq> None" by auto
  then have "map n_id (branch_of (byId m) n) = ids_of r" using branch_ids[OF ok] by (simp add: branch_of_def)
  moreover from this have "branch_of (byId m) n \<noteq> []" using r(2) by (auto simp: ids_of_def)
  ultimately show ?thesis using n(1) by (simp add: resolveBranch_def Let_def)
qed

text \<open>
  C10.  In a table that compiled, every route that a URL decodes to, for the first pane or a later
  one, and the default route if it is accepted, resolves to a branch of the table with the same
  ids: formatting it and looking up its search, state and claims never meets an invalid branch.
\<close>

theorem decoded_routes_resolve:
  assumes "createRoutesManifest routes = Inr m"
    and "decodePane lc m segs = Inr (Some r) \<or> decodeFirstPane lc m segs = Inr (Some r) \<or> defaultRoute m = Inr r"
  shows "\<exists>branch. resolveBranch m r = Inr branch \<and> map n_id branch = ids_of r \<and> branch \<noteq> []"
proof -
  have ok: "manifest_ok m" by (rule createRoutesManifest_ok[OF assms(1)])
  from assms(2) show ?thesis
  proof (elim disjE)
    assume "decodePane lc m segs = Inr (Some r)"
    then show ?thesis using decodeAmong_resolves[OF ok, of "branches m"] by (fastforce simp: decodePane_def)
  next
    assume "decodeFirstPane lc m segs = Inr (Some r)"
    then show ?thesis
      using decodeAmong_resolves[OF ok, of "filter (\<lambda>b. \<not> isNestedCatchAll b) (branches m)"]
      by (fastforce simp: decodeFirstPane_def)
  next
    assume "defaultRoute m = Inr r"
    then show ?thesis by (rule default_resolves[OF ok])
  qed
qed

section \<open>The most specific route wins\<close>

definition branch_key :: "route_branch \<Rightarrow> int \<times> nat" where
  "branch_key b = (- b_score b, b_order b)"

lemma sorted_branches: "createRoutesManifest routes = Inr m \<Longrightarrow> sorted (map branch_key (branches m))"
  by (auto simp: createRoutesManifest_def compileBranches_def branch_key_def[abs_def] Let_def bind_result_Inr split: prod.splits)

text \<open>
  C9.  The route decoded for a pane is one that matches all its segments, and every branch of
  the table that is more specific, or as specific and declared earlier, does not match them;
  when nothing is decoded, no branch matches.
\<close>

theorem decodePane_most_specific:
  assumes "createRoutesManifest routes = Inr m"
  shows "(decodePane lc m segs = Inr (Some r) \<longrightarrow>
      (\<exists>b \<in> set (branches m). matchBranch lc b segs = Inr (Some r) \<and>
        (\<forall>b' \<in> set (branches m). b_score b < b_score b' \<or> b_score b' = b_score b \<and> b_order b' < b_order b \<longrightarrow>
           matchBranch lc b' segs = Inr None))) \<and>
    (decodePane lc m segs = Inr None \<longrightarrow> (\<forall>b \<in> set (branches m). matchBranch lc b segs = Inr None))"
proof (intro conjI impI)
  assume "decodePane lc m segs = Inr (Some r)"
  then obtain pre b post where b: "branches m = pre @ b # post" "matchBranch lc b segs = Inr (Some r)"
    "\<forall>b' \<in> set pre. matchBranch lc b' segs = Inr None"
    using decodeAmong_Some unfolding decodePane_def by blast
  have "b' \<in> set pre" if "b' \<in> set (branches m)" "b_score b < b_score b' \<or> b_score b' = b_score b \<and> b_order b' < b_order b" for b'
  proof -
    have "branch_key b' < branch_key b" using that(2) by (auto simp: branch_key_def less_prod_simp)
    moreover have "branch_key b \<le> branch_key c" if "c \<in> set (b # post)" for c
      using sorted_branches[OF assms] b(1) that by (auto simp: sorted_append)
    ultimately show ?thesis using that(1) b(1) by (auto simp: leD)
  qed
  then show "\<exists>b \<in> set (branches m). matchBranch lc b segs = Inr (Some r) \<and>
        (\<forall>b' \<in> set (branches m). b_score b < b_score b' \<or> b_score b' = b_score b \<and> b_order b' < b_order b \<longrightarrow>
           matchBranch lc b' segs = Inr None)" using b by (intro bexI[of _ b]) auto
next
  have "decodeAmong lc bs segs = Inr None \<Longrightarrow> \<forall>b \<in> set bs. matchBranch lc b segs = Inr None" for bs
    by (induction bs) (auto simp: bind_result_Inr split: option.splits)
  then show "decodePane lc m segs = Inr None \<Longrightarrow> \<forall>b \<in> set (branches m). matchBranch lc b segs = Inr None"
    by (simp add: decodePane_def)
qed

end
