(* ===== verification/Route_Search.thy ===== *)
theory Route_Search
  imports Route_Table
begin

text \<open>
  Search state of the panes, \<open>routes/search.ts\<close>, and what a route says about it and about
  entry state and claims, \<open>routes/queries.ts\<close>.  The search state of a pane is a record of namespaces,
  each a record of fields with their values; in the URL a value of pane \<open>i\<close> stands under the key
  \<open>s{i}.{namespace}.{field}\<close>.
\<close>

section \<open>Keys\<close>

definition digit :: "nat \<Rightarrow> bool" where
  "digit c \<longleftrightarrow> 48 \<le> c \<and> c \<le> 57"

definition digits_value :: "ustring \<Rightarrow> nat" where
  "digits_value s = foldl (\<lambda>a c. 10 * a + (c - 48)) 0 s"

fun isSplitSearchKey :: "ustring \<Rightarrow> bool" where
  "isSplitSearchKey [] \<longleftrightarrow> False"
| "isSplitSearchKey (c # s) \<longleftrightarrow> c = 115 \<and> takeWhile digit s \<noteq> [] \<and> take 1 (dropWhile digit s) = [46]"

definition MAX_SEARCH_VALUE_LENGTH :: nat where
  "MAX_SEARCH_VALUE_LENGTH = 16384"

record pane_search_key =
  k_position :: nat
  k_namespace :: ustring
  k_field :: ustring

text \<open>The three groups of the regular expression contain no dot, so they are the parts between dots.\<close>

definition parsePaneSearchKey :: "ustring \<Rightarrow> pane_search_key option" where
  "parsePaneSearchKey key =
    (case split_on 46 key of
       [s # ds, ns, f] \<Rightarrow>
         if s = 115 \<and> ds \<noteq> [] \<and> list_all digit ds \<and> SAFE_NAME ns \<and> SAFE_NAME f \<and>
            isSafeInteger (digits_value ds) \<and> isSafeName ns \<and> isSafeName f
         then Some \<lparr>k_position = digits_value ds, k_namespace = ns, k_field = f\<rparr> else None
     | _ \<Rightarrow> None)"

section \<open>Reading\<close>

type_synonym panes_search = "(nat \<times> search_state) list" \<comment> \<open>a sparse array\<close>

definition own_value :: "('k \<times> 'v list) list \<Rightarrow> 'k \<Rightarrow> 'v list" where
  "own_value r k = (case map_of r k of None \<Rightarrow> [] | Some v \<Rightarrow> v)"

definition appendPaneValue :: "pane_search_key \<Rightarrow> ustring \<Rightarrow> panes_search \<Rightarrow> panes_search" where
  "appendPaneValue k value panes =
    (let namespaces = own_value panes (k_position k);
         fields = own_value namespaces (k_namespace k);
         values = own_value fields (k_field k)
     in AList.update (k_position k)
          (AList.update (k_namespace k) (AList.update (k_field k) (values @ [value]) fields) namespaces) panes)"

definition parsePaneSearch_entry :: "ustring \<times> ustring \<Rightarrow> panes_search \<Rightarrow> panes_search" where
  "parsePaneSearch_entry kv panes =
    (case parsePaneSearchKey (fst kv) of
       None \<Rightarrow> panes
     | Some k \<Rightarrow> if js_length (snd kv) > MAX_SEARCH_VALUE_LENGTH then panes else appendPaneValue k (snd kv) panes)"

definition parsePaneSearch :: "ustring \<Rightarrow> panes_search" where
  "parsePaneSearch value = fold parsePaneSearch_entry (query_new value) []"

section \<open>Writing\<close>

definition assertSearchValueLength :: "ustring \<Rightarrow> ustring \<Rightarrow> route_error + unit" where
  "assertSearchValueLength field value =
    (if js_length value > MAX_SEARCH_VALUE_LENGTH then Inl (SearchValueTooLong field) else Inr ())"

definition sorted_keys :: "(ustring \<times> 'v) list \<Rightarrow> ustring list" where
  "sorted_keys r = sort_key units (map fst r)"

fun appendNamespaceParams_loop ::
  "ustring list \<Rightarrow> ustring \<Rightarrow> search_params \<Rightarrow> query \<Rightarrow> route_error + query" where
  "appendNamespaceParams_loop [] prefix ps q = Inr q"
| "appendNamespaceParams_loop (field # fs) prefix ps q =
     bind_result (assertSafeSearchName field) (\<lambda>_.
       appendNamespaceParams_loop fs prefix ps
         (fold (\<lambda>value q1. query_append (prefix @ u ''.'' @ field) value q1) (own_value ps field) q))"

definition appendNamespaceParams :: "ustring \<Rightarrow> search_params \<Rightarrow> query \<Rightarrow> route_error + query" where
  "appendNamespaceParams prefix ps q = appendNamespaceParams_loop (sorted_keys ps) prefix ps q"

fun appendPaneSearch_loop :: "ustring list \<Rightarrow> search_state \<Rightarrow> nat \<Rightarrow> query \<Rightarrow> route_error + query" where
  "appendPaneSearch_loop [] search position q = Inr q"
| "appendPaneSearch_loop (ns # nss) search position q =
     bind_result (assertSafeSearchName ns) (\<lambda>_.
     bind_result (case map_of search ns of
                    None \<Rightarrow> Inr q
                  | Some ps \<Rightarrow> appendNamespaceParams (u ''s'' @ u (show_nat position) @ u ''.'' @ ns) ps q) (\<lambda>q1.
       appendPaneSearch_loop nss search position q1))"

definition appendPaneSearch :: "search_state \<Rightarrow> nat \<Rightarrow> query \<Rightarrow> route_error + query" where
  "appendPaneSearch search position q = appendPaneSearch_loop (sorted_keys search) search position q"

fun appendPanes :: "search_state option list \<Rightarrow> nat \<Rightarrow> query \<Rightarrow> route_error + query" where
  "appendPanes [] position q = Inr q"
| "appendPanes (p # ps) position q =
     bind_result (case p of None \<Rightarrow> Inr q | Some search \<Rightarrow> appendPaneSearch search position q) (\<lambda>q1.
       appendPanes ps (Suc position) q1)"

definition replacePaneSearchParams :: "search_state option list \<Rightarrow> query \<Rightarrow> route_error + query" where
  "replacePaneSearchParams panes q =
    appendPanes panes 0 (fold (\<lambda>kv q1. if isSplitSearchKey (fst kv) then query_delete (fst kv) q1 else q1) q q)"

section \<open>Updating\<close>

definition locationOf :: "route_state \<Rightarrow> search_state option \<Rightarrow> split_location" where
  "locationOf route search = \<lparr>l_route = route, l_search = search\<rparr>"

fun normalizeSearchParams_loop :: "ustring list \<Rightarrow> search_params \<Rightarrow> route_error + search_params" where
  "normalizeSearchParams_loop [] ps = Inr []"
| "normalizeSearchParams_loop (field # fs) ps =
     bind_result (assertSafeSearchName field) (\<lambda>_.
     bind_result (map_results (assertSearchValueLength field) (own_value ps field)) (\<lambda>_.
     bind_result (normalizeSearchParams_loop fs ps) (\<lambda>rest.
       Inr (if own_value ps field \<noteq> [] then (field, own_value ps field) # rest else rest))))"

definition normalizeSearchParams :: "search_params option \<Rightarrow> route_error + search_params option" where
  "normalizeSearchParams ps =
    (case ps of
       None \<Rightarrow> Inr None
     | Some r \<Rightarrow> bind_result (normalizeSearchParams_loop (sorted_keys r) r) (\<lambda>result.
         Inr (if result \<noteq> [] then Some result else None)))"

definition withSearchNamespace :: "split_location \<Rightarrow> ustring \<Rightarrow> search_params option \<Rightarrow> split_location" where
  "withSearchNamespace current ns ps =
    (let search = (case l_search current of None \<Rightarrow> [] | Some s \<Rightarrow> s);
         search1 = (case ps of
                      Some r \<Rightarrow> if r \<noteq> [] then AList.update ns r search else AList.delete ns search
                    | None \<Rightarrow> AList.delete ns search)
     in locationOf (l_route current) (if search1 \<noteq> [] then Some search1 else None))"

datatype search_update =
    SetSearch "search_params option"
  | MapSearch "search_params option \<Rightarrow> search_params option"

fun requested :: "search_update \<Rightarrow> search_params option \<Rightarrow> search_params option" where
  "requested (SetSearch ps) current = ps"
| "requested (MapSearch f) current = f current"

fun updateSearchState :: "split_location \<Rightarrow> (ustring \<times> search_update) list \<Rightarrow> route_error + split_location" where
  "updateSearchState next [] = Inr next"
| "updateSearchState next ((ns, up) # ups) =
     bind_result (assertSafeSearchName ns) (\<lambda>_.
     bind_result (normalizeSearchParams (requested up (map_of (case l_search next of None \<Rightarrow> [] | Some s \<Rightarrow> s) ns))) (\<lambda>ps.
       updateSearchState (withSearchNamespace next ns ps) ups))"

section \<open>What a route owns\<close>

definition routeParams :: "route_state \<Rightarrow> nat \<Rightarrow> route_params" where
  "routeParams route depth = fold (\<lambda>m acc. fold (\<lambda>(k, v). AList.update k v) (m_params m) acc) (take depth route) []"

definition assertValidClaim :: "ustring \<times> ustring \<Rightarrow> bool" where
  "assertValidClaim claim \<longleftrightarrow> isSafeName (fst claim) \<and> snd claim \<noteq> []"

datatype claim_error = RouteError route_error | InvalidClaim

text \<open>The claim of the deepest node that makes one.\<close>

fun claim_loop :: "route_node list \<Rightarrow> route_params \<Rightarrow> claim_error + ustring option" where
  "claim_loop [] ps = Inr None"
| "claim_loop (n # ns) ps =
     (case (case rd_claim (n_definition n) of None \<Rightarrow> None | Some f \<Rightarrow> f ps) of
        None \<Rightarrow> claim_loop ns ps
      | Some c \<Rightarrow> if assertValidClaim c then Inr (Some (fst c @ u '':'' @ snd c)) else Inl InvalidClaim)"

definition claimOf :: "routes_manifest \<Rightarrow> route_state \<Rightarrow> claim_error + ustring option" where
  "claimOf routes route =
    (case resolveBranch routes route of
       Inl e \<Rightarrow> Inl (RouteError e)
     | Inr branch \<Rightarrow> claim_loop (rev branch) (routeParams route (length route)))"

text \<open>The outer option says whether the state is accepted.\<close>

definition parseRouteEntryState ::
  "routes_manifest \<Rightarrow> route_state \<Rightarrow> js_value \<Rightarrow> route_error + js_value option" where
  "parseRouteEntryState routes route state =
    (if state = Undefined then Inr (Some Undefined)
     else bind_result (leafNode routes route) (\<lambda>leaf.
       case n_state leaf of
         None \<Rightarrow> Inr None
       | Some validate \<Rightarrow>
           (case validate state of
              SchemaPromise \<Rightarrow> Inl AsyncSchema
            | SchemaIssues \<Rightarrow> Inr None
            | SchemaValue v \<Rightarrow> Inr (Some v))))"

definition ownsNamespace :: "routes_manifest \<Rightarrow> route_state \<Rightarrow> ustring \<Rightarrow> route_error + bool" where
  "ownsNamespace routes route ns =
    bind_result (leafNode routes route) (\<lambda>leaf.
      Inr (case n_search leaf of AnySearch \<Rightarrow> True | Owned names \<Rightarrow> ns \<in> set names))"

definition pickNamespaces :: "search_state \<Rightarrow> ustring list \<Rightarrow> search_state" where
  "pickNamespaces search names = filter (\<lambda>p. fst p \<in> set names) search"

definition filterRouteSearch ::
  "routes_manifest \<Rightarrow> route_state \<Rightarrow> search_state option \<Rightarrow> route_error + search_state option" where
  "filterRouteSearch routes route search =
    (case search of
       None \<Rightarrow> Inr None
     | Some s \<Rightarrow>
         bind_result (leafNode routes route) (\<lambda>leaf.
           let kept = (case n_search leaf of AnySearch \<Rightarrow> s | Owned names \<Rightarrow> pickNamespaces s names)
           in Inr (if kept = [] then None else Some kept)))"

definition definitionExternalKeys :: "route_def \<Rightarrow> route_entry \<Rightarrow> ustring list" where
  "definitionExternalKeys d entry =
    (case rd_externalSearch d of
       Some (ExternalFn f) \<Rightarrow> f entry
     | Some ExternalEvery \<Rightarrow> []
     | Some (ExternalKeys ks) \<Rightarrow> ks
     | None \<Rightarrow> [])"

fun is_every :: "external_decl option \<Rightarrow> bool" where
  "is_every (Some ExternalEvery) = True"
| "is_every _ = False"

fun keepsAllExternalSearch :: "routes_manifest \<Rightarrow> route_entry list \<Rightarrow> route_error + bool" where
  "keepsAllExternalSearch routes [] = Inr False"
| "keepsAllExternalSearch routes (e # es) =
     bind_result (leafNode routes (l_route (en_location e))) (\<lambda>leaf.
       if list_ex (\<lambda>d. is_every (rd_externalSearch d)) (n_externalSearch leaf) then Inr True
       else keepsAllExternalSearch routes es)"

definition appendMissing :: "ustring list \<Rightarrow> ustring list \<Rightarrow> ustring list" where
  "appendMissing keys additions = fold (\<lambda>k ks. if k \<in> set ks then ks else ks @ [k]) additions keys"

fun externalSearchKeys_loop ::
  "routes_manifest \<Rightarrow> route_entry list \<Rightarrow> ustring list \<Rightarrow> route_error + ustring list" where
  "externalSearchKeys_loop routes [] keys = Inr keys"
| "externalSearchKeys_loop routes (e # es) keys =
     bind_result (leafNode routes (l_route (en_location e))) (\<lambda>leaf.
       externalSearchKeys_loop routes es
         (fold (\<lambda>d ks. appendMissing ks (definitionExternalKeys d e)) (n_externalSearch leaf) keys))"

definition externalSearchKeys :: "routes_manifest \<Rightarrow> route_entry list \<Rightarrow> route_error + ustring list" where
  "externalSearchKeys routes entries = externalSearchKeys_loop routes entries (globalSearch routes)"

section \<open>What is mounted\<close>

text \<open>\<open>JSON.stringify\<close> of the pair of keys is injective, except that a number that is not finite is written as \<open>null\<close>.\<close>

fun json_key :: "js_value \<Rightarrow> js_value option" where
  "json_key (Str s) = Some (Str s)"
| "json_key (Primitive s) = (if s \<in> {u ''NaN'', u ''Infinity'', u ''-Infinity''} then None else Some (Primitive s))"
| "json_key v = None"

definition renderKey :: "route_entry \<Rightarrow> route_node \<times> route_match \<Rightarrow> ustring \<times> js_value option" where
  "renderKey entry nm =
    ((case rd_mountKey (n_definition (fst nm)) of None \<Rightarrow> n_id (fst nm) | Some k \<Rightarrow> k),
     (case rd_remountKey (n_definition (fst nm)) of
        None \<Rightarrow> None
      | Some f \<Rightarrow> json_key (f (m_params (snd nm)) (en_id entry))))"

definition renderKeys :: "routes_manifest \<Rightarrow> route_entry \<Rightarrow> route_error + (ustring \<times> js_value option) list" where
  "renderKeys routes entry =
    bind_result (resolveBranch routes (l_route (en_location entry))) (\<lambda>branch.
      Inr (map (renderKey entry) (zip branch (l_route (en_location entry)))))"

fun first_difference :: "'a list \<Rightarrow> 'a list \<Rightarrow> nat option" where
  "first_difference [] [] = None"
| "first_difference (x # xs) (y # ys) = (if x = y then map_option Suc (first_difference xs ys) else Some 0)"
| "first_difference _ _ = Some 0"

definition firstChangedDepth :: "routes_manifest \<Rightarrow> route_entry \<Rightarrow> route_entry option \<Rightarrow> route_error + nat option" where
  "firstChangedDepth routes from to =
    (case to of
       None \<Rightarrow> Inr (Some 0)
     | Some t \<Rightarrow>
         bind_result (renderKeys routes from) (\<lambda>before.
         bind_result (renderKeys routes t) (\<lambda>after. Inr (first_difference before after))))"

lemma first_difference_spec:
  "case first_difference xs ys of
     None \<Rightarrow> xs = ys
   | Some d \<Rightarrow> d < max (length xs) (length ys) \<and> take d xs = take d ys \<and>
       (if d < length xs \<and> d < length ys then xs ! d \<noteq> ys ! d else length xs \<noteq> length ys)"
proof (induction xs ys rule: first_difference.induct)
  case (2 x xs y ys)
  then show ?case by (cases "first_difference xs ys") auto
qed auto

end
