(* ===== verification/Route_Codec.thy ===== *)
theory Route_Codec
  imports Route_Search
begin

text \<open>
  The URL of the split router, \<open>routes/codec.ts\<close>: the open panes are written as one path with a \<open>~\<close>
  between panes, their search state as prefixed query keys, and their ids and entry state into
  the history state; reading a URL gives the panes back.  Parsing of a whole location by the
  platform's \<open>URL\<close> class is not modelled; \<open>fast-deep-equal\<close> is a parameter.
\<close>

section \<open>Data\<close>

record external_location =
  x_path :: ustring
  x_search :: ustring
  x_hash :: ustring
  x_state :: js_value

record encoded_pane =
  ep_paneId :: ustring
  ep_entry :: route_entry

record decoded_pane =
  dp_paneId :: "ustring option"
  dp_entry :: route_entry

record history_pane =
  hp_pane :: ustring
  hp_entry :: ustring
  hp_state :: "js_value option" \<comment> \<open>whether the property is there, and its value\<close>

section \<open>Locations\<close>

definition ensurePrefix :: "ustring \<Rightarrow> ustring \<Rightarrow> ustring" where
  "ensurePrefix value prefix =
    (if value = [] then value else if take (length prefix) value = prefix then value else prefix @ value)"

definition formatLocation :: "ustring \<Rightarrow> ustring \<Rightarrow> ustring \<Rightarrow> ustring" where
  "formatLocation path search hash =
    (if path = [] then [slash] else path) @ ensurePrefix search (u ''?'') @ ensurePrefix hash (u ''#'')"

definition splitPanePaths_step :: "ustring \<Rightarrow> ustring list list \<Rightarrow> ustring list list" where
  "splitPanePaths_step segment panes =
    (if segment = SPLIT_PATH_SEPARATOR then panes @ [[]] else butlast panes @ [last panes @ [segment]])"

definition splitPanePaths :: "ustring \<Rightarrow> ustring list list" where
  "splitPanePaths path = filter (\<lambda>pane. pane \<noteq> []) (fold splitPanePaths_step (splitSegments path) [[]])"

definition encodeSegment :: "ustring \<Rightarrow> route_error + ustring" where
  "encodeSegment segment =
    (if segment = SPLIT_PATH_SEPARATOR then Inr (u ''%7E'')
     else (case encodeURIComponent segment of None \<Rightarrow> Inl MalformedURI | Some e \<Rightarrow> Inr e))"

section \<open>History state\<close>

fun readHistoryPane :: "js_value \<Rightarrow> history_pane option" where
  "readHistoryPane (Obj r) =
     (case (map_of r (u ''pane''), map_of r (u ''entry'')) of
        (Some (Str p), Some (Str e)) \<Rightarrow> Some \<lparr>hp_pane = p, hp_entry = e, hp_state = map_of r (u ''state'')\<rparr>
      | _ \<Rightarrow> None)"
| "readHistoryPane _ = None"

fun readHistoryPanes :: "js_value list \<Rightarrow> history_pane list option" where
  "readHistoryPanes [] = Some []"
| "readHistoryPanes (v # vs) =
     (case readHistoryPane v of None \<Rightarrow> None | Some p \<Rightarrow> map_option (Cons p) (readHistoryPanes vs))"

fun readHistoryState :: "js_value \<Rightarrow> history_pane list option" where
  "readHistoryState (Obj r) = (case map_of r (u ''panes'') of Some (Arr vs) \<Rightarrow> readHistoryPanes vs | _ \<Rightarrow> None)"
| "readHistoryState _ = None"

definition storedPanes :: "js_value \<Rightarrow> nat \<Rightarrow> history_pane list option" where
  "storedPanes state count =
    (case readHistoryState state of
       None \<Rightarrow> None
     | Some ps \<Rightarrow> if length ps \<noteq> count then None else Some ps)"

definition storedState :: "routes_manifest \<Rightarrow> route_state \<Rightarrow> history_pane option \<Rightarrow> route_error + js_value" where
  "storedState routes route pane =
    (case pane of
       None \<Rightarrow> Inr Undefined
     | Some p \<Rightarrow>
         (case hp_state p of
            None \<Rightarrow> Inr Undefined
          | Some v \<Rightarrow> bind_result (parseRouteEntryState routes route v) (\<lambda>parsed.
              Inr (case parsed of None \<Rightarrow> Undefined | Some w \<Rightarrow> w))))"

definition historyPane :: "encoded_pane \<Rightarrow> js_value" where
  "historyPane p =
    Obj ([(u ''pane'', Str (ep_paneId p)), (u ''entry'', Str (en_id (ep_entry p)))] @
         (if en_state (ep_entry p) \<noteq> Undefined then [(u ''state'', en_state (ep_entry p))] else []))"

section \<open>Reading a URL\<close>

text \<open>The \<open>n\<close>-th entry id that is made is a parameter.\<close>

definition defaultPanes :: "routes_manifest \<Rightarrow> (nat \<Rightarrow> ustring) \<Rightarrow> route_error + decoded_pane list" where
  "defaultPanes routes createEntryId =
    bind_result (defaultRoute routes) (\<lambda>route.
      Inr [\<lparr>dp_paneId = None,
            dp_entry = \<lparr>en_id = createEntryId 0, en_location = locationOf route None, en_state = Undefined\<rparr>\<rparr>])"

definition root_id :: "route_state option \<Rightarrow> ustring option" where
  "root_id route = (case route of None \<Rightarrow> None | Some r \<Rightarrow> Some (m_id (hd r)))"

definition paneRoutes ::
  "(ustring \<Rightarrow> ustring) \<Rightarrow> routes_manifest \<Rightarrow> ustring list list \<Rightarrow> route_error + route_state list option" where
  "paneRoutes toLower routes parts =
    (case map (map decodeSegment) parts of
       [] \<Rightarrow> Inr (Some [])
     | first # rest \<Rightarrow>
         bind_result (decodeFirstPane toLower routes first) (\<lambda>firstRoute.
           case firstRoute of
             None \<Rightarrow> Inr None
           | Some r \<Rightarrow>
               bind_result (map_results (decodePane toLower routes) rest) (\<lambda>restRoutes.
                 Inr (if list_all (\<lambda>route. root_id route = Some (m_id (hd r))) restRoutes
                      then Some (r # map the restRoutes) else None))))"

definition decodePanes_pane ::
  "routes_manifest \<Rightarrow> panes_search \<Rightarrow> history_pane list option \<Rightarrow> (nat \<Rightarrow> ustring) \<Rightarrow> nat \<times> route_state \<Rightarrow>
   route_error + decoded_pane" where
  "decodePanes_pane routes search stored createEntryId pr =
    (case pr of (position, route) \<Rightarrow>
      let pane = (case stored of None \<Rightarrow> None | Some ps \<Rightarrow> if position < length ps then Some (ps ! position) else None)
      in bind_result (filterRouteSearch routes route (map_of search position)) (\<lambda>paneSearch.
         bind_result (storedState routes route pane) (\<lambda>state.
           Inr \<lparr>dp_paneId = map_option hp_pane pane,
                dp_entry = \<lparr>en_id = (case pane of None \<Rightarrow> createEntryId position | Some p \<Rightarrow> hp_entry p),
                            en_location = locationOf route paneSearch, en_state = state\<rparr>\<rparr>)))"

definition decodePanes ::
  "(ustring \<Rightarrow> ustring) \<Rightarrow> routes_manifest \<Rightarrow> external_location \<Rightarrow> (nat \<Rightarrow> ustring) \<Rightarrow> route_error + decoded_pane list" where
  "decodePanes toLower routes location createEntryId =
    (let parts = splitPanePaths (x_path location)
     in bind_result (paneRoutes toLower routes parts) (\<lambda>decoded.
        case decoded of
          None \<Rightarrow> defaultPanes routes createEntryId
        | Some rs \<Rightarrow>
            if rs = [] then defaultPanes routes createEntryId
            else map_results
              (decodePanes_pane routes (parsePaneSearch (x_search location))
                 (storedPanes (x_state location) (length parts)) createEntryId)
              (List.enumerate 0 rs)))"

section \<open>Writing a URL\<close>

definition formatPanePath :: "routes_manifest \<Rightarrow> route_state \<Rightarrow> route_error + ustring" where
  "formatPanePath routes route =
    bind_result (formatPane routes route) (\<lambda>segments.
    bind_result (map_results encodeSegment segments) (\<lambda>encoded.
      Inr (slash # join [slash] encoded)))"

definition normalizePath :: "ustring \<Rightarrow> ustring" where
  "normalizePath path =
    (if js_length path > 1 then rev (dropWhile (\<lambda>c. c = slash) (rev path))
     else if path = [] then [slash] else path)"

definition panesPath :: "routes_manifest \<Rightarrow> route_entry list \<Rightarrow> route_error + ustring" where
  "panesPath routes entries =
    bind_result (map_results (\<lambda>e. formatPanePath routes (l_route (en_location e))) entries) (\<lambda>paths.
      Inr (join (slash # SPLIT_PATH_SEPARATOR) paths))"

definition kept_external :: "bool \<Rightarrow> ustring list \<Rightarrow> query \<Rightarrow> query" where
  "kept_external keepsAll owned previous =
    fold (\<lambda>(key, value) q. if \<not> isSplitSearchKey key \<and> (keepsAll \<or> key \<in> set owned)
                           then query_append key value q else q) previous []"

definition panesSearch :: "routes_manifest \<Rightarrow> route_entry list \<Rightarrow> ustring \<Rightarrow> route_error + ustring" where
  "panesSearch routes entries previousSearch =
    bind_result (externalSearchKeys routes entries) (\<lambda>owned.
    bind_result (keepsAllExternalSearch routes entries) (\<lambda>keepsAll.
    bind_result (map_results (\<lambda>e. filterRouteSearch routes (l_route (en_location e)) (l_search (en_location e))) entries) (\<lambda>paneSearch.
    bind_result (replacePaneSearchParams paneSearch (kept_external keepsAll owned (query_new previousSearch))) (\<lambda>query.
      let search = query_toString (query_sort query)
      in Inr (if search \<noteq> [] then u ''?'' @ search else [])))))"

definition encodePanes ::
  "routes_manifest \<Rightarrow> encoded_pane list \<Rightarrow> external_location \<Rightarrow> bool \<Rightarrow> route_error + external_location" where
  "encodePanes routes panes previous keepHash =
    (let entries = map ep_entry panes
     in bind_result (panesPath routes entries) (\<lambda>path.
        bind_result (panesSearch routes entries (x_search previous)) (\<lambda>search.
          Inr \<lparr>x_path = (if path = [] then [slash] else path),
               x_search = search,
               x_hash = (if keepHash \<or> normalizePath path = normalizePath (x_path previous) then x_hash previous else []),
               x_state = Obj [(u ''panes'', Arr (map historyPane panes))]\<rparr>)))"

definition sortedQuery :: "ustring \<Rightarrow> ustring" where
  "sortedQuery search = query_toString (query_sort (query_new search))"

definition sameExternalLocation ::
  "(js_value \<Rightarrow> js_value \<Rightarrow> bool) \<Rightarrow> external_location \<Rightarrow> external_location \<Rightarrow> bool" where
  "sameExternalLocation deepEqual left right \<longleftrightarrow>
     normalizePath (x_path left) = normalizePath (x_path right) \<and>
     sortedQuery (x_search left) = sortedQuery (x_search right) \<and>
     x_hash left = x_hash right \<and> deepEqual (x_state left) (x_state right)"

section \<open>Paths round trip\<close>

lemma splitPanePaths_split:
  "fold splitPanePaths_step segs (ps @ [p]) = ps @ (case split_on SPLIT_PATH_SEPARATOR segs of w # ws \<Rightarrow> (p @ w) # ws | [] \<Rightarrow> [])"
proof (induction segs arbitrary: ps p)
  case (Cons s segs)
  obtain w ws where w: "split_on SPLIT_PATH_SEPARATOR segs = w # ws" by (cases "split_on SPLIT_PATH_SEPARATOR segs") simp_all
  show ?case
    using Cons[of "ps @ [p]" "[]"] Cons[of ps "p @ [s]"] w by (simp add: splitPanePaths_step_def)
qed simp

lemma splitPanePaths_eq:
  "splitPanePaths path = filter (\<lambda>pane. pane \<noteq> []) (split_on SPLIT_PATH_SEPARATOR (splitSegments path))"
  using splitPanePaths_split[of "splitSegments path" "[]" "[]"]
  by (cases "split_on SPLIT_PATH_SEPARATOR (splitSegments path)") (simp_all add: splitPanePaths_def)

lemma join_append: "xs \<noteq> [] \<Longrightarrow> ys \<noteq> [] \<Longrightarrow> join sep (xs @ ys) = join sep xs @ sep @ join sep ys"
proof (induction sep xs rule: join.induct)
  case (2 sep w)
  then show ?case by (cases ys) simp_all
qed auto

lemma join_ne: "ws \<noteq> [] \<Longrightarrow> [] \<notin> set ws \<Longrightarrow> join sep ws \<noteq> []"
  by (induction sep ws rule: join.induct) auto

lemma join_panes:
  assumes "sss \<noteq> []" and "[] \<notin> set sss"
  shows "join (slash # SPLIT_PATH_SEPARATOR) (map (\<lambda>ss. slash # join [slash] ss) sss) =
    slash # join [slash] (join [SPLIT_PATH_SEPARATOR] sss)"
  using assms
proof (induction sss rule: induct_list012)
  case (3 x y zs)
  have "join [SPLIT_PATH_SEPARATOR] (y # zs) \<noteq> []" using join_ne[of "y # zs" "[SPLIT_PATH_SEPARATOR]"] 3(4) by auto
  moreover have "x \<noteq> []" using 3(4) by auto
  ultimately have "join [slash] (join [SPLIT_PATH_SEPARATOR] (x # y # zs)) =
      join [slash] x @ [slash] @ SPLIT_PATH_SEPARATOR @ [slash] @ join [slash] (join [SPLIT_PATH_SEPARATOR] (y # zs))"
    using join_append[of x "[SPLIT_PATH_SEPARATOR] @ join [SPLIT_PATH_SEPARATOR] (y # zs)" "[slash]"]
      join_append[of "[SPLIT_PATH_SEPARATOR]" "join [SPLIT_PATH_SEPARATOR] (y # zs)" "[slash]"] by simp
  then show ?case using 3(2) 3(4) by simp
qed simp_all

lemma splitSegments_join:
  assumes "ws \<noteq> []" and "\<And>w. w \<in> set ws \<Longrightarrow> w \<noteq> [] \<and> slash \<notin> set w"
  shows "splitSegments (slash # join [slash] ws) = ws"
proof -
  let ?s = "join [slash] ws"
  have ends: "\<exists>a b t t'. ?s = a # t \<and> a \<noteq> slash \<and> ?s = t' @ [b] \<and> b \<noteq> slash"
    using assms
  proof (induction "[slash]" ws rule: join.induct)
    case (2 w)
    then have w: "w \<noteq> []" "slash \<notin> set w" by auto
    have "hd w \<noteq> slash" using w list.set_sel(1)[of w] by metis
    moreover have "last w \<noteq> slash" using w last_in_set[of w] by metis
    moreover have "w = hd w # tl w" "w = butlast w @ [last w]" using w by simp_all
    ultimately show ?case unfolding join.simps by blast
  next
    case (3 w v ws)
    then obtain b t' where "join [slash] (v # ws) = t' @ [b]" "b \<noteq> slash" by auto
    moreover obtain a t where "w = a # t" "a \<noteq> slash" using 3(3)[of w] by (cases w) auto
    ultimately show ?case by auto
  qed simp
  then obtain a b t t' where e: "?s = a # t" "a \<noteq> slash" "?s = t' @ [b]" "b \<noteq> slash" by blast
  have "dropWhile (\<lambda>c. c = slash) (slash # ?s) = ?s" using e(1,2) by simp
  moreover have "dropWhile (\<lambda>c. c = slash) (rev ?s) = rev ?s" using e(3,4) by simp
  ultimately have "trim_slashes (slash # ?s) = ?s" by (simp only: trim_slashes_def rev_rev_ident)
  moreover have "split_on slash ?s = ws" using assms by (intro split_join) auto
  ultimately show ?thesis using assms(2) by (auto simp: splitSegments_def filter_id_conv)
qed

end
