(* ===== verification/Route_Roundtrip.thy ===== *)
theory Route_Roundtrip
  imports Route_Codec
begin

text \<open>
  Writing the open panes to the URL and reading it back: the path, the history state and
  the search state each round trip, and together they give the same panes.
\<close>

section \<open>Paths\<close>

lemma decode_tilde: "decodeURIComponent (u ''%7E'') = Some (u ''~'')"
  by (simp add: read_escape_def sequence_length_def utf8_next.simps hex_value_def)

lemma encodeSegment_roundtrip: "encodeSegment s = Inr e \<Longrightarrow> decodeSegment e = s"
  using decode_tilde by (auto simp: encodeSegment_def decodeSegment_def SPLIT_PATH_SEPARATOR_def
      dest: decode_encode split: if_splits option.splits)

lemma encodeSegment_safe:
  assumes "encodeSegment s = Inr e" and "s \<noteq> []"
  shows "e \<noteq> []" and "slash \<notin> set e" and "e \<noteq> SPLIT_PATH_SEPARATOR"
proof -
  show "e \<noteq> []" using assms encode_empty[of s e] by (auto simp: encodeSegment_def split: if_splits option.splits)
  have "\<not> unreserved slash" by (simp add: unreserved_def alphanumeric_def)
  then show "slash \<notin> set e" using assms encoded_chars[of s e slash]
    by (auto simp: encodeSegment_def split: if_splits option.splits)
  have "decodeURIComponent SPLIT_PATH_SEPARATOR = Some SPLIT_PATH_SEPARATOR" by (simp add: SPLIT_PATH_SEPARATOR_def)
  then show "e \<noteq> SPLIT_PATH_SEPARATOR" using assms decode_encode[of s e]
    by (auto simp: encodeSegment_def SPLIT_PATH_SEPARATOR_def split: if_splits option.splits)
qed

text \<open>
  What the path of all panes asks of the encoding of one segment: it can be undone, and a
  non-empty segment becomes one that is neither empty nor the separator and has no slash.
\<close>

locale segment_codec =
  fixes enc :: "ustring \<Rightarrow> 'e + ustring" and dec :: "ustring \<Rightarrow> ustring"
  assumes dec_enc: "enc s = Inr e \<Longrightarrow> dec e = s"
    and enc_safe: "enc s = Inr e \<Longrightarrow> s \<noteq> [] \<Longrightarrow> e \<noteq> [] \<and> slash \<notin> set e \<and> e \<noteq> SPLIT_PATH_SEPARATOR"
begin

text \<open>The segments of the panes, all of them non-empty, come back from the path.\<close>

lemma encode_segments:
  assumes "map_results enc ss = Inr es" and "ss \<noteq> []" and "[] \<notin> set ss"
  shows "es \<noteq> []" and "\<And>e. e \<in> set es \<Longrightarrow> e \<noteq> [] \<and> slash \<notin> set e \<and> e \<noteq> SPLIT_PATH_SEPARATOR"
    and "map dec es = ss"
proof -
  have r: "list_all2 (\<lambda>s e. enc s = Inr e) ss es" using assms(1) by (simp add: map_results_Inr)
  then show "es \<noteq> []" using assms(2) by auto
  show "e \<noteq> [] \<and> slash \<notin> set e \<and> e \<noteq> SPLIT_PATH_SEPARATOR" if e: "e \<in> set es" for e
  proof -
    obtain i where "i < length es" "e = es ! i" using e by (metis in_set_conv_nth)
    then have "enc (ss ! i) = Inr e" "ss ! i \<in> set ss" using r by (auto simp: list_all2_conv_all_nth)
    then show ?thesis using enc_safe[of "ss ! i" e] assms(3) by metis
  qed
  show "map dec es = ss" using r
    by (auto simp: list_all2_conv_all_nth dec_enc intro!: nth_equalityI)
qed

lemma panes_path_roundtrip:
  assumes "list_all2 (\<lambda>ss es. map_results enc ss = Inr es) sss ess"
    and "sss \<noteq> []" and "\<And>ss. ss \<in> set sss \<Longrightarrow> ss \<noteq> [] \<and> [] \<notin> set ss"
  shows "splitPanePaths (join (slash # SPLIT_PATH_SEPARATOR) (map (\<lambda>es. slash # join [slash] es) ess)) = ess"
    and "map (map dec) ess = sss"
proof -
  have each: "es \<noteq> [] \<and> (\<forall>e \<in> set es. e \<noteq> [] \<and> slash \<notin> set e \<and> e \<noteq> SPLIT_PATH_SEPARATOR)" if es: "es \<in> set ess" for es
  proof -
    obtain i where i: "i < length ess" "es = ess ! i" using es by (metis in_set_conv_nth)
    then have "map_results enc (sss ! i) = Inr es" "sss ! i \<in> set sss"
      using assms(1) by (auto simp: list_all2_conv_all_nth)
    then show ?thesis using encode_segments(1,2)[of "sss ! i" es] assms(3) by blast
  qed
  have ne: "ess \<noteq> []" "[] \<notin> set ess" using assms(1,2) each by auto
  let ?ws = "join [SPLIT_PATH_SEPARATOR] ess"
  have w: "w \<noteq> [] \<and> slash \<notin> set w" if "w \<in> set ?ws" for w
  proof -
    have "w = SPLIT_PATH_SEPARATOR \<or> (\<exists>es \<in> set ess. w \<in> set es)"
      using that set_join[of "[SPLIT_PATH_SEPARATOR]" ess] by auto
    then show ?thesis using each by (auto simp: SPLIT_PATH_SEPARATOR_def)
  qed
  have "splitSegments (slash # join [slash] ?ws) = ?ws" by (rule splitSegments_join[OF join_ne[OF ne] w])
  moreover have "split_on SPLIT_PATH_SEPARATOR ?ws = ess" by (rule split_join) (use ne each in auto)
  ultimately show "splitPanePaths (join (slash # SPLIT_PATH_SEPARATOR) (map (\<lambda>es. slash # join [slash] es) ess)) = ess"
    using ne by (auto simp: splitPanePaths_eq join_panes filter_id_conv)
  show "map (map dec) ess = sss" using assms(1,3) encode_segments(3)
    by (auto simp: list_all2_conv_all_nth intro!: nth_equalityI)
qed

end

interpretation segments: segment_codec encodeSegment decodeSegment
  by unfold_locales (use encodeSegment_roundtrip encodeSegment_safe in blast)+

section \<open>History state\<close>

lemma readHistory_roundtrip:
  "readHistoryState (Obj [(u ''panes'', Arr (map historyPane ps))]) =
     Some (map (\<lambda>p. \<lparr>hp_pane = ep_paneId p, hp_entry = en_id (ep_entry p),
       hp_state = (if en_state (ep_entry p) = Undefined then None else Some (en_state (ep_entry p)))\<rparr>) ps)"
proof -
  have "readHistoryPane (historyPane p) = Some \<lparr>hp_pane = ep_paneId p, hp_entry = en_id (ep_entry p),
       hp_state = (if en_state (ep_entry p) = Undefined then None else Some (en_state (ep_entry p)))\<rparr>" for p
    by (simp add: historyPane_def)
  then have "readHistoryPanes (map historyPane ps) = Some (map (\<lambda>p. \<lparr>hp_pane = ep_paneId p, hp_entry = en_id (ep_entry p),
       hp_state = (if en_state (ep_entry p) = Undefined then None else Some (en_state (ep_entry p)))\<rparr>) ps)"
    by (induction ps) simp_all
  then show ?thesis by simp
qed

lemma storedState_roundtrip:
  assumes "parseRouteEntryState m route v = Inr (Some v)"
  shows "storedState m route (Some \<lparr>hp_pane = p, hp_entry = e, hp_state = (if v = Undefined then None else Some v)\<rparr>) = Inr v"
  using assms by (simp add: storedState_def)

section \<open>Keys of search values\<close>

lemma show_nat_digits: "c \<in> set (u (show_nat n)) \<Longrightarrow> digit c" and show_nat_ne: "show_nat n \<noteq> []"
  and show_nat_value: "digits_value (u (show_nat n)) = n"
proof (induction n rule: show_nat.induct)
  case (1 n)
  { case 1
    then show ?case using "1.IH"(1)
      by (subst (asm) show_nat.simps) (auto simp: digit_def u_def of_char_of split: if_splits) }
  { case 2
    show ?case by (subst show_nat.simps) simp }
  { case 3
    show ?case using "1.IH"(3)
      by (subst show_nat.simps) (auto simp: digits_value_def u_def of_char_of) }
qed

definition search_key :: "nat \<Rightarrow> ustring \<Rightarrow> ustring \<Rightarrow> ustring" where
  "search_key i ns f = (u ''s'' @ u (show_nat i) @ u ''.'' @ ns) @ u ''.'' @ f"

lemma SAFE_NAME_chars: "SAFE_NAME s \<Longrightarrow> c \<in> set s \<Longrightarrow> alphanumeric c \<or> c = 95 \<or> c = 45"
  by (cases s) (auto simp: name_start_def alphanumeric_def list_all_iff)

lemma SAFE_NAME_dot: "SAFE_NAME s \<Longrightarrow> 46 \<notin> set s"
  using SAFE_NAME_chars[of s 46] by (auto simp: alphanumeric_def)

lemma isSafeName_SAFE: "isSafeName s \<Longrightarrow> SAFE_NAME s"
  by (simp add: isSafeName_def)

lemma parse_search_key:
  assumes "isSafeInteger i" and "isSafeName ns" and "isSafeName f"
  shows "parsePaneSearchKey (search_key i ns f) = Some \<lparr>k_position = i, k_namespace = ns, k_field = f\<rparr>"
proof -
  have d: "list_all digit (u (show_nat i))" "u (show_nat i) \<noteq> []"
    using show_nat_digits[of _ i] show_nat_ne[of i] by (auto simp: list_all_iff u_def)
  then have "46 \<notin> set (115 # u (show_nat i))" by (auto simp: list_all_iff digit_def)
  moreover have "46 \<notin> set ns" "46 \<notin> set f" using assms(2,3) isSafeName_SAFE SAFE_NAME_dot by blast+
  moreover have "search_key i ns f = (115 # u (show_nat i)) @ 46 # ns @ 46 # f" by (simp add: search_key_def)
  ultimately have "split_on 46 (search_key i ns f) = [115 # u (show_nat i), ns, f]"
    using split_on_append[of 46 "115 # u (show_nat i)" "ns @ 46 # f"] split_on_append[of 46 ns f] split_on_free[of 46 f]
    by (simp del: split_on.simps)
  then show ?thesis using d assms isSafeName_SAFE by (simp add: parsePaneSearchKey_def show_nat_value)
qed

lemma search_key_inj:
  assumes "isSafeInteger i" "isSafeName ns" "isSafeName f" "isSafeInteger j" "isSafeName ns'" "isSafeName f'"
  shows "search_key i ns f = search_key j ns' f' \<longleftrightarrow> i = j \<and> ns = ns' \<and> f = f'"
proof
  assume "search_key i ns f = search_key j ns' f'"
  then have "Some \<lparr>k_position = i, k_namespace = ns, k_field = f\<rparr> = Some \<lparr>k_position = j, k_namespace = ns', k_field = f'\<rparr>"
    unfolding parse_search_key[OF assms(1-3), symmetric] parse_search_key[OF assms(4-6), symmetric] by (rule arg_cong)
  then show "i = j \<and> ns = ns' \<and> f = f'" by simp
qed simp

lemma split_on_decomp: "split_on c xs = w # v # ws \<Longrightarrow> \<exists>ys. xs = w @ c # ys"
proof (induction xs arbitrary: w)
  case (Cons x xs)
  show ?case
  proof (cases "x = c")
    case False
    then obtain w' where "split_on c xs = w' # v # ws" "w = x # w'" using Cons.prems by (auto split: list.splits)
    then show ?thesis using Cons.IH by fastforce
  qed (use Cons.prems in auto)
qed simp

lemma parsed_is_split_key: "parsePaneSearchKey key = Some k \<Longrightarrow> isSplitSearchKey key"
proof -
  assume "parsePaneSearchKey key = Some k"
  then obtain ds ns f where s: "split_on 46 key = [115 # ds, ns, f]" and ds: "ds \<noteq> []" "list_all digit ds"
    by (auto simp: parsePaneSearchKey_def split: list.splits if_splits)
  obtain ys where "key = (115 # ds) @ 46 # ys" using split_on_decomp[OF s] by blast
  moreover have "\<not> digit 46" by (simp add: digit_def)
  ultimately show ?thesis using ds by (simp add: list_all_iff takeWhile_append2 dropWhile_append2)
qed

section \<open>Search values\<close>

text \<open>Two search states say the same when they have the same values at every namespace and field.\<close>

definition search_values :: "search_state option \<Rightarrow> ustring \<Rightarrow> ustring \<Rightarrow> ustring list" where
  "search_values s ns f = own_value (own_value (case s of None \<Rightarrow> [] | Some x \<Rightarrow> x) ns) f"

lemma own_value_update: "own_value (AList.update k v r) k' = (if k' = k then v else own_value r k')"
  by (simp add: own_value_def update_conv')

lemma search_values_own: "search_values (map_of panes i) ns f = own_value (own_value (own_value panes i) ns) f"
  by (simp add: search_values_def own_value_def)

lemma appendPaneValue_values:
  "search_values (map_of (appendPaneValue k v panes) i) ns f =
     search_values (map_of panes i) ns f @
       (if k = \<lparr>k_position = i, k_namespace = ns, k_field = f\<rparr> then [v] else [])"
  by (cases k) (auto simp: search_values_own appendPaneValue_def Let_def own_value_update)

definition accepted_values :: "query \<Rightarrow> pane_search_key \<Rightarrow> ustring list" where
  "accepted_values q k = map snd (filter (\<lambda>kv. parsePaneSearchKey (fst kv) = Some k \<and>
     js_length (snd kv) \<le> MAX_SEARCH_VALUE_LENGTH) q)"

lemma parse_values:
  "search_values (map_of (fold parsePaneSearch_entry q panes) i) ns f =
     search_values (map_of panes i) ns f @ accepted_values q \<lparr>k_position = i, k_namespace = ns, k_field = f\<rparr>"
proof (induction q arbitrary: panes)
  case (Cons kv q)
  show ?case
  proof (cases "parsePaneSearchKey (fst kv)")
    case (Some k)
    then show ?thesis using Cons[of "parsePaneSearch_entry kv panes"]
      by (auto simp: parsePaneSearch_entry_def accepted_values_def appendPaneValue_values)
  qed (use Cons in \<open>simp add: parsePaneSearch_entry_def accepted_values_def\<close>)
qed (simp add: accepted_values_def)

lemma parsePaneSearch_values:
  "search_values (map_of (parsePaneSearch s) i) ns f = accepted_values (query_new s) \<lparr>k_position = i, k_namespace = ns, k_field = f\<rparr>"
  by (simp add: parsePaneSearch_def parse_values) (simp add: search_values_def own_value_def)

section \<open>What is written\<close>

definition written_field :: "nat \<Rightarrow> ustring \<Rightarrow> search_params \<Rightarrow> ustring \<Rightarrow> query" where
  "written_field i ns ps f = map (\<lambda>v. (search_key i ns f, usv v)) (own_value ps f)"

definition written :: "nat \<Rightarrow> search_state \<Rightarrow> query" where
  "written i s = concat (map (\<lambda>ns. concat (map (written_field i ns (own_value s ns)) (sorted_keys (own_value s ns)))) (sorted_keys s))"

definition safe_search :: "search_state \<Rightarrow> bool" where
  "safe_search s \<longleftrightarrow> (\<forall>ns \<in> fst ` set s. isSafeName ns \<and> (\<forall>f \<in> fst ` set (own_value s ns). isSafeName f))"

lemma set_sorted_keys [simp]: "set (sorted_keys r) = fst ` set r"
  by (simp add: sorted_keys_def)

lemma safe_name_scalar: "isSafeName s \<Longrightarrow> c \<in> set s \<Longrightarrow> scalar c"
  using SAFE_NAME_chars[of s c] by (auto simp: isSafeName_def alphanumeric_def scalar_def)

lemma usv_search_key: "isSafeName ns \<Longrightarrow> isSafeName f \<Longrightarrow> usv (search_key i ns f) = search_key i ns f"
proof (rule usv_wf)
  assume "isSafeName ns" "isSafeName f"
  moreover have "scalar c" if "c \<in> set (u (show_nat i))" for c
    using show_nat_digits[OF that] by (simp add: digit_def scalar_def)
  ultimately show "wf_string (search_key i ns f)"
    using safe_name_scalar by (auto simp: wf_string_def list_all_iff search_key_def scalar_def)
qed

lemma fold_query_append: "fold (\<lambda>v q. query_append k v q) vs q = q @ map (\<lambda>v. (usv k, usv v)) vs"
  by (induction vs arbitrary: q) (simp_all add: query_append_def)

lemma appendNamespaceParams_written:
  assumes "isSafeName ns"
  shows "appendNamespaceParams_loop fs (u ''s'' @ u (show_nat i) @ u ''.'' @ ns) ps q = Inr q' \<Longrightarrow>
    q' = q @ concat (map (written_field i ns ps) fs) \<and> (\<forall>f \<in> set fs. isSafeName f)"
proof (induction fs arbitrary: q)
  case (Cons f fs)
  let ?p = "u ''s'' @ u (show_nat i) @ u ''.'' @ ns"
  have f: "isSafeName f" using Cons.prems by (auto simp: bind_result_Inr assertSafeSearchName_def split: if_splits)
  have "usv (?p @ u ''.'' @ f) = search_key i ns f" using usv_search_key[OF assms f, of i] by (simp add: search_key_def)
  then have "appendNamespaceParams_loop fs ?p ps (q @ written_field i ns ps f) = Inr q'"
    using Cons.prems f unfolding appendNamespaceParams_loop.simps
    by (simp only: fold_query_append written_field_def assertSafeSearchName_def if_True bind_result_simps)
  then show ?case using Cons.IH f by fastforce
qed simp

lemma appendPaneSearch_written:
  "appendPaneSearch_loop nss s i q = Inr q' \<Longrightarrow>
    q' = q @ concat (map (\<lambda>ns. concat (map (written_field i ns (own_value s ns)) (sorted_keys (own_value s ns)))) nss) \<and>
    (\<forall>ns \<in> set nss. isSafeName ns \<and> (\<forall>f \<in> fst ` set (own_value s ns). isSafeName f))"
proof (induction nss arbitrary: q)
  case (Cons ns nss)
  let ?w = "concat (map (written_field i ns (own_value s ns)) (sorted_keys (own_value s ns)))"
  have ns: "isSafeName ns" using Cons.prems by (auto simp: bind_result_Inr assertSafeSearchName_def split: if_splits)
  obtain q1 where q1: "(case map_of s ns of None \<Rightarrow> Inr q
      | Some ps \<Rightarrow> appendNamespaceParams (u ''s'' @ u (show_nat i) @ u ''.'' @ ns) ps q) = Inr q1"
    and rest: "appendPaneSearch_loop nss s i q1 = Inr q'" using Cons.prems by (auto simp: bind_result_Inr)
  have "q1 = q @ ?w \<and> (\<forall>f \<in> fst ` set (own_value s ns). isSafeName f)"
  proof (cases "map_of s ns")
    case None
    then show ?thesis using q1 by (simp add: own_value_def sorted_keys_def)
  next
    case (Some ps)
    then have "own_value s ns = ps" by (simp add: own_value_def)
    then show ?thesis using q1 Some appendNamespaceParams_written[OF ns, of "sorted_keys ps" i ps q q1]
      by (simp add: appendNamespaceParams_def)
  qed
  then show ?case using Cons.IH[OF rest] ns by simp
qed simp

fun written_panes :: "nat \<Rightarrow> search_state option list \<Rightarrow> query" where
  "written_panes i [] = []"
| "written_panes i (p # ps) = (case p of None \<Rightarrow> [] | Some s \<Rightarrow> written i s) @ written_panes (Suc i) ps"

lemma appendPanes_written:
  "appendPanes ps i q = Inr q' \<Longrightarrow> q' = q @ written_panes i ps \<and> (\<forall>s. Some s \<in> set ps \<longrightarrow> safe_search s)"
proof (induction ps arbitrary: i q)
  case (Cons p ps)
  then obtain q1 where q1: "(case p of None \<Rightarrow> Inr q | Some s \<Rightarrow> appendPaneSearch s i q) = Inr q1"
    and rest: "appendPanes ps (Suc i) q1 = Inr q'" by (auto simp: bind_result_Inr)
  have "q1 = q @ (case p of None \<Rightarrow> [] | Some s \<Rightarrow> written i s) \<and> (\<forall>s. p = Some s \<longrightarrow> safe_search s)"
  proof (cases p)
    case (Some s)
    then show ?thesis using q1 appendPaneSearch_written[of "sorted_keys s" s i q q1]
      by (simp add: appendPaneSearch_def written_def safe_search_def)
  qed (use q1 in simp)
  then show ?case using Cons.IH[OF rest] by auto
qed simp

section \<open>Reading what was written\<close>

definition search_ok :: "search_state \<Rightarrow> bool" where
  "search_ok s \<longleftrightarrow> distinct (map fst s) \<and> (\<forall>(ns, ps) \<in> set s. distinct (map fst ps) \<and>
     (\<forall>(f, vs) \<in> set ps. \<forall>v \<in> set vs. wf_string v \<and> js_length v \<le> MAX_SEARCH_VALUE_LENGTH))"

lemma own_value_absent: "k \<notin> fst ` set r \<Longrightarrow> own_value r k = []"
  by (simp add: own_value_def map_of_eq_None_iff[THEN iffD2])

lemma search_ok_own:
  assumes "search_ok s"
  shows "distinct (map fst (own_value s ns))" and "v \<in> set (own_value (own_value s ns) f) \<Longrightarrow> usv v = v \<and> js_length v \<le> MAX_SEARCH_VALUE_LENGTH"
proof -
  have "own_value s ns = [] \<or> (ns, own_value s ns) \<in> set s"
    by (auto simp: own_value_def split: option.splits dest: map_of_SomeD)
  then show d: "distinct (map fst (own_value s ns))" using assms unfolding search_ok_def by fastforce
  assume v: "v \<in> set (own_value (own_value s ns) f)"
  then have "(ns, own_value s ns) \<in> set s" "(f, own_value (own_value s ns) f) \<in> set (own_value s ns)"
    by (auto simp: own_value_def split: option.splits dest: map_of_SomeD)
  then show "usv v = v \<and> js_length v \<le> MAX_SEARCH_VALUE_LENGTH" using assms v usv_wf unfolding search_ok_def by fastforce
qed

lemma concat_single: "distinct ks \<Longrightarrow> concat (map (\<lambda>x. if x = a then g else []) ks) = (if a \<in> set ks then g else [])"
  by (induction ks) auto

lemma accepted_concat: "accepted_values (concat qs) k = concat (map (\<lambda>q. accepted_values q k) qs)"
  by (induction qs) (simp_all add: accepted_values_def)

lemma accepted_append: "accepted_values (q @ r) k = accepted_values q k @ accepted_values r k"
  by (simp add: accepted_values_def)

lemma accepted_field:
  assumes "search_ok s" and "isSafeInteger i" and "isSafeName ns" and "isSafeName f"
  shows "accepted_values (written_field i ns (own_value s ns) f) k =
    (if k = \<lparr>k_position = i, k_namespace = ns, k_field = f\<rparr> then own_value (own_value s ns) f else [])"
proof -
  have "\<And>v. v \<in> set (own_value (own_value s ns) f) \<Longrightarrow> usv v = v \<and> js_length v \<le> MAX_SEARCH_VALUE_LENGTH"
    by (rule search_ok_own(2)[OF assms(1)])
  then show ?thesis
    by (induction "own_value (own_value s ns) f" arbitrary: s)
      (auto simp: accepted_values_def written_field_def parse_search_key[OF assms(2-4)] o_def filter_map intro!: map_idI)
qed

lemma distinct_sorted_keys: "distinct (map fst r) \<Longrightarrow> distinct (sorted_keys r)"
  by (simp add: sorted_keys_def)

lemma accepted_written:
  assumes "search_ok s" and "safe_search s" and "isSafeInteger i"
  shows "accepted_values (written i s) \<lparr>k_position = j, k_namespace = ns, k_field = f\<rparr> =
    (if i = j then search_values (Some s) ns f else [])"
proof -
  let ?k = "\<lparr>k_position = j, k_namespace = ns, k_field = f\<rparr>"
  let ?v = "if i = j then own_value (own_value s ns) f else []"
  have field: "accepted_values (written_field i ns' (own_value s ns') f') ?k = (if f' = f then (if ns' = ns then ?v else []) else [])"
    if "ns' \<in> set (sorted_keys s)" "f' \<in> set (sorted_keys (own_value s ns'))" for ns' f'
  proof -
    have n: "isSafeName ns'" "isSafeName f'" using assms(2) that unfolding safe_search_def set_sorted_keys by blast+
    from accepted_field[OF assms(1,3) n] show ?thesis by auto
  qed
  have inner: "concat (map (\<lambda>f'. accepted_values (written_field i ns' (own_value s ns') f') ?k) (sorted_keys (own_value s ns'))) =
      (if ns' = ns then ?v else [])" if "ns' \<in> set (sorted_keys s)" for ns'
  proof -
    have "concat (map (\<lambda>f'. accepted_values (written_field i ns' (own_value s ns') f') ?k) (sorted_keys (own_value s ns'))) =
        concat (map (\<lambda>f'. if f' = f then (if ns' = ns then ?v else []) else []) (sorted_keys (own_value s ns')))"
      using field[OF that] by (intro arg_cong[of _ _ concat] map_cong) auto
    also have "\<dots> = (if f \<in> set (sorted_keys (own_value s ns')) then (if ns' = ns then ?v else []) else [])"
      by (rule concat_single[OF distinct_sorted_keys[OF search_ok_own(1)[OF assms(1)]]])
    finally show ?thesis using own_value_absent[of f "own_value s ns'"] by auto
  qed
  have "accepted_values (written i s) ?k = concat (map (\<lambda>ns'. if ns' = ns then ?v else []) (sorted_keys s))"
    unfolding written_def accepted_concat map_map o_def using inner by (intro arg_cong[of _ _ concat] map_cong) auto
  also have "\<dots> = (if ns \<in> set (sorted_keys s) then ?v else [])"
    using assms(1) by (intro concat_single distinct_sorted_keys) (simp add: search_ok_def)
  finally show ?thesis using own_value_absent[of ns s] by (auto simp: search_values_def own_value_def)
qed

lemma accepted_panes:
  assumes "\<And>s. Some s \<in> set ps \<Longrightarrow> search_ok s \<and> safe_search s" and "i + length ps \<le> Suc max_safe_integer"
  shows "accepted_values (written_panes i ps) \<lparr>k_position = j, k_namespace = ns, k_field = f\<rparr> =
    (if i \<le> j \<and> j < i + length ps then search_values (ps ! (j - i)) ns f else [])"
  using assms
proof (induction ps arbitrary: i)
  case (Cons p ps)
  let ?k = "\<lparr>k_position = j, k_namespace = ns, k_field = f\<rparr>"
  have "isSafeInteger i" using Cons.prems(2) by (simp add: isSafeInteger_def)
  then have head: "accepted_values (case p of None \<Rightarrow> [] | Some s \<Rightarrow> written i s) ?k = (if i = j then search_values p ns f else [])"
    using accepted_written Cons.prems(1) by (cases p) (auto simp: accepted_values_def search_values_def own_value_def)
  have tail: "accepted_values (written_panes (Suc i) ps) ?k =
      (if Suc i \<le> j \<and> j < Suc i + length ps then search_values (ps ! (j - Suc i)) ns f else [])"
    using Cons by simp
  show ?case unfolding written_panes.simps accepted_append head tail
    by (cases "j \<le> i") (auto simp: nth_Cons' Suc_diff_Suc)
qed (auto simp: accepted_values_def)

lemma filter_sort_key:
  assumes "\<And>x. x \<in> set xs \<Longrightarrow> P x \<Longrightarrow> g x = c"
  shows "filter P (sort_key g xs) = filter P xs"
proof -
  have "filter P (sort_key g xs) = filter P (filter (\<lambda>x. g x = c) (sort_key g xs))"
    using assms by (auto intro!: filter_cong)
  also have "\<dots> = filter P (filter (\<lambda>x. g x = c) xs)" by (simp only: sort_key_stable)
  also have "\<dots> = filter P xs" using assms by (auto intro!: filter_cong)
  finally show ?thesis .
qed

text \<open>The keys a pane writes are the ones its values are read from.\<close>

lemma written_elem:
  assumes "kv \<in> set (written i s)" and "safe_search s"
  obtains ns f v where "kv = (search_key i ns f, usv v)" and "isSafeName ns" and "isSafeName f"
proof -
  obtain ns f where n: "ns \<in> fst ` set s" "f \<in> fst ` set (own_value s ns)" "kv \<in> set (written_field i ns (own_value s ns) f)"
    using assms(1) by (auto simp: written_def)
  moreover obtain v where "kv = (search_key i ns f, usv v)" using n(3) by (auto simp: written_field_def)
  moreover have "isSafeName ns" "isSafeName f" using assms(2) n(1,2) unfolding safe_search_def by blast+
  ultimately show thesis using that by blast
qed

lemma written_keys:
  assumes "kv \<in> set (written_panes i ps)" and "\<And>s. Some s \<in> set ps \<Longrightarrow> safe_search s"
    and "i + length ps \<le> Suc max_safe_integer" and "parsePaneSearchKey (fst kv) = Some k"
  shows "fst kv = search_key (k_position k) (k_namespace k) (k_field k)"
  using assms
proof (induction ps arbitrary: i)
  case (Cons p ps)
  show ?case
  proof (cases "kv \<in> set (written_panes (Suc i) ps)")
    case False
    then obtain s where s: "p = Some s" "kv \<in> set (written i s)" using Cons.prems(1) by (auto split: option.splits)
    then obtain ns f v where kv: "kv = (search_key i ns f, usv v)" "isSafeName ns" "isSafeName f"
      using Cons.prems(2)[of s] by (auto elim: written_elem)
    have "isSafeInteger i" using Cons.prems(3) by (simp add: isSafeInteger_def)
    from parse_search_key[OF this kv(2,3)] show ?thesis using Cons.prems(4) kv(1) by auto
  qed (use Cons in auto)
qed simp

lemma digit_usv: "digit (if scalar c then c else replacement) = digit c"
  by (simp add: digit_def scalar_def)

lemma isSplit_usv: "isSplitSearchKey (usv k) = isSplitSearchKey k"
proof (cases k)
  case (Cons c t)
  let ?g = "\<lambda>c. if scalar c then c else replacement"
  have fx: "?g x = y \<longleftrightarrow> x = y" if "y < 128" for x y using that by (simp add: scalar_def)
  have "digit \<circ> ?g = digit" using digit_usv by (simp add: fun_eq_iff)
  then have "takeWhile digit (map ?g t) = map ?g (takeWhile digit t)" "dropWhile digit (map ?g t) = map ?g (dropWhile digit t)"
    by (simp_all add: takeWhile_map dropWhile_map)
  moreover have "take 1 (map ?g s) = [46] \<longleftrightarrow> take 1 s = [46]" for s using fx[of 46] by (cases s) auto
  ultimately show ?thesis using Cons fx[of 115 c] by (simp add: usv_def)
qed (simp add: usv_def)

definition external_pair :: "ustring \<times> ustring \<Rightarrow> bool" where
  "external_pair kv \<longleftrightarrow> \<not> isSplitSearchKey (fst kv) \<and> wf_string (fst kv) \<and> wf_string (snd kv)"

lemma kept_external_props: "list_all external_pair (kept_external every owned prev)"
proof -
  have "list_all external_pair q \<Longrightarrow> list_all external_pair (fold (\<lambda>(key, value) q.
      if \<not> isSplitSearchKey key \<and> (every \<or> key \<in> set owned) then query_append key value q else q) prev q)" for q
  proof (induction prev arbitrary: q)
    case (Cons kv prev)
    obtain k v where kv: "kv = (k, v)" by (cases kv)
    have "list_all external_pair (query_append k v q)" if "\<not> isSplitSearchKey k"
      using that Cons.prems by (simp add: query_append_def external_pair_def[of "(usv k, usv v)"] isSplit_usv wf_usv)
    then show ?case unfolding fold_simps(2) kv by (intro Cons.IH) (use Cons.prems in simp)
  qed simp
  then show ?thesis by (simp add: kept_external_def)
qed

lemma wf_written:
  assumes "kv \<in> set (written_panes i ps)" and "\<And>s. Some s \<in> set ps \<Longrightarrow> safe_search s"
  shows "wf_string (fst kv) \<and> wf_string (snd kv)"
  using assms
proof (induction ps arbitrary: i)
  case (Cons p ps)
  have "wf_string (search_key i ns f)" if "isSafeName ns" "isSafeName f" for ns f
    using usv_search_key[OF that, of i] wf_usv by metis
  then have "wf_string (fst kv) \<and> wf_string (snd kv)" if "p = Some s" "kv \<in> set (written i s)" for s
    using that Cons.prems(2)[of s] wf_usv by (auto elim: written_elem)
  then show ?case using Cons by (auto split: option.splits)
qed simp

text \<open>The search string as it is parsed: what was kept of the previous one and what the panes write.\<close>

lemma panesSearch_query:
  assumes "panesSearch m entries prev = Inr x"
    and "map_results (\<lambda>e. filterRouteSearch m (l_route (en_location e)) (l_search (en_location e))) entries = Inr pss"
  obtains q0 where "query_new x = query_sort (q0 @ written_panes 0 pss)" and "list_all external_pair q0"
    and "\<And>s. Some s \<in> set pss \<Longrightarrow> safe_search s"
proof -
  obtain owned every q where q: "replacePaneSearchParams pss (kept_external every owned (query_new prev)) = Inr q"
    and x: "x = (if query_toString (query_sort q) \<noteq> [] then u ''?'' @ query_toString (query_sort q) else [])"
    using assms by (auto simp: panesSearch_def bind_result_Inr Let_def)
  define q0 where "q0 = kept_external every owned (query_new prev)"
  have ext: "list_all external_pair q0" unfolding q0_def by (rule kept_external_props)
  have "fold (\<lambda>kv q1. if isSplitSearchKey (fst kv) then query_delete (fst kv) q1 else q1) r q1 = q1"
    if "list_all external_pair r" for r q1 using that by (induction r arbitrary: q1) (simp_all add: external_pair_def)
  then have "appendPanes pss 0 q0 = Inr q" using q ext by (simp add: replacePaneSearchParams_def q0_def)
  from appendPanes_written[OF this] have qw: "q = q0 @ written_panes 0 pss" and safe: "\<And>s. Some s \<in> set pss \<Longrightarrow> safe_search s" by auto
  have wf: "wf_query (query_sort q)"
    using ext wf_written[OF _ safe] unfolding wf_query_def qw query_sort_def
    by (auto simp: list_all_iff external_pair_def)
  have "query_new x = query_sort q"
    using query_roundtrip[OF wf] x by (cases "query_toString (query_sort q) = []") simp_all
  then show thesis using that ext safe qw by blast
qed

text \<open>A key under which a pane's value is read is the one key that is written for it.\<close>

lemma canonical_keys:
  assumes "list_all external_pair q0" and "\<And>s. Some s \<in> set pss \<Longrightarrow> safe_search s"
    and "length pss \<le> Suc max_safe_integer"
    and "kv \<in> set (q0 @ written_panes 0 pss)" and "parsePaneSearchKey (fst kv) = Some k"
  shows "fst kv = search_key (k_position k) (k_namespace k) (k_field k)"
proof -
  have "kv \<notin> set q0" using assms(1) parsed_is_split_key[OF assms(5)] by (auto simp: list_all_iff external_pair_def)
  then have "kv \<in> set (written_panes 0 pss)" using assms(4) by simp
  from written_keys[OF this assms(2) _ assms(5)] show ?thesis using assms(3) by simp
qed

text \<open>Sorting by keys does not change which values are read, as long as each is under one key.\<close>

lemma accepted_sorted:
  assumes "\<And>kv. kv \<in> set q \<Longrightarrow> parsePaneSearchKey (fst kv) = Some k \<Longrightarrow> fst kv = key"
  shows "accepted_values (query_sort q) k = accepted_values q k"
  unfolding accepted_values_def query_sort_def
  by (rule arg_cong[of _ _ "map snd"], rule filter_sort_key[where c = "units key"]) (use assms in auto)

text \<open>The search string holds every value of every pane, and nothing else under the keys of panes.\<close>

lemma panesSearch_roundtrip:
  assumes "panesSearch m entries prev = Inr x"
    and "map_results (\<lambda>e. filterRouteSearch m (l_route (en_location e)) (l_search (en_location e))) entries = Inr pss"
    and "\<And>s. Some s \<in> set pss \<Longrightarrow> search_ok s" and "length entries \<le> max_safe_integer"
  shows "search_values (map_of (parsePaneSearch x) j) ns f = (if j < length pss then search_values (pss ! j) ns f else [])"
proof -
  let ?k = "\<lparr>k_position = j, k_namespace = ns, k_field = f\<rparr>"
  obtain q0 where x: "query_new x = query_sort (q0 @ written_panes 0 pss)" and ext: "list_all external_pair q0"
    and safe: "\<And>s. Some s \<in> set pss \<Longrightarrow> safe_search s" using panesSearch_query[OF assms(1,2)] by blast
  have len: "0 + length pss \<le> Suc max_safe_integer"
    using assms(2,4) by (auto simp: map_results_Inr dest: list_all2_lengthD)
  have none: "accepted_values q0 ?k = []"
    using ext parsed_is_split_key by (auto simp: accepted_values_def list_all_iff external_pair_def filter_empty_conv)
  have "accepted_values (query_new x) ?k = accepted_values (q0 @ written_panes 0 pss) ?k"
    unfolding x by (rule accepted_sorted[where key = "search_key j ns f"])
      (use canonical_keys[OF ext safe] len in fastforce)
  also have "\<dots> = (if j < length pss then search_values (pss ! j) ns f else [])"
    using accepted_panes[OF _ len, of j ns f] assms(3) safe by (simp add: accepted_append none)
  finally show ?thesis by (simp add: parsePaneSearch_values)
qed

text \<open>
  Two search strings that differ only in the order of their keys and in how they are written: where
  one of them was written for panes, the same values are read from both.
\<close>

lemma same_query_values:
  assumes "panesSearch m entries prev = Inr x"
    and "map_results (\<lambda>e. filterRouteSearch m (l_route (en_location e)) (l_search (en_location e))) entries = Inr pss"
    and "length entries \<le> max_safe_integer" and "sortedQuery y = sortedQuery x"
  shows "search_values (map_of (parsePaneSearch y) j) ns f = search_values (map_of (parsePaneSearch x) j) ns f"
proof -
  let ?k = "\<lparr>k_position = j, k_namespace = ns, k_field = f\<rparr>"
  obtain q0 where x: "query_new x = query_sort (q0 @ written_panes 0 pss)" and ext: "list_all external_pair q0"
    and safe: "\<And>s. Some s \<in> set pss \<Longrightarrow> safe_search s" using panesSearch_query[OF assms(1,2)] by blast
  have len: "length pss \<le> Suc max_safe_integer"
    using assms(2,3) by (auto simp: map_results_Inr dest: list_all2_lengthD)
  have sorted: "query_sort (query_new y) = query_sort (query_new x)"
    using assms(4) query_roundtrip(1)[OF wf_query_sort[OF wf_query_new]] unfolding sortedQuery_def by metis
  have "set (query_sort (query_new y)) = set (query_sort (query_new x))" using sorted by simp
  then have elems: "set (query_new y) = set (query_new x)" by (simp add: query_sort_def)
  have key: "fst kv = search_key j ns f" if "kv \<in> set (query_new x)" "parsePaneSearchKey (fst kv) = Some ?k" for kv
    using canonical_keys[OF ext safe len, of kv ?k] that by (simp add: x query_sort_def)
  have "accepted_values (query_new y) ?k = accepted_values (query_sort (query_new y)) ?k"
    by (rule accepted_sorted[symmetric, where key = "search_key j ns f"]) (use key elems in blast)
  also have "\<dots> = accepted_values (query_new x) ?k"
    unfolding sorted by (rule accepted_sorted[where key = "search_key j ns f"]) (use key in blast)
  finally show ?thesis by (simp add: parsePaneSearch_values)
qed

end
