(* ===== verification/Route_Canonical.thy ===== *)
theory Route_Canonical
  imports Route_Table
begin

text \<open>
  Routes that a URL has given are written back to a URL that gives them again: in a table without schemas,
  serializers and aliases the segments that a decoded route formats to differ from those it was decoded from at most in the spelling of
  fixed segments, and they decode to the same route.
\<close>

section \<open>Tables without schemas and aliases\<close>

definition token_names :: "path_token list \<Rightarrow> ustring list" where
  "token_names ts = concat (map (\<lambda>t. case token_name t of None \<Rightarrow> [] | Some n \<Rightarrow> [n]) ts)"

lemma token_names_simps [simp]:
  "token_names [] = []" "token_names (Static v # ts) = token_names ts" "token_names (Param n b # ts) = n # token_names ts"
  "token_names (CatchAll n # ts) = n # token_names ts" "token_names (xs @ ys) = token_names xs @ token_names ys"
  "token_names (map (\<lambda>n. Param n b) ns) = ns"
  by (simp_all add: token_names_def) (induction ns; simp)

definition plain_node :: "route_node \<Rightarrow> bool" where
  "plain_node n \<longleftrightarrow> rd_params (n_definition n) = None \<and> rd_serializeParams (n_definition n) = None \<and>
    (rd_aliases (n_definition n) = None \<or> rd_aliases (n_definition n) = Some []) \<and> distinct (token_names (canonical (n_pattern n)))"

definition plain_table :: "routes_manifest \<Rightarrow> bool" where
  "plain_table m \<longleftrightarrow> list_all (\<lambda>b. list_all plain_node (b_nodes b)) (branches m)"

text \<open>The nodes of a compiled table have the patterns of their definitions, and its branches alternatives of these.\<close>

fun tree_all :: "(route_node \<Rightarrow> bool) \<Rightarrow> compiled \<Rightarrow> bool" where
  "tree_all P (Compiled n kids) \<longleftrightarrow> P n \<and> (\<forall>kid \<in> set kids. tree_all P kid)"

lemma compileNodes_all:
  assumes "\<And>d chain n. createNode d chain = Inr n \<Longrightarrow> P n"
  shows "compileNodes ds chain ids sibs = Inr (trees, ids', sibs') \<Longrightarrow> \<forall>t \<in> set trees. tree_all P t"
proof (induction ds chain ids sibs arbitrary: trees ids' sibs' rule: compileNodes.induct)
  case (2 d ds chain ids sibs)
  from 2(3) obtain sibs1 n kids ids1 sibs2 rest where
    "assertNewRouteId ids (rd_id d) = Inr ()" "assertLayoutHasChildren d = Inr ()"
    "claimSiblingPaths sibs d = Inr sibs1" and n: "createNode d chain = Inr n"
    and k: "compileNodes (rd_children d) (n # chain) (ids @ [(rd_id d, n)]) (if isLayout d then sibs1 else []) = Inr (kids, ids1, sibs2)"
    and r: "compileNodes ds chain ids1 (if isLayout d then sibs2 else sibs1) = Inr (rest, ids', sibs')"
    and trees: "trees = Compiled n kids # rest"
    by (auto simp: bind_result_Inr split: prod.splits)
  show ?case using 2(1)[OF k] 2(2)[OF r] assms[OF n] trees by simp
qed simp

definition compiled_node :: "route_node \<Rightarrow> bool" where
  "compiled_node n \<longleftrightarrow> compileRoutePattern (rd_path (n_definition n)) (rd_aliases (n_definition n)) = Inr (n_pattern n)"

definition fitting :: "route_node \<Rightarrow> path_token list \<Rightarrow> bool" where
  "fitting n ts \<longleftrightarrow> compiled_node n \<and> ts \<in> set (alternatives (n_pattern n))"

definition fitting_branch :: "route_branch \<Rightarrow> bool" where
  "fitting_branch b \<longleftrightarrow> list_all2 fitting (b_nodes b) (b_patterns b)"

lemma collectBranches_fitting:
  "tree_all compiled_node t \<Longrightarrow> list_all2 fitting nodes patterns \<Longrightarrow> list_all fitting_branch bs \<Longrightarrow>
   list_all fitting_branch (collectBranches t nodes patterns bs)"
proof (induction t nodes patterns bs rule: collectBranches.induct)
  case (1 node children nodes patterns bs)
  show ?case unfolding collectBranches.simps Let_def
  proof (rule fold_list_all[OF _ 1(4)])
    fix tokens bs1 assume tokens: "tokens \<in> set (alternatives (n_pattern node))" and bs1: "list_all fitting_branch bs1"
    have f: "list_all2 fitting (nodes @ [node]) (patterns @ [tokens])"
      by (rule list_all2_appendI[OF 1(3)]) (use 1(2) tokens in \<open>simp add: fitting_def\<close>)
    show "list_all fitting_branch (fold (\<lambda>child. collectBranches child (nodes @ [node]) (patterns @ [tokens])) children
        (if isLayout (n_definition node) then bs1
         else bs1 @ [\<lparr>b_nodes = nodes @ [node], b_patterns = patterns @ [tokens],
           b_score = specificity (concat (patterns @ [tokens])), b_order = length bs1\<rparr>]))"
    proof (rule fold_list_all)
      fix kid bs2 assume kid: "kid \<in> set children" and bs2: "list_all fitting_branch bs2"
      show "list_all fitting_branch (collectBranches kid (nodes @ [node]) (patterns @ [tokens]) bs2)"
        using 1(1)[OF tokens refl refl refl kid _ f bs2] 1(2) kid by simp
    qed (use bs1 f in \<open>simp add: fitting_branch_def\<close>)
  qed
qed

lemma createRoutesManifest_fitting: "createRoutesManifest routes = Inr m \<Longrightarrow> list_all fitting_branch (branches m)"
proof -
  assume "createRoutesManifest routes = Inr m"
  then obtain roots ids sibs where c: "compileNodes (definitions routes) [] [] [] = Inr (roots, ids, sibs)"
    and m: "branches m = compileBranches roots"
    by (auto simp: createRoutesManifest_def Let_def bind_result_Inr split: prod.splits)
  have "\<forall>t \<in> set roots. tree_all compiled_node t"
    by (rule compileNodes_all[OF _ c]) (auto simp: createNode_def compiled_node_def bind_result_Inr)
  then have "list_all fitting_branch (fold (\<lambda>root. collectBranches root [] []) roots [])"
    by (intro fold_list_all) (auto intro: collectBranches_fitting)
  then show ?thesis using m by (simp add: compileBranches_def list_all_iff)
qed

section \<open>What an alternative formats is what the pattern formats\<close>

lemma format_append:
  "formatTokens (xs @ ys) ps = bind_result (formatTokens xs ps) (\<lambda>a. bind_result (formatTokens ys ps) (\<lambda>b. Inr (a @ b)))"
  by (induction xs) (auto simp: formatTokens_def bind_result_def split: sum.splits)

lemma optionalRun_params:
  "\<exists>ns. optionalRun ts = map (\<lambda>n. Param n False) ns \<and> ts = map (\<lambda>n. Param n True) ns @ drop (length ns) ts"
proof (induction ts rule: optionalRun.induct)
  case (1 n ts)
  then obtain ns where "optionalRun ts = map (\<lambda>n. Param n False) ns" "ts = map (\<lambda>n. Param n True) ns @ drop (length ns) ts" by blast
  then show ?case by (intro exI[of _ "n # ns"]) simp
qed (auto intro: exI[of _ "[]"])

lemma format_given: "\<forall>n \<in> set ns. given ps n \<Longrightarrow>
    formatTokens (map (\<lambda>n. Param n True) ns) ps = formatTokens (map (\<lambda>n. Param n False) ns) ps"
  by (induction ns) (auto simp: formatTokens_def formatParam_def given_def bind_result_def split: sum.splits)

lemma format_not_given: "\<forall>n \<in> set ns. \<not> given ps n \<Longrightarrow> formatTokens (map (\<lambda>n. Param n True) ns) ps = Inr []"
  by (induction ns) (auto simp: formatTokens_def formatParam_def given_def bind_result_def split: sum.splits)

lemma format_run:
  assumes "\<forall>n \<in> set (take k ns). given ps n" and "\<forall>n \<in> set (drop k ns). \<not> given ps n"
  shows "formatTokens (map (\<lambda>n. Param n True) ns) ps = formatTokens (map (\<lambda>n. Param n False) (take k ns)) ps"
proof -
  have "formatTokens (map (\<lambda>n. Param n True) (take k ns @ drop k ns)) ps = formatTokens (map (\<lambda>n. Param n False) (take k ns)) ps"
    unfolding map_append format_append format_given[OF assms(1)] format_not_given[OF assms(2)]
    by (cases "formatTokens (map (\<lambda>n. Param n False) (take k ns)) ps") simp_all
  then show ?thesis by simp
qed

lemma appendPrefixes_elem: "w \<in> set (appendPrefixes vs run) \<Longrightarrow> \<exists>v \<in> set vs. \<exists>k \<le> length run. w = v @ take k run"
proof -
  assume "w \<in> set (appendPrefixes vs run)"
  then have "\<exists>v \<in> set vs. w = v \<or> (\<exists>i < length run. w = v @ take (Suc i) run)"
    by (auto simp: appendPrefixes_def Let_def) blast+
  then obtain v where v: "v \<in> set vs" "w = v \<or> (\<exists>i < length run. w = v @ take (Suc i) run)" by blast
  then have "\<exists>k \<le> length run. w = v @ take k run" by (metis Suc_leI append_Nil2 le0 take_0)
  then show ?thesis using v(1) by blast
qed

lemma expandOptionals_format:
  "alt \<in> set (expandOptionals_loop ts vs) \<Longrightarrow> distinct (token_names ts) \<Longrightarrow>
   \<exists>v \<in> set vs. \<exists>w. alt = v @ w \<and> set (token_names w) \<subseteq> set (token_names ts) \<and> distinct (token_names w) \<and>
     (\<forall>n. Param n True \<notin> set w) \<and>
     (\<forall>ps. (\<forall>n \<in> set (token_names ts). given ps n \<longleftrightarrow> n \<in> set (token_names w)) \<longrightarrow> formatTokens ts ps = formatTokens w ps)"
proof (induction ts vs rule: expandOptionals_loop.induct)
  case (2 t ts vs)
  let ?run = "optionalRun (t # ts)"
  show ?case
  proof (cases "?run = []")
    case True
    then have "alt \<in> set (expandOptionals_loop ts (map (\<lambda>v. v @ [t]) vs))" using 2(3) by (simp add: Let_def)
    moreover have d: "distinct (token_names ts)" using 2(4) by (cases t) auto
    ultimately obtain v w where v: "v \<in> set vs" "alt = v @ t # w" and w: "set (token_names w) \<subseteq> set (token_names ts)" "distinct (token_names w)" "\<forall>n. Param n True \<notin> set w"
      and f: "\<And>ps. \<forall>n \<in> set (token_names ts). given ps n \<longleftrightarrow> n \<in> set (token_names w) \<Longrightarrow> formatTokens ts ps = formatTokens w ps"
      using 2(2)[OF refl] True by fastforce
    have "formatTokens (t # ts) ps = formatTokens (t # w) ps"
      if "\<forall>n \<in> set (token_names (t # ts)). given ps n \<longleftrightarrow> n \<in> set (token_names (t # w))" for ps
    proof -
      have "\<forall>n \<in> set (token_names ts). given ps n \<longleftrightarrow> n \<in> set (token_names w)"
        using that 2(4) by (cases t) auto
      from f[OF this] show ?thesis using format_append[of "[t]" ts ps] format_append[of "[t]" w ps] by simp
    qed
    moreover have "set (token_names (t # w)) \<subseteq> set (token_names (t # ts))" "distinct (token_names (t # w))"
      using w(1,2) 2(4) by (cases t; auto)+
    moreover have "\<forall>n. Param n True \<notin> set (t # w)" using w(3) True by auto
    ultimately show ?thesis using v by blast
  next
    case False
    obtain ns where ns: "?run = map (\<lambda>n. Param n False) ns" "t # ts = map (\<lambda>n. Param n True) ns @ drop (length ns) (t # ts)"
      using optionalRun_params by blast
    let ?rest = "drop (length ns) (t # ts)"
    have len: "length ?run = length ns" using ns(1) by simp
    have names: "token_names (t # ts) = ns @ token_names ?rest"
      using arg_cong[OF ns(2), of token_names] by (simp only: token_names_simps)
    have d: "distinct ns" "distinct (token_names ?rest)" "set ns \<inter> set (token_names ?rest) = {}"
      using 2(4) unfolding names by auto
    have "alt \<in> set (expandOptionals_loop ?rest (appendPrefixes vs ?run))" using 2(3) False len by (simp add: Let_def)
    from 2(1)[OF refl False, unfolded len, OF this d(2)] obtain v' w where v': "v' \<in> set (appendPrefixes vs ?run)" "alt = v' @ w"
      and w: "set (token_names w) \<subseteq> set (token_names ?rest)" "distinct (token_names w)" "\<forall>n. Param n True \<notin> set w"
      and f: "\<And>ps. \<forall>n \<in> set (token_names ?rest). given ps n \<longleftrightarrow> n \<in> set (token_names w) \<Longrightarrow> formatTokens ?rest ps = formatTokens w ps"
      by blast
    from appendPrefixes_elem[OF v'(1)] obtain v k where v: "v \<in> set vs" "v' = v @ map (\<lambda>n. Param n False) (take k ns)"
      by (auto simp: ns(1) take_map)
    let ?w = "map (\<lambda>n. Param n False) (take k ns) @ w"
    have wn: "token_names ?w = take k ns @ token_names w" by simp
    have "formatTokens (t # ts) ps = formatTokens ?w ps"
      if g: "\<forall>n \<in> set (token_names (t # ts)). given ps n \<longleftrightarrow> n \<in> set (token_names ?w)" for ps
    proof -
      have split: "n \<in> set (take k ns) \<or> n \<in> set (drop k ns)" if "n \<in> set ns" for n
        using that by (metis Un_iff append_take_drop_id set_append)
      have dj: "set (take k ns) \<inter> set (drop k ns) = {}" by (rule set_take_disj_set_drop_if_distinct[OF d(1)]) simp
      have "\<forall>n \<in> set (take k ns). given ps n" using g names wn set_take_subset[of k ns] by auto
      moreover have "\<not> given ps n" if "n \<in> set (drop k ns)" for n
      proof -
        have "n \<in> set ns" "n \<notin> set (take k ns)" using that dj set_drop_subset[of k ns] by auto
        moreover from this have "n \<notin> set (token_names w)" using d(3) w(1) by auto
        ultimately show ?thesis using g unfolding names wn by auto
      qed
      then have "\<forall>n \<in> set (drop k ns). \<not> given ps n" by blast
      moreover have "\<forall>n \<in> set (token_names ?rest). given ps n \<longleftrightarrow> n \<in> set (token_names w)"
        using g names wn set_take_subset[of k ns] d(3) by auto
      ultimately show ?thesis using format_run[of k ns ps] f[of ps] by (subst ns(2)) (simp only: format_append)
    qed
    moreover have "set (token_names ?w) \<subseteq> set (token_names (t # ts))" unfolding names wn using w(1) set_take_subset[of k ns] by auto
    moreover have "distinct (token_names ?w)" unfolding wn using d(1,3) w set_take_subset[of k ns] by auto
    moreover have "\<forall>n. Param n True \<notin> set ?w" using w(3) by auto
    ultimately show ?thesis using v v'(2) by (intro bexI[of _ v] exI[of _ ?w]) auto
  qed
qed (fastforce intro: exI[of _ "[]"])

lemma alternative_format:
  assumes "alt \<in> set (expandOptionals c)" and "distinct (token_names c)"
  shows "set (token_names alt) \<subseteq> set (token_names c)" and "distinct (token_names alt)" and "Param n True \<notin> set alt"
    and "\<forall>n \<in> set (token_names c). given ps n \<longleftrightarrow> n \<in> set (token_names alt) \<Longrightarrow> formatTokens c ps = formatTokens alt ps"
  using expandOptionals_format[of alt c "[[]]"] assms unfolding expandOptionals_def by auto

section \<open>Matching what was matched\<close>

text \<open>The segments that a match stands for: fixed ones in the spelling of the pattern, the others as they are.\<close>

fun written :: "path_token list \<Rightarrow> ustring list \<Rightarrow> nat \<Rightarrow> ustring list" where
  "written [] segs pos = []"
| "written (Static v # ts) segs pos = v # written ts segs (pos + 1)"
| "written (Param n b # ts) segs pos = (segs ! pos) # written ts segs (pos + 1)"
| "written (CatchAll n # ts) segs pos = drop pos segs @ written ts segs (length segs)"

definition alike :: "(ustring \<Rightarrow> ustring) \<Rightarrow> ustring list \<Rightarrow> ustring list \<Rightarrow> bool" where
  "alike lc = list_all2 (\<lambda>a b. lc a = lc b)"

lemma alike_refl [simp]: "alike lc xs xs"
  by (simp add: alike_def list_all2_refl)

lemma alike_Cons [simp]: "alike lc (x # xs) (y # ys) \<longleftrightarrow> lc x = lc y \<and> alike lc xs ys"
  by (simp add: alike_def)

lemma alike_append: "alike lc xs ys \<Longrightarrow> alike lc xs' ys' \<Longrightarrow> alike lc (xs @ xs') (ys @ ys')"
  by (simp add: alike_def list_all2_appendI)

lemma alike_length: "alike lc xs ys \<Longrightarrow> length ys = length xs"
  by (simp add: alike_def list_all2_lengthD)

lemma alike_nth: "alike lc xs ys \<Longrightarrow> i < length xs \<Longrightarrow> lc (ys ! i) = lc (xs ! i)"
  by (simp add: alike_def list_all2_conv_all_nth)

lemma taken_Cons:
  assumes "pos < length segs" and "end = pos + 1 + k"
  shows "take (end - pos) (drop pos segs) = segs ! pos # take (end - (pos + 1)) (drop (pos + 1) segs)"
  using assms by (simp add: Cons_nth_drop_Suc[symmetric])

lemma match_written:
  assumes "matchTokens_loop lc ts segs pos ps = Some (qs, end)" and "length pre = pos" and "pos \<le> length segs"
    and "length post = length segs - end"
  shows "end = pos + length (written ts segs pos) \<and> end \<le> length segs \<and>
    alike lc (take (end - pos) (drop pos segs)) (written ts segs pos) \<and>
    matchTokens_loop lc ts (pre @ written ts segs pos @ post) pos ps = Some (qs, end)"
  using assms
proof (induction ts arbitrary: pos ps pre)
  case (Cons t ts)
  show ?case
  proof (cases t)
    case (Static v)
    have p: "pos < length segs" "lc (segs ! pos) = lc v" "matchTokens_loop lc ts segs (pos + 1) ps = Some (qs, end)"
      using Cons.prems(1) Static by (auto split: if_splits)
    have "length (pre @ [v]) = pos + 1" "pos + 1 \<le> length segs" using Cons.prems(2) p(1) by simp_all
    from Cons.IH[OF p(3) this Cons.prems(4)] have IH: "end = pos + 1 + length (written ts segs (pos + 1))" "end \<le> length segs"
        "alike lc (take (end - (pos + 1)) (drop (pos + 1) segs)) (written ts segs (pos + 1))"
        "matchTokens_loop lc ts (pre @ v # written ts segs (pos + 1) @ post) (pos + 1) ps = Some (qs, end)"
      by (auto simp only: append_assoc append.simps)
    have "alike lc (take (end - pos) (drop pos segs)) (v # written ts segs (pos + 1))"
      unfolding taken_Cons[OF p(1) IH(1)] using IH(3) p(2) by simp
    then show ?thesis using IH p Static Cons.prems(2) by (simp add: nth_append)
  next
    case (Param n b)
    let ?ps = "AList.update n (Str (segs ! pos)) ps"
    have p: "pos < length segs" "matchTokens_loop lc ts segs (pos + 1) ?ps = Some (qs, end)"
      using Cons.prems(1) Param by (auto split: if_splits)
    have "length (pre @ [segs ! pos]) = pos + 1" "pos + 1 \<le> length segs" using Cons.prems(2) p(1) by simp_all
    from Cons.IH[OF p(2) this Cons.prems(4)] have IH: "end = pos + 1 + length (written ts segs (pos + 1))" "end \<le> length segs"
        "alike lc (take (end - (pos + 1)) (drop (pos + 1) segs)) (written ts segs (pos + 1))"
        "matchTokens_loop lc ts (pre @ segs ! pos # written ts segs (pos + 1) @ post) (pos + 1) ?ps = Some (qs, end)"
      by (auto simp only: append_assoc append.simps)
    have "alike lc (take (end - pos) (drop pos segs)) (segs ! pos # written ts segs (pos + 1))"
      unfolding taken_Cons[OF p(1) IH(1)] using IH(3) by simp
    then show ?thesis using IH p Param Cons.prems(2) by (simp add: nth_append)
  next
    case (CatchAll n)
    let ?ps = "AList.update n (Arr (map Str (drop pos segs))) ps"
    have p: "drop pos segs \<noteq> []" "matchTokens_loop lc ts segs (length segs) ?ps = Some (qs, end)"
      using Cons.prems(1) CatchAll by (auto simp: Let_def split: if_splits)
    have "length (pre @ drop pos segs) = length segs" using Cons.prems(2,3) by simp
    from Cons.IH[OF p(2) this _ Cons.prems(4)] have IH: "end = length segs + length (written ts segs (length segs))" "end \<le> length segs"
        "matchTokens_loop lc ts ((pre @ drop pos segs) @ written ts segs (length segs) @ post) (length segs) ?ps = Some (qs, end)"
      by (auto simp only: append_assoc order_refl)
    then have e: "end = length segs" "written ts segs (length segs) = []" "post = []" using Cons.prems(4) by simp_all
    then show ?thesis using IH(3) p CatchAll Cons.prems(2,3) by (simp add: Let_def)
  qed
qed simp

text \<open>A match gives exactly the parameters of the pattern, and they format to the segments it stands for.\<close>

lemma match_params:
  assumes "matchTokens_loop lc ts segs pos ps = Some (qs, end)" and "distinct (token_names ts)"
  shows "(\<forall>n. n \<notin> set (token_names ts) \<longrightarrow> map_of qs n = map_of ps n) \<and> (\<forall>n \<in> set (token_names ts). given qs n) \<and>
    ((\<forall>n. Param n True \<notin> set ts) \<longrightarrow> formatTokens ts qs = Inr (written ts segs pos))"
  using assms
proof (induction ts arbitrary: pos ps)
  case Nil
  then show ?case by (simp add: formatTokens_def)
next
  case (Cons t ts)
  have cons: "formatTokens (t # ts) qs = bind_result (formatToken qs t) (\<lambda>a. bind_result (formatTokens ts qs) (\<lambda>b. Inr (a @ b)))"
    using format_append[of "[t]" ts qs] by (simp add: formatTokens_def) (cases "formatToken qs t"; simp)
  show ?case
  proof (cases t)
    case (Static v)
    then have "matchTokens_loop lc ts segs (pos + 1) ps = Some (qs, end)" using Cons.prems(1) by (auto split: if_splits)
    from Cons.IH[OF this] show ?thesis using Static Cons.prems(2) cons by auto
  next
    case (Param n b)
    then have "matchTokens_loop lc ts segs (pos + 1) (AList.update n (Str (segs ! pos)) ps) = Some (qs, end)"
      using Cons.prems(1) by (auto split: if_splits)
    note IH = Cons.IH[OF this]
    have "map_of qs n = Some (Str (segs ! pos))" using IH Param Cons.prems(2) by (simp add: update_conv')
    then have "param_value qs n = Str (segs ! pos)" by (simp add: param_value_def)
    then show ?thesis using IH Param Cons.prems(2) cons by (auto simp: given_def formatParam_def update_conv')
  next
    case (CatchAll n)
    then have ne: "drop pos segs \<noteq> []"
      and "matchTokens_loop lc ts segs (length segs) (AList.update n (Arr (map Str (drop pos segs))) ps) = Some (qs, end)"
      using Cons.prems(1) by (auto simp: Let_def split: if_splits)
    note IH = Cons.IH[OF this(2)]
    have "map_of qs n = Some (Arr (map Str (drop pos segs)))" using IH CatchAll Cons.prems(2) by (simp add: update_conv')
    then have "param_value qs n = Arr (map Str (drop pos segs))" by (simp add: param_value_def)
    then show ?thesis using IH CatchAll Cons.prems(2) cons ne
      by (auto simp: given_def formatCatchAll_def Let_def map_results_Str update_conv')
  qed
qed

text \<open>Whether a branch matches depends only on how its fixed segments read in lower case.\<close>

lemma match_alike:
  assumes "alike lc segs segs'"
  shows "rel_option (\<lambda>a b. snd a = snd b) (matchTokens_loop lc ts segs pos ps) (matchTokens_loop lc ts segs' pos ps')"
proof (induction ts arbitrary: pos ps ps')
  case (Cons t ts)
  have len: "length segs' = length segs" by (rule alike_length[OF assms])
  then have "drop pos segs = [] \<longleftrightarrow> drop pos segs' = []" by simp
  then show ?case using Cons len alike_nth[OF assms, of pos] by (cases t) (auto simp: Let_def)
qed simp

lemma no_match_alike:
  assumes "alike lc segs segs'" and "list_all (\<lambda>n. rd_params (n_definition n) = None) (map fst nts)"
  shows "matchBranch_loop lc nts segs off ms = Inr None \<Longrightarrow> matchBranch_loop lc nts segs' off ms' = Inr None"
  using assms(2)
proof (induction nts arbitrary: off ms ms')
  case Nil
  then show ?case using alike_length[OF assms(1)] by (simp split: if_splits)
next
  case (Cons nt nts)
  obtain n ts where nt: "nt = (n, ts)" by (cases nt)
  have parse: "params_parse (n_definition n) ps = Inr (Some ps)" for ps
    using Cons.prems(2) nt by (simp add: params_parse_def validateRouteParams_def)
  note m = match_alike[OF assms(1), of ts off "[]" "[]"]
  show ?case
  proof (cases "matchTokens lc ts segs off")
    case None
    then show ?thesis using m nt by (simp add: matchTokens_def)
  next
    case (Some q)
    then obtain q' where q': "matchTokens lc ts segs' off = Some q'" "snd q' = snd q"
      using m by (auto simp: matchTokens_def rel_option_iff split: option.splits)
    show ?thesis using Cons Some q' nt parse by (cases q; cases q') auto
  qed
qed

text \<open>The segments of a whole branch.\<close>

fun written_branch :: "(route_node \<times> path_token list) list \<Rightarrow> ustring list \<Rightarrow> nat \<Rightarrow> ustring list" where
  "written_branch [] segs off = []"
| "written_branch ((n, ts) # nts) segs off = written ts segs off @ written_branch nts segs (off + length (written ts segs off))"

lemma plain_format:
  assumes "plain_node n" and "fitting n ts" and "matchTokens lc ts segs off = Some (qs, end)"
  shows "formatTokens (canonical (n_pattern n)) (params_serialize (n_definition n) qs) = Inr (written ts segs off)"
proof -
  have "compileRoutePattern (rd_path (n_definition n)) (rd_aliases (n_definition n)) = Inr (n_pattern n)"
    using assms(2) by (simp add: fitting_def compiled_node_def)
  then have "alternatives (n_pattern n) = expandOptionals (canonical (n_pattern n))"
    using assms(1) by (cases "n_pattern n") (auto simp: plain_node_def compileRoutePattern_def bind_result_Inr)
  then have c: "ts \<in> set (expandOptionals (canonical (n_pattern n)))" "distinct (token_names (canonical (n_pattern n)))"
    using assms(1,2) by (simp_all add: plain_node_def fitting_def)
  have d: "distinct (token_names ts)" by (rule alternative_format(2)[OF c])
  note m = match_params[OF assms(3)[unfolded matchTokens_def] d]
  have "\<forall>n' \<in> set (token_names (canonical (n_pattern n))). given qs n' \<longleftrightarrow> n' \<in> set (token_names ts)"
    using m by (auto simp: given_def param_value_def)
  from alternative_format(4)[OF c this] have "formatTokens (canonical (n_pattern n)) qs = Inr (written ts segs off)"
    using m alternative_format(3)[OF c] by simp
  then show ?thesis using assms(1) by (simp add: plain_node_def params_serialize_def)
qed

lemma branch_written:
  assumes "matchBranch_loop lc nts segs off ms = Inr (Some r)" and "list_all (\<lambda>(n, ts). plain_node n \<and> fitting n ts) nts"
    and "length pre = off" and "off \<le> length segs"
  shows "alike lc (drop off segs) (written_branch nts segs off) \<and>
    matchBranch_loop lc nts (pre @ written_branch nts segs off) off ms = Inr (Some r) \<and>
    (\<exists>ms' ss. r = ms @ ms' \<and> concat ss = written_branch nts segs off \<and>
       map_results (\<lambda>(n, x). formatTokens (canonical (n_pattern n)) (params_serialize (n_definition n) (m_params x)))
         (zip (map fst nts) ms') = Inr ss)"
  using assms
proof (induction nts arbitrary: off ms pre)
  case Nil
  then show ?case by (auto simp: alike_def split: if_splits)
next
  case (Cons nt nts)
  obtain n ts where nt: "nt = (n, ts)" by (cases nt)
  have n: "plain_node n" "fitting n ts" using Cons.prems(2) nt by simp_all
  have parse: "params_parse (n_definition n) ps = Inr (Some ps)" for ps
    using n(1) by (simp add: plain_node_def params_parse_def validateRouteParams_def)
  obtain qs "end" where q: "matchTokens lc ts segs off = Some (qs, end)"
    and rest: "matchBranch_loop lc nts segs end (ms @ [\<lparr>m_id = n_id n, m_params = qs\<rparr>]) = Inr (Some r)"
    using Cons.prems(1) nt parse by (auto split: option.splits)
  let ?w = "written ts segs off" and ?ms = "ms @ [\<lparr>m_id = n_id n, m_params = qs\<rparr>]"
  let ?post = "written_branch nts segs end"
  obtain dummy :: "ustring list" where "length dummy = length segs - end" by (rule that[of "drop end segs"]) simp
  from match_written[OF q[unfolded matchTokens_def] Cons.prems(3,4) this]
  have w: "end = off + length ?w" "end \<le> length segs" "alike lc (take (end - off) (drop off segs)) ?w"
    by blast+
  from Cons.IH[OF rest _ _ w(2), of "pre @ ?w"] Cons.prems(2,3) w(1) obtain ms' ss where
    IH: "alike lc (drop end segs) ?post" "matchBranch_loop lc nts ((pre @ ?w) @ ?post) end ?ms = Inr (Some r)"
      "r = ?ms @ ms'" "concat ss = ?post"
      "map_results (\<lambda>(n, x). formatTokens (canonical (n_pattern n)) (params_serialize (n_definition n) (m_params x)))
         (zip (map fst nts) ms') = Inr ss" by auto
  have wb: "written_branch (nt # nts) segs off = ?w @ ?post" using nt w(1) by simp
  have "length ?post = length segs - end" using alike_length[OF IH(1)] by simp
  from match_written[OF q[unfolded matchTokens_def] Cons.prems(3,4) this]
  have q': "matchTokens lc ts (pre @ ?w @ ?post) off = Some (qs, end)" unfolding matchTokens_def by blast
  have "drop off segs = take (end - off) (drop off segs) @ drop end segs"
    using append_take_drop_id[of "end - off" "drop off segs"] w(1) by (simp add: add.commute)
  then have "alike lc (drop off segs) (?w @ ?post)" using alike_append[OF w(3) IH(1)] by metis
  moreover have "matchBranch_loop lc (nt # nts) (pre @ ?w @ ?post) off ms = Inr (Some r)"
    using q' IH(2) parse nt by simp
  moreover have "r = ms @ (\<lparr>m_id = n_id n, m_params = qs\<rparr> # ms')" using IH(3) by simp
  moreover have "map_results (\<lambda>(n, x). formatTokens (canonical (n_pattern n)) (params_serialize (n_definition n) (m_params x)))
      (zip (map fst (nt # nts)) (\<lparr>m_id = n_id n, m_params = qs\<rparr> # ms')) = Inr (?w # ss)"
    using plain_format[OF n q] IH(5) nt by simp
  ultimately show ?case unfolding wb using IH(4) by (intro conjI exI[of _ "_ # ms'"] exI[of _ "?w # ss"]) auto
qed

section \<open>Decoded routes are read back\<close>

lemma decodeAmong_again:
  assumes "manifest_ok m" and "list_all fitting_branch (branches m)" and "plain_table m" and "set bs \<subseteq> set (branches m)"
    and "decodeAmong lc bs segs = Inr (Some r)"
  shows "\<exists>segs'. formatPane m r = Inr segs' \<and> alike lc segs segs' \<and> decodeAmong lc bs segs' = Inr (Some r)"
proof -
  from decodeAmong_Some[OF assms(5)] obtain pre b post where b: "bs = pre @ b # post" "matchBranch lc b segs = Inr (Some r)"
    "\<forall>b' \<in> set pre. matchBranch lc b' segs = Inr None" by blast
  have mem: "b' \<in> set (branches m)" if "b' \<in> set bs" for b' using assms(4) that by blast
  have ok: "branch_ok (byId m) b" using assms(1) mem[of b] b(1) by (auto simp: manifest_ok_def list_all_iff)
  have plain: "list_all plain_node (b_nodes b')" if "b' \<in> set bs" for b'
    using assms(3) mem[OF that] by (auto simp: plain_table_def list_all_iff)
  have "list_all2 fitting (b_nodes b) (b_patterns b)" using assms(2) mem[of b] b(1) by (auto simp: list_all_iff fitting_branch_def)
  then have fits: "list_all (\<lambda>(n, ts). plain_node n \<and> fitting n ts) (zip (b_nodes b) (b_patterns b))"
    using plain[of b] b(1) by (auto simp: list_all_iff list_all2_iff dest: set_zip_leftD)
  let ?segs = "written_branch (zip (b_nodes b) (b_patterns b)) segs 0"
  have len: "length (b_patterns b) = length (b_nodes b)" using ok by (simp add: branch_ok_def)
  from branch_written[OF b(2)[unfolded matchBranch_def] fits, of "[]"] obtain ss where
    w: "alike lc segs ?segs" "matchBranch lc b ?segs = Inr (Some r)" "concat ss = ?segs"
      "map_results (\<lambda>(n, x). formatTokens (canonical (n_pattern n)) (params_serialize (n_definition n) (m_params x)))
         (zip (b_nodes b) r) = Inr ss"
    using len by (auto simp: matchBranch_def)
  have "formatPane m r = Inr ?segs"
    using resolve_matched(1)[OF ok b(2)] w(3,4) by (simp add: formatPane_def)
  moreover have "matchBranch lc b' ?segs = Inr None" if "b' \<in> set pre" for b'
  proof -
    have "list_all (\<lambda>n. rd_params (n_definition n) = None) (map fst (zip (b_nodes b') (b_patterns b')))"
      using plain[of b'] that b(1) by (auto simp: list_all_iff plain_node_def dest: set_zip_leftD)
    from no_match_alike[OF w(1) this, of 0 "[]" "[]"] b(3) that show ?thesis by (simp add: matchBranch_def)
  qed
  then have "decodeAmong lc (pre @ b # post) ?segs = Inr (Some r)" using w(2) by (induction pre) auto
  ultimately show ?thesis using w(1) b(1) by blast
qed

lemma decoded_is_canonical:
  assumes "createRoutesManifest routes = Inr m" and "plain_table m"
  shows "decodePane lc m segs = Inr (Some r) \<Longrightarrow>
      \<exists>segs'. formatPane m r = Inr segs' \<and> alike lc segs segs' \<and> decodePane lc m segs' = Inr (Some r)"
    and "decodeFirstPane lc m segs = Inr (Some r) \<Longrightarrow>
      \<exists>segs'. formatPane m r = Inr segs' \<and> alike lc segs segs' \<and> decodeFirstPane lc m segs' = Inr (Some r)"
  using decodeAmong_again[OF createRoutesManifest_ok[OF assms(1)] createRoutesManifest_fitting[OF assms(1)] assms(2)]
  by (auto simp: decodePane_def decodeFirstPane_def)

end
