(* ===== verification/Route_Url.thy ===== *)
theory Route_Url
  imports Route_Roundtrip Route_Canonical
begin

text \<open>
  The whole URL: the open panes come back from what was written for them, and a URL that no
  route decodes gives the default pane.
\<close>

section \<open>One pane\<close>

abbreviation pane_route :: "encoded_pane \<Rightarrow> route_state" where
  "pane_route p \<equiv> l_route (en_location (ep_entry p))"

abbreviation pane_search :: "encoded_pane \<Rightarrow> search_state option" where
  "pane_search p \<equiv> l_search (en_location (ep_entry p))"

definition pane_segments :: "routes_manifest \<Rightarrow> encoded_pane \<Rightarrow> ustring list" where
  "pane_segments m p = (case formatPane m (pane_route p) of Inl _ \<Rightarrow> [] | Inr segments \<Rightarrow> segments)"

text \<open>
  A pane that a URL can show: its route is the one its segments decode to and none of them is
  empty, its entry state is what the route's schema makes of it, and the search values its
  route owns are well-formed strings within the limit.
\<close>

definition url_pane :: "(ustring \<Rightarrow> ustring) \<Rightarrow> routes_manifest \<Rightarrow> encoded_pane \<Rightarrow> bool" where
  "url_pane lc m p \<longleftrightarrow>
     pane_segments m p \<noteq> [] \<and> [] \<notin> set (pane_segments m p) \<and>
     decodePane lc m (pane_segments m p) = Inr (Some (pane_route p)) \<and>
     parseRouteEntryState m (pane_route p) (en_state (ep_entry p)) = Inr (Some (en_state (ep_entry p))) \<and>
     (case filterRouteSearch m (pane_route p) (pane_search p) of Inr (Some s) \<Rightarrow> search_ok s | _ \<Rightarrow> True)"

text \<open>The pane as it is read back: its id, entry and route are the same, and it has the search values its route owns.\<close>

definition shows_pane :: "routes_manifest \<Rightarrow> encoded_pane \<Rightarrow> decoded_pane \<Rightarrow> bool" where
  "shows_pane m p d \<longleftrightarrow>
     dp_paneId d = Some (ep_paneId p) \<and> en_id (dp_entry d) = en_id (ep_entry p) \<and>
     en_state (dp_entry d) = en_state (ep_entry p) \<and> l_route (en_location (dp_entry d)) = pane_route p \<and>
     (\<exists>s. filterRouteSearch m (pane_route p) (pane_search p) = Inr s \<and>
        search_values (l_search (en_location (dp_entry d))) = search_values s)"

lemma map_of_pick: "map_of (pickNamespaces s names) ns = (if ns \<in> set names then map_of s ns else None)"
  by (induction s) (auto simp: pickNamespaces_def)

lemma search_values_pick:
  "search_values (Some (pickNamespaces s names)) ns f = (if ns \<in> set names then search_values (Some s) ns f else [])"
  by (simp add: search_values_def own_value_def map_of_pick)

lemma search_values_empty: "search_values (if s = [] then None else Some s) = search_values (Some s)"
  by (simp add: search_values_def fun_eq_iff)

lemma filter_values:
  assumes "leafNode m route = Inr leaf" and "filterRouteSearch m route s = Inr t"
  shows "search_values t ns f = (case n_search leaf of
      AnySearch \<Rightarrow> search_values s ns f
    | Owned names \<Rightarrow> if ns \<in> set names then search_values s ns f else [])"
proof (cases s)
  case None
  then show ?thesis using assms(2)
    by (auto simp: filterRouteSearch_def search_values_def own_value_def split: owned_search.splits)
next
  case (Some r)
  define kept where "kept = (case n_search leaf of AnySearch \<Rightarrow> r | Owned names \<Rightarrow> pickNamespaces r names)"
  have "t = (if kept = [] then None else Some kept)"
    using assms Some by (auto simp: filterRouteSearch_def Let_def kept_def)
  then have "search_values t = search_values (Some kept)" by (simp only: search_values_empty)
  then show ?thesis using Some
    by (cases "n_search leaf") (simp_all add: kept_def search_values_pick)
qed

text \<open>Filtering what was read changes nothing: what was written is already filtered.\<close>

lemma filter_again:
  assumes "leafNode m route = Inr leaf" and "filterRouteSearch m route s = Inr t"
    and "\<And>ns f. search_values s' ns f = search_values t ns f"
  shows "\<exists>t'. filterRouteSearch m route s' = Inr t' \<and> search_values t' = search_values t"
proof -
  obtain t' where t': "filterRouteSearch m route s' = Inr t'"
    using assms(1) by (cases s') (auto simp: filterRouteSearch_def Let_def)
  have "search_values t' ns f = search_values t ns f" for ns f
    using filter_values[OF assms(1) t', of ns f] filter_values[OF assms(1,2), of ns f] assms(3)[of ns f]
    by (auto split: owned_search.splits if_splits)
  then show ?thesis using t' by (auto simp: fun_eq_iff)
qed

lemma format_leaf: "formatPane m r = Inr segs \<Longrightarrow> \<exists>leaf. leafNode m r = Inr leaf"
  by (auto simp: formatPane_def leafNode_def bind_result_Inr)

lemma decodePanes_pane_shows:
  assumes "url_pane lc m p" and "leafNode m (pane_route p) = Inr leaf"
    and "filterRouteSearch m (pane_route p) (pane_search p) = Inr s"
    and "\<And>ns f. search_values (map_of search i) ns f = search_values s ns f"
    and "stored ! i = \<lparr>hp_pane = ep_paneId p, hp_entry = en_id (ep_entry p),
      hp_state = (if en_state (ep_entry p) = Undefined then None else Some (en_state (ep_entry p)))\<rparr>"
    and "i < length stored"
  shows "\<exists>d. decodePanes_pane m search (Some stored) fresh (i, pane_route p) = Inr d \<and> shows_pane m p d"
proof -
  from filter_again[OF assms(2,3,4)] obtain t where
    t: "filterRouteSearch m (pane_route p) (map_of search i) = Inr t" "search_values t = search_values s" by blast
  have "storedState m (pane_route p) (Some (stored ! i)) = Inr (en_state (ep_entry p))"
    unfolding assms(5) by (rule storedState_roundtrip) (use assms(1) in \<open>simp add: url_pane_def\<close>)
  then show ?thesis using t assms(3,5,6)
    by (simp add: decodePanes_pane_def shows_pane_def locationOf_def)
qed

section \<open>All panes\<close>

lemma panesPath_parts:
  assumes "map_results (\<lambda>e. formatPanePath m (l_route (en_location e))) es = Inr paths"
  shows "\<exists>sss ess. list_all2 (\<lambda>e ss. formatPane m (l_route (en_location e)) = Inr ss) es sss \<and>
    list_all2 (\<lambda>ss es. map_results encodeSegment ss = Inr es) sss ess \<and> paths = map (\<lambda>es. slash # join [slash] es) ess"
  using assms
proof (induction es arbitrary: paths)
  case (Cons e es)
  then obtain ps ss xs where "formatPane m (l_route (en_location e)) = Inr ss" "map_results encodeSegment ss = Inr xs"
    "map_results (\<lambda>e. formatPanePath m (l_route (en_location e))) es = Inr ps" "paths = (slash # join [slash] xs) # ps"
    by (auto simp: formatPanePath_def bind_result_Inr)
  moreover from Cons.IH[OF this(3)] obtain sss ess where
    "list_all2 (\<lambda>e ss. formatPane m (l_route (en_location e)) = Inr ss) es sss"
    "list_all2 (\<lambda>ss es. map_results encodeSegment ss = Inr es) sss ess" "ps = map (\<lambda>es. slash # join [slash] es) ess" by blast
  ultimately show ?case by (intro exI[of _ "ss # sss"] exI[of _ "xs # ess"]) simp
qed simp

lemma panesPath_roundtrip:
  assumes "panesPath m (map ep_entry panes) = Inr path" and "panes \<noteq> []"
    and "\<And>p. p \<in> set panes \<Longrightarrow> pane_segments m p \<noteq> [] \<and> [] \<notin> set (pane_segments m p)"
  shows "map (map decodeSegment) (splitPanePaths path) = map (pane_segments m) panes" and "path \<noteq> []"
    and "\<And>p. p \<in> set panes \<Longrightarrow> \<exists>leaf. leafNode m (pane_route p) = Inr leaf"
proof -
  obtain sss ess where sss: "list_all2 (\<lambda>p ss. formatPane m (pane_route p) = Inr ss) panes sss"
    and ess: "list_all2 (\<lambda>ss es. map_results encodeSegment ss = Inr es) sss ess"
    and path: "path = join (slash # SPLIT_PATH_SEPARATOR) (map (\<lambda>es. slash # join [slash] es) ess)"
    using assms(1) panesPath_parts[of m "map ep_entry panes"] by (auto simp: panesPath_def bind_result_Inr list_all2_map1)
  have eq: "sss = map (pane_segments m) panes"
    using sss by (auto simp: list_all2_conv_all_nth pane_segments_def intro!: nth_equalityI)
  have ok: "ss \<noteq> [] \<and> [] \<notin> set ss" if "ss \<in> set sss" for ss using that assms(3) by (auto simp: eq)
  have ne: "sss \<noteq> []" "ess \<noteq> []" using assms(2) ess eq by auto
  from segments.panes_path_roundtrip[OF ess ne(1) ok] show "map (map decodeSegment) (splitPanePaths path) = map (pane_segments m) panes"
    by (simp add: path eq)
  show "path \<noteq> []" unfolding path using ne(2) by (intro join_ne) auto
  show "\<exists>leaf. leafNode m (pane_route p) = Inr leaf" if p: "p \<in> set panes" for p
  proof -
    obtain i where "i < length panes" "p = panes ! i" using p unfolding in_set_conv_nth by metis
    then have "formatPane m (pane_route p) = Inr (sss ! i)" using sss by (simp add: list_all2_conv_all_nth)
    then show ?thesis by (rule format_leaf)
  qed
qed

lemma paneRoutes_shows:
  assumes "map (map decodeSegment) parts = map (pane_segments m) panes" and "panes \<noteq> []"
    and "\<And>p. p \<in> set panes \<Longrightarrow> decodePane lc m (pane_segments m p) = Inr (Some (pane_route p))"
    and "decodeFirstPane lc m (pane_segments m (hd panes)) = Inr (Some (pane_route (hd panes)))"
    and "\<And>p. p \<in> set panes \<Longrightarrow> m_id (hd (pane_route p)) = m_id (hd (pane_route (hd panes)))"
  shows "paneRoutes lc m parts = Inr (Some (map pane_route panes))"
proof -
  obtain p ps where ps: "panes = p # ps" using assms(2) by (cases panes) auto
  have "map_results (decodePane lc m) (map (pane_segments m) qs) = Inr (map (Some \<circ> pane_route) qs)"
    if "set qs \<subseteq> set panes" for qs using that assms(3) by (induction qs) simp_all
  then have "map_results (decodePane lc m) (map (pane_segments m) ps) = Inr (map (Some \<circ> pane_route) ps)"
    using ps by auto
  moreover have "list_all (\<lambda>route. root_id route = Some (m_id (hd (pane_route p)))) (map (Some \<circ> pane_route) ps)"
  proof -
    have "root_id ((Some \<circ> pane_route) q) = Some (m_id (hd (pane_route p)))" if "q \<in> set ps" for q
      using assms(5)[of q] that ps by (simp add: root_id_def)
    then show ?thesis unfolding list_all_iff by auto
  qed
  ultimately show ?thesis using assms(1,4) ps by (simp add: paneRoutes_def o_def)
qed

lemma map_results_list_all2:
  "(\<And>i. i < length xs \<Longrightarrow> i < length ys \<Longrightarrow> \<exists>d. g (xs ! i) = Inr d \<and> R (ys ! i) d) \<Longrightarrow> length xs = length ys \<Longrightarrow>
   \<exists>ds. map_results g xs = Inr ds \<and> list_all2 R ys ds"
proof (induction xs arbitrary: ys)
  case (Cons x xs)
  obtain y ys' where ys: "ys = y # ys'" using Cons.prems(2) by (cases ys) auto
  have "\<exists>d. g x = Inr d \<and> R y d" using Cons.prems(1)[of 0] ys by simp
  moreover have "\<exists>ds. map_results g xs = Inr ds \<and> list_all2 R ys' ds"
  proof (rule Cons.IH)
    show "\<exists>d. g (xs ! i) = Inr d \<and> R (ys' ! i) d" if "i < length xs" "i < length ys'" for i
      using Cons.prems(1)[of "Suc i"] that ys by simp
  qed (use Cons.prems(2) ys in simp)
  ultimately show ?case using ys by auto
qed simp

text \<open>
  What is read is the same from any location with the same path, search values and state as
  the one that was written.
\<close>

definition reads_alike :: "external_location \<Rightarrow> external_location \<Rightarrow> bool" where
  "reads_alike loc' loc \<longleftrightarrow>
    splitPanePaths (x_path loc') = splitPanePaths (x_path loc) \<and> x_state loc' = x_state loc \<and>
    (\<forall>i ns f. search_values (map_of (parsePaneSearch (x_search loc')) i) ns f =
       search_values (map_of (parsePaneSearch (x_search loc)) i) ns f)"

lemma written_reads_back:
  assumes "encodePanes m panes previous keepHash = Inr loc"
    and "panes \<noteq> []" and "length panes \<le> max_safe_integer"
    and "\<forall>p \<in> set panes. url_pane lc m p \<and> m_id (hd (pane_route p)) = m_id (hd (pane_route (hd panes)))"
    and "decodeFirstPane lc m (pane_segments m (hd panes)) = Inr (Some (pane_route (hd panes)))"
    and "reads_alike loc' loc"
  shows "\<exists>ds. decodePanes lc m loc' fresh = Inr ds \<and> list_all2 (shows_pane m) panes ds"
proof -
  let ?es = "map ep_entry panes"
  obtain path x where path: "panesPath m ?es = Inr path" and x: "panesSearch m ?es (x_search previous) = Inr x"
    and loc: "x_path loc = (if path = [] then [slash] else path)" "x_search loc = x"
      "x_state loc = Obj [(u ''panes'', Arr (map historyPane panes))]"
    using assms(1) by (auto simp: encodePanes_def Let_def bind_result_Inr)
  have ok: "url_pane lc m p" if "p \<in> set panes" for p using assms(4) that by blast
  have segs: "pane_segments m p \<noteq> [] \<and> [] \<notin> set (pane_segments m p)" if "p \<in> set panes" for p
    using ok[OF that] by (simp add: url_pane_def)
  note pr = panesPath_roundtrip[OF path assms(2) segs]
  have routes: "paneRoutes lc m (splitPanePaths (x_path loc)) = Inr (Some (map pane_route panes))"
  proof (rule paneRoutes_shows[OF _ assms(2) _ assms(5)])
    show "decodePane lc m (pane_segments m p) = Inr (Some (pane_route p))" if "p \<in> set panes" for p
      using ok[OF that] by (simp add: url_pane_def)
    show "m_id (hd (pane_route p)) = m_id (hd (pane_route (hd panes)))" if "p \<in> set panes" for p
      using assms(4) that by blast
  qed (use pr(1,2) loc(1) in simp)
  have len: "length (splitPanePaths (x_path loc)) = length panes"
    using arg_cong[OF pr(1), of length] pr(2) loc(1) by simp
  let ?stored = "map (\<lambda>p. \<lparr>hp_pane = ep_paneId p, hp_entry = en_id (ep_entry p),
       hp_state = (if en_state (ep_entry p) = Undefined then None else Some (en_state (ep_entry p)))\<rparr>) panes"
  have stored: "storedPanes (x_state loc) (length (splitPanePaths (x_path loc))) = Some ?stored"
    using len unfolding storedPanes_def loc(3) readHistory_roundtrip by simp
  obtain pss where pss: "map_results (\<lambda>e. filterRouteSearch m (l_route (en_location e)) (l_search (en_location e))) ?es = Inr pss"
    using x by (auto simp: panesSearch_def bind_result_Inr)
  have filtered: "filterRouteSearch m (pane_route (panes ! i)) (pane_search (panes ! i)) = Inr (pss ! i)" "length pss = length panes"
    if "i < length panes" for i using pss that by (auto simp: map_results_Inr list_all2_conv_all_nth)
  have "search_ok s" if "Some s \<in> set pss" for s
  proof -
    obtain i where i: "i < length pss" "Some s = pss ! i" using \<open>Some s \<in> set pss\<close> unfolding in_set_conv_nth by metis
    have "length pss = length panes" using pss by (auto simp: map_results_Inr dest: list_all2_lengthD)
    then have "i < length panes" using i(1) by simp
    from ok[OF nth_mem[OF this]] filtered(1)[OF this] show ?thesis unfolding i(2)[symmetric] by (simp add: url_pane_def)
  qed
  then have search: "search_values (map_of (parsePaneSearch (x_search loc)) i) ns f = search_values (pss ! i) ns f"
    if "i < length panes" for i ns f
    using panesSearch_roundtrip[OF x pss, of i ns f] assms(3) loc(2) filtered(2)[OF that] that by simp
  have alike: "splitPanePaths (x_path loc') = splitPanePaths (x_path loc)" "x_state loc' = x_state loc"
      "search_values (map_of (parsePaneSearch (x_search loc')) i) ns f = search_values (map_of (parsePaneSearch (x_search loc)) i) ns f"
    for i ns f using assms(6) by (simp_all add: reads_alike_def)
  have "\<exists>d. decodePanes_pane m (parsePaneSearch (x_search loc')) (Some ?stored) fresh (i, pane_route (panes ! i)) = Inr d \<and>
      shows_pane m (panes ! i) d" if i: "i < length panes" for i
  proof -
    obtain leaf where leaf: "leafNode m (pane_route (panes ! i)) = Inr leaf" using pr(3)[OF _ nth_mem[OF i]] by blast
    show ?thesis by (rule decodePanes_pane_shows[OF ok[OF nth_mem[OF i]] leaf filtered(1)[OF i]]) (use i search[OF i] alike(3) in simp_all)
  qed
  then have "\<exists>ds. map_results (decodePanes_pane m (parsePaneSearch (x_search loc')) (Some ?stored) fresh)
      (List.enumerate 0 (map pane_route panes)) = Inr ds \<and> list_all2 (shows_pane m) panes ds"
    by (intro map_results_list_all2) (simp_all add: nth_enumerate_eq)
  then show ?thesis using routes stored assms(2) alike(1,2) by (simp add: decodePanes_def Let_def)
qed

text \<open>
  Where a pane's route may come from: in a table without schemas, serializers and aliases some segments decode to it, as to every route that a
  URL or a navigation target gives (\<open>decodePanes_pane\<close>, \<open>resolveTarget\<close>); in any other table its own segments do.
\<close>

definition decoded_by :: "(ustring list \<Rightarrow> route_error + route_state option) \<Rightarrow> routes_manifest \<Rightarrow> route_state \<Rightarrow> bool" where
  "decoded_by decode m r \<longleftrightarrow>
    (\<exists>segs. decode segs = Inr (Some r) \<and> (plain_table m \<or> formatPane m r = Inr segs))"

definition visited_pane :: "(ustring \<Rightarrow> ustring) \<Rightarrow> routes_manifest \<Rightarrow> encoded_pane \<Rightarrow> bool" where
  "visited_pane lc m p \<longleftrightarrow>
     decoded_by (decodePane lc m) m (pane_route p) \<and> pane_segments m p \<noteq> [] \<and> [] \<notin> set (pane_segments m p) \<and>
     parseRouteEntryState m (pane_route p) (en_state (ep_entry p)) = Inr (Some (en_state (ep_entry p))) \<and>
     (case filterRouteSearch m (pane_route p) (pane_search p) of Inr (Some s) \<Rightarrow> search_ok s | _ \<Rightarrow> True)"

lemma decoded_by_again:
  assumes "createRoutesManifest routes = Inr m"
  shows "decoded_by (decodePane lc m) m (pane_route p) \<Longrightarrow> decodePane lc m (pane_segments m p) = Inr (Some (pane_route p))"
    and "decoded_by (decodeFirstPane lc m) m (pane_route p) \<Longrightarrow> decodeFirstPane lc m (pane_segments m p) = Inr (Some (pane_route p))"
  using decoded_is_canonical[OF assms] by (fastforce simp: decoded_by_def pane_segments_def)+

lemma visited_url_pane: "createRoutesManifest routes = Inr m \<Longrightarrow> visited_pane lc m p \<Longrightarrow> url_pane lc m p"
  using decoded_by_again(1) by (auto simp: visited_pane_def url_pane_def)

text \<open>
  C7.  Writing the open panes to the URL and reading it back gives the same panes.  Provided that there is a pane, and no more than
  can be counted; that each pane's route is one that some segments decode to, or, where the table has schemas, serializers or
  aliases, that its own segments decode to; that no segment of it is empty and it has one; that its state is what the route's
  schema makes of it, and the search values its route owns are well-formed and within the limit; that all share a top-level
  route, and the first pane's is one that a first pane decodes to: \<open>decodePanes\<close> of what \<open>encodePanes\<close> returns, whatever the
  previous URL held, succeeds with one pane for each, in order, with the same pane id, entry id, route and entry state, and
  with exactly the search values its route owns.
\<close>

theorem url_roundtrip:
  assumes "createRoutesManifest routes = Inr m" and "encodePanes m panes previous keepHash = Inr loc"
    and "panes \<noteq> []" and "length panes \<le> max_safe_integer"
    and "\<forall>p \<in> set panes. visited_pane lc m p \<and> m_id (hd (pane_route p)) = m_id (hd (pane_route (hd panes)))"
    and "decoded_by (decodeFirstPane lc m) m (pane_route (hd panes))"
  shows "\<exists>ds. decodePanes lc m loc fresh = Inr ds \<and> list_all2 (shows_pane m) panes ds"
proof (rule written_reads_back[OF assms(2-4)])
  show "\<forall>p \<in> set panes. url_pane lc m p \<and> m_id (hd (pane_route p)) = m_id (hd (pane_route (hd panes)))"
    using assms(5) visited_url_pane[OF assms(1)] by blast
  show "decodeFirstPane lc m (pane_segments m (hd panes)) = Inr (Some (pane_route (hd panes)))"
    by (rule decoded_by_again(2)[OF assms(1,6)])
  show "reads_alike loc loc" by (simp add: reads_alike_def)
qed

text \<open>\<open>sameExternalLocation\<close> is fine enough: what was written reads the same from a location it takes for the same.\<close>

lemma strip_both:
  "dropWhile P (rev (dropWhile P (rev s))) = rev (dropWhile P (rev (dropWhile P s)))"
proof (cases "dropWhile P s")
  case Nil
  then have "\<forall>x \<in> set s. P x" by (simp add: dropWhile_eq_Nil_conv)
  then have r: "dropWhile P (rev s) = []" by (simp add: dropWhile_eq_Nil_conv)
  show ?thesis unfolding Nil r by simp
next
  case (Cons a t)
  have s: "s = takeWhile P s @ a # t" using Cons takeWhile_dropWhile_id[of P s] by simp
  have a: "\<not> P a" using Cons hd_dropWhile[of P s] by simp
  obtain w where w: "dropWhile P (rev t @ [a]) = w @ [a]"
  proof (cases "\<forall>x \<in> set (rev t). P x")
    case True
    then have "dropWhile P (rev t @ [a]) = [] @ [a]" using a by (simp add: dropWhile_append)
    then show thesis by (rule that)
  next
    case False
    then have "dropWhile P (rev t @ [a]) = dropWhile P (rev t) @ [a]" unfolding dropWhile_append by auto
    then show thesis by (rule that)
  qed
  have "rev s = (rev t @ [a]) @ rev (takeWhile P s)" using arg_cong[OF s, of rev] by simp
  then have "dropWhile P (rev s) = (w @ [a]) @ rev (takeWhile P s)"
    using a w by (simp only: dropWhile_append) auto
  then have "rev (dropWhile P (rev s)) = takeWhile P s @ a # rev w" by simp
  moreover have "dropWhile P (takeWhile P s @ a # rev w) = a # rev w"
    using a by (subst dropWhile_append2) (auto dest: set_takeWhileD)
  ultimately show ?thesis using w Cons by simp
qed

lemma trim_idem: "trim_slashes (rev (dropWhile (\<lambda>c. c = slash) (rev s))) = trim_slashes s"
proof -
  let ?d = "dropWhile (\<lambda>c. c = slash)"
  have idem: "?d (?d xs) = ?d xs" for xs by (induction xs) auto
  have "trim_slashes (rev (?d (rev s))) = rev (?d (rev (?d (rev (?d (rev s))))))" by (simp add: trim_slashes_def)
  also have "\<dots> = rev (?d (rev (rev (?d (rev (?d s))))))" by (simp only: strip_both)
  also have "\<dots> = rev (?d (rev (?d s)))" by (simp add: idem)
  finally show ?thesis by (simp add: trim_slashes_def)
qed

lemma splitPanePaths_normalize: "splitPanePaths (normalizePath path) = splitPanePaths path"
proof -
  have "trim_slashes (normalizePath path) = trim_slashes path"
    using trim_idem[of path] by (auto simp: normalizePath_def trim_slashes_def)
  then have "splitSegments (normalizePath path) = splitSegments path" by (simp add: splitSegments_def)
  then show ?thesis by (simp add: splitPanePaths_def)
qed

lemma same_location_reads_alike:
  assumes "encodePanes m panes previous keepHash = Inr loc" and "length panes \<le> max_safe_integer"
    and "sameExternalLocation deq loc loc'" and "\<forall>v w. deq v w \<longrightarrow> v = w"
  shows "reads_alike loc' loc"
proof -
  obtain x where x: "panesSearch m (map ep_entry panes) (x_search previous) = Inr x" "x_search loc = x"
    using assms(1) by (auto simp: encodePanes_def Let_def bind_result_Inr)
  obtain pss where pss: "map_results (\<lambda>e. filterRouteSearch m (l_route (en_location e)) (l_search (en_location e)))
      (map ep_entry panes) = Inr pss"
    using x by (auto simp: panesSearch_def bind_result_Inr)
  have "deq (x_state loc) (x_state loc')" using assms(3) by (simp add: sameExternalLocation_def)
  then have "x_state loc = x_state loc'" using assms(4) by blast
  then have same: "normalizePath (x_path loc) = normalizePath (x_path loc')" "sortedQuery (x_search loc') = sortedQuery x"
      "x_state loc' = x_state loc"
    using assms(3) x(2) by (simp_all add: sameExternalLocation_def)
  have "splitPanePaths (x_path loc') = splitPanePaths (x_path loc)"
    using same(1) splitPanePaths_normalize by metis
  moreover have "search_values (map_of (parsePaneSearch (x_search loc')) i) ns f =
      search_values (map_of (parsePaneSearch (x_search loc)) i) ns f" for i ns f
    using same_query_values[OF x(1) pss _ same(2), of i ns f] assms(2) x(2) by simp
  ultimately show ?thesis using same(3) unfolding reads_alike_def by simp
qed

section \<open>What can go wrong\<close>

definition schema_error :: "route_error \<Rightarrow> bool" where
  "schema_error e \<longleftrightarrow> e = AsyncSchema \<or> e = SchemaNotObject"

lemma params_parse_error: "params_parse d ps = Inl e \<Longrightarrow> schema_error e"
  by (auto simp: params_parse_def validateRouteParams_def schema_error_def
      split: option.splits schema_result.splits js_value.splits)

lemma matchBranch_error: "matchBranch_loop lc nts segs off ms = Inl e \<Longrightarrow> schema_error e"
  by (induction lc nts segs off ms rule: matchBranch_loop.induct)
    (auto simp: bind_result_Inl params_parse_error split: option.splits)

lemma decodeAmong_error: "decodeAmong lc bs segs = Inl e \<Longrightarrow> schema_error e"
  by (induction bs) (auto simp: bind_result_Inl matchBranch_def matchBranch_error split: option.splits)

lemma paneRoutes_error: "paneRoutes lc m parts = Inl e \<Longrightarrow> schema_error e"
  by (auto simp: paneRoutes_def decodeFirstPane_def decodePane_def bind_result_Inl
      dest!: map_results_Inl dest: decodeAmong_error split: list.splits option.splits)

lemma leaf_of_branch: "resolveBranch m r = Inr branch \<Longrightarrow> leafNode m r = Inr (last branch)"
  by (simp add: leafNode_def)

lemma decodePanes_pane_error:
  assumes "leafNode m (snd pr) = Inr leaf" and "decodePanes_pane m search stored fresh pr = Inl e"
  shows "schema_error e"
  using assms by (auto simp: decodePanes_pane_def filterRouteSearch_def storedState_def parseRouteEntryState_def
      schema_error_def bind_result_Inl Let_def split: prod.splits option.splits schema_result.splits if_splits)

lemma paneRoutes_resolve:
  assumes "manifest_ok m" and "paneRoutes lc m parts = Inr (Some rs)" and "r \<in> set rs"
  shows "\<exists>branch. resolveBranch m r = Inr branch \<and> branch \<noteq> []"
proof -
  have "\<exists>bs segs. set bs \<subseteq> set (branches m) \<and> decodeAmong lc bs segs = Inr (Some r)"
  proof -
    obtain seg segs where parts: "map (map decodeSegment) parts = seg # segs"
      using assms(2,3) by (cases "map (map decodeSegment) parts") (auto simp: paneRoutes_def)
    then obtain r0 rest where r0: "decodeFirstPane lc m seg = Inr (Some r0)"
      and rest: "map_results (decodePane lc m) segs = Inr rest" "list_all (\<lambda>route. root_id route = Some (m_id (hd r0))) rest"
        "rs = r0 # map the rest"
      using assms(2) by (auto simp: paneRoutes_def bind_result_Inr split: option.splits if_splits)
    show ?thesis
    proof (cases "r = r0")
      case True
      then have "decodeAmong lc (filter (\<lambda>b. \<not> isNestedCatchAll b) (branches m)) seg = Inr (Some r)"
        using r0 by (simp add: decodeFirstPane_def)
      moreover have "set (filter (\<lambda>b. \<not> isNestedCatchAll b) (branches m)) \<subseteq> set (branches m)" by auto
      ultimately show ?thesis by blast
    next
      case False
      then obtain x where x: "x \<in> set rest" "r = the x" using assms(3) rest(3) by auto
      then have "root_id x = Some (m_id (hd r0))" using rest(2) unfolding list_all_iff by blast
      then have "x = Some r" using x(2) by (cases x) (simp_all add: root_id_def)
      then obtain s where "decodePane lc m s = Inr (Some r)"
        using rest(1) x(1) by (auto simp: map_results_Inr list_all2_conv_all_nth in_set_conv_nth)
      then show ?thesis by (auto simp: decodePane_def)
    qed
  qed
  then show ?thesis using decodeAmong_resolves[OF assms(1)] by blast
qed

text \<open>
  C8.  Reading a URL, however malformed, fails only when a schema of the application is
  asynchronous or does not return an object, or the application's default route is not
  accepted.  Otherwise there is at least one pane, and the route of every pane resolves in
  the table.  When some pane's segments decode to nothing or the roots differ, the result is the
  default pane alone.
\<close>

theorem decodePanes_total:
  assumes "createRoutesManifest routes = Inr m"
  shows "(case decodePanes lc m loc fresh of
      Inl e \<Rightarrow> schema_error e \<or> defaultRoute m = Inl e
    | Inr ds \<Rightarrow> ds \<noteq> [] \<and> (\<forall>d \<in> set ds. \<exists>branch. resolveBranch m (l_route (en_location (dp_entry d))) = Inr branch \<and> branch \<noteq> [])) \<and>
    (paneRoutes lc m (splitPanePaths (x_path loc)) = Inr None \<longrightarrow> decodePanes lc m loc fresh = defaultPanes m fresh)"
proof -
  have ok: "manifest_ok m" by (rule createRoutesManifest_ok[OF assms])
  have dflt: "case defaultPanes m fresh of
      Inl e \<Rightarrow> schema_error e \<or> defaultRoute m = Inl e
    | Inr ds \<Rightarrow> ds \<noteq> [] \<and> (\<forall>d \<in> set ds. \<exists>branch. resolveBranch m (l_route (en_location (dp_entry d))) = Inr branch \<and> branch \<noteq> [])"
    using default_resolves[OF ok] by (cases "defaultRoute m") (auto simp: defaultPanes_def locationOf_def)
  let ?parts = "splitPanePaths (x_path loc)"
  consider (error) e where "paneRoutes lc m ?parts = Inl e"
    | (default) "paneRoutes lc m ?parts = Inr None \<or> paneRoutes lc m ?parts = Inr (Some [])"
    | (panes) rs where "paneRoutes lc m ?parts = Inr (Some rs)" "rs \<noteq> []"
    by (metis option.exhaust old.sum.exhaust)
  then show ?thesis
  proof cases
    case error
    then show ?thesis using paneRoutes_error by (simp add: decodePanes_def)
  next
    case default
    then have "decodePanes lc m loc fresh = defaultPanes m fresh" by (auto simp: decodePanes_def Let_def)
    then show ?thesis using dflt by simp
  next
    case panes
    define g where "g = decodePanes_pane m (parsePaneSearch (x_search loc)) (storedPanes (x_state loc) (length ?parts)) fresh"
    have d: "decodePanes lc m loc fresh = map_results g (List.enumerate 0 rs)"
      using panes by (simp add: decodePanes_def Let_def g_def)
    have r: "\<exists>branch. resolveBranch m (snd pr) = Inr branch \<and> branch \<noteq> []" if "pr \<in> set (List.enumerate 0 rs)" for pr
    proof -
      have "snd pr \<in> set (map snd (List.enumerate 0 rs))" using that unfolding set_map by (rule imageI)
      then show ?thesis using paneRoutes_resolve[OF ok panes(1)] by simp
    qed
    have route: "l_route (en_location (dp_entry x)) = snd pr" if "g pr = Inr x" for pr x
      using that by (auto simp: g_def decodePanes_pane_def locationOf_def bind_result_Inr Let_def split: prod.splits)
    show ?thesis
    proof (cases "map_results g (List.enumerate 0 rs)")
      case (Inl e)
      obtain pr where pr: "pr \<in> set (List.enumerate 0 rs)" "g pr = Inl e" using map_results_Inl[OF Inl] by blast
      obtain branch where "resolveBranch m (snd pr) = Inr branch" using r[OF pr(1)] by blast
      from decodePanes_pane_error[OF leaf_of_branch[OF this] pr(2)[unfolded g_def]] have "schema_error e" .
      then show ?thesis using Inl d panes by simp
    next
      case (Inr ds)
      then have l: "list_all2 (\<lambda>pr x. g pr = Inr x) (List.enumerate 0 rs) ds" by (simp add: map_results_Inr)
      have "\<exists>branch. resolveBranch m (l_route (en_location (dp_entry x))) = Inr branch \<and> branch \<noteq> []" if x: "x \<in> set ds" for x
      proof -
        obtain pr where pr: "pr \<in> set (List.enumerate 0 rs)" "g pr = Inr x" using list_all2_elem[OF l x] by blast
        show ?thesis using r[OF pr(1)] route[OF pr(2)] by simp
      qed
      moreover have "ds \<noteq> []" using list_all2_lengthD[OF l] panes(2) by auto
      ultimately show ?thesis using Inr d panes by auto
    qed
  qed
qed

end
