(* ===== verification/Route_Targets.thy ===== *)
theory Route_Targets
  imports Route_Search
begin

text \<open>
  Navigation targets, \<open>routes/targets.ts\<close>: a path, a location or a route with parameters is
  resolved within one pane to a location of the route table.
\<close>

section \<open>Paths\<close>

definition splitTarget :: "ustring \<Rightarrow> ustring \<times> ustring" where
  "splitTarget to =
    (let withoutHash = takeWhile (\<lambda>c. c \<noteq> 35) to
     in (takeWhile (\<lambda>c. c \<noteq> 63) withoutHash, dropWhile (\<lambda>c. c \<noteq> 63) withoutHash))"

definition formatMatches :: "routes_manifest \<Rightarrow> route_match list \<Rightarrow> route_error + ustring list" where
  "formatMatches routes matches = (if matches = [] then Inr [] else formatPane routes matches)"

definition baseSegments ::
  "routes_manifest \<Rightarrow> split_location option \<Rightarrow> nat option \<Rightarrow> route_error + ustring list" where
  "baseSegments routes current depth =
    (case current of
       None \<Rightarrow> Inr []
     | Some c \<Rightarrow> formatMatches routes (take (case depth of None \<Rightarrow> length (l_route c) | Some d \<Rightarrow> d) (l_route c)))"

definition walkPath_step :: "ustring \<Rightarrow> ustring list \<Rightarrow> ustring list" where
  "walkPath_step part segments =
    (if part = [] \<or> part = u ''.'' then segments
     else if part = u ''..'' then butlast segments
     else segments @ [decodeSegment part])"

definition walkPath :: "ustring list \<Rightarrow> ustring \<Rightarrow> ustring list" where
  "walkPath base path = fold walkPath_step (split_on slash path) base"

section \<open>Routes\<close>

record resolved_route =
  rr_route :: route_state
  rr_search :: "search_state option"

definition resolvePath ::
  "(ustring \<Rightarrow> ustring) \<Rightarrow> routes_manifest \<Rightarrow> split_location option \<Rightarrow> ustring \<Rightarrow> nat option \<Rightarrow>
   route_error + resolved_route option" where
  "resolvePath toLower routes current to depth =
    (case splitTarget to of (path, search) \<Rightarrow>
      bind_result (if take 1 path = [slash] then Inr [] else baseSegments routes current depth) (\<lambda>base.
      bind_result (decodePane toLower routes (walkPath base path)) (\<lambda>route.
        Inr (case route of
               None \<Rightarrow> None
             | Some r \<Rightarrow> Some \<lparr>rr_route = r, rr_search = map_of (parsePaneSearch search) 0\<rparr>))))"

definition canonicalTarget ::
  "(ustring \<Rightarrow> ustring) \<Rightarrow> routes_manifest \<Rightarrow> route_match list \<Rightarrow> route_error + resolved_route option" where
  "canonicalTarget toLower routes matches =
    bind_result (canonicalRoute toLower routes matches) (\<lambda>route.
      Inr (map_option (\<lambda>r. \<lparr>rr_route = r, rr_search = None\<rparr>) route))"

definition inheritedParams :: "route_match option \<Rightarrow> ustring \<Rightarrow> route_params" where
  "inheritedParams m i = (case m of None \<Rightarrow> [] | Some x \<Rightarrow> if m_id x = i then m_params x else [])"

definition spread_params :: "route_params \<Rightarrow> route_params \<Rightarrow> route_params" where
  "spread_params inherited explicit = fold (\<lambda>(k, v). AList.update k v) explicit inherited"

definition resolveRoute ::
  "(ustring \<Rightarrow> ustring) \<Rightarrow> routes_manifest \<Rightarrow> split_location option \<Rightarrow> ustring \<Rightarrow> js_value \<Rightarrow>
   route_error + resolved_route option" where
  "resolveRoute toLower routes current i ps =
    (case map_of (byId routes) i of
       None \<Rightarrow> Inr None
     | Some node \<Rightarrow>
         let explicit = (case ps of Obj r \<Rightarrow> r | _ \<Rightarrow> []);
             currentMatches = (case current of None \<Rightarrow> [] | Some c \<Rightarrow> l_route c);
             matches = map (\<lambda>(index, ancestor).
               \<lparr>m_id = ancestor,
                m_params = spread_params (inheritedParams
                  (if index < length currentMatches then Some (currentMatches ! index) else None) ancestor) explicit\<rparr>)
               (List.enumerate 0 (n_branch node))
         in canonicalTarget toLower routes matches)"

definition resolveLocation ::
  "(ustring \<Rightarrow> ustring) \<Rightarrow> routes_manifest \<Rightarrow> split_location \<Rightarrow> resolved_route option" where
  "resolveLocation toLower routes location =
    (case canonicalRoute toLower routes (l_route location) of
       Inr (Some r) \<Rightarrow> Some \<lparr>rr_route = r,
         rr_search = Some (case l_search location of None \<Rightarrow> [] | Some s \<Rightarrow> s)\<rparr>
     | _ \<Rightarrow> None)"

datatype navigation_target =
    ToPath ustring
  | ToLocation split_location
  | ToRoute ustring js_value \<comment> \<open>id of the route, parameters\<close>
  | ToOther

fun resolveDestination ::
  "(ustring \<Rightarrow> ustring) \<Rightarrow> routes_manifest \<Rightarrow> split_location option \<Rightarrow> navigation_target \<Rightarrow> nat option \<Rightarrow>
   route_error + resolved_route option" where
  "resolveDestination toLower routes current (ToPath to) depth = resolvePath toLower routes current to depth"
| "resolveDestination toLower routes current (ToLocation l) depth = Inr (resolveLocation toLower routes l)"
| "resolveDestination toLower routes current (ToRoute i ps) depth = resolveRoute toLower routes current i ps"
| "resolveDestination toLower routes current ToOther depth = Inr None"

section \<open>Search\<close>

definition carriedSearch ::
  "routes_manifest \<Rightarrow> split_location option \<Rightarrow> resolved_route \<Rightarrow> route_error + search_state option" where
  "carriedSearch routes current resolved =
    (case rr_search resolved of
       Some s \<Rightarrow> Inr (Some s)
     | None \<Rightarrow>
         (case current of
            None \<Rightarrow> Inr None
          | Some c \<Rightarrow>
              bind_result (searchRootId routes (l_route c)) (\<lambda>a.
              bind_result (searchRootId routes (rr_route resolved)) (\<lambda>b.
                Inr (if a = b then l_search c else None)))))"

definition resolveTarget ::
  "(ustring \<Rightarrow> ustring) \<Rightarrow> routes_manifest \<Rightarrow> split_location option \<Rightarrow> navigation_target \<Rightarrow> nat option \<Rightarrow>
   (ustring \<times> search_update) list \<Rightarrow> route_error + split_location option" where
  "resolveTarget toLower routes current to depth search =
    bind_result (resolveDestination toLower routes current to depth) (\<lambda>destination.
      case destination of
        None \<Rightarrow> Inr None
      | Some resolved \<Rightarrow>
          bind_result (carriedSearch routes current resolved) (\<lambda>carried.
          bind_result (updateSearchState (locationOf (rr_route resolved) carried) search) (\<lambda>updated.
          bind_result (filterRouteSearch routes (l_route updated) (l_search updated)) (\<lambda>owned.
            Inr (Some (locationOf (l_route updated) owned))))))"

section \<open>What a target resolves to\<close>

lemma canonicalRoute_decoded:
  "canonicalRoute lc m r = Inr (Some d) \<Longrightarrow> \<exists>segs. decodePane lc m segs = Inr (Some d)"
  by (auto simp: canonicalRoute_def bind_result_Inr split: option.splits if_splits)

lemma resolveDestination_decoded:
  "resolveDestination lc m c to depth = Inr (Some r) \<Longrightarrow> \<exists>segs. decodePane lc m segs = Inr (Some (rr_route r))"
proof (induction lc m c to depth rule: resolveDestination.induct)
  case (1 lc m c to depth)
  then obtain a path y where "decodePane lc m (walkPath a path) = Inr (Some y)" "rr_route r = y"
    by (auto simp: resolvePath_def bind_result_Inr split: prod.splits option.splits)
  then show ?case by blast
next
  case (2 lc m c l depth)
  then show ?case using canonicalRoute_decoded
    by (fastforce simp: resolveLocation_def split: sum.splits option.splits)
next
  case (3 lc m c i ps depth)
  then show ?case using canonicalRoute_decoded
    by (fastforce simp: resolveRoute_def canonicalTarget_def Let_def bind_result_Inr split: option.splits)
qed simp

lemma updateSearchState_route: "updateSearchState l ups = Inr l' \<Longrightarrow> l_route l' = l_route l"
  by (induction l ups rule: updateSearchState.induct)
    (auto simp: bind_result_Inr withSearchNamespace_def locationOf_def Let_def)

lemma filterRouteSearch_owned:
  assumes "filterRouteSearch m route s = Inr (Some t)"
  shows "t \<noteq> [] \<and> (\<forall>ns \<in> fst ` set t. ownsNamespace m route ns = Inr True)"
proof -
  obtain leaf r where leaf: "leafNode m route = Inr leaf"
    and t: "t = (case n_search leaf of AnySearch \<Rightarrow> r | Owned names \<Rightarrow> pickNamespaces r names)" "t \<noteq> []"
    using assms by (auto simp: filterRouteSearch_def Let_def bind_result_Inr split: option.splits if_splits)
  have "ownsNamespace m route ns = Inr True" if "ns \<in> fst ` set t" for ns
    using that leaf t(1) by (cases "n_search leaf") (auto simp: ownsNamespace_def pickNamespaces_def)
  then show ?thesis using t(2) by blast
qed

lemma resolveTarget_Some:
  assumes "resolveTarget lc m current to depth ups = Inr (Some l)"
  shows "\<exists>r carried updated. resolveDestination lc m current to depth = Inr (Some r) \<and>
    carriedSearch m current r = Inr carried \<and> updateSearchState (locationOf (rr_route r) carried) ups = Inr updated \<and>
    l_route l = rr_route r \<and> filterRouteSearch m (l_route l) (l_search updated) = Inr (l_search l)"
proof -
  obtain r carried updated owned where r: "resolveDestination lc m current to depth = Inr (Some r)"
    "carriedSearch m current r = Inr carried" "updateSearchState (locationOf (rr_route r) carried) ups = Inr updated"
    "filterRouteSearch m (l_route updated) (l_search updated) = Inr owned" "l = locationOf (l_route updated) owned"
    using assms by (auto simp: resolveTarget_def bind_result_Inr split: option.splits)
  then have "l_route l = rr_route r" using updateSearchState_route[OF r(3)] by (simp add: locationOf_def)
  then show ?thesis using r by (auto simp: locationOf_def)
qed

text \<open>
  C11.  Where a navigation target resolves to, the route resolves in the table, is one that
  some segments decode to, and keeps only search namespaces the route owns; an empty search
  state is never kept.
\<close>

theorem resolveTarget_owned:
  assumes "createRoutesManifest routes = Inr m" and "resolveTarget lc m current to depth ups = Inr (Some l)"
  shows "(\<exists>segs. decodePane lc m segs = Inr (Some (l_route l))) \<and>
    (\<exists>branch. resolveBranch m (l_route l) = Inr branch \<and> branch \<noteq> []) \<and>
    l_search l \<noteq> Some [] \<and>
    (\<forall>s ns. l_search l = Some s \<longrightarrow> ns \<in> fst ` set s \<longrightarrow> ownsNamespace m (l_route l) ns = Inr True)"
proof -
  obtain r and updated :: split_location where r: "resolveDestination lc m current to depth = Inr (Some r)" "l_route l = rr_route r"
    and f: "filterRouteSearch m (l_route l) (l_search updated) = Inr (l_search l)"
    using resolveTarget_Some[OF assms(2)] by blast
  obtain segs where segs: "decodePane lc m segs = Inr (Some (l_route l))"
    using resolveDestination_decoded[OF r(1)] r(2) by auto
  then have "\<exists>branch. resolveBranch m (l_route l) = Inr branch \<and> branch \<noteq> []"
    using decodeAmong_resolves[OF createRoutesManifest_ok[OF assms(1)], of "branches m"] by (fastforce simp: decodePane_def)
  then show ?thesis using segs f filterRouteSearch_owned[of m "l_route l" "l_search updated"] by (cases "l_search l") auto
qed

text \<open>
  A navigation to a route of the table, without search updates, carries the search
  state of the pane over exactly when both routes have the same root for search: then it keeps
  the namespaces the new route owns, and otherwise it keeps none.
\<close>

theorem search_carried_within_root:
  assumes "resolveTarget lc m (Some c) (ToRoute i ps) depth [] = Inr (Some l)"
  shows "if searchRootId m (l_route c) = searchRootId m (l_route l)
    then filterRouteSearch m (l_route l) (l_search c) = Inr (l_search l) else l_search l = None"
proof -
  obtain r carried and updated :: split_location where d: "resolveRoute lc m (Some c) i ps = Inr (Some r)" "l_route l = rr_route r"
    and c: "carriedSearch m (Some c) r = Inr carried" and "updateSearchState (locationOf (rr_route r) carried) [] = Inr updated"
    and f: "filterRouteSearch m (l_route l) (l_search updated) = Inr (l_search l)"
    using resolveTarget_Some[OF assms] unfolding resolveDestination.simps by blast
  then have u: "l_search updated = carried" by (auto simp: locationOf_def)
  have "rr_search r = None" using d(1)
    by (auto simp: resolveRoute_def canonicalTarget_def Let_def bind_result_Inr split: option.splits)
  then obtain a b where "searchRootId m (l_route c) = Inr a" "searchRootId m (l_route l) = Inr b"
    "carried = (if a = b then l_search c else None)"
    using c d(2) by (auto simp: carriedSearch_def bind_result_Inr)
  then show ?thesis using f u by (auto simp: filterRouteSearch_def)
qed

end
