(* ===== verification/Route_Examples.thy ===== *)
theory Route_Examples
  imports Route_Url Route_Targets
begin

text \<open>
  The properties of the routes at a small table of routes: a layout \<open>app\<close> with a home page at the
  empty path, a list, and a document by its id that owns the search namespace \<open>view\<close> and claims the document.  Two
  boundary cases show what the URL cannot hold.
\<close>

section \<open>The table\<close>

abbreviation plain_route :: "string \<Rightarrow> string option \<Rightarrow> route_def list \<Rightarrow> search_decl option \<Rightarrow> route_def" where
  "plain_route i path children search \<equiv>
     RouteDef (u i) (map_option u path) None children None None None search None None None None"

text \<open>A document is the resource that its page shows, so its page claims it.\<close>

definition doc_claim :: "route_params \<Rightarrow> (ustring \<times> ustring) option" where
  "doc_claim ps = (case map_of ps (u ''id'') of Some (Str s) \<Rightarrow> Some (u ''doc'', s) | _ \<Rightarrow> None)"

abbreviation doc_route :: route_def where
  "doc_route \<equiv>
     RouteDef (u ''doc'') (Some (u '':id'')) None [] None None None (Some (SearchNames [u ''view''])) None (Some doc_claim) None None"

definition example_routes :: split_routes where
  "example_routes =
    \<lparr>definitions =
       [plain_route ''app'' None
         [plain_route ''home'' (Some '''') [] None,
          plain_route ''list'' (Some ''list'') [] None,
          doc_route] None],
     r_defaultRoute = Obj [(u ''matches'', Arr [Obj [(u ''id'', Str (u ''app'')), (u ''params'', Obj [])],
                                             Obj [(u ''id'', Str (u ''list'')), (u ''params'', Obj [])]])],
     r_globalSearch = None\<rparr>"

definition example_node :: "route_def \<Rightarrow> string list \<Rightarrow> path_token list \<Rightarrow> owned_search \<Rightarrow> route_node" where
  "example_node d ancestors tokens search =
    \<lparr>n_definition = d, n_parent = (if ancestors = [] then None else Some (u (last ancestors))),
     n_branch = map u ancestors @ [rd_id d], n_pattern = \<lparr>canonical = tokens, alternatives = [tokens]\<rparr>,
     n_search = search, n_state = None, n_externalSearch = []\<rparr>"

definition app_node :: route_node where
  "app_node = example_node (hd (definitions example_routes)) [] [] AnySearch"

definition home_node :: route_node where
  "home_node = example_node (plain_route ''home'' (Some '''') [] None) [''app''] [] AnySearch"

definition list_node :: route_node where
  "list_node = example_node (plain_route ''list'' (Some ''list'') [] None) [''app''] [Static (u ''list'')] AnySearch"

definition doc_node :: route_node where
  "doc_node = example_node (doc_route) [''app'']
     [Param (u ''id'') False] (Owned [u ''view''])"

definition example_manifest :: routes_manifest where
  "example_manifest =
    \<lparr>byId = [(u ''app'', app_node), (u ''home'', home_node), (u ''list'', list_node), (u ''doc'', doc_node)],
     branches =
       [\<lparr>b_nodes = [app_node, list_node], b_patterns = [[], [Static (u ''list'')]], b_score = 4, b_order = 1\<rparr>,
        \<lparr>b_nodes = [app_node, doc_node], b_patterns = [[], [Param (u ''id'') False]], b_score = 3, b_order = 2\<rparr>,
        \<lparr>b_nodes = [app_node, home_node], b_patterns = [[], []], b_score = 0, b_order = 0\<rparr>],
     globalSearch = [],
     defaultRoute_value = r_defaultRoute example_routes\<rparr>"

lemmas example_nodes = app_node_def home_node_def list_node_def doc_node_def example_node_def

lemmas name_defs = isSafeName_def js_length_def units_def utf16_def name_start_def alphanumeric_def

lemmas compile_defs = createRoutesManifest_def assertGlobalSearch_def assertNewRouteId_def name_defs
  assertLayoutHasChildren_def isLayout_def claimSiblingPaths_def createNode_def compileRoutePattern_def
  branchSearch_def ownNamespaces_def searchParent_def tokenize_def splitSegments_def trim_slashes_def segmentToken_def
  paramToken_def assertCatchAllLast_def find_index_def expandOptionals_def SPLIT_PATH_SEPARATOR_def
  compileBranches_def specificity_def patternKey_def assertSafeSearchName_def

lemma example_compiles: "createRoutesManifest example_routes = Inr example_manifest"
  by (simp add: compile_defs example_manifest_def example_nodes example_routes_def Let_def)

definition app_match :: "string \<Rightarrow> route_params \<Rightarrow> route_state" where
  "app_match i ps = [\<lparr>m_id = u ''app'', m_params = []\<rparr>, \<lparr>m_id = u i, m_params = ps\<rparr>]"

lemmas decode_defs = decodePane_def decodeFirstPane_def matchBranch_def matchTokens_def params_parse_def
  validateRouteParams_def isNestedCatchAll_def example_manifest_def example_nodes example_routes_def app_match_def

lemma decode_list: "decodePane id example_manifest [u ''list''] = Inr (Some (app_match ''list'' []))"
  by (simp add: decode_defs)

lemma decode_doc: "decodePane id example_manifest [u ''a''] = Inr (Some (app_match ''doc'' [(u ''id'', Str (u ''a''))]))"
  by (simp add: decode_defs)

lemma decodeFirst_doc: "decodeFirstPane id example_manifest [u ''a''] = Inr (Some (app_match ''doc'' [(u ''id'', Str (u ''a''))]))"
  by (simp add: decode_defs)

lemma resolve_list: "resolveBranch example_manifest (app_match ''list'' ps) = Inr [app_node, list_node]"
  by (simp add: resolveBranch_def branch_of_def map_filter_simps ids_of_def example_manifest_def example_nodes example_routes_def app_match_def)

lemma resolve_doc: "resolveBranch example_manifest (app_match ''doc'' ps) = Inr [app_node, doc_node]"
  by (simp add: resolveBranch_def branch_of_def map_filter_simps ids_of_def example_manifest_def example_nodes example_routes_def app_match_def)

lemma resolve_home: "resolveBranch example_manifest (app_match ''home'' ps) = Inr [app_node, home_node]"
  by (simp add: resolveBranch_def branch_of_def map_filter_simps ids_of_def example_manifest_def example_nodes example_routes_def app_match_def)

lemmas format_defs = formatPane_def formatTokens_def params_serialize_def formatParam_def param_value_def

lemma format_list: "formatPane example_manifest (app_match ''list'' []) = Inr [u ''list'']"
  by (simp add: format_defs resolve_list) (simp add: app_match_def formatTokens_def params_serialize_def example_nodes example_routes_def)

lemma format_doc: "formatPane example_manifest (app_match ''doc'' [(u ''id'', Str s)]) = Inr [s]"
  by (simp add: format_defs resolve_doc)
    (simp add: app_match_def formatTokens_def params_serialize_def formatParam_def param_value_def example_nodes example_routes_def)

lemma format_home: "formatPane example_manifest (app_match ''home'' []) = Inr []"
  by (simp add: format_defs resolve_home) (simp add: app_match_def formatTokens_def params_serialize_def example_nodes example_routes_def)

definition example_pane :: "string \<Rightarrow> route_state \<Rightarrow> search_state option \<Rightarrow> encoded_pane" where
  "example_pane i route search =
    \<lparr>ep_paneId = u i, ep_entry = \<lparr>en_id = u i, en_location = locationOf route search, en_state = Undefined\<rparr>\<rparr>"

definition example_panes :: "encoded_pane list" where
  "example_panes =
    [example_pane ''p'' (app_match ''doc'' [(u ''id'', Str (u ''a''))]) (Some [(u ''view'', [(u ''q'', [u ''x''])])]),
     example_pane ''q'' (app_match ''list'' []) None]"

definition previous_location :: external_location where
  "previous_location = \<lparr>x_path = u ''/list'', x_search = [], x_hash = u ''#top'', x_state = Undefined\<rparr>"

lemma leaf_doc: "leafNode example_manifest (app_match ''doc'' ps) = Inr doc_node"
  by (simp add: leafNode_def resolve_doc)

lemma leaf_list: "leafNode example_manifest (app_match ''list'' ps) = Inr list_node"
  by (simp add: leafNode_def resolve_list)

lemma leaf_home: "leafNode example_manifest (app_match ''home'' ps) = Inr home_node"
  by (simp add: leafNode_def resolve_home)

lemmas pane_defs = example_panes_def example_pane_def locationOf_def previous_location_def

lemmas formats = format_doc[simplified] format_list format_home
lemmas leaves = leaf_doc leaf_list leaf_home

lemma example_path: "panesPath example_manifest (map ep_entry example_panes) = Inr (u ''/a/~/list'')"
  by (simp add: panesPath_def formatPanePath_def pane_defs formats encodeSegment_def encodeURIComponent_def encode_char_def
      scalar_def SPLIT_PATH_SEPARATOR_def unreserved_def alphanumeric_def)

lemma example_fields [simp]:
  "globalSearch example_manifest = []" "n_search doc_node = Owned [u ''view'']" "n_search list_node = AnySearch"
  "n_externalSearch doc_node = []" "n_externalSearch list_node = []" "n_externalSearch home_node = []"
  by (simp_all add: example_manifest_def example_nodes)

lemmas query_defs = query_new_def query_append_def query_sort_def query_toString_def form_parse_def usv_def
  form_encode_def scalar_def form_char_def form_safe_def alphanumeric_def

lemma example_search: "panesSearch example_manifest (map ep_entry example_panes) [] = Inr (u ''?s0.view.q=x'')"
  by (simp add: panesSearch_def pane_defs externalSearchKeys_def leaves filterRouteSearch_def
     query_defs replacePaneSearchParams_def kept_external_def pickNamespaces_def appendPaneSearch_def
     appendNamespaceParams_def sorted_keys_def assertSafeSearchName_def name_defs own_value_def show_nat.simps)

lemma example_encodes: "\<exists>loc. encodePanes example_manifest example_panes previous_location False = Inr loc"
  by (simp add: encodePanes_def example_path example_search previous_location_def[of] Let_def)

lemma example_segments: "map (pane_segments example_manifest) example_panes = [[u ''a''], [u ''list'']]"
  by (simp add: pane_segments_def pane_defs formats)

lemma example_url_panes: "\<forall>p \<in> set example_panes. url_pane id example_manifest p \<and>
    m_id (hd (pane_route p)) = m_id (hd (pane_route (hd example_panes)))"
  using decode_doc decode_list
  by (simp add: url_pane_def pane_segments_def pane_defs formats parseRouteEntryState_def filterRouteSearch_def leaves
    pickNamespaces_def search_ok_def wf_string_def scalar_def name_defs MAX_SEARCH_VALUE_LENGTH_def)
   (simp add: app_match_def)

lemma example_plain: "plain_table example_manifest"
  by (simp add: plain_table_def plain_node_def example_manifest_def example_nodes example_routes_def)

section \<open>The properties there\<close>

lemmas pattern_defs = compileRoutePattern_def tokenize_def splitSegments_def trim_slashes_def segmentToken_def
  paramToken_def name_start_def alphanumeric_def assertCatchAllLast_def find_index_def expandOptionals_def
  SPLIT_PATH_SEPARATOR_def appendPrefixes_def

theorem pattern_matches_what_it_formats_witness:
  "\<exists>pat. compileRoutePattern (Some (u ''a/:b?/:c?'')) None = Inr pat \<and>
     (\<exists>ts \<in> set (alternatives pat). \<exists>qs. matchTokens id ts [u ''a'', u ''x''] 0 = Some (qs, 2))"
proof -
  let ?ps = "[(u ''b'', Str (u ''x''))]"
  let ?a = "Static (u ''a'')" and ?b = "Param (u ''b'')" and ?c = "Param (u ''c'')"
  let ?pat = "\<lparr>canonical = [?a, ?b True, ?c True], alternatives = [[?a], [?a, ?b False], [?a, ?b False, ?c False]]\<rparr>"
  have c: "compileRoutePattern (Some (u ''a/:b?/:c?'')) None = Inr ?pat"
    by (simp add: pattern_defs)
  have f: "formatTokens (canonical ?pat) ?ps = Inr [u ''a'', u ''x'']"
    by (simp add: formatTokens_def formatParam_def param_value_def)
  have fits: "token_fits ?ps t \<or> (\<exists>n. t = Param n True \<and> \<not> given ?ps n)" if t: "t \<in> set (canonical ?pat)" for t
  proof -
    have "t = ?a \<or> t = ?b True \<or> t = ?c True" using t by (simp del: u_simps)
    moreover have "token_fits ?ps ?a" "token_fits ?ps (?b True)" "\<not> given ?ps (u ''c'')"
      by (simp_all add: given_def param_value_def)
    ultimately show ?thesis by blast
  qed
  have prefixed: "prefixed (given ?ps) (canonical ?pat)" by (simp add: given_def param_value_def)
  have "\<exists>ts \<in> set (alternatives ?pat). \<exists>qs. matchTokens id ts [u ''a'', u ''x''] 0 = Some (qs, length [u ''a'', u ''x''])"
    using pattern_matches_what_it_formats[OF c f fits prefixed, of id] by blast
  then show ?thesis using c unfolding numeral_2_eq_2 by (intro exI[of _ ?pat]) simp
qed

theorem decoded_routes_resolve_witness:
  "\<exists>branch. resolveBranch example_manifest (app_match ''list'' []) = Inr branch \<and>
     map n_id branch = ids_of (app_match ''list'' []) \<and> branch \<noteq> []"
  by (rule decoded_routes_resolve[OF example_compiles disjI1[OF decode_list]])

theorem decodePane_most_specific_witness:
  "\<exists>b. b \<in> set (branches example_manifest) \<and> matchBranch id b [u ''list''] = Inr (Some (app_match ''list'' []))"
  using mp[OF conjunct1[OF decodePane_most_specific[OF example_compiles, of id "[u ''list'']"]] decode_list] by blast

theorem url_roundtrip_witness:
  "\<exists>loc ds. encodePanes example_manifest example_panes previous_location False = Inr loc \<and>
     decodePanes id example_manifest loc (\<lambda>n. u ''new'') = Inr ds \<and> list_all2 (shows_pane example_manifest) example_panes ds"
proof -
  obtain loc where loc: "encodePanes example_manifest example_panes previous_location False = Inr loc"
    using example_encodes by blast
  have visited: "\<forall>p \<in> set example_panes. visited_pane id example_manifest p \<and>
      m_id (hd (pane_route p)) = m_id (hd (pane_route (hd example_panes)))"
    using example_url_panes example_plain unfolding visited_pane_def url_pane_def decoded_by_def by blast
  have first: "decoded_by (decodeFirstPane id example_manifest) example_manifest (pane_route (hd example_panes))"
    using decodeFirst_doc example_plain by (auto simp: decoded_by_def pane_defs)
  show ?thesis using loc url_roundtrip[OF example_compiles loc _ _ visited first, of "\<lambda>n. u ''new''"]
    by (simp add: pane_defs max_safe_integer_def)
qed

theorem decodePanes_total_witness:
  "(case decodePanes id example_manifest previous_location (\<lambda>n. u ''new'') of
      Inl e \<Rightarrow> schema_error e \<or> defaultRoute example_manifest = Inl e
    | Inr ds \<Rightarrow> ds \<noteq> [])"
  using decodePanes_total[OF example_compiles, of id previous_location "\<lambda>n. u ''new''"]
  by (auto split: sum.splits)

definition example_target :: "route_error + split_location option" where
  "example_target = resolveTarget id example_manifest
     (Some (locationOf (app_match ''doc'' [(u ''id'', Str (u ''a''))]) (Some [(u ''view'', [(u ''q'', [u ''x''])])])))
     (ToRoute (u ''doc'') (Obj [(u ''id'', Str (u ''b''))])) None []"

definition example_location :: split_location where
  "example_location = locationOf (app_match ''doc'' [(u ''id'', Str (u ''b''))]) (Some [(u ''view'', [(u ''q'', [u ''x''])])])"

lemma example_format:
  "formatPane example_manifest [\<lparr>m_id = u ''app'', m_params = ps\<rparr>, \<lparr>m_id = u ''doc'', m_params = [(u ''id'', Str s)]\<rparr>] = Inr [s]"
proof -
  have "resolveBranch example_manifest [\<lparr>m_id = u ''app'', m_params = ps\<rparr>, \<lparr>m_id = u ''doc'', m_params = [(u ''id'', Str s)]\<rparr>] =
      Inr [app_node, doc_node]"
    by (simp add: resolveBranch_def branch_of_def map_filter_simps ids_of_def example_manifest_def example_nodes example_routes_def)
  then show ?thesis by (simp add: format_defs example_nodes example_routes_def)
qed

lemma example_canonical:
  "canonicalRoute id example_manifest [\<lparr>m_id = u ''app'', m_params = [(u ''id'', Str (u ''b''))]\<rparr>,
      \<lparr>m_id = u ''doc'', m_params = [(u ''id'', Str (u ''b''))]\<rparr>] = Inr (Some (app_match ''doc'' [(u ''id'', Str (u ''b''))]))"
proof -
  have "decodePane id example_manifest [u ''b''] = Inr (Some (app_match ''doc'' [(u ''id'', Str (u ''b''))]))"
    by (simp add: decode_defs)
  then show ?thesis by (simp add: canonicalRoute_def example_format[simplified] sameMatchIds_def ids_of_def app_match_def)
qed

lemma example_root: "searchRootId example_manifest (app_match ''doc'' ps) = Inr (u ''doc'')"
  unfolding searchRootId_def resolve_doc bind_result_simps
  by (simp add: isLayout_def example_nodes example_routes_def app_match_def)

lemma example_destination:
  "resolveRoute id example_manifest (Some (locationOf (app_match ''doc'' [(u ''id'', Str (u ''a''))]) search))
     (u ''doc'') (Obj [(u ''id'', Str (u ''b''))]) =
   Inr (Some \<lparr>rr_route = app_match ''doc'' [(u ''id'', Str (u ''b''))], rr_search = None\<rparr>)"
proof -
  have "map_of (byId example_manifest) (u ''doc'') = Some doc_node" "n_branch doc_node = [u ''app'', u ''doc'']"
    by (simp_all add: example_manifest_def example_nodes)
  then show ?thesis using example_canonical
    by (simp add: resolveRoute_def canonicalTarget_def spread_params_def inheritedParams_def locationOf_def enumerate_eq_zip)
      (simp add: app_match_def)
qed

lemma example_target_resolves: "example_target = Inr (Some example_location)"
  using example_destination
  by (simp add: example_target_def example_location_def resolveTarget_def carriedSearch_def locationOf_def example_root
     filterRouteSearch_def leaves pickNamespaces_def)

theorem resolveTarget_owned_witness:
  "example_target = Inr (Some example_location) \<and>
     (\<exists>branch. resolveBranch example_manifest (l_route example_location) = Inr branch \<and> branch \<noteq> [])"
  using resolveTarget_owned[OF example_compiles example_target_resolves[unfolded example_target_def]] example_target_resolves
  by blast

theorem search_carried_within_root_witness:
  "filterRouteSearch example_manifest (l_route example_location) (Some [(u ''view'', [(u ''q'', [u ''x''])])]) =
     Inr (l_search example_location)"
  using search_carried_within_root[OF example_target_resolves[unfolded example_target_def]]
  by (simp add: locationOf_def example_location_def example_root)

section \<open>What a URL cannot hold\<close>

text \<open>
  A pane whose route has the empty path matches and formats to no segments, but the URL has no
  place for it: next to another pane it is dropped when the URL is read.  A parameter that is
  the empty string is accepted as canonical and is lost the same way.
\<close>

definition lost_panes :: "route_state \<Rightarrow> encoded_pane list" where
  "lost_panes route = [example_pane ''p'' route None, example_pane ''q'' (app_match ''list'' []) None]"

lemma decode_lost:
  assumes "route = app_match ''home'' [] \<or> route = app_match ''doc'' [(u ''id'', Str [])]"
  shows "canonicalRoute id example_manifest route = Inr (Some route)"
    and "formatPanePath example_manifest route = Inr [slash]"
    and "panesSearch example_manifest (map ep_entry (lost_panes route)) [] = Inr []"
proof -
  have f: "formatPane example_manifest (app_match ''doc'' [(u ''id'', Str [])]) = Inr [[]]" by (rule format_doc)
  have d: "decodePane id example_manifest [] = Inr (Some (app_match ''home'' []))"
    "decodePane id example_manifest [[]] = Inr (Some (app_match ''doc'' [(u ''id'', Str [])]))"
    by (simp_all add: decode_defs)
  show "canonicalRoute id example_manifest route = Inr (Some route)"
    using assms f d by (auto simp: canonicalRoute_def format_home sameMatchIds_def)
  show "formatPanePath example_manifest route = Inr [slash]"
    using assms f by (auto simp: formatPanePath_def format_home encodeSegment_def encodeURIComponent_def SPLIT_PATH_SEPARATOR_def)
  show "panesSearch example_manifest (map ep_entry (lost_panes route)) [] = Inr []"
    using assms by (auto simp: panesSearch_def lost_panes_def pane_defs externalSearchKeys_def leaves filterRouteSearch_def
     query_defs replacePaneSearchParams_def kept_external_def)
qed

theorem empty_segments_lost:
  "\<forall>route \<in> {app_match ''home'' [], app_match ''doc'' [(u ''id'', Str [])]}.
     canonicalRoute id example_manifest route = Inr (Some route) \<and>
     (\<exists>loc. encodePanes example_manifest (lost_panes route) previous_location False = Inr loc \<and>
        splitPanePaths (x_path loc) = [[u ''list'']])"
proof
  fix route assume "route \<in> {app_match ''home'' [], app_match ''doc'' [(u ''id'', Str [])]}"
  then have l: "route = app_match ''home'' [] \<or> route = app_match ''doc'' [(u ''id'', Str [])]" by blast
  have "panesPath example_manifest (map ep_entry (lost_panes route)) = Inr (u ''//~/list'')"
    using decode_lost(2)[OF l] by (simp add: panesPath_def lost_panes_def pane_defs)
      (simp add: formatPanePath_def format_list encodeSegment_def encodeURIComponent_def encode_char_def
        scalar_def SPLIT_PATH_SEPARATOR_def unreserved_def alphanumeric_def)
  moreover have "splitPanePaths (u ''//~/list'') = [[u ''list'']]"
    by (simp add: splitPanePaths_def splitSegments_def trim_slashes_def splitPanePaths_step_def SPLIT_PATH_SEPARATOR_def)
  ultimately show "canonicalRoute id example_manifest route = Inr (Some route) \<and>
     (\<exists>loc. encodePanes example_manifest (lost_panes route) previous_location False = Inr loc \<and>
        splitPanePaths (x_path loc) = [[u ''list'']])"
    using decode_lost(1,3)[OF l] by (simp add: encodePanes_def previous_location_def)
qed

end
