(* ===== verification/Machine.thy ===== *)
theory Machine
  imports Prelude
begin

text \<open>
  State machines as values, \<open>packages/machine/src/simulate.ts\<close> and \<open>types.ts\<close>: a definition maps a
  state and an event to a transition, or ignores the event; a simulation applies a list of
  events and collects the commands.  A definition, which the code keys by the tag of the state, is a
  function of the state.
\<close>

section \<open>Data\<close>

record ('s, 'c) transition =
  tr_state :: 's
  tr_commands :: "'c list" \<comment> \<open>no commands and an empty list are the same to every reader\<close>

type_synonym ('s, 'e, 'c) machine_def = "'s \<Rightarrow> 'e \<Rightarrow> ('s, 'c) transition option"

record ('s, 'e, 'c) simulation_step =
  st_from :: 's
  st_event :: 'e
  st_result :: "('s, 'c) transition option" \<comment> \<open>\<open>None\<close> for an ignored event\<close>

record ('s, 'e, 'c) simulation =
  sim_state :: 's
  sim_commands :: "'c list"
  sim_steps :: "('s, 'e, 'c) simulation_step list"

section \<open>Steps\<close>

definition machine_step :: "('s, 'e, 'c) machine_def \<Rightarrow> 's \<Rightarrow> 'e \<Rightarrow> ('s, 'c) transition option" where
  "machine_step def state event = def state event"

definition simulate_step ::
  "('s, 'e, 'c) machine_def \<Rightarrow> 'e \<Rightarrow> ('s, 'e, 'c) simulation \<Rightarrow> ('s, 'e, 'c) simulation" where
  "simulate_step def event sim =
    (let result = machine_step def (sim_state sim) event;
         sim1 = sim\<lparr>sim_steps := sim_steps sim @
           [\<lparr>st_from = sim_state sim, st_event = event, st_result = result\<rparr>]\<rparr>
     in case result of
          None \<Rightarrow> sim1
        | Some t \<Rightarrow> sim1\<lparr>sim_state := tr_state t, sim_commands := sim_commands sim1 @ tr_commands t\<rparr>)"

definition simulate :: "('s, 'e, 'c) machine_def \<Rightarrow> 's \<Rightarrow> 'e list \<Rightarrow> ('s, 'e, 'c) simulation" where
  "simulate def initial events =
    fold (simulate_step def) events \<lparr>sim_state = initial, sim_commands = [], sim_steps = []\<rparr>"

text \<open>The bound of \<open>create-machine.ts\<close> on the events of one synchronous drain.\<close>

definition MAX_CHAINED_DISPATCHES :: nat where
  "MAX_CHAINED_DISPATCHES = 1000"

section \<open>Invariants\<close>

lemma simulate_Nil [simp]:
  "sim_state (simulate def s []) = s" "sim_commands (simulate def s []) = []" "sim_steps (simulate def s []) = []"
  by (simp_all add: simulate_def)

lemma simulate_snoc: "simulate def s (evs @ [e]) = simulate_step def e (simulate def s evs)"
  by (simp add: simulate_def)

lemma simulate_snoc_state:
  "sim_state (simulate def s (evs @ [e])) =
     (case def (sim_state (simulate def s evs)) e of None \<Rightarrow> sim_state (simulate def s evs) | Some t \<Rightarrow> tr_state t)"
  "sim_commands (simulate def s (evs @ [e])) = sim_commands (simulate def s evs) @
     (case def (sim_state (simulate def s evs)) e of None \<Rightarrow> [] | Some t \<Rightarrow> tr_commands t)"
  by (simp_all add: simulate_snoc simulate_step_def machine_step_def Let_def split: option.splits)

lemma simulate_append:
  "sim_state (simulate d s (a @ b)) = sim_state (simulate d (sim_state (simulate d s a)) b) \<and>
   sim_commands (simulate d s (a @ b)) = sim_commands (simulate d s a) @ sim_commands (simulate d (sim_state (simulate d s a)) b)"
proof (induction b rule: rev_induct)
  case (snoc e b)
  then show ?case using simulate_snoc_state[of d s "a @ b" e] by (simp add: simulate_snoc_state split: option.splits)
qed simp

lemma simulate_Cons:
  assumes "d s e = Some t"
  shows "sim_state (simulate d s (e # es)) = sim_state (simulate d (tr_state t) es)"
    and "sim_commands (simulate d s (e # es)) = tr_commands t @ sim_commands (simulate d (tr_state t) es)"
  using simulate_append[of d s "[e]" es] simulate_snoc_state[of d s "[]" e] assms by simp_all

text \<open>
  What a machine keeps: a relation between the events so far, the commands so far and the
  state, that holds at the start and across every event, taken or ignored.
\<close>

locale machine_invariant =
  fixes def :: "('s, 'e, 'c) machine_def" and initial :: 's
    and inv :: "'e list \<Rightarrow> 'c list \<Rightarrow> 's \<Rightarrow> bool"
  assumes inv_initial: "inv [] [] initial"
    and inv_taken: "inv evs cs s \<Longrightarrow> def s e = Some t \<Longrightarrow> inv (evs @ [e]) (cs @ tr_commands t) (tr_state t)"
    and inv_ignored: "inv evs cs s \<Longrightarrow> def s e = None \<Longrightarrow> inv (evs @ [e]) cs s"
begin

lemma simulate_inv: "inv evs (sim_commands (simulate def initial evs)) (sim_state (simulate def initial evs))"
proof (induction evs rule: rev_induct)
  case (snoc e evs)
  then show ?case
    using inv_taken[OF snoc, of e] inv_ignored[OF snoc, of e]
    by (auto simp: simulate_snoc_state split: option.splits)
qed (simp add: inv_initial)

end

end
