(* ===== verification/Router_Run.thy ===== *)
theory Router_Run
  imports Machine "HOL-Library.Sublist"
begin

text \<open>
  One navigation at a time, \<open>apps/web/src/lib/split-router/router/run.ts\<close>: guards, then middleware,
  then preload, then the commit; a new navigation replaces the one in flight.  What a
  navigation is and the entries it shows are type parameters.
\<close>

section \<open>Data\<close>

datatype cancel_reason = Refused | Cancelled | Superseded | Interrupted | Disposed | Failed

datatype ('n, 'x) run_state =
    Idle
  | Guards 'n
  | Middleware 'n
  | Preload 'n "'x list"

datatype ('n, 'x) run_event =
    Navigate 'n
  | Abort cancel_reason \<comment> \<open>superseded, interrupted or disposed\<close>
  | Allowed
  | RefusedByGuard
  | Resolved "'x list"
  | MiddlewareCancelled
  | Preloaded
  | PhaseFailed

datatype ('n, 'x) run_command =
    Commit 'n "'x list"
  | Cancel 'n cancel_reason

section \<open>Transitions\<close>

definition toIdle :: "('n, 'x) run_command \<Rightarrow> (('n, 'x) run_state, ('n, 'x) run_command) transition option" where
  "toIdle command = Some \<lparr>tr_state = Idle, tr_commands = [command]\<rparr>"

definition anyPhase ::
  "'n \<Rightarrow> ('n, 'x) run_event \<Rightarrow> (('n, 'x) run_state, ('n, 'x) run_command) transition option" where
  "anyPhase navigation e =
    (case e of
       Navigate n \<Rightarrow> Some \<lparr>tr_state = Guards n, tr_commands = [Cancel navigation Superseded]\<rparr>
     | Abort reason \<Rightarrow> toIdle (Cancel navigation reason)
     | PhaseFailed \<Rightarrow> toIdle (Cancel navigation Failed)
     | _ \<Rightarrow> None)"

definition guards ::
  "'n \<Rightarrow> ('n, 'x) run_event \<Rightarrow> (('n, 'x) run_state, ('n, 'x) run_command) transition option" where
  "guards navigation e =
    (case e of
       Allowed \<Rightarrow> Some \<lparr>tr_state = Middleware navigation, tr_commands = []\<rparr>
     | RefusedByGuard \<Rightarrow> toIdle (Cancel navigation Refused)
     | _ \<Rightarrow> anyPhase navigation e)"

definition middleware ::
  "'n \<Rightarrow> ('n, 'x) run_event \<Rightarrow> (('n, 'x) run_state, ('n, 'x) run_command) transition option" where
  "middleware navigation e =
    (case e of
       Resolved entries \<Rightarrow> Some \<lparr>tr_state = Preload navigation entries, tr_commands = []\<rparr>
     | MiddlewareCancelled \<Rightarrow> toIdle (Cancel navigation Cancelled)
     | _ \<Rightarrow> anyPhase navigation e)"

definition preload ::
  "'n \<Rightarrow> 'x list \<Rightarrow> ('n, 'x) run_event \<Rightarrow> (('n, 'x) run_state, ('n, 'x) run_command) transition option" where
  "preload navigation entries e =
    (case e of
       Preloaded \<Rightarrow> toIdle (Commit navigation entries)
     | _ \<Rightarrow> anyPhase navigation e)"

definition idle :: "('n, 'x) run_event \<Rightarrow> (('n, 'x) run_state, ('n, 'x) run_command) transition option" where
  "idle e = (case e of Navigate n \<Rightarrow> Some \<lparr>tr_state = Guards n, tr_commands = []\<rparr> | _ \<Rightarrow> None)"

fun runDef :: "(('n, 'x) run_state, ('n, 'x) run_event, ('n, 'x) run_command) machine_def" where
  "runDef Idle e = idle e"
| "runDef (Guards n) e = guards n e"
| "runDef (Middleware n) e = middleware n e"
| "runDef (Preload n entries) e = preload n entries e"

lemmas run_defs = idle_def guards_def middleware_def preload_def anyPhase_def toIdle_def

section \<open>Every navigation is settled once\<close>

fun started :: "('n, 'x) run_event list \<Rightarrow> 'n list" where
  "started [] = []"
| "started (Navigate n # es) = n # started es"
| "started (_ # es) = started es"

fun settled_navigation :: "('n, 'x) run_command \<Rightarrow> 'n" where
  "settled_navigation (Commit n _) = n"
| "settled_navigation (Cancel n _) = n"

fun in_flight :: "('n, 'x) run_state \<Rightarrow> 'n list" where
  "in_flight Idle = []"
| "in_flight (Guards n) = [n]"
| "in_flight (Middleware n) = [n]"
| "in_flight (Preload n _) = [n]"

text \<open>The reports that led to the phase a navigation is in.\<close>

fun passed :: "('n, 'x) run_state \<Rightarrow> ('n, 'x) run_event list" where
  "passed (Middleware n) = [Allowed]"
| "passed (Preload n entries) = [Allowed, Resolved entries]"
| "passed _ = []"

text \<open>The navigation was the last one started, and since then these reports came in this order.\<close>

definition reported :: "'n \<Rightarrow> ('n, 'x) run_event list \<Rightarrow> ('n, 'x) run_event list \<Rightarrow> bool" where
  "reported n reports evs \<longleftrightarrow> (\<exists>before since. evs = before @ Navigate n # since \<and> started since = [] \<and> subseq reports since)"

definition run_inv :: "('n, 'x) run_event list \<Rightarrow> ('n, 'x) run_command list \<Rightarrow> ('n, 'x) run_state \<Rightarrow> bool" where
  "run_inv evs cs s \<longleftrightarrow>
     started evs = map settled_navigation cs @ in_flight s \<and>
     (\<forall>n \<in> set (in_flight s). reported n (passed s) evs) \<and>
     (\<forall>n entries. Commit n entries \<in> set cs \<longrightarrow>
       (\<exists>before after. evs = before @ Preloaded # after \<and> reported n [Allowed, Resolved entries] before))"

lemma started_append: "started (a @ b) = started a @ started b"
  by (induction a rule: started.induct) simp_all

lemma reported_start: "reported n [] (evs @ [Navigate n])"
  unfolding reported_def by (intro exI[of _ evs] exI[of _ "[]"]) simp

lemma reported_snoc:
  assumes "reported n rs evs" and "started [e] = []"
  shows "reported n (rs @ [e]) (evs @ [e])" and "reported n rs (evs @ [e])"
proof -
  obtain b t where bt: "evs = b @ Navigate n # t" "started t = []" "subseq rs t" using assms(1) unfolding reported_def by blast
  have t: "started (t @ [e]) = []" using bt(2) assms(2) unfolding started_append by simp
  have "subseq (rs @ [e]) (t @ [e])" "subseq rs (t @ [e])"
    using bt(3) by (simp_all add: list_emb_append_mono subseq_rev_drop_many)
  then show "reported n (rs @ [e]) (evs @ [e])" "reported n rs (evs @ [e])"
    unfolding reported_def using bt(1) t by (intro exI[of _ b] exI[of _ "t @ [e]"]; simp)+
qed

lemma commit_later:
  "\<exists>before after. evs = before @ Preloaded # after \<and> P before \<Longrightarrow> \<exists>before after. evs @ [e] = before @ Preloaded # after \<and> P before"
  by (metis append_Cons append_assoc)

lemma taken_started:
  "runDef s e = Some t \<Longrightarrow> in_flight s @ started [e] = map settled_navigation (tr_commands t) @ in_flight (tr_state t)"
  by (cases s; cases e) (auto simp: run_defs)

lemma taken_phase:
  "runDef s e = Some t \<Longrightarrow> n \<in> set (in_flight (tr_state t)) \<Longrightarrow>
     e = Navigate n \<and> passed (tr_state t) = [] \<or>
     started [e] = [] \<and> n \<in> set (in_flight s) \<and> passed (tr_state t) = passed s @ [e]"
  by (cases s; cases e) (auto simp: run_defs)

lemma taken_commit:
  "runDef s e = Some t \<Longrightarrow> Commit n entries \<in> set (tr_commands t) \<Longrightarrow> e = Preloaded \<and> s = Preload n entries"
  by (cases s; cases e) (auto simp: run_defs)

lemma ignored_started: "runDef s e = None \<Longrightarrow> started [e] = []"
  by (cases s; cases e) (auto simp: run_defs)

interpretation run: machine_invariant runDef Idle run_inv
proof
  show "run_inv [] [] Idle" by (simp add: run_inv_def)
next
  fix evs cs s e t assume inv: "run_inv evs cs s" and t: "runDef s e = Some t"
  have "started (evs @ [e]) = map settled_navigation (cs @ tr_commands t) @ in_flight (tr_state t)"
    using inv taken_started[OF t] unfolding started_append run_inv_def by simp
  moreover have "reported n (passed (tr_state t)) (evs @ [e])" if "n \<in> set (in_flight (tr_state t))" for n
    using taken_phase[OF t that] reported_start[of n evs] reported_snoc(1)[of n "passed s" evs e] inv
    unfolding run_inv_def by auto
  moreover have "\<exists>before after. evs @ [e] = before @ Preloaded # after \<and> reported n [Allowed, Resolved entries] before"
    if "Commit n entries \<in> set (cs @ tr_commands t)" for n entries
  proof (cases "Commit n entries \<in> set cs")
    case True
    then have "\<exists>before after. evs = before @ Preloaded # after \<and> reported n [Allowed, Resolved entries] before"
      using inv unfolding run_inv_def by blast
    then show ?thesis by (rule commit_later)
  next
    case False
    then have "e = Preloaded" "s = Preload n entries" using taken_commit[OF t] that by auto
    moreover from this have "reported n [Allowed, Resolved entries] evs" using inv unfolding run_inv_def by simp
    ultimately show ?thesis by blast
  qed
  ultimately show "run_inv (evs @ [e]) (cs @ tr_commands t) (tr_state t)" unfolding run_inv_def by blast
next
  fix evs cs s e assume inv: "run_inv evs cs s" and i: "runDef s e = None"
  have "started (evs @ [e]) = map settled_navigation cs @ in_flight s"
    using inv ignored_started[OF i] unfolding started_append run_inv_def by simp
  moreover have "reported n (passed s) (evs @ [e])" if "n \<in> set (in_flight s)" for n
    using reported_snoc(2)[OF _ ignored_started[OF i]] inv that unfolding run_inv_def by blast
  moreover have "\<exists>before after. evs @ [e] = before @ Preloaded # after \<and> reported n [Allowed, Resolved entries] before"
    if "Commit n entries \<in> set cs" for n entries
    by (rule commit_later) (use inv that in \<open>unfold run_inv_def, blast\<close>)
  ultimately show "run_inv (evs @ [e]) cs s" unfolding run_inv_def by blast
qed

text \<open>
  C25.  Over any sequence of events the navigations that were started are settled exactly once and in
  order: those of the commands so far, each a commit or a cancellation, followed by the one in
  flight.  A navigation is committed only with the entries that middleware resolved, after its
  guards allowed it and its preload finished, and while no other navigation was started.
\<close>

theorem run_settles_once:
  "started evs = map settled_navigation (sim_commands (simulate runDef Idle evs)) @ in_flight (sim_state (simulate runDef Idle evs)) \<and>
   (\<forall>n entries. Commit n entries \<in> set (sim_commands (simulate runDef Idle evs)) \<longrightarrow>
     (\<exists>before after. evs = before @ Preloaded # after \<and> reported n [Allowed, Resolved entries] before))"
  using run.simulate_inv[of evs] unfolding run_inv_def by blast

theorem run_settles_once_witness:
  "started [Navigate (1::nat), Allowed, Navigate 2, Allowed, Resolved [''e''], Preloaded, Navigate 3] =
     map settled_navigation [Cancel 1 Superseded, Commit 2 [''e'']] @ [3]"
proof -
  let ?evs = "[Navigate (1::nat), Allowed, Navigate 2, Allowed, Resolved [''e''], Preloaded, Navigate 3]"
  have "sim_commands (simulate runDef Idle ?evs) = [Cancel 1 Superseded, Commit 2 [''e'']]"
    "in_flight (sim_state (simulate runDef Idle ?evs)) = [3]"
    by (simp_all add: simulate_def simulate_step_def machine_step_def run_defs Let_def)
  then show ?thesis using run_settles_once[of ?evs] by simp
qed

end
