(* ===== verification/Url_Gate.thy ===== *)
theory Url_Gate
  imports Router_Run "HOL-Library.Multiset"
begin

text \<open>
  Whether pane actions may run, \<open>apps/web/src/lib/split-router/router/url-gate.ts\<close>: a URL navigation
  closes the gate, and when it is turned down the URLs it and the navigations it replaced landed
  on are put back one at a time.
\<close>

section \<open>Data\<close>

datatype url_outcome = Committed | Ended cancel_reason

datatype 'n gate_state =
    GateOpen
  | Navigating 'n bool "'n list" \<comment> \<open>navigation, whether blocking, those it replaced, oldest first\<close>
  | Reverting "'n list" \<comment> \<open>the first one's revert is in flight\<close>
  | GateDisposed

datatype 'n gate_event =
    Start 'n bool
  | Settled 'n url_outcome
  | Action
  | RevertLanded
  | Dispose

datatype 'n gate_command =
    Run 'n
  | AbortRun 'n cancel_reason
  | Revert 'n
  | CancelPaneRuns
  | Opened

type_synonym 'n gate_result = "('n gate_state, 'n gate_command) transition option"

section \<open>Transitions\<close>

definition gate_run :: "'n \<Rightarrow> bool \<Rightarrow> 'n list \<Rightarrow> 'n gate_result" where
  "gate_run navigation blocking superseded =
    Some \<lparr>tr_state = Navigating navigation blocking superseded, tr_commands = [CancelPaneRuns, Run navigation]\<rparr>"

definition putBack :: "'n \<Rightarrow> 'n list \<Rightarrow> 'n gate_command list \<Rightarrow> 'n gate_result" where
  "putBack navigation superseded commands =
    Some \<lparr>tr_state = Reverting (navigation # rev superseded), tr_commands = commands @ [Revert navigation]\<rparr>"

definition gate_supersede :: "'n \<Rightarrow> bool \<Rightarrow> 'n list \<Rightarrow> 'n \<Rightarrow> bool \<Rightarrow> 'n gate_result" where
  "gate_supersede navigation blocking superseded n b = gate_run n (blocking \<or> b) (superseded @ [navigation])"

definition gate_settle :: "'n \<Rightarrow> 'n list \<Rightarrow> 'n \<Rightarrow> url_outcome \<Rightarrow> 'n gate_result" where
  "gate_settle navigation superseded n outcome =
    (if n \<noteq> navigation then None
     else (case outcome of
             Committed \<Rightarrow> Some \<lparr>tr_state = GateOpen, tr_commands = [Opened]\<rparr>
           | Ended Refused \<Rightarrow> putBack navigation superseded []
           | Ended Cancelled \<Rightarrow> putBack navigation superseded []
           | Ended Failed \<Rightarrow> Some \<lparr>tr_state = GateOpen, tr_commands = [Opened]\<rparr>
           | Ended _ \<Rightarrow> None))"

definition interrupt :: "'n \<Rightarrow> bool \<Rightarrow> 'n list \<Rightarrow> 'n gate_result" where
  "interrupt navigation blocking superseded =
    (if blocking then None else putBack navigation superseded [AbortRun navigation Interrupted])"

definition disposeNavigating :: "'n \<Rightarrow> 'n gate_result" where
  "disposeNavigating navigation =
    Some \<lparr>tr_state = GateDisposed, tr_commands = [AbortRun navigation Disposed, Opened]\<rparr>"

fun navigating :: "'n \<Rightarrow> bool \<Rightarrow> 'n list \<Rightarrow> 'n gate_event \<Rightarrow> 'n gate_result" where
  "navigating navigation blocking superseded (Start n b) = gate_supersede navigation blocking superseded n b"
| "navigating navigation blocking superseded (Settled n outcome) = gate_settle navigation superseded n outcome"
| "navigating navigation blocking superseded Action = interrupt navigation blocking superseded"
| "navigating navigation blocking superseded Dispose = disposeNavigating navigation"
| "navigating navigation blocking superseded RevertLanded = None"

definition revertLanded :: "'n list \<Rightarrow> 'n gate_result" where
  "revertLanded queue =
    (case tl queue of
       [] \<Rightarrow> Some \<lparr>tr_state = GateOpen, tr_commands = [Opened]\<rparr>
     | next # rest \<Rightarrow> Some \<lparr>tr_state = Reverting (next # rest), tr_commands = [Revert next]\<rparr>)"

definition queueRevert :: "'n list \<Rightarrow> 'n \<Rightarrow> 'n gate_result" where
  "queueRevert queue navigation =
    Some \<lparr>tr_state = Reverting (hd queue # navigation # tl queue), tr_commands = [AbortRun navigation Interrupted]\<rparr>"

fun reverting :: "'n list \<Rightarrow> 'n gate_event \<Rightarrow> 'n gate_result" where
  "reverting queue (Start n b) = queueRevert queue n"
| "reverting queue RevertLanded = revertLanded queue"
| "reverting queue Dispose = Some \<lparr>tr_state = GateDisposed, tr_commands = [Opened]\<rparr>"
| "reverting queue Action = None"
| "reverting queue (Settled n outcome) = None"

fun gate_open :: "'n gate_event \<Rightarrow> 'n gate_result" where
  "gate_open (Start n b) = gate_run n b []"
| "gate_open Action = Some \<lparr>tr_state = GateOpen, tr_commands = [Opened]\<rparr>"
| "gate_open Dispose = Some \<lparr>tr_state = GateDisposed, tr_commands = []\<rparr>"
| "gate_open _ = None"

fun gate_disposed :: "'n gate_event \<Rightarrow> 'n gate_result" where
  "gate_disposed (Start n b) = Some \<lparr>tr_state = GateDisposed, tr_commands = [AbortRun n Disposed]\<rparr>"
| "gate_disposed Action = Some \<lparr>tr_state = GateDisposed, tr_commands = [Opened]\<rparr>"
| "gate_disposed _ = None"

fun urlGateDef :: "('n gate_state, 'n gate_event, 'n gate_command) machine_def" where
  "urlGateDef GateOpen e = gate_open e"
| "urlGateDef (Navigating n b superseded) e = navigating n b superseded e"
| "urlGateDef (Reverting queue) e = reverting queue e"
| "urlGateDef GateDisposed e = gate_disposed e"

lemmas gate_defs = gate_run_def putBack_def gate_supersede_def gate_settle_def interrupt_def disposeNavigating_def
  revertLanded_def queueRevert_def

section \<open>What landed is put back\<close>

fun started_urls :: "'n gate_event list \<Rightarrow> 'n list" where
  "started_urls [] = []"
| "started_urls (Start n b # es) = n # started_urls es"
| "started_urls (_ # es) = started_urls es"

fun reverted :: "'n gate_command list \<Rightarrow> 'n list" where
  "reverted [] = []"
| "reverted (Revert n # cs) = n # reverted cs"
| "reverted (_ # cs) = reverted cs"

text \<open>The state, the navigations that landed since the gate was last open, and those put back since.\<close>

type_synonym 'n gate_log = "'n gate_state \<times> 'n list \<times> 'n list"

definition track :: "'n gate_event \<Rightarrow> 'n gate_log \<Rightarrow> 'n gate_log" where
  "track e = (\<lambda>(s, landed, undone).
    case urlGateDef s e of
      None \<Rightarrow> (s, landed, undone)
    | Some t \<Rightarrow> (tr_state t, (if s = GateOpen then [] else landed) @ started_urls [e],
                 (if s = GateOpen then [] else undone) @ reverted (tr_commands t)))"

definition gate_log :: "'n gate_event list \<Rightarrow> 'n gate_log" where
  "gate_log evs = fold track evs (GateOpen, [], [])"

fun log_ok :: "'n gate_log \<Rightarrow> bool" where
  "log_ok (GateOpen, landed, undone) \<longleftrightarrow> undone = [] \<or> mset undone = mset landed"
| "log_ok (Navigating n b superseded, landed, undone) \<longleftrightarrow> landed = superseded @ [n] \<and> undone = []"
| "log_ok (Reverting queue, landed, undone) \<longleftrightarrow>
     queue \<noteq> [] \<and> undone \<noteq> [] \<and> last undone = hd queue \<and> mset landed = mset undone + mset (tl queue)"
| "log_ok (GateDisposed, landed, undone) \<longleftrightarrow> True"

lemma gate_log_state: "fst (gate_log evs) = sim_state (simulate urlGateDef GateOpen evs)"
proof (induction evs rule: rev_induct)
  case (snoc e evs)
  obtain s landed undone where l: "gate_log evs = (s, landed, undone)" by (cases "gate_log evs") auto
  have "gate_log (evs @ [e]) = track e (gate_log evs)" by (simp add: gate_log_def)
  then show ?case using snoc l by (auto simp: track_def simulate_snoc_state split: option.splits)
qed (simp add: gate_log_def)

lemma track_open: "log_ok (track e (GateOpen, landed, undone))" if "log_ok (GateOpen, landed, undone)"
  using that by (cases e) (auto simp: track_def gate_defs)

lemma track_navigating: "log_ok (track e (Navigating n b replaced, landed, undone))" if "log_ok (Navigating n b replaced, landed, undone)"
proof (cases e)
  case (Settled m outcome)
  then show ?thesis using that
    by (cases outcome; cases "case outcome of Ended r \<Rightarrow> r | Committed \<Rightarrow> Failed") (auto simp: track_def gate_defs)
qed (use that in \<open>auto simp: track_def gate_defs\<close>)

lemma track_reverting: "log_ok (track e (Reverting queue, landed, undone))" if "log_ok (Reverting queue, landed, undone)"
proof (cases e)
  case RevertLanded
  then show ?thesis using that by (cases "tl queue") (auto simp: track_def gate_defs)
qed (use that in \<open>auto simp: track_def gate_defs\<close>)

lemma track_disposed: "log_ok (track e (GateDisposed, landed, undone))"
  by (cases e) (simp_all add: track_def)

lemma track_ok: "log_ok l \<Longrightarrow> log_ok (track e l)"
proof (cases l rule: log_ok.cases)
  case (1 landed undone)
  then show "log_ok l \<Longrightarrow> log_ok (track e l)" by (simp only: track_open)
next
  case (2 n b replaced landed undone)
  then show "log_ok l \<Longrightarrow> log_ok (track e l)" by (simp only: track_navigating)
next
  case (3 queue landed undone)
  then show "log_ok l \<Longrightarrow> log_ok (track e l)" by (simp only: track_reverting)
next
  case (4 landed undone)
  then show "log_ok l \<Longrightarrow> log_ok (track e l)" by (simp only: track_disposed)
qed

text \<open>
  C26.  While a URL navigation runs nothing is put undone, and the gate remembers it and every
  navigation it replaced, in order.  While URLs are put back one revert is in flight, and what
  landed since the gate closed is exactly what was put back and what is still queued, each
  once.  So when the gate opens again either nothing was put back or everything that landed was.
\<close>

theorem gate_puts_back_all:
  "log_ok (gate_log evs) \<and> fst (gate_log evs) = sim_state (simulate urlGateDef GateOpen evs)"
proof
  show "log_ok (gate_log evs)"
    by (induction evs rule: rev_induct) (simp_all add: gate_log_def track_ok)
qed (rule gate_log_state)

section \<open>The gate opens again\<close>

lemma reverts_drain:
  "sim_state (simulate urlGateDef (Reverting (n # queue)) (replicate (Suc (length queue)) RevertLanded)) = GateOpen \<and>
   sim_commands (simulate urlGateDef (Reverting (n # queue)) (replicate (Suc (length queue)) RevertLanded)) = map Revert queue @ [Opened]"
proof (induction queue arbitrary: n)
  case Nil
  have "urlGateDef (Reverting [n]) RevertLanded = Some \<lparr>tr_state = GateOpen, tr_commands = [Opened]\<rparr>" by (simp add: gate_defs)
  from simulate_Cons[of urlGateDef, OF this, of "[]"] show ?case by simp
next
  case (Cons m queue)
  have "urlGateDef (Reverting (n # m # queue)) RevertLanded = Some \<lparr>tr_state = Reverting (m # queue), tr_commands = [Revert m]\<rparr>"
    by (simp add: gate_defs)
  from simulate_Cons[of urlGateDef, OF this, of "replicate (Suc (length queue)) RevertLanded"] show ?case
    using Cons[of m] by simp
qed

text \<open>
  C27.  A URL navigation that a guard refuses or middleware cancels, or that a pane action
  interrupts, puts back its own URL and then those of the navigations it replaced, newest first,
  and once each revert has landed the gate is open and says so.
\<close>

theorem gate_reopens:
  assumes "e = Settled n (Ended Refused) \<or> e = Settled n (Ended Cancelled) \<or> e = Action \<and> \<not> blocking"
  shows "let sim = simulate urlGateDef (Navigating n blocking superseded) (e # replicate (Suc (length superseded)) RevertLanded)
    in sim_state sim = GateOpen \<and> reverted (sim_commands sim) = rev (superseded @ [n]) \<and> last (sim_commands sim) = Opened"
proof -
  obtain cs where e: "urlGateDef (Navigating n blocking superseded) e =
      Some \<lparr>tr_state = Reverting (n # rev superseded), tr_commands = cs @ [Revert n]\<rparr>" "reverted (cs @ [Revert n]) = [n]"
    using assms by (auto simp: gate_defs)
  have rev_append: "reverted (a @ b) = reverted a @ reverted b" for a b :: "'a gate_command list"
    by (induction a rule: reverted.induct) simp_all
  have rev_map: "reverted (map Revert q) = q" for q :: "'a list" by (induction q) simp_all
  note d = reverts_drain[of n "rev superseded", unfolded length_rev]
  show ?thesis using e(2) d unfolding Let_def simulate_Cons[of urlGateDef, OF e(1)] by (simp add: rev_append rev_map)
qed

theorem gate_reopens_witness:
  "let sim = simulate urlGateDef (Navigating ''c'' False [''a'', ''b'']) (Action # replicate (Suc (Suc (Suc 0))) RevertLanded)
   in sim_state sim = GateOpen \<and> reverted (sim_commands sim) = [''c'', ''b'', ''a'']"
  using gate_reopens[of Action "''c''" False "[''a'', ''b'']"] by (simp add: Let_def)

end
