(* ===== verification/Router_Runner.thy ===== *)
theory Router_Runner
  imports Url_Gate "HOL-Library.AList"
begin

text \<open>
  The runner of navigations, \<open>apps/web/src/lib/split-router/router/runner.ts\<close>: a run machine per pane
  and one for URL navigations, with the URL gate deciding when pane actions may run.  The
  commands of one machine dispatch events to the others, and events for the gate that arise
  while it is working wait in its queue.  The work of a phase, the landing of a revert and the calls of
  the application are inputs of a step function.  What comes at once, while the gate is working, is
  handled in the same drain of the gate's queue: the reports of a URL navigation whose phases do not wait,
  and the landing of a \<open>revert\<close> that is absent or returns no promise.  Which these are is a parameter, and so is
  what a navigation's \<open>apply\<close> returns and which actions begin to wait while it runs.  A pane navigation's report
  that comes at once is the next input, since a pane's run has nothing to do with the gate.  The record of pending
  navigations that the user interface shows is not modelled, nor is a \<open>revert\<close> that throws.
\<close>

section \<open>Data\<close>

datatype 'p nav_result =
    ResultCommitted 'p
  | ResultActivated 'p
  | ResultUnchanged 'p
  | ResultCancelled

record ('n, 'x, 'p, 'w) runner =
  gate :: "'n gate_state"
  urlRun :: "('n, 'x) run_state"
  urlLive :: bool \<comment> \<open>the URL run's machine is not disposed\<close>
  paneRuns :: "('p \<times> ('n, 'x) run_state) list"
  settlers :: "'n list" \<comment> \<open>navigations whose promise is pending\<close>
  results :: "('n \<times> 'p nav_result) list" \<comment> \<open>what they were settled with, in order\<close>
  waiters :: "'w list"
  woken :: "'w list"
  reverts :: "'n list" \<comment> \<open>navigations whose \<open>revert\<close> was called\<close>
  committing :: nat
  disposed :: bool

text \<open>
  The panes that are open, the outcome of \<open>apply\<close>, \<open>None\<close> when it throws, with the actions that begin to wait meanwhile,
  whether a \<open>revert\<close> has landed when it returns (\<open>mapMaybe\<close> on something that is no promise), and the reports that
  the phases of a URL navigation make before \<open>urlRun.dispatch\<close> returns.
\<close>

record ('n, 'x, 'p, 'w) runner_env =
  live :: "'p list"
  applied :: "'n \<Rightarrow> 'x list \<Rightarrow> 'p nav_result option \<times> 'w list"
  lands :: "'n \<Rightarrow> bool"
  at_once :: "'n \<Rightarrow> ('n, 'x) run_event list"

text \<open>A \<open>dispatch\<close> of the gate throws when its queue does not come to an end.\<close>

datatype runner_fault = ChainedTooLong \<comment> \<open>the \<open>DispatchCycleError\<close> of the gate's machine\<close>

definition createRunner :: "('n, 'x, 'p, 'w) runner" where
  "createRunner = \<lparr>gate = GateOpen, urlRun = Idle, urlLive = True, paneRuns = [], settlers = [], results = [],
     waiters = [], woken = [], reverts = [], committing = 0, disposed = False\<rparr>"

section \<open>Settling and committing\<close>

definition settle :: "'n \<Rightarrow> 'p nav_result \<Rightarrow> ('n, 'x, 'p, 'w) runner \<Rightarrow> ('n, 'x, 'p, 'w) runner" where
  "settle navigation result r =
    (if navigation \<in> set (settlers r)
     then r\<lparr>settlers := remove1 navigation (settlers r), results := results r @ [(navigation, result)]\<rparr> else r)"

definition isOpen :: "('n, 'x, 'p, 'w) runner \<Rightarrow> bool" where
  "isOpen r \<longleftrightarrow> (gate r = GateOpen \<or> gate r = GateDisposed) \<and> committing r = 0"

definition release :: "('n, 'x, 'p, 'w) runner \<Rightarrow> ('n, 'x, 'p, 'w) runner" where
  "release r = (if isOpen r then r\<lparr>waiters := [], woken := woken r @ waiters r\<rparr> else r)"

definition commit ::
  "('n, 'x, 'p, 'w) runner_env \<Rightarrow> 'n \<Rightarrow> 'x list \<Rightarrow> ('n, 'x, 'p, 'w) runner \<Rightarrow> 'p nav_result \<times> ('n, 'x, 'p, 'w) runner" where
  "commit env navigation entries r =
    (let r1 = r\<lparr>committing := committing r + 1\<rparr>;
         (result, began) = applied env navigation entries;
         r2 = r1\<lparr>waiters := waiters r1 @ began\<rparr>;
         r3 = release (r2\<lparr>committing := committing r2 - 1\<rparr>)
     in (case result of None \<Rightarrow> ResultCancelled | Some x \<Rightarrow> x, r3))"

section \<open>Pane runs\<close>

definition isFinished :: "('n, 'x, 'p, 'w) runner_env \<Rightarrow> 'p \<times> ('n, 'x) run_state \<Rightarrow> bool" where
  "isFinished env item \<longleftrightarrow> snd item = Idle \<and> fst item \<notin> set (live env)"

definition sweep :: "('n, 'x, 'p, 'w) runner_env \<Rightarrow> ('n, 'x, 'p, 'w) runner \<Rightarrow> ('n, 'x, 'p, 'w) runner" where
  "sweep env r = r\<lparr>paneRuns := filter (\<lambda>item. \<not> isFinished env item) (paneRuns r)\<rparr>"

definition executePaneRun ::
  "('n, 'x, 'p, 'w) runner_env \<Rightarrow> ('n, 'x) run_command \<Rightarrow> ('n, 'x, 'p, 'w) runner \<Rightarrow> ('n, 'x, 'p, 'w) runner" where
  "executePaneRun env command r =
    sweep env (case command of
       Commit navigation entries \<Rightarrow> (let (result, r1) = commit env navigation entries r in settle navigation result r1)
     | Cancel navigation _ \<Rightarrow> settle navigation ResultCancelled r)"

text \<open>\<open>findRun(pane)?.dispatch(event)\<close>\<close>

definition paneDispatch ::
  "('n, 'x, 'p, 'w) runner_env \<Rightarrow> 'p \<Rightarrow> ('n, 'x) run_event \<Rightarrow> ('n, 'x, 'p, 'w) runner \<Rightarrow> ('n, 'x, 'p, 'w) runner" where
  "paneDispatch env pane event r =
    (case map_of (paneRuns r) pane of
       None \<Rightarrow> r
     | Some s \<Rightarrow>
         (case runDef s event of
            None \<Rightarrow> r
          | Some t \<Rightarrow> fold (executePaneRun env) (tr_commands t)
              (r\<lparr>paneRuns := AList.update pane (tr_state t) (paneRuns r)\<rparr>)))"

definition paneRun :: "'p \<Rightarrow> ('n, 'x, 'p, 'w) runner \<Rightarrow> ('n, 'x, 'p, 'w) runner" where
  "paneRun pane r =
    (case map_of (paneRuns r) pane of Some _ \<Rightarrow> r | None \<Rightarrow> r\<lparr>paneRuns := paneRuns r @ [(pane, Idle)]\<rparr>)"

definition abortPanes ::
  "('n, 'x, 'p, 'w) runner_env \<Rightarrow> cancel_reason \<Rightarrow> ('n, 'x, 'p, 'w) runner \<Rightarrow> ('n, 'x, 'p, 'w) runner" where
  "abortPanes env reason r = fold (\<lambda>pane. paneDispatch env pane (Abort reason)) (map fst (paneRuns r)) r"

section \<open>The URL run and the gate\<close>

text \<open>The second component is the queue of the gate.\<close>

type_synonym ('n, 'x, 'p, 'w) runner_queue = "('n, 'x, 'p, 'w) runner \<times> 'n gate_event list"

definition commitUrl ::
  "('n, 'x, 'p, 'w) runner_env \<Rightarrow> 'n \<Rightarrow> 'x list \<Rightarrow> ('n, 'x, 'p, 'w) runner \<Rightarrow> url_outcome \<times> ('n, 'x, 'p, 'w) runner" where
  "commitUrl env navigation entries r =
    (let (result, r1) = commit env navigation entries r
     in (if result = ResultCancelled then Ended Failed else Committed, settle navigation result r1))"

definition executeUrlRun ::
  "('n, 'x, 'p, 'w) runner_env \<Rightarrow> ('n, 'x) run_command \<Rightarrow> ('n, 'x, 'p, 'w) runner_queue \<Rightarrow> ('n, 'x, 'p, 'w) runner_queue" where
  "executeUrlRun env command = (\<lambda>(r, queue).
    let (outcome, r1) = (case command of
          Commit navigation entries \<Rightarrow> commitUrl env navigation entries r
        | Cancel navigation reason \<Rightarrow> (Ended reason, settle navigation ResultCancelled r))
    in (r1, queue @ [Settled (settled_navigation command) outcome]))"

definition urlDispatch ::
  "('n, 'x, 'p, 'w) runner_env \<Rightarrow> ('n, 'x) run_event \<Rightarrow> ('n, 'x, 'p, 'w) runner_queue \<Rightarrow> ('n, 'x, 'p, 'w) runner_queue" where
  "urlDispatch env event = (\<lambda>(r, queue).
    if \<not> urlLive r then (r, queue)
    else (case runDef (urlRun r) event of
            None \<Rightarrow> (r, queue)
          | Some t \<Rightarrow> fold (executeUrlRun env) (tr_commands t) (r\<lparr>urlRun := tr_state t\<rparr>, queue)))"

definition abortUrl ::
  "('n, 'x, 'p, 'w) runner_env \<Rightarrow> 'n \<Rightarrow> cancel_reason \<Rightarrow> ('n, 'x, 'p, 'w) runner_queue \<Rightarrow> ('n, 'x, 'p, 'w) runner_queue" where
  "abortUrl env navigation reason = (\<lambda>(r, queue).
    if in_flight (urlRun r) = [navigation] then urlDispatch env (Abort reason) (r, queue)
    else (settle navigation ResultCancelled r, queue))"

definition executeGate ::
  "('n, 'x, 'p, 'w) runner_env \<Rightarrow> 'n gate_command \<Rightarrow> ('n, 'x, 'p, 'w) runner_queue \<Rightarrow> ('n, 'x, 'p, 'w) runner_queue" where
  "executeGate env command = (\<lambda>(r, queue).
    map_prod (sweep env) id (case command of
       Run navigation \<Rightarrow> fold (urlDispatch env) (Navigate navigation # at_once env navigation) (r, queue)
     | AbortRun navigation reason \<Rightarrow> abortUrl env navigation reason (r, queue)
     | Revert navigation \<Rightarrow>
         (r\<lparr>reverts := reverts r @ [navigation]\<rparr>, if lands env navigation then queue @ [RevertLanded] else queue)
     | CancelPaneRuns \<Rightarrow> (abortPanes env Superseded r, queue)
     | Opened \<Rightarrow> (release r, queue)))"

definition gateApply ::
  "('n, 'x, 'p, 'w) runner_env \<Rightarrow> 'n gate_event \<Rightarrow> ('n, 'x, 'p, 'w) runner_queue \<Rightarrow> ('n, 'x, 'p, 'w) runner_queue" where
  "gateApply env event = (\<lambda>(r, queue).
    case urlGateDef (gate r) event of
      None \<Rightarrow> (r, queue)
    | Some t \<Rightarrow> fold (executeGate env) (tr_commands t) (r\<lparr>gate := tr_state t\<rparr>, queue))"

text \<open>
  The drain loop of a machine: after so many events it throws, and what is left of the queue is dropped while the
  state stays as it is.
\<close>

type_synonym ('n, 'x, 'p, 'w, 'a) runner_outcome = "(runner_fault, 'a, ('n, 'x, 'p, 'w) runner) outcome"

fun drain ::
  "nat \<Rightarrow> ('n, 'x, 'p, 'w) runner_env \<Rightarrow> ('n, 'x, 'p, 'w) runner_queue \<Rightarrow> ('n, 'x, 'p, 'w, unit) runner_outcome" where
  "drain steps env (r, []) = (Inr (), r)"
| "drain 0 env (r, e # queue) = (Inl ChainedTooLong, r)"
| "drain (Suc steps) env (r, e # queue) = drain steps env (gateApply env e (r, queue))"

definition gateDispatch ::
  "('n, 'x, 'p, 'w) runner_env \<Rightarrow> 'n gate_event \<Rightarrow> ('n, 'x, 'p, 'w) runner \<Rightarrow> ('n, 'x, 'p, 'w, unit) runner_outcome" where
  "gateDispatch env event r = drain MAX_CHAINED_DISPATCHES env (r, [event])"

section \<open>Operations\<close>

definition start ::
  "('n, 'x, 'p, 'w) runner_env \<Rightarrow> 'p \<Rightarrow> 'n \<Rightarrow> ('n, 'x, 'p, 'w) runner \<Rightarrow> ('n, 'x, 'p, 'w) runner" where
  "start env pane navigation r =
    paneDispatch env pane (Navigate navigation) (paneRun pane (r\<lparr>settlers := settlers r @ [navigation]\<rparr>))"

definition startUrl ::
  "('n, 'x, 'p, 'w) runner_env \<Rightarrow> 'n \<Rightarrow> bool \<Rightarrow> ('n, 'x, 'p, 'w) runner \<Rightarrow> ('n, 'x, 'p, 'w, unit) runner_outcome" where
  "startUrl env navigation blocking r =
    gateDispatch env (Start navigation blocking) (r\<lparr>settlers := settlers r @ [navigation]\<rparr>)"

definition urlReport ::
  "('n, 'x, 'p, 'w) runner_env \<Rightarrow> ('n, 'x) run_event \<Rightarrow> ('n, 'x, 'p, 'w) runner \<Rightarrow> ('n, 'x, 'p, 'w, unit) runner_outcome" where
  "urlReport env event r = drain MAX_CHAINED_DISPATCHES env (urlDispatch env event (r, []))"

text \<open>\<open>whenIdle\<close>: whether the action may run at once, and otherwise it waits.\<close>

definition whenIdle ::
  "('n, 'x, 'p, 'w) runner_env \<Rightarrow> 'w \<Rightarrow> ('n, 'x, 'p, 'w) runner \<Rightarrow> ('n, 'x, 'p, 'w, bool) runner_outcome" where
  "whenIdle env action r =
    (if isOpen r then (Inr True, r)
     else and_then (if committing r = 0 then gateDispatch env Action r else (Inr (), r))
            (\<lambda>_ r1. if isOpen r1 then (Inr True, r1) else (Inr False, r1\<lparr>waiters := waiters r1 @ [action]\<rparr>)))"

datatype act_outcome = Runs | Waits | SeesDisposed

definition act ::
  "('n, 'x, 'p, 'w) runner_env \<Rightarrow> 'w \<Rightarrow> ('n, 'x, 'p, 'w) runner \<Rightarrow> ('n, 'x, 'p, 'w, act_outcome) runner_outcome" where
  "act env action r =
    and_then (whenIdle env action r)
      (\<lambda>now r1. (Inr (if \<not> now then Waits else if disposed r1 then SeesDisposed else Runs), r1))"

definition isRunning :: "'p \<Rightarrow> ('n, 'x, 'p, 'w) runner \<Rightarrow> bool" where
  "isRunning pane r = (case map_of (paneRuns r) pane of None \<Rightarrow> False | Some s \<Rightarrow> s \<noteq> Idle)"

definition dispose ::
  "('n, 'x, 'p, 'w) runner_env \<Rightarrow> ('n, 'x, 'p, 'w) runner \<Rightarrow> ('n, 'x, 'p, 'w, unit) runner_outcome" where
  "dispose env r =
    and_then (gateDispatch env Dispose (r\<lparr>disposed := True\<rparr>))
      (\<lambda>_ r1. (Inr (), (abortPanes env Disposed r1)\<lparr>paneRuns := [], urlLive := False\<rparr>))"

section \<open>Runs\<close>

datatype ('n, 'x, 'p, 'w) runner_input =
    StartPane 'p 'n
  | StartUrl 'n bool
  | CommitNow 'n "'x list"
  | Act 'w
  | AbortPane 'p
  | PaneReport 'p "('n, 'x) run_event"
  | UrlReport "('n, 'x) run_event"
  | RevertDone
  | DisposeRunner

fun runner_step ::
  "('n, 'x, 'p, 'w) runner_env \<Rightarrow> ('n, 'x, 'p, 'w) runner_input \<Rightarrow> ('n, 'x, 'p, 'w) runner \<Rightarrow> ('n, 'x, 'p, 'w, unit) runner_outcome" where
  "runner_step env (StartPane pane navigation) r = (Inr (), start env pane navigation r)"
| "runner_step env (StartUrl navigation blocking) r = startUrl env navigation blocking r"
| "runner_step env (CommitNow navigation entries) r = (Inr (), snd (commit env navigation entries r))"
| "runner_step env (Act action) r = and_then (act env action r) (\<lambda>_ r1. (Inr (), r1))"
| "runner_step env (AbortPane pane) r = (Inr (), paneDispatch env pane (Abort Superseded) r)"
| "runner_step env (PaneReport pane report) r = (Inr (), paneDispatch env pane report r)"
| "runner_step env (UrlReport report) r = urlReport env report r"
| "runner_step env RevertDone r = gateDispatch env RevertLanded r"
| "runner_step env DisposeRunner r = dispose env r"

text \<open>A call that throws leaves the runner as it is then, and the next input is handled; the errors thrown are collected.\<close>

fun runner_run ::
  "(('n, 'x, 'p, 'w) runner_env \<times> ('n, 'x, 'p, 'w) runner_input) list \<Rightarrow> ('n, 'x, 'p, 'w) runner \<Rightarrow>
   runner_fault list \<times> ('n, 'x, 'p, 'w) runner" where
  "runner_run [] r = ([], r)"
| "runner_run ((env, i) # is) r =
     (case runner_step env i r of
        (Inl fault, r1) \<Rightarrow> apfst (Cons fault) (runner_run is r1)
      | (Inr _, r1) \<Rightarrow> runner_run is r1)"

end
