(* ===== verification/Runner_Properties.thy ===== *)
theory Runner_Properties
  imports Router_Runner
begin

text \<open>
  What the runner promises over any run: a navigation that was started has exactly one result or
  is still in flight, the gate and the URL run agree, and no action waits at an open gate.
\<close>

section \<open>Pending navigations\<close>

definition flights :: "('n, 'x, 'p, 'w) runner \<Rightarrow> 'n list" where
  "flights r = in_flight (urlRun r) @ concat (map (in_flight \<circ> snd) (paneRuns r))"

text \<open>The pending promises are those of the navigations in flight and of those in \<open>X\<close>, which are about to be settled.\<close>

definition pending :: "'n multiset \<Rightarrow> ('n, 'x, 'p, 'w) runner \<Rightarrow> bool" where
  "pending X r \<longleftrightarrow> distinct (settlers r) \<and> distinct (map fst (paneRuns r)) \<and> committing r = 0 \<and>
     mset (settlers r) = X + mset (flights r)"

lemma settle_fields [simp]:
  "gate (settle n x r) = gate r" "urlRun (settle n x r) = urlRun r" "paneRuns (settle n x r) = paneRuns r"
  "urlLive (settle n x r) = urlLive r" "committing (settle n x r) = committing r" "waiters (settle n x r) = waiters r"
  "disposed (settle n x r) = disposed r"
  by (simp_all add: settle_def)

lemma release_fields [simp]:
  "gate (release r) = gate r" "urlRun (release r) = urlRun r" "paneRuns (release r) = paneRuns r"
  "urlLive (release r) = urlLive r" "committing (release r) = committing r" "settlers (release r) = settlers r"
  "results (release r) = results r" "disposed (release r) = disposed r"
  by (simp_all add: release_def)

lemma sweep_fields [simp]:
  "gate (sweep env r) = gate r" "urlRun (sweep env r) = urlRun r" "settlers (sweep env r) = settlers r"
  "urlLive (sweep env r) = urlLive r" "committing (sweep env r) = committing r" "waiters (sweep env r) = waiters r"
  "results (sweep env r) = results r" "disposed (sweep env r) = disposed r"
  by (simp_all add: sweep_def)

lemma commit_fields [simp]:
  "gate (snd (commit env n es r)) = gate r" "urlRun (snd (commit env n es r)) = urlRun r"
  "paneRuns (snd (commit env n es r)) = paneRuns r" "settlers (snd (commit env n es r)) = settlers r"
  "urlLive (snd (commit env n es r)) = urlLive r" "committing (snd (commit env n es r)) = committing r"
  "results (snd (commit env n es r)) = results r" "disposed (snd (commit env n es r)) = disposed r"
  by (simp_all add: commit_def Let_def split: prod.splits)

lemma pending_settle: "pending (add_mset n X) r \<Longrightarrow> pending X (settle n x r)"
proof -
  assume p: "pending (add_mset n X) r"
  then have "n \<in> set (settlers r)" unfolding pending_def by (metis union_iff union_single_eq_member set_mset_mset)
  then show ?thesis using p by (simp add: pending_def settle_def flights_def)
qed

lemma pending_commit: "pending X r \<Longrightarrow> pending X (snd (commit env n es r))"
  by (simp add: pending_def flights_def)

lemma flights_sweep: "flights (sweep env r) = flights r"
proof -
  have "concat (map (in_flight \<circ> snd) (filter (\<lambda>item. \<not> isFinished env item) ps)) = concat (map (in_flight \<circ> snd) ps)"
    for ps :: "('c \<times> ('a, 'b) run_state) list" by (induction ps) (auto simp: isFinished_def)
  then show ?thesis by (simp add: flights_def sweep_def)
qed

lemma pending_sweep: "pending X r \<Longrightarrow> pending X (sweep env r)"
  using flights_sweep[of env r] by (auto simp: pending_def) (simp add: sweep_def distinct_map_filter)

lemma pending_release: "pending X r \<Longrightarrow> pending X (release r)"
  by (simp add: pending_def flights_def)

lemma executePaneRun_fields [simp]:
  "gate (executePaneRun env c r) = gate r" "urlRun (executePaneRun env c r) = urlRun r"
  "urlLive (executePaneRun env c r) = urlLive r" "disposed (executePaneRun env c r) = disposed r"
  by (simp_all add: executePaneRun_def case_prod_beta split: run_command.splits)

lemma pending_executePaneRun:
  "pending (add_mset (settled_navigation c) X) r \<Longrightarrow> pending X (executePaneRun env c r)"
  by (cases c) (simp_all add: executePaneRun_def case_prod_beta pending_sweep pending_settle pending_commit)

lemma pending_executePaneRuns:
  "pending (mset (map settled_navigation cs) + X) r \<Longrightarrow> pending X (fold (executePaneRun env) cs r)"
  by (induction cs arbitrary: r) (simp_all add: pending_executePaneRun)

lemma fold_fields:
  "(\<And>c r. f (g c r) = f r) \<Longrightarrow> f (fold g cs r) = f r"
  by (induction cs arbitrary: r) simp_all

lemma paneDispatch_fields [simp]:
  "gate (paneDispatch env p e r) = gate r" "urlRun (paneDispatch env p e r) = urlRun r"
  "urlLive (paneDispatch env p e r) = urlLive r" "disposed (paneDispatch env p e r) = disposed r"
  by (simp_all add: paneDispatch_def fold_fields split: option.splits)

lemma flights_update:
  assumes "map_of ps p = Some s" and "distinct (map fst ps)"
  shows "mset (concat (map (in_flight \<circ> snd) (AList.update p s' ps))) + mset (in_flight s) =
    mset (concat (map (in_flight \<circ> snd) ps)) + mset (in_flight s')"
  using assms by (induction ps) (auto split: if_splits)

lemma exchange: "a + b = c + d \<Longrightarrow> p' + a = p + d \<Longrightarrow> b + (u + p) = c + (u + p')" for a b c d :: "'a multiset"
proof -
  assume e: "a + b = c + d" "p' + a = p + d"
  have "(b + (u + p)) + a = (a + b) + (u + p)" by (simp add: ac_simps)
  also have "\<dots> = (c + u) + (p + d)" unfolding e(1) by (simp add: ac_simps)
  also have "\<dots> = (c + (u + p')) + a" unfolding e(2)[symmetric] by (simp add: ac_simps)
  finally show ?thesis by simp
qed

lemma pending_paneDispatch:
  assumes "pending (mset (started [e]) + X) r" and "started [e] \<noteq> [] \<longrightarrow> map_of (paneRuns r) p \<noteq> None"
  shows "pending X (paneDispatch env p e r)"
proof (cases "map_of (paneRuns r) p")
  case None
  then show ?thesis using assms by (auto simp: paneDispatch_def)
next
  case (Some s)
  show ?thesis
  proof (cases "runDef s e")
    case None
    then show ?thesis using Some assms(1) ignored_started[OF None] by (simp add: paneDispatch_def)
  next
    case t: (Some t)
    let ?r = "r\<lparr>paneRuns := AList.update p (tr_state t) (paneRuns r)\<rparr>"
    have d: "distinct (map fst (paneRuns r))" using assms(1) by (simp add: pending_def)
    have "mset (in_flight s) + mset (started [e]) = mset (map settled_navigation (tr_commands t)) + mset (in_flight (tr_state t))"
      using arg_cong[OF taken_started[OF t], of mset] by simp
    then have "mset (started [e]) + mset (flights r) = mset (map settled_navigation (tr_commands t)) + mset (flights ?r)"
      using exchange[OF _ flights_update[OF Some d, of "tr_state t"], of _ _ "mset (in_flight (urlRun r))"] by (simp add: flights_def)
    then have "pending (mset (map settled_navigation (tr_commands t)) + X) ?r"
      using assms(1) d by (simp add: pending_def distinct_update ac_simps)
    then show ?thesis using Some t by (simp add: paneDispatch_def pending_executePaneRuns)
  qed
qed

section \<open>Accounts\<close>

text \<open>Settling moves a navigation from the pending ones to the results; nothing else changes either.\<close>

definition account :: "('n, 'x, 'p, 'w) runner \<Rightarrow> 'n multiset" where
  "account r = mset (map fst (results r)) + mset (settlers r)"

lemma account_settle [simp]: "account (settle n x r) = account r"
  by (auto simp: account_def settle_def)

lemma account_fields [simp]:
  "account (sweep env r) = account r" "account (release r) = account r" "account (snd (commit env n es r)) = account r"
  by (simp_all add: account_def)

lemma account_updates [simp]:
  "account (r\<lparr>gate := g\<rparr>) = account r" "account (r\<lparr>urlRun := s\<rparr>) = account r" "account (r\<lparr>paneRuns := ps\<rparr>) = account r"
  "account (r\<lparr>reverts := rs\<rparr>) = account r" "account (r\<lparr>waiters := ws\<rparr>) = account r" "account (r\<lparr>urlLive := b\<rparr>) = account r"
  "account (r\<lparr>disposed := b\<rparr>) = account r"
  by (simp_all add: account_def)

lemma account_executePaneRun [simp]: "account (executePaneRun env c r) = account r"
  by (simp add: executePaneRun_def case_prod_beta split: run_command.splits)

lemma account_paneDispatch [simp]: "account (paneDispatch env p e r) = account r"
  by (simp add: paneDispatch_def fold_fields[where f = account] split: option.splits)

lemma account_abortPanes [simp]: "account (abortPanes env reason r) = account r"
  by (simp add: abortPanes_def fold_fields[where f = account])

section \<open>Waiting actions\<close>

definition wait_ok :: "('n, 'x, 'p, 'w) runner \<Rightarrow> bool" where
  "wait_ok r \<longleftrightarrow> waiters r \<noteq> [] \<longrightarrow> gate r \<noteq> GateOpen \<and> gate r \<noteq> GateDisposed"

lemma wait_commit: "committing r = 0 \<Longrightarrow> wait_ok r \<Longrightarrow> wait_ok (snd (commit env n es r))"
  by (auto simp: wait_ok_def commit_def release_def isOpen_def Let_def split: prod.splits)

lemma wait_executePaneRun: "committing r = 0 \<Longrightarrow> wait_ok r \<Longrightarrow> wait_ok (executePaneRun env c r)"
  using wait_commit[of r env] by (auto simp: executePaneRun_def case_prod_beta wait_ok_def split: run_command.splits)

lemma committing_executePaneRun [simp]: "committing (executePaneRun env c r) = committing r"
  by (simp add: executePaneRun_def case_prod_beta split: run_command.splits)

lemma wait_executePaneRuns: "committing r = 0 \<Longrightarrow> wait_ok r \<Longrightarrow> wait_ok (fold (executePaneRun env) cs r)"
  by (induction cs arbitrary: r) (simp_all add: wait_executePaneRun)

lemma wait_paneDispatch: "committing r = 0 \<Longrightarrow> wait_ok r \<Longrightarrow> wait_ok (paneDispatch env p e r)"
proof -
  assume c: "committing r = 0" "wait_ok r"
  then have "wait_ok (fold (executePaneRun env) cs (r\<lparr>paneRuns := ps\<rparr>))" for cs ps
    by (intro wait_executePaneRuns) (simp_all add: wait_ok_def)
  then show ?thesis using c by (simp add: paneDispatch_def split: option.splits)
qed

section \<open>Aborting every pane\<close>

definition tame :: "'n multiset \<Rightarrow> ('n, 'x, 'p, 'w) runner \<Rightarrow> bool" where
  "tame X r \<longleftrightarrow> pending X r \<and> wait_ok r"

lemma tame_committing: "tame X r \<Longrightarrow> committing r = 0"
  by (simp add: tame_def pending_def)

lemma tame_commit: "tame X r \<Longrightarrow> tame X (snd (commit env n es r))"
  using pending_commit[of X r env n es] wait_commit[of r env n es] tame_committing[of X r] by (simp add: tame_def)

lemma tame_paneDispatch:
  "tame (mset (started [e]) + X) r \<Longrightarrow> started [e] \<noteq> [] \<longrightarrow> map_of (paneRuns r) p \<noteq> None \<Longrightarrow> tame X (paneDispatch env p e r)"
  using pending_paneDispatch[of e X r p env] wait_paneDispatch[of r env p e] by (simp add: tame_def pending_def)

lemma tame_aborts: "tame X r \<Longrightarrow> tame X (fold (\<lambda>pane. paneDispatch env pane (Abort reason)) ps r)"
proof (induction ps arbitrary: r)
  case (Cons p ps)
  then show ?case using tame_paneDispatch[of "Abort reason" X r p env] by simp
qed simp

lemma tame_abortPanes: "tame X r \<Longrightarrow> tame X (abortPanes env reason r)"
  unfolding abortPanes_def by (rule tame_aborts)

lemma abortPanes_fields [simp]:
  "gate (abortPanes env reason r) = gate r" "urlRun (abortPanes env reason r) = urlRun r"
  "urlLive (abortPanes env reason r) = urlLive r" "disposed (abortPanes env reason r) = disposed r"
  by (simp_all add: abortPanes_def fold_fields)

text \<open>Afterwards every pane run is idle.\<close>

lemma executePaneRun_runs: "paneRuns (executePaneRun env c r) = filter (\<lambda>item. \<not> isFinished env item) (paneRuns r)"
  by (simp add: executePaneRun_def case_prod_beta sweep_def split: run_command.splits)

lemma executePaneRuns_runs: "set (paneRuns (fold (executePaneRun env) cs r)) \<subseteq> set (paneRuns r)"
proof (induction cs arbitrary: r)
  case (Cons c cs)
  have "set (paneRuns (executePaneRun env c r)) \<subseteq> set (paneRuns r)" by (auto simp: executePaneRun_runs)
  then show ?case using Cons[of "executePaneRun env c r"] unfolding fold_simps by (rule subset_trans[rotated])
qed simp

lemma update_elem:
  "distinct (map fst ps) \<Longrightarrow> x \<in> set (AList.update p v ps) \<Longrightarrow> x = (p, v) \<or> x \<in> set ps \<and> fst x \<noteq> p"
  by (induction ps) (auto simp: image_iff split: if_splits)

lemma abort_keeps:
  assumes "distinct (map fst (paneRuns r))" and "x \<in> set (paneRuns (paneDispatch env p (Abort reason) r))"
  shows "x \<in> set (paneRuns r) \<and> fst x \<noteq> p \<or> snd x = Idle"
proof (cases "map_of (paneRuns r) p")
  case None
  then have "x \<in> set (paneRuns r)" using assms(2) by (simp add: paneDispatch_def)
  then show ?thesis using None by (metis map_of_eq_None_iff imageI list.set_map)
next
  case (Some s)
  show ?thesis
  proof (cases "runDef s (Abort reason)")
    case None
    then have "s = Idle" by (cases s) (auto simp: run_defs)
    then have "(p, Idle) \<in> set (paneRuns r)" "x \<in> set (paneRuns r)"
      using assms(2) Some None map_of_SomeD[OF Some] by (simp_all add: paneDispatch_def)
    then show ?thesis using eq_key_imp_eq_value[OF assms(1), of p Idle "snd x"] by (cases x) auto
  next
    case (Some t)
    then have "tr_state t = Idle" by (cases s) (auto simp: run_defs)
    moreover have "set (paneRuns (paneDispatch env p (Abort reason) r)) \<subseteq> set (AList.update p (tr_state t) (paneRuns r))"
      using \<open>map_of (paneRuns r) p = Some s\<close> Some executePaneRuns_runs[of env "tr_commands t" "r\<lparr>paneRuns := AList.update p (tr_state t) (paneRuns r)\<rparr>"]
      by (simp add: paneDispatch_def)
    ultimately have "x = (p, Idle) \<or> x \<in> set (paneRuns r) \<and> fst x \<noteq> p"
      using update_elem[OF assms(1), of x p Idle] assms(2) by auto
    then show ?thesis by auto
  qed
qed

lemma aborts_idle:
  assumes "tame X r"
  shows "x \<in> set (paneRuns (fold (\<lambda>pane. paneDispatch env pane (Abort reason)) ps r)) \<Longrightarrow>
    x \<in> set (paneRuns r) \<and> fst x \<notin> set ps \<or> snd x = Idle"
  using assms
proof (induction ps arbitrary: r)
  case (Cons p ps)
  let ?r = "paneDispatch env p (Abort reason) r"
  have "tame X ?r" using tame_paneDispatch[of "Abort reason" X r p env] Cons.prems(2) by simp
  then have "x \<in> set (paneRuns ?r) \<and> fst x \<notin> set ps \<or> snd x = Idle" using Cons by simp
  moreover have "distinct (map fst (paneRuns r))" using Cons.prems(2) by (simp add: tame_def pending_def)
  ultimately show ?case using abort_keeps[of r x env p reason] by auto
qed simp

lemma abortPanes_idle: "tame X r \<Longrightarrow> x \<in> set (paneRuns (abortPanes env reason r)) \<Longrightarrow> snd x = Idle"
  using aborts_idle[of X r x env reason "map fst (paneRuns r)"] by (auto simp: abortPanes_def)

section \<open>The gate and the URL run\<close>

definition link :: "('n, 'x, 'p, 'w) runner \<Rightarrow> bool" where
  "link r \<longleftrightarrow> in_flight (urlRun r) = (case gate r of Navigating n _ _ \<Rightarrow> [n] | _ \<Rightarrow> [])"

text \<open>Between the calls of the application; \<open>X\<close> are navigations that were just handed over.\<close>

definition runner_inv :: "'n multiset \<Rightarrow> ('n, 'x, 'p, 'w) runner \<Rightarrow> bool" where
  "runner_inv X r \<longleftrightarrow> tame X r \<and> link r \<and> (urlLive r \<or> gate r = GateDisposed)"

lemma pending_urlRun:
  assumes "mset (in_flight s) + Y = mset (in_flight (urlRun r)) + X"
  shows "pending Y (r\<lparr>urlRun := s\<rparr>) \<longleftrightarrow> pending X r"
proof -
  have "Y + mset (flights (r\<lparr>urlRun := s\<rparr>)) = (mset (in_flight s) + Y) + mset (concat (map (in_flight \<circ> snd) (paneRuns r)))"
    by (simp add: flights_def)
  also have "\<dots> = X + mset (flights r)" unfolding assms by (simp add: flights_def)
  finally show ?thesis by (simp add: pending_def)
qed

lemma tame_urlRun:
  assumes "mset (in_flight s) + Y = mset (in_flight (urlRun r)) + X" and "tame X r"
  shows "tame Y (r\<lparr>urlRun := s\<rparr>)"
  using assms(2) pending_urlRun[OF assms(1)] by (simp add: tame_def wait_ok_def)

lemma settle_urlRun [simp]: "(settle n x r)\<lparr>urlRun := s\<rparr> = settle n x (r\<lparr>urlRun := s\<rparr>)"
  by (simp add: settle_def)

lemma urlDispatch_navigate:
  assumes "urlLive r"
  shows "urlDispatch env (Navigate n) (r, queue) =
    (case in_flight (urlRun r) of
       [] \<Rightarrow> (r\<lparr>urlRun := Guards n\<rparr>, queue)
     | m # _ \<Rightarrow> (settle m ResultCancelled (r\<lparr>urlRun := Guards n\<rparr>), queue @ [Settled m (Ended Superseded)]))"
  using assms by (cases "urlRun r") (simp_all add: urlDispatch_def run_defs executeUrlRun_def)

lemma urlDispatch_abort:
  assumes "urlLive r" and "in_flight (urlRun r) = [m]"
  shows "urlDispatch env (Abort reason) (r, queue) =
    (settle m ResultCancelled (r\<lparr>urlRun := Idle\<rparr>), queue @ [Settled m (Ended reason)])"
  using assms by (cases "urlRun r") (simp_all add: urlDispatch_def run_defs executeUrlRun_def)

lemma drain_ignored:
  assumes "\<forall>e \<in> set queue. urlGateDef (gate r) e = None" and "length queue \<le> steps"
  shows "drain steps env (r, queue) = (Inr (), r)"
  using assms
proof (induction queue arbitrary: steps)
  case (Cons e queue)
  then show ?case by (cases steps) (simp_all add: gateApply_def)
qed simp

lemma drain_numeral [simp]:
  "drain (numeral k) env (r, e # queue) = drain (pred_numeral k) env (gateApply env e (r, queue))"
  by (simp add: numeral_eq_Suc)

lemma tame_sweep [simp]: "tame X r \<Longrightarrow> tame X (sweep env r)"
  by (simp add: tame_def pending_sweep wait_ok_def)

lemma tame_settle: "tame (add_mset n X) r \<Longrightarrow> tame X (settle n x r)"
  by (simp add: tame_def pending_settle wait_ok_def)

lemma tame_gate: "tame X r \<Longrightarrow> g \<noteq> GateOpen \<Longrightarrow> g \<noteq> GateDisposed \<Longrightarrow> tame X (r\<lparr>gate := g\<rparr>)"
  by (simp add: tame_def pending_def flights_def wait_ok_def)

lemma tame_release: "pending X r \<Longrightarrow> tame X (release r)"
  by (auto simp: tame_def pending_release wait_ok_def release_def isOpen_def pending_def flights_def)

lemma waiting_fields [simp]:
  "pending X (r\<lparr>gate := g\<rparr>) = pending X r" "pending X (r\<lparr>reverts := rs\<rparr>) = pending X r"
  "pending X (r\<lparr>waiters := ws\<rparr>) = pending X r" "pending X (r\<lparr>disposed := b\<rparr>) = pending X r"
  by (simp_all add: pending_def flights_def)

lemma gateDispatch_first: "gateDispatch env e r = drain 999 env (gateApply env e (r, []))"
proof -
  have "MAX_CHAINED_DISPATCHES = Suc 999" by (simp add: MAX_CHAINED_DISPATCHES_def)
  then show ?thesis using drain.simps(3)[of 999 env r e "[]"] by (metis gateDispatch_def)
qed

lemma runner_inv_parts:
  "runner_inv X r \<Longrightarrow> tame X r" "runner_inv X r \<Longrightarrow> gate r \<noteq> GateDisposed \<Longrightarrow> urlLive r"
  "runner_inv X r \<Longrightarrow> in_flight (urlRun r) = (case gate r of Navigating n _ _ \<Rightarrow> [n] | _ \<Rightarrow> [])"
  by (auto simp: runner_inv_def link_def)

text \<open>A navigation that is turned away before it ran.\<close>

lemma turned_away:
  assumes "in_flight (urlRun r) = []"
  shows "fold (executeGate env) [AbortRun n reason] (r\<lparr>gate := g\<rparr>, []) = (sweep env (settle n ResultCancelled (r\<lparr>gate := g\<rparr>)), [])"
  using assms by (simp add: executeGate_def abortUrl_def)

lemma tame_reverts: "tame X (r\<lparr>reverts := rs\<rparr>) = tame X r"
  by (simp add: tame_def wait_ok_def)

lemma gate_opens:
  assumes "tame {#} r" and "in_flight (urlRun r) = []" and "g = GateOpen \<and> urlLive r \<or> g = GateDisposed"
  shows "runner_inv {#} (sweep env (release (r\<lparr>gate := g\<rparr>)))"
proof -
  have "tame {#} (release (r\<lparr>gate := g\<rparr>))" using assms(1) by (intro tame_release) (simp add: tame_def)
  then show ?thesis using assms(2,3) by (auto simp: runner_inv_def link_def)
qed

lemma gate_reverts:
  assumes "tame {#} r" and "in_flight (urlRun r) = []" and "urlLive r"
  shows "runner_inv {#} (sweep env (r\<lparr>gate := Reverting queue, reverts := rs\<rparr>))"
proof -
  have "tame {#} (r\<lparr>gate := Reverting queue\<rparr>)" using assms(1) by (rule tame_gate) simp_all
  then show ?thesis using assms(2,3) by (simp add: runner_inv_def link_def tame_reverts)
qed

text \<open>
  How much is to be put back: the navigations that the one in flight replaced and itself, or what is queued.
\<close>

definition backlog :: "('n, 'x, 'p, 'w) runner \<Rightarrow> nat" where
  "backlog r = (case gate r of
     Navigating _ _ replaced \<Rightarrow> Suc (length replaced)
   | Reverting queue \<Rightarrow> Suc (length (tl queue))
   | _ \<Rightarrow> 0)"

text \<open>What a call of the gate comes to: the invariant is kept whether it throws or not, and it does not throw under \<open>c\<close>.\<close>

definition good :: "'n multiset \<Rightarrow> nat \<Rightarrow> bool \<Rightarrow> ('n, 'x, 'p, 'w, unit) runner_outcome \<Rightarrow> bool" where
  "good acc k c out \<longleftrightarrow> runner_inv {#} (snd out) \<and> account (snd out) = acc \<and> backlog (snd out) \<le> k \<and> (c \<longrightarrow> fst out = Inr ())"

lemma good_Inr: "runner_inv {#} r \<Longrightarrow> backlog r \<le> k \<Longrightarrow> account r = acc \<Longrightarrow> good acc k c (Inr (), r)"
  by (simp add: good_def)

lemma good_mono: "good acc k c out \<Longrightarrow> k \<le> k' \<Longrightarrow> (c' \<Longrightarrow> c) \<Longrightarrow> good acc k' c' out"
  by (auto simp: good_def)

lemma backlog_fields [simp]:
  "backlog (sweep env r) = backlog r" "backlog (settle n x r) = backlog r" "backlog (release r) = backlog r"
  "backlog (r\<lparr>urlRun := s\<rparr>) = backlog r" "backlog (r\<lparr>reverts := rs\<rparr>) = backlog r" "backlog (r\<lparr>waiters := ws\<rparr>) = backlog r"
  "backlog (r\<lparr>disposed := b\<rparr>) = backlog r" "backlog (r\<lparr>settlers := ns\<rparr>) = backlog r"
  by (simp_all add: backlog_def)

text \<open>Reverts that land at once are put back one after the other, one step of the drain each.\<close>

lemma drain_landings:
  assumes "runner_inv {#} r" and "gate r = Reverting queue" and "waiting = [] \<or> waiting = [RevertLanded]"
  shows "good (account r) (Suc (length (tl queue))) (Suc (length (tl queue)) \<le> steps) (drain steps env (r, waiting))"
  using assms
proof (induction steps arbitrary: r queue waiting)
  case 0
  then show ?case by (auto simp: good_def backlog_def)
next
  case (Suc steps)
  note inv = runner_inv_parts[OF Suc.prems(1)]
  have u: "in_flight (urlRun r) = []" "urlLive r" using inv Suc.prems(2) by simp_all
  show ?case
  proof (cases "waiting = []")
    case True
    then show ?thesis using Suc.prems(1,2) by (simp add: good_def backlog_def)
  next
    case False
    then have w: "waiting = [RevertLanded]" using Suc.prems(3) by simp
    show ?thesis
    proof (cases "tl queue")
      case Nil
      then show ?thesis using Suc.prems(2) gate_opens[OF inv(1) u(1), of GateOpen env] u(2)
        by (simp add: w gateApply_def revertLanded_def executeGate_def good_def backlog_def)
    next
      case (Cons m rest)
      let ?r = "sweep env (r\<lparr>gate := Reverting (m # rest), reverts := reverts r @ [m]\<rparr>)"
      have "runner_inv {#} ?r" using gate_reverts[OF inv(1) u, where queue = "m # rest"] by simp
      then have "good (account ?r) (Suc (length rest)) (Suc (length rest) \<le> steps) (drain steps env (?r, if lands env m then [RevertLanded] else []))"
        using Suc.IH[of ?r "m # rest" "if lands env m then [RevertLanded] else []"] by simp
      then have "good (account r) (Suc (length rest)) (Suc (length rest) \<le> steps) (drain steps env (?r, if lands env m then [RevertLanded] else []))"
        by simp
      then show ?thesis using Suc.prems(2) Cons
        by (auto simp: w gateApply_def revertLanded_def executeGate_def intro: good_mono)
    qed
  qed
qed

lemma gate_settled:
  assumes "tame {#} r" and "gate r = Navigating n b replaced" and "in_flight (urlRun r) = []" and "urlLive r"
    and "outcome \<in> {Committed, Ended Refused, Ended Cancelled, Ended Failed}"
  shows "good (account r) (Suc (length replaced)) (Suc (length replaced) \<le> steps) (drain (Suc steps) env (r, [Settled n outcome]))"
proof -
  have o: "good (account r) k c (drain steps env (fold (executeGate env) [Opened] (r\<lparr>gate := GateOpen\<rparr>, [])))" for k c
    using gate_opens[OF assms(1,3), of GateOpen env] assms(4) by (simp add: executeGate_def good_def backlog_def)
  have p: "good (account r) (Suc (length replaced)) (Suc (length replaced) \<le> steps)
      (drain steps env (fold (executeGate env) [Revert n] (r\<lparr>gate := Reverting (n # rev replaced)\<rparr>, [])))"
  proof -
    let ?r = "sweep env (r\<lparr>gate := Reverting (n # rev replaced), reverts := reverts r @ [n]\<rparr>)"
    have "runner_inv {#} ?r" by (rule gate_reverts[OF assms(1,3,4)])
    from drain_landings[OF this, of "n # rev replaced" "if lands env n then [RevertLanded] else []" steps env]
    show ?thesis by (cases "lands env n") (simp_all add: executeGate_def)
  qed
  show ?thesis using assms(2,5) o p by (auto simp: gateApply_def gate_settle_def putBack_def)
qed

section \<open>Reports of the URL run\<close>

definition phase_report :: "('n, 'x) run_event \<Rightarrow> bool" where
  "phase_report e \<longleftrightarrow> (case e of Navigate _ \<Rightarrow> False | Abort _ \<Rightarrow> False | _ \<Rightarrow> True)"

lemma report_cases:
  assumes "phase_report e" and "runDef s e = Some t"
  shows "tr_commands t = [] \<and> in_flight (tr_state t) = in_flight s \<or>
    tr_state t = Idle \<and> (\<exists>n c. in_flight s = [n] \<and> tr_commands t = [c] \<and> settled_navigation c = n \<and>
      (\<forall>reason. c = Cancel n reason \<longrightarrow> reason \<in> {Refused, Cancelled, Failed}))"
  using assms by (cases s; cases e) (auto simp: run_defs phase_report_def)

text \<open>A report to the URL run moves it on, is ignored, or ends it with an outcome for the gate.\<close>

abbreviation outcomes :: "url_outcome set" where
  "outcomes \<equiv> {Committed, Ended Refused, Ended Cancelled, Ended Failed}"

lemma report_step:
  assumes "tame {#} r" and "in_flight (urlRun r) = [n]" and "urlLive r" and "phase_report e"
  obtains (moves) r1 where "urlDispatch env e (r, queue) = (r1, queue)" "tame {#} r1" "in_flight (urlRun r1) = [n]" "urlLive r1"
      "gate r1 = gate r" "account r1 = account r"
    | (ends) r1 outcome where "urlDispatch env e (r, queue) = (r1, queue @ [Settled n outcome])" "tame {#} r1" "urlRun r1 = Idle"
      "urlLive r1" "gate r1 = gate r" "account r1 = account r" "outcome \<in> outcomes"
proof (cases "runDef (urlRun r) e")
  case None
  then show thesis using moves[of r] assms by (simp add: urlDispatch_def)
next
  case t: (Some t)
  from report_cases[OF assms(4) t] show thesis
  proof (elim disjE conjE exE)
    assume c: "tr_commands t = []" "in_flight (tr_state t) = in_flight (urlRun r)"
    have "tame {#} (r\<lparr>urlRun := tr_state t\<rparr>)" by (rule tame_urlRun[OF _ assms(1)]) (simp add: c(2))
    then show thesis using moves[of "r\<lparr>urlRun := tr_state t\<rparr>"] t c assms(2,3) by (simp add: urlDispatch_def)
  next
    fix m c assume idle: "tr_state t = Idle" and m: "in_flight (urlRun r) = [m]" and c: "tr_commands t = [c]" "settled_navigation c = m"
      and cancel: "\<forall>reason. c = Cancel m reason \<longrightarrow> reason \<in> {Refused, Cancelled, Failed}"
    have [simp]: "m = n" using m assms(2) by simp
    have i: "tame {#n#} (r\<lparr>urlRun := Idle\<rparr>)" by (rule tame_urlRun[OF _ assms(1)]) (simp add: m)
    show thesis
    proof (cases c)
      case (Commit m' es)
      let ?c = "commit env n es (r\<lparr>urlRun := Idle\<rparr>)"
      have "tame {#n#} (snd ?c)" using i by (rule tame_commit)
      then have s: "tame {#} (settle n (fst ?c) (snd ?c))" by (rule tame_settle)
      show thesis
        by (rule ends[of "settle n (fst ?c) (snd ?c)" "if fst ?c = ResultCancelled then Ended Failed else Committed"])
          (use t idle c Commit s assms(3) in \<open>simp_all add: urlDispatch_def executeUrlRun_def commitUrl_def case_prod_beta\<close>)
    next
      case (Cancel m' reason)
      show thesis
        by (rule ends[of "settle n ResultCancelled (r\<lparr>urlRun := Idle\<rparr>)" "Ended reason"])
          (use t idle c Cancel cancel tame_settle[OF i] assms(3) in \<open>simp_all add: urlDispatch_def executeUrlRun_def\<close>)
    qed
  qed
qed

lemma idle_ignores: "phase_report e \<Longrightarrow> urlRun r = Idle \<Longrightarrow> urlDispatch env e (r, queue) = (r, queue)"
  by (cases e) (auto simp: urlDispatch_def run_defs phase_report_def)

lemma reports_idle: "\<forall>e \<in> set es. phase_report e \<Longrightarrow> urlRun r = Idle \<Longrightarrow> fold (urlDispatch env) es (r, queue) = (r, queue)"
  by (induction es) (simp_all add: idle_ignores)

text \<open>The reports that come at once.\<close>

lemma reports_at_once:
  assumes "tame {#} r" and "in_flight (urlRun r) = [n]" and "urlLive r" and "\<forall>e \<in> set es. phase_report e"
  obtains (moves) r1 where "fold (urlDispatch env) es (r, queue) = (r1, queue)" "tame {#} r1" "in_flight (urlRun r1) = [n]" "urlLive r1"
      "gate r1 = gate r" "account r1 = account r"
    | (ends) r1 outcome where "fold (urlDispatch env) es (r, queue) = (r1, queue @ [Settled n outcome])" "tame {#} r1" "urlRun r1 = Idle"
      "urlLive r1" "gate r1 = gate r" "account r1 = account r" "outcome \<in> outcomes"
  using assms
proof (induction es arbitrary: r thesis)
  case Nil
  then show ?case by simp
next
  case (Cons e es)
  have e: "phase_report e" "\<forall>e \<in> set es. phase_report e" using Cons.prems(6) by simp_all
  from Cons.prems(3-5) e(1) show ?case
  proof (cases rule: report_step[where env = env and queue = queue])
    case (moves r1)
    show ?thesis
    proof (rule Cons.IH[OF _ _ moves(2-4) e(2)])
      fix r2 assume r2: "fold (urlDispatch env) es (r1, queue) = (r2, queue)" "tame {#} r2" "in_flight (urlRun r2) = [n]" "urlLive r2"
        "gate r2 = gate r1" "account r2 = account r1"
      show thesis by (rule Cons.prems(1)[of r2]) (use moves r2 in simp_all)
    next
      fix r2 outcome assume r2: "fold (urlDispatch env) es (r1, queue) = (r2, queue @ [Settled n outcome])" "tame {#} r2" "urlRun r2 = Idle"
        "urlLive r2" "gate r2 = gate r1" "account r2 = account r1" "outcome \<in> outcomes"
      show thesis by (rule Cons.prems(2)[of r2 outcome]) (use moves r2 in simp_all)
    qed
  next
    case (ends r1 outcome)
    show ?thesis
      by (rule Cons.prems(2)[of r1 outcome]) (use ends reports_idle[OF e(2) ends(3)] in simp_all)
  qed
qed

section \<open>The calls of the gate\<close>

text \<open>As long as no more than this many URL navigations are to be put back, the drain of the gate comes to an end.\<close>

abbreviation short :: "nat \<Rightarrow> bool" where
  "short k \<equiv> k \<le> 997"

definition proper_env :: "('n, 'x, 'p, 'w) runner_env \<Rightarrow> bool" where
  "proper_env env \<longleftrightarrow> (\<forall>n. \<forall>e \<in> set (at_once env n). phase_report e)"

lemma apply_replaced:
  assumes "gate r = Navigating n b replaced" and "m \<noteq> n"
  shows "gateApply env (Settled m outcome) (r, queue) = (r, queue)"
  using assms by (simp add: gateApply_def gate_settle_def)

lemma drain_started:
  assumes "tame {#} r" and "gate r = Navigating n b replaced" and "urlLive r" and "in_flight (urlRun r) = [n]"
    and "early = [] \<or> (\<exists>m o'. early = [Settled m o'] \<and> m \<noteq> n)" and "\<forall>e \<in> set es. phase_report e"
    and "fold (urlDispatch env) es (r, early) = (r1, queue)"
  shows "good (account r) (Suc (length replaced)) (short (Suc (length replaced))) (drain 999 env (sweep env r1, queue))"
  using assms(1,4,3,6)
proof (cases rule: reports_at_once[where env = env and queue = early])
  case (moves r2)
  then have "runner_inv {#} (sweep env r1)" "account r1 = account r" "backlog r1 = Suc (length replaced)" "queue = early"
    "gate r1 = Navigating n b replaced"
    using assms(2,7) by (simp_all add: runner_inv_def link_def backlog_def)
  moreover have "drain 999 env (sweep env r1, early) = (Inr (), sweep env r1)"
    by (rule drain_ignored) (use assms(5) calculation(5) in \<open>auto simp: gate_settle_def\<close>)
  ultimately show ?thesis by (simp add: good_def)
next
  case (ends r2 outcome)
  have r1: "r1 = r2" "queue = early @ [Settled n outcome]" using ends(1) assms(7) by simp_all
  have g: "gate (sweep env r2) = Navigating n b replaced" using ends(5) assms(2) by simp
  have settled: "good (account r) (Suc (length replaced)) (Suc (length replaced) \<le> steps) 
      (drain steps env (gateApply env (Settled n outcome) (sweep env r2, [])))" for steps
    using gate_settled[OF tame_sweep[OF ends(2)] g _ _ ends(7), of steps env] ends(3,4,6) by simp
  show ?thesis
  proof (cases "early = []")
    case True
    then have "drain 999 env (sweep env r1, queue) = drain 998 env (gateApply env (Settled n outcome) (sweep env r2, []))"
      by (simp add: r1)
    then show ?thesis by (simp only:) (rule good_mono[OF settled[of 998]], simp_all)
  next
    case False
    then obtain m o' where "early = [Settled m o']" "m \<noteq> n" using assms(5) by auto
    then have "drain 999 env (sweep env r1, queue) = drain 997 env (gateApply env (Settled n outcome) (sweep env r2, []))"
      by (simp add: r1 apply_replaced[OF g])
    then show ?thesis by (simp only:) (rule good_mono[OF settled[of 997]], simp_all)
  qed
qed

text \<open>The pane runs are cancelled and the URL run takes the navigation, cutting off the one it had.\<close>

lemma run_begins:
  assumes "tame {#n#} r" and "urlLive r" and "in_flight (urlRun r) = ms" and "length ms \<le> 1"
  obtains r3 early where
    "fold (executeGate env) [CancelPaneRuns, Run n] (r\<lparr>gate := Navigating n b replaced\<rparr>, []) =
      map_prod (sweep env) id (fold (urlDispatch env) (at_once env n) (r3, early))"
    "tame {#} r3" "gate r3 = Navigating n b replaced" "urlLive r3" "in_flight (urlRun r3) = [n]" "account r3 = account r"
    "early = [] \<or> (\<exists>m o'. early = [Settled m o'] \<and> m \<noteq> n)"
proof -
  define r2 where "r2 = sweep env (abortPanes env Superseded (r\<lparr>gate := Navigating n b replaced\<rparr>))"
  have r2: "tame {#n#} r2" "urlLive r2" "in_flight (urlRun r2) = ms" "gate r2 = Navigating n b replaced" "account r2 = account r"
    using assms by (simp_all add: r2_def tame_abortPanes tame_gate)
  have "n \<notin> set ms"
  proof -
    have "distinct (settlers r2)" "mset (settlers r2) = add_mset n (mset (flights r2))" using r2(1) by (simp_all add: tame_def pending_def)
    then have "n \<notin> set (flights r2)" by (metis distinct.simps(2) mset.simps(2) mset_eq_imp_distinct_iff)
    then show ?thesis using r2(3) by (simp add: flights_def)
  qed
  have run: "fold (executeGate env) [CancelPaneRuns, Run n] (r\<lparr>gate := Navigating n b replaced\<rparr>, []) =
      map_prod (sweep env) id (fold (urlDispatch env) (at_once env n) (urlDispatch env (Navigate n) (r2, [])))"
    by (simp add: executeGate_def flip: r2_def)
  consider "ms = []" | m where "ms = [m]" "m \<noteq> n" using assms(4) \<open>n \<notin> set ms\<close> by (cases ms) auto
  then show thesis
  proof cases
    case 1
    have t: "tame {#} (r2\<lparr>urlRun := Guards n\<rparr>)" by (rule tame_urlRun[OF _ r2(1)]) (simp add: r2(3) 1)
    show thesis by (rule that[of "r2\<lparr>urlRun := Guards n\<rparr>" "[]"]) (use r2 1 t run in \<open>simp_all add: urlDispatch_navigate\<close>)
  next
    case 2
    let ?r = "settle m ResultCancelled (r2\<lparr>urlRun := Guards n\<rparr>)"
    have "tame {#m#} (r2\<lparr>urlRun := Guards n\<rparr>)" by (rule tame_urlRun[OF _ r2(1)]) (simp add: r2(3) 2)
    then have t: "tame {#} ?r" by (rule tame_settle)
    show thesis by (rule that[of ?r "[Settled m (Ended Superseded)]"]) (use r2 2 t run in \<open>simp_all add: urlDispatch_navigate\<close>)
  qed
qed

lemma gate_runs:
  assumes "tame {#n#} r" and "urlLive r" and "in_flight (urlRun r) = ms" and "length ms \<le> 1" and "proper_env env"
  shows "good (account r) (Suc (length replaced)) (short (Suc (length replaced)))
    (drain 999 env (fold (executeGate env) [CancelPaneRuns, Run n] (r\<lparr>gate := Navigating n b replaced\<rparr>, [])))"
proof -
  from run_begins[OF assms(1-4), of env b replaced] obtain r3 early where
    run: "fold (executeGate env) [CancelPaneRuns, Run n] (r\<lparr>gate := Navigating n b replaced\<rparr>, []) =
      map_prod (sweep env) id (fold (urlDispatch env) (at_once env n) (r3, early))"
    and r3: "tame {#} r3" "gate r3 = Navigating n b replaced" "urlLive r3" "in_flight (urlRun r3) = [n]" "account r3 = account r"
    "early = [] \<or> (\<exists>m o'. early = [Settled m o'] \<and> m \<noteq> n)" .
  obtain r4 queue where r4: "fold (urlDispatch env) (at_once env n) (r3, early) = (r4, queue)"
    by (cases "fold (urlDispatch env) (at_once env n) (r3, early)")
  have "\<forall>e \<in> set (at_once env n). phase_report e" using assms(5) by (simp add: proper_env_def)
  from drain_started[OF r3(1-4,6) this r4] show ?thesis unfolding run r4 r3(5) by simp
qed

lemma gate_start:
  assumes "runner_inv {#n#} r" and "proper_env env"
  shows "good (account r) (Suc (backlog r)) (short (Suc (backlog r))) (gateDispatch env (Start n b) r)"
proof (cases "gate r")
  case GateOpen
  then show ?thesis using gate_runs[of n r "[]" env "[]" b] runner_inv_parts[OF assms(1)] assms(2)
    by (simp add: gateDispatch_first gateApply_def gate_run_def backlog_def)
next
  case (Navigating m c replaced)
  then show ?thesis using gate_runs[of n r "[m]" env "replaced @ [m]" "c \<or> b"] runner_inv_parts[OF assms(1)] assms(2)
    by (simp add: gateDispatch_first gateApply_def gate_run_def gate_supersede_def backlog_def)
next
  case (Reverting queue)
  let ?r = "r\<lparr>gate := Reverting (hd queue # n # tl queue)\<rparr>"
  have "tame {#} (settle n ResultCancelled ?r)" using runner_inv_parts(1)[OF assms(1)] by (intro tame_settle tame_gate) simp_all
  then have "runner_inv {#} (sweep env (settle n ResultCancelled ?r))"
    using Reverting runner_inv_parts[OF assms(1)] by (simp add: runner_inv_def link_def)
  moreover have "gateDispatch env (Start n b) r = (Inr (), sweep env (settle n ResultCancelled ?r))"
    using Reverting turned_away[of r env n Interrupted] runner_inv_parts(3)[OF assms(1)]
    by (simp add: gateDispatch_first gateApply_def queueRevert_def)
  ultimately show ?thesis using Reverting by (simp add: good_def backlog_def)
next
  case GateDisposed
  have "r\<lparr>gate := GateDisposed\<rparr> = r" using GateDisposed by simp
  then have "tame {#} (settle n ResultCancelled (r\<lparr>gate := GateDisposed\<rparr>))" using runner_inv_parts(1)[OF assms(1)] by (simp add: tame_settle)
  then have "runner_inv {#} (sweep env (settle n ResultCancelled (r\<lparr>gate := GateDisposed\<rparr>)))"
    using GateDisposed runner_inv_parts[OF assms(1)] by (simp add: runner_inv_def link_def)
  moreover have "gateDispatch env (Start n b) r = (Inr (), sweep env (settle n ResultCancelled (r\<lparr>gate := GateDisposed\<rparr>)))"
    using GateDisposed turned_away[of r env n Disposed] runner_inv_parts(3)[OF assms(1)]
    by (simp add: gateDispatch_first gateApply_def)
  ultimately show ?thesis by (simp add: good_def backlog_def)
qed

lemma gate_interrupts:
  assumes "runner_inv {#} r" and "gate r = Navigating n False replaced"
  shows "good (account r) (Suc (length replaced)) (short (Suc (length replaced))) (gateDispatch env Action r)"
proof -
  note inv = runner_inv_parts[OF assms(1)]
  let ?q = "n # rev replaced"
  let ?r = "settle n ResultCancelled (r\<lparr>gate := Reverting ?q, urlRun := Idle\<rparr>)"
  let ?r2 = "sweep env ((sweep env ?r)\<lparr>reverts := reverts (sweep env ?r) @ [n]\<rparr>)"
  let ?landed = "if lands env n then [RevertLanded] else []"
  have "tame {#n#} (r\<lparr>urlRun := Idle\<rparr>)" by (rule tame_urlRun[OF _ inv(1)]) (simp add: inv(3) assms(2))
  then have t: "tame {#} (settle n ResultCancelled (r\<lparr>urlRun := Idle\<rparr>))" by (rule tame_settle)
  have g: "(settle n ResultCancelled (r\<lparr>urlRun := Idle\<rparr>))\<lparr>gate := Reverting ?q\<rparr> = ?r" by (simp add: settle_def)
  have "tame {#} ?r" unfolding g[symmetric] using t by (rule tame_gate) simp_all
  then have i: "runner_inv {#} ?r2" using inv assms(2) by (simp add: runner_inv_def link_def tame_reverts)
  have "gateApply env Action (r, []) = (?r2, Settled n (Ended Interrupted) # ?landed)"
    using assms(2) inv by (simp add: gateApply_def interrupt_def putBack_def executeGate_def abortUrl_def urlDispatch_abort)
  moreover have "drain 999 env (?r2, Settled n (Ended Interrupted) # ?landed) = drain 998 env (?r2, ?landed)"
    by (simp add: gateApply_def)
  ultimately have d: "gateDispatch env Action r = drain 998 env (?r2, ?landed)" by (simp only: gateDispatch_first)
  have "good (account ?r2) (Suc (length (tl ?q))) (Suc (length (tl ?q)) \<le> 998) (drain 998 env (?r2, ?landed))"
    by (rule drain_landings[OF i]) simp_all
  moreover have "account ?r2 = account r" by simp
  ultimately have "good (account r) (Suc (length replaced)) (Suc (length replaced) \<le> 998) (drain 998 env (?r2, ?landed))" by simp
  then show ?thesis unfolding d by (rule good_mono) simp_all
qed

lemma gate_action:
  assumes "runner_inv {#} r"
  shows "good (account r) (backlog r) (short (backlog r)) (gateDispatch env Action r)"
proof (cases "gate r")
  case (Navigating n b replaced)
  then show ?thesis using gate_interrupts[OF assms, of n replaced env] assms
    by (cases b) (simp_all add: gateDispatch_first gateApply_def interrupt_def good_def backlog_def)
next
  case (Reverting queue)
  then show ?thesis using assms by (simp add: gateDispatch_first gateApply_def good_def)
next
  case GateOpen
  then show ?thesis using gate_opens[OF runner_inv_parts(1)[OF assms], of GateOpen env] runner_inv_parts[OF assms]
    by (simp add: gateDispatch_first gateApply_def executeGate_def good_def backlog_def)
next
  case GateDisposed
  then show ?thesis using gate_opens[OF runner_inv_parts(1)[OF assms], of GateDisposed env] runner_inv_parts[OF assms]
    by (simp add: gateDispatch_first gateApply_def executeGate_def good_def backlog_def)
qed

lemma gate_landed:
  assumes "runner_inv {#} r"
  shows "good (account r) (backlog r) (short (backlog r)) (gateDispatch env RevertLanded r)"
proof (cases "gate r")
  case (Reverting queue)
  have "good (account r) (Suc (length (tl queue))) (Suc (length (tl queue)) \<le> 1000) (gateDispatch env RevertLanded r)"
    unfolding gateDispatch_def MAX_CHAINED_DISPATCHES_def by (rule drain_landings[OF assms Reverting]) simp
  then show ?thesis by (rule good_mono) (use Reverting in \<open>simp_all add: backlog_def\<close>)
qed (use assms in \<open>simp_all add: gateDispatch_first gateApply_def good_def\<close>)

lemma gate_dispose:
  assumes "runner_inv {#} r"
  shows "\<exists>r'. gateDispatch env Dispose r = (Inr (), r') \<and> gate r' = GateDisposed \<and> runner_inv {#} r' \<and> account r' = account r"
proof -
  note inv = runner_inv_parts[OF assms]
  have opened: "runner_inv {#} (sweep env (release (r\<lparr>gate := GateDisposed\<rparr>)))" if "in_flight (urlRun r) = []"
    using gate_opens[OF inv(1) that, of GateDisposed env] by simp
  show ?thesis
  proof (cases "gate r")
    case GateOpen
    then have "tame {#} (r\<lparr>gate := GateDisposed\<rparr>)" using inv(1) by (simp add: tame_def wait_ok_def)
    then have "runner_inv {#} (r\<lparr>gate := GateDisposed\<rparr>)" using inv GateOpen by (simp add: runner_inv_def link_def)
    then show ?thesis using GateOpen by (simp add: gateDispatch_first gateApply_def)
  next
    case (Navigating n b replaced)
    let ?r = "sweep env (settle n ResultCancelled (r\<lparr>gate := GateDisposed, urlRun := Idle\<rparr>))"
    have "tame {#n#} (r\<lparr>urlRun := Idle\<rparr>)" by (rule tame_urlRun[OF _ inv(1)]) (simp add: inv(3) Navigating)
    then have "pending {#} (settle n ResultCancelled (r\<lparr>urlRun := Idle\<rparr>))" by (simp add: tame_def pending_settle)
    moreover have "settle n ResultCancelled (r\<lparr>gate := GateDisposed, urlRun := Idle\<rparr>) =
        (settle n ResultCancelled (r\<lparr>urlRun := Idle\<rparr>))\<lparr>gate := GateDisposed\<rparr>" by (simp add: settle_def)
    ultimately have "pending {#} (settle n ResultCancelled (r\<lparr>gate := GateDisposed, urlRun := Idle\<rparr>))"
      by (simp only: waiting_fields)
    then have "tame {#} (release ?r)" by (intro tame_release pending_sweep)
    then have i: "runner_inv {#} (sweep env (release ?r))" by (simp add: runner_inv_def link_def)
    have "gateApply env Dispose (r, []) = (sweep env (release ?r), [Settled n (Ended Disposed)])"
      using Navigating inv by (simp add: gateApply_def disposeNavigating_def executeGate_def abortUrl_def urlDispatch_abort)
    moreover have "drain 999 env (sweep env (release ?r), [Settled n (Ended Disposed)]) = (Inr (), sweep env (release ?r))"
      by (rule drain_ignored) simp_all
    ultimately show ?thesis using i by (simp add: gateDispatch_first)
  next
    case (Reverting queue)
    then show ?thesis using opened inv by (simp add: gateDispatch_first gateApply_def executeGate_def)
  next
    case GateDisposed
    then show ?thesis using assms by (simp add: gateDispatch_first gateApply_def)
  qed
qed

text \<open>A report that comes while the gate is not working.\<close>

lemma url_report:
  assumes "runner_inv {#} r" and "phase_report e"
  shows "good (account r) (backlog r) (short (backlog r)) (urlReport env e r)"
proof (cases "urlLive r \<and> urlRun r \<noteq> Idle")
  case False
  then have "urlDispatch env e (r, []) = (r, [])" using idle_ignores[OF assms(2), of r env "[]"] by (auto simp: urlDispatch_def)
  then show ?thesis using assms(1) by (simp add: urlReport_def good_def)
next
  case True
  note inv = runner_inv_parts[OF assms(1)]
  obtain n where n: "in_flight (urlRun r) = [n]" using True by (cases "urlRun r") auto
  obtain b replaced where g: "gate r = Navigating n b replaced" using inv(3) n by (cases "gate r") simp_all
  from inv(1) n conjunct1[OF True] assms(2) show ?thesis
  proof (cases rule: report_step[where env = env and queue = "[]"])
    case (moves r1)
    then have "runner_inv {#} r1" using g by (simp add: runner_inv_def link_def)
    then show ?thesis using moves by (simp add: urlReport_def good_def backlog_def)
  next
    case (ends r1 outcome)
    have "good (account r1) (Suc (length replaced)) (Suc (length replaced) \<le> 999) (drain (Suc 999) env (r1, [Settled n outcome]))"
      by (rule gate_settled) (use ends g in simp_all)
    moreover have "urlReport env e r = drain (Suc 999) env (r1, [Settled n outcome])"
      using ends(1) by (simp add: urlReport_def MAX_CHAINED_DISPATCHES_def)
    ultimately have "good (account r) (Suc (length replaced)) (Suc (length replaced) \<le> 999) (urlReport env e r)"
      using ends(6) by simp
    then show ?thesis by (rule good_mono) (use g in \<open>simp_all add: backlog_def\<close>)
  qed
qed
lemma runner_inv_paneDispatch:
  assumes "runner_inv (mset (started [e]) + X) r" and "started [e] \<noteq> [] \<longrightarrow> map_of (paneRuns r) p \<noteq> None"
  shows "runner_inv X (paneDispatch env p e r)"
  using assms tame_paneDispatch[of e X r p env] by (simp add: runner_inv_def link_def)

lemma runner_inv_paneRun:
  assumes "runner_inv X r"
  shows "runner_inv X (paneRun p r)" and "map_of (paneRuns (paneRun p r)) p \<noteq> None" and "account (paneRun p r) = account r"
proof -
  have "tame X (paneRun p r)" using assms
    by (auto simp: runner_inv_def tame_def pending_def wait_ok_def flights_def paneRun_def map_of_eq_None_iff split: option.splits)
  then show "runner_inv X (paneRun p r)" using assms by (auto simp: runner_inv_def link_def paneRun_def split: option.splits)
  show "map_of (paneRuns (paneRun p r)) p \<noteq> None" "account (paneRun p r) = account r"
    by (auto simp: paneRun_def map_add_def split: option.splits)
qed

lemma runner_inv_new:
  assumes "runner_inv {#} r" and "n \<notin> set (settlers r)"
  shows "runner_inv {#n#} (r\<lparr>settlers := settlers r @ [n]\<rparr>)" and "account (r\<lparr>settlers := settlers r @ [n]\<rparr>) = add_mset n (account r)"
  using assms by (simp_all add: runner_inv_def tame_def pending_def wait_ok_def flights_def link_def account_def)

section \<open>Runs\<close>

fun starts :: "('n, 'x, 'p, 'w) runner_input \<Rightarrow> 'n list" where
  "starts (StartPane p n) = [n]"
| "starts (StartUrl n b) = [n]"
| "starts _ = []"

fun url_starts :: "('n, 'x, 'p, 'w) runner_input \<Rightarrow> 'n list" where
  "url_starts (StartUrl n b) = [n]"
| "url_starts _ = []"

text \<open>What phases report is the outcome of a phase.\<close>

fun proper :: "('n, 'x, 'p, 'w) runner_env \<times> ('n, 'x, 'p, 'w) runner_input \<Rightarrow> bool" where
  "proper (env, PaneReport p e) \<longleftrightarrow> proper_env env \<and> phase_report e"
| "proper (env, UrlReport e) \<longleftrightarrow> proper_env env \<and> phase_report e"
| "proper (env, _) \<longleftrightarrow> proper_env env"

lemma proper_env: "proper (env, i) \<Longrightarrow> proper_env env"
  by (cases i) simp_all

lemma good_act:
  assumes inv: "runner_inv {#} r"
  shows "good (account r) (backlog r) (short (backlog r)) (runner_step env (Act w) r)"
proof -
  have c: "committing r = 0" using inv by (simp add: runner_inv_def tame_def pending_def)
  obtain out r1 where r1: "gateDispatch env Action r = (out, r1)" by (cases "gateDispatch env Action r")
  then have g: "runner_inv {#} r1" "account r1 = account r" "backlog r1 \<le> backlog r" "short (backlog r) \<longrightarrow> out = Inr ()"
    using gate_action[OF inv, of env] by (auto simp: good_def)
  have w: "runner_inv {#} (r1\<lparr>waiters := waiters r1 @ [w]\<rparr>)" if "\<not> isOpen r1"
    using g(1) that by (auto simp: runner_inv_def tame_def wait_ok_def link_def isOpen_def pending_def flights_def)
  show ?thesis
  proof (cases out)
    case (Inl fault)
    then show ?thesis using inv g r1 by (auto simp: act_def whenIdle_def c good_def)
  next
    case (Inr a)
    then show ?thesis using inv g r1 w by (auto simp: act_def whenIdle_def c good_def)
  qed
qed

lemma good_dispose:
  assumes "runner_inv {#} r"
  shows "\<exists>r'. dispose env r = (Inr (), r') \<and> runner_inv {#} r' \<and> account r' = account r \<and> backlog r' = 0 \<and>
    flights r' = [] \<and> settlers r' = [] \<and> waiters r' = []"
proof -
  have i: "runner_inv {#} (r\<lparr>disposed := True\<rparr>)" using assms by (simp add: runner_inv_def tame_def wait_ok_def link_def)
  obtain r1 where r1: "gateDispatch env Dispose (r\<lparr>disposed := True\<rparr>) = (Inr (), r1)" "gate r1 = GateDisposed" "runner_inv {#} r1" "account r1 = account r"
    using gate_dispose[OF i, of env] by auto
  let ?r = "abortPanes env Disposed r1"
  have t: "tame {#} ?r" using r1(3) by (simp add: runner_inv_def tame_abortPanes)
  have idle: "concat (map (in_flight \<circ> snd) (paneRuns ?r)) = []"
    using abortPanes_idle[OF runner_inv_parts(1)[OF r1(3)]] by fastforce
  have url: "in_flight (urlRun ?r) = []" using runner_inv_parts(3)[OF r1(3)] r1(2) by simp
  then have f: "flights ?r = []" using idle by (simp add: flights_def)
  then have s: "settlers ?r = []" using t by (simp add: tame_def pending_def)
  have w: "waiters ?r = []" using t r1(2) by (simp add: tame_def wait_ok_def)
  have "runner_inv {#} (?r\<lparr>paneRuns := [], urlLive := False\<rparr>)"
    using t r1(2) url s w by (simp add: runner_inv_def tame_def pending_def wait_ok_def link_def flights_def)
  then show ?thesis using r1 s w url by (simp add: dispose_def flights_def backlog_def)
qed

lemma good_step:
  assumes "runner_inv {#} r" and "proper (env, i)" and "set (starts i) \<inter> set (settlers r) = {}"
  shows "good (mset (starts i) + account r) (length (url_starts i) + backlog r) (short (length (url_starts i) + backlog r)) (runner_step env i r)"
proof (cases i)
  case (StartPane p n)
  let ?r = "r\<lparr>settlers := settlers r @ [n]\<rparr>"
  have n: "runner_inv {#n#} ?r" "account ?r = add_mset n (account r)" using runner_inv_new[OF assms(1)] assms(3) StartPane by simp_all
  note q = runner_inv_paneRun[OF n(1), of p]
  have "runner_inv {#} (paneDispatch env p (Navigate n) (paneRun p ?r))"
    by (rule runner_inv_paneDispatch) (use q in simp_all)
  moreover have "backlog (paneDispatch env p (Navigate n) (paneRun p ?r)) = backlog r"
    by (simp add: backlog_def paneRun_def split: option.split)
  ultimately show ?thesis using StartPane q(3) n(2) by (simp add: start_def good_def)
next
  case (StartUrl n b)
  have "runner_inv {#n#} (r\<lparr>settlers := settlers r @ [n]\<rparr>)" using runner_inv_new[OF assms(1)] assms(3) StartUrl by simp
  from gate_start[OF this proper_env[OF assms(2)], of b] show ?thesis using StartUrl runner_inv_new(2)[OF assms(1), of n] assms(3)
    by (simp add: startUrl_def)
next
  case (CommitNow n es)
  then show ?thesis using assms(1) tame_commit[of "{#}" r env n es] by (simp add: good_def runner_inv_def link_def backlog_def)
next
  case (Act w)
  then show ?thesis using good_act[OF assms(1), of env w] by simp
next
  case (AbortPane p)
  then show ?thesis using runner_inv_paneDispatch[of "Abort Superseded" "{#}" r p env] assms(1) by (simp add: good_def backlog_def)
next
  case (PaneReport p e)
  have "started [e] = []" using PaneReport assms(2) by (cases e) (simp_all add: phase_report_def)
  then show ?thesis using runner_inv_paneDispatch[of e "{#}" r p env] assms(1) PaneReport by (simp add: good_def backlog_def)
next
  case (UrlReport e)
  then show ?thesis using url_report[OF assms(1)] assms(2) by simp
next
  case RevertDone
  then show ?thesis using gate_landed[OF assms(1)] by simp
next
  case DisposeRunner
  then show ?thesis using good_dispose[OF assms(1), of env] by (auto simp: good_def)
qed

abbreviation all_starts :: "(('n, 'x, 'p, 'w) runner_env \<times> ('n, 'x, 'p, 'w) runner_input) list \<Rightarrow> 'n list" where
  "all_starts inputs \<equiv> concat (map (\<lambda>i. starts (snd i)) inputs)"

abbreviation all_url_starts :: "(('n, 'x, 'p, 'w) runner_env \<times> ('n, 'x, 'p, 'w) runner_input) list \<Rightarrow> 'n list" where
  "all_url_starts inputs \<equiv> concat (map (\<lambda>i. url_starts (snd i)) inputs)"

definition good_end ::
  "'n multiset \<Rightarrow> nat \<Rightarrow> runner_fault list \<times> ('n, 'x, 'p, 'w) runner \<Rightarrow> bool" where
  "good_end acc k out \<longleftrightarrow> runner_inv {#} (snd out) \<and> account (snd out) = acc \<and> (short k \<longrightarrow> fst out = [])"

lemma runner_run_append:
  "runner_run (is @ js) r = (let (fs, t) = runner_run is r; (gs, u) = runner_run js t in (fs @ gs, u))"
proof (induction "is" arbitrary: r)
  case (Cons x "is")
  obtain env i where x: "x = (env, i)" by (cases x)
  show ?case using Cons by (cases "fst (runner_step env i r)"; cases "runner_step env i r") (simp_all add: x Let_def case_prod_beta apfst_def)
qed (simp add: case_prod_beta)

lemma good_run:
  assumes "runner_inv {#} r" and "distinct (all_starts inputs)" and "\<forall>i \<in> set inputs. proper i"
    and "set (all_starts inputs) \<inter> set_mset (account r) = {}"
  shows "good_end (mset (all_starts inputs) + account r) (length (all_url_starts inputs) + backlog r) (runner_run inputs r)"
  using assms
proof (induction inputs arbitrary: r)
  case Nil
  then show ?case by (simp add: good_end_def)
next
  case (Cons p inputs)
  obtain env i where p: "p = (env, i)" by (cases p)
  obtain out r1 where r1: "runner_step env i r = (out, r1)" by (cases "runner_step env i r")
  have "set (starts i) \<inter> set (settlers r) = {}" using Cons.prems(4) p by (auto simp: account_def)
  then have g: "runner_inv {#} r1" "account r1 = mset (starts i) + account r" "backlog r1 \<le> length (url_starts i) + backlog r"
      "short (length (url_starts i) + backlog r) \<longrightarrow> out = Inr ()"
    using good_step[OF Cons.prems(1), of env i] Cons.prems(3) p r1 by (simp_all add: good_def)
  have "set (all_starts inputs) \<inter> set_mset (account r1) = {}"
    using Cons.prems(2,4) p g(2) by auto
  then have "good_end (mset (all_starts inputs) + account r1) (length (all_url_starts inputs) + backlog r1) (runner_run inputs r1)"
    by (intro Cons.IH) (use Cons.prems(2,3) p g in auto)
  then show ?case using p r1 g by (auto simp: good_end_def ac_simps split: sum.split)
qed

lemma runner_inv_initial: "runner_inv {#} createRunner" "account createRunner = {#}" "backlog createRunner = 0"
  by (simp_all add: runner_inv_def tame_def pending_def wait_ok_def link_def flights_def createRunner_def account_def backlog_def)

lemma good_from_start:
  assumes "distinct (all_starts inputs)" and "\<forall>i \<in> set inputs. proper i"
  shows "good_end (mset (all_starts inputs)) (length (all_url_starts inputs)) (runner_run inputs createRunner)"
proof -
  have "set (all_starts inputs) \<inter> set_mset (account createRunner) = {}"
    by (simp only: runner_inv_initial(2)) simp
  from good_run[OF runner_inv_initial(1) assms this] show ?thesis
    by (simp only: runner_inv_initial(2,3)) simp
qed

text \<open>
  C28.  From a new runner on, after any inputs in any order, provided that no navigation is started twice and that
  what a phase reports is the outcome of a phase: every navigation that was started has been settled exactly
  once or is in flight in one run; the gate is navigating exactly while the URL run is, with the same
  navigation; and no action waits while the gate is open.  Reverts may land later or at once.  All this holds even
  when a call threw because the gate's queue of events did not end within \<open>MAX_CHAINED_DISPATCHES\<close> steps, and no
  call throws as long as at most 997 URL navigations were started.
\<close>

theorem runner_settles_each_once:
  assumes "distinct (all_starts inputs)" and "\<forall>i \<in> set inputs. proper i"
  shows "let (faults, r) = runner_run inputs createRunner in
    mset (all_starts inputs) = mset (map fst (results r)) + mset (flights r) \<and>
    in_flight (urlRun r) = (case gate r of Navigating n _ _ \<Rightarrow> [n] | _ \<Rightarrow> []) \<and>
    (waiters r \<noteq> [] \<longrightarrow> \<not> isOpen r) \<and>
    (length (all_url_starts inputs) \<le> 997 \<longrightarrow> faults = [])"
proof -
  obtain faults r where run: "runner_run inputs createRunner = (faults, r)" by (cases "runner_run inputs createRunner")
  then have r: "runner_inv {#} r" "account r = mset (all_starts inputs)" "short (length (all_url_starts inputs)) \<longrightarrow> faults = []"
    using good_from_start[OF assms] by (simp_all add: good_end_def)
  have "mset (settlers r) = mset (flights r)" using r(1) by (simp add: runner_inv_def tame_def pending_def)
  then show ?thesis using run r by (auto simp: account_def runner_inv_def link_def tame_def wait_ok_def isOpen_def)
qed


section \<open>Too many reverts that land at once\<close>

text \<open>The gate gets stuck: the events left in its queue are dropped while it waits for the next revert to land.\<close>

lemma landings_cut:
  assumes "gate r = Reverting queue" and "\<forall>m. lands env m" and "steps < length queue"
  shows "\<exists>r'. drain steps env (r, [RevertLanded]) = (Inl ChainedTooLong, r') \<and> gate r' = Reverting (drop steps queue) \<and>
    urlRun r' = urlRun r \<and> waiters r' = waiters r"
  using assms
proof (induction steps arbitrary: r queue)
  case (Suc steps)
  obtain n m rest where q: "queue = n # m # rest" using Suc.prems(3) by (cases queue; cases "tl queue") auto
  let ?r = "sweep env (r\<lparr>gate := Reverting (m # rest), reverts := reverts r @ [m]\<rparr>)"
  have "drain (Suc steps) env (r, [RevertLanded]) = drain steps env (?r, [RevertLanded])"
    using Suc.prems(1,2) q by (simp add: gateApply_def revertLanded_def executeGate_def)
  then show ?case using Suc.IH[of ?r "m # rest"] Suc.prems q by simp
qed simp

lemma interrupt_cut:
  assumes "runner_inv {#} r" and "gate r = Navigating n False replaced" and "998 \<le> length replaced" and "\<forall>m. lands env m"
  shows "\<exists>r'. runner_step env (Act w) r = (Inl ChainedTooLong, r') \<and> gate r' = Reverting (drop 998 (n # rev replaced)) \<and>
    in_flight (urlRun r') = [] \<and> waiters r' = waiters r"
proof -
  note inv = runner_inv_parts[OF assms(1)]
  let ?q = "n # rev replaced"
  let ?r = "settle n ResultCancelled (r\<lparr>gate := Reverting ?q, urlRun := Idle\<rparr>)"
  let ?r2 = "sweep env ((sweep env ?r)\<lparr>reverts := reverts (sweep env ?r) @ [n]\<rparr>)"
  have "gateApply env Action (r, []) = (?r2, [Settled n (Ended Interrupted), RevertLanded])"
    using assms(2,4) inv by (simp add: gateApply_def interrupt_def putBack_def executeGate_def abortUrl_def urlDispatch_abort)
  moreover have "drain 999 env (?r2, [Settled n (Ended Interrupted), RevertLanded]) = drain 998 env (?r2, [RevertLanded])"
    by (simp add: gateApply_def)
  ultimately have "gateDispatch env Action r = drain 998 env (?r2, [RevertLanded])" by (simp only: gateDispatch_first)
  moreover have "\<exists>r'. drain 998 env (?r2, [RevertLanded]) = (Inl ChainedTooLong, r') \<and> gate r' = Reverting (drop 998 ?q) \<and>
      urlRun r' = urlRun ?r2 \<and> waiters r' = waiters ?r2"
    by (rule landings_cut) (use assms(3,4) in simp_all)
  moreover have "committing r = 0" using inv(1) by (rule tame_committing)
  ultimately show ?thesis using assms(2) by (auto simp: act_def whenIdle_def isOpen_def)
qed

text \<open>A URL navigation whose phases all wait replaces the one in flight.\<close>

lemma waiting_start:
  assumes "runner_inv {#n#} r" and "at_once env n = []" and "gate r = GateOpen \<and> replaced = [] \<or> (\<exists>m old. gate r = Navigating m False old \<and> replaced = old @ [m])"
  shows "\<exists>r'. gateDispatch env (Start n False) r = (Inr (), r') \<and> gate r' = Navigating n False replaced \<and> runner_inv {#} r' \<and> account r' = account r"
proof -
  note inv = runner_inv_parts[OF assms(1)]
  have "length (in_flight (urlRun r)) \<le> 1" "urlLive r" using inv(2,3) assms(3) by auto
  from run_begins[OF inv(1) this(2) refl this(1), of env False replaced] obtain r3 early where
    run: "fold (executeGate env) [CancelPaneRuns, Run n] (r\<lparr>gate := Navigating n False replaced\<rparr>, []) = (sweep env r3, early)"
    and r3: "tame {#} r3" "gate r3 = Navigating n False replaced" "urlLive r3" "in_flight (urlRun r3) = [n]" "account r3 = account r"
    "early = [] \<or> (\<exists>m o'. early = [Settled m o'] \<and> m \<noteq> n)" by (auto simp: assms(2))
  have "gateDispatch env (Start n False) r = drain 999 env (sweep env r3, early)"
    using assms(3) run by (auto simp: gateDispatch_first gateApply_def gate_run_def gate_supersede_def)
  moreover have "drain 999 env (sweep env r3, early) = (Inr (), sweep env r3)"
    by (rule drain_ignored) (use r3 in \<open>auto simp: gate_settle_def\<close>)
  moreover have "runner_inv {#} (sweep env r3)" using r3 by (simp add: runner_inv_def link_def)
  ultimately show ?thesis using r3 by simp
qed

lemma waiting_starts:
  assumes "\<forall>n. at_once env n = []" and "distinct ns" and "ns \<noteq> []"
  shows "\<exists>r. runner_run (map (\<lambda>n. (env, StartUrl n False)) ns) createRunner = ([], r) \<and> runner_inv {#} r \<and>
    gate r = Navigating (last ns) False (butlast ns) \<and> account r = mset ns"
  using assms(2,3)
proof (induction ns rule: rev_induct)
  case (snoc n ns)
  show ?case
  proof (cases "ns = []")
    case True
    have "runner_inv {#n#} (createRunner\<lparr>settlers := settlers createRunner @ [n]\<rparr>)"
        "account (createRunner\<lparr>settlers := settlers createRunner @ [n]\<rparr>) = {#n#}"
      using runner_inv_new[OF runner_inv_initial(1), of n] by (simp_all add: createRunner_def account_def)
    with waiting_start[OF this(1), of env "[]"] assms(1) show ?thesis
      by (auto simp: True startUrl_def createRunner_def)
  next
    case False
    then obtain r where r: "runner_run (map (\<lambda>n. (env, StartUrl n False)) ns) createRunner = ([], r)" "runner_inv {#} r"
        "gate r = Navigating (last ns) False (butlast ns)" "account r = mset ns"
      using snoc by auto
    have "set (settlers r) \<subseteq> set ns" using r(4) by (metis account_def set_mset_mset mset_subset_eqD mset_subset_eq_add_right subsetI)
    then have n: "n \<notin> set (settlers r)" using snoc.prems(1) by auto
    note i = runner_inv_new[OF r(2) n]
    have "\<exists>r'. gateDispatch env (Start n False) (r\<lparr>settlers := settlers r @ [n]\<rparr>) = (Inr (), r') \<and>
        gate r' = Navigating n False (butlast ns @ [last ns]) \<and> runner_inv {#} r' \<and> account r' = account (r\<lparr>settlers := settlers r @ [n]\<rparr>)"
      by (rule waiting_start[OF i(1)]) (use assms(1) r(3) in simp_all)
    then show ?thesis using r i(2) False by (auto simp: runner_run_append startUrl_def)
  qed
qed simp

text \<open>
  After 999 URL navigations or more that replaced one another, a pane action throws instead of running, and the gate is
  left putting back URLs with nothing that will ever report: the queue that would has been dropped.
\<close>

theorem many_replaced_shut_the_gate:
  assumes "\<forall>n. at_once env n = []" and "\<forall>n. lands env n" and "distinct ns" and "999 \<le> length ns"
  shows "\<exists>r. runner_run (map (\<lambda>n. (env, StartUrl n False)) ns @ [(env, Act w)]) createRunner = ([ChainedTooLong], r) \<and>
    gate r = Reverting (drop 998 (rev ns)) \<and> in_flight (urlRun r) = []"
proof -
  have ne: "ns \<noteq> []" using assms(4) by auto
  obtain r where r: "runner_run (map (\<lambda>n. (env, StartUrl n False)) ns) createRunner = ([], r)" "runner_inv {#} r"
      "gate r = Navigating (last ns) False (butlast ns)"
    using waiting_starts[OF assms(1,3) ne] by blast
  have rev: "rev ns = last ns # rev (butlast ns)" using append_butlast_last_id[OF ne] by (metis rev_eq_Cons_iff rev_rev_ident)
  obtain r' where "runner_step env (Act w) r = (Inl ChainedTooLong, r')" "gate r' = Reverting (drop 998 (last ns # rev (butlast ns)))"
      "in_flight (urlRun r') = []"
    using interrupt_cut[OF r(2,3) _ assms(2)] assms(4) by fastforce
  then show ?thesis using r(1) unfolding rev by (simp add: runner_run_append)
qed

section \<open>A run\<close>

text \<open>Guards let the URL navigation 5 through at once and a middleware cancels it; its revert has landed when it returns.\<close>

definition example_env :: "(nat, string, string, string) runner_env" where
  "example_env = \<lparr>live = [''p''], applied = (\<lambda>n entries. (Some (ResultCommitted ''p''), [''redirect''])),
     lands = (\<lambda>n. n = 5), at_once = (\<lambda>n. if n = 5 then [Allowed, MiddlewareCancelled] else [])\<rparr>"

text \<open>A pane navigation is cut off by a URL navigation, which is replaced by another one that commits.\<close>

definition example_inputs :: "(nat, string, string, string) runner_input list" where
  "example_inputs = [StartPane ''p'' 1, StartUrl 2 False, StartUrl 3 True, Act ''wait'', UrlReport Allowed,
     UrlReport (Resolved [''e'']), UrlReport Preloaded, StartPane ''p'' 4, StartUrl 5 False]"

lemma example_starts:
  "all_starts (map (Pair example_env) example_inputs) = [1, 2, 3, 4, 5]"
  "all_url_starts (map (Pair example_env) example_inputs) = [2, 3, 5]"
  by (simp_all add: example_inputs_def)

lemma example_proper: "\<forall>i \<in> set (map (Pair example_env) example_inputs). proper i"
  by (simp add: example_inputs_def phase_report_def proper_env_def example_env_def)

theorem runner_settles_each_once_witness:
  "let (faults, r) = runner_run (map (Pair example_env) example_inputs) createRunner in
     mset [1, 2, 3, 4, 5] = mset (map fst (results r)) + mset (flights r) \<and> faults = []"
  using runner_settles_each_once[OF _ example_proper, unfolded example_starts] by (auto simp: Let_def case_prod_beta)


end
