(* ===== verification/Create_Machine.thy ===== *)
theory Create_Machine
  imports Machine
begin

text \<open>
  The running machine, \<open>packages/machine/src/create-machine.ts\<close>: a definition with an event queue,
  scopes that live as long as a state, subscribers and commands.  What the client's callbacks do
  is a parameter: given everything that happened before, a callback makes calls on the machine, may
  return a cleanup (scopes) and may throw; an option that is absent is a callback that does nothing.
\<close>

section \<open>Clients\<close>

datatype ('e, 'l) machine_call =
    CallDispatch 'e
  | CallDispose
  | CallSubscribe 'l
  | CallUnsubscribe 'l

datatype ('s, 'e, 'c, 'k, 'l) callback =
    Inspect 's 'e "('s, 'c) transition option"
  | Scope 's
  | Cleanup 'k 's \<comment> \<open>with the state that \<open>getState()\<close> shows it\<close>
  | Listener 'l 's
  | Execute 'c

text \<open>What happened: an event was accepted, or a callback was called.\<close>

datatype ('s, 'e, 'c, 'k, 'l) occurrence =
    Sent 'e
  | Called "('s, 'e, 'c, 'k, 'l) callback"

record ('e, 'k, 'l) reaction =
  calls :: "('e, 'l) machine_call list"
  returns :: "'k option"
  throws :: bool

type_synonym ('s, 'e, 'c, 'k, 'l) client =
  "('s, 'e, 'c, 'k, 'l) occurrence list \<Rightarrow> ('s, 'e, 'c, 'k, 'l) callback \<Rightarrow> ('e, 'k, 'l) reaction"

section \<open>The machine\<close>

datatype 'e fault =
    Thrown \<comment> \<open>by a callback\<close>
  | DispatchCycleError "'e list"
  | NestedDrain \<comment> \<open>would mark a drain inside a callback; shown never to occur\<close>

record ('s, 'e, 'c, 'k, 'l) running =
  mc_state :: 's
  mc_disposed :: bool
  mc_draining :: bool
  mc_disposeScope :: "'k option"
  mc_listeners :: "'l list"
  mc_queue :: "'e list"
  mc_trail :: "'e list"
  mc_log :: "('s, 'e, 'c, 'k, 'l) occurrence list" \<comment> \<open>not in the code: everything that happened\<close>

type_synonym ('s, 'e, 'c, 'k, 'l, 'a) effect =
  "('s, 'e, 'c, 'k, 'l) running \<Rightarrow> ('e fault, 'a, ('s, 'e, 'c, 'k, 'l) running) outcome"

definition TRAIL_LENGTH :: nat where
  "TRAIL_LENGTH = 20"

text \<open>\<open>dispatch\<close> called by a callback: while the machine is draining, the event waits.\<close>

definition enqueue :: "'e \<Rightarrow> ('s, 'e, 'c, 'k, 'l, unit) effect" where
  "enqueue event m =
    (if mc_disposed m then (Inr (), m)
     else if \<not> mc_draining m then (Inl NestedDrain, m)
     else (Inr (), m\<lparr>mc_queue := mc_queue m @ [event], mc_log := mc_log m @ [Sent event]\<rparr>))"

definition subscribe :: "'l \<Rightarrow> ('s, 'e, 'c, 'k, 'l) running \<Rightarrow> ('s, 'e, 'c, 'k, 'l) running" where
  "subscribe listener m =
    (if mc_disposed m \<or> listener \<in> set (mc_listeners m) then m
     else m\<lparr>mc_listeners := mc_listeners m @ [listener]\<rparr>)"

definition unsubscribe :: "'l \<Rightarrow> ('s, 'e, 'c, 'k, 'l) running \<Rightarrow> ('s, 'e, 'c, 'k, 'l) running" where
  "unsubscribe listener m = m\<lparr>mc_listeners := removeAll listener (mc_listeners m)\<rparr>"

text \<open>The calls of one callback, in order; an error of a call ends the callback.\<close>

fun run_calls ::
  "('s, 'e, 'c, 'k, 'l, unit) effect \<Rightarrow> ('e, 'l) machine_call list \<Rightarrow> ('s, 'e, 'c, 'k, 'l, unit) effect" where
  "run_calls disp [] m = (Inr (), m)"
| "run_calls disp (CallDispatch e # cs) m = and_then (enqueue e m) (\<lambda>_. run_calls disp cs)"
| "run_calls disp (CallDispose # cs) m = and_then (disp m) (\<lambda>_. run_calls disp cs)"
| "run_calls disp (CallSubscribe l # cs) m = run_calls disp cs (subscribe l m)"
| "run_calls disp (CallUnsubscribe l # cs) m = run_calls disp cs (unsubscribe l m)"

definition invoke_with ::
  "('s, 'e, 'c, 'k, 'l, unit) effect \<Rightarrow> ('s, 'e, 'c, 'k, 'l) client \<Rightarrow> ('s, 'e, 'c, 'k, 'l) callback \<Rightarrow>
   ('s, 'e, 'c, 'k, 'l, 'k option) effect" where
  "invoke_with disp client callback m =
    (let reaction = client (mc_log m) callback
     in and_then (run_calls disp (calls reaction) (m\<lparr>mc_log := mc_log m @ [Called callback]\<rparr>))
          (\<lambda>_ m1. (if throws reaction then Inl Thrown else Inr (returns reaction), m1)))"

definition unmount_with ::
  "(('s, 'e, 'c, 'k, 'l) callback \<Rightarrow> ('s, 'e, 'c, 'k, 'l, 'k option) effect) \<Rightarrow> ('s, 'e, 'c, 'k, 'l, unit) effect" where
  "unmount_with invoke m =
    (case mc_disposeScope m of
       None \<Rightarrow> (Inr (), m)
     | Some k \<Rightarrow> and_then (invoke (Cleanup k (mc_state m)) (m\<lparr>mc_disposeScope := None\<rparr>)) (\<lambda>_ m1. (Inr (), m1)))"

text \<open>
  Disposing runs the cleanup of the scope, whose own calls find the machine disposed; a \<open>dispose\<close>
  among them returns at once.
\<close>

definition machine_dispose :: "('s, 'e, 'c, 'k, 'l) client \<Rightarrow> ('s, 'e, 'c, 'k, 'l, unit) effect" where
  "machine_dispose client m =
    (if mc_disposed m then (Inr (), m)
     else unmount_with (invoke_with (Pair (Inr ())) client)
       (m\<lparr>mc_disposed := True, mc_queue := [], mc_listeners := []\<rparr>))"

definition invoke ::
  "('s, 'e, 'c, 'k, 'l) client \<Rightarrow> ('s, 'e, 'c, 'k, 'l) callback \<Rightarrow> ('s, 'e, 'c, 'k, 'l, 'k option) effect" where
  "invoke client = invoke_with (machine_dispose client) client"

definition unmountScope :: "('s, 'e, 'c, 'k, 'l) client \<Rightarrow> ('s, 'e, 'c, 'k, 'l, unit) effect" where
  "unmountScope client = unmount_with (invoke client)"

definition mountScope :: "('s, 'e, 'c, 'k, 'l) client \<Rightarrow> ('s, 'e, 'c, 'k, 'l, unit) effect" where
  "mountScope client m =
    and_then (invoke client (Scope (mc_state m)) m) (\<lambda>cleanup m1.
      if mc_disposed m1
      then (case cleanup of
              None \<Rightarrow> (Inr (), m1)
            | Some k \<Rightarrow> and_then (invoke client (Cleanup k (mc_state m1)) m1) (\<lambda>_ m2. (Inr (), m2)))
      else (Inr (), m1\<lparr>mc_disposeScope := cleanup\<rparr>))"

text \<open>The loops over subscribers and commands; both return from \<open>apply\<close> once the machine is disposed.\<close>

fun notify_all :: "('s, 'e, 'c, 'k, 'l) client \<Rightarrow> 'l list \<Rightarrow> ('s, 'e, 'c, 'k, 'l, unit) effect" where
  "notify_all client [] m = (Inr (), m)"
| "notify_all client (l # ls) m =
    (if mc_disposed m then (Inr (), m)
     else if l \<in> set (mc_listeners m)
     then and_then (invoke client (Listener l (mc_state m)) m) (\<lambda>_. notify_all client ls)
     else notify_all client ls m)"

fun execute_all :: "('s, 'e, 'c, 'k, 'l) client \<Rightarrow> 'c list \<Rightarrow> ('s, 'e, 'c, 'k, 'l, unit) effect" where
  "execute_all client [] m = (Inr (), m)"
| "execute_all client (c # cs) m =
    (if mc_disposed m then (Inr (), m)
     else and_then (invoke client (Execute c) m) (\<lambda>_. execute_all client cs))"

definition machine_apply ::
  "('s, 'e, 'c) machine_def \<Rightarrow> ('s, 'e, 'c, 'k, 'l) client \<Rightarrow> 'e \<Rightarrow> ('s, 'e, 'c, 'k, 'l, unit) effect" where
  "machine_apply def client event m =
    (let result = machine_step def (mc_state m) event
     in and_then (invoke client (Inspect (mc_state m) event result) m) (\<lambda>_ m1.
          case result of
            None \<Rightarrow> (Inr (), m1)
          | Some t \<Rightarrow>
              if mc_disposed m1 then (Inr (), m1)
              else and_then (unmountScope client m1) (\<lambda>_ m2.
                if mc_disposed m2 then (Inr (), m2)
                else and_then (mountScope client (m2\<lparr>mc_state := tr_state t\<rparr>)) (\<lambda>_ m3.
                  and_then (notify_all client (mc_listeners m3) m3) (\<lambda>_.
                    execute_all client (tr_commands t))))))"

definition push_trail :: "'e \<Rightarrow> 'e list \<Rightarrow> 'e list" where
  "push_trail event trail =
    (let longer = trail @ [event] in if length longer > TRAIL_LENGTH then tl longer else longer)"

fun drain_loop ::
  "nat \<Rightarrow> ('s, 'e, 'c) machine_def \<Rightarrow> ('s, 'e, 'c, 'k, 'l) client \<Rightarrow> ('s, 'e, 'c, 'k, 'l, unit) effect" where
  "drain_loop steps def client m =
    (case mc_queue m of
       [] \<Rightarrow> (Inr (), m)
     | event # rest \<Rightarrow>
         (case steps of
            0 \<Rightarrow> (Inl (DispatchCycleError (mc_trail m)), m)
          | Suc left \<Rightarrow>
              and_then (machine_apply def client event
                  (m\<lparr>mc_queue := rest, mc_trail := push_trail event (mc_trail m)\<rparr>))
                (\<lambda>_. drain_loop left def client)))"

declare drain_loop.simps [simp del]

definition machine_drain ::
  "('s, 'e, 'c) machine_def \<Rightarrow> ('s, 'e, 'c, 'k, 'l) client \<Rightarrow> ('s, 'e, 'c, 'k, 'l, unit) effect" where
  "machine_drain def client m =
    (let (r, m1) = drain_loop MAX_CHAINED_DISPATCHES def client (m\<lparr>mc_draining := True\<rparr>)
     in (r, m1\<lparr>mc_draining := False, mc_queue := []\<rparr>))"

text \<open>\<open>dispatch\<close> called from outside the machine's callbacks.\<close>

definition machine_dispatch ::
  "('s, 'e, 'c) machine_def \<Rightarrow> ('s, 'e, 'c, 'k, 'l) client \<Rightarrow> 'e \<Rightarrow> ('s, 'e, 'c, 'k, 'l, unit) effect" where
  "machine_dispatch def client event m =
    (if mc_disposed m then (Inr (), m)
     else (let m1 = m\<lparr>mc_queue := mc_queue m @ [event], mc_log := mc_log m @ [Sent event]\<rparr>
           in if mc_draining m1 then (Inr (), m1) else machine_drain def client m1))"

text \<open>A machine whose initial scope throws, or sends events that fail, is disposed and never returned.\<close>

definition fresh_machine :: "'s \<Rightarrow> ('s, 'e, 'c, 'k, 'l) running" where
  "fresh_machine initial = \<lparr>mc_state = initial, mc_disposed = False, mc_draining = True,
     mc_disposeScope = None, mc_listeners = [], mc_queue = [], mc_trail = [], mc_log = []\<rparr>"

definition createMachine ::
  "('s, 'e, 'c) machine_def \<Rightarrow> ('s, 'e, 'c, 'k, 'l) client \<Rightarrow> 's \<Rightarrow>
   ('e fault, unit, ('s, 'e, 'c, 'k, 'l) running) outcome" where
  "createMachine def client initial =
    (let (r, m) = and_then (mountScope client (fresh_machine initial)) (\<lambda>_ m1.
           (let m2 = m1\<lparr>mc_draining := False\<rparr>
            in if mc_queue m2 \<noteq> [] then machine_drain def client m2 else (Inr (), m2)))
     in case r of
          Inr _ \<Rightarrow> (Inr (), m)
        | Inl e \<Rightarrow> and_then (machine_dispose client m) (\<lambda>_ m1. (Inl e, m1)))"

text \<open>The calls on a machine from outside, each going on after an error as the application does.\<close>

fun machine_call_step ::
  "('s, 'e, 'c) machine_def \<Rightarrow> ('s, 'e, 'c, 'k, 'l) client \<Rightarrow> ('e, 'l) machine_call \<Rightarrow> ('s, 'e, 'c, 'k, 'l, unit) effect" where
  "machine_call_step def client (CallDispatch e) m = machine_dispatch def client e m"
| "machine_call_step def client CallDispose m = machine_dispose client m"
| "machine_call_step def client (CallSubscribe l) m = (Inr (), subscribe l m)"
| "machine_call_step def client (CallUnsubscribe l) m = (Inr (), unsubscribe l m)"

fun machine_calls ::
  "('s, 'e, 'c) machine_def \<Rightarrow> ('s, 'e, 'c, 'k, 'l) client \<Rightarrow> ('e, 'l) machine_call list \<Rightarrow>
   ('s, 'e, 'c, 'k, 'l) running \<Rightarrow> ('e fault + unit) list \<times> ('s, 'e, 'c, 'k, 'l) running" where
  "machine_calls def client [] m = ([], m)"
| "machine_calls def client (c # cs) m =
    (let (r, m1) = machine_call_step def client c m; (rs, m2) = machine_calls def client cs m1
     in (r # rs, m2))"

end
