(* ===== verification/Machine_Runs.thy ===== *)
theory Machine_Runs
  imports Create_Machine "HOL-Library.Sublist"
begin

text \<open>
  The running machine of \<open>create-machine.ts\<close> against its simulation: with callbacks that neither throw nor
  dispose it does exactly what \<open>simulate\<close> says of the events, in the order they were sent.
\<close>

section \<open>Reading the log\<close>

definition sent_events :: "('s, 'e, 'c, 'k, 'l) occurrence list \<Rightarrow> 'e list" where
  "sent_events log = concat (map (\<lambda>x. case x of Sent e \<Rightarrow> [e] | Called _ \<Rightarrow> []) log)"

definition callbacks :: "('s, 'e, 'c, 'k, 'l) occurrence list \<Rightarrow> ('s, 'e, 'c, 'k, 'l) callback list" where
  "callbacks log = concat (map (\<lambda>x. case x of Called cb \<Rightarrow> [cb] | Sent _ \<Rightarrow> []) log)"

definition inspected :: "('s, 'e, 'c, 'k, 'l) callback list \<Rightarrow> ('s, 'e, 'c) simulation_step list" where
  "inspected cbs = concat (map (\<lambda>cb. case cb of
     Inspect s e r \<Rightarrow> [\<lparr>st_from = s, st_event = e, st_result = r\<rparr>] | _ \<Rightarrow> []) cbs)"

definition executed :: "('s, 'e, 'c, 'k, 'l) callback list \<Rightarrow> 'c list" where
  "executed cbs = concat (map (\<lambda>cb. case cb of Execute c \<Rightarrow> [c] | _ \<Rightarrow> []) cbs)"

lemma log_simps [simp]:
  "sent_events [] = []" "sent_events (Sent e # xs) = e # sent_events xs"
  "sent_events (Called cb # xs) = sent_events xs" "sent_events (xs @ ys) = sent_events xs @ sent_events ys"
  "callbacks [] = []" "callbacks (Sent e # xs) = callbacks xs"
  "callbacks (Called cb # xs) = cb # callbacks xs" "callbacks (xs @ ys) = callbacks xs @ callbacks ys"
  "inspected [] = []" "inspected (Inspect s e r # cbs) = \<lparr>st_from = s, st_event = e, st_result = r\<rparr> # inspected cbs"
  "inspected (cbs @ ds) = inspected cbs @ inspected ds"
  "executed [] = []" "executed (Execute c # cbs) = c # executed cbs"
  "executed (cbs @ ds) = executed cbs @ executed ds" "executed (Inspect s e r # cbs) = executed cbs"
  by (simp_all add: sent_events_def callbacks_def inspected_def executed_def)

lemma inspected_other [simp]:
  "inspected (Scope s # cbs) = inspected cbs" "inspected (Cleanup k s # cbs) = inspected cbs"
  "inspected (Listener l s # cbs) = inspected cbs" "inspected (Execute c # cbs) = inspected cbs"
  "executed (Scope s # cbs) = executed cbs" "executed (Cleanup k s # cbs) = executed cbs"
  "executed (Listener l s # cbs) = executed cbs"
  "inspected (map Execute cs) = []" "executed (map Execute cs) = cs"
  by (simp_all add: inspected_def executed_def comp_def)

section \<open>Machines whose callbacks neither throw nor dispose\<close>

definition calm :: "('s, 'e, 'c, 'k, 'l) client \<Rightarrow> bool" where
  "calm client \<longleftrightarrow> (\<forall>log cb. \<not> throws (client log cb) \<and> CallDispose \<notin> set (calls (client log cb)))"

definition awake :: "('s, 'e, 'c, 'k, 'l) running \<Rightarrow> bool" where
  "awake m \<longleftrightarrow> \<not> mc_disposed m \<and> mc_draining m"

text \<open>What callbacks add: they were called in this order, and what was sent meanwhile is in the queue.\<close>

definition extends ::
  "('s, 'e, 'c, 'k, 'l) running \<Rightarrow> ('s, 'e, 'c, 'k, 'l) callback list \<Rightarrow> ('s, 'e, 'c, 'k, 'l) running \<Rightarrow> bool" where
  "extends m cbs m' \<longleftrightarrow>
    callbacks (mc_log m') = callbacks (mc_log m) @ cbs \<and>
    (\<exists>new. sent_events (mc_log m') = sent_events (mc_log m) @ new \<and> mc_queue m' = mc_queue m @ new) \<and>
    mc_state m' = mc_state m \<and> mc_disposed m' = mc_disposed m \<and> mc_draining m' = mc_draining m"

lemma extends_refl: "extends m [] m"
  by (simp add: extends_def)

lemma extends_trans: "extends m xs m1 \<Longrightarrow> extends m1 ys m2 \<Longrightarrow> extends m (xs @ ys) m2"
  by (auto simp: extends_def)

lemma extends_awake: "extends m xs m1 \<Longrightarrow> awake m \<Longrightarrow> awake m1"
  by (simp add: extends_def awake_def)

lemma run_calls_calm:
  assumes "CallDispose \<notin> set cs" and "awake m"
  shows "\<exists>m1. run_calls d cs m = (Inr (), m1) \<and> extends m [] m1"
  using assms
proof (induction d cs m rule: run_calls.induct)
  case (2 disp e cs m)
  let ?m = "m\<lparr>mc_queue := mc_queue m @ [e], mc_log := mc_log m @ [Sent e]\<rparr>"
  have "enqueue e m = (Inr (), ?m)" "awake ?m" "extends m [] ?m"
    using 2 by (simp_all add: enqueue_def awake_def extends_def)
  moreover from this obtain m1 where "run_calls disp cs ?m = (Inr (), m1)" "extends ?m [] m1"
    using 2 by auto
  ultimately show ?case using extends_trans[of m "[]" ?m "[]" m1] by auto
next
  case (4 disp l cs m)
  have s: "awake (subscribe l m)" "extends m [] (subscribe l m)"
    using 4 by (simp_all add: subscribe_def awake_def extends_def)
  then obtain m1 where "run_calls disp cs (subscribe l m) = (Inr (), m1)" "extends (subscribe l m) [] m1"
    using 4 by auto
  then show ?case using extends_trans[OF s(2)] by fastforce
next
  case (5 disp l cs m)
  have s: "awake (unsubscribe l m)" "extends m [] (unsubscribe l m)"
    using 5 by (simp_all add: unsubscribe_def awake_def extends_def)
  then obtain m1 where "run_calls disp cs (unsubscribe l m) = (Inr (), m1)" "extends (unsubscribe l m) [] m1"
    using 5 by auto
  then show ?case using extends_trans[OF s(2)] by fastforce
qed (auto simp: extends_refl)

lemma invoke_calm:
  assumes "calm client" and "awake m"
  shows "\<exists>v m1. invoke client cb m = (Inr v, m1) \<and> extends m [cb] m1"
proof -
  let ?m = "m\<lparr>mc_log := mc_log m @ [Called cb]\<rparr>"
  have "awake ?m" "extends m [cb] ?m" using assms(2) by (simp_all add: awake_def extends_def)
  moreover from this obtain m1 where "run_calls (machine_dispose client) (calls (client (mc_log m) cb)) ?m = (Inr (), m1)"
      "extends ?m [] m1"
    using run_calls_calm assms(1) calm_def by metis
  ultimately show ?thesis
    using assms(1) extends_trans[of m "[cb]" ?m "[]" m1]
    by (auto simp: invoke_def invoke_with_def calm_def Let_def)
qed

lemma unmountScope_calm:
  assumes "calm client" and "awake m"
  shows "\<exists>m1 cbs. unmountScope client m = (Inr (), m1) \<and> extends m cbs m1 \<and> inspected cbs = [] \<and> executed cbs = []"
proof (cases "mc_disposeScope m")
  case None
  then show ?thesis by (auto simp: unmountScope_def unmount_with_def intro!: exI[of _ "[]"] extends_refl)
next
  case (Some k)
  let ?m = "m\<lparr>mc_disposeScope := None\<rparr>"
  have "awake ?m" using assms(2) by (simp add: awake_def)
  then obtain v m1 where m1: "invoke client (Cleanup k (mc_state m)) ?m = (Inr v, m1)"
      "extends ?m [Cleanup k (mc_state m)] m1"
    using invoke_calm[OF assms(1)] by blast
  then have "extends m [Cleanup k (mc_state m)] m1" by (simp add: extends_def)
  then show ?thesis using Some m1(1)
    by (auto simp: unmountScope_def unmount_with_def intro!: exI[of _ "[Cleanup k (mc_state m)]"])
qed

lemma mountScope_calm:
  assumes "calm client" and "awake m"
  shows "\<exists>m1. mountScope client m = (Inr (), m1) \<and> extends m [Scope (mc_state m)] m1"
proof -
  obtain v m1 where m1: "invoke client (Scope (mc_state m)) m = (Inr v, m1)" "extends m [Scope (mc_state m)] m1"
    using invoke_calm[OF assms] by blast
  then show ?thesis using assms(2) by (simp add: mountScope_def awake_def extends_def)
qed

lemma notify_all_calm:
  assumes "calm client" and "awake m"
  shows "\<exists>m1 cbs. notify_all client ls m = (Inr (), m1) \<and> extends m cbs m1 \<and> inspected cbs = [] \<and> executed cbs = []"
  using assms(2)
proof (induction ls arbitrary: m)
  case Nil
  then show ?case by (auto intro!: exI[of _ "[]"] extends_refl)
next
  case (Cons l ls)
  have "\<not> mc_disposed m" using Cons.prems by (simp add: awake_def)
  show ?case
  proof (cases "l \<in> set (mc_listeners m)")
    case True
    obtain v m1 where m1: "invoke client (Listener l (mc_state m)) m = (Inr v, m1)"
        "extends m [Listener l (mc_state m)] m1"
      using invoke_calm[OF assms(1) Cons.prems] by blast
    obtain m2 cbs where "notify_all client ls m1 = (Inr (), m2)" "extends m1 cbs m2" "inspected cbs = []" "executed cbs = []"
      using Cons.IH[OF extends_awake[OF m1(2) Cons.prems]] by blast
    then show ?thesis using True m1 \<open>\<not> mc_disposed m\<close> extends_trans[OF m1(2)]
      by (auto intro!: exI[of _ "Listener l (mc_state m) # cbs"])
  next
    case False
    then show ?thesis using Cons.IH[OF Cons.prems] \<open>\<not> mc_disposed m\<close> by simp
  qed
qed

lemma execute_all_calm:
  assumes "calm client" and "awake m"
  shows "\<exists>m1. execute_all client cs m = (Inr (), m1) \<and> extends m (map Execute cs) m1"
  using assms(2)
proof (induction cs arbitrary: m)
  case Nil
  then show ?case by (simp add: extends_refl)
next
  case (Cons c cs)
  obtain v m1 where m1: "invoke client (Execute c) m = (Inr v, m1)" "extends m [Execute c] m1"
    using invoke_calm[OF assms(1) Cons.prems] by blast
  obtain m2 where "execute_all client cs m1 = (Inr (), m2)" "extends m1 (map Execute cs) m2"
    using Cons.IH[OF extends_awake[OF m1(2) Cons.prems]] by blast
  then show ?case using m1 Cons.prems extends_trans[OF m1(2)] by (fastforce simp: awake_def)
qed

text \<open>One event: exactly one step of the simulation, and the commands of its transition.\<close>

lemma apply_calm:
  assumes "calm client" and "awake m"
  shows "\<exists>m1 cbs. machine_apply def client e m = (Inr (), m1) \<and>
    extends (m\<lparr>mc_state := mc_state m1\<rparr>) cbs m1 \<and>
    inspected cbs = [\<lparr>st_from = mc_state m, st_event = e, st_result = def (mc_state m) e\<rparr>] \<and>
    executed cbs = (case def (mc_state m) e of None \<Rightarrow> [] | Some t \<Rightarrow> tr_commands t) \<and>
    mc_state m1 = (case def (mc_state m) e of None \<Rightarrow> mc_state m | Some t \<Rightarrow> tr_state t)"
proof -
  let ?i = "Inspect (mc_state m) e (def (mc_state m) e)"
  obtain v m1 where m1: "invoke client ?i m = (Inr v, m1)" "extends m [?i] m1"
    using invoke_calm[OF assms] by blast
  note aw1 = extends_awake[OF m1(2) assms(2)]
  show ?thesis
  proof (cases "def (mc_state m) e")
    case None
    then show ?thesis using m1
      by (auto simp: machine_apply_def machine_step_def extends_def intro!: exI[of _ "[?i]"])
  next
    case (Some t)
    obtain m2 cbs2 where m2: "unmountScope client m1 = (Inr (), m2)" "extends m1 cbs2 m2"
        "inspected cbs2 = []" "executed cbs2 = []"
      using unmountScope_calm[OF assms(1) aw1] by blast
    let ?m2 = "m2\<lparr>mc_state := tr_state t\<rparr>"
    have aw2: "awake ?m2" using extends_awake[OF m2(2) aw1] by (simp add: awake_def)
    obtain m3 where m3: "mountScope client ?m2 = (Inr (), m3)" "extends ?m2 [Scope (tr_state t)] m3"
      using mountScope_calm[OF assms(1) aw2] by auto
    note aw3 = extends_awake[OF m3(2) aw2]
    obtain m4 cbs4 where m4: "notify_all client (mc_listeners m3) m3 = (Inr (), m4)" "extends m3 cbs4 m4"
        "inspected cbs4 = []" "executed cbs4 = []"
      using notify_all_calm[OF assms(1) aw3] by blast
    note aw4 = extends_awake[OF m4(2) aw3]
    obtain m5 where m5: "execute_all client (tr_commands t) m4 = (Inr (), m5)"
        "extends m4 (map Execute (tr_commands t)) m5"
      using execute_all_calm[OF assms(1) aw4] by blast
    have "\<not> mc_disposed m1" "\<not> mc_disposed m2" using aw1 aw2 by (simp_all add: awake_def)
    then have run: "machine_apply def client e m = (Inr (), m5)"
      using m1(1) m2(1) m3(1) m4(1) m5(1) Some by (simp add: machine_apply_def machine_step_def Let_def)
    have "extends ?m2 ([Scope (tr_state t)] @ cbs4 @ map Execute (tr_commands t)) m5"
      by (intro extends_trans[OF m3(2)] extends_trans[OF m4(2)] m5(2))
    moreover have "extends m ([?i] @ cbs2) m2" by (rule extends_trans[OF m1(2) m2(2)])
    ultimately have "extends (m\<lparr>mc_state := mc_state m5\<rparr>)
        (([?i] @ cbs2) @ [Scope (tr_state t)] @ cbs4 @ map Execute (tr_commands t)) m5" and "mc_state m5 = tr_state t"
      by (auto simp: extends_def)
    then show ?thesis using run Some m2 m4
      by (intro exI[of _ m5] exI[of _ "([?i] @ cbs2) @ [Scope (tr_state t)] @ cbs4 @ map Execute (tr_commands t)"]) simp
  qed
qed

text \<open>The machine has done what the simulation of the events it took says, and took events in the order they came.\<close>

definition taken_events :: "('s, 'e, 'c, 'k, 'l) running \<Rightarrow> 'e list" where
  "taken_events m = map st_event (inspected (callbacks (mc_log m)))"

definition mirrors :: "('s, 'e, 'c) machine_def \<Rightarrow> 's \<Rightarrow> ('s, 'e, 'c, 'k, 'l) running \<Rightarrow> bool" where
  "mirrors def initial m \<longleftrightarrow>
    (let sim = simulate def initial (taken_events m)
     in inspected (callbacks (mc_log m)) = sim_steps sim \<and> executed (callbacks (mc_log m)) = sim_commands sim \<and>
        mc_state m = sim_state sim)"

definition in_order :: "('s, 'e, 'c, 'k, 'l) running \<Rightarrow> bool" where
  "in_order m \<longleftrightarrow> taken_events m @ mc_queue m = sent_events (mc_log m)"

definition in_part :: "('s, 'e, 'c, 'k, 'l) running \<Rightarrow> bool" where
  "in_part m \<longleftrightarrow> subseq (taken_events m @ mc_queue m) (sent_events (mc_log m))"

lemma mirrors_update [simp]:
  "taken_events (m\<lparr>mc_draining := b\<rparr>) = taken_events m" "taken_events (m\<lparr>mc_queue := q\<rparr>) = taken_events m"
  "mirrors def initial (m\<lparr>mc_draining := b\<rparr>) = mirrors def initial m"
  "mirrors def initial (m\<lparr>mc_queue := q\<rparr>) = mirrors def initial m"
  "mirrors def initial (m\<lparr>mc_listeners := ls\<rparr>) = mirrors def initial m"
  by (simp_all add: taken_events_def mirrors_def)

lemma mirrors_extend:
  assumes "extends m cbs m1" and "inspected cbs = []" and "executed cbs = []"
  shows "mirrors def initial m1 = mirrors def initial m" "in_order m1 = in_order m" "in_part m \<Longrightarrow> in_part m1"
    "taken_events m1 = taken_events m"
proof -
  show *: "taken_events m1 = taken_events m" using assms by (simp add: extends_def taken_events_def)
  then show "mirrors def initial m1 = mirrors def initial m" "in_order m1 = in_order m"
    using assms by (auto simp: extends_def mirrors_def in_order_def)
  show "in_part m \<Longrightarrow> in_part m1" using assms * list_emb_append_mono
    by (fastforce simp: extends_def in_part_def simp flip: append_assoc)
qed

lemma apply_mirrors:
  assumes "calm client" and "awake m" and "mirrors def initial m" and "mc_queue m = e # rest"
  shows "\<exists>m1. machine_apply def client e (m\<lparr>mc_queue := rest, mc_trail := trail\<rparr>) = (Inr (), m1) \<and>
    awake m1 \<and> mirrors def initial m1 \<and> (in_order m \<longrightarrow> in_order m1) \<and> (in_part m \<longrightarrow> in_part m1)"
proof -
  let ?m = "m\<lparr>mc_queue := rest, mc_trail := trail\<rparr>"
  have "awake ?m" using assms(2) by (simp add: awake_def)
  from apply_calm[OF assms(1) this, of def e] obtain m1 cbs where m1: "machine_apply def client e ?m = (Inr (), m1)"
      "extends (?m\<lparr>mc_state := mc_state m1\<rparr>) cbs m1"
      "inspected cbs = [\<lparr>st_from = mc_state ?m, st_event = e, st_result = def (mc_state ?m) e\<rparr>]"
      "executed cbs = (case def (mc_state ?m) e of None \<Rightarrow> [] | Some t \<Rightarrow> tr_commands t)"
      "mc_state m1 = (case def (mc_state ?m) e of None \<Rightarrow> mc_state ?m | Some t \<Rightarrow> tr_state t)"
    by blast
  have taken: "taken_events m1 = taken_events m @ [e]"
    using m1(2,3) by (simp add: extends_def taken_events_def)
  have "mirrors def initial m1"
    using assms(3) m1(2,3,4,5) by (auto simp: mirrors_def taken Let_def simulate_snoc simulate_step_def
        machine_step_def extends_def split: option.splits)
  moreover have "awake m1" using m1(2) assms(2) by (simp add: extends_def awake_def)
  moreover obtain new where new: "sent_events (mc_log m1) = sent_events (mc_log m) @ new" "mc_queue m1 = rest @ new"
    using m1(2) by (auto simp: extends_def)
  then have "in_order m \<longrightarrow> in_order m1" using assms(4) by (simp add: in_order_def taken)
  moreover have "in_part m \<longrightarrow> in_part m1"
    using new assms(4) list_emb_append_mono[of "(=)" "taken_events m @ e # rest" "sent_events (mc_log m)" new new]
    by (simp add: in_part_def taken)
  ultimately show ?thesis using m1(1) by blast
qed

lemma drain_mirrors:
  assumes "calm client" and "awake m" and "mirrors def initial m" and "drain_loop n def client m = (r, m1)"
  shows "awake m1 \<and> mirrors def initial m1 \<and> (in_order m \<longrightarrow> in_order m1) \<and> (in_part m \<longrightarrow> in_part m1) \<and>
    (r = Inr () \<longrightarrow> mc_queue m1 = [])"
  using assms(2-)
proof (induction n arbitrary: m)
  case 0
  then show ?case by (cases "mc_queue m") (auto simp: drain_loop.simps)
next
  case (Suc n)
  show ?case
  proof (cases "mc_queue m")
    case Nil
    then show ?thesis using Suc.prems by (auto simp: drain_loop.simps)
  next
    case (Cons e rest)
    obtain m2 where m2: "machine_apply def client e (m\<lparr>mc_queue := rest, mc_trail := push_trail e (mc_trail m)\<rparr>) = (Inr (), m2)"
        "awake m2" "mirrors def initial m2" "in_order m \<longrightarrow> in_order m2" "in_part m \<longrightarrow> in_part m2"
      using apply_mirrors[OF assms(1) Suc.prems(1,2) Cons] by blast
    then have "drain_loop n def client m2 = (r, m1)" using Suc.prems(3) Cons by (simp add: drain_loop.simps)
    from Suc.IH[OF m2(2,3) this] show ?thesis using m2(4,5) by blast
  qed
qed

text \<open>Between calls from outside nothing is being drained and nothing waits.\<close>

definition at_rest :: "('s, 'e, 'c, 'k, 'l) running \<Rightarrow> bool" where
  "at_rest m \<longleftrightarrow> \<not> mc_draining m \<and> mc_queue m = []"

lemma machine_drain_mirrors:
  assumes "calm client" and "\<not> mc_disposed m" and "mirrors def initial m" and "machine_drain def client m = (r, m1)"
  shows "\<not> mc_disposed m1 \<and> at_rest m1 \<and> mirrors def initial m1 \<and> (in_order m \<and> r = Inr () \<longrightarrow> in_order m1) \<and>
    (in_part m \<longrightarrow> in_part m1)"
proof -
  let ?m = "m\<lparr>mc_draining := True\<rparr>"
  obtain m2 where m2: "drain_loop MAX_CHAINED_DISPATCHES def client ?m = (r, m2)"
      "m1 = m2\<lparr>mc_draining := False, mc_queue := []\<rparr>"
    using assms(4) by (auto simp: machine_drain_def split: prod.splits)
  have "awake ?m" using assms(2) by (simp add: awake_def)
  have same: "in_order ?m = in_order m" "in_part ?m = in_part m"
    by (simp_all add: in_order_def in_part_def)
  have d: "awake m2 \<and> mirrors def initial m2 \<and> (in_order m \<longrightarrow> in_order m2) \<and> (in_part m \<longrightarrow> in_part m2) \<and>
      (r = Inr () \<longrightarrow> mc_queue m2 = [])"
    using drain_mirrors[OF assms(1) \<open>awake ?m\<close> _ m2(1), of initial] assms(3) same by simp
  have "in_part m2 \<longrightarrow> in_part m1"
    using subseq_order.trans[OF subseq_rev_drop_many[OF subseq_order.refl]]
    by (auto simp: in_part_def m2(2))
  then show ?thesis using d by (auto simp: awake_def at_rest_def in_order_def m2(2))
qed

lemma createMachine_mirrors:
  assumes "calm client" and "createMachine def client initial = (Inr (), m)"
  shows "\<not> mc_disposed m" "at_rest m" "mirrors def initial m" "in_order m" "in_part m"
proof -
  let ?f = "fresh_machine initial :: ('a, 'b, 'c, 'd, 'e) running"
  have f: "awake ?f" "mirrors def initial ?f" "in_order ?f" "in_part ?f"
    by (simp_all add: awake_def fresh_machine_def mirrors_def in_order_def in_part_def taken_events_def)
  obtain m1 where m1: "mountScope client ?f = (Inr (), m1)" "extends ?f [Scope (mc_state ?f)] m1"
    using mountScope_calm[OF assms(1) f(1)] by blast
  let ?m1 = "m1\<lparr>mc_draining := False\<rparr>"
  have d: "\<not> mc_disposed ?m1" using extends_awake[OF m1(2) f(1)] by (simp add: awake_def)
  have e: "mirrors def initial ?m1" "in_order ?m1" "in_part ?m1"
    using mirrors_extend[OF m1(2)] f(2-)
    by (simp_all add: mirrors_def in_order_def in_part_def taken_events_def)
  have "\<not> mc_disposed m \<and> at_rest m \<and> mirrors def initial m \<and> in_order m \<and> in_part m"
  proof (cases "mc_queue m1 = []")
    case True
    then have "m = ?m1" using assms(2) m1(1) by (simp add: createMachine_def Let_def)
    then show ?thesis using d e True by (simp add: at_rest_def)
  next
    case False
    obtain r m2 where m2: "machine_drain def client ?m1 = (r, m2)" by (cases "machine_drain def client ?m1")
    then have "r = Inr ()" "m = m2" using assms(2) m1(1) False
      by (auto simp: createMachine_def Let_def and_then_def split: sum.splits prod.splits)
    then show ?thesis using machine_drain_mirrors[OF assms(1) d e(1) m2] e by blast
  qed
  then show "\<not> mc_disposed m" "at_rest m" "mirrors def initial m" "in_order m" "in_part m" by blast+
qed

lemma call_mirrors:
  assumes "calm client" and "c \<noteq> CallDispose" and "\<not> mc_disposed m" and "at_rest m" and "mirrors def initial m"
    and "machine_call_step def client c m = (r, m1)"
  shows "\<not> mc_disposed m1 \<and> at_rest m1 \<and> mirrors def initial m1 \<and> (in_order m \<and> r = Inr () \<longrightarrow> in_order m1) \<and>
    (in_part m \<longrightarrow> in_part m1)"
proof (cases c)
  case (CallDispatch e)
  let ?m = "m\<lparr>mc_queue := mc_queue m @ [e], mc_log := mc_log m @ [Sent e]\<rparr>"
  have "machine_drain def client ?m = (r, m1)"
    using assms(3,4,6) CallDispatch by (simp add: machine_dispatch_def at_rest_def Let_def)
  moreover have "mirrors def initial ?m" using assms(5) by (simp add: mirrors_def taken_events_def)
  moreover have "in_order m \<longrightarrow> in_order ?m" by (simp add: in_order_def taken_events_def flip: append_assoc)
  moreover have "in_part m \<longrightarrow> in_part ?m"
    using list_emb_append_mono[of "(=)" "taken_events m @ mc_queue m" "sent_events (mc_log m)" "[e]" "[e]"]
    by (simp add: in_part_def taken_events_def)
  ultimately show ?thesis using machine_drain_mirrors[OF assms(1), of ?m def initial r m1] assms(3) by auto
qed (use assms in \<open>auto simp: subscribe_def unsubscribe_def at_rest_def in_order_def in_part_def taken_events_def split: if_splits\<close>)

lemma calls_mirror:
  assumes "calm client" and "CallDispose \<notin> set cs" and "\<not> mc_disposed m" and "at_rest m" and "mirrors def initial m"
    and "in_part m" and "machine_calls def client cs m = (rs, m1)"
  shows "mirrors def initial m1 \<and> in_part m1 \<and> at_rest m1 \<and>
    (in_order m \<and> (\<forall>r \<in> set rs. r = Inr ()) \<longrightarrow> in_order m1)"
  using assms(2-)
proof (induction cs arbitrary: m rs)
  case (Cons c cs)
  obtain r m2 where m2: "machine_call_step def client c m = (r, m2)" by (cases "machine_call_step def client c m")
  obtain rs2 where rs2: "machine_calls def client cs m2 = (rs2, m1)" "rs = r # rs2"
    using Cons.prems(6) m2 by (auto split: prod.splits)
  have step: "\<not> mc_disposed m2" "at_rest m2" "mirrors def initial m2" "in_order m \<and> r = Inr () \<longrightarrow> in_order m2" "in_part m2"
    using call_mirrors[OF assms(1) _ Cons.prems(2,3,4) m2] Cons.prems(1,5) by auto
  have "CallDispose \<notin> set cs" using Cons.prems(1) by simp
  from Cons.IH[OF this step(1-3,5) rs2(1)] show ?case using step(4) rs2(2) by auto
qed simp

text \<open>
  C22.  When no callback throws or disposes the machine, running it and simulating it are the same:
  whatever calls are made on it, the events it took, the transitions and ignored events, the
  commands it executed and the state are those of \<open>simulate\<close> on the events it took.  Those
  are the events that were sent, in the order they were sent, whoever sent them; only a call that
  reports a cycle of dispatches leaves events out.
\<close>

theorem machine_runs_its_simulation:
  assumes "calm client" and "createMachine def client initial = (Inr (), m)" and "CallDispose \<notin> set cs"
    and "machine_calls def client cs m = (rs, m1)"
  shows "mirrors def initial m1 \<and> subseq (taken_events m1) (sent_events (mc_log m1)) \<and>
    ((\<forall>r \<in> set rs. r = Inr ()) \<longrightarrow> taken_events m1 = sent_events (mc_log m1))"
  using calls_mirror[OF assms(1,3) createMachine_mirrors(1-3,5)[OF assms(1,2)] assms(4)]
    createMachine_mirrors(4)[OF assms(1,2)]
  by (auto simp: at_rest_def in_part_def in_order_def)

end
