(* ===== verification/Machine_Scopes.thy ===== *)
theory Machine_Scopes
  imports Machine_Runs
begin

text \<open>
  What the running machine of \<open>create-machine.ts\<close> guarantees whatever its callbacks do: the cleanups of
  scopes are called once each, in order, and a call from outside takes at most
  \<open>MAX_CHAINED_DISPATCHES\<close> events and leaves the machine ready for the next.  The end of the theory runs a machine.
\<close>

section \<open>Any callbacks\<close>

text \<open>The cleanups that scopes have returned, and those that were called, in order.\<close>

fun acquired ::
  "('s, 'e, 'c, 'k, 'l) client \<Rightarrow> ('s, 'e, 'c, 'k, 'l) occurrence list \<Rightarrow> ('s, 'e, 'c, 'k, 'l) occurrence list \<Rightarrow> 'k list" where
  "acquired client before [] = []"
| "acquired client before (x # xs) =
    (case x of
       Called (Scope s) \<Rightarrow> (if throws (client before (Scope s)) then [] else
         (case returns (client before (Scope s)) of None \<Rightarrow> [] | Some k \<Rightarrow> [k]))
     | _ \<Rightarrow> []) @ acquired client (before @ [x]) xs"

definition released :: "('s, 'e, 'c, 'k, 'l) occurrence list \<Rightarrow> 'k list" where
  "released log = concat (map (\<lambda>x. case x of Called (Cleanup k s) \<Rightarrow> [k] | _ \<Rightarrow> []) log)"

definition held :: "'k option \<Rightarrow> 'k list" where
  "held scope = (case scope of None \<Rightarrow> [] | Some k \<Rightarrow> [k])"

lemma acquired_append:
  "acquired client before (xs @ ys) = acquired client before xs @ acquired client (before @ xs) ys"
  by (induction xs arbitrary: before) auto

lemma released_append [simp]: "released [] = []" "released (xs @ ys) = released xs @ released ys"
  by (simp_all add: released_def)

lemma held_simps [simp]: "held None = []" "held (Some k) = [k]"
  by (simp_all add: held_def)

text \<open>Cleanups are balanced, up to those in \<open>extra\<close> that a scope is about to hand over.\<close>

definition balanced ::
  "('s, 'e, 'c, 'k, 'l) client \<Rightarrow> 'k list \<Rightarrow> ('s, 'e, 'c, 'k, 'l) running \<Rightarrow> bool" where
  "balanced client extra m \<longleftrightarrow>
    released (mc_log m) @ held (mc_disposeScope m) @ extra = acquired client [] (mc_log m) \<and>
    (mc_disposed m \<longrightarrow> mc_queue m = [] \<and> mc_listeners m = [])"

definition kept ::
  "('s, 'e, 'c, 'k, 'l) client \<Rightarrow> 'k list \<Rightarrow> ('s, 'e, 'c, 'k, 'l) running \<Rightarrow> bool" where
  "kept client extra m \<longleftrightarrow> balanced client extra m \<and> (mc_disposed m \<longrightarrow> mc_disposeScope m = None)"

text \<open>What any part of a callback does to the machine, whether it throws or not.\<close>

definition mild ::
  "('s, 'e, 'c, 'k, 'l) client \<Rightarrow> ('s, 'e, 'c, 'k, 'l) running \<Rightarrow> 'e fault + 'a \<Rightarrow> ('s, 'e, 'c, 'k, 'l) running \<Rightarrow> bool" where
  "mild client m r m' \<longleftrightarrow>
    (\<forall>extra. kept client extra m \<longrightarrow> kept client extra m') \<and>
    (mc_disposeScope m = None \<longrightarrow> mc_disposeScope m' = None) \<and>
    (mc_disposed m \<longrightarrow> mc_disposed m') \<and> mc_draining m' = mc_draining m \<and> taken_events m' = taken_events m \<and>
    (mc_draining m \<or> mc_disposed m \<longrightarrow> r \<noteq> Inl NestedDrain) \<and> (\<forall>t. r \<noteq> Inl (DispatchCycleError t))"

lemma mild_refl: "mild client m (Inr v) m"
  by (simp add: mild_def)

lemma mild_trans: "mild client m (Inr v) m1 \<Longrightarrow> mild client m1 r m2 \<Longrightarrow> mild client m r m2"
  unfolding mild_def by metis

lemma mild_result: "mild client m (Inr v) m1 \<Longrightarrow> mild client m (Inr w) m1"
  by (simp add: mild_def)

lemma mild_then:
  assumes "and_then p f = (r, m2)" and "\<And>r1 m1. p = (r1, m1) \<Longrightarrow> mild client m r1 m1"
    and "\<And>v m1 r m2. f v m1 = (r, m2) \<Longrightarrow> mild client m1 r m2"
  shows "mild client m r m2"
proof (cases p)
  case (Pair r1 m1)
  show ?thesis
  proof (cases r1)
    case (Inl e)
    then have "mild client m (Inl e :: _ + unit) m1" using assms(2)[OF Pair] by (simp add: mild_def)
    moreover have "r = Inl e" "m2 = m1" using assms(1) Pair Inl by simp_all
    ultimately show ?thesis by (simp add: mild_def)
  next
    case (Inr v)
    then show ?thesis using assms(1,2,3) Pair mild_trans by fastforce
  qed
qed

lemma enqueue_mild: "enqueue e m = (r, m1) \<Longrightarrow> mild client m r m1"
  by (auto simp: enqueue_def mild_def kept_def balanced_def acquired_append released_def taken_events_def split: if_splits)

lemma subscribe_mild: "mild client m (Inr ()) (subscribe l m)" "mild client m (Inr ()) (unsubscribe l m)"
  by (auto simp: subscribe_def unsubscribe_def mild_def kept_def balanced_def taken_events_def)

definition mild_effect :: "('s, 'e, 'c, 'k, 'l) client \<Rightarrow> ('s, 'e, 'c, 'k, 'l, 'a) effect \<Rightarrow> bool" where
  "mild_effect client f \<longleftrightarrow> (\<forall>m r m1. f m = (r, m1) \<longrightarrow> mild client m r m1)"

lemma run_calls_mild:
  assumes "mild_effect client disp"
  shows "run_calls disp cs m = (r, m1) \<Longrightarrow> mild client m r m1"
proof (induction cs arbitrary: m r m1)
  case Nil
  then show ?case by (auto simp: mild_refl)
next
  case (Cons c cs)
  show ?case
  proof (cases c)
    case (CallDispatch e)
    show ?thesis
      by (rule mild_then[of "enqueue e m" "\<lambda>_. run_calls disp cs"])
        (use Cons CallDispatch enqueue_mild in auto)
  next
    case CallDispose
    show ?thesis
      by (rule mild_then[of "disp m" "\<lambda>_. run_calls disp cs"]) (use Cons CallDispose assms in \<open>auto simp: mild_effect_def\<close>)
  next
    case (CallSubscribe l)
    then have "run_calls disp cs (subscribe l m) = (r, m1)" using Cons.prems by simp
    from mild_trans[OF subscribe_mild(1) Cons.IH[OF this]] show ?thesis .
  next
    case (CallUnsubscribe l)
    then have "run_calls disp cs (unsubscribe l m) = (r, m1)" using Cons.prems by simp
    from mild_trans[OF subscribe_mild(2) Cons.IH[OF this]] show ?thesis .
  qed
qed

text \<open>Logging a callback: what it hands over, if it is a scope, is still due.\<close>

definition due :: "('s, 'e, 'c, 'k, 'l) client \<Rightarrow> ('s, 'e, 'c, 'k, 'l) running \<Rightarrow> ('s, 'e, 'c, 'k, 'l) callback \<Rightarrow> 'k list" where
  "due client m cb = (case cb of
     Scope s \<Rightarrow> if throws (client (mc_log m) cb) then [] else held (returns (client (mc_log m) cb)) | _ \<Rightarrow> [])"

lemma acquired_called: "acquired client [] (log @ [Called cb]) = acquired client [] log @ due client (m\<lparr>mc_log := log\<rparr>) cb"
  by (auto simp: acquired_append due_def held_def split: callback.splits)

lemma invoke_with_mild:
  assumes "mild_effect client disp" and "invoke_with disp client cb m = (r, m1)"
  shows "mild client (m\<lparr>mc_log := mc_log m @ [Called cb]\<rparr>) r m1"
    and "r = Inr v \<Longrightarrow> \<not> throws (client (mc_log m) cb) \<and> v = returns (client (mc_log m) cb)"
proof -
  let ?m = "m\<lparr>mc_log := mc_log m @ [Called cb]\<rparr>"
  obtain r1 m2 where r1: "run_calls disp (calls (client (mc_log m) cb)) ?m = (r1, m2)"
    by (cases "run_calls disp (calls (client (mc_log m) cb)) ?m")
  note r1_mild = run_calls_mild[OF assms(1) r1]
  show "mild client ?m r m1"
    using assms(2) r1 r1_mild
    by (cases r1; cases "throws (client (mc_log m) cb)") (auto simp: invoke_with_def Let_def mild_def)
  show "r = Inr v \<Longrightarrow> \<not> throws (client (mc_log m) cb) \<and> v = returns (client (mc_log m) cb)"
    using assms(2) r1 by (cases r1) (auto simp: invoke_with_def Let_def split: if_splits)
qed

lemma taken_called [simp]:
  "taken_events (m\<lparr>mc_log := mc_log m @ [Called cb]\<rparr>) = taken_events m @ (case cb of Inspect s e r \<Rightarrow> [e] | _ \<Rightarrow> [])"
  by (auto simp: taken_events_def split: callback.splits)

text \<open>Callbacks that are neither scopes, cleanups nor inspections.\<close>

lemma invoke_plain:
  assumes "mild_effect client disp" and "invoke_with disp client cb m = (r, m1)"
    and "(\<exists>l s. cb = Listener l s) \<or> (\<exists>c. cb = Execute c)"
  shows "mild client m r m1"
proof -
  have "mild client m (Inr ()) (m\<lparr>mc_log := mc_log m @ [Called cb]\<rparr>)"
    using assms(3) by (auto simp: mild_def kept_def balanced_def acquired_append released_def)
  then show ?thesis by (rule mild_trans[OF _ invoke_with_mild(1)[OF assms(1,2)]])
qed

text \<open>Cleanups: those that the machine holds, and those that a scope handed over too late.\<close>

lemma invoke_cleanup:
  assumes "mild_effect client disp" and "invoke_with disp client (Cleanup k s) m = (r, m1)"
    and "mc_disposeScope m = None"
  shows "mc_disposeScope m1 = None" "mc_disposed m \<Longrightarrow> mc_disposed m1" "mc_draining m1 = mc_draining m"
    "taken_events m1 = taken_events m" "balanced client (k # extra) m \<Longrightarrow> kept client extra m1"
    "mc_draining m \<or> mc_disposed m \<Longrightarrow> r \<noteq> Inl NestedDrain" "r \<noteq> Inl (DispatchCycleError t)"
proof -
  let ?m = "m\<lparr>mc_log := mc_log m @ [Called (Cleanup k s)]\<rparr>"
  note x = invoke_with_mild(1)[OF assms(1,2), unfolded mild_def]
  show "mc_disposeScope m1 = None" "mc_disposed m \<Longrightarrow> mc_disposed m1" "mc_draining m1 = mc_draining m"
    "taken_events m1 = taken_events m"
    "mc_draining m \<or> mc_disposed m \<Longrightarrow> r \<noteq> Inl NestedDrain" "r \<noteq> Inl (DispatchCycleError t)"
    using x assms(3) by auto
  assume "balanced client (k # extra) m"
  then have "kept client extra ?m" using assms(3)
    by (simp add: kept_def balanced_def acquired_append released_def)
  then show "kept client extra m1" using x by blast
qed

lemma unmount_mild:
  assumes "mild_effect client disp" and "unmount_with (invoke_with disp client) m = (r, m1)"
  shows "mc_disposeScope m1 = None" "mc_disposed m \<Longrightarrow> mc_disposed m1" "mc_draining m1 = mc_draining m"
    "taken_events m1 = taken_events m" "balanced client extra m \<Longrightarrow> kept client extra m1"
    "mc_draining m \<or> mc_disposed m \<Longrightarrow> r \<noteq> Inl NestedDrain" "r \<noteq> Inl (DispatchCycleError t)"
proof -
  have "mc_disposeScope m1 = None \<and> (mc_disposed m \<longrightarrow> mc_disposed m1) \<and> mc_draining m1 = mc_draining m \<and>
    taken_events m1 = taken_events m \<and> (balanced client extra m \<longrightarrow> kept client extra m1) \<and>
    (mc_draining m \<or> mc_disposed m \<longrightarrow> r \<noteq> Inl NestedDrain) \<and> r \<noteq> Inl (DispatchCycleError t)"
  proof (cases "mc_disposeScope m")
    case None
    then show ?thesis using assms(2) by (auto simp: unmount_with_def kept_def)
  next
    case (Some k)
    let ?m = "m\<lparr>mc_disposeScope := None\<rparr>"
    obtain r1 where r1: "invoke_with disp client (Cleanup k (mc_state m)) ?m = (r1, m1)"
        "r = (case r1 of Inl e \<Rightarrow> Inl e | Inr _ \<Rightarrow> Inr ())"
      using assms(2) Some by (auto simp: unmount_with_def and_then_def split: prod.splits sum.splits)
    have "balanced client extra m \<Longrightarrow> balanced client (k # extra) ?m" using Some by (simp add: balanced_def)
    moreover have "taken_events ?m = taken_events m" by (simp add: taken_events_def)
    ultimately show ?thesis using invoke_cleanup[OF assms(1) r1(1)] r1(2) by (auto split: sum.splits)
  qed
  then show "mc_disposeScope m1 = None" "mc_disposed m \<Longrightarrow> mc_disposed m1" "mc_draining m1 = mc_draining m"
    "taken_events m1 = taken_events m" "balanced client extra m \<Longrightarrow> kept client extra m1"
    "mc_draining m \<or> mc_disposed m \<Longrightarrow> r \<noteq> Inl NestedDrain" "r \<noteq> Inl (DispatchCycleError t)" by blast+
qed

lemma dispose_mild:
  assumes "machine_dispose client m = (r, m1)"
  shows "mild client m r m1" "mc_disposed m1" "r \<noteq> Inl NestedDrain"
proof -
  have inner: "mild_effect client (Pair (Inr ()))" by (simp add: mild_effect_def mild_refl)
  have "mild client m r m1 \<and> mc_disposed m1 \<and> r \<noteq> Inl NestedDrain"
  proof (cases "mc_disposed m")
    case True
    then show ?thesis using assms by (auto simp: machine_dispose_def mild_refl)
  next
    case False
    let ?m = "m\<lparr>mc_disposed := True, mc_queue := [], mc_listeners := []\<rparr>"
    have u: "unmount_with (invoke_with (Pair (Inr ())) client) ?m = (r, m1)"
      using assms False by (simp add: machine_dispose_def)
    have "balanced client extra ?m" if "kept client extra m" for extra
      using that by (simp add: kept_def balanced_def)
    moreover have "taken_events ?m = taken_events m" by (simp add: taken_events_def)
    ultimately show ?thesis using unmount_mild[OF inner u] by (auto simp: mild_def)
  qed
  then show "mild client m r m1" "mc_disposed m1" "r \<noteq> Inl NestedDrain" by blast+
qed

lemma dispose_effect: "mild_effect client (machine_dispose client)"
  by (simp add: mild_effect_def dispose_mild(1))

lemma invoke_mild:
  assumes "invoke client cb m = (r, m1)" and "(\<exists>l s. cb = Listener l s) \<or> (\<exists>c. cb = Execute c)"
  shows "mild client m r m1"
  using invoke_plain[OF dispose_effect assms(1)[unfolded invoke_def] assms(2)] .

lemma notify_all_mild: "notify_all client ls m = (r, m1) \<Longrightarrow> mild client m r m1"
proof (induction ls arbitrary: m r m1)
  case (Cons l ls)
  show ?case
  proof (cases "mc_disposed m \<or> l \<notin> set (mc_listeners m)")
    case True
    then show ?thesis using Cons by (auto simp: mild_refl split: if_splits)
  next
    case False
    show ?thesis
      by (rule mild_then[of "invoke client (Listener l (mc_state m)) m" "\<lambda>_. notify_all client ls"])
        (use Cons False in \<open>auto intro: invoke_mild\<close>)
  qed
qed (auto simp: mild_refl)

lemma execute_all_mild: "execute_all client cs m = (r, m1) \<Longrightarrow> mild client m r m1"
proof (induction cs arbitrary: m r m1)
  case (Cons c cs)
  show ?case
  proof (cases "mc_disposed m")
    case True
    then show ?thesis using Cons by (auto simp: mild_refl)
  next
    case False
    show ?thesis
      by (rule mild_then[of "invoke client (Execute c) m" "\<lambda>_. execute_all client cs"])
        (use Cons False in \<open>auto intro: invoke_mild\<close>)
  qed
qed (auto simp: mild_refl)

text \<open>What a whole step does: cleanups stay balanced, errors come from callbacks only.\<close>

definition sound ::
  "('s, 'e, 'c, 'k, 'l) client \<Rightarrow> ('s, 'e, 'c, 'k, 'l) running \<Rightarrow> 'e list \<Rightarrow> 'e fault + 'a \<Rightarrow> ('s, 'e, 'c, 'k, 'l) running \<Rightarrow> bool" where
  "sound client m es r m' \<longleftrightarrow>
    (kept client [] m \<longrightarrow> kept client [] m') \<and> (mc_disposed m \<longrightarrow> mc_disposed m') \<and>
    mc_draining m' = mc_draining m \<and> taken_events m' = taken_events m @ es \<and>
    (mc_draining m \<or> mc_disposed m \<longrightarrow> r \<noteq> Inl NestedDrain) \<and> (\<forall>t. r \<noteq> Inl (DispatchCycleError t))"

lemma mild_sound: "mild client m r m1 \<Longrightarrow> sound client m [] r m1"
  by (auto simp: mild_def sound_def)

lemma sound_trans: "sound client m es (Inr v) m1 \<Longrightarrow> sound client m1 fs r m2 \<Longrightarrow> sound client m (es @ fs) r m2"
  unfolding sound_def by (metis append_assoc)

lemma sound_fault: "sound client m es (Inl e) m1 \<Longrightarrow> sound client m es (Inl e) m1"
  by (simp add: sound_def)

lemma unmountScope_sound:
  assumes "unmountScope client m = (r, m1)"
  shows "sound client m [] r m1" "mc_disposeScope m1 = None"
  using unmount_mild[OF dispose_effect assms[unfolded unmountScope_def invoke_def]]
  by (auto simp: sound_def kept_def)

lemma run_calls_quiet:
  assumes "mc_disposeScope m = None" and "mc_draining m \<or> mc_disposed m"
  shows "\<exists>m1. run_calls (machine_dispose client) cs m = (Inr (), m1)"
  using assms
proof (induction cs arbitrary: m)
  case (Cons c cs)
  show ?case
  proof (cases c)
    case (CallDispatch e)
    then show ?thesis using Cons by (auto simp: enqueue_def)
  next
    case CallDispose
    then show ?thesis using Cons by (auto simp: machine_dispose_def unmount_with_def)
  qed (use Cons in \<open>auto simp: subscribe_def unsubscribe_def\<close>)
qed simp

lemma mountScope_sound:
  assumes "mountScope client m = (r, m1)" and "mc_disposeScope m = None" and "mc_draining m \<or> mc_disposed m"
  shows "sound client m [] r m1"
proof -
  let ?cb = "Scope (mc_state m)" and ?m = "m\<lparr>mc_log := mc_log m @ [Called (Scope (mc_state m))]\<rparr>"
  obtain r1 m2 where r1: "invoke client ?cb m = (r1, m2)" by (cases "invoke client ?cb m")
  note x = invoke_with_mild(1)[OF dispose_effect r1[unfolded invoke_def], unfolded mild_def]
  note y = invoke_with_mild(2)[OF dispose_effect r1[unfolded invoke_def]]
  have due: "kept client (due client m ?cb) ?m" if "kept client [] m"
    using that assms(2) acquired_called[of client "mc_log m" ?cb m] by (auto simp: kept_def balanced_def released_def)
  have base: "mc_disposeScope m2 = None" "mc_disposed m \<longrightarrow> mc_disposed m2" "mc_draining m2 = mc_draining m"
    "taken_events m2 = taken_events m" "kept client [] m \<Longrightarrow> kept client (due client m ?cb) m2"
    using x assms(2) due by auto
  show ?thesis
  proof (cases r1)
    case (Inl e)
    then have "throws (client (mc_log m) ?cb)"
      using run_calls_quiet[of ?m client "calls (client (mc_log m) ?cb)"] assms(2,3) r1
      by (auto simp: invoke_def invoke_with_def Let_def split: if_splits)
    then have "due client m ?cb = []" by (simp add: due_def)
    moreover have "r = Inl e" "m1 = m2" using assms(1) r1 Inl by (simp_all add: mountScope_def)
    ultimately show ?thesis using base x Inl by (simp add: sound_def)
  next
    case (Inr v)
    then have v: "due client m ?cb = held v" using y by (simp add: due_def)
    show ?thesis
    proof (cases "mc_disposed m2")
      case False
      then have "r = Inr ()" "m1 = m2\<lparr>mc_disposeScope := v\<rparr>" using assms(1) r1 Inr by (simp_all add: mountScope_def)
      moreover have "taken_events (m2\<lparr>mc_disposeScope := v\<rparr>) = taken_events m2" by (simp add: taken_events_def)
      ultimately show ?thesis using base False unfolding v by (simp add: sound_def kept_def balanced_def)
    next
      case True
      show ?thesis
      proof (cases v)
        case None
        then have "r = Inr ()" "m1 = m2" using assms(1) r1 Inr True by (simp_all add: mountScope_def)
        then show ?thesis using base None unfolding v by (simp add: sound_def)
      next
        case (Some k)
        then obtain r2 where r2: "invoke client (Cleanup k (mc_state m2)) m2 = (r2, m1)"
            "r = (case r2 of Inl e \<Rightarrow> Inl e | Inr _ \<Rightarrow> Inr ())"
          using assms(1) r1 Inr True by (auto simp: mountScope_def and_then_def split: prod.splits sum.splits)
        note c = invoke_cleanup[OF dispose_effect r2(1)[unfolded invoke_def] base(1)]
        have "balanced client [k] m2" if "kept client [] m"
          using base(5)[OF that] v Some by (simp add: kept_def)
        then show ?thesis using base c r2(2) assms(3) by (auto simp: sound_def split: sum.splits)
      qed
    qed
  qed
qed

lemma apply_sound:
  assumes "machine_apply def client e m = (r, m1)" and "mc_draining m"
  shows "sound client m [e] r m1"
proof -
  let ?cb = "Inspect (mc_state m) e (machine_step def (mc_state m) e)"
  obtain r2 m2 where r2: "invoke client ?cb m = (r2, m2)" by (cases "invoke client ?cb m")
  have "kept client [] (m\<lparr>mc_log := mc_log m @ [Called ?cb]\<rparr>)" if "kept client [] m"
    using that by (simp add: kept_def balanced_def acquired_append released_def)
  then have s2: "sound client m [e] r2 m2"
    using invoke_with_mild(1)[OF dispose_effect r2[unfolded invoke_def]] by (auto simp: mild_def sound_def)
  note run = assms(1)[unfolded machine_apply_def Let_def r2]
  show ?thesis
  proof (cases r2)
    case (Inl f)
    then show ?thesis using run s2 by (auto simp: sound_def)
  next
    case (Inr v2)
    note s2 = s2[unfolded Inr]
    show ?thesis
    proof (cases "machine_step def (mc_state m) e = None \<or> mc_disposed m2")
      case True
      then have "r = Inr ()" "m1 = m2" using run Inr by (auto split: option.splits)
      then show ?thesis using s2 by (simp add: sound_def)
    next
      case False
      then obtain t where t: "machine_step def (mc_state m) e = Some t"
        by (cases "machine_step def (mc_state m) e") auto
      obtain r3 m3 where r3: "unmountScope client m2 = (r3, m3)" by (cases "unmountScope client m2")
      note s3 = sound_trans[OF s2 unmountScope_sound(1)[OF r3]]
      show ?thesis
      proof (cases "r3 = Inr () \<and> \<not> mc_disposed m3")
        case False
        then have "r = r3" "m1 = m3" using run r3 Inr t \<open>\<not> (_ \<or> mc_disposed m2)\<close>
          by (cases r3; auto)+
        then show ?thesis using s3 by simp
      next
        case True
        let ?m3 = "m3\<lparr>mc_state := tr_state t\<rparr>"
        obtain r4 m4 where r4: "mountScope client ?m3 = (r4, m4)" by (cases "mountScope client ?m3")
        have "sound client m2 [] (Inr ()) ?m3"
          using unmountScope_sound(1)[OF r3] True by (auto simp: sound_def kept_def balanced_def taken_events_def)
        note s3' = sound_trans[OF s2 this]
        have "mc_draining ?m3" using s3' assms(2) by (simp add: sound_def)
        then have "sound client ?m3 [] r4 m4"
          using mountScope_sound[OF r4] unmountScope_sound(2)[OF r3] by simp
        note s4 = sound_trans[OF s3' this]
        have rest: "and_then (r4, m4) (\<lambda>_ m3. and_then (notify_all client (mc_listeners m3) m3)
            (\<lambda>_. execute_all client (tr_commands t))) = (r, m1)"
          using run r3 r4 Inr t True \<open>\<not> (_ \<or> mc_disposed m2)\<close> by simp
        show ?thesis
        proof (cases r4)
          case (Inl f)
          then show ?thesis using rest s4 by (auto simp: sound_def)
        next
          case (Inr u)
          have "mild client m4 r m1"
            using rest Inr by (auto intro!: mild_then[OF _ notify_all_mild execute_all_mild])
          from sound_trans[OF s4[unfolded Inr] mild_sound[OF this]] show ?thesis by simp
        qed
      qed
    qed
  qed
qed

text \<open>A drain takes at most as many events as it may, and gives up only after that many.\<close>

lemma drain_sound:
  assumes "drain_loop n def client m = (r, m1)" and "mc_draining m"
  shows "\<exists>es. length es \<le> n \<and> taken_events m1 = taken_events m @ es \<and>
    (\<forall>t. r = Inl (DispatchCycleError t) \<longrightarrow> length es = n) \<and> r \<noteq> Inl NestedDrain \<and>
    (mc_disposed m \<longrightarrow> mc_disposed m1) \<and> (kept client [] m \<longrightarrow> kept client [] m1)"
  using assms
proof (induction n arbitrary: m)
  case 0
  then show ?case by (cases "mc_queue m") (auto simp: drain_loop.simps intro!: exI[of _ "[]"])
next
  case (Suc n)
  show ?case
  proof (cases "mc_queue m")
    case Nil
    then show ?thesis using Suc.prems by (auto simp: drain_loop.simps intro!: exI[of _ "[]"])
  next
    case (Cons e rest)
    let ?m = "m\<lparr>mc_queue := rest, mc_trail := push_trail e (mc_trail m)\<rparr>"
    obtain r2 m2 where r2: "machine_apply def client e ?m = (r2, m2)" by (cases "machine_apply def client e ?m")
    have k: "kept client [] m \<longrightarrow> kept client [] ?m"
      using Cons by (auto simp: kept_def balanced_def)
    have "taken_events ?m = taken_events m" by (simp add: taken_events_def)
    then have s: "taken_events m2 = taken_events m @ [e]" "mc_draining m2" "mc_disposed m \<longrightarrow> mc_disposed m2"
        "kept client [] m \<longrightarrow> kept client [] m2" "r2 \<noteq> Inl NestedDrain" "\<forall>t. r2 \<noteq> Inl (DispatchCycleError t)"
      using apply_sound[OF r2] Suc.prems(2) k by (auto simp: sound_def)
    show ?thesis
    proof (cases r2)
      case (Inl f)
      then have "r = Inl f" "m1 = m2" using Suc.prems(1) Cons r2 by (simp_all add: drain_loop.simps)
      then show ?thesis using s Inl by (intro exI[of _ "[e]"]) simp
    next
      case (Inr u)
      then have "drain_loop n def client m2 = (r, m1)" using Suc.prems(1) Cons r2 by (simp add: drain_loop.simps)
      from Suc.IH[OF this s(2)] obtain es where "length es \<le> n" "taken_events m1 = taken_events m2 @ es"
          "\<forall>t. r = Inl (DispatchCycleError t) \<longrightarrow> length es = n" "r \<noteq> Inl NestedDrain"
          "mc_disposed m2 \<longrightarrow> mc_disposed m1" "kept client [] m2 \<longrightarrow> kept client [] m1" by blast
      then show ?thesis using s by (intro exI[of _ "e # es"]) auto
    qed
  qed
qed

lemma machine_drain_sound:
  assumes "machine_drain def client m = (r, m1)"
  shows "\<exists>es. length es \<le> MAX_CHAINED_DISPATCHES \<and> taken_events m1 = taken_events m @ es \<and>
    (\<forall>t. r = Inl (DispatchCycleError t) \<longrightarrow> length es = MAX_CHAINED_DISPATCHES) \<and> r \<noteq> Inl NestedDrain \<and>
    (mc_disposed m \<longrightarrow> mc_disposed m1) \<and> (kept client [] m \<longrightarrow> kept client [] m1) \<and> at_rest m1"
proof -
  let ?m = "m\<lparr>mc_draining := True\<rparr>"
  obtain m2 where m2: "drain_loop MAX_CHAINED_DISPATCHES def client ?m = (r, m2)"
      "m1 = m2\<lparr>mc_draining := False, mc_queue := []\<rparr>"
    using assms by (auto simp: machine_drain_def split: prod.splits)
  have "kept client [] m \<longrightarrow> kept client [] ?m" "kept client [] m2 \<longrightarrow> kept client [] m1"
    by (auto simp: kept_def balanced_def m2(2))
  then show ?thesis using drain_sound[OF m2(1)] by (simp add: m2(2) at_rest_def) metis
qed

lemma createMachine_sound:
  fixes def :: "('s, 'e, 'c) machine_def" and client :: "('s, 'e, 'c, 'k, 'l) client"
  assumes "createMachine def client initial = (r, m)"
  shows "kept client [] m" "r = Inr () \<Longrightarrow> at_rest m" "r \<noteq> Inr () \<Longrightarrow> mc_disposed m"
proof -
  let ?f = "fresh_machine initial :: ('s, 'e, 'c, 'k, 'l) running"
  obtain r1 m1 where r1: "mountScope client ?f = (r1, m1)" by (cases "mountScope client ?f")
  have "kept client [] ?f" "mc_disposeScope ?f = None" "mc_draining ?f"
    by (simp_all add: fresh_machine_def kept_def balanced_def)
  then have k1: "kept client [] m1" using mountScope_sound[OF r1] by (auto simp: sound_def)
  let ?m1 = "m1\<lparr>mc_draining := False\<rparr>"
  have k2: "kept client [] ?m1" using k1 by (simp add: kept_def balanced_def)
  obtain r2 m2 where r2: "and_then (r1, m1) (\<lambda>_ m1. (let m2 = m1\<lparr>mc_draining := False\<rparr>
      in if mc_queue m2 \<noteq> [] then machine_drain def client m2 else (Inr (), m2))) = (r2, m2)"
    by fastforce
  have k3: "kept client [] m2 \<and> (r2 = Inr () \<longrightarrow> at_rest m2)"
  proof (cases r1)
    case (Inl f)
    then show ?thesis using r2 k1 by auto
  next
    case (Inr u)
    show ?thesis
    proof (cases "mc_queue m1 = []")
      case True
      then have "r2 = Inr ()" "m2 = ?m1" using r2 Inr by (simp_all add: Let_def)
      then show ?thesis using k2 True by (simp add: at_rest_def)
    next
      case False
      then have "machine_drain def client ?m1 = (r2, m2)" using r2 Inr by (simp add: Let_def)
      from machine_drain_sound[OF this] k2 show ?thesis by blast
    qed
  qed
  have run: "createMachine def client initial = (case r2 of Inr _ \<Rightarrow> (Inr (), m2)
      | Inl e \<Rightarrow> and_then (machine_dispose client m2) (\<lambda>_ m1. (Inl e, m1)))"
    using r2 by (simp add: createMachine_def r1)
  have "kept client [] m \<and> (r = Inr () \<longrightarrow> at_rest m) \<and> (r \<noteq> Inr () \<longrightarrow> mc_disposed m)"
  proof (cases r2)
    case (Inr u)
    then show ?thesis using run assms k3 by simp
  next
    case (Inl f)
    obtain r3 m3 where r3: "machine_dispose client m2 = (r3, m3)" by (cases "machine_dispose client m2")
    then have "m = m3" "r \<noteq> Inr ()" using run assms Inl by (cases r3; auto)+
    then show ?thesis using dispose_mild[OF r3] k3 by (simp add: mild_def)
  qed
  then show "kept client [] m" "r = Inr () \<Longrightarrow> at_rest m" "r \<noteq> Inr () \<Longrightarrow> mc_disposed m" by blast+
qed

lemma call_sound:
  assumes "machine_call_step def client c m = (r, m1)" and "kept client [] m" and "at_rest m"
  shows "kept client [] m1 \<and> at_rest m1 \<and> (mc_disposed m \<longrightarrow> mc_disposed m1) \<and>
    (\<exists>es. length es \<le> MAX_CHAINED_DISPATCHES \<and> taken_events m1 = taken_events m @ es \<and>
      (\<forall>t. r = Inl (DispatchCycleError t) \<longrightarrow> length es = MAX_CHAINED_DISPATCHES) \<and> r \<noteq> Inl NestedDrain)"
proof (cases c)
  case (CallDispatch e)
  let ?m = "m\<lparr>mc_queue := mc_queue m @ [e], mc_log := mc_log m @ [Sent e]\<rparr>"
  show ?thesis
  proof (cases "mc_disposed m")
    case True
    then show ?thesis using assms CallDispatch by (auto simp: machine_dispatch_def intro!: exI[of _ "[]"])
  next
    case False
    then have d: "machine_drain def client ?m = (r, m1)"
      using assms CallDispatch by (simp add: machine_dispatch_def at_rest_def Let_def)
    have "kept client [] ?m" using assms(2) False
      by (simp add: kept_def balanced_def acquired_append released_def)
    moreover have "taken_events ?m = taken_events m" by (simp add: taken_events_def)
    ultimately show ?thesis using machine_drain_sound[OF d] False by auto
  qed
next
  case CallDispose
  then have d: "machine_dispose client m = (r, m1)" using assms(1) by simp
  have "kept client [] m1" using dispose_mild(1)[OF d] assms(2) by (simp add: mild_def)
  moreover from this have "mc_queue m1 = []" using dispose_mild(2)[OF d] by (simp add: kept_def balanced_def)
  ultimately have "kept client [] m1 \<and> at_rest m1 \<and> mc_disposed m1 \<and> taken_events m1 = taken_events m"
    using dispose_mild[OF d] assms(2,3) by (auto simp: mild_def at_rest_def)
  moreover have "r \<noteq> Inl NestedDrain" by (rule dispose_mild(3)[OF d])
  ultimately show ?thesis using dispose_mild[OF d] by (auto simp: mild_def intro!: exI[of _ "[]"])
next
  case (CallSubscribe l)
  then show ?thesis using assms
    by (auto simp: subscribe_def kept_def balanced_def at_rest_def taken_events_def intro!: exI[of _ "[]"] split: if_splits)
next
  case (CallUnsubscribe l)
  then show ?thesis using assms
    by (auto simp: unsubscribe_def kept_def balanced_def at_rest_def taken_events_def intro!: exI[of _ "[]"])
qed

lemma calls_sound:
  assumes "machine_calls def client cs m = (rs, m1)" and "kept client [] m" and "at_rest m"
  shows "kept client [] m1 \<and> at_rest m1 \<and> (mc_disposed m \<longrightarrow> mc_disposed m1)"
  using assms
proof (induction cs arbitrary: m rs)
  case (Cons c cs)
  obtain r m2 where m2: "machine_call_step def client c m = (r, m2)" by (cases "machine_call_step def client c m")
  obtain rs2 where rs2: "machine_calls def client cs m2 = (rs2, m1)"
    using Cons.prems(1) m2 by (auto split: prod.splits)
  have "kept client [] m2 \<and> at_rest m2 \<and> (mc_disposed m \<longrightarrow> mc_disposed m2)"
    using call_sound[OF m2 Cons.prems(2,3)] by blast
  then show ?case using Cons.IH[OF rs2] by blast
qed simp

lemma disposed_is_final:
  assumes "mc_disposed m" and "kept client [] m"
  shows "snd (machine_calls def client cs m) = m"
proof (induction cs)
  case (Cons c cs)
  have "snd (machine_call_step def client c m) = m"
    using assms by (cases c) (simp_all add: machine_dispatch_def machine_dispose_def subscribe_def
        unsubscribe_def kept_def balanced_def)
  then obtain r where "machine_call_step def client c m = (r, m)" by (metis prod.collapse)
  then show ?case using Cons by (auto split: prod.splits)
qed simp

text \<open>
  C23.  Whatever the callbacks do, throw, dispose the machine in the middle of a transition or send more
  events, scopes and cleanups are paired: the cleanups that were called are those that scopes
  returned, each once and in order, apart from the one of the current state.  Once the machine
  is disposed all of them have been called, and no later call on it has any effect.
\<close>

theorem scopes_are_cleaned_up:
  assumes "createMachine def client initial = (Inr (), m)" and "machine_calls def client cs m = (rs, m1)"
  shows "acquired client [] (mc_log m1) = released (mc_log m1) @ held (mc_disposeScope m1) \<and>
    (mc_disposed m1 \<longrightarrow> mc_disposeScope m1 = None \<and> (\<forall>ds. snd (machine_calls def client ds m1) = m1))"
proof -
  have "kept client [] m1"
    using calls_sound[OF assms(2) createMachine_sound(1,2)[OF assms(1)]] by simp
  moreover have "\<forall>ds. snd (machine_calls def client ds m1) = m1" if "mc_disposed m1"
    using disposed_is_final[OF that \<open>kept client [] m1\<close>] by blast
  ultimately show ?thesis by (simp add: kept_def balanced_def)
qed

text \<open>
  C24.  A call on the machine from outside takes at most \<open>MAX_CHAINED_DISPATCHES\<close> events, whatever the
  callbacks do, and reports a cycle only after exactly that many.  Whether it returns or throws, nothing is left in the
  queue and the machine is ready for the next call; an event never starts a second drain inside the first.
\<close>

theorem one_call_is_bounded:
  assumes "createMachine def client initial = (Inr (), m0)" and "machine_calls def client cs m0 = (rs, m)"
    and "machine_call_step def client c m = (r, m1)"
  shows "\<exists>es. taken_events m1 = taken_events m @ es \<and> length es \<le> MAX_CHAINED_DISPATCHES \<and>
    (\<forall>t. r = Inl (DispatchCycleError t) \<longrightarrow> length es = MAX_CHAINED_DISPATCHES) \<and>
    r \<noteq> Inl NestedDrain \<and> mc_queue m1 = [] \<and> \<not> mc_draining m1"
proof -
  have "kept client [] m" "at_rest m"
    using calls_sound[OF assms(2) createMachine_sound(1,2)[OF assms(1)]] by simp_all
  from call_sound[OF assms(3) this] show ?thesis by (auto simp: at_rest_def)
qed

section \<open>A machine at work\<close>

text \<open>A counter that is bumped: its scope hands over a cleanup, and its first command bumps it once more.\<close>

definition example_machine :: "(nat, string, nat) machine_def" where
  "example_machine s e = (if e = ''bump'' then Some \<lparr>tr_state = s + 1, tr_commands = [s]\<rparr> else None)"

definition example_client :: "(nat, string, nat, nat, nat) client" where
  "example_client log cb = (case cb of
     Scope s \<Rightarrow> \<lparr>calls = [], returns = Some s, throws = False\<rparr>
   | Execute c \<Rightarrow> \<lparr>calls = (if c = 0 then [CallDispatch ''bump''] else []), returns = None, throws = False\<rparr>
   | _ \<Rightarrow> \<lparr>calls = [], returns = None, throws = False\<rparr>)"

definition example_calls :: "(string, nat) machine_call list" where
  "example_calls = [CallSubscribe 7, CallDispatch ''bump'', CallDispatch ''other'']"

definition example_started :: "(nat, string, nat, nat, nat) running" where
  "example_started = \<lparr>mc_state = 0, mc_disposed = False, mc_draining = False, mc_disposeScope = Some 0,
     mc_listeners = [], mc_queue = [], mc_trail = [], mc_log = [Called (Scope 0)]\<rparr>"

lemma example_calm: "calm example_client"
  by (auto simp: calm_def example_client_def split: callback.splits)

lemma example_created: "createMachine example_machine example_client 0 = (Inr (), example_started)"
  by (simp add: createMachine_def mountScope_def invoke_def invoke_with_def fresh_machine_def example_client_def
      example_started_def Let_def)

theorem machine_runs_its_simulation_witness:
  "mirrors example_machine 0 (snd (machine_calls example_machine example_client example_calls example_started))"
  using machine_runs_its_simulation[OF example_calm example_created, of example_calls]
  by (simp add: example_calls_def split: prod.splits)

theorem scopes_are_cleaned_up_witness:
  "mc_disposeScope (snd (machine_calls example_machine example_client [CallDispose] example_started)) = None"
  using scopes_are_cleaned_up[OF example_created, of "[CallDispose]"]
  by (simp add: machine_dispose_def unmount_with_def invoke_with_def example_started_def example_client_def Let_def)

theorem one_call_is_bounded_witness:
  "mc_queue (snd (machine_call_step example_machine example_client (CallDispatch ''bump'') example_started)) = []"
  using one_call_is_bounded[OF example_created, of "[]" "[]" example_started "CallDispatch ''bump''"]
  by (metis machine_calls.simps(1) prod.collapse)

end
