(* ===== verification/Router_Entries.thy ===== *)
theory Router_Entries
  imports Route_Targets Route_Codec Pane_History
begin

text \<open>
  Entries of the split router, \<open>router/entries.ts\<close>: what a pane's history holds for a route, how a new entry
  is made with its state, how search changes make a new visit or rewrite one, and which state
  survives a redirect.  The package \<open>fast-deep-equal\<close>, \<open>structuredClone\<close> and the identity of schemas,
  which the code compares by reference, are parameters.
\<close>

section \<open>Data\<close>

text \<open>An entry of \<open>routes/types.ts\<close> is a pane entry whose rest is a location, a state and the metadata.\<close>

record entry_rest =
  er_location :: split_location
  er_state :: js_value \<comment> \<open>\<open>Undefined\<close> when absent\<close>
  er_meta :: "js_value option"

type_synonym entry = "(js_value, entry_rest) pane_entry"

abbreviation e_location :: "entry \<Rightarrow> split_location" where "e_location e \<equiv> er_location (e_rest e)"
abbreviation e_state :: "entry \<Rightarrow> js_value" where "e_state e \<equiv> er_state (e_rest e)"

definition with_location :: "split_location \<Rightarrow> entry \<Rightarrow> entry" where
  "with_location l e = e\<lparr>e_rest := (e_rest e)\<lparr>er_location := l\<rparr>\<rparr>"

definition with_state :: "js_value \<Rightarrow> entry \<Rightarrow> entry" where
  "with_state v e = e\<lparr>e_rest := (e_rest e)\<lparr>er_state := v\<rparr>\<rparr>"

text \<open>What the routes see of an entry.\<close>

definition as_route_entry :: "entry \<Rightarrow> route_entry" where
  "as_route_entry e = \<lparr>en_id = e_id e, en_location = e_location e, en_state = e_state e\<rparr>"

lemma entry_simps [simp]:
  "e_location (with_location l e) = l" "e_state (with_location l e) = e_state e" "e_id (with_location l e) = e_id e"
  "e_location (with_state v e) = e_location e" "e_state (with_state v e) = v" "e_id (with_state v e) = e_id e"
  "en_id (as_route_entry e) = e_id e" "en_location (as_route_entry e) = e_location e" "en_state (as_route_entry e) = e_state e"
  by (simp_all add: with_location_def with_state_def as_route_entry_def)

text \<open>What the router uses of the platform and of packages.\<close>

record router_env =
  deq_location :: "split_location \<Rightarrow> split_location \<Rightarrow> bool" \<comment> \<open>\<open>fast-deep-equal\<close>, at the types it is used at\<close>
  deq_value :: "js_value \<Rightarrow> js_value \<Rightarrow> bool"
  deq_search :: "search_state option \<Rightarrow> search_state option \<Rightarrow> bool"
  deq_params :: "search_params option \<Rightarrow> search_params option \<Rightarrow> bool"
  same_schema :: "schema option \<Rightarrow> schema option \<Rightarrow> bool"
  same_props :: "js_value \<Rightarrow> js_value \<Rightarrow> bool" \<comment> \<open>identity of the props of two entries\<close>
  structuredClone :: "js_value \<Rightarrow> js_value option" \<comment> \<open>\<open>None\<close> when it throws\<close>
  toLower :: "ustring \<Rightarrow> ustring"

datatype write_mode = ModePush | ModeReplace

datatype state_update =
    SetState js_value
  | MapState "js_value \<Rightarrow> js_value"

record entry_options =
  eo_state :: "state_update option" \<comment> \<open>\<open>None\<close> when the options have no such property\<close>
  eo_props :: "js_value option"
  eo_keepProps :: bool
  eo_meta :: "js_value option"

datatype entry_error =
    EntryRoute route_error
  | RejectedState ustring

definition of_route :: "route_error + 'a \<Rightarrow> entry_error + 'a" where
  "of_route r = (case r of Inl e \<Rightarrow> Inl (EntryRoute e) | Inr a \<Rightarrow> Inr a)"

lemma of_route_simps [simp]: "of_route (Inl e) = Inl (EntryRoute e)" "of_route (Inr a) = Inr a"
  by (simp_all add: of_route_def)

lemma of_route_Inr [result_simps]: "of_route r = Inr a \<longleftrightarrow> r = Inr a"
  by (cases r) simp_all

section \<open>Operations\<close>

definition sameVisit :: "router_env \<Rightarrow> entry \<Rightarrow> entry \<Rightarrow> bool" where
  "sameVisit env left right \<longleftrightarrow>
    deq_location env (e_location left) (e_location right) \<and> deq_value env (e_state left) (e_state right)"

definition sameStateSchema ::
  "router_env \<Rightarrow> routes_manifest \<Rightarrow> split_location \<Rightarrow> split_location \<Rightarrow> route_error + bool" where
  "sameStateSchema env routes left right =
    bind_result (leafNode routes (l_route left)) (\<lambda>l.
    bind_result (leafNode routes (l_route right)) (\<lambda>r. Inr (same_schema env (n_state l) (n_state r))))"

definition currentState ::
  "router_env \<Rightarrow> routes_manifest \<Rightarrow> split_location \<Rightarrow> entry option \<Rightarrow> route_error + js_value" where
  "currentState env routes location from =
    (case from of
       None \<Rightarrow> Inr Undefined
     | Some f \<Rightarrow>
         bind_result (sameStateSchema env routes (e_location f) location) (\<lambda>same.
           Inr (if same then e_state f else Undefined)))"

fun applyStateUpdate :: "state_update \<Rightarrow> js_value \<Rightarrow> js_value" where
  "applyStateUpdate (SetState v) current = v"
| "applyStateUpdate (MapState f) current = f current"

definition cloneState :: "router_env \<Rightarrow> js_value \<Rightarrow> js_value" where
  "cloneState env v = (case structuredClone env v of None \<Rightarrow> Undefined | Some c \<Rightarrow> c)"

definition resolveState ::
  "router_env \<Rightarrow> routes_manifest \<Rightarrow> split_location \<Rightarrow> entry option \<Rightarrow> state_update \<Rightarrow> entry_error + js_value" where
  "resolveState env routes location from upd =
    bind_result (of_route (currentState env routes location from)) (\<lambda>existing.
    bind_result (of_route (parseRouteEntryState routes (l_route location) (applyStateUpdate upd existing))) (\<lambda>parsed.
      case parsed of
        None \<Rightarrow> Inl (RejectedState (m_id (last (l_route location))))
      | Some v \<Rightarrow> Inr (if v = Undefined then Undefined else cloneState env v)))"

text \<open>The id that \<open>createId\<close> returns is a parameter.\<close>

definition createEntry ::
  "router_env \<Rightarrow> ustring \<Rightarrow> routes_manifest \<Rightarrow> split_location \<Rightarrow> entry option \<Rightarrow> entry_options \<Rightarrow> entry_error + entry" where
  "createEntry env newId routes location from options =
    bind_result (case eo_state options of
                   None \<Rightarrow> Inr Undefined
                 | Some upd \<Rightarrow> resolveState env routes location from upd) (\<lambda>state.
      Inr \<lparr>e_id = newId, e_props = eo_props options, e_keepProps = eo_keepProps options,
           e_rest = \<lparr>er_location = location, er_state = state, er_meta = eo_meta options\<rparr>\<rparr>)"

definition searchEntry :: "ustring \<Rightarrow> entry \<Rightarrow> split_location \<Rightarrow> entry" where
  "searchEntry newId from location =
    (if e_keepProps from then (with_location location from)\<lparr>e_id := newId\<rparr>
     else (with_location location from)\<lparr>e_id := newId, e_props := None, e_keepProps := False\<rparr>)"

definition searchVisitEntry :: "ustring \<Rightarrow> entry \<Rightarrow> split_location \<Rightarrow> write_mode \<Rightarrow> entry" where
  "searchVisitEntry newId from location mode =
    (if mode = ModePush then searchEntry newId from location else with_location location from)"

definition spread_search :: "search_state \<Rightarrow> search_state \<Rightarrow> search_state" where
  "spread_search base over = fold (\<lambda>(k, v). AList.update k v) over base"

definition mergeDestinationSearch ::
  "router_env \<Rightarrow> routes_manifest \<Rightarrow> entry \<Rightarrow> entry \<Rightarrow> route_error + split_location option" where
  "mergeDestinationSearch env routes owner destination =
    (case l_search (e_location destination) of
       None \<Rightarrow> Inr None
     | Some incoming \<Rightarrow>
         (let route = l_route (e_location owner);
              own = l_search (e_location owner);
              merged = spread_search (case own of None \<Rightarrow> [] | Some s \<Rightarrow> s) incoming
          in bind_result (filterRouteSearch routes route (Some merged)) (\<lambda>search.
               Inr (if deq_search env search own then None else Some (locationOf route search)))))"

definition withValidState ::
  "router_env \<Rightarrow> routes_manifest \<Rightarrow> entry \<Rightarrow> entry \<Rightarrow> route_error + entry" where
  "withValidState env routes e original =
    (if e_state e = Undefined then Inr e
     else
       bind_result (sameStateSchema env routes (e_location e) (e_location original)) (\<lambda>same.
         if same then Inr e
         else
           bind_result (parseRouteEntryState routes (l_route (e_location e)) (e_state e)) (\<lambda>parsed.
             Inr (with_state (case parsed of None \<Rightarrow> Undefined | Some v \<Rightarrow> v) e))))"

section \<open>What they keep\<close>

text \<open>A state is accepted by a route when its leaf's schema accepts some value and gives this one.\<close>

definition state_from :: "routes_manifest \<Rightarrow> route_state \<Rightarrow> js_value \<Rightarrow> bool" where
  "state_from routes route v \<longleftrightarrow> v = Undefined \<or> (\<exists>w. parseRouteEntryState routes route w = Inr (Some v))"

text \<open>The identity of schemas: only a schema is identical to itself.\<close>

definition identity_of_schemas :: "router_env \<Rightarrow> bool" where
  "identity_of_schemas env \<longleftrightarrow> (\<forall>a b. same_schema env a b \<longrightarrow> a = b)"

lemma parse_same_schema:
  assumes "sameStateSchema env routes a b = Inr True" and "identity_of_schemas env"
  shows "parseRouteEntryState routes (l_route a) v = parseRouteEntryState routes (l_route b) v"
proof -
  obtain l r where l: "leafNode routes (l_route a) = Inr l" "leafNode routes (l_route b) = Inr r"
      and same: "same_schema env (n_state l) (n_state r)"
    using assms(1) by (auto simp: sameStateSchema_def bind_result_Inr)
  have "n_state l = n_state r" using assms(2) same unfolding identity_of_schemas_def by blast
  then show ?thesis using l by (simp add: parseRouteEntryState_def)
qed

text \<open>
  Whatever a redirect does to the location of an entry, the state it ends up with is one that the schema of
  its own route has returned, or none: a state of the original route survives only where both
  routes have the same schema.
\<close>

lemma withValidState_valid:
  assumes "withValidState env routes e original = Inr e'" and "identity_of_schemas env"
    and "state_from routes (l_route (e_location original)) (e_state e)"
  shows "state_from routes (l_route (e_location e')) (e_state e') \<and> e_location e' = e_location e \<and> e_id e' = e_id e"
proof (cases "e_state e = Undefined \<or> sameStateSchema env routes (e_location e) (e_location original) = Inr True")
  case True
  then have "e' = e" using assms(1) by (auto simp: withValidState_def split: if_splits)
  moreover have "state_from routes (l_route (e_location e)) (e_state e)"
    using True assms(3) parse_same_schema[OF _ assms(2)] by (auto simp: state_from_def)
  ultimately show ?thesis by simp
next
  case False
  then obtain p where "parseRouteEntryState routes (l_route (e_location e)) (e_state e) = Inr p"
      "e' = with_state (case p of None \<Rightarrow> Undefined | Some v \<Rightarrow> v) e"
    using assms(1) by (auto simp: withValidState_def bind_result_Inr split: if_splits)
  then show ?thesis by (cases p) (auto simp: state_from_def)
qed

lemma searchVisitEntry_replace: "searchVisitEntry i from l ModeReplace = with_location l from"
  by (simp add: searchVisitEntry_def)

lemma searchVisitEntry_push:
  "e_id (searchVisitEntry i from l ModePush) = i" "e_location (searchVisitEntry i from l ModePush) = l"
  "e_state (searchVisitEntry i from l ModePush) = e_state from"
  "e_props (searchVisitEntry i from l ModePush) = (if e_keepProps from then e_props from else None)"
  by (simp_all add: searchVisitEntry_def searchEntry_def with_location_def)

lemma map_of_spread_search:
  "map_of (spread_search base over) k = (case map_of (rev over) k of None \<Rightarrow> map_of base k | Some v \<Rightarrow> Some v)"
  by (induction over arbitrary: base) (auto simp: spread_search_def update_conv map_add_def split: option.splits)

end
