(* ===== verification/Router_History.thy ===== *)
theory Router_History
  imports Router_Entries Route_Roundtrip
begin

text \<open>
  What owns the real URL, \<open>lib/split-router/history\<close>: the interface of a history adapter (\<open>types.ts\<close>), the adapter that
  keeps its locations in memory (\<open>memory.ts\<close>), the slice of \<open>history.state\<close> and the base path that
  adapters share (\<open>shared.ts\<close>), and the adapter over \<open>window.history\<close> (\<open>browser.ts\<close>).  The session history
  of the window is a list of entries with a cursor; parsing and resolving of URLs by the
  platform are parameters.
\<close>

section \<open>The interface\<close>

record 'h history_adapter =
  ha_read :: "'h \<Rightarrow> external_location"
  ha_write :: "external_location \<Rightarrow> write_mode \<Rightarrow> 'h \<Rightarrow> 'h option" \<comment> \<open>\<open>None\<close> when it throws\<close>
  ha_href :: "external_location \<Rightarrow> ustring"

text \<open>
  What the router relies on.  An adapter may apply a write later, or merge it with others, so a write need not be
  what \<open>read\<close> gives next; \<open>shows_location\<close> is the location that the host is at or has been sent to, and a write that does not throw
  is shown from then on.
\<close>

locale history_laws =
  fixes adapter :: "'h history_adapter" and hinv :: "'h \<Rightarrow> bool" and shows_location :: "'h \<Rightarrow> external_location"
  assumes shows_write: "hinv h \<Longrightarrow> ha_write adapter l mode h = Some h' \<Longrightarrow> shows_location h' = l"
    and inv_write: "hinv h \<Longrightarrow> ha_write adapter l mode h = Some h' \<Longrightarrow> hinv h'"

text \<open>Listeners and interceptors: an item is removed by its identity, the first of equal ones.\<close>

definition list_add :: "'a \<Rightarrow> 'a list \<Rightarrow> 'a list" where
  "list_add item items = items @ [item]"

definition list_remove :: "'a \<Rightarrow> 'a list \<Rightarrow> 'a list" where
  "list_remove item items = (case find_index (\<lambda>x. x = item) items of None \<Rightarrow> items | Some i \<Rightarrow> take i items @ drop (Suc i) items)"

section \<open>In memory\<close>

record memory_history =
  mh_entries :: "external_location list"
  mh_index :: nat

datatype memory_revert =
    RevertIndex nat \<comment> \<open>\<open>index = previous\<close>\<close>
  | RevertEntry external_location \<comment> \<open>\<open>entries = entries.with(index, previous)\<close>\<close>

definition createMemoryHistory :: "external_location \<Rightarrow> memory_history" where
  "createMemoryHistory initial = \<lparr>mh_entries = [initial], mh_index = 0\<rparr>"

definition memory_read :: "memory_history \<Rightarrow> external_location" where
  "memory_read h = mh_entries h ! mh_index h"

definition memory_apply :: "external_location \<Rightarrow> write_mode \<Rightarrow> memory_history \<Rightarrow> memory_history option" where
  "memory_apply location mode h =
    (if mode = ModeReplace then
       (if mh_index h < length (mh_entries h) then Some (h\<lparr>mh_entries := (mh_entries h)[mh_index h := location]\<rparr>) else None)
     else Some \<lparr>mh_entries = take (mh_index h + 1) (mh_entries h) @ [location], mh_index = mh_index h + 1\<rparr>)"

text \<open>\<open>go\<close> with the change it reports, if any: the location and how to undo it.\<close>

definition memory_go ::
  "int \<Rightarrow> memory_history \<Rightarrow> memory_history \<times> (external_location \<times> memory_revert) option" where
  "memory_go delta h =
    (let lastIndex = int (length (mh_entries h)) - 1;
         target = nat (max 0 (min lastIndex (int (mh_index h) + delta)))
     in if target = mh_index h then (h, None)
        else (let h1 = h\<lparr>mh_index := target\<rparr> in (h1, Some (memory_read h1, RevertIndex (mh_index h)))))"

text \<open>Another part of the app navigating, once the interceptors have answered.\<close>

definition memory_navigate ::
  "external_location \<Rightarrow> write_mode \<Rightarrow> bool list \<Rightarrow> memory_history \<Rightarrow>
   memory_history \<times> (external_location \<times> memory_revert) option" where
  "memory_navigate location mode answers h =
    (if False \<in> set answers then (h, None)
     else (case memory_apply location mode h of
       None \<Rightarrow> (h, None)
     | Some h1 \<Rightarrow> (h1, Some (memory_read h1, RevertEntry (memory_read h)))))"

fun memory_undo :: "memory_revert \<Rightarrow> memory_history \<Rightarrow> memory_history" where
  "memory_undo (RevertIndex previous) h = h\<lparr>mh_index := previous\<rparr>"
| "memory_undo (RevertEntry previous) h = h\<lparr>mh_entries := (mh_entries h)[mh_index h := previous]\<rparr>"

definition memory_adapter :: "memory_history history_adapter" where
  "memory_adapter = \<lparr>ha_read = memory_read, ha_write = memory_apply,
     ha_href = (\<lambda>l. formatLocation (x_path l) (x_search l) (x_hash l))\<rparr>"

definition mh_inv :: "memory_history \<Rightarrow> bool" where
  "mh_inv h \<longleftrightarrow> mh_index h < length (mh_entries h)"

lemma memory_apply_ok:
  "mh_inv h \<Longrightarrow> \<exists>h'. memory_apply l mode h = Some h' \<and> mh_inv h' \<and> memory_read h' = l"
  by (cases mode) (auto simp: memory_apply_def mh_inv_def memory_read_def nth_append min_def)

interpretation memory_hist: history_laws memory_adapter mh_inv memory_read
proof unfold_locales
  fix h h' :: memory_history and l mode
  assume h: "mh_inv h" "ha_write memory_adapter l mode h = Some h'"
  from memory_apply_ok[OF h(1), of l mode] h(2)
  show "memory_read h' = l" "mh_inv h'" by (auto simp: memory_adapter_def)
qed

text \<open>
  Undoing a change that was reported shows the location from before; for \<open>go\<close> the history is exactly as it was,
  and after another part of the app has pushed, the pushed entry stays and shows that
  location.
\<close>

lemma memory_go_undone:
  assumes "mh_inv h" and "memory_go delta h = (h', Some (l, undo))"
  shows "memory_undo undo h' = h \<and> memory_read h' = l \<and> mh_inv h'"
  using assms by (auto simp: memory_go_def Let_def mh_inv_def split: if_splits)

lemma memory_navigate_undone:
  assumes "mh_inv h" and "memory_navigate l mode answers h = (h', Some (l', undo))"
  shows "l' = l \<and> memory_read (memory_undo undo h') = memory_read h \<and> mh_inv (memory_undo undo h') \<and>
    mh_entries (memory_undo undo h') =
      (if mode = ModeReplace then mh_entries h else take (mh_index h + 1) (mh_entries h) @ [memory_read h])"
  using assms
  by (cases mode) (auto simp: memory_navigate_def memory_apply_def mh_inv_def memory_read_def nth_append min_def
      list_update_append split: if_splits)

section \<open>The slice of \<open>history.state\<close>\<close>

definition STATE_KEY :: ustring where
  "STATE_KEY = u ''__splitRouter''"

record history_slice =
  hs_index :: nat
  hs_value :: "history_pane list option"

fun isHistoryIndex :: "js_value \<Rightarrow> bool" where
  "isHistoryIndex (Primitive s) = (s \<noteq> [] \<and> list_all digit s \<and> isSafeInteger (digits_value s))"
| "isHistoryIndex _ = False"

fun property :: "js_value \<Rightarrow> ustring \<Rightarrow> js_value" where
  "property (Obj r) k = (case map_of r k of None \<Rightarrow> Undefined | Some v \<Rightarrow> v)"
| "property _ k = Undefined"

fun is_record :: "js_value \<Rightarrow> bool" where
  "is_record (Obj _) = True"
| "is_record _ = False"

definition isStoredSlice :: "js_value \<Rightarrow> bool" where
  "isStoredSlice v \<longleftrightarrow> is_record v \<and> isHistoryIndex (property v (u ''index''))"

definition readSlice :: "js_value \<Rightarrow> history_slice option" where
  "readSlice state =
    (let stored = (if is_record state then property state STATE_KEY else Undefined)
     in if isStoredSlice stored
        then Some \<lparr>hs_index = (case property stored (u ''index'') of Primitive s \<Rightarrow> digits_value s | _ \<Rightarrow> 0),
                   hs_value = readHistoryState (property stored (u ''value''))\<rparr>
        else None)"

definition stateForWrite :: "nat \<Rightarrow> external_location \<Rightarrow> bool \<Rightarrow> js_value \<Rightarrow> js_value" where
  "stateForWrite i location replace current =
    (let own = Obj [(u ''index'', Primitive (u (show_nat i))), (u ''value'', x_state location)]
     in if \<not> replace then Obj [(STATE_KEY, own)]
        else Obj (AList.update STATE_KEY own (case current of Obj r \<Rightarrow> r | _ \<Rightarrow> [])))"

text \<open>What was written is what is read, under a replaced entry whatever state the host had there, which it keeps.\<close>

lemma slice_roundtrip:
  assumes "isSafeInteger i"
  shows "readSlice (stateForWrite i l replace current) = Some \<lparr>hs_index = i, hs_value = readHistoryState (x_state l)\<rparr>"
proof -
  have "list_all digit (u (show_nat i))" using show_nat_digits by (simp add: list_all_iff)
  moreover have "u (show_nat i) \<noteq> []" using show_nat_ne[of i] by (simp add: u_def)
  ultimately show ?thesis using assms show_nat_value[of i]
    by (cases replace)
      (simp_all add: readSlice_def stateForWrite_def isStoredSlice_def Let_def update_conv' u_def)
qed

lemma replace_keeps_host_state:
  "k \<noteq> STATE_KEY \<Longrightarrow> property (stateForWrite i l True (Obj r)) k = property (Obj r) k"
  by (simp add: stateForWrite_def Let_def update_conv')

section \<open>The base path\<close>

definition normalizeBase :: "ustring \<Rightarrow> ustring" where
  "normalizeBase base = rev (dropWhile (\<lambda>c. c = slash) (rev base))"

definition isUnderBase :: "(ustring \<Rightarrow> ustring) \<Rightarrow> ustring \<Rightarrow> ustring \<Rightarrow> bool" where
  "isUnderBase lower path base \<longleftrightarrow>
    base = [] \<or>
    (let lowerPath = lower path; lowerBase = lower base
     in take (length lowerBase) lowerPath = lowerBase \<and>
        (let rest = drop (length lowerBase) lowerPath in rest = [] \<or> hd rest = slash))"

text \<open>\<open>slice\<close> of a string from a UTF-16 index, which may cut a pair.\<close>

fun js_slice :: "nat \<Rightarrow> ustring \<Rightarrow> ustring" where
  "js_slice 0 s = s"
| "js_slice n [] = []"
| "js_slice (Suc n) (c # s) =
     (if c < 0x10000 then js_slice n s
      else if n = 0 then (0xDC00 + (c - 0x10000) mod 0x400) # s else js_slice (n - 1) s)"

record mount_options =
  mo_base :: ustring
  mo_transformPath :: "(ustring \<Rightarrow> ustring) option"
  mo_parse :: "ustring \<Rightarrow> external_location" \<comment> \<open>\<open>parseLocation\<close>, the platform's URL parser\<close>
  mo_lower :: "ustring \<Rightarrow> ustring"

definition toMountLocation :: "mount_options \<Rightarrow> ustring \<Rightarrow> external_location option" where
  "toMountLocation mo host =
    (let parsed = mo_parse mo host
     in if \<not> isUnderBase (mo_lower mo) (x_path parsed) (mo_base mo) then None
        else
         (let sliced = js_slice (js_length (mo_base mo)) (x_path parsed);
              relative = (if sliced = [] then [slash] else sliced)
          in Some (parsed\<lparr>x_path := (case mo_transformPath mo of None \<Rightarrow> relative | Some f \<Rightarrow> f relative)\<rparr>)))"

definition hostPath :: "ustring \<Rightarrow> external_location \<Rightarrow> ustring" where
  "hostPath base l = base @ formatLocation (x_path l) (x_search l) (x_hash l)"

datatype host_move = HostGo int | HostReplace

definition revertChange :: "history_slice option \<Rightarrow> nat \<Rightarrow> host_move" where
  "revertChange landed previousIndex =
    (case landed of
       None \<Rightarrow> HostReplace
     | Some s \<Rightarrow> if hs_index s \<noteq> previousIndex then HostGo (int previousIndex - int (hs_index s)) else HostReplace)"

lemma js_slice_prefix: "js_slice (js_length xs) (xs @ s) = s"
proof (induction xs)
  case (Cons c xs)
  have "js_length (c # xs) = (if c < 0x10000 then Suc (js_length xs) else Suc (Suc (js_length xs)))"
    by (simp add: js_length_def units_def utf16_def)
  then show ?case using Cons by (auto split: if_splits)
qed (simp add: js_length_def units_def)

text \<open>
  A location under the base is found again from the host path that was written for it, where the
  platform's parser takes the path apart as it was put together and \<open>toLowerCase\<close> works
  character by character on it.
\<close>

lemma mount_roundtrip:
  assumes "mo_parse mo (hostPath (mo_base mo) l) = l\<lparr>x_path := mo_base mo @ x_path l, x_state := Undefined\<rparr>"
    and "mo_lower mo (mo_base mo @ x_path l) = mo_lower mo (mo_base mo) @ slash # rest"
    and "mo_transformPath mo = None" and "x_path l \<noteq> []"
  shows "toMountLocation mo (hostPath (mo_base mo) l) = Some (l\<lparr>x_state := Undefined\<rparr>)"
  using assms by (simp add: toMountLocation_def isUnderBase_def Let_def js_slice_prefix)

section \<open>The window's history\<close>

text \<open>
  An entry of the session history has what \<open>location\<close> shows of its URL and its state.  Moving
  the cursor fires a \<open>popstate\<close>, as does following a link to a fragment, which makes an entry
  without state.
\<close>

record browser_window =
  bw_entries :: "(ustring \<times> js_value) list"
  bw_index :: nat

record browser_position =
  bp_index :: nat
  bp_state :: js_value
  bp_location :: external_location

record browser =
  br_window :: browser_window
  br_last :: browser_position

record browser_options =
  bo_mount :: mount_options
  bo_resolve :: "ustring \<Rightarrow> ustring" \<comment> \<open>the platform's resolving of a URL\<close>

definition window_state :: "browser_window \<Rightarrow> js_value" where
  "window_state w = snd (bw_entries w ! bw_index w)"

definition pushState :: "ustring \<Rightarrow> js_value \<Rightarrow> browser_window \<Rightarrow> browser_window" where
  "pushState url state w =
    \<lparr>bw_entries = take (bw_index w + 1) (bw_entries w) @ [(url, state)], bw_index = bw_index w + 1\<rparr>"

definition replaceState :: "ustring \<Rightarrow> js_value \<Rightarrow> browser_window \<Rightarrow> browser_window" where
  "replaceState url state w = w\<lparr>bw_entries := (bw_entries w)[bw_index w := (url, state)]\<rparr>"

text \<open>\<open>history.go\<close>: out of range it does nothing.\<close>

definition window_go :: "int \<Rightarrow> browser_window \<Rightarrow> browser_window option" where
  "window_go delta w =
    (let target = int (bw_index w) + delta
     in if 0 \<le> target \<and> target < int (length (bw_entries w)) \<and> delta \<noteq> 0 then Some (w\<lparr>bw_index := nat target\<rparr>) else None)"

text \<open>The object that \<open>readHistoryState\<close> makes of the panes it has read.\<close>

definition history_state :: "history_pane list \<Rightarrow> js_value" where
  "history_state ps = Obj [(u ''panes'', Arr (map (\<lambda>p. Obj ([(u ''pane'', Str (hp_pane p)), (u ''entry'', Str (hp_entry p))] @
     (case hp_state p of None \<Rightarrow> [] | Some v \<Rightarrow> [(u ''state'', v)]))) ps))]"

definition browser_read :: "browser_options \<Rightarrow> browser_window \<Rightarrow> external_location" where
  "browser_read bo w =
    (let location = (case toMountLocation (bo_mount bo) (fst (bw_entries w ! bw_index w)) of
           None \<Rightarrow> \<lparr>x_path = [slash], x_search = [], x_hash = [], x_state = Undefined\<rparr>
         | Some l \<Rightarrow> l)
     in case readSlice (window_state w) of
          None \<Rightarrow> location
        | Some s \<Rightarrow> (case hs_value s of None \<Rightarrow> location | Some ps \<Rightarrow> location\<lparr>x_state := history_state ps\<rparr>))"

definition browser_href :: "browser_options \<Rightarrow> external_location \<Rightarrow> ustring" where
  "browser_href bo l = hostPath (mo_base (bo_mount bo)) l"

definition browser_position_at :: "browser_options \<Rightarrow> browser_window \<Rightarrow> nat \<Rightarrow> browser_position" where
  "browser_position_at bo w i = \<lparr>bp_index = i, bp_state = window_state w, bp_location = browser_read bo w\<rparr>"

definition createBrowserHistory :: "browser_options \<Rightarrow> browser_window \<Rightarrow> browser" where
  "createBrowserHistory bo w =
    \<lparr>br_window = w,
     br_last = browser_position_at bo w (case readSlice (window_state w) of None \<Rightarrow> 0 | Some s \<Rightarrow> hs_index s)\<rparr>"

definition browser_write :: "browser_options \<Rightarrow> external_location \<Rightarrow> write_mode \<Rightarrow> browser \<Rightarrow> browser" where
  "browser_write bo location mode b =
    (let replace = (mode = ModeReplace);
         i = (if replace then bp_index (br_last b) else bp_index (br_last b) + 1);
         url = bo_resolve bo (browser_href bo location);
         state = stateForWrite i location replace (window_state (br_window b));
         w = (if replace then replaceState url state (br_window b) else pushState url state (br_window b))
     in \<lparr>br_window = w, br_last = browser_position_at bo w i\<rparr>)"

text \<open>\<open>onPopState\<close>: the new state, and what the change needs to be undone.\<close>

definition onPopState :: "browser_options \<Rightarrow> browser \<Rightarrow> browser \<times> history_slice option \<times> browser_position" where
  "onPopState bo b =
    (let landed = readSlice (window_state (br_window b));
         previous = br_last b
     in (b\<lparr>br_last := browser_position_at bo (br_window b)
             (case landed of None \<Rightarrow> bp_index previous + 1 | Some s \<Rightarrow> hs_index s)\<rparr>, landed, previous))"

definition putBackPosition :: "browser_options \<Rightarrow> browser_position \<Rightarrow> browser \<Rightarrow> browser" where
  "putBackPosition bo previous b =
    \<lparr>br_window = replaceState (bo_resolve bo (browser_href bo (bp_location previous))) (bp_state previous) (br_window b),
     br_last = previous\<rparr>"

definition browser_traverse :: "browser_options \<Rightarrow> int \<Rightarrow> browser \<Rightarrow> (browser \<times> history_slice option \<times> browser_position) option" where
  "browser_traverse bo delta b =
    (case window_go delta (br_window b) of None \<Rightarrow> None | Some w \<Rightarrow> Some (onPopState bo (b\<lparr>br_window := w\<rparr>)))"

definition browser_fragment :: "browser_options \<Rightarrow> ustring \<Rightarrow> browser \<Rightarrow> browser \<times> history_slice option \<times> browser_position" where
  "browser_fragment bo url b = onPopState bo (b\<lparr>br_window := pushState url Opaque (br_window b)\<rparr>)"

text \<open>Undoing a change; stepping back fires a \<open>popstate\<close> of its own.\<close>

definition browser_revert :: "browser_options \<Rightarrow> history_slice option \<Rightarrow> browser_position \<Rightarrow> browser \<Rightarrow> browser" where
  "browser_revert bo landed previous b =
    (case revertChange landed (bp_index previous) of
       HostReplace \<Rightarrow> putBackPosition bo previous b
     | HostGo delta \<Rightarrow> (case browser_traverse bo delta b of None \<Rightarrow> b | Some (b1, _) \<Rightarrow> b1))"















definition example_browser :: browser_options where
  "example_browser = \<lparr>bo_mount = \<lparr>mo_base = [], mo_transformPath = None,
       mo_parse = (\<lambda>s. \<lparr>x_path = s, x_search = [], x_hash = [], x_state = Undefined\<rparr>), mo_lower = (\<lambda>s. s)\<rparr>,
     bo_resolve = (\<lambda>s. s)\<rparr>"

definition at_path :: "string \<Rightarrow> external_location" where
  "at_path s = \<lparr>x_path = u s, x_search = [], x_hash = [], x_state = Undefined\<rparr>"

text \<open>A session that starts at \<open>/a\<close>, which the adapter has written over once.\<close>

definition example_session :: browser where
  "example_session = browser_write example_browser (at_path ''/a'') ModeReplace
     (createBrowserHistory example_browser \<lparr>bw_entries = [(u ''/a'', Opaque)], bw_index = 0\<rparr>)"

lemma readSlice_none [simp]: "readSlice Opaque = None"
  by (simp add: readSlice_def isStoredSlice_def)


text \<open>
  Overwriting instead of stepping back leaves a position twice: after a refused link to a fragment and
  one push, the revert of a refused move by two entries goes to the wrong one, which shows \<open>/a\<close>
  while the adapter was at \<open>/b\<close>.
\<close>

definition misled_session :: browser where
  "misled_session =
    (let (b1, landed, previous) = browser_fragment example_browser (u ''/a#x'') example_session;
         b2 = browser_revert example_browser landed previous b1
     in browser_write example_browser (at_path ''/b'') ModePush b2)"

lemma misled_revert:
  "case browser_traverse example_browser (-2) misled_session of None \<Rightarrow> False | Some (b, landed, previous) \<Rightarrow>
     x_path (bp_location (br_last misled_session)) = u ''/b'' \<and>
     x_path (browser_read example_browser (br_window (browser_revert example_browser landed previous b))) = u ''/a''"
proof -
  have safe: "isSafeInteger 0" "isSafeInteger (Suc 0)" by (simp_all add: isSafeInteger_def max_safe_integer_def)
  note defs = misled_session_def example_session_def browser_write_def createBrowserHistory_def replaceState_def pushState_def
    window_state_def browser_position_at_def Let_def browser_fragment_def onPopState_def browser_revert_def revertChange_def
    putBackPosition_def browser_traverse_def window_go_def browser_read_def
  show ?thesis
    by (simp add: defs safe slice_roundtrip at_path_def example_browser_def browser_href_def hostPath_def toMountLocation_def
        isUnderBase_def formatLocation_def ensurePrefix_def u_def js_length_def units_def numeral_eq_Suc)
qed
end
