(* ===== verification/Route_Middleware.thy ===== *)
theory Route_Middleware
  imports Router_Entries "HOL-Library.Sublist"
begin

text \<open>
  Middleware of the split router, \<open>router/middleware.ts\<close>: a proposed entry passes all handlers, each of which may let it
  go on, cancel the navigation, redirect it to another path, or fail; after a redirect the new
  entry passes all handlers again, and meeting the same path and search twice is a loop.  A handler is
  any function of what it is shown and of how many handlers were called before; the abort signal is the
  number of calls after which it fires.  Redirects to ever new places need not end, so the loop is a
  partial function.
\<close>

section \<open>Data\<close>

datatype handler_result =
    PassOn \<comment> \<open>returns nothing\<close>
  | RedirectTo ustring
  | CancelIt
  | HandlerFails \<comment> \<open>throws or rejects\<close>
  | HandlerAborts \<comment> \<open>throws an \<open>AbortError\<close>\<close>

record ('c) middleware_request =
  mq_from :: "entry option"
  mq_to :: entry
  mq_cause :: 'c
  mq_externalSearch :: "ustring option"

record 'c middleware_context =
  mx_from :: "entry option"
  mx_to :: entry
  mx_path :: ustring
  mx_cause :: 'c
  mx_externalSearch :: "ustring option"

type_synonym 'c middleware_handler = "nat \<Rightarrow> 'c middleware_context \<Rightarrow> handler_result"

record 'c middleware_run =
  mr_env :: router_env
  mr_routes :: routes_manifest
  mr_handlers :: "'c middleware_handler list"
  mr_request :: "'c middleware_request"
  mr_aborted :: "nat \<Rightarrow> bool" \<comment> \<open>whether the signal is aborted after that many handler calls\<close>

datatype middleware_error = AbortError | RedirectLoop | InvalidRedirect ustring | MiddlewareRoute route_error | HandlerError

datatype middleware_outcome =
    LetThrough entry
  | TurnedAway
  | MiddlewareError middleware_error

text \<open>The signature is the JSON text of the path and the search, which determines both.\<close>

type_synonym signature = "ustring \<times> search_state option"

section \<open>One entry\<close>

definition middlewareContext :: "'c middleware_run \<Rightarrow> entry \<Rightarrow> ustring \<Rightarrow> 'c middleware_context" where
  "middlewareContext run e path =
    \<lparr>mx_from = mq_from (mr_request run), mx_to = e, mx_path = path, mx_cause = mq_cause (mr_request run),
     mx_externalSearch = mq_externalSearch (mr_request run)\<rparr>"

definition redirectEntry :: "router_env \<Rightarrow> routes_manifest \<Rightarrow> entry \<Rightarrow> ustring \<Rightarrow> middleware_error + entry" where
  "redirectEntry env routes e to =
    (case resolveTarget (toLower env) routes (Some (e_location e)) (ToPath to) (Some 0) [] of
       Inl err \<Rightarrow> Inl (MiddlewareRoute err)
     | Inr None \<Rightarrow> Inl (InvalidRedirect to)
     | Inr (Some location) \<Rightarrow>
         (case (case l_search location of
                  Some s \<Rightarrow> Inr (Some s)
                | None \<Rightarrow> filterRouteSearch routes (l_route location) (l_search (e_location e))) of
            Inl err \<Rightarrow> Inl (MiddlewareRoute err)
          | Inr search \<Rightarrow> Inr (with_location (locationOf (l_route location) search) e)))"

text \<open>What the handlers make of one entry, and the number of calls so far.\<close>

datatype pass = Passed | PassRedirect ustring | PassCancelled | PassError middleware_error

fun runHandlers ::
  "'c middleware_run \<Rightarrow> 'c middleware_context \<Rightarrow> 'c middleware_handler list \<Rightarrow> nat \<Rightarrow> pass \<times> nat" where
  "runHandlers run context [] n = (Passed, n)"
| "runHandlers run context (h # hs) n =
     (case h n context of
        HandlerFails \<Rightarrow> (PassError HandlerError, Suc n)
      | HandlerAborts \<Rightarrow> (PassError AbortError, Suc n)
      | result \<Rightarrow>
          if mr_aborted run (Suc n) then (PassError AbortError, Suc n)
          else (case result of
                  RedirectTo to \<Rightarrow> (PassRedirect to, Suc n)
                | CancelIt \<Rightarrow> (PassCancelled, Suc n)
                | _ \<Rightarrow> runHandlers run context hs (Suc n)))"

text \<open>\<open>runEntry\<close> up to its next call of itself: a redirect gives the next entry.\<close>

datatype entry_step = Finished middleware_outcome | Again entry

definition runEntry_step ::
  "'c middleware_run \<Rightarrow> entry \<Rightarrow> signature list \<Rightarrow> nat \<Rightarrow> entry_step \<times> signature list \<times> nat" where
  "runEntry_step run e visited n =
    (if mr_aborted run n then (Finished (MiddlewareError AbortError), visited, n)
     else (case formatPanePath (mr_routes run) (l_route (e_location e)) of
       Inl err \<Rightarrow> (Finished (MiddlewareError (MiddlewareRoute err)), visited, n)
     | Inr path \<Rightarrow>
         let signature = (path, l_search (e_location e))
         in if signature \<in> set visited then (Finished (MiddlewareError RedirectLoop), visited, n)
            else
             (case runHandlers run (middlewareContext run e path) (mr_handlers run) n of
                (Passed, k) \<Rightarrow> (Finished (LetThrough e), visited @ [signature], k)
              | (PassCancelled, k) \<Rightarrow> (Finished TurnedAway, visited @ [signature], k)
              | (PassError err, k) \<Rightarrow> (Finished (MiddlewareError err), visited @ [signature], k)
              | (PassRedirect to, k) \<Rightarrow>
                  (case redirectEntry (mr_env run) (mr_routes run) e to of
                     Inl err \<Rightarrow> (Finished (MiddlewareError err), visited @ [signature], k)
                   | Inr next \<Rightarrow> (Again next, visited @ [signature], k)))))"

text \<open>The result with the signatures that were visited and the number of handler calls; \<open>None\<close> when redirecting never ends.\<close>

partial_function (option) runEntry ::
  "'c middleware_run \<Rightarrow> entry \<Rightarrow> signature list \<Rightarrow> nat \<Rightarrow> (middleware_outcome \<times> signature list \<times> nat) option" where
  "runEntry run e visited n =
    (case runEntry_step run e visited n of
       (Finished out, visited1, k) \<Rightarrow> Some (out, visited1, k)
     | (Again next, visited1, k) \<Rightarrow> runEntry run next visited1 k)"

text \<open>An error falls back to the proposed entry, unless it is an abort: \<open>isAbortError\<close> holds for any error once the signal is aborted.\<close>

definition runMiddleware :: "'c middleware_run \<Rightarrow> middleware_outcome option" where
  "runMiddleware run =
    (case runEntry run (mq_to (mr_request run)) [] 0 of
       None \<Rightarrow> None
     | Some (MiddlewareError err, visited, k) \<Rightarrow>
         Some (if err = AbortError \<or> mr_aborted run k then MiddlewareError AbortError else LetThrough (mq_to (mr_request run)))
     | Some (out, visited, k) \<Rightarrow> Some out)"

section \<open>What comes out\<close>

text \<open>A location that a redirect may lead to: a route of the table with search it owns.\<close>

definition in_table :: "(ustring \<Rightarrow> ustring) \<Rightarrow> routes_manifest \<Rightarrow> split_location \<Rightarrow> bool" where
  "in_table lc m l \<longleftrightarrow> (\<exists>segs. decodePane lc m segs = Inr (Some (l_route l))) \<and>
    (\<forall>s ns. l_search l = Some s \<longrightarrow> ns \<in> fst ` set s \<longrightarrow> ownsNamespace m (l_route l) ns = Inr True)"

lemma redirectEntry_spec:
  assumes "redirectEntry env m e t = Inr e'"
  shows "\<exists>l. e' = with_location l e \<and> in_table (toLower env) m l"
proof -
  obtain l where l: "resolveTarget (toLower env) m (Some (e_location e)) (ToPath t) (Some 0) [] = Inr (Some l)"
    using assms by (auto simp: redirectEntry_def split: sum.splits option.splits)
  obtain search where s: "e' = with_location (locationOf (l_route l) search) e"
      "(case l_search l of Some s \<Rightarrow> Inr (Some s) | None \<Rightarrow> filterRouteSearch m (l_route l) (l_search (e_location e))) = Inr search"
    using assms l by (auto simp: redirectEntry_def split: sum.splits)
  obtain r and upd :: split_location where r: "resolveDestination (toLower env) m (Some (e_location e)) (ToPath t) (Some 0) = Inr (Some r)"
      "l_route l = rr_route r" "filterRouteSearch m (l_route l) (l_search upd) = Inr (l_search l)"
    using resolveTarget_Some[OF l] by blast
  have "\<exists>segs. decodePane (toLower env) m segs = Inr (Some (l_route l))"
    using resolveDestination_decoded[OF r(1)] r(2) by simp
  moreover have "ownsNamespace m (l_route l) ns = Inr True" if "search = Some x" "ns \<in> fst ` set x" for x ns
    using that s(2) r(3) filterRouteSearch_owned[of m "l_route l" "l_search upd" x]
      filterRouteSearch_owned[of m "l_route l" "l_search (e_location e)" x]
    by (cases "l_search l") auto
  ultimately show ?thesis using s(1)
    by (intro exI[of _ "locationOf (l_route l) search"]) (auto simp: in_table_def locationOf_def)
qed

text \<open>The entry was shown to every handler, one after another, and each let it pass.\<close>

definition passed_all :: "'c middleware_run \<Rightarrow> entry \<Rightarrow> bool" where
  "passed_all run e \<longleftrightarrow> (\<exists>path n. formatPanePath (mr_routes run) (l_route (e_location e)) = Inr path \<and>
    (\<forall>i < length (mr_handlers run). (mr_handlers run ! i) (n + i) (middlewareContext run e path) = PassOn \<and>
       \<not> mr_aborted run (n + i + 1)))"

lemma runHandlers_Passed:
  "runHandlers run c hs n = (Passed, k) \<Longrightarrow> \<forall>i < length hs. (hs ! i) (n + i) c = PassOn \<and> \<not> mr_aborted run (n + i + 1)"
proof (induction hs arbitrary: n)
  case (Cons h hs)
  have h: "h n c = PassOn" "\<not> mr_aborted run (Suc n)" "runHandlers run c hs (Suc n) = (Passed, k)"
    using Cons.prems by (cases "h n c"; simp split: if_splits)+
  then have "\<forall>i < length hs. (hs ! i) (Suc n + i) c = PassOn \<and> \<not> mr_aborted run (Suc n + i + 1)"
    using Cons.IH by blast
  then show ?case using h by (auto simp: nth_Cons split: nat.splits)
qed simp

lemma runEntry_step_finished:
  "runEntry_step run e visited n = (Finished (LetThrough e'), v, k) \<Longrightarrow> e' = e \<and> passed_all run e"
  by (auto simp: runEntry_step_def Let_def passed_all_def split: if_splits sum.splits prod.splits pass.splits
      dest!: runHandlers_Passed)

lemma runEntry_step_again:
  assumes "runEntry_step run e visited n = (Again e', v, k)"
  shows "\<exists>path t. formatPanePath (mr_routes run) (l_route (e_location e)) = Inr path \<and>
    (path, l_search (e_location e)) \<notin> set visited \<and> v = visited @ [(path, l_search (e_location e))] \<and>
    redirectEntry (mr_env run) (mr_routes run) e t = Inr e' \<and> (\<exists>h \<in> set (mr_handlers run). \<exists>n c. h n c = RedirectTo t)"
proof -
  have target: "\<exists>h \<in> set hs. \<exists>n c. h n c = RedirectTo t" if "runHandlers run c hs n = (PassRedirect t, k)" for hs n c t k
    using that by (induction hs arbitrary: n) (auto split: handler_result.splits if_splits)
  show ?thesis using assms
    by (auto simp: runEntry_step_def Let_def split: if_splits sum.splits prod.splits pass.splits dest: target)
qed

lemma with_location_twice: "with_location l (with_location l' e) = with_location l e"
  by (simp add: with_location_def)

lemma runEntry_result:
  assumes "runEntry run e visited n = Some r"
  shows "fst r = LetThrough e' \<longrightarrow> passed_all run e' \<and>
    (e' = e \<or> (\<exists>l. e' = with_location l e \<and> in_table (toLower (mr_env run)) (mr_routes run) l))"
  using assms
proof (induction rule: runEntry.raw_induct[rotated, consumes 1, case_names step])
  case (step f run e visited n r)
  show ?case
  proof (cases "runEntry_step run e visited n")
    case (fields st v1 k1)
    show ?thesis
    proof (cases st)
      case (Finished x)
      then show ?thesis using step(2) fields runEntry_step_finished[of run e visited n e' v1 k1] by auto
    next
      case (Again e1)
      then have "f run e1 v1 k1 = Some r" using step(2) fields by simp
      note ih = step(1)[OF this]
      obtain l where "e1 = with_location l e" "in_table (toLower (mr_env run)) (mr_routes run) l"
        using runEntry_step_again[of run e visited n e1 v1 k1] redirectEntry_spec fields Again by blast
      then show ?thesis using ih by (auto simp: with_location_twice)
    qed
  qed
qed

lemma middleware_passes:
  assumes "runMiddleware run = Some (LetThrough e)"
  shows "e = mq_to (mr_request run) \<or>
    passed_all run e \<and> (\<exists>l. e = with_location l (mq_to (mr_request run)) \<and> in_table (toLower (mr_env run)) (mr_routes run) l)"
proof -
  obtain out v k where r: "runEntry run (mq_to (mr_request run)) [] 0 = Some (out, v, k)"
    using assms by (cases "runEntry run (mq_to (mr_request run)) [] 0") (auto simp: runMiddleware_def)
  then have "out = LetThrough e \<or> e = mq_to (mr_request run)"
    using assms by (cases out) (auto simp: runMiddleware_def split: if_splits)
  then show ?thesis using runEntry_result[OF r, of e] by auto
qed

text \<open>
  C13.  What middleware lets through: the proposed entry itself, or the same entry, with its id, state and props, at
  a route of the table with search that this route owns.  Unless it is the proposed entry, every
  handler has been shown it and let it pass, none of them after the navigation was aborted.
\<close>

theorem middleware_lets_through:
  assumes "runMiddleware run = Some (LetThrough e)"
  shows "e = mq_to (mr_request run) \<or>
    passed_all run e \<and> (\<exists>l. e = with_location l (mq_to (mr_request run)) \<and> in_table (toLower (mr_env run)) (mr_routes run) l)"
  by (rule middleware_passes[OF assms])

section \<open>When it ends\<close>

lemma runEntry_ends:
  assumes "finite F" and "\<And>e path. E e \<Longrightarrow> formatPanePath (mr_routes run) (l_route (e_location e)) = Inr path \<Longrightarrow>
      (path, l_search (e_location e)) \<in> F"
    and "\<And>e t e'. E e \<Longrightarrow> (\<exists>h \<in> set (mr_handlers run). \<exists>n c. h n c = RedirectTo t) \<Longrightarrow>
      redirectEntry (mr_env run) (mr_routes run) e t = Inr e' \<Longrightarrow> E e'"
    and "E e"
  shows "\<exists>r. runEntry run e visited n = Some r"
  using assms(4)
proof (induction "card (F - set visited)" arbitrary: e visited n rule: less_induct)
  case less
  obtain step v k where s: "runEntry_step run e visited n = (step, v, k)" by (cases "runEntry_step run e visited n")
  show ?case
  proof (cases step)
    case (Finished out)
    then show ?thesis using s by (subst runEntry.simps) simp
  next
    case (Again e')
    obtain path t where p: "formatPanePath (mr_routes run) (l_route (e_location e)) = Inr path"
        "(path, l_search (e_location e)) \<notin> set visited" "v = visited @ [(path, l_search (e_location e))]"
        "redirectEntry (mr_env run) (mr_routes run) e t = Inr e'" "\<exists>h \<in> set (mr_handlers run). \<exists>n c. h n c = RedirectTo t"
      using runEntry_step_again[of run e visited n e' v k] s Again by blast
    have "(path, l_search (e_location e)) \<in> F" by (rule assms(2)[OF less.prems p(1)])
    then have "card (F - set v) < card (F - set visited)"
      using p(2,3) assms(1) by (intro psubset_card_mono) auto
    from less.hyps[OF this assms(3)[OF less.prems p(5,4)]] obtain r where "runEntry run e' v k = Some r" by blast
    then have "runEntry run e visited n = Some r" using s Again by (subst runEntry.simps) simp
    then show ?thesis by blast
  qed
qed

text \<open>A redirect leads to a route that its target alone decides, with part of the target's search or of the entry's.\<close>

definition route_of_target :: "(ustring \<Rightarrow> ustring) \<Rightarrow> routes_manifest \<Rightarrow> ustring \<Rightarrow> route_state option" where
  "route_of_target lc m t = (case decodePane lc m (walkPath [] (fst (splitTarget t))) of Inr r \<Rightarrow> r | Inl _ \<Rightarrow> None)"

definition search_of_target :: "ustring \<Rightarrow> search_state option" where
  "search_of_target t = map_of (parsePaneSearch (snd (splitTarget t))) 0"

definition part_of :: "search_state option \<Rightarrow> search_state option \<Rightarrow> bool" where
  "part_of s b \<longleftrightarrow> (case s of None \<Rightarrow> True | Some x \<Rightarrow> (case b of None \<Rightarrow> False | Some y \<Rightarrow> subseq x y))"

lemma part_of_trans: "part_of a b \<Longrightarrow> part_of b c \<Longrightarrow> part_of a c"
  by (auto simp: part_of_def split: option.splits)

lemma filterRouteSearch_part: "filterRouteSearch m r s = Inr t \<Longrightarrow> part_of t s"
proof (cases s)
  case (Some x)
  assume f: "filterRouteSearch m r s = Inr t"
  then obtain leaf where "leafNode m r = Inr leaf" using Some by (auto simp: filterRouteSearch_def bind_result_Inr)
  then show ?thesis using f Some
    by (cases "n_search leaf") (auto simp: filterRouteSearch_def part_of_def pickNamespaces_def Let_def split: if_splits)
qed (simp add: filterRouteSearch_def part_of_def)

lemma finite_parts: "finite {s. part_of s b}"
proof (cases b)
  case None
  then have "{s. part_of s b} \<subseteq> {None}" by (auto simp: part_of_def split: option.splits)
  then show ?thesis using finite_subset by blast
next
  case (Some y)
  have "x \<in> insert None (Some ` set (subseqs y))" if "part_of x b" for x
    using Some that by (cases x) (auto simp: part_of_def)
  then have "{s. part_of s b} \<subseteq> insert None (Some ` set (subseqs y))" by blast
  then show ?thesis using finite_subset by blast
qed

lemma redirectEntry_parts:
  assumes "redirectEntry env m e t = Inr e'"
  shows "route_of_target (toLower env) m t = Some (l_route (e_location e')) \<and>
    (part_of (l_search (e_location e')) (search_of_target t) \<or> part_of (l_search (e_location e')) (l_search (e_location e)))"
proof -
  obtain l where l: "resolveTarget (toLower env) m (Some (e_location e)) (ToPath t) (Some 0) [] = Inr (Some l)"
    using assms by (auto simp: redirectEntry_def split: sum.splits option.splits)
  obtain search where s: "e_location e' = locationOf (l_route l) search"
      "(case l_search l of Some s \<Rightarrow> Inr (Some s) | None \<Rightarrow> filterRouteSearch m (l_route l) (l_search (e_location e))) = Inr search"
    using assms l by (auto simp: redirectEntry_def split: sum.splits)
  obtain r carried upd where r: "resolveDestination (toLower env) m (Some (e_location e)) (ToPath t) (Some 0) = Inr (Some r)"
      "carriedSearch m (Some (e_location e)) r = Inr carried" "updateSearchState (locationOf (rr_route r) carried) [] = Inr upd"
      "l_route l = rr_route r" "filterRouteSearch m (l_route l) (l_search upd) = Inr (l_search l)"
    using resolveTarget_Some[OF l] by blast
  have t: "route_of_target (toLower env) m t = Some (rr_route r)" "rr_search r = search_of_target t"
    using r(1) by (auto simp: resolvePath_def baseSegments_def formatMatches_def bind_result_Inr route_of_target_def
        search_of_target_def split: prod.splits option.splits if_splits)
  have "carried = search_of_target t \<or> carried = l_search (e_location e) \<or> carried = None"
    using r(2) t(2) by (auto simp: carriedSearch_def bind_result_Inr split: option.splits if_splits)
  moreover have "part_of (l_search l) carried"
    using filterRouteSearch_part[OF r(5)] r(3) by (auto simp: locationOf_def)
  moreover have "search = l_search l \<or> part_of search (l_search (e_location e))"
    using s(2) filterRouteSearch_part by (auto split: option.splits)
  moreover have "part_of None x" for x by (simp add: part_of_def)
  ultimately show ?thesis using s(1) t(1) r(4) by (auto simp: locationOf_def part_of_def split: option.splits)
qed

lemma middleware_loop_ends:
  assumes "finite {t. \<exists>h \<in> set (mr_handlers run). \<exists>n c. h n c = RedirectTo t}"
  shows "\<exists>out visited k. runEntry run (mq_to (mr_request run)) [] 0 = Some (out, visited, k)"
proof -
  let ?T = "{t. \<exists>h \<in> set (mr_handlers run). \<exists>n c. h n c = RedirectTo t}"
  let ?to = "mq_to (mr_request run)" and ?m = "mr_routes run" and ?lc = "toLower (mr_env run)"
  define R where "R = insert (Some (l_route (e_location ?to))) (route_of_target ?lc ?m ` ?T)"
  define S where "S = {s. part_of s (l_search (e_location ?to))} \<union> (\<Union>t \<in> ?T. {s. part_of s (search_of_target t)})"
  define E where "E e \<longleftrightarrow> Some (l_route (e_location e)) \<in> R \<and> l_search (e_location e) \<in> S" for e :: entry
  define F where "F = (\<lambda>(r, s). ((case formatPanePath ?m (the r) of Inr p \<Rightarrow> p | Inl _ \<Rightarrow> []), s)) ` (R \<times> S)"
  have fin: "finite F" using assms finite_parts by (auto simp: F_def R_def S_def)
  have "part_of x x" for x by (simp add: part_of_def split: option.splits)
  then have start: "E ?to" by (simp add: E_def R_def S_def)
  have inF: "(path, l_search (e_location e)) \<in> F"
    if "E e" "formatPanePath ?m (l_route (e_location e)) = Inr path" for e path
    using that unfolding F_def E_def
    by (intro image_eqI[of _ _ "(Some (l_route (e_location e)), l_search (e_location e))"]) auto
  have S_down: "s' \<in> S" if down: "part_of s' s" and inS: "s \<in> S" for s s'
  proof -
    obtain b where b: "part_of s b" "b = l_search (e_location ?to) \<or> b \<in> search_of_target ` ?T"
      using inS unfolding S_def by blast
    have "part_of s' b" by (rule part_of_trans[OF down b(1)])
    then show ?thesis using b(2) unfolding S_def by blast
  qed
  have closed: "E e'" if "E e" "\<exists>h \<in> set (mr_handlers run). \<exists>n c. h n c = RedirectTo t"
      "redirectEntry (mr_env run) ?m e t = Inr e'" for e t e'
  proof -
    have t: "t \<in> ?T" using that(2) by blast
    note p = redirectEntry_parts[OF that(3)]
    have "route_of_target ?lc ?m t \<in> R" unfolding R_def using t by (intro insertI2 imageI)
    then have "Some (l_route (e_location e')) \<in> R" using p by simp
    moreover have "l_search (e_location e') \<in> S"
    proof (cases "part_of (l_search (e_location e')) (search_of_target t)")
      case True
      then show ?thesis using t by (auto simp: S_def)
    next
      case False
      then have "part_of (l_search (e_location e')) (l_search (e_location e))" using p by blast
      moreover have "l_search (e_location e) \<in> S" using that(1) by (simp add: E_def)
      ultimately show ?thesis by (rule S_down)
    qed
    ultimately show ?thesis by (simp add: E_def)
  qed
  have "\<exists>r. runEntry run ?to [] 0 = Some r"
  proof (rule runEntry_ends[of F E run])
    show "E e'" if "E e" "\<exists>h \<in> set (mr_handlers run). \<exists>n c. h n c = RedirectTo t"
        "redirectEntry (mr_env run) ?m e t = Inr e'" for e t e'
      by (rule closed[OF that])
  qed (use fin inF start in simp_all)
  then show ?thesis by (metis prod_cases3)
qed

text \<open>No path and search is shown to the handlers twice, and an abort has a cause.\<close>

lemma runEntry_step_visited:
  "runEntry_step run e visited n = (step, v, k) \<Longrightarrow> v = visited \<or> (\<exists>s. s \<notin> set visited \<and> v = visited @ [s])"
  by (auto simp: runEntry_step_def Let_def split: if_splits sum.splits prod.splits pass.splits)

definition may_abort :: "'c middleware_run \<Rightarrow> bool" where
  "may_abort run \<longleftrightarrow> (\<exists>n. mr_aborted run n) \<or> (\<exists>h \<in> set (mr_handlers run). \<exists>n c. h n c = HandlerAborts)"

lemma runHandlers_abort:
  "runHandlers run c hs n = (PassError AbortError, k) \<Longrightarrow> set hs \<subseteq> set (mr_handlers run) \<Longrightarrow> may_abort run"
proof (induction hs arbitrary: n)
  case (Cons h hs)
  then show ?case by (cases "h n c") (auto simp: may_abort_def split: if_splits)
qed simp

lemma redirectEntry_no_abort: "redirectEntry env m e t \<noteq> Inl AbortError"
  by (auto simp: redirectEntry_def split: sum.splits option.splits)

lemma runEntry_step_abort:
  "runEntry_step run e visited n = (Finished (MiddlewareError AbortError), v, k) \<Longrightarrow> may_abort run"
  using redirectEntry_no_abort[of "mr_env run" "mr_routes run" e] runHandlers_abort[of run _ "mr_handlers run" n k]
  by (auto simp: runEntry_step_def Let_def may_abort_def split: if_splits sum.splits prod.splits pass.splits)

lemma runEntry_visits:
  assumes "runEntry run e visited n = Some r" and "distinct visited"
  shows "distinct (fst (snd r)) \<and> (fst r = MiddlewareError AbortError \<longrightarrow> may_abort run)"
  using assms
proof (induction rule: runEntry.raw_induct[rotated, consumes 1, case_names step])
  case (step f run e visited n r)
  show ?case
  proof (cases "runEntry_step run e visited n")
    case (fields st v1 k1)
    have v: "distinct v1" using runEntry_step_visited[OF fields] step(3) by auto
    show ?thesis
    proof (cases st)
      case (Finished x)
      then show ?thesis using step(2) fields v runEntry_step_abort[of run e visited n v1 k1] by auto
    next
      case (Again e1)
      then have "f run e1 v1 k1 = Some r" using step(2) fields by simp
      then show ?thesis using step(1) v by blast
    qed
  qed
qed

text \<open>
  C14.  Middleware ends: provided that the handlers redirect to finitely many targets, following redirects
  comes to an end, whatever else the handlers answer, and no path and search has been shown to the handlers twice
  by then.  The navigation then goes on with an entry, is cancelled, or was aborted, and that only when its signal can
  fire or a handler can throw an \<open>AbortError\<close>: any other error, a loop of redirects among them, falls back to the proposed
  entry.
\<close>

theorem middleware_ends:
  assumes "finite {t. \<exists>h \<in> set (mr_handlers run). \<exists>n c. h n c = RedirectTo t}"
  shows "\<exists>last visited k out. runEntry run (mq_to (mr_request run)) [] 0 = Some (last, visited, k) \<and> distinct visited \<and>
    runMiddleware run = Some out \<and>
    (\<forall>err. out = MiddlewareError err \<longrightarrow> err = AbortError \<and> may_abort run) \<and>
    (last = MiddlewareError RedirectLoop \<longrightarrow> mr_aborted run k \<or> out = LetThrough (mq_to (mr_request run)))"
proof -
  from middleware_loop_ends[OF assms] obtain last visited k where
    r: "runEntry run (mq_to (mr_request run)) [] 0 = Some (last, visited, k)" by blast
  have v: "distinct visited" "last = MiddlewareError AbortError \<longrightarrow> may_abort run" using runEntry_visits[OF r] by simp_all
  obtain out where out: "runMiddleware run = Some out" using r by (cases last) (simp_all add: runMiddleware_def)
  have "\<forall>err. out = MiddlewareError err \<longrightarrow> err = AbortError \<and> may_abort run"
    using out r v(2) by (cases last) (auto simp: runMiddleware_def may_abort_def split: if_splits)
  moreover have "last = MiddlewareError RedirectLoop \<longrightarrow> mr_aborted run k \<or> out = LetThrough (mq_to (mr_request run))"
    using out r by (auto simp: runMiddleware_def split: if_splits)
  ultimately show ?thesis using r v(1) out by blast
qed

end
