(* ===== verification/Leave_Guards.thy ===== *)
theory Leave_Guards
  imports Router_Entries
begin

text \<open>
  Leave guards, \<open>router/leave-guards.ts\<close>, and the helpers for values that may come later,
  \<open>utils.ts\<close>: views register guards for the pane and outlet depth they sit at, a navigation asks
  those it concerns in order until one refuses, and a guard that fails is taken to allow.  A promise is given by
  what it settles to.
\<close>

section \<open>Values now or later\<close>

datatype 'a maybe_promise = Now 'a | Later 'a

text \<open>What a call does: return, return a promise that resolves or rejects, or throw.\<close>

datatype 'a attempt = Returns 'a | Promises 'a | Rejects | Raises

fun maybe_value :: "'a maybe_promise \<Rightarrow> 'a" where
  "maybe_value (Now v) = v"
| "maybe_value (Later v) = v"

fun isPromise :: "'a maybe_promise \<Rightarrow> bool" where
  "isPromise (Now _) = False"
| "isPromise (Later _) = True"

fun mapMaybe :: "'a maybe_promise \<Rightarrow> ('a \<Rightarrow> 'b maybe_promise) \<Rightarrow> 'b maybe_promise" where
  "mapMaybe (Now v) f = f v"
| "mapMaybe (Later v) f = Later (maybe_value (f v))"

fun settleMaybe :: "'a attempt \<Rightarrow> 'a \<Rightarrow> 'a maybe_promise" where
  "settleMaybe (Returns v) onError = Now v"
| "settleMaybe (Promises v) onError = Later v"
| "settleMaybe Rejects onError = Later onError"
| "settleMaybe Raises onError = Now onError"

section \<open>The registry\<close>

record 'g registered_guard =
  rg_pane :: pane_id
  rg_depth :: int
  rg_guard :: 'g
  rg_search :: "ustring list"

text \<open>A registration is told apart by a token, as the object that the code keeps is.\<close>

record 'g guard_registry =
  gr_items :: "(nat \<times> 'g registered_guard) list"
  gr_next :: nat

definition createLeaveGuards :: "'g guard_registry" where
  "createLeaveGuards = \<lparr>gr_items = [], gr_next = 0\<rparr>"

definition register_guard ::
  "pane_id \<Rightarrow> int \<Rightarrow> 'g \<Rightarrow> ustring list \<Rightarrow> 'g guard_registry \<Rightarrow> nat \<times> 'g guard_registry" where
  "register_guard pane depth guard search r =
    (gr_next r, r\<lparr>gr_items := gr_items r @
       [(gr_next r, \<lparr>rg_pane = pane, rg_depth = depth, rg_guard = guard, rg_search = search\<rparr>)], gr_next := gr_next r + 1\<rparr>)"

definition unregister_guard :: "nat \<Rightarrow> 'g guard_registry \<Rightarrow> 'g guard_registry" where
  "unregister_guard token r =
    (case find_index (\<lambda>i. fst i = token) (gr_items r) of
       None \<Rightarrow> r
     | Some k \<Rightarrow> r\<lparr>gr_items := take k (gr_items r) @ drop (Suc k) (gr_items r)\<rparr>)"

definition forget_guards :: "pane_id \<Rightarrow> 'g guard_registry \<Rightarrow> 'g guard_registry" where
  "forget_guards pane r = r\<lparr>gr_items := filter (\<lambda>i. rg_pane (snd i) \<noteq> pane) (gr_items r)\<rparr>"

text \<open>The entries of the context that \<open>select\<close> looks at: the one left and the one entered, if any.\<close>

definition watched_change :: "router_env \<Rightarrow> entry \<times> entry option \<Rightarrow> ustring list \<Rightarrow> bool" where
  "watched_change env context search \<longleftrightarrow>
    (case snd context of
       None \<Rightarrow> False
     | Some to \<Rightarrow> list_ex (\<lambda>ns. \<not> deq_params env
           (case l_search (e_location (fst context)) of None \<Rightarrow> None | Some s \<Rightarrow> map_of s ns)
           (case l_search (e_location to) of None \<Rightarrow> None | Some s \<Rightarrow> map_of s ns)) search)"

definition relevant ::
  "router_env \<Rightarrow> pane_id \<Rightarrow> int option \<Rightarrow> (entry \<times> entry option) option \<Rightarrow> 'g registered_guard \<Rightarrow> bool" where
  "relevant env pane fromDepth context g \<longleftrightarrow>
    rg_pane g = pane \<and>
    ((case fromDepth of None \<Rightarrow> False | Some d \<Rightarrow> d \<le> rg_depth g) \<or>
     (case context of None \<Rightarrow> False | Some c \<Rightarrow> watched_change env c (rg_search g)))"

definition select_guards ::
  "router_env \<Rightarrow> pane_id \<Rightarrow> int option \<Rightarrow> (entry \<times> entry option) option \<Rightarrow> 'g guard_registry \<Rightarrow> 'g list" where
  "select_guards env pane fromDepth context r =
    map rg_guard (filter (relevant env pane fromDepth context) (map snd (gr_items r)))"

definition PANE_LEVEL :: int where
  "PANE_LEVEL = -1"

section \<open>Asking\<close>

text \<open>
  The result, and how many of the checks were asked.  Checks that are never asked
  are never called.
\<close>

fun runChecks :: "bool attempt list \<Rightarrow> bool maybe_promise \<times> nat" where
  "runChecks [] = (Now True, 0)"
| "runChecks (c # cs) =
     (case settleMaybe c True of
        Later allowed \<Rightarrow>
          (if allowed then (Later (maybe_value (fst (runChecks cs))), Suc (snd (runChecks cs)))
           else (Later False, 1))
      | Now allowed \<Rightarrow>
          (if allowed then (fst (runChecks cs), Suc (snd (runChecks cs))) else (Now False, 1)))"

definition lets_through :: "bool attempt \<Rightarrow> bool" where
  "lets_through c \<longleftrightarrow> c \<noteq> Returns False \<and> c \<noteq> Promises False"

lemma runChecks_value: "maybe_value (fst (runChecks cs)) \<longleftrightarrow> list_all lets_through cs"
proof (induction cs)
  case (Cons c cs)
  show ?case by (cases c) (use Cons in \<open>auto simp: lets_through_def\<close>)
qed simp

lemma runChecks_asked:
  "snd (runChecks cs) = (case find_index (\<lambda>c. \<not> lets_through c) cs of None \<Rightarrow> length cs | Some i \<Rightarrow> Suc i)"
proof (induction cs)
  case (Cons c cs)
  show ?case by (cases c) (use Cons in \<open>auto simp: lets_through_def split: option.splits\<close>)
qed simp

lemma unregister_guard_items:
  assumes "distinct (map fst (gr_items r))"
  shows "gr_items (unregister_guard token r) = filter (\<lambda>i. fst i \<noteq> token) (gr_items r)"
  using remove_found[OF assms, of token] by (simp add: unregister_guard_def split: option.splits)

definition registry_ok :: "'g guard_registry \<Rightarrow> bool" where
  "registry_ok r \<longleftrightarrow> distinct (map fst (gr_items r)) \<and> (\<forall>t \<in> fst ` set (gr_items r). t < gr_next r)"

lemma registry_ok_steps:
  "registry_ok createLeaveGuards"
  "registry_ok r \<Longrightarrow> registry_ok (snd (register_guard p d g s r))"
  "registry_ok r \<Longrightarrow> registry_ok (unregister_guard t r)"
  "registry_ok r \<Longrightarrow> registry_ok (forget_guards p r)"
proof -
  show "registry_ok createLeaveGuards" by (simp add: registry_ok_def createLeaveGuards_def)
  show "registry_ok (snd (register_guard p d g s r))" if "registry_ok r"
    using that by (auto simp: registry_ok_def register_guard_def)
  have next_same: "gr_next (unregister_guard t r) = gr_next r"
    by (simp add: unregister_guard_def split: option.splits)
  show "registry_ok (unregister_guard t r)" if "registry_ok r"
  proof -
    have "distinct (map fst (gr_items r))" using that by (simp add: registry_ok_def)
    then show ?thesis using that next_same unregister_guard_items[of r t]
      by (auto simp: registry_ok_def distinct_fst_filter)
  qed
  show "registry_ok (forget_guards p r)" if "registry_ok r"
    using that by (auto simp: registry_ok_def forget_guards_def distinct_fst_filter)
qed

end
