(* ===== verification/Phases.thy ===== *)
theory Phases
  imports Route_Middleware Leave_Guards Router_Run
begin

text \<open>
  The work of a navigation's phases, \<open>router/phases.ts\<close> and \<open>router/preload.ts\<close>: which guards are asked, what middleware
  makes of every target, what is preloaded, and what is reported to the run machine of \<open>run.ts\<close>.
  What a guard or a handler answers is a parameter.
\<close>

section \<open>Navigations\<close>

datatype nav_cause = CauseInitial | CauseExternal | CauseNavigate | CauseHistory | CauseSearch

record pane_target =
  pt_pane :: pane_id
  pt_from :: "entry option"
  pt_to :: entry

record navigation =
  nv_cause :: nav_cause
  nv_targets :: "pane_target list"
  nv_removed :: "pane_id list"
  nv_externalSearch :: "ustring option"

record guard_question =
  gq_pane :: pane_id
  gq_from :: entry
  gq_to :: "entry option"
  gq_cause :: nav_cause

record 'g phase_options =
  po_env :: router_env
  po_routes :: routes_manifest
  po_middleware :: "nav_cause middleware_handler list"
  po_guards :: "'g guard_registry"
  po_ask :: "'g \<Rightarrow> guard_question \<Rightarrow> bool attempt"
  po_current :: "pane_id \<Rightarrow> entry option"

section \<open>Guards\<close>

definition checksFor :: "'g phase_options \<Rightarrow> 'g list \<Rightarrow> guard_question \<Rightarrow> bool attempt list" where
  "checksFor po gs question = map (\<lambda>g. po_ask po g question) gs"

definition target_question :: "navigation \<Rightarrow> pane_target \<Rightarrow> entry \<Rightarrow> guard_question" where
  "target_question nav target from =
    \<lparr>gq_pane = pt_pane target, gq_from = from, gq_to = Some (pt_to target), gq_cause = nv_cause nav\<rparr>"

definition removal_question :: "navigation \<Rightarrow> pane_id \<Rightarrow> entry \<Rightarrow> guard_question" where
  "removal_question nav pane from = \<lparr>gq_pane = pane, gq_from = from, gq_to = None, gq_cause = nv_cause nav\<rparr>"

definition targetCheck :: "'g phase_options \<Rightarrow> navigation \<Rightarrow> pane_target \<Rightarrow> route_error + bool attempt list" where
  "targetCheck po nav target =
    (case pt_from target of
       None \<Rightarrow> Inr []
     | Some from \<Rightarrow>
         bind_result (firstChangedDepth (po_routes po) (as_route_entry from) (Some (as_route_entry (pt_to target)))) (\<lambda>depth.
           Inr (checksFor po
             (select_guards (po_env po) (pt_pane target) (map_option int depth) (Some (from, Some (pt_to target))) (po_guards po))
             (target_question nav target from))))"

definition targetChecks :: "'g phase_options \<Rightarrow> navigation \<Rightarrow> route_error + bool attempt list" where
  "targetChecks po nav = bind_result (map_results (targetCheck po nav) (nv_targets nav)) (\<lambda>cs. Inr (concat cs))"

definition removalCheck :: "'g phase_options \<Rightarrow> navigation \<Rightarrow> pane_id \<Rightarrow> bool attempt list" where
  "removalCheck po nav pane =
    (case po_current po pane of
       None \<Rightarrow> []
     | Some from \<Rightarrow>
         checksFor po (select_guards (po_env po) pane (Some PANE_LEVEL) None (po_guards po)) (removal_question nav pane from))"

definition removalChecks :: "'g phase_options \<Rightarrow> navigation \<Rightarrow> bool attempt list" where
  "removalChecks po nav = concat (map (removalCheck po nav) (nv_removed nav))"

definition checkGuards :: "'g phase_options \<Rightarrow> navigation \<Rightarrow> route_error + bool maybe_promise" where
  "checkGuards po nav = bind_result (targetChecks po nav) (\<lambda>cs. Inr (fst (runChecks (cs @ removalChecks po nav))))"

section \<open>Destinations\<close>

datatype 'a phase_outcome =
    PhaseValue 'a
  | PhaseCancelled
  | PhaseAborted
  | PhaseThrows

text \<open>\<open>None\<close> when middleware never ends; \<open>aborted\<close> says when the signal fires during it.\<close>

definition destination ::
  "'g phase_options \<Rightarrow> (nat \<Rightarrow> bool) \<Rightarrow> navigation \<Rightarrow> pane_target \<Rightarrow> entry phase_outcome option" where
  "destination po aborted nav target =
    (if po_middleware po = [] then Some (PhaseValue (pt_to target))
     else map_option (\<lambda>out. case out of
         LetThrough e \<Rightarrow>
           (case withValidState (po_env po) (po_routes po) e (pt_to target) of
              Inl err \<Rightarrow> PhaseThrows
            | Inr valid \<Rightarrow> PhaseValue valid)
       | TurnedAway \<Rightarrow> if nv_cause nav = CauseInitial then PhaseValue (pt_to target) else PhaseCancelled
       | MiddlewareError err \<Rightarrow> if err = AbortError then PhaseAborted else PhaseThrows)
      (runMiddleware \<lparr>mr_env = po_env po, mr_routes = po_routes po, mr_handlers = po_middleware po,
         mr_request = \<lparr>mq_from = pt_from target, mq_to = pt_to target, mq_cause = nv_cause nav,
                       mq_externalSearch = nv_externalSearch nav\<rparr>,
         mr_aborted = aborted\<rparr>))"

text \<open>
  \<open>all\<close>: an error wins over a cancellation; once a target was aborted nothing is reported, so an
  abort wins over everything.
\<close>

definition all_outcomes :: "'a phase_outcome list \<Rightarrow> 'a list phase_outcome" where
  "all_outcomes outs =
    (if PhaseAborted \<in> set outs then PhaseAborted
     else if PhaseThrows \<in> set outs then PhaseThrows
     else if PhaseCancelled \<in> set outs then PhaseCancelled
     else PhaseValue (concat (map (\<lambda>x. case x of PhaseValue v \<Rightarrow> [v] | _ \<Rightarrow> []) outs)))"

definition resolveDestinations ::
  "'g phase_options \<Rightarrow> (nat \<Rightarrow> bool) \<Rightarrow> navigation \<Rightarrow> entry list phase_outcome option" where
  "resolveDestinations po aborted nav =
    (let outs = map (destination po aborted nav) (nv_targets nav)
     in if None \<in> set outs then None else Some (all_outcomes (map the outs)))"

section \<open>Preloading\<close>

datatype preload_intent = IntentInitial | IntentExternal | IntentNavigate

definition intentOf :: "nav_cause \<Rightarrow> preload_intent" where
  "intentOf cause =
    (case cause of CauseInitial \<Rightarrow> IntentInitial | CauseExternal \<Rightarrow> IntentExternal | _ \<Rightarrow> IntentNavigate)"

record preload_call =
  pl_route :: ustring
  pl_params :: route_params
  pl_search :: "search_state option"
  pl_intent :: preload_intent

text \<open>
  The calls made along the branch; their failures are caught, and waiting for them is bounded by the
  budget, so they never decide what is reported.
\<close>

definition preloadLocation ::
  "routes_manifest \<Rightarrow> preload_intent \<Rightarrow> split_location \<Rightarrow> route_error + preload_call list" where
  "preloadLocation routes intent location =
    bind_result (resolveBranch routes (l_route location)) (\<lambda>branch.
      Inr (map (\<lambda>(depth, node). \<lparr>pl_route = n_id node, pl_params = routeParams (l_route location) (depth + 1),
                 pl_search = l_search location, pl_intent = intent\<rparr>) (List.enumerate 0 branch)))"

definition preloadEntries ::
  "'g phase_options \<Rightarrow> navigation \<Rightarrow> entry list \<Rightarrow> route_error + preload_call list" where
  "preloadEntries po nav es =
    bind_result (map_results (\<lambda>e. preloadLocation (po_routes po) (intentOf (nv_cause nav)) (e_location e)) es)
      (\<lambda>calls. Inr (concat calls))"

section \<open>Reports\<close>

type_synonym report = "(navigation, entry) run_event"

text \<open>What each phase reports when it is not left before: \<open>None\<close> when it never ends or was aborted.\<close>

definition guards_report :: "'g phase_options \<Rightarrow> navigation \<Rightarrow> report" where
  "guards_report po nav =
    (case checkGuards po nav of
       Inl err \<Rightarrow> PhaseFailed
     | Inr verdict \<Rightarrow> if maybe_value verdict then Allowed else RefusedByGuard)"

definition middleware_report :: "'g phase_options \<Rightarrow> (nat \<Rightarrow> bool) \<Rightarrow> navigation \<Rightarrow> report option" where
  "middleware_report po aborted nav =
    (case resolveDestinations po aborted nav of
       Some (PhaseValue es) \<Rightarrow> Some (Resolved es)
     | Some PhaseCancelled \<Rightarrow> Some MiddlewareCancelled
     | Some PhaseThrows \<Rightarrow> Some PhaseFailed
     | _ \<Rightarrow> None)"

definition preload_report :: "'g phase_options \<Rightarrow> navigation \<Rightarrow> entry list \<Rightarrow> report" where
  "preload_report po nav es = (case preloadEntries po nav es of Inl err \<Rightarrow> PhaseFailed | Inr calls \<Rightarrow> Preloaded)"

section \<open>Which guards decide\<close>

text \<open>A registered guard that a navigation must ask, and what it is asked.\<close>

definition concerned :: "'g phase_options \<Rightarrow> navigation \<Rightarrow> 'g registered_guard \<Rightarrow> guard_question \<Rightarrow> bool" where
  "concerned po nav g q \<longleftrightarrow>
    (\<exists>t \<in> set (nv_targets nav). \<exists>from depth. pt_from t = Some from \<and> q = target_question nav t from \<and>
       firstChangedDepth (po_routes po) (as_route_entry from) (Some (as_route_entry (pt_to t))) = Inr depth \<and>
       rg_pane g = pt_pane t \<and>
       ((\<exists>d. depth = Some d \<and> int d \<le> rg_depth g) \<or> watched_change (po_env po) (from, Some (pt_to t)) (rg_search g))) \<or>
    (\<exists>pane \<in> set (nv_removed nav). \<exists>from. po_current po pane = Some from \<and> q = removal_question nav pane from \<and>
       rg_pane g = pane \<and> PANE_LEVEL \<le> rg_depth g)"

lemma all_checksFor:
  "list_all P (checksFor po (select_guards env pane d c r) q) \<longleftrightarrow>
    (\<forall>g \<in> snd ` set (gr_items r). relevant env pane d c g \<longrightarrow> P (po_ask po (rg_guard g) q))"
  by (auto simp: checksFor_def select_guards_def list_all_iff)

lemma guards_verdict:
  assumes "checkGuards po nav = Inr verdict"
  shows "maybe_value verdict \<longleftrightarrow>
    (\<forall>g \<in> snd ` set (gr_items (po_guards po)). \<forall>q. concerned po nav g q \<longrightarrow> lets_through (po_ask po (rg_guard g) q))"
proof -
  obtain cs where cs: "map_results (targetCheck po nav) (nv_targets nav) = Inr cs"
      "verdict = fst (runChecks (concat cs @ removalChecks po nav))"
    using assms by (auto simp: checkGuards_def targetChecks_def bind_result_Inr)
  let ?G = "snd ` set (gr_items (po_guards po))"
  have all2: "list_all2 (\<lambda>t c. targetCheck po nav t = Inr c) (nv_targets nav) cs"
    using cs(1) by (simp add: map_results_Inr)
  define T where "T t \<longleftrightarrow> (\<forall>g \<in> ?G. \<forall>from depth. pt_from t = Some from \<longrightarrow>
      firstChangedDepth (po_routes po) (as_route_entry from) (Some (as_route_entry (pt_to t))) = Inr depth \<longrightarrow>
      relevant (po_env po) (pt_pane t) (map_option int depth) (Some (from, Some (pt_to t))) g \<longrightarrow>
      lets_through (po_ask po (rg_guard g) (target_question nav t from)))" for t
  have one: "list_all lets_through c \<longleftrightarrow> T t" if check: "targetCheck po nav t = Inr c" for t c
  proof (cases "pt_from t")
    case None
    then show ?thesis using check by (simp add: targetCheck_def T_def)
  next
    case (Some f)
    obtain depth where d: "firstChangedDepth (po_routes po) (as_route_entry f) (Some (as_route_entry (pt_to t))) = Inr depth"
        "c = checksFor po (select_guards (po_env po) (pt_pane t) (map_option int depth) (Some (f, Some (pt_to t))) (po_guards po))
           (target_question nav t f)"
      using check Some by (auto simp: targetCheck_def bind_result_Inr)
    show ?thesis using Some d by (simp add: T_def all_checksFor)
  qed
  have targets: "list_all lets_through (concat cs) \<longleftrightarrow> (\<forall>t \<in> set (nv_targets nav). T t)"
    using all2 by (induction rule: list_all2_induct) (auto simp: one)
  have removals: "list_all lets_through (removalChecks po nav) \<longleftrightarrow>
      (\<forall>pane \<in> set (nv_removed nav). \<forall>from. po_current po pane = Some from \<longrightarrow>
        (\<forall>g \<in> ?G. relevant (po_env po) pane (Some PANE_LEVEL) None g \<longrightarrow>
          lets_through (po_ask po (rg_guard g) (removal_question nav pane from))))"
  proof -
    have "list_all lets_through (removalCheck po nav pane) \<longleftrightarrow> (\<forall>x. po_current po pane = Some x \<longrightarrow>
        (\<forall>g \<in> ?G. relevant (po_env po) pane (Some PANE_LEVEL) None g \<longrightarrow>
          lets_through (po_ask po (rg_guard g) (removal_question nav pane x))))" for pane
      by (cases "po_current po pane") (simp_all add: removalCheck_def all_checksFor)
    then show ?thesis by (simp add: removalChecks_def list_all_iff)
  qed
  have "maybe_value verdict \<longleftrightarrow> list_all lets_through (concat cs) \<and> list_all lets_through (removalChecks po nav)"
    using cs(2) by (simp add: runChecks_value)
  then show ?thesis unfolding targets removals T_def concerned_def relevant_def
    by (fastforce split: option.splits)
qed

text \<open>
  C12.  A navigation is allowed exactly when every guard it concerns lets it pass, where a guard that
  throws or rejects lets it pass: guards of a target's pane at or below the first depth whose view
  changes, guards that watch a search namespace that changes there, and all guards of the panes it removes.
  No other guard has a say.
\<close>

theorem guards_decide:
  assumes "checkGuards po nav = Inr verdict"
  shows "maybe_value verdict \<longleftrightarrow>
    (\<forall>g \<in> snd ` set (gr_items (po_guards po)). \<forall>q. concerned po nav g q \<longrightarrow> lets_through (po_ask po (rg_guard g) q))"
  by (rule guards_verdict[OF assms])

section \<open>Where navigations end up\<close>

text \<open>What a target may show: its own entry under another route of the table at most, with a state of that route.\<close>

definition valid_destination :: "'g phase_options \<Rightarrow> pane_target \<Rightarrow> entry \<Rightarrow> bool" where
  "valid_destination po target e \<longleftrightarrow>
    e_id e = e_id (pt_to target) \<and> e_props e = e_props (pt_to target) \<and>
    (e_location e = e_location (pt_to target) \<or> in_table (toLower (po_env po)) (po_routes po) (e_location e)) \<and>
    state_from (po_routes po) (l_route (e_location e)) (e_state e)"

definition states_ok :: "'g phase_options \<Rightarrow> navigation \<Rightarrow> bool" where
  "states_ok po nav \<longleftrightarrow> identity_of_schemas (po_env po) \<and>
    (\<forall>t \<in> set (nv_targets nav). state_from (po_routes po) (l_route (e_location (pt_to t))) (e_state (pt_to t)))"

lemma withValidState_props: "withValidState env m e original = Inr e' \<Longrightarrow> e_props e' = e_props e"
  by (auto simp: withValidState_def with_state_def bind_result_Inr split: if_splits)

lemma destination_valid:
  assumes "destination po aborted nav t = Some (PhaseValue e)" and "identity_of_schemas (po_env po)"
    and "state_from (po_routes po) (l_route (e_location (pt_to t))) (e_state (pt_to t))"
  shows "valid_destination po t e"
proof -
  let ?run = "\<lparr>mr_env = po_env po, mr_routes = po_routes po, mr_handlers = po_middleware po,
         mr_request = \<lparr>mq_from = pt_from t, mq_to = pt_to t, mq_cause = nv_cause nav,
                       mq_externalSearch = nv_externalSearch nav\<rparr>, mr_aborted = aborted\<rparr>"
  consider (proposed) "e = pt_to t"
    | (through) e1 where "runMiddleware ?run = Some (LetThrough e1)" "withValidState (po_env po) (po_routes po) e1 (pt_to t) = Inr e"
  proof (cases "po_middleware po = []")
    case True
    then show thesis using assms(1) proposed by (simp add: destination_def)
  next
    case False
    then obtain out where out: "runMiddleware ?run = Some out" using assms(1) by (auto simp: destination_def)
    show thesis
    proof (cases out)
      case (LetThrough e1)
      then show thesis using assms(1) False out through by (auto simp: destination_def split: sum.splits)
    next
      case TurnedAway
      then show thesis using assms(1) False out proposed by (auto simp: destination_def split: if_splits)
    next
      case (MiddlewareError err)
      then show thesis using assms(1) False out by (auto simp: destination_def split: if_splits)
    qed
  qed
  then show ?thesis
  proof cases
    case proposed
    then show ?thesis using assms(3) by (simp add: valid_destination_def)
  next
    case through
    have e1: "e1 = pt_to t \<or> (\<exists>l. e1 = with_location l (pt_to t) \<and> in_table (toLower (po_env po)) (po_routes po) l)"
      using middleware_passes[OF through(1)] by auto
    have "state_from (po_routes po) (l_route (e_location (pt_to t))) (e_state e1)" "e_id e1 = e_id (pt_to t)"
        "e_props e1 = e_props (pt_to t)"
      using e1 assms(3) by (auto simp: with_location_def)
    then show ?thesis
      using withValidState_valid[OF through(2) assms(2)] withValidState_props[OF through(2)] e1
      by (auto simp: valid_destination_def)
  qed
qed

lemma all_outcomes_value:
  assumes "all_outcomes outs = PhaseValue vs"
  shows "list_all2 (\<lambda>x v. x = PhaseValue v) outs vs"
proof -
  have "PhaseAborted \<notin> set outs" "PhaseThrows \<notin> set outs" "PhaseCancelled \<notin> set outs"
      "vs = concat (map (\<lambda>x. case x of PhaseValue v \<Rightarrow> [v] | _ \<Rightarrow> []) outs)"
    using assms by (auto simp: all_outcomes_def split: if_splits)
  then show ?thesis
  proof (induction outs arbitrary: vs)
    case (Cons x outs)
    then show ?case by (cases x) auto
  qed simp
qed

lemma resolveDestinations_value:
  assumes "resolveDestinations po aborted nav = Some (PhaseValue es)"
  shows "list_all2 (\<lambda>t e. destination po aborted nav t = Some (PhaseValue e)) (nv_targets nav) es"
proof -
  let ?outs = "map (destination po aborted nav) (nv_targets nav)"
  have none: "None \<notin> set ?outs" and all: "all_outcomes (map the ?outs) = PhaseValue es"
    using assms by (auto simp: resolveDestinations_def Let_def split: if_splits)
  have "list_all2 (\<lambda>x v. x = PhaseValue v) (map the ?outs) es" by (rule all_outcomes_value[OF all])
  then have "list_all2 (\<lambda>t e. the (destination po aborted nav t) = PhaseValue e) (nv_targets nav) es"
    by (simp add: list_all2_map1 list.map_comp comp_def)
  then show ?thesis
    by (rule list.rel_mono_strong) (use none in \<open>auto simp: image_iff, metis option.exhaust_sel\<close>)
qed

lemma initial_never_cancelled:
  assumes "nv_cause nav = CauseInitial" and "resolveDestinations po aborted nav = Some out"
  shows "out \<noteq> PhaseCancelled"
proof -
  have "destination po aborted nav t \<noteq> Some PhaseCancelled" for t
    using assms(1) by (auto simp: destination_def split: if_splits middleware_outcome.splits sum.splits)
  then have "PhaseCancelled \<notin> set (map the (map (destination po aborted nav) (nv_targets nav)))" if "None \<notin> set (map (destination po aborted nav) (nv_targets nav))"
    using that by (auto simp: image_iff) (metis option.exhaust_sel)
  then show ?thesis using assms(2)
    by (auto simp: resolveDestinations_def Let_def all_outcomes_def split: if_splits)
qed

text \<open>A whole navigation that nothing interrupts, as the run machine sees it.\<close>

definition undisturbed :: "'g phase_options \<Rightarrow> navigation \<Rightarrow> report list" where
  "undisturbed po nav =
    [Navigate nav, guards_report po nav] @
    (if guards_report po nav = Allowed then
       (case middleware_report po (\<lambda>_. False) nav of
          None \<Rightarrow> []
        | Some r \<Rightarrow> r # (case r of Resolved es \<Rightarrow> [preload_report po nav es] | _ \<Rightarrow> []))
     else [])"

lemma undisturbed_commands:
  "sim_commands (simulate runDef Idle (undisturbed po nav)) =
    (if guards_report po nav \<noteq> Allowed
     then [Cancel nav (if guards_report po nav = RefusedByGuard then Refused else Failed)]
     else (case middleware_report po (\<lambda>_. False) nav of
             None \<Rightarrow> []
           | Some (Resolved es) \<Rightarrow> [if preload_report po nav es = Preloaded then Commit nav es else Cancel nav Failed]
           | Some r \<Rightarrow> [Cancel nav (if r = MiddlewareCancelled then Cancelled else Failed)]))"
proof -
  have g: "guards_report po nav \<in> {Allowed, RefusedByGuard, PhaseFailed}"
    by (simp add: guards_report_def split: sum.splits)
  have r: "middleware_report po (\<lambda>_. False) nav \<in> {None, Some MiddlewareCancelled, Some PhaseFailed} \<union> Some ` range Resolved"
    by (auto simp: middleware_report_def split: option.splits phase_outcome.splits)
  have p: "preload_report po nav es \<in> {Preloaded, PhaseFailed}" for es
    by (simp add: preload_report_def split: sum.splits)
  note run = simulate_def simulate_step_def machine_step_def run_defs Let_def
  show ?thesis
  proof (cases "guards_report po nav = Allowed")
    case True
    from r consider "middleware_report po (\<lambda>_. False) nav = None" | "middleware_report po (\<lambda>_. False) nav = Some MiddlewareCancelled"
      | "middleware_report po (\<lambda>_. False) nav = Some PhaseFailed"
      | es where "middleware_report po (\<lambda>_. False) nav = Some (Resolved es)" by auto
    then show ?thesis
    proof cases
      case (4 es)
      then show ?thesis using True p[of es] by (auto simp: undisturbed_def run)
    qed (use True in \<open>simp_all add: undisturbed_def run\<close>)
  next
    case False
    then show ?thesis using g by (auto simp: undisturbed_def run)
  qed
qed

text \<open>The answers that decide: what middleware makes of each target, no signal being aborted.\<close>

definition guards_pass :: "'g phase_options \<Rightarrow> navigation \<Rightarrow> bool" where
  "guards_pass po nav \<longleftrightarrow>
    (\<forall>g \<in> snd ` set (gr_items (po_guards po)). \<forall>q. concerned po nav g q \<longrightarrow> lets_through (po_ask po (rg_guard g) q))"

definition guards_asked :: "'g phase_options \<Rightarrow> navigation \<Rightarrow> bool" where
  "guards_asked po nav \<longleftrightarrow> \<not> isl (checkGuards po nav)"

abbreviation made_of :: "'g phase_options \<Rightarrow> navigation \<Rightarrow> pane_target \<Rightarrow> entry phase_outcome option" where
  "made_of po \<equiv> destination po (\<lambda>_. False)"

definition resolves_to :: "'g phase_options \<Rightarrow> navigation \<Rightarrow> entry list \<Rightarrow> bool" where
  "resolves_to po nav es \<longleftrightarrow> list_all2 (\<lambda>t e. made_of po nav t = Some (PhaseValue e)) (nv_targets nav) es"

lemma guards_report_cases:
  "guards_report po nav =
    (if \<not> guards_asked po nav then PhaseFailed else if guards_pass po nav then Allowed else RefusedByGuard)"
proof (cases "checkGuards po nav")
  case (Inr v)
  show ?thesis using guards_verdict[OF Inr] Inr by (simp add: guards_report_def guards_asked_def guards_pass_def)
qed (simp add: guards_report_def guards_asked_def)

lemma all_outcomes_values: "list_all2 (\<lambda>x v. x = PhaseValue v) outs vs \<Longrightarrow> all_outcomes outs = PhaseValue vs"
proof -
  assume l: "list_all2 (\<lambda>x v. x = PhaseValue v) outs vs"
  then have o: "outs = map PhaseValue vs" by (induction rule: list_all2_induct) simp_all
  have "concat (map (\<lambda>x. case x of PhaseValue v \<Rightarrow> [v] | _ \<Rightarrow> []) (map PhaseValue vs)) = vs" by (induction vs) simp_all
  then show ?thesis unfolding all_outcomes_def o by auto
qed

text \<open>Middleware decides every target when its redirects end and it does not throw an \<open>AbortError\<close> of its own.\<close>

definition middleware_decides :: "'g phase_options \<Rightarrow> bool" where
  "middleware_decides po \<longleftrightarrow> finite {t. \<exists>h \<in> set (po_middleware po). \<exists>n c. h n c = RedirectTo t} \<and>
    (\<forall>h \<in> set (po_middleware po). \<forall>n c. h n c \<noteq> HandlerAborts)"

lemma made_of_decided:
  assumes "middleware_decides po"
  shows "\<exists>out. made_of po nav t = Some out \<and> out \<noteq> PhaseAborted"
proof (cases "po_middleware po = []")
  case False
  let ?run = "\<lparr>mr_env = po_env po, mr_routes = po_routes po, mr_handlers = po_middleware po,
         mr_request = \<lparr>mq_from = pt_from t, mq_to = pt_to t, mq_cause = nv_cause nav,
                       mq_externalSearch = nv_externalSearch nav\<rparr>, mr_aborted = (\<lambda>_. False)\<rparr>"
  have "finite {t. \<exists>h \<in> set (mr_handlers ?run). \<exists>n c. h n c = RedirectTo t}" using assms by (simp add: middleware_decides_def)
  from middleware_loop_ends[OF this] obtain last visited k where
    r: "runEntry ?run (mq_to (mr_request ?run)) [] 0 = Some (last, visited, k)" by blast
  have "\<not> may_abort ?run" using assms by (auto simp: may_abort_def middleware_decides_def)
  then have "last \<noteq> MiddlewareError AbortError" using runEntry_visits[OF r] by auto
  then obtain out where "runMiddleware ?run = Some out" "out \<noteq> MiddlewareError AbortError" "\<And>err. out \<noteq> MiddlewareError err"
    using r by (cases last) (auto simp: runMiddleware_def)
  then show ?thesis using False by (cases out) (auto simp: destination_def split: sum.splits)
qed (simp add: destination_def)

lemma resolved_iff:
  assumes "middleware_decides po"
  shows "resolveDestinations po (\<lambda>_. False) nav = Some (PhaseValue es) \<longleftrightarrow> resolves_to po nav es"
    and "resolveDestinations po (\<lambda>_. False) nav = Some PhaseThrows \<longleftrightarrow>
      (\<exists>t \<in> set (nv_targets nav). made_of po nav t = Some PhaseThrows)"
    and "resolveDestinations po (\<lambda>_. False) nav = Some PhaseCancelled \<longleftrightarrow>
      (\<exists>t \<in> set (nv_targets nav). made_of po nav t = Some PhaseCancelled) \<and>
      (\<forall>t \<in> set (nv_targets nav). made_of po nav t \<noteq> Some PhaseThrows)"
    and "\<exists>out. resolveDestinations po (\<lambda>_. False) nav = Some out \<and> out \<noteq> PhaseAborted"
proof -
  let ?outs = "map (made_of po nav) (nv_targets nav)"
  have some: "\<exists>out. made_of po nav t = Some out \<and> out \<noteq> PhaseAborted" for t by (rule made_of_decided[OF assms])
  have n: "None \<notin> set ?outs" using some by (auto simp: image_iff) (metis option.distinct(1))
  then have r: "resolveDestinations po (\<lambda>_. False) nav = Some (all_outcomes (map the ?outs))"
    by (simp add: resolveDestinations_def Let_def)
  have mem: "x \<in> set (map the ?outs) \<longleftrightarrow> (\<exists>t \<in> set (nv_targets nav). made_of po nav t = Some x)" for x
  proof
    assume "x \<in> set (map the ?outs)"
    then obtain t where t: "t \<in> set (nv_targets nav)" "x = the (made_of po nav t)" by auto
    then show "\<exists>t \<in> set (nv_targets nav). made_of po nav t = Some x" using some[of t] by auto
  qed force
  have aborted: "PhaseAborted \<notin> set (map the ?outs)" unfolding mem using some by (metis option.inject)
  show "resolveDestinations po (\<lambda>_. False) nav = Some PhaseThrows \<longleftrightarrow>
      (\<exists>t \<in> set (nv_targets nav). made_of po nav t = Some PhaseThrows)"
    unfolding r mem[symmetric] using aborted by (simp add: all_outcomes_def)
  show "resolveDestinations po (\<lambda>_. False) nav = Some PhaseCancelled \<longleftrightarrow>
      (\<exists>t \<in> set (nv_targets nav). made_of po nav t = Some PhaseCancelled) \<and>
      (\<forall>t \<in> set (nv_targets nav). made_of po nav t \<noteq> Some PhaseThrows)"
  proof -
    have "resolveDestinations po (\<lambda>_. False) nav = Some PhaseCancelled \<longleftrightarrow>
        PhaseCancelled \<in> set (map the ?outs) \<and> PhaseThrows \<notin> set (map the ?outs)"
      unfolding r using aborted by (simp add: all_outcomes_def)
    then show ?thesis unfolding mem by blast
  qed
  show "\<exists>out. resolveDestinations po (\<lambda>_. False) nav = Some out \<and> out \<noteq> PhaseAborted"
    unfolding r using aborted by (simp add: all_outcomes_def)
  show "resolveDestinations po (\<lambda>_. False) nav = Some (PhaseValue es) \<longleftrightarrow> resolves_to po nav es"
  proof
    assume "resolveDestinations po (\<lambda>_. False) nav = Some (PhaseValue es)"
    then show "resolves_to po nav es" unfolding resolves_to_def by (rule resolveDestinations_value)
  next
    assume "resolves_to po nav es"
    then have "list_all2 (\<lambda>x v. x = PhaseValue v) (map the ?outs) es"
      by (auto simp: resolves_to_def list_all2_conv_all_nth)
    then show "resolveDestinations po (\<lambda>_. False) nav = Some (PhaseValue es)" unfolding r by (simp add: all_outcomes_values)
  qed
qed

lemma resolves_to_valid:
  assumes "states_ok po nav" and "resolves_to po nav es"
  shows "list_all2 (valid_destination po) (nv_targets nav) es"
  using assms(2) unfolding resolves_to_def
proof (rule list.rel_mono_strong)
  fix t e assume t: "t \<in> set (nv_targets nav)" and d: "made_of po nav t = Some (PhaseValue e)"
  show "valid_destination po t e"
    by (rule destination_valid[OF d]) (use assms(1) t in \<open>auto simp: states_ok_def\<close>)
qed

text \<open>The command that settles a navigation that nothing interrupts.\<close>

definition settling :: "'g phase_options \<Rightarrow> navigation \<Rightarrow> (navigation, entry) run_command" where
  "settling po nav =
    (if \<not> guards_asked po nav then Cancel nav Failed
     else if \<not> guards_pass po nav then Cancel nav Refused
     else (case the (resolveDestinations po (\<lambda>_. False) nav) of
             PhaseValue es \<Rightarrow> if isl (preloadEntries po nav es) then Cancel nav Failed else Commit nav es
           | PhaseCancelled \<Rightarrow> Cancel nav Cancelled
           | _ \<Rightarrow> Cancel nav Failed))"

lemma undisturbed_settles:
  assumes "middleware_decides po"
  shows "sim_commands (simulate runDef Idle (undisturbed po nav)) = [settling po nav]"
proof -
  obtain out where out: "resolveDestinations po (\<lambda>_. False) nav = Some out" "out \<noteq> PhaseAborted" using resolved_iff(4)[OF assms] by blast
  have p: "preload_report po nav es = (if isl (preloadEntries po nav es) then PhaseFailed else Preloaded)" for es
    by (simp add: preload_report_def split: sum.splits)
  show ?thesis
    using out by (cases out) (simp_all add: undisturbed_commands guards_report_cases middleware_report_def settling_def p)
qed

text \<open>
  C15.  A navigation that nothing interrupts, provided that middleware decides (it redirects to finitely many targets and throws
  no \<open>AbortError\<close> of its own) and that each target's state is one its route's schema has returned, is settled by
  exactly one command, and by which one is exactly decided: it commits the entries \<open>es\<close> if and only if the guards could be
  asked, every guard it concerns lets it pass, middleware turns each target, in order, into the entry of \<open>es\<close>, and their
  preloads could be started; it is refused if and only if a concerned guard says no; it is cancelled if and only if the guards
  pass and middleware cancels some target and fails for none; and it fails otherwise.  A committed
  entry is the target's own, moved by redirects to another route of the table at most, with a state that the schema
  of its route has returned, and an initial load is never cancelled by middleware.
\<close>

theorem undisturbed_navigation:
  assumes "states_ok po nav" and "middleware_decides po"
  shows "\<exists>c. sim_commands (simulate runDef Idle (undisturbed po nav)) = [c] \<and>
    (\<forall>es. c = Commit nav es \<longleftrightarrow>
       guards_asked po nav \<and> guards_pass po nav \<and> resolves_to po nav es \<and> \<not> isl (preloadEntries po nav es)) \<and>
    (c = Cancel nav Refused \<longleftrightarrow> guards_asked po nav \<and> \<not> guards_pass po nav) \<and>
    (c = Cancel nav Cancelled \<longleftrightarrow> guards_asked po nav \<and> guards_pass po nav \<and>
       (\<exists>t \<in> set (nv_targets nav). made_of po nav t = Some PhaseCancelled) \<and>
       (\<forall>t \<in> set (nv_targets nav). made_of po nav t \<noteq> Some PhaseThrows)) \<and>
    ((\<exists>es. c = Commit nav es) \<or> c \<in> {Cancel nav Refused, Cancel nav Cancelled, Cancel nav Failed}) \<and>
    (\<forall>es. c = Commit nav es \<longrightarrow> list_all2 (valid_destination po) (nv_targets nav) es) \<and>
    (nv_cause nav = CauseInitial \<longrightarrow> c \<noteq> Cancel nav Cancelled)"
proof -
  obtain out where out: "resolveDestinations po (\<lambda>_. False) nav = Some out" "out \<noteq> PhaseAborted"
    using resolved_iff(4)[OF assms(2)] by blast
  note iff = resolved_iff(1-3)[OF assms(2), of nav, symmetric, unfolded out(1)]
  have commits: "settling po nav = Commit nav es \<longleftrightarrow>
      guards_asked po nav \<and> guards_pass po nav \<and> resolves_to po nav es \<and> \<not> isl (preloadEntries po nav es)" for es
    unfolding iff(1) using out by (cases out) (auto simp: settling_def)
  have refused: "settling po nav = Cancel nav Refused \<longleftrightarrow> guards_asked po nav \<and> \<not> guards_pass po nav"
    using out by (cases out) (auto simp: settling_def)
  have cancelled: "settling po nav = Cancel nav Cancelled \<longleftrightarrow> guards_asked po nav \<and> guards_pass po nav \<and>
      (\<exists>t \<in> set (nv_targets nav). made_of po nav t = Some PhaseCancelled) \<and>
      (\<forall>t \<in> set (nv_targets nav). made_of po nav t \<noteq> Some PhaseThrows)"
    unfolding iff(3) using out by (cases out) (auto simp: settling_def)
  have one: "(\<exists>es. settling po nav = Commit nav es) \<or> settling po nav \<in> {Cancel nav Refused, Cancel nav Cancelled, Cancel nav Failed}"
    using out by (cases out) (auto simp: settling_def)
  have initial: "settling po nav \<noteq> Cancel nav Cancelled" if "nv_cause nav = CauseInitial"
    using initial_never_cancelled[OF that out(1)] out by (cases out) (auto simp: settling_def)
  show ?thesis
    using undisturbed_settles[OF assms(2)] commits refused cancelled one initial resolves_to_valid[OF assms(1)]
    by (intro exI[of _ "settling po nav"] conjI) blast+
qed

end
