(* ===== verification/Router_Url.thy ===== *)
theory Router_Url
  imports Router_History Route_Url Panes Phases
begin

text \<open>
  The panes and the URL, \<open>router/url.ts\<close> and \<open>router/url-navigation.ts\<close>: what the panes show is written to
  the history adapter, the URL last known is remembered, and a URL from outside becomes a navigation
  that makes the panes show it.  The pane store and the history adapter are records of
  operations; what a commit does beyond them, such as bringing a pane up, is logged.
\<close>

section \<open>The router's state\<close>

datatype claim_owner = PaneOwner pane_id | PreviewOwner nat

record claim_holder =
  ch_owner :: claim_owner
  ch_pane :: "pane_id option"
  ch_claim :: ustring

datatype navigation_result =
    NavCommitted pane_id
  | NavActivated claim_owner
  | NavUnchanged pane_id
  | NavCancelled

datatype router_effect =
    AbortRun pane_id
  | CarrySearch pane_id entry write_mode
  | Activated claim_owner

datatype router_error =
    UrlRoute route_error
  | UrlStore store_error
  | UrlClaim claim_error
  | UrlEntry entry_error
  | HistoryThrew
  | NoPanes \<comment> \<open>a property of the first of no panes is read\<close>
  | NoEntryGiven \<comment> \<open>an entry is missing where \<open>apply\<close> destructures it\<close>

text \<open>
  \<open>rt_sources\<close> are the previews and popovers registered with the claims, \<open>rt_inFlight\<close> what the
  runner says is on its way to a pane.
\<close>

record ('s, 'h) router =
  rt_panes :: "'s panes"
  rt_lastKnown :: external_location
  rt_history :: 'h
  rt_ready :: bool
  rt_sources :: "claim_holder list list"
  rt_inFlight :: "pane_id \<Rightarrow> navigation option"
  rt_opening :: "(pane_id \<times> pane_id option) list" \<comment> \<open>new panes on their way, with the pane they were opened from\<close>
  rt_effects :: "router_effect list"

record ('s, 'h) router_parts =
  rp_env :: router_env
  rp_routes :: routes_manifest
  rp_store :: "('s, js_value, entry_rest) pane_store"
  rp_adapter :: "'h history_adapter"
  rp_paneId :: "nat \<Rightarrow> pane_id"

definition createUrl :: "('s, 'h) router_parts \<Rightarrow> 's panes \<Rightarrow> 'h \<Rightarrow> ('s, 'h) router" where
  "createUrl parts p h =
    \<lparr>rt_panes = p, rt_lastKnown = ha_read (rp_adapter parts) h, rt_history = h, rt_ready = False, rt_sources = [],
     rt_inFlight = (\<lambda>_. None), rt_opening = [], rt_effects = []\<rparr>"

definition router_current :: "('s, 'h) router_parts \<Rightarrow> pane_id \<Rightarrow> ('s, 'h) router \<Rightarrow> entry option" where
  "router_current parts pane r = panes_current (rp_store parts) pane (rt_panes r)"

section \<open>Writing the URL\<close>

definition encoded_of :: "pane_id \<Rightarrow> entry \<Rightarrow> encoded_pane" where
  "encoded_of pane e = \<lparr>ep_paneId = pane, ep_entry = as_route_entry e\<rparr>"

definition shownPanes :: "('s, 'h) router_parts \<Rightarrow> ('s, 'h) router \<Rightarrow> encoded_pane list" where
  "shownPanes parts r =
    concat (map (\<lambda>pane. case router_current parts pane r of None \<Rightarrow> [] | Some e \<Rightarrow> [encoded_of pane e]) (ids (rt_panes r)))"

definition url_remember :: "external_location \<Rightarrow> ('s, 'h) router \<Rightarrow> ('s, 'h) router" where
  "url_remember location r = r\<lparr>rt_lastKnown := location\<rparr>"

definition url_write ::
  "('s, 'h) router_parts \<Rightarrow> write_mode \<Rightarrow> external_location option \<Rightarrow> ('s, 'h) router \<Rightarrow>
   (router_error, unit, ('s, 'h) router) outcome" where
  "url_write parts mode landed r =
    (let shown = shownPanes parts r
     in if shown = [] then (Inr (), r)
        else
         (let basis = (case landed of None \<Rightarrow> rt_lastKnown r | Some l \<Rightarrow> l)
          in case encodePanes (rp_routes parts) shown basis (landed \<noteq> None) of
               Inl e \<Rightarrow> (Inl (UrlRoute e), r)
             | Inr next \<Rightarrow>
                 if sameExternalLocation (deq_value (rp_env parts)) next (rt_lastKnown r) then (Inr (), r)
                 else (case ha_write (rp_adapter parts) next mode (rt_history r) of
                         None \<Rightarrow> (Inl HistoryThrew, r)
                       | Some h \<Rightarrow> (Inr (), r\<lparr>rt_history := h, rt_lastKnown := next\<rparr>))))"

definition url_href :: "('s, 'h) router_parts \<Rightarrow> pane_id \<Rightarrow> ('s, 'h) router \<Rightarrow> route_error + ustring" where
  "url_href parts pane r =
    (case router_current parts pane r of
       None \<Rightarrow> Inr []
     | Some e \<Rightarrow>
         bind_result (encodePanes (rp_routes parts) [encoded_of pane e] (rt_lastKnown r) False) (\<lambda>l.
           Inr (ha_href (rp_adapter parts) l)))"

section \<open>Following the URL\<close>

definition adopt :: "entry \<Rightarrow> entry \<Rightarrow> entry" where
  "adopt stored incoming = with_state (e_state incoming) (with_location (e_location incoming) stored)"

definition of_decoded :: "decoded_pane \<Rightarrow> (js_value, entry_rest) incoming_pane" where
  "of_decoded d =
    \<lparr>in_paneId = dp_paneId d,
     in_entry = \<lparr>e_id = en_id (dp_entry d), e_props = None, e_keepProps = False,
       e_rest = \<lparr>er_location = en_location (dp_entry d), er_state = en_state (dp_entry d), er_meta = None\<rparr>\<rparr>\<rparr>"

text \<open>An open pane shows an entry, so \<open>sameVisit\<close> is never asked about none.\<close>

definition visit_options :: "router_env \<Rightarrow> (js_value, entry_rest) diff_options" where
  "visit_options env =
    \<lparr>same_opt = (\<lambda>current e. case current of None \<Rightarrow> False | Some c \<Rightarrow> sameVisit env c e), adopt_opt = Some adopt\<rparr>"

fun toTarget :: "(js_value, entry_rest) pane_diff \<Rightarrow> pane_target" where
  "toTarget (Change pane from to _) = \<lparr>pt_pane = pane, pt_from = from, pt_to = to\<rparr>"
| "toTarget (Create pane e) = \<lparr>pt_pane = pane, pt_from = None, pt_to = e\<rparr>"
| "toTarget (Keep pane) = undefined" \<comment> \<open>never a changed pane\<close>

type_synonym entry_diff = "(js_value, entry_rest) panes_diff"

definition router_diff ::
  "('s, 'h) router_parts \<Rightarrow> (js_value, entry_rest) incoming_pane list \<Rightarrow> ('s, 'h) router \<Rightarrow> entry_diff \<times> ('s, 'h) router" where
  "router_diff parts incoming r =
    (case panes_diff_with (rp_store parts) (rp_paneId parts) incoming (visit_options (rp_env parts)) (rt_panes r) of
       (d, p) \<Rightarrow> (d, r\<lparr>rt_panes := p\<rparr>))"

definition diff_navigation :: "nav_cause \<Rightarrow> ustring option \<Rightarrow> entry_diff \<Rightarrow> navigation" where
  "diff_navigation cause search d =
    \<lparr>nv_cause = cause, nv_targets = map toTarget (changedPanes d), nv_removed = diff_removed d, nv_externalSearch = search\<rparr>"

text \<open>\<open>navigationTo\<close>: the navigation and the diff that its \<open>apply\<close> closes over.\<close>

definition navigationTo ::
  "('s, 'h) router_parts \<Rightarrow> (nat \<Rightarrow> ustring) \<Rightarrow> external_location \<Rightarrow> nav_cause \<Rightarrow> ('s, 'h) router \<Rightarrow>
   (route_error + navigation \<times> entry_diff) \<times> ('s, 'h) router" where
  "navigationTo parts fresh location cause r =
    (case decodePanes (toLower (rp_env parts)) (rp_routes parts) location fresh of
       Inl e \<Rightarrow> (Inl e, r)
     | Inr decoded \<Rightarrow>
         (case router_diff parts (map of_decoded decoded) r of
            (d, r1) \<Rightarrow> (Inr (diff_navigation cause (Some (x_search location)) d, d), r1)))"

definition lift_panes ::
  "(store_error, 'a, 's panes) outcome \<Rightarrow> ('s, 'h) router \<Rightarrow> (router_error, 'a, ('s, 'h) router) outcome" where
  "lift_panes out r =
    ((case fst out of Inl e \<Rightarrow> Inl (UrlStore e) | Inr a \<Rightarrow> Inr a), r\<lparr>rt_panes := snd out\<rparr>)"

text \<open>Applying a navigation to a URL that landed, or to a location that becomes the only pane (\<open>None\<close>).\<close>

definition applyUrl ::
  "('s, 'h) router_parts \<Rightarrow> entry_diff \<Rightarrow> write_mode \<Rightarrow> external_location option \<Rightarrow> entry list \<Rightarrow> ('s, 'h) router \<Rightarrow>
   (router_error, navigation_result, ('s, 'h) router) outcome" where
  "applyUrl parts d mode landed es r =
    and_then (lift_panes (applyDiff (rp_store parts) d es (rt_panes r)) r) (\<lambda>_ r1.
    and_then (url_write parts mode landed r1) (\<lambda>_ r2.
      let r3 = (if landed = None then r2 else r2\<lparr>rt_ready := True\<rparr>)
      in case diff_panes d of [] \<Rightarrow> (Inl NoPanes, r3) | p # _ \<Rightarrow> (Inr (NavCommitted (diff_pane p)), r3)))"

text \<open>\<open>navigateToLocation\<close>, up to the start of the run.\<close>

definition navigateToLocation ::
  "('s, 'h) router_parts \<Rightarrow> ustring \<Rightarrow> split_location \<Rightarrow> entry_options \<Rightarrow> ('s, 'h) router \<Rightarrow>
   (router_error + navigation \<times> entry_diff) \<times> ('s, 'h) router" where
  "navigateToLocation parts newId location options r =
    (case createEntry (rp_env parts) newId (rp_routes parts) location None options of
       Inl e \<Rightarrow> (Inl (UrlEntry e), r)
     | Inr e \<Rightarrow>
         (case router_diff parts [\<lparr>in_paneId = None, in_entry = e\<rparr>] r of
            (d, r1) \<Rightarrow> (Inr (diff_navigation CauseNavigate None d, d), r1)))"

text \<open>\<open>follow\<close>: nothing, when the URL is the one known already; the location to go back to is for \<open>revert\<close>.\<close>

definition follow ::
  "('s, 'h) router_parts \<Rightarrow> (nat \<Rightarrow> ustring) \<Rightarrow> external_location \<Rightarrow> ('s, 'h) router \<Rightarrow>
   (route_error + navigation \<times> entry_diff \<times> external_location) option \<times> ('s, 'h) router" where
  "follow parts fresh location r =
    (if sameExternalLocation (deq_value (rp_env parts)) location (rt_lastKnown r) then (None, r)
     else (case navigationTo parts fresh location CauseExternal (url_remember location r) of
             (Inl e, r1) \<Rightarrow> (Some (Inl e), r1)
           | (Inr (nav, d), r1) \<Rightarrow> (Some (Inr (nav, d, rt_lastKnown r)), r1)))"

definition canLeave :: "'g phase_options \<Rightarrow> pane_id list \<Rightarrow> bool maybe_promise" where
  "canLeave po panes =
    fst (runChecks (concat (map (\<lambda>pane. case po_current po pane of
        None \<Rightarrow> []
      | Some from \<Rightarrow> checksFor po (select_guards (po_env po) pane (Some PANE_LEVEL) None (po_guards po))
          \<lparr>gq_pane = pane, gq_from = from, gq_to = None, gq_cause = CauseExternal\<rparr>) panes)))"

end
