(* ===== verification/Router_Claims.thy ===== *)
theory Router_Claims
  imports Router_Url
begin

text \<open>
  Claims of the split router, \<open>router/claims.ts\<close>: routes may claim a resource, panes and registered previews hold
  the claims they show, and a visit to a claim that is held elsewhere brings that holder up
  instead of showing the resource twice.
\<close>

section \<open>Holders\<close>

record claim_check =
  cc_pane :: "pane_id option"
  cc_from :: "entry option"
  cc_allowDuplicate :: bool
  cc_besides :: "pane_id option"

definition entryClaim :: "routes_manifest \<Rightarrow> split_location option \<Rightarrow> claim_error + ustring option" where
  "entryClaim routes location = (case location of None \<Rightarrow> Inr None | Some l \<Rightarrow> claimOf routes (l_route l))"

definition isPaneHolder :: "claim_holder \<Rightarrow> bool" where
  "isPaneHolder h \<longleftrightarrow> (case ch_pane h of None \<Rightarrow> False | Some p \<Rightarrow> ch_owner h = PaneOwner p)"

definition isInPane :: "claim_holder \<Rightarrow> pane_id \<Rightarrow> bool" where
  "isInPane h pane \<longleftrightarrow> ch_pane h = Some pane \<or> ch_owner h = PaneOwner pane"

definition holdsClaim :: "ustring \<Rightarrow> pane_id option \<Rightarrow> claim_holder \<Rightarrow> bool" where
  "holdsClaim claim excludePane h \<longleftrightarrow>
    ch_claim h = claim \<and> (case excludePane of None \<Rightarrow> True | Some p \<Rightarrow> \<not> isInPane h p)"

definition paneHolder :: "('s, 'h) router_parts \<Rightarrow> ('s, 'h) router \<Rightarrow> pane_id \<Rightarrow> claim_error + claim_holder list" where
  "paneHolder parts r pane =
    bind_result (entryClaim (rp_routes parts) (map_option e_location (router_current parts pane r))) (\<lambda>claim.
      Inr (case claim of None \<Rightarrow> [] | Some c \<Rightarrow> [\<lparr>ch_owner = PaneOwner pane, ch_pane = Some pane, ch_claim = c\<rparr>]))"

definition paneHolders :: "('s, 'h) router_parts \<Rightarrow> ('s, 'h) router \<Rightarrow> claim_error + claim_holder list" where
  "paneHolders parts r = bind_result (map_results (paneHolder parts r) (ids (rt_panes r))) (\<lambda>hs. Inr (concat hs))"

text \<open>The registry: the panes are its first source, previews and popovers come after, in the order they registered.\<close>

definition register_source :: "claim_holder list \<Rightarrow> ('s, 'h) router \<Rightarrow> ('s, 'h) router" where
  "register_source source r = r\<lparr>rt_sources := rt_sources r @ [source]\<rparr>"

text \<open>What \<open>register\<close> returned: the source is found by its identity, here its position, and only once.\<close>

definition unregister_source :: "nat option \<Rightarrow> ('s, 'h) router \<Rightarrow> ('s, 'h) router" where
  "unregister_source found r =
    (case found of None \<Rightarrow> r | Some i \<Rightarrow> r\<lparr>rt_sources := take i (rt_sources r) @ drop (Suc i) (rt_sources r)\<rparr>)"

definition holderOf ::
  "('s, 'h) router_parts \<Rightarrow> ustring \<Rightarrow> pane_id option \<Rightarrow> ('s, 'h) router \<Rightarrow> claim_error + claim_holder option" where
  "holderOf parts claim excludePane r =
    bind_result (paneHolders parts r) (\<lambda>hs.
      Inr (List.find (holdsClaim claim excludePane) (concat (hs # rt_sources r))))"

definition holderFor ::
  "('s, 'h) router_parts \<Rightarrow> claim_check \<Rightarrow> split_location \<Rightarrow> ('s, 'h) router \<Rightarrow> claim_error + claim_holder option" where
  "holderFor parts check location r =
    (if cc_allowDuplicate check then Inr None
     else
      bind_result (entryClaim (rp_routes parts) (Some location)) (\<lambda>claim.
        case claim of
          None \<Rightarrow> Inr None
        | Some c \<Rightarrow>
            bind_result (entryClaim (rp_routes parts) (map_option e_location (cc_from check))) (\<lambda>held.
              if held = Some c then Inr None
              else
                bind_result (holderOf parts c (cc_pane check) r) (\<lambda>holder.
                  Inr (case holder of
                         None \<Rightarrow> None
                       | Some h \<Rightarrow>
                           if (case cc_besides check of None \<Rightarrow> False | Some b \<Rightarrow> isInPane h b) then None else Some h)))))"

section \<open>Yielding\<close>

definition leavesClaim ::
  "('s, 'h) router_parts \<Rightarrow> pane_id \<Rightarrow> ustring \<Rightarrow> ('s, 'h) router \<Rightarrow> claim_error + bool" where
  "leavesClaim parts pane claim r =
    (case rt_inFlight r pane of
       None \<Rightarrow> Inr False
     | Some nav \<Rightarrow>
         (case List.find (\<lambda>t. pt_pane t = pane) (nv_targets nav) of
            None \<Rightarrow> Inr True
          | Some t \<Rightarrow>
              bind_result (entryClaim (rp_routes parts) (Some (e_location (pt_to t)))) (\<lambda>c. Inr (c \<noteq> Some claim))))"

definition log_effect :: "router_effect \<Rightarrow> ('s, 'h) router \<Rightarrow> ('s, 'h) router" where
  "log_effect x r = r\<lparr>rt_effects := rt_effects r @ [x]\<rparr>"

definition yieldTo ::
  "('s, 'h) router_parts \<Rightarrow> claim_holder \<Rightarrow> entry \<Rightarrow> write_mode \<Rightarrow> ('s, 'h) router \<Rightarrow>
   (router_error, navigation_result, ('s, 'h) router) outcome" where
  "yieldTo parts holder dest mode r =
    (case (if isPaneHolder holder
           then bind_result (leavesClaim parts (the (ch_pane holder)) (ch_claim holder) r) (\<lambda>departing.
             Inr (log_effect (CarrySearch (the (ch_pane holder)) dest mode)
               (if departing then log_effect (AbortRun (the (ch_pane holder))) r else r)))
           else Inr r) of
       Inl e \<Rightarrow> (Inl (UrlClaim e), r)
     | Inr r1 \<Rightarrow> (Inr (NavActivated (ch_owner holder)), log_effect (Activated (ch_owner holder)) r1))"

definition applyUnlessHeld ::
  "('s, 'h) router_parts \<Rightarrow> claim_check \<Rightarrow> write_mode \<Rightarrow> entry \<Rightarrow>
   (('s, 'h) router \<Rightarrow> (router_error, navigation_result, ('s, 'h) router) outcome) \<Rightarrow> ('s, 'h) router \<Rightarrow>
   (router_error, navigation_result, ('s, 'h) router) outcome" where
  "applyUnlessHeld parts check mode e apply_it r =
    (case holderFor parts check (e_location e) r of
       Inl err \<Rightarrow> (Inl (UrlClaim err), r)
     | Inr None \<Rightarrow> apply_it r
     | Inr (Some holder) \<Rightarrow> yieldTo parts holder e mode r)"

definition reveal :: "pane_id \<Rightarrow> ('s, 'h) router \<Rightarrow> navigation_result \<times> ('s, 'h) router" where
  "reveal pane r = (NavActivated (PaneOwner pane), log_effect (Activated (PaneOwner pane)) r)"

definition canVisit ::
  "('s, 'h) router_parts \<Rightarrow> pane_id \<Rightarrow> bool \<Rightarrow> ('s, 'h) router \<Rightarrow> entry \<Rightarrow> claim_error + bool" where
  "canVisit parts pane allowDuplicate r e =
    bind_result (holderFor parts \<lparr>cc_pane = Some pane, cc_from = None, cc_allowDuplicate = allowDuplicate, cc_besides = None\<rparr>
      (e_location e) r) (\<lambda>holder. Inr (holder = None))"

definition paneShowing :: "('s, 'h) router_parts \<Rightarrow> split_location \<Rightarrow> ('s, 'h) router \<Rightarrow> claim_error + pane_id option" where
  "paneShowing parts location r =
    bind_result (holderFor parts \<lparr>cc_pane = None, cc_from = None, cc_allowDuplicate = False, cc_besides = None\<rparr> location r)
      (\<lambda>holder. Inr (case holder of None \<Rightarrow> None | Some h \<Rightarrow> if isPaneHolder h then ch_pane h else None))"

end
