(* ===== verification/Pane_Navigation.thy ===== *)
theory Pane_Navigation
  imports Router_Claims
begin

text \<open>
  What callers do within one pane, \<open>router/pane-navigation.ts\<close>: navigate, go through its history, change its search,
  edit its history.  An operation gives what it asks the runner for, with what the navigation's
  \<open>apply\<close> closes over; \<open>applyVisitNavigation\<close> is that \<open>apply\<close>.  Operations run when the runner lets pane
  actions run, and see the state of that moment.
\<close>

section \<open>Visits\<close>

datatype visit_history =
    VisitPush
  | VisitReplace
  | VisitGo int
  | VisitReset "entry list" int

record visit =
  vi_history :: visit_history
  vi_arrival :: "pane_arrival option"

definition PUSH :: visit where "PUSH = \<lparr>vi_history = VisitPush, vi_arrival = Some Fresh\<rparr>"

definition REPLACE :: visit where "REPLACE = \<lparr>vi_history = VisitReplace, vi_arrival = Some Replaced\<rparr>"

definition stepVisit :: "int \<Rightarrow> pane_arrival \<Rightarrow> visit" where
  "stepVisit i arrival = \<lparr>vi_history = VisitGo i, vi_arrival = Some arrival\<rparr>"

definition visitWriteMode :: "visit_history \<Rightarrow> write_mode" where
  "visitWriteMode history = (if history = VisitPush then ModePush else ModeReplace)"

fun historyChange :: "visit_history \<Rightarrow> entry \<Rightarrow> history_error + (js_value, entry_rest) pane_change" where
  "historyChange VisitPush e = Inr (Push e)"
| "historyChange VisitReplace e = Inr (Replace e)"
| "historyChange (VisitGo i) e = Inr (Go i e)"
| "historyChange (VisitReset es i) e = (case js_with es i e of Inl err \<Rightarrow> Inl err | Inr es1 \<Rightarrow> Inr (Reset es1 i))"

text \<open>What a visit's \<open>apply\<close> closes over.\<close>

record visit_commit =
  vc_pane :: pane_id
  vc_from :: "entry option"
  vc_allowDuplicate :: bool
  vc_visit :: visit

definition visit_check :: "visit_commit \<Rightarrow> claim_check" where
  "visit_check vc = \<lparr>cc_pane = Some (vc_pane vc), cc_from = vc_from vc, cc_allowDuplicate = vc_allowDuplicate vc, cc_besides = None\<rparr>"

definition applyVisit ::
  "('s, 'h) router_parts \<Rightarrow> pane_id \<Rightarrow> visit \<Rightarrow> entry \<Rightarrow> ('s, 'h) router \<Rightarrow>
   (router_error, navigation_result, ('s, 'h) router) outcome" where
  "applyVisit parts pane v e r =
    (case historyChange (vi_history v) e of
       Inl err \<Rightarrow> (Inl (UrlStore (HistoryError err)), r)
     | Inr change \<Rightarrow>
         and_then (lift_panes (panes_commit (rp_store parts) pane change (vi_arrival v) (rt_panes r)) r) (\<lambda>_ r1.
         and_then (url_write parts (visitWriteMode (vi_history v)) None r1) (\<lambda>_ r2. (Inr (NavCommitted pane), r2))))"

definition applyVisitNavigation ::
  "('s, 'h) router_parts \<Rightarrow> visit_commit \<Rightarrow> entry list \<Rightarrow> ('s, 'h) router \<Rightarrow>
   (router_error, navigation_result, ('s, 'h) router) outcome" where
  "applyVisitNavigation parts vc es r =
    (case es of
       [] \<Rightarrow> (Inl NoEntryGiven, r)
     | e # _ \<Rightarrow>
         applyUnlessHeld parts (visit_check vc) (visitWriteMode (vi_history (vc_visit vc))) e
           (applyVisit parts (vc_pane vc) (vc_visit vc) e) r)"

text \<open>What an operation asks for.\<close>

datatype visit_request =
    Answer navigation_result
  | StartVisit navigation visit_commit
  | CommitNow navigation visit_commit
  | StartLocation navigation entry_diff write_mode

definition visitNavigation ::
  "pane_target \<Rightarrow> visit \<Rightarrow> nav_cause \<Rightarrow> bool \<Rightarrow> navigation \<times> visit_commit" where
  "visitNavigation target v cause allowDuplicate =
    (\<lparr>nv_cause = cause, nv_targets = [target], nv_removed = [], nv_externalSearch = None\<rparr>,
     \<lparr>vc_pane = pt_pane target, vc_from = pt_from target, vc_allowDuplicate = allowDuplicate, vc_visit = v\<rparr>)"

definition start_visit :: "pane_target \<Rightarrow> visit \<Rightarrow> nav_cause \<Rightarrow> bool \<Rightarrow> visit_request" where
  "start_visit target v cause allowDuplicate =
    (case visitNavigation target v cause allowDuplicate of (nav, vc) \<Rightarrow> StartVisit nav vc)"

section \<open>Where a visit may go\<close>

definition root_of :: "split_location \<Rightarrow> ustring" where
  "root_of l = m_id (hd (l_route l))"

definition leavesSharedRoute ::
  "('s, 'h) router_parts \<Rightarrow> pane_id option \<Rightarrow> split_location \<Rightarrow> ('s, 'h) router \<Rightarrow> bool" where
  "leavesSharedRoute parts pane location r \<longleftrightarrow>
    list_ex (\<lambda>other. Some other \<noteq> pane \<and>
      (case router_current parts other r of None \<Rightarrow> False | Some e \<Rightarrow> root_of (e_location e) \<noteq> root_of location)) (ids (rt_panes r))"

definition visitableIn ::
  "('s, 'h) router_parts \<Rightarrow> pane_id \<Rightarrow> bool \<Rightarrow> ('s, 'h) router \<Rightarrow> entry \<Rightarrow> claim_error + bool" where
  "visitableIn parts pane allowDuplicate r e =
    bind_result (canVisit parts pane allowDuplicate r e) (\<lambda>ok.
      Inr (ok \<and> \<not> leavesSharedRoute parts (Some pane) (e_location e) r))"

text \<open>
  A search through the history with a predicate that may throw: the entries it was asked about are those
  between the cursor and the result, and the first of them that throws ends the search.
\<close>

definition asked_entries :: "(js_value, entry_rest) pane_snapshot \<Rightarrow> bool \<Rightarrow> int option \<Rightarrow> entry list" where
  "asked_entries s forward found =
    (let n = int (length (entries s));
         positions = (if forward then [index s + 1 .. (case found of None \<Rightarrow> n - 1 | Some i \<Rightarrow> i)]
                      else rev [(case found of None \<Rightarrow> 0 | Some i \<Rightarrow> i) .. index s - 1])
     in concat (map (\<lambda>i. case js_at (entries s) i of None \<Rightarrow> [] | Some e \<Rightarrow> [e]) positions))"

definition first_thrown :: "(entry \<Rightarrow> 'e + bool) \<Rightarrow> entry list \<Rightarrow> 'e option" where
  "first_thrown visit es = (case List.find (\<lambda>e. isl (visit e)) es of None \<Rightarrow> None | Some e \<Rightarrow> Some (projl (visit e)))"

definition findStep_try ::
  "(js_value, entry_rest) pane_snapshot \<Rightarrow> js_number \<Rightarrow> (entry \<Rightarrow> 'e + bool) \<Rightarrow>
   'e + (js_value, entry_rest) history_target option" where
  "findStep_try s delta visit =
    (case delta of
       NonIntegral \<Rightarrow> Inr None
     | Integral d \<Rightarrow>
         if \<not> isSafeInteger (nat \<bar>d\<bar>) \<or> d = 0 then Inr None
         else
          (let found = findStep s delta (\<lambda>e. visit e = Inr True)
           in case first_thrown visit (asked_entries s (0 < d) (map_option snd found)) of
                Some err \<Rightarrow> Inl err
              | None \<Rightarrow> Inr found))"

section \<open>Operations\<close>

record navigate_options =
  no_entry :: entry_options
  no_replace :: bool
  no_search :: "(ustring \<times> search_update) list"
  no_allowDuplicate :: bool
  no_depth :: "nat option"

definition noOptions :: navigate_options where
  "noOptions = \<lparr>no_entry = \<lparr>eo_state = None, eo_props = None, eo_keepProps = False, eo_meta = None\<rparr>, no_replace = False,
     no_search = [], no_allowDuplicate = False, no_depth = None\<rparr>"

text \<open>\<open>resolve\<close>: a search value that is too long refuses the navigation, other errors are thrown.\<close>

definition resolve_in ::
  "('s, 'h) router_parts \<Rightarrow> entry option \<Rightarrow> navigation_target \<Rightarrow> navigate_options \<Rightarrow> route_error + split_location option" where
  "resolve_in parts base to options =
    (case resolveTarget (toLower (rp_env parts)) (rp_routes parts) (map_option e_location base) to (no_depth options) (no_search options) of
       Inl (SearchValueTooLong f) \<Rightarrow> Inr None
     | result \<Rightarrow> result)"

definition isUnchanged :: "('s, 'h) router_parts \<Rightarrow> pane_id \<Rightarrow> entry \<Rightarrow> entry \<Rightarrow> ('s, 'h) router \<Rightarrow> bool" where
  "isUnchanged parts pane from e r \<longleftrightarrow>
    \<not> (case e_props e of
         None \<Rightarrow> False
       | Some p \<Rightarrow> (case e_props from of None \<Rightarrow> True | Some q \<Rightarrow> \<not> same_props (rp_env parts) p q)) \<and>
    sameVisit (rp_env parts) from e \<and> rt_inFlight r pane = None"

definition visitLocation ::
  "('s, 'h) router_parts \<Rightarrow> ustring \<Rightarrow> pane_id \<Rightarrow> entry \<Rightarrow> split_location \<Rightarrow> navigate_options \<Rightarrow> ('s, 'h) router \<Rightarrow>
   router_error + visit_request" where
  "visitLocation parts newId pane from location options r =
    (case createEntry (rp_env parts) newId (rp_routes parts) location (Some from) (no_entry options) of
       Inl err \<Rightarrow> Inl (UrlEntry err)
     | Inr e \<Rightarrow>
         Inr (if isUnchanged parts pane from e r then Answer (NavUnchanged pane)
              else start_visit \<lparr>pt_pane = pane, pt_from = Some from, pt_to = e\<rparr> (if no_replace options then REPLACE else PUSH)
                CauseNavigate (no_allowDuplicate options)))"

definition navigateToTarget ::
  "('s, 'h) router_parts \<Rightarrow> ustring \<Rightarrow> pane_id \<Rightarrow> entry \<Rightarrow> navigation_target \<Rightarrow> navigate_options \<Rightarrow> ('s, 'h) router \<Rightarrow>
   (router_error + visit_request) \<times> ('s, 'h) router" where
  "navigateToTarget parts newId pane from to options r =
    (case resolve_in parts (Some from) to options of
       Inl err \<Rightarrow> (Inl (UrlRoute err), r)
     | Inr None \<Rightarrow> (Inr (Answer NavCancelled), r)
     | Inr (Some location) \<Rightarrow>
         if leavesSharedRoute parts (Some pane) location r then
           (case navigateToLocation parts newId location (no_entry options) r of
              (Inl err, r1) \<Rightarrow> (Inl err, r1)
            | (Inr (nav, d), r1) \<Rightarrow> (Inr (StartLocation nav d (if no_replace options then ModeReplace else ModePush)), r1))
         else (visitLocation parts newId pane from location options r, r))"

definition traverse ::
  "('s, 'h) router_parts \<Rightarrow> pane_id \<Rightarrow> entry \<Rightarrow> js_number \<Rightarrow> bool \<Rightarrow> ('s, 'h) router \<Rightarrow> router_error + visit_request" where
  "traverse parts pane from delta allowDuplicate r =
    (case st_read (rp_store parts) pane (store (rt_panes r)) of
       None \<Rightarrow> Inr (Answer NavCancelled)
     | Some s \<Rightarrow>
         (case findStep_try s delta (visitableIn parts pane allowDuplicate r) of
            Inl err \<Rightarrow> Inl (UrlClaim err)
          | Inr None \<Rightarrow> Inr (Answer NavCancelled)
          | Inr (Some (e, i)) \<Rightarrow>
              Inr (start_visit \<lparr>pt_pane = pane, pt_from = Some from, pt_to = e\<rparr>
                (stepVisit i (case delta of Integral d \<Rightarrow> if d < 0 then Back else Forward | NonIntegral \<Rightarrow> Forward))
                CauseHistory allowDuplicate)))"

text \<open>\<open>findBack\<close> with a test of the caller, which is asked only about entries the pane may visit.\<close>

definition backStep ::
  "('s, 'h) router_parts \<Rightarrow> pane_id \<Rightarrow> (entry \<Rightarrow> bool) \<Rightarrow> ('s, 'h) router \<Rightarrow>
   router_error + (js_value, entry_rest) history_target option" where
  "backStep parts pane test r =
    (case st_read (rp_store parts) pane (store (rt_panes r)) of
       None \<Rightarrow> Inr None
     | Some s \<Rightarrow>
         (let visit = visitableIn parts pane False r
          in case findBack s test (\<lambda>e. visit e = Inr True) of
               Inl err \<Rightarrow> Inl (UrlStore (HistoryError err))
             | Inr found \<Rightarrow>
                 (case first_thrown visit (asked_entries s False (map_option snd found)) of
                    Some err \<Rightarrow> Inl (UrlClaim err)
                  | None \<Rightarrow> Inr found)))"

definition jumpBack :: "pane_id \<Rightarrow> entry \<Rightarrow> (js_value, entry_rest) history_target \<Rightarrow> visit_request" where
  "jumpBack pane from target =
    start_visit \<lparr>pt_pane = pane, pt_from = Some from, pt_to = fst target\<rparr> (stepVisit (snd target) Back) CauseHistory False"

definition searchLocation ::
  "routes_manifest \<Rightarrow> entry \<Rightarrow> ustring \<Rightarrow> search_update \<Rightarrow> route_error + split_location" where
  "searchLocation routes from namespace upd =
    bind_result (updateSearchState (e_location from) [(namespace, upd)]) (\<lambda>updated.
    bind_result (filterRouteSearch routes (l_route updated) (l_search updated)) (\<lambda>search.
      Inr (locationOf (l_route updated) search)))"

definition search_visit :: "write_mode \<Rightarrow> visit" where
  "search_visit mode = \<lparr>vi_history = (if mode = ModePush then VisitPush else VisitReplace), vi_arrival = None\<rparr>"

definition changeSearch ::
  "('s, 'h) router_parts \<Rightarrow> ustring \<Rightarrow> pane_id \<Rightarrow> entry \<Rightarrow> ustring \<Rightarrow> search_update \<Rightarrow> write_mode \<Rightarrow> ('s, 'h) router \<Rightarrow>
   router_error + visit_request" where
  "changeSearch parts newId pane from namespace upd mode r =
    (case searchLocation (rp_routes parts) from namespace upd of
       Inl (SearchValueTooLong f) \<Rightarrow> Inr (Answer NavCancelled)
     | Inl err \<Rightarrow> Inl (UrlRoute err)
     | Inr location \<Rightarrow>
         (let to = searchVisitEntry newId from location mode
          in Inr (if isUnchanged parts pane from to r then Answer (NavUnchanged pane)
                  else start_visit \<lparr>pt_pane = pane, pt_from = Some from, pt_to = to\<rparr> (search_visit mode) CauseSearch False)))"

text \<open>No request when nothing matched: the caller is told false.  Otherwise the pane's run is aborted first.\<close>

definition removeFromHistory ::
  "('s, 'h) router_parts \<Rightarrow> pane_id \<Rightarrow> (entry \<Rightarrow> bool) \<Rightarrow> ('s, 'h) router \<Rightarrow>
   (router_error + visit_request option) \<times> ('s, 'h) router" where
  "removeFromHistory parts pane test r =
    (case st_read (rp_store parts) pane (store (rt_panes r)) of
       None \<Rightarrow> (Inr None, r)
     | Some s \<Rightarrow>
         (case removeEntries s test of
            None \<Rightarrow> (Inr None, r)
          | Some next \<Rightarrow>
              if \<not> length (entries next) < length (entries s) then (Inr None, r)
              else
               (let r1 = log_effect (AbortRun pane) r
                in case (currentEntry s, currentEntry next) of
                     (Some from, Some to) \<Rightarrow>
                       (let history = VisitReset (entries next) (index next);
                            target = \<lparr>pt_pane = pane, pt_from = Some from, pt_to = to\<rparr>
                        in (Inr (Some (if e_id to = e_id from
                                  then (case visitNavigation target \<lparr>vi_history = history, vi_arrival = None\<rparr> CauseHistory False of
                                          (nav, vc) \<Rightarrow> CommitNow nav vc)
                                  else start_visit target (REPLACE\<lparr>vi_history := history\<rparr>) CauseHistory False)), r1))
                   | _ \<Rightarrow> (Inl (UrlStore (HistoryError UndefinedEntry)), r1))))"

section \<open>The interface of a pane\<close>

datatype pane_target_or_step = ToTarget navigation_target | ToStep js_number

definition pane_navigate ::
  "('s, 'h) router_parts \<Rightarrow> ustring \<Rightarrow> pane_id \<Rightarrow> pane_target_or_step \<Rightarrow> navigate_options \<Rightarrow> ('s, 'h) router \<Rightarrow>
   (router_error + visit_request) \<times> ('s, 'h) router" where
  "pane_navigate parts newId pane to options r =
    (case router_current parts pane r of
       None \<Rightarrow> (Inr (Answer NavCancelled), r)
     | Some from \<Rightarrow>
         (case to of
            ToStep delta \<Rightarrow> (traverse parts pane from delta (no_allowDuplicate options) r, r)
          | ToTarget t \<Rightarrow> navigateToTarget parts newId pane from t options r))"

definition pane_updateSearch ::
  "('s, 'h) router_parts \<Rightarrow> ustring \<Rightarrow> pane_id \<Rightarrow> ustring \<Rightarrow> search_update \<Rightarrow> write_mode \<Rightarrow> ('s, 'h) router \<Rightarrow>
   router_error + visit_request" where
  "pane_updateSearch parts newId pane namespace upd mode r =
    (case assertSafeSearchName namespace of
       Inl err \<Rightarrow> Inl (UrlRoute err)
     | Inr _ \<Rightarrow>
         (case router_current parts pane r of
            None \<Rightarrow> Inr (Answer NavCancelled)
          | Some from \<Rightarrow> changeSearch parts newId pane from namespace upd mode r))"

definition pane_goBackTo ::
  "('s, 'h) router_parts \<Rightarrow> pane_id \<Rightarrow> (entry \<Rightarrow> bool) \<Rightarrow> ('s, 'h) router \<Rightarrow> router_error + visit_request option" where
  "pane_goBackTo parts pane test r =
    (case router_current parts pane r of
       None \<Rightarrow> Inr None
     | Some from \<Rightarrow> bind_result (backStep parts pane test r) (\<lambda>step. Inr (map_option (jumpBack pane from) step)))"

definition pane_rewriteCurrent ::
  "('s, 'h) router_parts \<Rightarrow> pane_id \<Rightarrow> navigation_target \<Rightarrow> ('s, 'h) router \<Rightarrow> router_error + visit_request" where
  "pane_rewriteCurrent parts pane to r =
    (case router_current parts pane r of
       None \<Rightarrow> Inr (Answer NavCancelled)
     | Some from \<Rightarrow>
         (case resolve_in parts (Some from) to noOptions of
            Inl err \<Rightarrow> Inl (UrlRoute err)
          | Inr None \<Rightarrow> Inr (Answer NavCancelled)
          | Inr (Some location) \<Rightarrow>
              (case visitNavigation \<lparr>pt_pane = pane, pt_from = Some from, pt_to = with_location location from\<rparr> REPLACE CauseNavigate False of
                 (nav, vc) \<Rightarrow> Inr (CommitNow nav vc))))"

definition pane_canGo ::
  "('s, 'h) router_parts \<Rightarrow> pane_id \<Rightarrow> js_number \<Rightarrow> ('s, 'h) router \<Rightarrow> claim_error + bool" where
  "pane_canGo parts pane delta r =
    (case st_read (rp_store parts) pane (store (rt_panes r)) of
       None \<Rightarrow> Inr False
     | Some s \<Rightarrow> bind_result (findStep_try s delta (visitableIn parts pane False r)) (\<lambda>found. Inr (found \<noteq> None)))"

text \<open>\<open>carrySearch\<close>, once pane actions may run.\<close>

definition pane_carrySearch ::
  "('s, 'h) router_parts \<Rightarrow> ustring \<Rightarrow> pane_id \<Rightarrow> entry \<Rightarrow> write_mode \<Rightarrow> ('s, 'h) router \<Rightarrow> route_error + visit_request option" where
  "pane_carrySearch parts newId pane dest mode r =
    (case router_current parts pane r of
       None \<Rightarrow> Inr None
     | Some from \<Rightarrow>
         bind_result (mergeDestinationSearch (rp_env parts) (rp_routes parts) from dest) (\<lambda>location.
           Inr (map_option (\<lambda>l. start_visit \<lparr>pt_pane = pane, pt_from = Some from, pt_to = searchVisitEntry newId from l mode\<rparr>
             (search_visit mode) CauseSearch False) location)))"

end
