(* ===== verification/Pane_List.thy ===== *)
theory Pane_List
  imports Pane_Navigation
begin

text \<open>
  Which panes there are, \<open>router/pane-list.ts\<close>: opening a destination where the policy places it,
  closing a pane the way the policy decides, removing and moving panes, and \<open>apply\<close> of every
  kind of navigation together as \<open>apply_commit\<close>; with what the router offers beside the panes.
\<close>

section \<open>Data\<close>

datatype 'i open_target =
    IntoPane pane_id
  | NewPane "pane_id option" "'i option" \<comment> \<open>source, intent\<close>

type_synonym router_close = "(js_value, entry_rest, split_location) close_action"

record 'i list_policy =
  lp_placeNewPane :: "(split_location, 'i) full_place_request \<Rightarrow> placement"
  lp_emptyIntent :: 'i
  lp_closeAction :: "pane_id \<Rightarrow> pane_id list \<Rightarrow> router_close"

text \<open>What the \<open>apply\<close> of an open closes over.\<close>

record open_commit =
  oc_pane :: pane_id
  oc_besides :: "pane_id option"
  oc_allowDuplicate :: bool
  oc_insertAt :: int
  oc_decided :: "pane_id list"

text \<open>What an operation asks for; \<open>Declined\<close> tells the caller false.\<close>

datatype list_request =
    InPaneRequest visit_request
  | StartOpen navigation open_commit
  | StartRemove navigation pane_id
  | Declined

definition canonicalLocation :: "('s, 'h) router_parts \<Rightarrow> split_location \<Rightarrow> split_location option" where
  "canonicalLocation parts location =
    (case canonicalRoute (toLower (rp_env parts)) (rp_routes parts) (l_route location) of
       Inr (Some route) \<Rightarrow> Some (location\<lparr>l_route := route\<rparr>)
     | _ \<Rightarrow> None)"

section \<open>Opening\<close>

definition openBase :: "('s, 'h) router_parts \<Rightarrow> 'i open_target \<Rightarrow> ('s, 'h) router \<Rightarrow> entry option" where
  "openBase parts target r =
    (case (case target of IntoPane p \<Rightarrow> Some p | NewPane source _ \<Rightarrow> source) of
       None \<Rightarrow> None
     | Some pane \<Rightarrow> if pane = [] then None else router_current parts pane r)"

definition placementFor ::
  "('s, 'h) router_parts \<Rightarrow> 'i list_policy \<Rightarrow> split_location \<Rightarrow> 'i open_target \<Rightarrow> navigate_options \<Rightarrow> ('s, 'h) router \<Rightarrow>
   claim_error + placement \<times> pane_id option" where
  "placementFor parts policy location target options r =
    (case target of
       IntoPane p \<Rightarrow> Inr (InPane p, None)
     | NewPane source intent \<Rightarrow>
         bind_result (paneShowing parts location r) (\<lambda>holder.
           Inr (panes_placeNewPane (lp_placeNewPane policy) (lp_emptyIntent policy)
             \<lparr>pr_destination = location, pr_source = source, pr_intent = intent, pr_holder = holder,
              pr_allowDuplicate = Some (no_allowDuplicate options), pr_opening = Some (length (rt_opening r))\<rparr> (rt_panes r), holder)))"

definition openIn ::
  "('s, 'h) router_parts \<Rightarrow> ustring \<Rightarrow> pane_id \<Rightarrow> split_location \<Rightarrow> navigate_options \<Rightarrow> ('s, 'h) router \<Rightarrow>
   (router_error + list_request) \<times> ('s, 'h) router" where
  "openIn parts newId pane location options r =
    (case router_current parts pane r of
       None \<Rightarrow> (Inr (InPaneRequest (Answer NavCancelled)), r)
     | Some from \<Rightarrow>
         (case visitLocation parts newId pane from location options r of
            Inl err \<Rightarrow> (Inl err, r)
          | Inr (Answer (NavUnchanged _)) \<Rightarrow>
              (case reveal pane r of (result, r1) \<Rightarrow> (Inr (InPaneRequest (Answer result)), r1))
          | Inr q \<Rightarrow> (Inr (InPaneRequest q), r)))"

definition openNew ::
  "('s, 'h) router_parts \<Rightarrow> ustring \<Rightarrow> split_location \<Rightarrow> int \<Rightarrow> pane_id option \<Rightarrow> pane_id option \<Rightarrow> navigate_options \<Rightarrow>
   ('s, 'h) router \<Rightarrow> (router_error + list_request) \<times> ('s, 'h) router" where
  "openNew parts newId location insertAt besides source options r =
    (let pane = rp_paneId parts (paneIds_drawn (rt_panes r));
         r1 = r\<lparr>rt_panes := (rt_panes r)\<lparr>paneIds_drawn := paneIds_drawn (rt_panes r) + 1\<rparr>\<rparr>
     in case createEntry (rp_env parts) newId (rp_routes parts) location None (no_entry options) of
          Inl err \<Rightarrow> (Inl (UrlEntry err), r1)
        | Inr e \<Rightarrow>
            (Inr (StartOpen
               \<lparr>nv_cause = CauseNavigate, nv_targets = [\<lparr>pt_pane = pane, pt_from = None, pt_to = e\<rparr>], nv_removed = [],
                nv_externalSearch = None\<rparr>
               \<lparr>oc_pane = pane, oc_besides = besides, oc_allowDuplicate = no_allowDuplicate options, oc_insertAt = insertAt,
                oc_decided = ids (rt_panes r1)\<rparr>),
             r1\<lparr>rt_opening := rt_opening r1 @ [(pane, source)]\<rparr>))"

text \<open>Once the run that opens \<open>pane\<close> has settled.\<close>

definition opening_settled :: "pane_id \<Rightarrow> ('s, 'h) router \<Rightarrow> ('s, 'h) router" where
  "opening_settled pane r = r\<lparr>rt_opening := filter (\<lambda>item. fst item \<noteq> pane) (rt_opening r)\<rparr>"

definition pane_open ::
  "('s, 'h) router_parts \<Rightarrow> 'i list_policy \<Rightarrow> ustring \<Rightarrow> navigation_target \<Rightarrow> 'i open_target \<Rightarrow> navigate_options \<Rightarrow>
   ('s, 'h) router \<Rightarrow> (router_error + list_request) \<times> ('s, 'h) router" where
  "pane_open parts policy newId to target options r =
    (case resolve_in parts (openBase parts target r) to options of
       Inl err \<Rightarrow> (Inl (UrlRoute err), r)
     | Inr None \<Rightarrow> (Inr (InPaneRequest (Answer NavCancelled)), r)
     | Inr (Some location) \<Rightarrow>
         if leavesSharedRoute parts (case target of IntoPane p \<Rightarrow> Some p | NewPane _ _ \<Rightarrow> None) location r then
           (case navigateToLocation parts newId location (no_entry options) r of
              (Inl err, r1) \<Rightarrow> (Inl err, r1)
            | (Inr (nav, d), r1) \<Rightarrow>
                (Inr (InPaneRequest (StartLocation nav d (if no_replace options then ModeReplace else ModePush))), r1))
         else
           (case placementFor parts policy location target options r of
              Inl err \<Rightarrow> (Inl (UrlClaim err), r)
            | Inr (InPane p, holder) \<Rightarrow> openIn parts newId p location options r
            | Inr (InsertAt i, holder) \<Rightarrow>
                openNew parts newId location i holder (case target of IntoPane _ \<Rightarrow> None | NewPane source _ \<Rightarrow> source) options r))"

definition cancelOpeningFrom :: "pane_id \<Rightarrow> ('s, 'h) router \<Rightarrow> ('s, 'h) router" where
  "cancelOpeningFrom source r =
    fold (\<lambda>item. log_effect (AbortRun (fst item))) (filter (\<lambda>item. snd item = Some source) (rt_opening r))
      (r\<lparr>rt_opening := filter (\<lambda>item. snd item \<noteq> Some source) (rt_opening r)\<rparr>)"

section \<open>Closing\<close>

definition removePane :: "pane_id \<Rightarrow> list_request" where
  "removePane pane =
    StartRemove \<lparr>nv_cause = CauseNavigate, nv_targets = [], nv_removed = [pane], nv_externalSearch = None\<rparr> pane"

fun runCloseAction ::
  "('s, 'h) router_parts \<Rightarrow> ustring \<Rightarrow> pane_id \<Rightarrow> entry \<Rightarrow> router_close \<Rightarrow> ('s, 'h) router \<Rightarrow> router_error + list_request" where
  "runCloseAction parts newId pane from CloseKeep r = Inr Declined"
| "runCloseAction parts newId pane from CloseRemove r = Inr (removePane pane)"
| "runCloseAction parts newId pane from (CloseNavigate dest replace) r =
     (case canonicalLocation parts dest of
        None \<Rightarrow> Inr Declined
      | Some location \<Rightarrow>
          bind_result (visitLocation parts newId pane from location (noOptions\<lparr>no_replace := replace\<rparr>) r) (\<lambda>q. Inr (InPaneRequest q)))"
| "runCloseAction parts newId pane from (CloseBackTo test otherwise) r =
     bind_result (backStep parts pane test r) (\<lambda>step.
       case step of
         None \<Rightarrow> (case otherwise of None \<Rightarrow> Inr Declined | Some a \<Rightarrow> runCloseAction parts newId pane from a r)
       | Some target \<Rightarrow> Inr (InPaneRequest (jumpBack pane from target)))"

definition pane_close ::
  "('s, 'h) router_parts \<Rightarrow> 'i list_policy \<Rightarrow> ustring \<Rightarrow> pane_id \<Rightarrow> ('s, 'h) router \<Rightarrow> router_error + list_request" where
  "pane_close parts policy newId pane r =
    (case router_current parts pane r of
       None \<Rightarrow> Inr Declined
     | Some from \<Rightarrow> runCloseAction parts newId pane from (panes_closeAction (lp_closeAction policy) pane (rt_panes r)) r)"

definition pane_remove :: "('s, 'h) router_parts \<Rightarrow> pane_id \<Rightarrow> ('s, 'h) router \<Rightarrow> list_request" where
  "pane_remove parts pane r = (if router_current parts pane r = None then Declined else removePane pane)"

section \<open>Applying navigations\<close>

definition applyOpen ::
  "('s, 'h) router_parts \<Rightarrow> open_commit \<Rightarrow> entry list \<Rightarrow> ('s, 'h) router \<Rightarrow>
   (router_error, navigation_result, ('s, 'h) router) outcome" where
  "applyOpen parts oc es r =
    (case es of
       [] \<Rightarrow> (Inl NoEntryGiven, r)
     | e # _ \<Rightarrow>
         applyUnlessHeld parts
           \<lparr>cc_pane = Some (oc_pane oc), cc_from = None, cc_allowDuplicate = oc_allowDuplicate oc, cc_besides = oc_besides oc\<rparr>
           ModePush e
           (\<lambda>r. and_then
              (url_write parts ModePush None
                (r\<lparr>rt_panes := panes_insert (rp_store parts) (oc_pane oc) e (oc_insertAt oc) (Some (oc_decided oc)) (rt_panes r)\<rparr>))
              (\<lambda>_ r1. (Inr (NavCommitted (oc_pane oc)), r1))) r)"

definition applyRemove ::
  "('s, 'h) router_parts \<Rightarrow> pane_id \<Rightarrow> ('s, 'h) router \<Rightarrow> (router_error, navigation_result, ('s, 'h) router) outcome" where
  "applyRemove parts pane r =
    and_then (url_write parts ModePush None (r\<lparr>rt_panes := panes_remove (rp_store parts) pane (rt_panes r)\<rparr>))
      (\<lambda>_ r1. (Inr (NavCommitted pane), r1))"

definition applyMove ::
  "('s, 'h) router_parts \<Rightarrow> pane_id \<Rightarrow> int \<Rightarrow> ('s, 'h) router \<Rightarrow> (router_error, navigation_result, ('s, 'h) router) outcome" where
  "applyMove parts pane to r =
    (case panes_move pane to (rt_panes r) of
       (moved, p) \<Rightarrow>
         and_then (if moved then url_write parts ModePush None (r\<lparr>rt_panes := p\<rparr>) else (Inr (), r\<lparr>rt_panes := p\<rparr>))
           (\<lambda>_ r1. (Inr (NavCommitted pane), r1)))"

datatype router_commit =
    CommitVisit visit_commit
  | CommitUrl entry_diff write_mode "external_location option"
  | CommitOpen open_commit
  | CommitRemove pane_id
  | CommitMove pane_id int

fun apply_commit ::
  "('s, 'h) router_parts \<Rightarrow> router_commit \<Rightarrow> entry list \<Rightarrow> ('s, 'h) router \<Rightarrow>
   (router_error, navigation_result, ('s, 'h) router) outcome" where
  "apply_commit parts (CommitVisit vc) es r = applyVisitNavigation parts vc es r"
| "apply_commit parts (CommitUrl d mode landed) es r = applyUrl parts d mode landed es r"
| "apply_commit parts (CommitOpen oc) es r = applyOpen parts oc es r"
| "apply_commit parts (CommitRemove pane) es r = applyRemove parts pane r"
| "apply_commit parts (CommitMove pane to) es r = applyMove parts pane to r"

section \<open>From the base\<close>

text \<open>
  The remaining operations of \<open>url-navigation.ts\<close>, which give a navigation and what its \<open>apply\<close> closes over: the first
  load, a link that is handled before it lands, and a navigation of the router as a whole, whose
  path the platform's URL parser takes apart.
\<close>

definition url_commit ::
  "write_mode \<Rightarrow> external_location \<Rightarrow> (route_error + navigation \<times> entry_diff) \<times> ('s, 'h) router \<Rightarrow>
   (route_error + navigation \<times> router_commit) \<times> ('s, 'h) router" where
  "url_commit mode location out =
    ((case fst out of Inl e \<Rightarrow> Inl e | Inr (nav, d) \<Rightarrow> Inr (nav, CommitUrl d mode (Some location))), snd out)"

definition load ::
  "('s, 'h) router_parts \<Rightarrow> (nat \<Rightarrow> ustring) \<Rightarrow> external_location \<Rightarrow> ('s, 'h) router \<Rightarrow>
   (route_error + navigation \<times> router_commit) \<times> ('s, 'h) router" where
  "load parts fresh location r = url_commit ModeReplace location (navigationTo parts fresh location CauseInitial r)"

definition takeOver ::
  "('s, 'h) router_parts \<Rightarrow> (nat \<Rightarrow> ustring) \<Rightarrow> external_location \<Rightarrow> ('s, 'h) router \<Rightarrow>
   (route_error + navigation \<times> router_commit) \<times> ('s, 'h) router" where
  "takeOver parts fresh location r = url_commit ModePush location (navigationTo parts fresh location CauseExternal r)"

definition option_mode :: "navigate_options \<Rightarrow> write_mode" where
  "option_mode options = (if no_replace options then ModeReplace else ModePush)"

definition url_navigate ::
  "('s, 'h) router_parts \<Rightarrow> (ustring \<Rightarrow> external_location) \<Rightarrow> (nat \<Rightarrow> ustring) \<Rightarrow> ustring \<Rightarrow> navigation_target \<Rightarrow>
   navigate_options \<Rightarrow> ('s, 'h) router \<Rightarrow> (router_error + (navigation \<times> router_commit) option) \<times> ('s, 'h) router" where
  "url_navigate parts parse fresh newId to options r =
    (case to of
       ToPath path \<Rightarrow>
         (case url_commit (option_mode options) (parse path) (navigationTo parts fresh (parse path) CauseNavigate r) of
            (Inl e, r1) \<Rightarrow> (Inl (UrlRoute e), r1)
          | (Inr asked, r1) \<Rightarrow> (Inr (Some asked), r1))
     | _ \<Rightarrow>
         (case resolveTarget (toLower (rp_env parts)) (rp_routes parts) None to (no_depth options) (no_search options) of
            Inl e \<Rightarrow> (Inl (UrlRoute e), r)
          | Inr None \<Rightarrow> (Inr None, r)
          | Inr (Some location) \<Rightarrow>
              (case navigateToLocation parts newId location (no_entry options) r of
                 (Inl e, r1) \<Rightarrow> (Inl e, r1)
               | (Inr (nav, d), r1) \<Rightarrow> (Inr (Some (nav, CommitUrl d (option_mode options) None)), r1))))"

text \<open>\<open>cancelNavigation\<close> of the router: what the pane has in flight, and the new panes asked for from it.\<close>

definition cancelNavigation :: "pane_id \<Rightarrow> ('s, 'h) router \<Rightarrow> ('s, 'h) router" where
  "cancelNavigation pane r = cancelOpeningFrom pane (log_effect (AbortRun pane) r)"

end
