(* ===== verification/Router_Sync.thy ===== *)
theory Router_Sync
  imports Pane_List
begin

text \<open>
  What navigations keep, whatever order they are applied in: the open panes are well-formed, the URL shows them, and
  what the router takes for the URL is what the history adapter has; a resource is claimed by one
  pane; and the URL that the panes have brings the same panes back after a reload.
\<close>

section \<open>The URL shows the panes\<close>

definition shown_at :: "('s, 'h) router_parts \<Rightarrow> ('s, 'h) router \<Rightarrow> external_location \<Rightarrow> bool" where
  "shown_at parts r l \<longleftrightarrow> shownPanes parts r = [] \<or>
    (\<exists>basis keep loc. encodePanes (rp_routes parts) (shownPanes parts r) basis keep = Inr loc \<and>
       sameExternalLocation (deq_value (rp_env parts)) loc l)"

definition url_shows :: "('s, 'h) router_parts \<Rightarrow> ('s, 'h) router \<Rightarrow> bool" where
  "url_shows parts r \<longleftrightarrow> shown_at parts r (rt_lastKnown r)"

definition url_known :: "('s, 'h) router_parts \<Rightarrow> ('h \<Rightarrow> bool) \<Rightarrow> ('h \<Rightarrow> external_location) \<Rightarrow> ('s, 'h) router \<Rightarrow> bool" where
  "url_known parts hinv shows_l r \<longleftrightarrow> hinv (rt_history r) \<and>
    sameExternalLocation (deq_value (rp_env parts)) (shows_l (rt_history r)) (rt_lastKnown r)"

text \<open>A value is deeply equal to itself.\<close>

definition deq_reflexive :: "router_env \<Rightarrow> bool" where
  "deq_reflexive env \<longleftrightarrow> (\<forall>v. deq_value env v v)"

lemma shownPanes_cong: "rt_panes r' = rt_panes r \<Longrightarrow> shownPanes parts r' = shownPanes parts r"
  by (simp add: shownPanes_def router_current_def)

lemma shown_at_cong: "rt_panes r' = rt_panes r \<Longrightarrow> shown_at parts r' l = shown_at parts r l"
  using shownPanes_cong[of r' r] by (simp add: shown_at_def)

lemma url_shows_cong:
  "rt_panes r' = rt_panes r \<Longrightarrow> rt_lastKnown r' = rt_lastKnown r \<Longrightarrow> url_shows parts r' = url_shows parts r"
  using shown_at_cong[of r' r] by (simp add: url_shows_def)

lemma same_location_refl: "deq_reflexive env \<Longrightarrow> sameExternalLocation (deq_value env) l l"
  by (simp add: sameExternalLocation_def deq_reflexive_def)

lemma url_write_only:
  "url_write parts mode landed r = (res, r') \<Longrightarrow> r' = r\<lparr>rt_history := rt_history r', rt_lastKnown := rt_lastKnown r'\<rparr>"
  by (auto simp: url_write_def Let_def split: if_splits sum.splits option.splits)

context history_laws
begin

lemma url_write_ok:
  assumes "url_write parts mode landed r = (Inr (), r')" and "rp_adapter parts = adapter"
    and "url_known parts hinv shows_location r" and "deq_reflexive (rp_env parts)"
  shows "url_shows parts r' \<and> url_known parts hinv shows_location r' \<and> rt_panes r' = rt_panes r"
proof -
  let ?shown = "shownPanes parts r" and ?basis = "case landed of None \<Rightarrow> rt_lastKnown r | Some l \<Rightarrow> l"
  consider (none) "?shown = []" "r' = r"
    | (kept) nl where "encodePanes (rp_routes parts) ?shown ?basis (landed \<noteq> None) = Inr nl" "r' = r"
        "sameExternalLocation (deq_value (rp_env parts)) nl (rt_lastKnown r)"
    | (written) nl h where "encodePanes (rp_routes parts) ?shown ?basis (landed \<noteq> None) = Inr nl"
        "ha_write (rp_adapter parts) nl mode (rt_history r) = Some h" "r' = r\<lparr>rt_history := h, rt_lastKnown := nl\<rparr>"
  proof (cases "?shown = []")
    case True
    have "r' = r" using assms(1) by (simp add: url_write_def True)
    then show thesis by (rule none[OF True])
  next
    case False
    have "\<not> isl (encodePanes (rp_routes parts) ?shown ?basis (landed \<noteq> None))"
      using assms(1) False by (auto simp: url_write_def Let_def isl_def)
    then obtain nl where e: "encodePanes (rp_routes parts) ?shown ?basis (landed \<noteq> None) = Inr nl"
      by (cases "encodePanes (rp_routes parts) ?shown ?basis (landed \<noteq> None)") auto
    show thesis
    proof (cases "sameExternalLocation (deq_value (rp_env parts)) nl (rt_lastKnown r)")
      case True
      have "r' = r" using assms(1) e by (simp add: url_write_def Let_def False True)
      then show thesis by (rule kept[OF e _ True])
    next
      case F: False
      obtain h where h: "ha_write (rp_adapter parts) nl mode (rt_history r) = Some h"
        using assms(1) e by (cases "ha_write (rp_adapter parts) nl mode (rt_history r)") (simp_all add: url_write_def Let_def False F)
      have "r' = r\<lparr>rt_history := h, rt_lastKnown := nl\<rparr>" using assms(1) e by (simp add: url_write_def Let_def False F h)
      then show thesis by (rule written[OF e h])
    qed
  qed
  then show ?thesis
  proof cases
    case none
    then show ?thesis using assms(3) by (simp add: url_shows_def shown_at_def)
  next
    case kept
    then show ?thesis using assms(3) unfolding url_shows_def shown_at_def by blast
  next
    case written
    have h: "hinv (rt_history r)" using assms(3) by (simp add: url_known_def)
    note w = written(2)[unfolded assms(2)]
    have "shownPanes parts r' = ?shown" by (rule shownPanes_cong) (simp add: written(3))
    then have "url_shows parts r'"
      using written(1,3) same_location_refl[OF assms(4)] unfolding url_shows_def shown_at_def by fastforce
    moreover have "url_known parts hinv shows_location r'"
      using written(3) shows_write[OF h w] inv_write[OF h w] same_location_refl[OF assms(4)] by (simp add: url_known_def)
    ultimately show ?thesis using written(3) by simp
  qed
qed

end

section \<open>What a commit keeps\<close>

definition router_inv :: "((js_value, entry_rest) stored, 'h) router_parts \<Rightarrow> ('h \<Rightarrow> bool) \<Rightarrow> ('h \<Rightarrow> external_location) \<Rightarrow>
    ((js_value, entry_rest) stored, 'h) router \<Rightarrow> bool" where
  "router_inv parts hinv shows_l r \<longleftrightarrow> panes_inv memory_store ms_inv (rt_panes r) \<and> url_known parts hinv shows_l r"

text \<open>
  What the operations hand to \<open>apply\<close>: a history to reset to has the index, a diff is one of the panes as they are, with an
  entry for each changed pane, and a new pane has a new id.
\<close>

fun valid_commit ::
  "((js_value, entry_rest) stored, 'h) router_parts \<Rightarrow> router_commit \<Rightarrow> entry list \<Rightarrow>
   ((js_value, entry_rest) stored, 'h) router \<Rightarrow> bool" where
  "valid_commit parts (CommitVisit vc) es r =
     (case vi_history (vc_visit vc) of VisitReset hs i \<Rightarrow> hasIndex hs i | _ \<Rightarrow> True)"
| "valid_commit parts (CommitUrl d mode landed) es r =
     ((\<exists>incoming r0. panes_inv memory_store ms_inv (rt_panes r0) \<and>
         fresh_supply (rp_paneId parts) (paneIds_drawn (rt_panes r0)) (known_ids (live_of memory_store (rt_panes r0)) incoming) \<and>
         router_diff parts incoming r0 = (d, r)) \<and>
      length es = length (changedPanes d))"
| "valid_commit parts (CommitOpen oc) es r = (oc_pane oc \<notin> set (ids (rt_panes r)))"
| "valid_commit parts (CommitRemove pane) es r = True"
| "valid_commit parts (CommitMove pane to) es r = True"

lemma and_then_Inr: "and_then out f = (Inr b, s) \<longleftrightarrow> (\<exists>a s1. out = (Inr a, s1) \<and> f a s1 = (Inr b, s))"
  by (cases out; cases "fst out") (auto simp: and_then_def)

lemma lift_panes_Inr:
  "lift_panes out r = (Inr a, r') \<longleftrightarrow> (\<exists>p. out = (Inr a, p) \<and> r' = r\<lparr>rt_panes := p\<rparr>)"
  by (cases out; cases "fst out") (auto simp: lift_panes_def)

lemma commit_keeps_panes:
  assumes "panes_inv memory_store ms_inv p" and "panes_commit memory_store pane c a p = (Inr (), p')"
    and "\<And>s. change_ok s c \<or> (\<exists>i e. c = Go i e)"
  shows "panes_inv memory_store ms_inv p' \<and> ids p' = ids p \<and> pane \<in> set (ids p) \<and>
    panes_current memory_store pane p' = Some (change_lands_on c)"
proof -
  obtain t where t: "st_apply memory_store pane c (store p) = (Inr (), t)"
    using assms(2) by (auto simp: panes_commit_def and_then_Inr storeApply_def split: prod.splits)
  then obtain s s' where s: "ms_read pane (store p) = Some s" "applyHistoryChange s c = Inr s'"
    by (auto simp: memory_store_def ms_apply_def split: option.splits sum.splits)
  have "change_ok s c"
    using assms(3)[of s] s(2) by (auto simp: hasIndex_def split: if_splits)
  moreover have r: "st_read memory_store pane (store p) = Some s" using s(1) by (simp add: memory_store_def)
  ultimately obtain p1 where "panes_commit memory_store pane c a p = (Inr (), p1)" "panes_inv memory_store ms_inv p1"
      "ids p1 = ids p" "panes_current memory_store pane p1 = Some (change_lands_on c)"
    using mem.commit_inv[OF assms(1)] by blast
  moreover have "pane \<in> set (ids p)" using assms(1) r by (auto simp: panes_inv_def)
  ultimately show ?thesis using assms(2) by simp
qed

lemma historyChange_ok:
  assumes "historyChange history e = Inr c"
    and "case history of VisitReset hs i \<Rightarrow> hasIndex hs i | _ \<Rightarrow> True"
  shows "change_lands_on c = e \<and> (change_ok s c \<or> (\<exists>i e. c = Go i e))"
  using assms by (cases history) (auto simp: hasIndex_def split: sum.splits)

text \<open>A commit that goes through either hands the visit to the holder of its claim, changing no pane, or changes the panes and writes the URL.\<close>

lemma applyUnlessHeld_cases [consumes 1, case_names held free]:
  assumes "applyUnlessHeld parts check mode e f r = (Inr res, r')"
  obtains (held) h where "holderFor parts check (e_location e) r = Inr (Some h)" "res = NavActivated (ch_owner h)"
      "rt_panes r' = rt_panes r" "rt_lastKnown r' = rt_lastKnown r" "rt_history r' = rt_history r" "rt_sources r' = rt_sources r"
    | (free) "holderFor parts check (e_location e) r = Inr None" "f r = (Inr res, r')"
proof -
  consider "holderFor parts check (e_location e) r = Inr None"
    | h where "holderFor parts check (e_location e) r = Inr (Some h)"
    using assms by (auto simp: applyUnlessHeld_def split: sum.splits option.splits)
  then show thesis
  proof cases
    case 1
    then show thesis using assms free by (simp add: applyUnlessHeld_def)
  next
    case 2
    then have "yieldTo parts h e mode r = (Inr res, r')" using assms by (simp add: applyUnlessHeld_def)
    then have "res = NavActivated (ch_owner h) \<and> rt_panes r' = rt_panes r \<and> rt_lastKnown r' = rt_lastKnown r \<and>
        rt_history r' = rt_history r \<and> rt_sources r' = rt_sources r"
      by (auto simp: yieldTo_def log_effect_def bind_result_Inr split: sum.splits if_splits)
    then show thesis using held[OF 2] by blast
  qed
qed

text \<open>Writing after the panes were set.\<close>

context history_laws
begin

lemma set_and_write:
  assumes "url_write parts mode landed (r\<lparr>rt_panes := p\<rparr>) = (Inr (), r')" and "panes_inv memory_store ms_inv p"
    and "url_known parts hinv shows_location r" and "rp_adapter parts = adapter" and "deq_reflexive (rp_env parts)"
  shows "router_inv parts hinv shows_location r' \<and> url_shows parts r' \<and> rt_panes r' = p"
proof -
  have "url_known parts hinv shows_location (r\<lparr>rt_panes := p\<rparr>)" using assms(3) by (simp add: url_known_def)
  from url_write_ok[OF assms(1,4) this assms(5)] show ?thesis using assms(2) by (simp add: router_inv_def)
qed

lemma visit_kept:
  assumes "applyVisit parts pane v e r = (Inr res, r')" and "router_inv parts hinv shows_location r"
    and "case vi_history v of VisitReset hs i \<Rightarrow> hasIndex hs i | _ \<Rightarrow> True"
    and "rp_store parts = memory_store" and "rp_adapter parts = adapter" and "deq_reflexive (rp_env parts)"
  shows "router_inv parts hinv shows_location r' \<and> url_shows parts r' \<and> res = NavCommitted pane \<and> ids (rt_panes r') = ids (rt_panes r) \<and>
    pane \<in> set (ids (rt_panes r)) \<and> router_current parts pane r' = Some e \<and>
    (\<exists>c. panes_commit memory_store pane c (vi_arrival v) (rt_panes r) = (Inr (), rt_panes r'))"
proof -
  obtain c where c: "historyChange (vi_history v) e = Inr c"
    using assms(1) by (cases "historyChange (vi_history v) e") (auto simp: applyVisit_def)
  obtain p r2 where p: "panes_commit memory_store pane c (vi_arrival v) (rt_panes r) = (Inr (), p)"
    and w: "url_write parts (visitWriteMode (vi_history v)) None (r\<lparr>rt_panes := p\<rparr>) = (Inr (), r2)"
    and r': "r' = r2" "res = NavCommitted pane"
    using assms(1,4) c by (auto simp: applyVisit_def and_then_Inr lift_panes_Inr)
  have inv: "panes_inv memory_store ms_inv (rt_panes r)" "url_known parts hinv shows_location r" using assms(2) by (simp_all add: router_inv_def)
  note k = historyChange_ok[OF c assms(3)]
  have "panes_inv memory_store ms_inv p \<and> ids p = ids (rt_panes r) \<and> pane \<in> set (ids (rt_panes r)) \<and>
      panes_current memory_store pane p = Some (change_lands_on c)"
    using commit_keeps_panes[OF inv(1) p] k by blast
  moreover from this set_and_write[OF w _ inv(2) assms(5,6)] have "router_inv parts hinv shows_location r2 \<and> url_shows parts r2 \<and> rt_panes r2 = p" by blast
  ultimately show ?thesis using r' k p assms(4) by (auto simp: router_current_def)
qed

lemma inv_cong:
  "router_inv parts hinv shows_location r \<Longrightarrow> rt_panes r' = rt_panes r \<Longrightarrow> rt_lastKnown r' = rt_lastKnown r \<Longrightarrow> rt_history r' = rt_history r \<Longrightarrow>
   router_inv parts hinv shows_location r' \<and> url_shows parts r' = url_shows parts r"
  using url_shows_cong[of r' r parts] by (simp add: router_inv_def url_known_def)

lemma url_commit_kept:
  assumes "panes_inv memory_store ms_inv (rt_panes r)" and "url_known parts hinv shows_location r"
    and "valid_commit parts (CommitUrl d mode landed) es r" and "apply_commit parts (CommitUrl d mode landed) es r = (Inr res, r')"
    and "rp_store parts = memory_store" and "rp_adapter parts = adapter" and "deq_reflexive (rp_env parts)"
  shows "router_inv parts hinv shows_location r' \<and> url_shows parts r'"
proof -
  obtain incoming r0 where d: "panes_inv memory_store ms_inv (rt_panes r0)"
      "fresh_supply (rp_paneId parts) (paneIds_drawn (rt_panes r0)) (known_ids (live_of memory_store (rt_panes r0)) incoming)"
      "router_diff parts incoming r0 = (d, r)" "length es = length (changedPanes d)"
    using assms(3) by auto
  have diff: "panes_diff_with memory_store (rp_paneId parts) incoming (visit_options (rp_env parts)) (rt_panes r0) = (d, rt_panes r)"
    using d(3) assms(5) by (auto simp: router_diff_def split: prod.splits)
  from mem.applyDiff_ok[OF d(1,2) diff d(4)] obtain p where
    p: "applyDiff memory_store d es (rt_panes r) = (Inr (), p)" "panes_inv memory_store ms_inv p" by blast
  have "\<exists>r2. url_write parts mode landed (r\<lparr>rt_panes := p\<rparr>) = (Inr (), r2) \<and>
      r' = (if landed = None then r2 else r2\<lparr>rt_ready := True\<rparr>)"
    using assms(4,5) p(1)
    by (cases "diff_panes d"; cases "landed = None") (fastforce simp: applyUrl_def and_then_Inr lift_panes_Inr Let_def)+
  then obtain r2 where w: "url_write parts mode landed (r\<lparr>rt_panes := p\<rparr>) = (Inr (), r2)"
    and r': "r' = (if landed = None then r2 else r2\<lparr>rt_ready := True\<rparr>)" by blast
  show ?thesis using set_and_write[OF w p(2) assms(2,6,7)] r' inv_cong[where r = r2 and r' = r'] by auto
qed

lemma commit_kept:
  assumes "router_inv parts hinv shows_location r" and "valid_commit parts c es r" and "apply_commit parts c es r = (Inr res, r')"
    and "rp_store parts = memory_store" and "rp_adapter parts = adapter" and "deq_reflexive (rp_env parts)"
  shows "router_inv parts hinv shows_location r' \<and> (url_shows parts r \<longrightarrow> url_shows parts r')"
proof -
  have inv: "panes_inv memory_store ms_inv (rt_panes r)" "url_known parts hinv shows_location r" using assms(1) by (simp_all add: router_inv_def)
  note wr = set_and_write[OF _ _ inv(2) assms(5,6)]
  show ?thesis
  proof (cases c)
    case (CommitVisit vc)
    then obtain e where e: "applyUnlessHeld parts (visit_check vc) (visitWriteMode (vi_history (vc_visit vc))) e
        (applyVisit parts (vc_pane vc) (vc_visit vc) e) r = (Inr res, r')"
      using assms(3) by (cases es) (auto simp: applyVisitNavigation_def)
    show ?thesis
    using e
    proof (cases rule: applyUnlessHeld_cases)
      case (held h)
      then show ?thesis using inv_cong[OF assms(1)] by blast
    next
      case free
      then show ?thesis using visit_kept[OF free(2) assms(1) _ assms(4-6)] assms(2) CommitVisit by simp
    qed
  next
    case (CommitUrl d mode landed)
    show ?thesis
      using url_commit_kept[OF inv _ _ assms(4-6)] assms(2,3) CommitUrl by simp
  next
    case (CommitOpen oc)
    then obtain e where e: "applyUnlessHeld parts
           \<lparr>cc_pane = Some (oc_pane oc), cc_from = None, cc_allowDuplicate = oc_allowDuplicate oc, cc_besides = oc_besides oc\<rparr>
           ModePush e
           (\<lambda>r. and_then
              (url_write parts ModePush None
                (r\<lparr>rt_panes := panes_insert (rp_store parts) (oc_pane oc) e (oc_insertAt oc) (Some (oc_decided oc)) (rt_panes r)\<rparr>))
              (\<lambda>_ r1. (Inr (NavCommitted (oc_pane oc)), r1))) r = (Inr res, r')"
      using assms(3) by (cases es) (auto simp: applyOpen_def)
    show ?thesis
    using e
    proof (cases rule: applyUnlessHeld_cases)
      case (held h)
      then show ?thesis using inv_cong[OF assms(1)] by blast
    next
      case free
      have "oc_pane oc \<notin> set (ids (rt_panes r))" using assms(2) CommitOpen by simp
      from mem.insert_inv[OF inv(1) this] free(2) wr show ?thesis by (auto simp: and_then_Inr assms(4))
    qed
  next
    case (CommitRemove pane)
    then show ?thesis using assms(3,4) wr mem.remove_inv[OF inv(1)] by (auto simp: applyRemove_def and_then_Inr)
  next
    case (CommitMove pane dest)
    obtain moved p where m: "panes_move pane dest (rt_panes r) = (moved, p)" by (cases "panes_move pane dest (rt_panes r)")
    have p: "panes_inv memory_store ms_inv p" using mem.move_inv[OF inv(1), of pane dest] m by simp
    show ?thesis
    proof (cases moved)
      case True
      then show ?thesis using assms(3) CommitMove m p wr by (auto simp: applyMove_def and_then_Inr)
    next
      case False
      then have "p = rt_panes r" using m by (auto simp: panes_move_def Let_def split: if_splits)
      then have "r' = r" using assms(3) CommitMove m False by (auto simp: applyMove_def and_then_Inr)
      then show ?thesis using assms(1) by simp
    qed
  qed
qed

end

end
