(* ===== verification/Router_Reload.thy ===== *)
theory Router_Reload
  imports Router_Sync
begin

text \<open>
  Runs of the router, and the reload: the URL that the panes have brings the same panes back.
\<close>

section \<open>Runs\<close>

text \<open>What is neither panes nor URL may change at any time: what is in flight, previews that register, effects, drawn ids.\<close>

definition same_panes_and_url :: "((js_value, entry_rest) stored, 'h) router \<Rightarrow> ((js_value, entry_rest) stored, 'h) router \<Rightarrow> bool" where
  "same_panes_and_url r r' \<longleftrightarrow> rt_lastKnown r' = rt_lastKnown r \<and> rt_history r' = rt_history r \<and>
    (\<exists>n. rt_panes r' = (rt_panes r)\<lparr>paneIds_drawn := n\<rparr>)"

text \<open>
  A router at work.  \<open>ur_pending\<close> are the locations that \<open>follow\<close> has kept for the reverts of the URL changes it follows, newest first;
  \<open>ur_landing\<close> is where a revert that was called will put the host; \<open>ur_unwinding\<close> says that the gate is putting URLs back, and
  \<open>ur_adrift\<close> that a navigation that followed the host failed, after which nothing is put back and the panes stay as they were.
\<close>

record 'h url_run =
  ur_router :: "((js_value, entry_rest) stored, 'h) router"
  ur_pending :: "external_location list"
  ur_landing :: "external_location option"
  ur_unwinding :: bool
  ur_adrift :: bool

definition url_run_new :: "((js_value, entry_rest) stored, 'h) router_parts \<Rightarrow> 'h \<Rightarrow> 'h url_run" where
  "url_run_new parts h = \<lparr>ur_router = createUrl parts (panes_new []) h, ur_pending = [], ur_landing = None, ur_unwinding = False, ur_adrift = False\<rparr>"

text \<open>What the \<open>revert\<close> of a followed change does to the router, before it has the adapter put the host back.\<close>

definition follow_revert :: "external_location \<Rightarrow> ('s, 'h) router \<Rightarrow> ('s, 'h) router" where
  "follow_revert previous r = url_remember previous r"

fun is_url_commit :: "router_commit \<Rightarrow> bool" where
  "is_url_commit (CommitUrl _ _ _) = True"
| "is_url_commit _ = False"

text \<open>
  The steps, in the orders the gate allows: a navigation is applied, to single panes only while no URL navigation is pending, and not
  while URLs are put back; the host moves, which the router finds already shown, follows, or, but for URLs being put back, fails to
  decode; a URL navigation fails; the revert of the newest followed change is called, one at a time, and lands; the adapter sends what was written; anything else.
\<close>

inductive router_step ::
  "((js_value, entry_rest) stored, 'h) router_parts \<Rightarrow> ('h \<Rightarrow> bool) \<Rightarrow> ('h \<Rightarrow> external_location) \<Rightarrow> 'h url_run \<Rightarrow> 'h url_run \<Rightarrow> bool"
  for parts hinv shows_l where
  applied: "\<not> ur_unwinding x \<Longrightarrow> ur_pending x = [] \<or> is_url_commit c \<Longrightarrow> valid_commit parts c es (ur_router x) \<Longrightarrow>
    apply_commit parts c es (ur_router x) = (Inr res, r) \<Longrightarrow>
    router_step parts hinv shows_l x (x\<lparr>ur_router := r, ur_pending := [], ur_adrift := (ur_adrift x \<and> \<not> is_url_commit c)\<rparr>)"
| already_shown: "hinv h \<Longrightarrow> follow parts fresh (shows_l h) ((ur_router x)\<lparr>rt_history := h\<rparr>) = (None, r) \<Longrightarrow>
    router_step parts hinv shows_l x (x\<lparr>ur_router := r\<rparr>)"
| followed: "hinv h \<Longrightarrow> follow parts fresh (shows_l h) ((ur_router x)\<lparr>rt_history := h\<rparr>) = (Some (Inr (nav, d, previous)), r) \<Longrightarrow>
    router_step parts hinv shows_l x (x\<lparr>ur_router := r, ur_pending := previous # ur_pending x\<rparr>)"
| follow_throws: "\<not> ur_unwinding x \<Longrightarrow> hinv h \<Longrightarrow> follow parts fresh (shows_l h) ((ur_router x)\<lparr>rt_history := h\<rparr>) = (Some (Inl e), r) \<Longrightarrow>
    router_step parts hinv shows_l x (x\<lparr>ur_router := r, ur_adrift := True\<rparr>)"
| url_failed: "\<not> ur_unwinding x \<Longrightarrow>
    router_step parts hinv shows_l x (x\<lparr>ur_pending := [], ur_adrift := (ur_adrift x \<or> ur_pending x \<noteq> [])\<rparr>)"
| reverted: "ur_landing x = None \<Longrightarrow> ur_pending x = previous # rest \<Longrightarrow> hinv h \<Longrightarrow>
    router_step parts hinv shows_l x (x\<lparr>ur_router := follow_revert previous ((ur_router x)\<lparr>rt_history := h\<rparr>), ur_pending := rest,
      ur_landing := Some previous, ur_unwinding := True\<rparr>)"
| landed: "ur_landing x = Some l \<Longrightarrow> hinv h \<Longrightarrow> shows_l h = l \<Longrightarrow>
    router_step parts hinv shows_l x (x\<lparr>ur_router := (ur_router x)\<lparr>rt_history := h\<rparr>, ur_landing := None, ur_unwinding := (ur_pending x \<noteq> [])\<rparr>)"
| sent: "hinv h \<Longrightarrow> shows_l h = shows_l (rt_history (ur_router x)) \<Longrightarrow>
    router_step parts hinv shows_l x (x\<lparr>ur_router := (ur_router x)\<lparr>rt_history := h\<rparr>\<rparr>)"
| otherwise: "same_panes_and_url (ur_router x) r \<Longrightarrow> router_step parts hinv shows_l x (x\<lparr>ur_router := r\<rparr>)"

lemma drawn_irrelevant:
  "panes_inv st sinv (p\<lparr>paneIds_drawn := n\<rparr>) = panes_inv st sinv p"
  "panes_current st q (p\<lparr>paneIds_drawn := n\<rparr>) = panes_current st q p"
  by (simp_all add: panes_inv_def panes_current_def)

lemma drawn_shown_at: "rt_panes r' = (rt_panes r)\<lparr>paneIds_drawn := n\<rparr> \<Longrightarrow> shown_at parts r' l = shown_at parts r l"
  by (simp add: shown_at_def shownPanes_def router_current_def drawn_irrelevant)

text \<open>What \<open>follow\<close> does to the router: the location is known from then on, the one from before is kept for the revert, and no pane changes.\<close>

lemma follow_known:
  "follow parts fresh l r = (None, r') \<Longrightarrow> r' = r \<and> sameExternalLocation (deq_value (rp_env parts)) l (rt_lastKnown r)"
  "follow parts fresh l r = (Some y, r') \<Longrightarrow> rt_lastKnown r' = l \<and> rt_history r' = rt_history r \<and>
     (\<exists>n. rt_panes r' = (rt_panes r)\<lparr>paneIds_drawn := n\<rparr>) \<and> (\<forall>nav d previous. y = Inr (nav, d, previous) \<longrightarrow> previous = rt_lastKnown r)"
  by (auto simp: follow_def navigationTo_def router_diff_def panes_diff_with_def url_remember_def split: if_splits sum.splits prod.splits
      intro: exI[of _ "paneIds_drawn (rt_panes r)"])

text \<open>
  The invariant of a run: while URLs are not put back the adapter shows what the router takes for known; what a revert
  that is called last has remembered is where the host lands; and the panes are those of the URL that is known
  once everything pending is put back.
\<close>

definition url_run_inv :: "((js_value, entry_rest) stored, 'h) router_parts \<Rightarrow> ('h \<Rightarrow> bool) \<Rightarrow> ('h \<Rightarrow> external_location) \<Rightarrow> 'h url_run \<Rightarrow> bool" where
  "url_run_inv parts hinv shows_l x \<longleftrightarrow>
    (let r = ur_router x
     in panes_inv memory_store ms_inv (rt_panes r) \<and> hinv (rt_history r) \<and>
        (\<not> ur_unwinding x \<longrightarrow> ur_landing x = None \<and> url_known parts hinv shows_l r) \<and>
        (ur_unwinding x \<longrightarrow> ur_landing x \<noteq> None \<or> ur_pending x \<noteq> []) \<and>
        (\<forall>l. ur_landing x = Some l \<and> ur_pending x = [] \<longrightarrow> rt_lastKnown r = l) \<and>
        (\<not> ur_adrift x \<longrightarrow> shown_at parts r (last (rt_lastKnown r # ur_pending x))))"

context history_laws
begin

lemma step_kept:
  assumes "router_step parts hinv shows_location x y" and "url_run_inv parts hinv shows_location x"
    and "rp_store parts = memory_store" and "rp_adapter parts = adapter" and "deq_reflexive (rp_env parts)"
  shows "url_run_inv parts hinv shows_location y"
  using assms(1)
proof cases
  case (applied c es res r)
  have inv: "router_inv parts hinv shows_location (ur_router x)"
    using assms(2) applied(2) by (simp add: url_run_inv_def router_inv_def Let_def)
  have kept: "router_inv parts hinv shows_location r \<and> (url_shows parts (ur_router x) \<longrightarrow> url_shows parts r)"
    using commit_kept[OF inv applied(4,5) assms(3-5)] .
  have "url_shows parts r" if "is_url_commit c"
  proof -
    obtain d mode landed where c: "c = CommitUrl d mode landed" using \<open>is_url_commit c\<close> by (cases c) auto
    show ?thesis using url_commit_kept[OF _ _ applied(4,5)[unfolded c] assms(3-5)] inv by (simp add: router_inv_def)
  qed
  moreover have "url_shows parts (ur_router x)" if "ur_pending x = []" "\<not> ur_adrift x"
    using assms(2) that by (simp add: url_run_inv_def url_shows_def Let_def)
  ultimately have "\<not> (ur_adrift x \<and> \<not> is_url_commit c) \<Longrightarrow> url_shows parts r" using kept applied(3) by blast
  then show ?thesis using kept applied(1,2) assms(2)
    by (auto simp: url_run_inv_def router_inv_def url_known_def url_shows_def Let_def)
next
  case (already_shown h fresh r)
  then show ?thesis using assms(2) follow_known(1)[OF already_shown(3)] shown_at_cong[of r "ur_router x" parts]
    by (auto simp: url_run_inv_def url_known_def Let_def)
next
  case (followed h fresh nav d previous r)
  note k = follow_known(2)[OF followed(3)]
  then obtain n where n: "rt_panes r = (rt_panes (ur_router x))\<lparr>paneIds_drawn := n\<rparr>" by auto
  show ?thesis using assms(2) followed(1,2) k n drawn_shown_at[OF n, of parts] same_location_refl[OF assms(5)]
    by (auto simp: url_run_inv_def url_known_def drawn_irrelevant Let_def)
next
  case (follow_throws h fresh e r)
  note k = follow_known(2)[OF follow_throws(4)]
  then obtain n where n: "rt_panes r = (rt_panes (ur_router x))\<lparr>paneIds_drawn := n\<rparr>" by auto
  show ?thesis using assms(2) follow_throws(1-3) k n same_location_refl[OF assms(5)]
    by (auto simp: url_run_inv_def url_known_def drawn_irrelevant Let_def)
next
  case url_failed
  then show ?thesis using assms(2) by (cases "ur_pending x") (simp_all add: url_run_inv_def Let_def)
next
  case (reverted previous rest h)
  let ?r = "follow_revert previous ((ur_router x)\<lparr>rt_history := h\<rparr>)"
  have r: "rt_panes ?r = rt_panes (ur_router x)" "rt_lastKnown ?r = previous" "rt_history ?r = h"
    by (simp_all add: follow_revert_def url_remember_def)
  have "shown_at parts ?r l = shown_at parts (ur_router x) l" for l by (rule shown_at_cong) (simp add: r)
  then show ?thesis using assms(2) reverted r by (cases "rest = []") (simp_all add: url_run_inv_def Let_def)
next
  case (landed l h)
  then show ?thesis using assms(2) shown_at_cong[of "(ur_router x)\<lparr>rt_history := h\<rparr>" "ur_router x" parts] same_location_refl[OF assms(5)]
    by (auto simp: url_run_inv_def url_known_def Let_def)
next
  case (sent h)
  then show ?thesis using assms(2) shown_at_cong[of "(ur_router x)\<lparr>rt_history := h\<rparr>" "ur_router x" parts]
    by (auto simp: url_run_inv_def url_known_def Let_def)
next
  case (otherwise r)
  then obtain n where n: "rt_panes r = (rt_panes (ur_router x))\<lparr>paneIds_drawn := n\<rparr>" by (auto simp: same_panes_and_url_def)
  show ?thesis using assms(2) otherwise drawn_shown_at[OF n, of parts] n
    by (auto simp: url_run_inv_def url_known_def same_panes_and_url_def drawn_irrelevant Let_def)
qed

lemma run_kept:
  assumes "(router_step parts hinv shows_location)\<^sup>*\<^sup>* x y" and "url_run_inv parts hinv shows_location x"
    and "rp_store parts = memory_store" and "rp_adapter parts = adapter" and "deq_reflexive (rp_env parts)"
  shows "url_run_inv parts hinv shows_location y"
  using assms(1,2) by (induction rule: rtranclp_induct) (use step_kept assms(3-5) in blast)+

end

lemma url_run_new_inv:
  assumes "hinv h" and "ha_read (rp_adapter parts) h = shows_l h" and "deq_reflexive (rp_env parts)"
  shows "url_run_inv parts hinv shows_l (url_run_new parts h)"
  using assms panes_new_inv same_location_refl[OF assms(3)]
  by (simp add: url_run_inv_def url_run_new_def url_known_def shown_at_def createUrl_def shownPanes_def panes_new_def)

text \<open>
  C16.  Panes and URL stay in step.  From a new router on, with any adapter that shows what it was last told to write, whatever is
  applied, followed and put back, in whatever order the gate allows and however late writes and reverts reach the host, as long as no
  \<open>apply\<close> throws, no URL fails to decode while others are put back, and a revert lands at the location that was known
  before the change it undoes: the open panes have distinct ids and well-formed histories, exactly the open panes have one; once nothing is pending and
  no revert is landing, the URL that the router takes for known is the one that the adapter shows; and unless a navigation that followed
  the host has failed since the last URL navigation, the shown panes encode to the URL that is known once
  everything pending is put back, which is the known one when nothing is.
\<close>

theorem url_stays_in_step:
  assumes "history_laws (rp_adapter parts) hinv shows_l" and "hinv h" and "ha_read (rp_adapter parts) h = shows_l h"
    and "rp_store parts = memory_store" and "deq_reflexive (rp_env parts)"
    and "(router_step parts hinv shows_l)\<^sup>*\<^sup>* (url_run_new parts h) x"
  shows "panes_inv memory_store ms_inv (rt_panes (ur_router x)) \<and>
    (ur_pending x = [] \<and> ur_landing x = None \<longrightarrow>
      sameExternalLocation (deq_value (rp_env parts)) (shows_l (rt_history (ur_router x))) (rt_lastKnown (ur_router x))) \<and>
    (\<not> ur_adrift x \<longrightarrow> shown_at parts (ur_router x) (last (rt_lastKnown (ur_router x) # ur_pending x)))"
  using history_laws.run_kept[OF assms(1,6) url_run_new_inv[of hinv h parts shows_l, OF assms(2,3,5)] assms(4) refl assms(5)]
  by (auto simp: url_run_inv_def url_known_def Let_def)

section \<open>The reload\<close>

text \<open>Where nothing is open, every incoming pane with an id of its own is created under it.\<close>

lemma diff_nothing_open:
  assumes "live_ids live = []"
    and "distinct (used @ map (\<lambda>inc. the (in_paneId inc)) incs)"
    and "\<And>inc. inc \<in> set incs \<Longrightarrow> truthy (in_paneId inc)"
    and "\<And>i. i < length shown \<Longrightarrow> shown ! i = None" and "position + length incs \<le> length shown"
  shows "diffPane_all live opts gen shown incs position (used, n) =
    (map (\<lambda>inc. Create (the (in_paneId inc)) (in_entry inc)) incs, used @ map (\<lambda>inc. the (in_paneId inc)) incs, n)"
  using assms
proof (induction incs arbitrary: used position)
  case (Cons inc incs)
  have t: "truthy (in_paneId inc)" using Cons.prems(3) by simp
  have "matchPane live opts shown used inc position = None"
    using Cons.prems(1,4,5) by (simp add: matchPane_def hasLiveId_def isLive_def Let_def)
  then have d: "diffPane live opts gen shown inc position (used, n) =
      (Create (the (in_paneId inc)) (in_entry inc), used @ [the (in_paneId inc)], n)"
    using t Cons.prems(1,2) by (simp add: diffPane_def createPane_def idForNewPane_def isLive_def)
  show ?case using Cons.IH[of "used @ [the (in_paneId inc)]" "position + 1"] Cons.prems d by simp
qed simp

lemma showing_nothing: "live_ids live = [] \<Longrightarrow> showing live opts incoming = map (\<lambda>_. None) incoming"
  by (simp add: showing_def hasLiveId_def isLive_def)

lemma diffPanes_nothing_open:
  assumes "live_ids live = []" and "distinct (map (\<lambda>inc. the (in_paneId inc)) incoming)"
    and "\<And>inc. inc \<in> set incoming \<Longrightarrow> truthy (in_paneId inc)"
  shows "diffPanes live incoming opts gen n =
    (\<lparr>diff_panes = map (\<lambda>inc. Create (the (in_paneId inc)) (in_entry inc)) incoming, diff_removed = []\<rparr>, n)"
proof -
  have "diffPane_all live opts gen (showing live opts incoming) incoming 0 ([], n) =
      (map (\<lambda>inc. Create (the (in_paneId inc)) (in_entry inc)) incoming, [] @ map (\<lambda>inc. the (in_paneId inc)) incoming, n)"
    by (rule diff_nothing_open[OF assms(1) _ assms(3)]) (use assms(2) in \<open>simp_all add: showing_nothing assms(1)\<close>)
  then show ?thesis by (simp add: diffPanes_def assms(1))
qed

text \<open>Every open pane is shown.\<close>

lemma shownPanes_open:
  assumes "panes_inv memory_store ms_inv (rt_panes r)" and "rp_store parts = memory_store"
  shows "shownPanes parts r = map (\<lambda>pane. encoded_of pane (the (router_current parts pane r))) (ids (rt_panes r))"
    and "pane \<in> set (ids (rt_panes r)) \<Longrightarrow> \<exists>e. router_current parts pane r = Some e"
proof -
  show c: "\<exists>e. router_current parts pane r = Some e" if "pane \<in> set (ids (rt_panes r))" for pane
  proof -
    have "st_read memory_store pane (store (rt_panes r)) \<noteq> None" using assms(1) that by (simp add: panes_inv_def)
    then obtain s where s: "st_read memory_store pane (store (rt_panes r)) = Some s" by blast
    moreover have "snapshot_wf s" using assms(1) s by (simp add: panes_inv_def)
    ultimately obtain s where "st_read memory_store pane (store (rt_panes r)) = Some s" "snapshot_wf s" by blast
    then show ?thesis by (simp add: router_current_def panes_current_def assms(2) currentEntry_wf)
  qed
  have "map (\<lambda>pane. case router_current parts pane r of None \<Rightarrow> [] | Some e \<Rightarrow> [encoded_of pane e]) (ids (rt_panes r)) =
      map (\<lambda>pane. [encoded_of pane (the (router_current parts pane r))]) (ids (rt_panes r))"
    using c by (intro map_cong) (auto split: option.splits)
  then show "shownPanes parts r = map (\<lambda>pane. encoded_of pane (the (router_current parts pane r))) (ids (rt_panes r))"
    by (simp only: shownPanes_def concat_map_singleton)
qed

text \<open>What a pane shows again after the reload: the same entry at the same route with the same state and the search values the route owns.\<close>

definition same_after_reload :: "routes_manifest \<Rightarrow> entry \<Rightarrow> entry \<Rightarrow> bool" where
  "same_after_reload m e e' \<longleftrightarrow>
    e_id e' = e_id e \<and> e_state e' = e_state e \<and> l_route (e_location e') = l_route (e_location e) \<and>
    (\<exists>s. filterRouteSearch m (l_route (e_location e)) (l_search (e_location e)) = Inr s \<and>
       search_values (l_search (e_location e')) = search_values s)"

text \<open>What the URL can hold of the panes on screen.\<close>

definition url_can_hold :: "('s, 'h) router_parts \<Rightarrow> ('s, 'h) router \<Rightarrow> bool" where
  "url_can_hold parts r \<longleftrightarrow>
    (let shown = shownPanes parts r; lc = toLower (rp_env parts); m = rp_routes parts
     in shown \<noteq> [] \<and> length shown \<le> max_safe_integer \<and> [] \<notin> set (ids (rt_panes r)) \<and>
        (\<forall>p \<in> set shown. url_pane lc m p \<and> m_id (hd (pane_route p)) = m_id (hd (pane_route (hd shown)))) \<and>
        decodeFirstPane lc m (pane_segments m (hd shown)) = Inr (Some (pane_route (hd shown))))"

lemma known_url_decodes:
  assumes "url_shows parts r" and "url_can_hold parts r" and "\<forall>v w. deq_value (rp_env parts) v w \<longrightarrow> v = w"
  shows "\<exists>ds. decodePanes (toLower (rp_env parts)) (rp_routes parts) (rt_lastKnown r) fresh = Inr ds \<and>
    list_all2 (shows_pane (rp_routes parts)) (shownPanes parts r) ds"
proof -
  let ?shown = "shownPanes parts r"
  have hold: "?shown \<noteq> []" "length ?shown \<le> max_safe_integer"
      "\<forall>p \<in> set ?shown. url_pane (toLower (rp_env parts)) (rp_routes parts) p \<and> m_id (hd (pane_route p)) = m_id (hd (pane_route (hd ?shown)))"
      "decodeFirstPane (toLower (rp_env parts)) (rp_routes parts) (pane_segments (rp_routes parts) (hd ?shown)) = Inr (Some (pane_route (hd ?shown)))"
    using assms(2) unfolding url_can_hold_def Let_def by blast+
  obtain basis keep loc where loc: "encodePanes (rp_routes parts) ?shown basis keep = Inr loc"
      "sameExternalLocation (deq_value (rp_env parts)) loc (rt_lastKnown r)"
    using assms(1) hold(1) unfolding url_shows_def shown_at_def by blast
  show ?thesis
    by (rule written_reads_back[OF loc(1) hold same_location_reads_alike[OF loc(1) hold(2) loc(2) assms(3)]])
qed

text \<open>The panes that a new router makes of the URL are those that were shown.\<close>

lemma reload_diff:
  assumes inv: "panes_inv memory_store ms_inv (rt_panes r)" and store: "rp_store parts = memory_store"
    and ds: "list_all2 (shows_pane (rp_routes parts)) (shownPanes parts r) ds" and ne: "[] \<notin> set (ids (rt_panes r))"
  shows "router_diff parts (map of_decoded ds) (createUrl parts (panes_new []) h) =
      (\<lparr>diff_panes = map (\<lambda>(pane, d). Create pane (in_entry (of_decoded d))) (zip (ids (rt_panes r)) ds), diff_removed = []\<rparr>,
       createUrl parts (panes_new []) h)"
proof -
  let ?ids = "ids (rt_panes r)" and ?incoming = "map of_decoded ds"
  note shown = shownPanes_open(1)[OF inv store]
  have len: "length ds = length ?ids" using list_all2_lengthD[OF ds] shown by simp
  have pid: "in_paneId (of_decoded (ds ! i)) = Some (?ids ! i)" if "i < length ?ids" for i
    using list_all2_nthD2[OF ds, of i] that len shown by (simp add: shows_pane_def of_decoded_def encoded_of_def)
  have ids: "map (\<lambda>inc. the (in_paneId inc)) ?incoming = ?ids"
    by (rule nth_equalityI) (use len pid in simp_all)
  have truthy: "truthy (in_paneId inc)" if "inc \<in> set ?incoming" for inc
  proof -
    obtain x where "x \<in> set ds" "inc = of_decoded x" using \<open>inc \<in> set ?incoming\<close> by auto
    then obtain i where i: "i < length ?ids" "inc = of_decoded (ds ! i)" using len in_set_conv_nth[of x ds] by auto
    then have "?ids ! i \<noteq> []" using ne nth_mem by metis
    then show ?thesis using pid[OF i(1)] i(2) by simp
  qed
  have live: "live_ids (live_of memory_store (panes_new [])) = []" by (simp add: live_of_def panes_new_def)
  have "distinct (map (\<lambda>inc. the (in_paneId inc)) ?incoming)" unfolding ids using inv by (simp add: panes_inv_def)
  from diffPanes_nothing_open[OF live this truthy]
  have "diffPanes (live_of memory_store (panes_new [])) ?incoming opts gen 0 =
      (\<lparr>diff_panes = map (\<lambda>inc. Create (the (in_paneId inc)) (in_entry inc)) ?incoming, diff_removed = []\<rparr>, 0)" for opts gen by blast
  moreover have "map (\<lambda>inc. Create (the (in_paneId inc)) (in_entry inc)) ?incoming =
      map (\<lambda>(pane, d). Create pane (in_entry (of_decoded d))) (zip ?ids ds)"
    by (rule nth_equalityI) (use len pid in simp_all)
  ultimately show ?thesis
    by (simp add: router_diff_def panes_diff_with_def store createUrl_def panes_new_def)
qed

lemma changed_created: "changedPanes \<lparr>diff_panes = map (\<lambda>(pane, d). Create pane (f d)) xs, diff_removed = rs\<rparr> = map (\<lambda>(pane, d). Create pane (f d)) xs"
  by (induction xs) (auto simp: changedPanes_def)

lemma created_targets: "map pt_to (map toTarget (map (\<lambda>(pane, d). Create pane (f d)) xs)) = map (\<lambda>(pane, d). f d) xs"
  by (induction xs) auto

lemma reload_supply:
  assumes "list_all2 (shows_pane m) shown ds" and shown: "shown = map (\<lambda>pane. encoded_of pane (current pane)) panes"
    and "fresh_supply gen 0 (set panes)"
  shows "fresh_supply gen (paneIds_drawn (panes_new [])) (known_ids (live_of memory_store (panes_new [])) (map of_decoded ds))"
proof -
  have "known_ids (live_of memory_store (panes_new [])) (map of_decoded ds) \<subseteq> set panes"
  proof
    fix q assume "q \<in> known_ids (live_of memory_store (panes_new [])) (map of_decoded ds)"
    then obtain i where "i < length ds" "in_paneId (of_decoded (ds ! i)) = Some q"
      by (auto simp: known_ids_def live_of_def panes_new_def in_set_conv_nth)
    then show "q \<in> set panes"
      using list_all2_nthD2[OF assms(1), of i] list_all2_lengthD[OF assms(1)] shown
      by (auto simp: shows_pane_def of_decoded_def encoded_of_def)
  qed
  then show ?thesis using assms(3) by (auto simp: fresh_supply_def panes_new_def)
qed

lemma restored_entry:
  assumes "shows_pane m (encoded_of pane e) d"
  shows "same_after_reload m e (in_entry (of_decoded d))"
  using assms by (auto simp: same_after_reload_def shows_pane_def encoded_of_def of_decoded_def as_route_entry_def)

text \<open>
  C17.  A reload brings the panes back.  Whenever the URL shows the panes, as it does once a run has settled (above), and it can hold what they
  show (\<open>url_can_hold\<close>: at least one pane, whose ids are not empty, with segments that are not empty and decode to the pane's route, a state its
  schema leaves as it is and well-formed owned search values, under one top-level route that a first pane decodes to),
  the initial navigation of a new router at that URL opens exactly those panes, with their ids and in their order, and each
  shows an entry with the same entry id, route and state, and the same values of the search that its route owns.  Props, metadata and other
  search values are not in the URL, so nothing is said of them.
\<close>

theorem reload_restores_panes:
  assumes "panes_inv memory_store ms_inv (rt_panes r)" and "url_shows parts r" and "url_can_hold parts r"
    and "rp_store parts = memory_store" and "\<forall>v w. deq_value (rp_env parts) v w \<longrightarrow> v = w"
    and "fresh_supply (rp_paneId parts) 0 (set (ids (rt_panes r)))"
  shows "\<exists>nav d r1 p. navigationTo parts fresh (rt_lastKnown r) CauseInitial (createUrl parts (panes_new []) h) = (Inr (nav, d), r1) \<and>
    applyDiff memory_store d (map pt_to (nv_targets nav)) (rt_panes r1) = (Inr (), p) \<and>
    ids p = ids (rt_panes r) \<and>
    (\<forall>pane \<in> set (ids p). \<exists>e e'. router_current parts pane r = Some e \<and> panes_current memory_store pane p = Some e' \<and>
       same_after_reload (rp_routes parts) e e')"
proof -
  let ?ids = "ids (rt_panes r)" and ?new = "createUrl parts (panes_new []) h"
  obtain ds where ds: "decodePanes (toLower (rp_env parts)) (rp_routes parts) (rt_lastKnown r) fresh = Inr ds"
      "list_all2 (shows_pane (rp_routes parts)) (shownPanes parts r) ds"
    using known_url_decodes[OF assms(2,3,5)] by blast
  have ne: "[] \<notin> set ?ids" using assms(3) by (simp add: url_can_hold_def Let_def)
  note shown = shownPanes_open[OF assms(1,4)]
  have len: "length ds = length ?ids" using list_all2_lengthD[OF ds(2)] shown(1) by simp
  define d where "d = \<lparr>diff_panes = map (\<lambda>(pane, x). Create pane (in_entry (of_decoded x))) (zip ?ids ds),
    diff_removed = [] :: pane_id list\<rparr>"
  have diff: "router_diff parts (map of_decoded ds) ?new = (d, ?new)"
    unfolding d_def by (rule reload_diff[OF assms(1,4) ds(2) ne])
  let ?nav = "diff_navigation CauseInitial (Some (x_search (rt_lastKnown r))) d"
  let ?es = "map (\<lambda>(pane, x). in_entry (of_decoded x)) (zip ?ids ds)"
  have es: "map pt_to (nv_targets ?nav) = ?es"
    unfolding diff_navigation_def d_def by (simp add: changed_created created_targets del: map_map)
  note fresh = reload_supply[OF ds(2) shown(1) assms(6)]
  have pd: "panes_diff_with memory_store (rp_paneId parts) (map of_decoded ds) (visit_options (rp_env parts)) (panes_new []) = (d, panes_new [])"
    using diff assms(4) by (auto simp: router_diff_def createUrl_def split: prod.splits)
  have n: "length ?es = length (changedPanes d)" by (simp add: d_def changed_created)
  from mem.applyDiff_ok[OF panes_new_inv fresh pd n] obtain p where
    p: "applyDiff memory_store d ?es (panes_new []) = (Inr (), p)" "ids p = map diff_pane (diff_panes d)"
      "list_all2 (shows_entry memory_store p) (map diff_pane (changedPanes d)) ?es" by blast
  have ids: "map diff_pane (diff_panes d) = ?ids"
    by (rule nth_equalityI) (simp_all add: d_def len)
  have "\<exists>e e'. router_current parts pane r = Some e \<and> panes_current memory_store pane p = Some e' \<and>
       same_after_reload (rp_routes parts) e e'" if pane: "pane \<in> set ?ids" for pane
  proof -
    obtain i where i: "i < length ?ids" "pane = ?ids ! i" using pane by (auto simp: in_set_conv_nth)
    obtain e where e: "router_current parts pane r = Some e" using shown(2)[OF pane] by blast
    have "changedPanes d = diff_panes d" by (simp add: d_def changed_created)
    then have "list_all2 (shows_entry memory_store p) ?ids ?es" using p(3) ids by simp
    from list_all2_nthD[OF this i(1)] have "panes_current memory_store pane p = Some (in_entry (of_decoded (ds ! i)))"
      using i len by (auto simp: shows_entry_def panes_current_def)
    moreover have "shows_pane (rp_routes parts) (encoded_of pane e) (ds ! i)"
      using list_all2_nthD2[OF ds(2), of i] i len shown(1) e by simp
    ultimately show ?thesis using e restored_entry by blast
  qed
  moreover have "navigationTo parts fresh (rt_lastKnown r) CauseInitial ?new = (Inr (?nav, d), ?new)"
    by (simp add: navigationTo_def ds(1) diff)
  moreover have "rt_panes ?new = panes_new []" by (simp add: createUrl_def)
  ultimately show ?thesis using p(1,2) ids es by (intro exI[of _ ?nav] exI[of _ d] exI[of _ ?new] exI[of _ p]) simp
qed

end
