(* ===== verification/Router_Exclusive.thy ===== *)
theory Router_Exclusive
  imports Router_Sync
begin

text \<open>
  A resource is shown once, and panes stay under one root: what visits, opens, removals and moves keep of the claims of
  the open panes, what a navigation within a pane asks for, and what is lost when the roots of panes
  differ.
\<close>

section \<open>Claims\<close>

definition pane_claim :: "('s, 'h) router_parts \<Rightarrow> ('s, 'h) router \<Rightarrow> pane_id \<Rightarrow> claim_error + ustring option" where
  "pane_claim parts r pane = entryClaim (rp_routes parts) (map_option e_location (router_current parts pane r))"

definition claims_unique :: "('s, 'h) router_parts \<Rightarrow> ('s, 'h) router \<Rightarrow> bool" where
  "claims_unique parts r \<longleftrightarrow>
    (\<forall>p \<in> set (ids (rt_panes r)). \<forall>q \<in> set (ids (rt_panes r)). \<forall>c.
       p \<noteq> q \<longrightarrow> pane_claim parts r p = Inr (Some c) \<longrightarrow> pane_claim parts r q \<noteq> Inr (Some c))"

lemma paneHolders_elem:
  assumes "paneHolders parts r = Inr hs" and "q \<in> set (ids (rt_panes r))" and "pane_claim parts r q = Inr (Some c)"
  shows "\<lparr>ch_owner = PaneOwner q, ch_pane = Some q, ch_claim = c\<rparr> \<in> set hs"
proof -
  obtain hss where hss: "map_results (paneHolder parts r) (ids (rt_panes r)) = Inr hss" "hs = concat hss"
    using assms(1) by (auto simp: paneHolders_def bind_result_Inr)
  have "paneHolder parts r q = Inr [\<lparr>ch_owner = PaneOwner q, ch_pane = Some q, ch_claim = c\<rparr>]"
    using assms(3) by (simp add: paneHolder_def pane_claim_def)
  moreover obtain i where i: "i < length (ids (rt_panes r))" "q = ids (rt_panes r) ! i"
    using assms(2) by (auto simp: in_set_conv_nth)
  have "list_all2 (\<lambda>p x. paneHolder parts r p = Inr x) (ids (rt_panes r)) hss" using hss(1) by (simp add: map_results_Inr)
  then have "paneHolder parts r q = Inr (hss ! i)" "i < length hss"
    using i list_all2_nthD[of _ _ hss i] list_all2_lengthD by fastforce+
  ultimately have x: "hss ! i = [\<lparr>ch_owner = PaneOwner q, ch_pane = Some q, ch_claim = c\<rparr>]" and "i < length hss" by simp_all
  from nth_mem[OF this(2)] show ?thesis unfolding hss(2) set_concat by (rule UN_I) (simp add: x)
qed

lemma holderFor_None:
  assumes "holderFor parts check l r = Inr None" and "\<not> cc_allowDuplicate check" and "cc_besides check = None"
    and "entryClaim (rp_routes parts) (Some l) = Inr (Some c)"
    and "entryClaim (rp_routes parts) (map_option e_location (cc_from check)) \<noteq> Inr (Some c)"
    and "q \<in> set (ids (rt_panes r))" and "cc_pane check = Some pane" and "q \<noteq> pane"
  shows "pane_claim parts r q \<noteq> Inr (Some c)"
proof
  assume q: "pane_claim parts r q = Inr (Some c)"
  obtain hs where hs: "paneHolders parts r = Inr hs" "List.find (holdsClaim c (Some pane)) (concat (hs # rt_sources r)) = None"
    using assms(1-5,7) by (auto simp: holderFor_def bind_result_Inr holderOf_def split: option.splits if_splits)
  have "\<not> holdsClaim c (Some pane) \<lparr>ch_owner = PaneOwner q, ch_pane = Some q, ch_claim = c\<rparr>"
    using hs(2) paneHolders_elem[OF hs(1) assms(6) q] by (auto simp: find_None_iff)
  then show False using assms(8) by (simp add: holdsClaim_def isInPane_def)
qed

lemma holderFor_Some:
  assumes "holderFor parts check l r = Inr (Some h)"
  shows "entryClaim (rp_routes parts) (Some l) = Inr (Some (ch_claim h)) \<and>
    (\<exists>hs. paneHolders parts r = Inr hs \<and> h \<in> set (concat (hs # rt_sources r))) \<and>
    (\<forall>pane. cc_pane check = Some pane \<longrightarrow> \<not> isInPane h pane)"
proof -
  have found: "P x \<and> x \<in> set xs" if "List.find P xs = Some x" for P and x :: claim_holder and xs
    using that by (auto simp: find_Some_iff)
  obtain c where c: "entryClaim (rp_routes parts) (Some l) = Inr (Some c)"
    using assms by (auto simp: holderFor_def bind_result_Inr split: option.splits if_splits)
  have h': "holderOf parts c (cc_pane check) r = Inr (Some h)"
  proof (cases "entryClaim (rp_routes parts) (map_option e_location (cc_from check))")
    case (Inr held)
    then show ?thesis using assms c
      by (cases "holderOf parts c (cc_pane check) r")
        (simp_all add: holderFor_def split: if_splits option.split_asm)
  qed (use assms c in \<open>simp add: holderFor_def split: if_splits\<close>)
  obtain hs where hs: "paneHolders parts r = Inr hs"
      "List.find (holdsClaim c (cc_pane check)) (concat (hs # rt_sources r)) = Some h"
    using h' by (auto simp: holderOf_def bind_result_Inr)
  from found[OF hs(2)] show ?thesis using c hs(1) by (auto simp: holdsClaim_def)
qed

section \<open>What commits do to other panes\<close>

lemma commit_others:
  assumes "panes_commit memory_store pane c a p = (Inr (), p')" and "q \<noteq> pane"
  shows "panes_current memory_store q p' = panes_current memory_store q p"
proof -
  obtain t where t: "ms_apply pane c (store p) = (Inr (), t)" "store p' = t"
    using assms(1) by (auto simp: panes_commit_def and_then_Inr storeApply_def memory_store_def split: prod.splits option.splits)
  have "ms_read q t = ms_read q (store p)"
    using t(1) assms(2) by (auto simp: ms_apply_def ms_read_map_of update_conv split: option.splits sum.splits)
  then show ?thesis using t(2) by (simp add: panes_current_def memory_store_def)
qed

lemma visit_panes:
  assumes "applyVisit parts pane v e r = (Inr res, r')" and "rp_store parts = memory_store"
    and "panes_inv memory_store ms_inv (rt_panes r)"
    and "case vi_history v of VisitReset hs i \<Rightarrow> hasIndex hs i | _ \<Rightarrow> True"
  shows "res = NavCommitted pane \<and> ids (rt_panes r') = ids (rt_panes r) \<and> pane \<in> set (ids (rt_panes r)) \<and>
    router_current parts pane r' = Some e \<and> (\<forall>q. q \<noteq> pane \<longrightarrow> router_current parts q r' = router_current parts q r)"
proof -
  obtain c where c: "historyChange (vi_history v) e = Inr c"
    using assms(1) by (cases "historyChange (vi_history v) e") (auto simp: applyVisit_def)
  obtain p r2 where p: "panes_commit memory_store pane c (vi_arrival v) (rt_panes r) = (Inr (), p)"
    and w: "url_write parts (visitWriteMode (vi_history v)) None (r\<lparr>rt_panes := p\<rparr>) = (Inr (), r2)"
    and r': "r' = r2" "res = NavCommitted pane"
    using assms(1,2) c by (auto simp: applyVisit_def and_then_Inr lift_panes_Inr)
  have "rt_panes r2 = p" using arg_cong[OF url_write_only[OF w], of rt_panes] by simp
  then show ?thesis
    using commit_keeps_panes[OF assms(3) p] commit_others[OF p] historyChange_ok[OF c assms(4)] r' assms(2)
    by (auto simp: router_current_def)
qed

text \<open>Which commits may not bring a second view: not a URL navigation, which shows whatever the URL says.\<close>

fun exclusive_commit ::
  "((js_value, entry_rest) stored, 'h) router_parts \<Rightarrow> router_commit \<Rightarrow> ((js_value, entry_rest) stored, 'h) router \<Rightarrow> bool" where
  "exclusive_commit parts (CommitVisit vc) r \<longleftrightarrow> \<not> vc_allowDuplicate vc \<and>
     entryClaim (rp_routes parts) (map_option e_location (vc_from vc)) = pane_claim parts r (vc_pane vc)"
| "exclusive_commit parts (CommitUrl d mode landed) r \<longleftrightarrow> False"
| "exclusive_commit parts (CommitOpen oc) r \<longleftrightarrow> \<not> oc_allowDuplicate oc \<and> oc_besides oc = None"
| "exclusive_commit parts (CommitRemove pane) r \<longleftrightarrow> True"
| "exclusive_commit parts (CommitMove pane to) r \<longleftrightarrow> True"

text \<open>One pane gets a new entry whose claim, unless it had it before, no other pane has.\<close>

lemma unique_update:
  assumes "claims_unique parts r" and "set (ids (rt_panes r')) \<subseteq> insert pane (set (ids (rt_panes r)))"
    and "\<And>q. q \<noteq> pane \<Longrightarrow> router_current parts q r' = router_current parts q r"
    and "\<And>c q. pane_claim parts r' pane = Inr (Some c) \<Longrightarrow> q \<in> set (ids (rt_panes r)) \<Longrightarrow> q \<noteq> pane \<Longrightarrow>
      pane_claim parts r q \<noteq> Inr (Some c)"
  shows "claims_unique parts r'"
proof -
  have same: "pane_claim parts r' q = pane_claim parts r q" if "q \<noteq> pane" for q
    using assms(3)[OF that] by (simp add: pane_claim_def)
  have olds: "pane_claim parts r q \<noteq> Inr (Some c)"
    if "p \<in> set (ids (rt_panes r))" "q \<in> set (ids (rt_panes r))" "p \<noteq> q" "pane_claim parts r p = Inr (Some c)" for p q c
    using assms(1) that unfolding claims_unique_def by blast
  show ?thesis
    unfolding claims_unique_def
  proof (intro ballI allI impI)
    fix p q c assume pq: "p \<in> set (ids (rt_panes r'))" "q \<in> set (ids (rt_panes r'))" "p \<noteq> q" "pane_claim parts r' p = Inr (Some c)"
    have "p = pane \<or> p \<in> set (ids (rt_panes r))" "q = pane \<or> q \<in> set (ids (rt_panes r))" using pq(1,2) assms(2) by auto
    then show "pane_claim parts r' q \<noteq> Inr (Some c)"
      using assms(4)[of c q] assms(4)[of c p] same[of p] same[of q] olds[of p q c] pq(3,4) by (cases "p = pane"; cases "q = pane") auto
  qed
qed

lemma current_cong: "rt_panes r' = rt_panes r \<Longrightarrow> router_current parts q r' = router_current parts q r"
  by (simp add: router_current_def)

lemma claims_cong: "rt_panes r' = rt_panes r \<Longrightarrow> claims_unique parts r' = claims_unique parts r"
  using current_cong[of r' r] by (simp add: claims_unique_def pane_claim_def)

lemma inserted_current:
  assumes "panes_inv memory_store ms_inv p" and "pane \<notin> set (ids p)"
  shows "panes_current memory_store q (panes_insert memory_store pane e i d p) = (if q = pane then Some e else panes_current memory_store q p)"
  using assms mem.read_create[of "store p"]
  by (simp add: panes_insert_def addPane_def panes_current_def Let_def panes_inv_def)

text \<open>What each kind of commit does to the claims; \<open>handed_over\<close> is a visit or open that another holder gets.\<close>

definition handed_over ::
  "((js_value, entry_rest) stored, 'h) router_parts \<Rightarrow> entry \<Rightarrow> navigation_result \<Rightarrow>
   ((js_value, entry_rest) stored, 'h) router \<Rightarrow> ((js_value, entry_rest) stored, 'h) router \<Rightarrow> bool" where
  "handed_over parts e res r r' \<longleftrightarrow>
    rt_panes r' = rt_panes r \<and> rt_lastKnown r' = rt_lastKnown r \<and> rt_history r' = rt_history r \<and>
    (\<exists>h hs. paneHolders parts r = Inr hs \<and> h \<in> set (concat (hs # rt_sources r)) \<and> res = NavActivated (ch_owner h) \<and>
       entryClaim (rp_routes parts) (Some (e_location e)) = Inr (Some (ch_claim h)))"

lemma held_handed_over:
  assumes "holderFor parts check (e_location e) r = Inr (Some h)" and "res = NavActivated (ch_owner h)"
    and "rt_panes r' = rt_panes r" and "rt_lastKnown r' = rt_lastKnown r" and "rt_history r' = rt_history r"
  shows "handed_over parts e res r r'"
  using holderFor_Some[OF assms(1)] assms(2-5) by (auto simp: handed_over_def)

lemma wrote_panes: "url_write parts mode landed (r\<lparr>rt_panes := p\<rparr>) = (x, r') \<Longrightarrow> rt_panes r' = p"
  using arg_cong[OF url_write_only, of parts mode landed "r\<lparr>rt_panes := p\<rparr>" x r' rt_panes] by simp

lemma visit_stays_unique:
  assumes inv: "panes_inv memory_store ms_inv (rt_panes r)" and memory: "rp_store parts = memory_store"
    and unique: "claims_unique parts r"
    and valid: "valid_commit parts (CommitVisit vc) es r" and exclusive: "exclusive_commit parts (CommitVisit vc) r"
    and applied: "applyVisitNavigation parts vc es r = (Inr res, r')"
  shows "claims_unique parts r' \<and> (res = NavCommitted (vc_pane vc) \<or> handed_over parts (hd es) res r r')"
proof -
  obtain e where es: "hd es = e" and e: "applyUnlessHeld parts (visit_check vc) (visitWriteMode (vi_history (vc_visit vc))) e
      (applyVisit parts (vc_pane vc) (vc_visit vc) e) r = (Inr res, r')"
    using applied by (cases es) (auto simp: applyVisitNavigation_def)
  show ?thesis using e
  proof (cases rule: applyUnlessHeld_cases)
    case (held h)
    then show ?thesis using held_handed_over[OF held(1-5)] unique claims_cong[of r' r] es by auto
  next
    case free
    have v: "res = NavCommitted (vc_pane vc)" "ids (rt_panes r') = ids (rt_panes r)"
        "router_current parts (vc_pane vc) r' = Some e" "\<And>q. q \<noteq> vc_pane vc \<Longrightarrow> router_current parts q r' = router_current parts q r"
      and mem: "vc_pane vc \<in> set (ids (rt_panes r))"
      using visit_panes[OF free(2) memory inv] valid by auto
    have "claims_unique parts r'"
    proof (rule unique_update[OF unique _ v(4)])
      fix k q assume k: "pane_claim parts r' (vc_pane vc) = Inr (Some k)" "q \<in> set (ids (rt_panes r))" "q \<noteq> vc_pane vc"
      have ek: "entryClaim (rp_routes parts) (Some (e_location e)) = Inr (Some k)" using k(1) v(3) by (simp add: pane_claim_def)
      show "pane_claim parts r q \<noteq> Inr (Some k)"
      proof (cases "pane_claim parts r (vc_pane vc) = Inr (Some k)")
        case True
        then show ?thesis using unique mem k(2,3) unfolding claims_unique_def by blast
      next
        case False
        show ?thesis
          by (rule holderFor_None[OF free(1) _ _ ek _ k(2) _ k(3)])
            (use exclusive False in \<open>simp_all add: visit_check_def\<close>)
      qed
    qed (use v(2) mem in auto)
    then show ?thesis using v(1) by simp
  qed
qed

lemma open_stays_unique:
  assumes inv: "panes_inv memory_store ms_inv (rt_panes r)" and memory: "rp_store parts = memory_store"
    and unique: "claims_unique parts r"
    and valid: "valid_commit parts (CommitOpen oc) es r" and exclusive: "exclusive_commit parts (CommitOpen oc) r"
    and applied: "applyOpen parts oc es r = (Inr res, r')"
  shows "claims_unique parts r' \<and> (res = NavCommitted (oc_pane oc) \<or> handed_over parts (hd es) res r r')"
proof -
  let ?check = "\<lparr>cc_pane = Some (oc_pane oc), cc_from = None, cc_allowDuplicate = oc_allowDuplicate oc, cc_besides = oc_besides oc\<rparr>"
  obtain e where es: "hd es = e" and e: "applyUnlessHeld parts ?check ModePush e
         (\<lambda>r. and_then
            (url_write parts ModePush None
              (r\<lparr>rt_panes := panes_insert (rp_store parts) (oc_pane oc) e (oc_insertAt oc) (Some (oc_decided oc)) (rt_panes r)\<rparr>))
            (\<lambda>_ r1. (Inr (NavCommitted (oc_pane oc)), r1))) r = (Inr res, r')"
    using applied by (cases es) (auto simp: applyOpen_def)
  have new: "oc_pane oc \<notin> set (ids (rt_panes r))" using valid by simp
  show ?thesis using e
  proof (cases rule: applyUnlessHeld_cases)
    case (held h)
    then show ?thesis using held_handed_over[OF held(1-5)] unique claims_cong[of r' r] es by auto
  next
    case free
    let ?p = "panes_insert memory_store (oc_pane oc) e (oc_insertAt oc) (Some (oc_decided oc)) (rt_panes r)"
    have p: "rt_panes r' = ?p" "res = NavCommitted (oc_pane oc)"
      using free(2) memory wrote_panes by (auto simp: and_then_Inr)
    have cur: "router_current parts q r' = (if q = oc_pane oc then Some e else router_current parts q r)" for q
      using inserted_current[OF inv new] p(1) memory by (simp add: router_current_def)
    have "claims_unique parts r'"
    proof (rule unique_update[OF unique, of _ "oc_pane oc"])
      show "set (ids (rt_panes r')) \<subseteq> insert (oc_pane oc) (set (ids (rt_panes r)))"
        by (auto simp: p(1) panes_insert_def addPane_def Let_def)
      fix k q assume k: "pane_claim parts r' (oc_pane oc) = Inr (Some k)" "q \<in> set (ids (rt_panes r))" "q \<noteq> oc_pane oc"
      have ek: "entryClaim (rp_routes parts) (Some (e_location e)) = Inr (Some k)" using k(1) cur by (simp add: pane_claim_def)
      show "pane_claim parts r q \<noteq> Inr (Some k)"
        by (rule holderFor_None[OF free(1) _ _ ek _ k(2) _ k(3)])
          (use exclusive in \<open>simp_all add: entryClaim_def\<close>)
    qed (simp add: cur)
    then show ?thesis using p(2) by simp
  qed
qed

lemma remove_stays_unique:
  assumes inv: "panes_inv memory_store ms_inv (rt_panes r)" and memory: "rp_store parts = memory_store"
    and unique: "claims_unique parts r"
    and applied: "applyRemove parts pane r = (Inr res, r')"
  shows "claims_unique parts r' \<and> res = NavCommitted pane"
proof -
  have p: "rt_panes r' = panes_remove memory_store pane (rt_panes r)" "res = NavCommitted pane"
    using memory applied wrote_panes by (auto simp: applyRemove_def and_then_Inr)
  have cur: "router_current parts q r' = (if q = pane then None else router_current parts q r)" for q
    using inv p(1) mem.read_remove[of "store (rt_panes r)"]
    by (simp add: router_current_def memory panes_current_def panes_remove_def forget_def panes_inv_def)
  have "claims_unique parts r'"
    by (rule unique_update[OF unique, of _ pane])
      (use p(1) cur in \<open>auto simp: panes_remove_def forget_def pane_claim_def entryClaim_def\<close>)
  then show ?thesis using p(2) by simp
qed

lemma move_stays_unique:
  assumes inv: "panes_inv memory_store ms_inv (rt_panes r)" and memory: "rp_store parts = memory_store"
    and unique: "claims_unique parts r"
    and applied: "applyMove parts pane dest r = (Inr res, r')"
  shows "claims_unique parts r' \<and> res = NavCommitted pane"
proof -
  obtain moved p where m: "panes_move pane dest (rt_panes r) = (moved, p)" by (cases "panes_move pane dest (rt_panes r)")
  have p: "rt_panes r' = p" "res = NavCommitted pane"
    using applied m wrote_panes by (auto simp: applyMove_def and_then_Inr split: if_splits)
  have "set (ids p) = set (ids (rt_panes r))" "store p = store (rt_panes r)"
    using m by (auto simp: panes_move_def Let_def split: if_splits)
  then have "claims_unique parts r'"
    using unique p(1) by (simp add: claims_unique_def pane_claim_def router_current_def panes_current_def)
  then show ?thesis using p(2) by simp
qed

text \<open>
  C18.  A resource is shown once.  A visit or an open that may not duplicate, a removal and a move keep the claims of the open panes distinct, provided
  that the entry a visit comes from has the claim that its pane has when the visit is applied, as it has when
  \<open>navigate\<close> starts it; \<open>stale_visit_duplicates\<close> shows what comes of it when the pane's entry is rewritten in between.  A visit that is handed over instead names the owner of a holder of that very claim outside its own
  pane, and changes neither panes nor URL.
\<close>

theorem claims_stay_unique:
  assumes "panes_inv memory_store ms_inv (rt_panes r)" and "rp_store parts = memory_store"
    and "claims_unique parts r" and "valid_commit parts c es r" and "exclusive_commit parts c r"
    and "apply_commit parts c es r = (Inr res, r')"
  shows "claims_unique parts r' \<and>
    (\<forall>owner. res = NavActivated owner \<longrightarrow> rt_panes r' = rt_panes r \<and> rt_lastKnown r' = rt_lastKnown r \<and> rt_history r' = rt_history r \<and>
       (\<exists>h hs. paneHolders parts r = Inr hs \<and> h \<in> set (concat (hs # rt_sources r)) \<and> ch_owner h = owner \<and>
          entryClaim (rp_routes parts) (Some (e_location (hd es))) = Inr (Some (ch_claim h))))"
proof -
  have "claims_unique parts r' \<and> ((\<exists>pane. res = NavCommitted pane) \<or> handed_over parts (hd es) res r r')"
  proof (cases c)
    case (CommitVisit vc)
    from visit_stays_unique[OF assms(1-5)[unfolded this]] show ?thesis using assms(6) CommitVisit by auto
  next
    case (CommitOpen oc)
    from open_stays_unique[OF assms(1-5)[unfolded this]] show ?thesis using assms(6) CommitOpen by auto
  next
    case (CommitRemove pane)
    then show ?thesis using remove_stays_unique[OF assms(1-3), of pane res r'] assms(6) by simp
  next
    case (CommitMove pane dest)
    then show ?thesis using move_stays_unique[OF assms(1-3), of pane dest res r'] assms(6) by simp
  qed (use assms(5) in simp)
  then show ?thesis by (auto simp: handed_over_def)
qed

end
