(* ===== verification/Pane_Requests.thy ===== *)
theory Pane_Requests
  imports Router_Exclusive
begin

text \<open>
  What a navigation in a pane asks the runner for: a visit that keeps the panes under one root, and whose
  commit meets what \<open>url_stays_in_step\<close> and \<open>claims_stay_unique\<close> ask of it.
\<close>

lemma findStep_loop_found:
  "findStep_loop visit es forward i n = Some (e, j) \<Longrightarrow> visit e \<and> hasIndex es j \<and> e = es ! nat j"
proof (induction visit es forward i n rule: findStep_loop.induct)
  case (1 visit es forward i n)
  then show ?case
    by (subst (asm) (3) findStep_loop.simps) (auto simp: Let_def split: if_splits)
qed

lemma findStep_found:
  assumes "findStep_try s delta visit = Inr (Some (e, i))"
  shows "visit e = Inr True \<and> hasIndex (entries s) i \<and> e = entries s ! nat i"
proof -
  have "findStep s delta (\<lambda>e. visit e = Inr True) = Some (e, i)"
    using assms by (auto simp: findStep_try_def Let_def split: js_number.splits if_splits option.splits)
  then show ?thesis
    using findStep_loop_found[of "\<lambda>e. visit e = Inr True"] by (auto simp: findStep_def split: js_number.splits if_splits)
qed

lemma visitable_root:
  assumes "visitableIn parts pane allow r e = Inr True"
  shows "\<not> leavesSharedRoute parts (Some pane) (e_location e) r"
  using assms by (auto simp: visitableIn_def bind_result_Inr)

lemma createEntry_location: "createEntry env newId routes l from options = Inr e \<Longrightarrow> e_location e = l"
  by (auto simp: createEntry_def bind_result_Inr)

lemma visit_in_pane:
  assumes "navigateToTarget parts newId pane e t options r = (Inr (StartVisit nav vc), r')"
  obtains l where "\<not> leavesSharedRoute parts (Some pane) l r" "visitLocation parts newId pane e l options r = Inr (StartVisit nav vc)" "r' = r"
proof (cases "resolve_in parts (Some e) t options")
  case (Inl x)
  then show thesis using assms by (simp add: navigateToTarget_def)
next
  case (Inr found)
  show thesis
  proof (cases found)
    case None
    then show thesis using assms Inr by (simp add: navigateToTarget_def)
  next
    case (Some l)
    show thesis
    proof (cases "leavesSharedRoute parts (Some pane) l r")
      case True
      obtain out r1 where o: "navigateToLocation parts newId l (no_entry options) r = (out, r1)"
        by (cases "navigateToLocation parts newId l (no_entry options) r")
      show thesis
      proof (cases out)
        case (Inl x)
        then show thesis using assms \<open>resolve_in parts (Some e) t options = Inr found\<close> Some True o by (simp add: navigateToTarget_def)
      next
        case (Inr y)
        then show thesis using assms \<open>resolve_in parts (Some e) t options = Inr found\<close> Some True o
          by (cases y) (simp add: navigateToTarget_def)
      qed
    next
      case False
      have "(visitLocation parts newId pane e l options r, r) = (Inr (StartVisit nav vc), r')"
        using assms by (simp only: navigateToTarget_def Inr Some False sum.case option.case if_False)
      then show thesis unfolding prod.inject by (elim conjE) (rule that[OF False _ sym], assumption+)
    qed
  qed
qed

text \<open>The visit and its target.\<close>

lemma pane_visit_asked:
  assumes "pane_navigate parts newId pane to options r = (Inr (StartVisit nav vc), r')"
    and f: "router_current parts pane r = Some from"
  shows "\<exists>dest i. r' = r \<and> nv_targets nav = [\<lparr>pt_pane = pane, pt_from = Some from, pt_to = dest\<rparr>] \<and> nv_removed nav = [] \<and>
        vc_pane vc = pane \<and> vc_from vc = Some from \<and> vc_allowDuplicate vc = no_allowDuplicate options \<and>
        \<not> leavesSharedRoute parts (Some pane) (e_location dest) r \<and>
        (vi_history (vc_visit vc) \<in> {VisitPush, VisitReplace} \<or>
         (vi_history (vc_visit vc) = VisitGo i \<and> (\<exists>s. st_read (rp_store parts) pane (store (rt_panes r)) = Some s \<and>
            hasIndex (entries s) i \<and> dest = entries s ! nat i)))"
proof (cases to)
  case (ToStep delta)
  then obtain s e i where s: "st_read (rp_store parts) pane (store (rt_panes r)) = Some s"
      "findStep_try s delta (visitableIn parts pane (no_allowDuplicate options) r) = Inr (Some (e, i))"
    using assms(1) f by (auto simp: pane_navigate_def traverse_def split: option.splits sum.splits)
  from findStep_found[OF s(2)] visitable_root[of parts pane "no_allowDuplicate options" r e] show ?thesis
    using assms(1) f ToStep s
    by (auto simp: pane_navigate_def traverse_def start_visit_def visitNavigation_def stepVisit_def)
next
  case (ToTarget t)
  then have n: "navigateToTarget parts newId pane from t options r = (Inr (StartVisit nav vc), r')"
    using assms(1) f by (simp add: pane_navigate_def)
  obtain l where l: "\<not> leavesSharedRoute parts (Some pane) l r" "visitLocation parts newId pane from l options r = Inr (StartVisit nav vc)" "r' = r"
    by (rule visit_in_pane[OF n])
  obtain e where e: "createEntry (rp_env parts) newId (rp_routes parts) l (Some from) (no_entry options) = Inr e"
    using l(2) by (auto simp: visitLocation_def split: sum.splits)
  have "start_visit \<lparr>pt_pane = pane, pt_from = Some from, pt_to = e\<rparr> (if no_replace options then REPLACE else PUSH)
          CauseNavigate (no_allowDuplicate options) = StartVisit nav vc"
    using l(2) e by (simp add: visitLocation_def split: if_splits)
  then show ?thesis using l(1,3) createEntry_location[OF e]
    by (auto simp: start_visit_def visitNavigation_def PUSH_def REPLACE_def)
qed

text \<open>
  C19.  Panes stay under one root.  A visit that \<open>navigate\<close> starts in a pane goes to an entry whose top-level route is that of every
  other open pane, leaves the router as it was, steps only to entries of the pane's own history, and knows what
  the pane shows; unless it may duplicate, its commit is one that keeps the claims distinct.
\<close>

theorem pane_visits_share_root:
  assumes "pane_navigate parts newId pane to options r = (Inr (StartVisit nav vc), r')"
  shows "r' = r \<and> vc_pane vc = pane \<and> nv_removed nav = [] \<and>
    (\<exists>from dest. router_current parts pane r = Some from \<and> vc_from vc = Some from \<and>
       nv_targets nav = [\<lparr>pt_pane = pane, pt_from = Some from, pt_to = dest\<rparr>] \<and>
       (\<forall>q \<in> set (ids (rt_panes r)). \<forall>e. q \<noteq> pane \<longrightarrow> router_current parts q r = Some e \<longrightarrow>
          root_of (e_location e) = root_of (e_location dest)) \<and>
       (\<forall>i. vi_history (vc_visit vc) = VisitGo i \<longrightarrow>
          (\<exists>s. st_read (rp_store parts) pane (store (rt_panes r)) = Some s \<and> hasIndex (entries s) i \<and> dest = entries s ! nat i)) \<and>
       valid_commit parts (CommitVisit vc) [dest] r) \<and>
    (no_allowDuplicate options \<or> exclusive_commit parts (CommitVisit vc) r)"
proof -
  obtain "from" where f: "router_current parts pane r = Some from"
    using assms by (auto simp: pane_navigate_def split: option.splits)
  have shared: "root_of (e_location e) = root_of l"
    if "\<not> leavesSharedRoute parts (Some pane) l r" "q \<in> set (ids (rt_panes r))" "q \<noteq> pane" "router_current parts q r = Some e" for l q e
    using that by (force simp: leavesSharedRoute_def list_ex_iff)
  have exclusive: "exclusive_commit parts (CommitVisit vc) r" if "vc_pane vc = pane" "vc_from vc = Some from" "\<not> vc_allowDuplicate vc"
    using that f by (simp add: pane_claim_def)
  let ?asked = "\<lambda>dest i. r' = r \<and> nv_targets nav = [\<lparr>pt_pane = pane, pt_from = Some from, pt_to = dest\<rparr>] \<and> nv_removed nav = [] \<and>
        vc_pane vc = pane \<and> vc_from vc = Some from \<and> vc_allowDuplicate vc = no_allowDuplicate options \<and>
        \<not> leavesSharedRoute parts (Some pane) (e_location dest) r \<and>
        (vi_history (vc_visit vc) \<in> {VisitPush, VisitReplace} \<or>
         (vi_history (vc_visit vc) = VisitGo i \<and> (\<exists>s. st_read (rp_store parts) pane (store (rt_panes r)) = Some s \<and>
            hasIndex (entries s) i \<and> dest = entries s ! nat i)))"
  obtain dest i where d: "?asked dest i" using pane_visit_asked[OF assms f] by (elim exE) (rule that)
  then have "\<not> leavesSharedRoute parts (Some pane) (e_location dest) r" by blast
  note roots = shared[OF this]
  have "no_allowDuplicate options \<or> exclusive_commit parts (CommitVisit vc) r" using exclusive d by metis
  moreover have "valid_commit parts (CommitVisit vc) [dest] r" using d by auto
  moreover have "\<exists>s. st_read (rp_store parts) pane (store (rt_panes r)) = Some s \<and> hasIndex (entries s) j \<and> dest = entries s ! nat j"
    if "vi_history (vc_visit vc) = VisitGo j" for j
    using d that by auto
  ultimately show ?thesis using d f roots by (intro conjI exI[of _ "from"] exI[of _ dest]) simp_all
qed

end
