(* ===== verification/Router_Examples.thy ===== *)
theory Router_Examples
  imports Route_Examples Phases
begin

text \<open>The properties of navigations at the small table of routes of \<open>Route_Examples\<close>.\<close>

section \<open>Middleware\<close>

definition example_router_env :: router_env where
  "example_router_env = \<lparr>deq_location = (=), deq_value = (=), deq_search = (=), deq_params = (=),
     same_schema = (\<lambda>a b. a = None \<and> b = None), same_props = (=), structuredClone = Some, toLower = id\<rparr>"

definition example_entry :: "string \<Rightarrow> route_state \<Rightarrow> entry" where
  "example_entry i route = \<lparr>e_id = u i, e_props = None, e_keepProps = False,
     e_rest = \<lparr>er_location = locationOf route None, er_state = Undefined, er_meta = None\<rparr>\<rparr>"

text \<open>The home page redirects to the list.\<close>

definition home_to_list :: "nav_cause middleware_handler" where
  "home_to_list n c = (if mx_path c = u ''/'' then RedirectTo (u ''/list'') else PassOn)"

definition example_run :: "nav_cause middleware_run" where
  "example_run = \<lparr>mr_env = example_router_env, mr_routes = example_manifest, mr_handlers = [home_to_list],
     mr_request = \<lparr>mq_from = Some (example_entry ''f'' (app_match ''list'' [])),
                   mq_to = example_entry ''e'' (app_match ''home'' []), mq_cause = CauseNavigate,
                   mq_externalSearch = None\<rparr>,
     mr_aborted = (\<lambda>n. False)\<rparr>"

lemma path_home: "formatPanePath example_manifest (app_match ''home'' []) = Inr (u ''/'')"
  by (simp add: formatPanePath_def formats)

lemma path_list: "formatPanePath example_manifest (app_match ''list'' []) = Inr (u ''/list'')"
  by (simp add: formatPanePath_def formats encodeSegment_def encodeURIComponent_def encode_char_def
      scalar_def SPLIT_PATH_SEPARATOR_def unreserved_def alphanumeric_def)

lemma target_list:
  "resolveTarget id example_manifest (Some (locationOf (app_match ''home'' []) None)) (ToPath (u ''/list'')) (Some 0) [] =
    Inr (Some (locationOf (app_match ''list'' []) None))"
proof -
  have "resolveDestination id example_manifest (Some (locationOf (app_match ''home'' []) None)) (ToPath (u ''/list'')) (Some 0) =
      Inr (Some \<lparr>rr_route = app_match ''list'' [], rr_search = None\<rparr>)"
    by (simp add: resolvePath_def splitTarget_def walkPath_def walkPath_step_def decodeSegment_def decodeURIComponent.simps
        decode_list[simplified] parsePaneSearch_def query_new_def usv_def form_parse_def)
  moreover have "carriedSearch example_manifest (Some (locationOf (app_match ''home'' []) None)) \<lparr>rr_route = app_match ''list'' [], rr_search = None\<rparr> = Inr None"
    by (simp add: carriedSearch_def searchRootId_def resolve_list resolve_home locationOf_def)
  ultimately show ?thesis by (simp add: resolveTarget_def locationOf_def filterRouteSearch_def)
qed

lemma redirect_home:
  "redirectEntry example_router_env example_manifest (example_entry ''e'' (app_match ''home'' [])) (u ''/list'') =
    Inr (example_entry ''e'' (app_match ''list'' []))"
  using target_list
  by (simp only: redirectEntry_def example_router_env_def example_entry_def)
    (simp add: locationOf_def filterRouteSearch_def with_location_def)

lemma example_redirected: "runMiddleware example_run = Some (LetThrough (example_entry ''e'' (app_match ''list'' [])))"
proof -
  have "runEntry_step example_run (example_entry ''e'' (app_match ''home'' [])) [] 0 =
      (Again (example_entry ''e'' (app_match ''list'' [])), [(u ''/'', None)], 1)"
    using redirect_home path_home
    by (simp add: runEntry_step_def example_run_def middlewareContext_def home_to_list_def)
      (simp add: example_entry_def locationOf_def home_to_list_def middlewareContext_def)
  note step1 = this
  have "runEntry_step example_run (example_entry ''e'' (app_match ''list'' [])) [(u ''/'', None)] 1 =
      (Finished (LetThrough (example_entry ''e'' (app_match ''list'' []))), [(u ''/'', None), (u ''/list'', None)], 2)"
    using path_list
    by (simp add: runEntry_step_def example_run_def middlewareContext_def home_to_list_def)
      (simp add: example_entry_def locationOf_def home_to_list_def middlewareContext_def)
  then have "runEntry example_run (example_entry ''e'' (app_match ''list'' [])) [(u ''/'', None)] 1 =
      Some (LetThrough (example_entry ''e'' (app_match ''list'' [])), [(u ''/'', None), (u ''/list'', None)], 2)"
    by (subst runEntry.simps) simp
  then have "runEntry example_run (example_entry ''e'' (app_match ''home'' [])) [] 0 =
      Some (LetThrough (example_entry ''e'' (app_match ''list'' [])), [(u ''/'', None), (u ''/list'', None)], 2)"
    using step1 by (subst runEntry.simps) simp
  then show ?thesis by (simp add: runMiddleware_def example_run_def)
qed

theorem middleware_lets_through_witness:
  "passed_all example_run (example_entry ''e'' (app_match ''list'' []))"
  using middleware_lets_through[OF example_redirected]
  by (auto simp: example_run_def example_entry_def locationOf_def app_match_def)

lemma example_targets: "finite {t. \<exists>h \<in> set (mr_handlers example_run). \<exists>n c. h n c = RedirectTo t}"
  by (rule finite_subset[of _ "{u ''/list''}"]) (auto simp: example_run_def home_to_list_def split: if_splits)

theorem middleware_ends_witness: "\<exists>out. runMiddleware example_run = Some out"
  using middleware_ends[OF example_targets] by blast

section \<open>Guards and a whole navigation\<close>

text \<open>A guard of the list's view refuses, another one fails; a navigation moves the pane from the list to the home page.\<close>

definition example_options :: "nat \<Rightarrow> nat phase_options" where
  "example_options guard = \<lparr>po_env = example_router_env, po_routes = example_manifest, po_middleware = [home_to_list],
     po_guards = \<lparr>gr_items = [(0, \<lparr>rg_pane = u ''p'', rg_depth = 1, rg_guard = guard, rg_search = []\<rparr>)], gr_next = 1\<rparr>,
     po_ask = (\<lambda>g q. if g = 0 then Returns False else Rejects), po_current = (\<lambda>p. None)\<rparr>"

definition example_navigation :: navigation where
  "example_navigation = \<lparr>nv_cause = CauseNavigate,
     nv_targets = [\<lparr>pt_pane = u ''p'', pt_from = Some (example_entry ''f'' (app_match ''list'' [])),
                    pt_to = example_entry ''e'' (app_match ''home'' [])\<rparr>],
     nv_removed = [], nv_externalSearch = None\<rparr>"

lemma example_depth:
  "firstChangedDepth example_manifest (as_route_entry (example_entry ''f'' (app_match ''list'' [])))
     (Some (as_route_entry (example_entry ''e'' (app_match ''home'' [])))) = Inr (Some 1)"
  by (simp add: firstChangedDepth_def renderKeys_def example_entry_def as_route_entry_def locationOf_def resolve_list resolve_home)
    (simp add: renderKey_def app_match_def example_nodes example_routes_def)

lemma example_verdict:
  "checkGuards (example_options g) example_navigation = Inr (if g = 0 then Now False else Later True)"
  using example_depth
  by (simp add: checkGuards_def targetChecks_def targetCheck_def example_navigation_def example_options_def)
    (simp add: checksFor_def select_guards_def relevant_def removalChecks_def)

theorem guards_decide_witness:
  "\<exists>q. concerned (example_options 0) example_navigation
      \<lparr>rg_pane = u ''p'', rg_depth = 1, rg_guard = 0, rg_search = []\<rparr> q"
  using guards_decide[OF example_verdict[of 0]] by (auto simp: example_options_def)

lemma example_states: "states_ok (example_options g) example_navigation"
  by (simp add: states_ok_def identity_of_schemas_def example_options_def example_router_env_def example_navigation_def
      example_entry_def state_from_def)

theorem undisturbed_navigation_witness:
  "\<exists>es. sim_commands (simulate runDef Idle (undisturbed (example_options 1) example_navigation)) = [Commit example_navigation es] \<and>
     list_all2 (valid_destination (example_options 1)) (nv_targets example_navigation) es"
proof -
  have g: "guards_report (example_options 1) example_navigation = Allowed"
    using example_verdict[of 1] by (simp add: guards_report_def)
  let ?e = "example_entry ''e'' (app_match ''list'' [])"
  have "destination (example_options 1) (\<lambda>_. False) example_navigation (hd (nv_targets example_navigation)) = Some (PhaseValue ?e)"
    using example_redirected
    by (simp add: destination_def example_options_def example_navigation_def example_run_def)
      (simp add: withValidState_def example_entry_def)
  then have r: "middleware_report (example_options 1) (\<lambda>_. False) example_navigation = Some (Resolved [?e])"
    by (simp add: middleware_report_def resolveDestinations_def all_outcomes_def example_navigation_def)
  have "preload_report (example_options 1) example_navigation [?e] = Preloaded"
    by (simp add: preload_report_def preloadEntries_def preloadLocation_def example_options_def example_entry_def
        locationOf_def resolve_list)
  then have c: "sim_commands (simulate runDef Idle (undisturbed (example_options 1) example_navigation)) = [Commit example_navigation [?e]]"
    using g r by (simp add: undisturbed_commands)
  have "finite {t. \<exists>h \<in> {home_to_list}. \<exists>n c. h n c = RedirectTo t}"
    by (rule finite_subset[of _ "{u ''/list''}"]) (auto simp: home_to_list_def split: if_splits)
  then have "middleware_decides (example_options 1)"
    by (simp add: middleware_decides_def example_options_def) (simp add: home_to_list_def)
  from undisturbed_navigation[OF example_states[of 1] this] show ?thesis unfolding c by auto
qed

end
