(* ===== verification/Sync_Examples.thy ===== *)
theory Sync_Examples
  imports Router_Reload Pane_Requests Router_Examples
begin

text \<open>
  The properties of whole routers at the small table of routes: a router in memory opens the list, then a document to the left of
  it, and a second open of that document brings the first up.
\<close>

section \<open>A router with two panes\<close>

definition sample_parts :: "((js_value, entry_rest) stored, memory_history) router_parts" where
  "sample_parts = \<lparr>rp_env = example_router_env, rp_routes = example_manifest, rp_store = memory_store,
     rp_adapter = memory_adapter, rp_paneId = sample_supply\<rparr>"

lemma sample_parts_simps [simp]:
  "rp_env sample_parts = example_router_env" "rp_routes sample_parts = example_manifest" "rp_store sample_parts = memory_store"
  "rp_adapter sample_parts = memory_adapter" "rp_paneId sample_parts = sample_supply"
  by (simp_all add: sample_parts_def)

definition sample_router :: "((js_value, entry_rest) stored, memory_history) router" where
  "sample_router = createUrl sample_parts (panes_new []) (createMemoryHistory previous_location)"

definition shown_entry :: "string \<Rightarrow> encoded_pane \<Rightarrow> entry" where
  "shown_entry i p = \<lparr>e_id = u i, e_props = None, e_keepProps = False,
     e_rest = \<lparr>er_location = en_location (ep_entry p), er_state = Undefined, er_meta = None\<rparr>\<rparr>"

definition sample_open :: "string \<Rightarrow> pane_id list \<Rightarrow> open_commit" where
  "sample_open i decided = \<lparr>oc_pane = u i, oc_besides = None, oc_allowDuplicate = False, oc_insertAt = 0, oc_decided = decided\<rparr>"

definition list_entry :: entry where
  "list_entry = shown_entry ''q'' (example_pane ''q'' (app_match ''list'' []) None)"

definition doc_entry :: "string \<Rightarrow> entry" where
  "doc_entry i = shown_entry i (example_pane i (app_match ''doc'' [(u ''id'', Str (u ''a''))]) (Some [(u ''view'', [(u ''q'', [u ''x''])])]))"

text \<open>An open that nobody holds the claim of, at an adapter that pushes whatever it is given.\<close>

lemma open_goes_through:
  assumes "holderFor parts \<lparr>cc_pane = Some (oc_pane oc), cc_from = None, cc_allowDuplicate = oc_allowDuplicate oc, cc_besides = oc_besides oc\<rparr>
      (e_location e) r = Inr None"
    and "p = panes_insert (rp_store parts) (oc_pane oc) e (oc_insertAt oc) (Some (oc_decided oc)) (rt_panes r)"
    and "encodePanes (rp_routes parts) (shownPanes parts (r\<lparr>rt_panes := p\<rparr>)) (rt_lastKnown r) False = Inr loc"
    and "rp_adapter parts = memory_adapter"
  obtains r' where "apply_commit parts (CommitOpen oc) [e] r = (Inr (NavCommitted (oc_pane oc)), r')" "rt_panes r' = p"
    "rt_sources r' = rt_sources r" "rt_inFlight r' = rt_inFlight r" "rt_lastKnown r' = loc \<or> rt_lastKnown r' = rt_lastKnown r"
proof -
  have "ha_write memory_adapter loc ModePush h \<noteq> None" for h by (simp add: memory_adapter_def memory_apply_def)
  then obtain h where h: "ha_write memory_adapter loc ModePush (rt_history r) = Some h" by blast
  have "\<exists>r'. url_write parts ModePush None (r\<lparr>rt_panes := p\<rparr>) = (Inr (), r') \<and> rt_panes r' = p \<and> rt_sources r' = rt_sources r \<and>
      rt_inFlight r' = rt_inFlight r \<and> (rt_lastKnown r' = loc \<or> rt_lastKnown r' = rt_lastKnown r)"
    by (simp add: url_write_def Let_def assms(3,4) h)
  then show thesis
    using that assms(1,2) by (auto simp: applyOpen_def applyUnlessHeld_def)
qed

text \<open>The claims there.\<close>

lemma claim_list: "claimOf example_manifest (app_match ''list'' []) = Inr None"
  by (simp add: claimOf_def resolve_list) (simp add: example_nodes example_routes_def)

lemma claim_doc: "claimOf example_manifest (app_match ''doc'' [(u ''id'', Str (u ''a''))]) = Inr (Some (u ''doc:a''))"
  by (simp add: claimOf_def resolve_doc)
    (simp add: example_nodes example_routes_def doc_claim_def routeParams_def app_match_def assertValidClaim_def name_defs)

definition one_pane :: "(js_value, entry_rest) stored panes" where
  "one_pane = panes_insert memory_store (u ''q'') list_entry 0 (Some []) (panes_new [])"

definition two_panes :: "(js_value, entry_rest) stored panes" where
  "two_panes = panes_insert memory_store (u ''p'') (doc_entry ''p'') 0 (Some [u ''q'']) one_pane"

lemma one_pane_simps: "ids one_pane = [u ''q'']" "panes_inv memory_store ms_inv one_pane"
    "panes_current memory_store pane one_pane = (if pane = u ''q'' then Some list_entry else None)"
proof -
  have new: "u ''q'' \<notin> set (ids (panes_new []))" by (simp add: panes_new_def)
  show "ids one_pane = [u ''q'']" by (simp add: one_pane_def panes_insert_def panes_new_def addPane_def Let_def insertionIndex_def insert_at_def)
  show "panes_inv memory_store ms_inv one_pane" unfolding one_pane_def by (rule mem.insert_inv[OF panes_new_inv new])
  show "panes_current memory_store pane one_pane = (if pane = u ''q'' then Some list_entry else None)"
    unfolding one_pane_def inserted_current[OF panes_new_inv new] by (simp add: panes_current_def panes_new_def memory_store_def ms_read_def)
qed

lemma two_panes_simps: "ids two_panes = [u ''p'', u ''q'']" "panes_inv memory_store ms_inv two_panes"
    "panes_current memory_store pane two_panes =
      (if pane = u ''p'' then Some (doc_entry ''p'') else if pane = u ''q'' then Some list_entry else None)"
proof -
  have new: "u ''p'' \<notin> set (ids one_pane)" by (simp add: one_pane_simps)
  have skip: "skipOpenedSince [u ''q''] [u ''q''] 0 = 0" by (subst skipOpenedSince.simps) (simp add: isOpenedSince_def)
  show "ids two_panes = [u ''p'', u ''q'']"
    using one_pane_simps(1) skip
    by (simp add: two_panes_def panes_insert_def addPane_def Let_def insertionIndex_def insert_at_def)
  show "panes_inv memory_store ms_inv two_panes" unfolding two_panes_def by (rule mem.insert_inv[OF one_pane_simps(2) new])
  show "panes_current memory_store pane two_panes =
      (if pane = u ''p'' then Some (doc_entry ''p'') else if pane = u ''q'' then Some list_entry else None)"
    unfolding two_panes_def inserted_current[OF one_pane_simps(2) new] one_pane_simps(3) by simp
qed

lemma shown_panes:
  "rt_panes r = one_pane \<Longrightarrow> shownPanes sample_parts r = [example_pane ''q'' (app_match ''list'' []) None]"
  "rt_panes r = two_panes \<Longrightarrow> shownPanes sample_parts r = example_panes"
  by (simp_all add: shownPanes_def router_current_def one_pane_simps two_panes_simps encoded_of_def as_route_entry_def
      list_entry_def doc_entry_def shown_entry_def example_panes_def example_pane_def)

lemma entry_locations [simp]:
  "l_route (e_location list_entry) = app_match ''list'' []"
  "l_route (e_location (doc_entry i)) = app_match ''doc'' [(u ''id'', Str (u ''a''))]"
  by (simp_all add: list_entry_def doc_entry_def shown_entry_def example_pane_def locationOf_def)

lemma pane_claims:
  "rt_panes r = two_panes \<Longrightarrow> pane_claim sample_parts r pane = Inr (if pane = u ''p'' then Some (u ''doc:a'') else None)"
  "rt_panes r = one_pane \<Longrightarrow> pane_claim sample_parts r pane = Inr None"
  by (simp_all add: pane_claim_def entryClaim_def router_current_def one_pane_simps two_panes_simps claim_list claim_doc del: u_simps)

lemma opens_list:
  obtains r where "apply_commit sample_parts (CommitOpen (sample_open ''q'' [])) [list_entry] sample_router = (Inr (NavCommitted (u ''q'')), r)"
    "rt_panes r = one_pane" "rt_sources r = []" "rt_inFlight r = (\<lambda>_. None)" "x_search (rt_lastKnown r) = []"
proof -
  have p: "one_pane = panes_insert memory_store (u ''q'') list_entry 0 (Some []) (rt_panes sample_router)"
    by (simp add: one_pane_def sample_router_def createUrl_def)
  have held: "holderFor sample_parts
      \<lparr>cc_pane = Some (u ''q''), cc_from = None, cc_allowDuplicate = False, cc_besides = None\<rparr> (e_location list_entry) sample_router = Inr None"
    by (simp add: holderFor_def entryClaim_def claim_list)
  have "panesPath example_manifest [ep_entry (example_pane ''q'' (app_match ''list'' []) None)] = Inr (u ''/list'')"
    by (simp add: panesPath_def formatPanePath_def pane_defs formats encodeSegment_def encodeURIComponent_def encode_char_def
        scalar_def SPLIT_PATH_SEPARATOR_def unreserved_def alphanumeric_def)
  moreover have "panesSearch example_manifest [ep_entry (example_pane ''q'' (app_match ''list'' []) None)] [] = Inr []"
    by (simp add: panesSearch_def pane_defs externalSearchKeys_def leaves filterRouteSearch_def query_defs replacePaneSearchParams_def kept_external_def)
  moreover have ls: "x_search (rt_lastKnown sample_router) = []"
    by (simp add: sample_router_def createUrl_def memory_adapter_def createMemoryHistory_def memory_read_def previous_location_def)
  ultimately obtain loc where loc: "encodePanes (rp_routes sample_parts) (shownPanes sample_parts (sample_router\<lparr>rt_panes := one_pane\<rparr>))
      (rt_lastKnown sample_router) False = Inr loc" "x_search loc = []"
    using shown_panes(1)[of "sample_router\<lparr>rt_panes := one_pane\<rparr>"] by (auto simp: encodePanes_def)
  show thesis
    by (rule open_goes_through[OF _ _ loc(1), of "sample_open ''q'' []" list_entry])
      (use p held loc(2) ls in \<open>auto simp: sample_open_def sample_router_def createUrl_def intro: that\<close>)
qed

lemma opens_doc:
  assumes "rt_panes r = one_pane" and "rt_sources r = []" and "rt_inFlight r = (\<lambda>_. None)" and "x_search (rt_lastKnown r) = []"
  obtains r' where "apply_commit sample_parts (CommitOpen (sample_open ''p'' [u ''q''])) [doc_entry ''p''] r = (Inr (NavCommitted (u ''p'')), r')"
    "rt_panes r' = two_panes" "rt_sources r' = []" "rt_inFlight r' = (\<lambda>_. None)"
proof -
  have p: "two_panes = panes_insert memory_store (u ''p'') (doc_entry ''p'') 0 (Some [u ''q'']) (rt_panes r)"
    by (simp add: two_panes_def assms(1))
  have "paneHolders sample_parts r = Inr []"
    using pane_claims(2)[OF assms(1), of "u ''q''"]
    by (simp add: paneHolders_def assms(1) one_pane_simps paneHolder_def pane_claim_def)
  then have held: "holderFor sample_parts
      \<lparr>cc_pane = Some (u ''p''), cc_from = None, cc_allowDuplicate = False, cc_besides = None\<rparr> (e_location (doc_entry ''p'')) r = Inr None"
    by (simp add: holderFor_def entryClaim_def claim_doc[simplified] holderOf_def assms(2))
  obtain loc where loc: "encodePanes (rp_routes sample_parts) (shownPanes sample_parts (r\<lparr>rt_panes := two_panes\<rparr>)) (rt_lastKnown r) False = Inr loc"
    using shown_panes(2)[of "r\<lparr>rt_panes := two_panes\<rparr>"] by (simp add: encodePanes_def example_path example_search assms(4))
  show thesis
    by (rule open_goes_through[OF _ _ loc, of "sample_open ''p'' [u ''q'']" "doc_entry ''p''"])
      (use p held assms(2,3) in \<open>auto simp: sample_open_def intro: that\<close>)
qed

lemma idle_step:
  assumes "x = url_run_new parts h" and "valid_commit parts c es r" and "apply_commit parts c es r = (Inr res, r')"
  shows "router_step parts hinv shows_l (x\<lparr>ur_router := r\<rparr>) (x\<lparr>ur_router := r'\<rparr>)"
  using router_step.applied[of "x\<lparr>ur_router := r\<rparr>" c parts es res r' hinv shows_l] assms by (simp add: url_run_new_def)

lemma sample_run:
  obtains r where "(router_step sample_parts mh_inv memory_read)\<^sup>*\<^sup>* (url_run_new sample_parts (createMemoryHistory previous_location))
      ((url_run_new sample_parts (createMemoryHistory previous_location))\<lparr>ur_router := r\<rparr>)"
    "rt_panes r = two_panes" "rt_sources r = []" "rt_inFlight r = (\<lambda>_. None)"
proof -
  let ?x = "url_run_new sample_parts (createMemoryHistory previous_location)"
  have same: "?x\<lparr>ur_router := sample_router\<rparr> = ?x" by (simp add: url_run_new_def sample_router_def)
  obtain r1 where r1: "apply_commit sample_parts (CommitOpen (sample_open ''q'' [])) [list_entry] sample_router = (Inr (NavCommitted (u ''q'')), r1)"
    "rt_panes r1 = one_pane" "rt_sources r1 = []" "rt_inFlight r1 = (\<lambda>_. None)" "x_search (rt_lastKnown r1) = []" by (rule opens_list)
  obtain r2 where r2: "apply_commit sample_parts (CommitOpen (sample_open ''p'' [u ''q''])) [doc_entry ''p''] r1 = (Inr (NavCommitted (u ''p'')), r2)"
    "rt_panes r2 = two_panes" "rt_sources r2 = []" "rt_inFlight r2 = (\<lambda>_. None)" by (rule opens_doc[OF r1(2-5)])
  have v: "valid_commit sample_parts (CommitOpen (sample_open ''q'' [])) [list_entry] sample_router"
    "valid_commit sample_parts (CommitOpen (sample_open ''p'' [u ''q''])) [doc_entry ''p''] r1"
    by (simp_all add: sample_open_def sample_router_def createUrl_def panes_new_def r1(2) one_pane_simps)
  have "router_step sample_parts mh_inv memory_read ?x (?x\<lparr>ur_router := r1\<rparr>)"
    using idle_step[OF refl v(1) r1(1), of mh_inv memory_read "createMemoryHistory previous_location"] unfolding same .
  moreover have "router_step sample_parts mh_inv memory_read (?x\<lparr>ur_router := r1\<rparr>) (?x\<lparr>ur_router := r2\<rparr>)"
    by (rule idle_step[OF refl v(2) r2(1)])
  ultimately have "(router_step sample_parts mh_inv memory_read)\<^sup>*\<^sup>* ?x (?x\<lparr>ur_router := r2\<rparr>)"
    by (meson converse_rtranclp_into_rtranclp r_into_rtranclp)
  then show thesis using that r2 by blast
qed

section \<open>The properties\<close>

lemma sample_laws: "history_laws (rp_adapter sample_parts) mh_inv memory_read"
  using memory_hist.history_laws_axioms by simp

lemma sample_deq: "deq_reflexive (rp_env sample_parts)" "deq_value (rp_env sample_parts) v w \<Longrightarrow> v = w"
  by (simp_all add: deq_reflexive_def example_router_env_def)

lemma sample_start: "mh_inv (createMemoryHistory previous_location)"
    "ha_read (rp_adapter sample_parts) (createMemoryHistory previous_location) = memory_read (createMemoryHistory previous_location)"
  by (simp_all add: mh_inv_def createMemoryHistory_def memory_adapter_def)

theorem url_stays_in_step_witness:
  "\<exists>r. rt_panes r = two_panes \<and> url_shows sample_parts r \<and>
     sameExternalLocation (=) (memory_read (rt_history r)) (rt_lastKnown r)"
proof -
  obtain r where r: "(router_step sample_parts mh_inv memory_read)\<^sup>*\<^sup>* (url_run_new sample_parts (createMemoryHistory previous_location))
      ((url_run_new sample_parts (createMemoryHistory previous_location))\<lparr>ur_router := r\<rparr>)" "rt_panes r = two_panes"
    using sample_run by blast
  from url_stays_in_step[OF sample_laws sample_start _ sample_deq(1) r(1)]
  show ?thesis using r(2) by (auto simp: url_run_new_def url_shows_def example_router_env_def)
qed

lemma sample_in_step:
  obtains r where "rt_panes r = two_panes" "rt_sources r = []" "rt_inFlight r = (\<lambda>_. None)" "url_shows sample_parts r" "panes_inv memory_store ms_inv (rt_panes r)"
proof -
  let ?x = "url_run_new sample_parts (createMemoryHistory previous_location)"
  obtain r where r: "(router_step sample_parts mh_inv memory_read)\<^sup>*\<^sup>* ?x (?x\<lparr>ur_router := r\<rparr>)"
      "rt_panes r = two_panes" "rt_sources r = []" "rt_inFlight r = (\<lambda>_. None)" by (rule sample_run)
  have "url_run_inv sample_parts mh_inv memory_read ?x"
    by (rule url_run_new_inv[of mh_inv _ sample_parts memory_read, OF sample_start sample_deq(1)])
  then have "url_run_inv sample_parts mh_inv memory_read (?x\<lparr>ur_router := r\<rparr>)"
    by (rule history_laws.run_kept[OF sample_laws r(1)]) (simp_all add: sample_deq(1)[simplified])
  then show thesis using that r by (simp add: url_run_inv_def url_run_new_def url_shows_def Let_def)
qed

theorem reload_restores_panes_witness:
  "\<exists>(r :: ((js_value, entry_rest) stored, memory_history) router) nav d r1 p e. rt_panes r = two_panes \<and>
     navigationTo sample_parts (\<lambda>n. u ''new'') (rt_lastKnown r) CauseInitial sample_router = (Inr (nav, d), r1) \<and>
     applyDiff memory_store d (map pt_to (nv_targets nav)) (rt_panes r1) = (Inr (), p) \<and> ids p = [u ''p'', u ''q''] \<and>
     panes_current memory_store (u ''p'') p = Some e \<and> same_after_reload example_manifest (doc_entry ''p'') e"
proof -
  obtain r where r: "rt_panes r = two_panes" "url_shows sample_parts r" "panes_inv memory_store ms_inv (rt_panes r)"
    using sample_in_step by blast
  have "url_can_hold sample_parts r"
    using example_url_panes decodeFirst_doc shown_panes(2)[OF r(1)]
    by (simp add: url_can_hold_def Let_def example_router_env_def pane_defs max_safe_integer_def r(1) two_panes_simps
        pane_segments_def formats)
  moreover have "fresh_supply (rp_paneId sample_parts) 0 (set (ids (rt_panes r)))"
    by (simp, rule sample_supply_fresh) (simp add: r(1) two_panes_simps)
  ultimately obtain nav d r1 p where *:
    "navigationTo sample_parts (\<lambda>n. u ''new'') (rt_lastKnown r) CauseInitial sample_router = (Inr (nav, d), r1)"
    "applyDiff memory_store d (map pt_to (nv_targets nav)) (rt_panes r1) = (Inr (), p)" "ids p = ids (rt_panes r)"
    "\<forall>pane \<in> set (ids p). \<exists>e e'. router_current sample_parts pane r = Some e \<and> panes_current memory_store pane p = Some e' \<and>
       same_after_reload (rp_routes sample_parts) e e'"
    unfolding sample_router_def using reload_restores_panes[OF r(3,2)] sample_deq(2) by (metis sample_parts_simps(3))
  have p: "ids p = [u ''p'', u ''q'']" using *(3) by (simp add: r(1) two_panes_simps)
  have "\<exists>e e'. router_current sample_parts (u ''p'') r = Some e \<and> panes_current memory_store (u ''p'') p = Some e' \<and>
       same_after_reload (rp_routes sample_parts) e e'"
    by (rule bspec[OF *(4)]) (simp add: p)
  then have "\<exists>e'. panes_current memory_store (u ''p'') p = Some e' \<and> same_after_reload example_manifest (doc_entry ''p'') e'"
    by (simp add: router_current_def r(1) two_panes_simps)
  then show ?thesis using *(1,2) p r(1) by blast
qed

theorem claims_stay_unique_witness:
  "\<exists>r r'. apply_commit sample_parts (CommitOpen (sample_open ''s'' [u ''p'', u ''q''])) [doc_entry ''s''] r =
      (Inr (NavActivated (PaneOwner (u ''p''))), r') \<and>
     rt_panes r = two_panes \<and> rt_panes r' = two_panes \<and> claims_unique sample_parts r'"
proof -
  obtain r where r: "rt_panes r = two_panes" "rt_sources r = []" "rt_inFlight r = (\<lambda>_. None)" "url_shows sample_parts r" "panes_inv memory_store ms_inv (rt_panes r)"
    by (rule sample_in_step)
  let ?h = "\<lparr>ch_owner = PaneOwner (u ''p''), ch_pane = Some (u ''p''), ch_claim = u ''doc:a''\<rparr>"
  have "paneHolders sample_parts r = Inr [?h]"
    using pane_claims(1)[OF r(1)] by (simp add: paneHolders_def r(1) two_panes_simps paneHolder_def pane_claim_def)
  then have "holderFor sample_parts
      \<lparr>cc_pane = Some (u ''s''), cc_from = None, cc_allowDuplicate = False, cc_besides = None\<rparr> (e_location (doc_entry ''s'')) r = Inr (Some ?h)"
    by (simp add: holderFor_def entryClaim_def claim_doc[simplified] holderOf_def r(2) holdsClaim_def isInPane_def)
  then obtain r' where r': "apply_commit sample_parts (CommitOpen (sample_open ''s'' [u ''p'', u ''q''])) [doc_entry ''s''] r =
      (Inr (NavActivated (PaneOwner (u ''p''))), r')"
    by (simp add: applyOpen_def applyUnlessHeld_def sample_open_def yieldTo_def isPaneHolder_def leavesClaim_def r(3))
  have "claims_unique sample_parts r"
    using pane_claims(1)[OF r(1)] by (simp add: claims_unique_def del: u_simps)
  moreover have "valid_commit sample_parts (CommitOpen (sample_open ''s'' [u ''p'', u ''q''])) [doc_entry ''s''] r"
      "exclusive_commit sample_parts (CommitOpen (sample_open ''s'' [u ''p'', u ''q''])) r"
    by (simp_all add: sample_open_def r(1) two_panes_simps)
  ultimately have "claims_unique sample_parts r' \<and> rt_panes r' = rt_panes r"
    using claims_stay_unique[OF r(5) _ _ _ _ r'] by simp
  then show ?thesis using r' r(1) by auto
qed

text \<open>
  What an exclusive visit needs to know.  A visit of a pane that showed the document, whose entry was then rewritten to the list, still
  names the document as what it comes from: it takes the claim for held already, although another pane has acquired it since, and
  its pane shows the document a second time.
\<close>

definition stale_visit :: visit_commit where
  "stale_visit = \<lparr>vc_pane = u ''q'', vc_from = Some (doc_entry ''q''), vc_allowDuplicate = False, vc_visit = PUSH\<rparr>"

lemma stale_visit_duplicates:
  assumes "rt_panes r = two_panes"
  shows "claims_unique sample_parts r \<and> holderFor sample_parts (visit_check stale_visit) (e_location (doc_entry ''q'')) r = Inr None \<and>
    (\<exists>p. panes_commit memory_store (u ''q'') (Push (doc_entry ''q'')) (Some Fresh) (rt_panes r) = (Inr (), p) \<and>
       \<not> claims_unique sample_parts (r\<lparr>rt_panes := p\<rparr>))"
proof -
  have "claims_unique sample_parts r" using pane_claims(1)[OF assms] by (simp add: claims_unique_def del: u_simps)
  moreover have "holderFor sample_parts (visit_check stale_visit) (e_location (doc_entry ''q'')) r = Inr None"
    by (simp add: holderFor_def visit_check_def stale_visit_def entryClaim_def claim_doc[simplified])
  moreover have "\<exists>p. panes_commit memory_store (u ''q'') (Push (doc_entry ''q'')) (Some Fresh) (rt_panes r) = (Inr (), p) \<and>
       \<not> claims_unique sample_parts (r\<lparr>rt_panes := p\<rparr>)"
  proof -
    have "u ''q'' \<in> set (ids two_panes)" by (simp add: two_panes_simps)
    then have "st_read memory_store (u ''q'') (store two_panes) \<noteq> None" using two_panes_simps(2) by (simp add: panes_inv_def)
    then obtain s where s: "st_read memory_store (u ''q'') (store two_panes) = Some s" by blast
    obtain p where p: "panes_commit memory_store (u ''q'') (Push (doc_entry ''q'')) (Some Fresh) two_panes = (Inr (), p)"
        "ids p = ids two_panes" "panes_current memory_store (u ''q'') p = Some (doc_entry ''q'')"
      using mem.commit_inv[OF two_panes_simps(2) s, of "Push (doc_entry ''q'')" "Some Fresh"] by auto
    have o: "panes_current memory_store (u ''p'') p = Some (doc_entry ''p'')"
      using commit_others[OF p(1), of "u ''p''"] two_panes_simps(3)[of "u ''p''"] by simp
    let ?r = "r\<lparr>rt_panes := p\<rparr>"
    have "pane_claim sample_parts ?r (u ''q'') = Inr (Some (u ''doc:a''))" "pane_claim sample_parts ?r (u ''p'') = Inr (Some (u ''doc:a''))"
      using p(3) o by (simp_all add: pane_claim_def entryClaim_def router_current_def claim_doc del: u_simps)
    then have "\<not> claims_unique sample_parts ?r"
      using p(2) by (auto simp: claims_unique_def two_panes_simps)
    then show ?thesis using p(1) assms by auto
  qed
  ultimately show ?thesis by blast
qed

text \<open>The document's pane is sent to the list, next to the pane that shows it.\<close>

lemma doc_to_list:
  "resolveTarget id example_manifest (Some (e_location (doc_entry i))) (ToPath (u ''/list'')) (Some 0) [] =
    Inr (Some (locationOf (app_match ''list'' []) None))"
proof -
  have "resolveDestination id example_manifest (Some (e_location (doc_entry i))) (ToPath (u ''/list'')) (Some 0) =
      Inr (Some \<lparr>rr_route = app_match ''list'' [], rr_search = None\<rparr>)"
    by (simp add: resolvePath_def splitTarget_def walkPath_def walkPath_step_def decodeSegment_def decodeURIComponent.simps
        decode_list[simplified] parsePaneSearch_def query_new_def usv_def form_parse_def)
  moreover have "searchRootId example_manifest (app_match ''list'' []) = Inr (u ''list'')"
    unfolding searchRootId_def resolve_list bind_result_simps
    by (simp add: isLayout_def example_nodes example_routes_def app_match_def)
  then have "carriedSearch example_manifest (Some (e_location (doc_entry i))) \<lparr>rr_route = app_match ''list'' [], rr_search = None\<rparr> = Inr None"
    using example_root[of "[(u ''id'', Str (u ''a''))]"] by (simp add: carriedSearch_def)
  ultimately show ?thesis by (simp add: resolveTarget_def locationOf_def filterRouteSearch_def)
qed

theorem pane_visits_share_root_witness:
  "\<exists>r nav vc dest. rt_panes r = two_panes \<and>
     pane_navigate sample_parts (u ''e'') (u ''p'') (ToTarget (ToPath (u ''/list''))) (noOptions\<lparr>no_depth := Some 0\<rparr>) r = (Inr (StartVisit nav vc), r) \<and>
     nv_targets nav = [\<lparr>pt_pane = u ''p'', pt_from = Some (doc_entry ''p''), pt_to = dest\<rparr>] \<and>
     root_of (e_location dest) = u ''app'' \<and> exclusive_commit sample_parts (CommitVisit vc) r"
proof -
  obtain r :: "((js_value, entry_rest) stored, memory_history) router" where r: "rt_panes r = two_panes"
    using sample_in_step by blast
  let ?options = "noOptions\<lparr>no_depth := Some 0\<rparr>" and ?l = "locationOf (app_match ''list'' []) None"
  have cur: "router_current sample_parts (u ''p'') r = Some (doc_entry ''p'')" "router_current sample_parts (u ''q'') r = Some list_entry"
    by (simp_all add: router_current_def r two_panes_simps)
  have stays: "\<not> leavesSharedRoute sample_parts (Some (u ''p'')) ?l r"
    using cur by (simp add: leavesSharedRoute_def r two_panes_simps root_of_def locationOf_def app_match_def)
  have "resolve_in sample_parts (Some (doc_entry ''p'')) (ToPath (u ''/list'')) ?options = Inr (Some ?l)"
    using doc_to_list[of "''p''"] by (simp add: resolve_in_def noOptions_def example_router_env_def)
  moreover obtain e where e: "createEntry example_router_env (u ''e'') example_manifest ?l (Some (doc_entry ''p'')) (no_entry ?options) = Inr e"
    by (simp add: createEntry_def noOptions_def)
  then have "\<not> isUnchanged sample_parts (u ''p'') (doc_entry ''p'') e r"
    using createEntry_location[OF e]
    by (simp add: isUnchanged_def sameVisit_def example_router_env_def locationOf_def doc_entry_def shown_entry_def example_pane_def app_match_def)
  ultimately obtain nav vc where n: "pane_navigate sample_parts (u ''e'') (u ''p'') (ToTarget (ToPath (u ''/list''))) ?options r = (Inr (StartVisit nav vc), r)"
    using cur stays e by (simp add: pane_navigate_def navigateToTarget_def visitLocation_def start_visit_def visitNavigation_def)
  note asked = pane_visits_share_root[OF n]
  have x: "exclusive_commit sample_parts (CommitVisit vc) r"
    using conjunct2[OF conjunct2[OF conjunct2[OF conjunct2[OF asked]]]] by (simp add: noOptions_def del: exclusive_commit.simps)
  obtain "from" dest where
    d: "router_current sample_parts (u ''p'') r = Some from"
      "nv_targets nav = [\<lparr>pt_pane = u ''p'', pt_from = Some from, pt_to = dest\<rparr>]"
    and roots: "\<forall>q \<in> set (ids (rt_panes r)). \<forall>e. q \<noteq> u ''p'' \<longrightarrow> router_current sample_parts q r = Some e \<longrightarrow>
          root_of (e_location e) = root_of (e_location dest)"
    using asked by (elim conjE exE) (rule that)
  have f: "from = doc_entry ''p''" using d(1) cur(1) by simp
  have "root_of (e_location list_entry) = root_of (e_location dest)"
    using bspec[OF roots, of "u ''q''"] cur(2) by (simp add: r two_panes_simps)
  then have "root_of (e_location dest) = u ''app''" by (simp add: root_of_def app_match_def)
  then show ?thesis using r n d(2)[unfolded f] x by blast
qed

end
