(* ===== verification/Solid_History.thy ===== *)
theory Solid_History
  imports Router_History Leave_Guards
begin

text \<open>
  The history adapter over Solid Router, \<open>history/solid-router.ts\<close>: writes are merged and sent in a later task, location changes of the
  host are recognised as the adapter's own or reported, and leaving the routes is intercepted.  Solid
  Router itself is outside: its \<open>navigate\<close> is a log of calls, its \<open>location\<close> comes in as an event.  The adapter provides what the router
  relies on (\<open>history_laws\<close>).
\<close>

section \<open>State\<close>

record solid_options =
  so_mount :: mount_options
  so_hash :: bool \<comment> \<open>\<open>HashRouter\<close>\<close>
  so_deq :: "js_value \<Rightarrow> js_value \<Rightarrow> bool"

record solid_position =
  sp_index :: nat
  sp_location :: external_location

datatype solid_call =
    NavigateTo ustring bool js_value \<comment> \<open>path, replace, state\<close>
  | NavigateBy int

text \<open>
  \<open>sl_location\<close> is the host's location with the state of the session entry; \<open>sl_reverting\<close> counts reverts that
  wait for their landing, \<open>sl_reverted\<close> those that were told of it.
\<close>

record solid_adapter =
  sl_location :: external_location
  sl_listeners :: "nat list"
  sl_observing :: bool
  sl_reverting :: nat
  sl_reverted :: nat
  sl_queued :: "(external_location \<times> bool) option"
  sl_timer :: bool
  sl_last :: solid_position
  sl_calls :: "solid_call list"

section \<open>Reading\<close>

definition toMount :: "solid_options \<Rightarrow> ustring \<Rightarrow> external_location option" where
  "toMount so path = toMountLocation (so_mount so) path"

definition ownSlice :: "solid_adapter \<Rightarrow> history_slice option" where
  "ownSlice s = readSlice (x_state (sl_location s))"

definition solid_read :: "solid_options \<Rightarrow> solid_adapter \<Rightarrow> external_location" where
  "solid_read so s =
    (let path = (case toMount so (x_path (sl_location s)) of None \<Rightarrow> [slash] | Some m \<Rightarrow> x_path m);
         current = \<lparr>x_path = path, x_search = x_search (sl_location s), x_hash = x_hash (sl_location s), x_state = Undefined\<rparr>
     in case ownSlice s of
          None \<Rightarrow> current
        | Some sl \<Rightarrow> (case hs_value sl of None \<Rightarrow> current | Some ps \<Rightarrow> current\<lparr>x_state := history_state ps\<rparr>))"

definition createSolidRouterHistory :: "solid_options \<Rightarrow> external_location \<Rightarrow> solid_adapter" where
  "createSolidRouterHistory so location =
    (let s = \<lparr>sl_location = location, sl_listeners = [], sl_observing = False, sl_reverting = 0, sl_reverted = 0,
              sl_queued = None, sl_timer = False, sl_last = \<lparr>sp_index = 0, sp_location = location\<rparr>, sl_calls = []\<rparr>
     in s\<lparr>sl_last := \<lparr>sp_index = (case ownSlice s of None \<Rightarrow> 0 | Some sl \<Rightarrow> hs_index sl), sp_location = solid_read so s\<rparr>\<rparr>)"

section \<open>Writing\<close>

definition navigateTo :: "external_location \<Rightarrow> nat \<Rightarrow> bool \<Rightarrow> solid_adapter \<Rightarrow> solid_adapter" where
  "navigateTo next i replace s =
    s\<lparr>sl_last := \<lparr>sp_index = i, sp_location = next\<rparr>,
      sl_calls := sl_calls s @ [NavigateTo (formatLocation (x_path next) (x_search next) (x_hash next)) replace
        (stateForWrite i next replace (x_state (sl_location s)))]\<rparr>"

definition dropQueued :: "solid_adapter \<Rightarrow> solid_adapter" where
  "dropQueued s = s\<lparr>sl_timer := False, sl_queued := None\<rparr>"

definition solid_flush :: "solid_adapter \<Rightarrow> solid_adapter" where
  "solid_flush s =
    (case sl_queued s of
       None \<Rightarrow> dropQueued s
     | Some (location, pushed) \<Rightarrow>
         navigateTo location (if pushed then sp_index (sl_last s) + 1 else sp_index (sl_last s)) (\<not> pushed) (dropQueued s))"

definition solid_write :: "external_location \<Rightarrow> write_mode \<Rightarrow> solid_adapter \<Rightarrow> solid_adapter" where
  "solid_write next mode s =
    (let alreadyPushed = (case sl_queued s of None \<Rightarrow> False | Some (_, pushed) \<Rightarrow> pushed)
     in s\<lparr>sl_queued := Some (next, alreadyPushed \<or> mode = ModePush), sl_timer := True\<rparr>)"

definition solid_href :: "solid_options \<Rightarrow> external_location \<Rightarrow> ustring" where
  "solid_href so next =
    (let host = hostPath (mo_base (so_mount so)) next in if so_hash so then u ''#'' @ host else host)"

section \<open>Following the host\<close>

definition settleReverts :: "solid_adapter \<Rightarrow> solid_adapter" where
  "settleReverts s = s\<lparr>sl_reverting := 0, sl_reverted := sl_reverted s + sl_reverting s\<rparr>"

definition revertTo :: "solid_position \<Rightarrow> history_slice option \<Rightarrow> solid_adapter \<Rightarrow> solid_adapter" where
  "revertTo previous landed s =
    (let s1 = s\<lparr>sl_reverting := sl_reverting s + 1\<rparr>
     in case revertChange landed (sp_index previous) of
          HostGo delta \<Rightarrow> s1\<lparr>sl_calls := sl_calls s1 @ [NavigateBy delta]\<rparr>
        | HostReplace \<Rightarrow> navigateTo (sp_location previous) (sp_index previous) True s1)"

definition ownWriteLanded :: "solid_options \<Rightarrow> solid_adapter \<Rightarrow> bool" where
  "ownWriteLanded so s \<longleftrightarrow>
    (case ownSlice s of None \<Rightarrow> False | Some landed \<Rightarrow> hs_index landed = sp_index (sl_last s)) \<and>
    sameExternalLocation (so_deq so) (solid_read so s) (sp_location (sl_last s))"

text \<open>The change that listeners get, if any: the location, and what its \<open>revert\<close> hands to \<open>revertTo\<close>.\<close>

definition reportChange ::
  "solid_options \<Rightarrow> solid_adapter \<Rightarrow> solid_adapter \<times> (external_location \<times> solid_position \<times> history_slice option) option" where
  "reportChange so s =
    (if ownWriteLanded so s then (s, None)
     else
      (let s1 = dropQueued s
       in if toMount so (x_path (sl_location s)) = None then (s1, None)
          else
           (let next = solid_read so s; landed = ownSlice s; previous = sl_last s
            in (s1\<lparr>sl_last := \<lparr>sp_index = (case landed of None \<Rightarrow> sp_index previous + 1 | Some sl \<Rightarrow> hs_index sl), sp_location = next\<rparr>\<rparr>,
                Some (next, previous, landed)))))"

definition onLocationChange ::
  "solid_options \<Rightarrow> external_location \<Rightarrow> solid_adapter \<Rightarrow>
   solid_adapter \<times> (external_location \<times> solid_position \<times> history_slice option) option" where
  "onLocationChange so location s =
    (let s1 = s\<lparr>sl_location := location\<rparr>
     in if \<not> sl_observing s then (s1, None)
        else (case reportChange so s1 of (s2, change) \<Rightarrow> (settleReverts s2, change)))"

definition solid_subscribe :: "nat \<Rightarrow> solid_adapter \<Rightarrow> solid_adapter" where
  "solid_subscribe listener s = s\<lparr>sl_listeners := list_add listener (sl_listeners s), sl_observing := True\<rparr>"

definition stopObservingIfIdle :: "solid_adapter \<Rightarrow> solid_adapter" where
  "stopObservingIfIdle s =
    (if sl_listeners s \<noteq> [] then s else settleReverts ((dropQueued s)\<lparr>sl_observing := False\<rparr>))"

definition solid_unsubscribe :: "nat \<Rightarrow> solid_adapter \<Rightarrow> solid_adapter" where
  "solid_unsubscribe listener s = stopObservingIfIdle (s\<lparr>sl_listeners := list_remove listener (sl_listeners s)\<rparr>)"

section \<open>Leaving\<close>

text \<open>
  What becomes of the host's navigation: the adapter does not stop it, it is stopped, or it is stopped until a promise allows it; then it
  is retried, and where the routes are left what is queued is dropped.
\<close>

datatype leave_verdict = Allowed | Stopped | StoppedUntil bool bool \<comment> \<open>what the promise gives, whether the routes are left\<close>

definition settleIntercept :: "bool \<Rightarrow> bool \<Rightarrow> solid_adapter \<Rightarrow> bool \<times> solid_adapter" where
  "settleIntercept verdict leaving s = (if \<not> verdict then (False, s) else (True, if leaving then dropQueued s else s))"

definition leave :: "bool maybe_promise \<Rightarrow> solid_adapter \<Rightarrow> leave_verdict \<times> solid_adapter" where
  "leave verdict s =
    (case verdict of
       Now True \<Rightarrow> (Allowed, dropQueued s)
     | Now False \<Rightarrow> (Stopped, s)
     | Later v \<Rightarrow> (StoppedUntil v True, s))"

datatype host_destination = HostStep ustring \<comment> \<open>Back or Forward, and where the browser is\<close> | HostPath ustring

definition interceptNavigation ::
  "solid_options \<Rightarrow> (external_location option \<Rightarrow> bool maybe_promise) \<Rightarrow> ustring \<Rightarrow> solid_adapter \<Rightarrow> leave_verdict \<times> solid_adapter" where
  "interceptNavigation so handler to s =
    (case toMount so to of
       None \<Rightarrow> leave (handler None) s
     | Some mount \<Rightarrow>
         ((case handler (Some mount) of Now True \<Rightarrow> Allowed | Now False \<Rightarrow> Stopped | Later v \<Rightarrow> StoppedUntil v False), s))"

definition interceptLeave ::
  "solid_options \<Rightarrow> (external_location option \<Rightarrow> bool maybe_promise) \<Rightarrow> bool \<Rightarrow> host_destination \<Rightarrow> solid_adapter \<Rightarrow>
   leave_verdict \<times> solid_adapter" where
  "interceptLeave so handler ignored to s =
    (if ignored then (Allowed, s)
     else (case to of
             HostStep landed \<Rightarrow> if toMount so landed \<noteq> None then (Allowed, s) else leave (handler None) s
           | HostPath path \<Rightarrow> interceptNavigation so handler path s))"

section \<open>Writes are merged\<close>

text \<open>
  The reference: the writes that were made and not yet sent are kept one by one.  They are sent when the timer fires and
  given up when the host moves elsewhere, when its routes are left, or when nobody listens any more.
\<close>

datatype solid_event =
    Writes external_location write_mode
  | TimerFires
  | HostMoves external_location
  | Intercepted "external_location option \<Rightarrow> bool maybe_promise" bool host_destination
  | VerdictSettles bool bool
  | Subscribes nat
  | Unsubscribes nat
  | Reverts solid_position "history_slice option"

fun solid_step :: "solid_options \<Rightarrow> solid_adapter \<Rightarrow> solid_event \<Rightarrow> solid_adapter" where
  "solid_step so s (Writes l mode) = solid_write l mode s"
| "solid_step so s TimerFires = (if sl_timer s then solid_flush s else s)"
| "solid_step so s (HostMoves l) = fst (onLocationChange so l s)"
| "solid_step so s (Intercepted handler ignored to) = snd (interceptLeave so handler ignored to s)"
| "solid_step so s (VerdictSettles verdict leaving) = snd (settleIntercept verdict leaving s)"
| "solid_step so s (Subscribes i) = solid_subscribe i s"
| "solid_step so s (Unsubscribes i) = solid_unsubscribe i s"
| "solid_step so s (Reverts previous landed) = revertTo previous landed s"

type_synonym unsent = "(external_location \<times> write_mode) list"

definition leaves_routes :: "solid_options \<Rightarrow> (external_location option \<Rightarrow> bool maybe_promise) \<Rightarrow> bool \<Rightarrow> host_destination \<Rightarrow> bool" where
  "leaves_routes so handler ignored to \<longleftrightarrow>
    \<not> ignored \<and> toMount so (case to of HostStep p \<Rightarrow> p | HostPath p \<Rightarrow> p) = None \<and> handler None = Now True"

fun unsent_step :: "solid_options \<Rightarrow> solid_adapter \<Rightarrow> solid_event \<Rightarrow> unsent \<Rightarrow> unsent" where
  "unsent_step so s (Writes l mode) ws = ws @ [(l, mode)]"
| "unsent_step so s TimerFires ws = []"
| "unsent_step so s (HostMoves l) ws =
     (if \<not> sl_observing s \<or> ownWriteLanded so (s\<lparr>sl_location := l\<rparr>) then ws else [])"
| "unsent_step so s (Intercepted handler ignored to) ws = (if leaves_routes so handler ignored to then [] else ws)"
| "unsent_step so s (VerdictSettles verdict leaving) ws = (if verdict \<and> leaving then [] else ws)"
| "unsent_step so s (Subscribes i) ws = ws"
| "unsent_step so s (Unsubscribes i) ws = (if list_remove i (sl_listeners s) = [] then [] else ws)"
| "unsent_step so s (Reverts previous landed) ws = ws"

text \<open>One navigation for all of them: to the last, as a push if one of them was.\<close>

definition merged :: "unsent \<Rightarrow> (external_location \<times> bool) option" where
  "merged ws = (if ws = [] then None else Some (fst (last ws), ModePush \<in> snd ` set ws))"

definition queue_shows :: "solid_adapter \<Rightarrow> unsent \<Rightarrow> bool" where
  "queue_shows s ws \<longleftrightarrow> sl_queued s = merged ws \<and> sl_timer s = (ws \<noteq> [])"

lemma navigateTo_queue [simp]:
  "sl_queued (navigateTo l i b s) = sl_queued s" "sl_timer (navigateTo l i b s) = sl_timer s"
  by (simp_all add: navigateTo_def)

lemma dropQueued_shows [simp]: "queue_shows (dropQueued s) []"
  by (simp add: queue_shows_def dropQueued_def merged_def)

lemma solid_flush_shows: "queue_shows (solid_flush s) []"
  by (simp add: solid_flush_def queue_shows_def dropQueued_def merged_def split: option.splits)

lemma settle_shows [simp]: "queue_shows (settleReverts s) ws = queue_shows s ws"
  by (simp add: settleReverts_def queue_shows_def)

lemma step_shows:
  assumes "queue_shows s ws"
  shows "queue_shows (solid_step so s x) (unsent_step so s x ws)"
proof (cases x)
  case (Writes l mode)
  then show ?thesis using assms by (cases mode) (auto simp: queue_shows_def solid_write_def merged_def)
next
  case TimerFires
  then show ?thesis using assms solid_flush_shows[of s] by (auto simp: queue_shows_def merged_def)
next
  case (HostMoves l)
  let ?s = "s\<lparr>sl_location := l\<rparr>"
  have "queue_shows (fst (reportChange so ?s)) (if ownWriteLanded so ?s then ws else [])"
    using assms by (simp add: reportChange_def Let_def queue_shows_def dropQueued_def merged_def)
  moreover have "queue_shows ?s ws" using assms by (simp add: queue_shows_def)
  ultimately show ?thesis using HostMoves
    by (cases "reportChange so ?s") (auto simp: onLocationChange_def Let_def split: if_splits)
next
  case (Intercepted handler ignored to)
  have leaving: "queue_shows (snd (leave v s)) (if v = Now True then [] else ws)" for v
    using assms by (auto simp: leave_def split: maybe_promise.splits bool.splits)
  show ?thesis using Intercepted assms leaving[of "handler None"]
    by (cases to) (auto simp: interceptLeave_def interceptNavigation_def leaves_routes_def split: option.splits)
next
  case (VerdictSettles verdict leaving)
  then show ?thesis using assms by (auto simp: settleIntercept_def)
next
  case (Subscribes i)
  then show ?thesis using assms by (simp add: solid_subscribe_def queue_shows_def)
next
  case (Unsubscribes i)
  then show ?thesis using assms
    by (auto simp: solid_unsubscribe_def stopObservingIfIdle_def queue_shows_def dropQueued_def settleReverts_def merged_def)
next
  case (Reverts previous landed)
  then show ?thesis using assms
    by (cases "revertChange landed (sp_index previous)") (simp_all add: revertTo_def queue_shows_def)
qed

fun unsent_run :: "solid_options \<Rightarrow> solid_adapter \<Rightarrow> solid_event list \<Rightarrow> unsent \<Rightarrow> unsent" where
  "unsent_run so s [] ws = ws"
| "unsent_run so s (x # xs) ws = unsent_run so (solid_step so s x) xs (unsent_step so s x ws)"

definition solid_run :: "solid_options \<Rightarrow> solid_adapter \<Rightarrow> solid_event list \<Rightarrow> solid_adapter" where
  "solid_run so s xs = foldl (solid_step so) s xs"

lemma run_shows: "queue_shows s ws \<Longrightarrow> queue_shows (solid_run so s xs) (unsent_run so s xs ws)"
  by (induction xs arbitrary: s ws) (simp_all add: solid_run_def step_shows)

text \<open>
  C21.  Writes are merged and sent once.  After anything that the router and the host may do, the next task sends nothing when every write
  was sent or given up, and otherwise exactly one navigation: to the location of the last write, a push to
  the position after the last one if any of them was a push, and a replace of the entry otherwise.
\<close>

theorem writes_are_merged:
  assumes "s = solid_run so (createSolidRouterHistory so location) events"
    and "ws = unsent_run so (createSolidRouterHistory so location) events []"
  shows "sl_calls (solid_step so s TimerFires) = sl_calls s @
    (if ws = [] then []
     else (let l = fst (last ws); push = (ModePush \<in> snd ` set ws); i = (if push then sp_index (sl_last s) + 1 else sp_index (sl_last s))
           in [NavigateTo (formatLocation (x_path l) (x_search l) (x_hash l)) (\<not> push)
                (stateForWrite i l (\<not> push) (x_state (sl_location s)))]))"
proof -
  have "queue_shows (createSolidRouterHistory so location) []"
    by (simp add: queue_shows_def createSolidRouterHistory_def Let_def merged_def)
  then have "queue_shows s ws" unfolding assms by (rule run_shows)
  then show ?thesis
    by (auto simp: queue_shows_def merged_def solid_flush_def navigateTo_def dropQueued_def Let_def)
qed

text \<open>
  A sent write is the adapter's own when it lands: where the host's location is what was written under the base, and the platform takes
  the path apart as it was put together, nothing is reported and what is queued behind it stays.
\<close>

lemma history_state_panes: "history_state (map (\<lambda>p. \<lparr>hp_pane = ep_paneId p, hp_entry = en_id (ep_entry p),
       hp_state = (if en_state (ep_entry p) = Undefined then None else Some (en_state (ep_entry p)))\<rparr>) ps) =
     Obj [(u ''panes'', Arr (map historyPane ps))]"
  by (simp add: history_state_def historyPane_def)

lemma own_write_lands:
  assumes "isSafeInteger i" and "x_state l = Obj [(u ''panes'', Arr (map historyPane ps))]"
    and "toMount so (x_path host) = Some m" and "x_path m = x_path l" and "x_search host = x_search l" and "x_hash host = x_hash l"
    and "x_state host = stateForWrite i l replace current" and "\<And>v. so_deq so v v"
    and "sl_last s = \<lparr>sp_index = i, sp_location = l\<rparr>"
  shows "onLocationChange so host s = (if sl_observing s then settleReverts (s\<lparr>sl_location := host\<rparr>) else s\<lparr>sl_location := host\<rparr>, None)"
proof -
  let ?s = "s\<lparr>sl_location := host\<rparr>"
  let ?ps = "map (\<lambda>p. \<lparr>hp_pane = ep_paneId p, hp_entry = en_id (ep_entry p),
       hp_state = (if en_state (ep_entry p) = Undefined then None else Some (en_state (ep_entry p)))\<rparr>) ps"
  have slice: "ownSlice ?s = Some \<lparr>hs_index = i, hs_value = Some ?ps\<rparr>"
    using slice_roundtrip[OF assms(1), of l replace current] assms(7)
    by (simp only: ownSlice_def assms(2) readHistory_roundtrip) simp
  have "solid_read so ?s = \<lparr>x_path = x_path l, x_search = x_search l, x_hash = x_hash l, x_state = history_state ?ps\<rparr>"
    using slice assms(3-6) by (simp add: solid_read_def)
  then have "solid_read so ?s = l" unfolding history_state_panes assms(2)[symmetric] by simp
  then have "ownWriteLanded so ?s"
    using slice assms(8,9) by (simp add: ownWriteLanded_def sameExternalLocation_def)
  then show ?thesis by (simp add: onLocationChange_def reportChange_def)
qed

text \<open>
  The change of a move within the session, once undone, sends the host back by the distance it moved.
\<close>

lemma reported_and_reverted:
  assumes "onLocationChange so host s = (s1, Some (l, previous, landed))" and "landed = Some sl" and "hs_index sl \<noteq> sp_index (sl_last s)"
  shows "previous = sl_last s \<and> sl_queued s1 = None \<and>
    sl_calls (revertTo previous landed s1) = sl_calls s @ [NavigateBy (int (sp_index (sl_last s)) - int (hs_index sl))]"
  using assms
  by (auto simp: onLocationChange_def reportChange_def revertTo_def revertChange_def settleReverts_def dropQueued_def Let_def
      split: if_splits)

section \<open>What the router relies on\<close>

definition solid_history :: "solid_options \<Rightarrow> solid_adapter history_adapter" where
  "solid_history so = \<lparr>ha_read = solid_read so, ha_write = (\<lambda>l mode s. Some (solid_write l mode s)), ha_href = solid_href so\<rparr>"

text \<open>The location that the host has been or will be sent to; \<open>read\<close> gives it only once the write has been sent and has landed.\<close>

definition solid_shows :: "solid_adapter \<Rightarrow> external_location" where
  "solid_shows s = (case sl_queued s of None \<Rightarrow> sp_location (sl_last s) | Some (l, _) \<Rightarrow> l)"

interpretation solid_hist: history_laws "solid_history so" "\<lambda>_. True" solid_shows
  by unfold_locales (auto simp: solid_history_def solid_write_def solid_shows_def Let_def)

lemma solid_start: "ha_read (solid_history so) (createSolidRouterHistory so location) = solid_shows (createSolidRouterHistory so location)"
proof -
  have read: "sl_location s = sl_location s' \<Longrightarrow> solid_read so s = solid_read so s'" for s s' by (simp add: solid_read_def ownSlice_def)
  show ?thesis
    by (simp add: solid_history_def solid_shows_def createSolidRouterHistory_def Let_def) (rule read, simp)
qed

text \<open>Sending what is queued, and its landing, change nothing of that; a change that is reported shows what it reports.\<close>

lemma solid_flush_shown: "solid_shows (solid_flush s) = solid_shows s"
  by (auto simp: solid_flush_def solid_shows_def navigateTo_def dropQueued_def split: option.splits)

lemma solid_own_landing_shown:
  "ownWriteLanded so (s\<lparr>sl_location := l\<rparr>) \<Longrightarrow> solid_shows (fst (onLocationChange so l s)) = solid_shows s"
  by (auto simp: onLocationChange_def reportChange_def settleReverts_def solid_shows_def Let_def split: option.splits)

lemma solid_reported_shown: "onLocationChange so l s = (s', Some (reported, previous, landed)) \<Longrightarrow> solid_shows s' = reported"
  by (auto simp: onLocationChange_def reportChange_def settleReverts_def dropQueued_def solid_shows_def Let_def split: if_splits)

text \<open>
  A revert puts the host back at the location it was at, which is not the one that was known when a write was still queued: the host's
  move drops that write, and the revert knows only the location before it.
\<close>

lemma queued_write_lost:
  "let so = \<lparr>so_mount = bo_mount example_browser, so_hash = False, so_deq = (=)\<rparr>;
       s = solid_write (at_path ''/b'') ModePush (solid_subscribe 0 (createSolidRouterHistory so (at_path ''/a'')))
   in solid_shows s = at_path ''/b'' \<and>
     (case onLocationChange so (at_path ''/c'') s of
        (s1, Some (reported, previous, landed)) \<Rightarrow> reported = at_path ''/c'' \<and> solid_shows (revertTo previous landed s1) = at_path ''/a''
      | _ \<Rightarrow> False)"
  by (simp add: Let_def solid_write_def solid_subscribe_def createSolidRouterHistory_def solid_shows_def onLocationChange_def
      reportChange_def ownWriteLanded_def ownSlice_def at_path_def solid_read_def toMount_def toMountLocation_def example_browser_def
      isUnderBase_def u_def js_length_def units_def settleReverts_def dropQueued_def revertTo_def revertChange_def navigateTo_def
      readSlice_def isStoredSlice_def)

section \<open>A run\<close>

definition solid_example :: solid_options where
  "solid_example = \<lparr>so_mount = bo_mount example_browser, so_hash = False, so_deq = (=)\<rparr>"

theorem writes_are_merged_witness:
  "\<exists>state. sl_calls (solid_step solid_example
      (solid_run solid_example (createSolidRouterHistory solid_example (at_path ''/a''))
         [Subscribes 0, Writes (at_path ''/b'') ModePush, Writes (at_path ''/c'') ModeReplace]) TimerFires) =
    [NavigateTo (u ''/c'') False state]"
proof -
  let ?events = "[Subscribes 0, Writes (at_path ''/b'') ModePush, Writes (at_path ''/c'') ModeReplace]"
  let ?s = "createSolidRouterHistory solid_example (at_path ''/a'')"
  have ws: "unsent_run solid_example ?s ?events [] = [(at_path ''/b'', ModePush), (at_path ''/c'', ModeReplace)]" by simp
  have "sl_calls (solid_run solid_example ?s ?events) = []"
    by (simp add: solid_run_def createSolidRouterHistory_def solid_subscribe_def solid_write_def Let_def)
  then show ?thesis using writes_are_merged[OF refl ws[symmetric]]
    by (simp add: Let_def at_path_def formatLocation_def ensurePrefix_def)
qed

end
