(* ===== verification/Recoverable_Database.thy ===== *)
theory Recoverable_Database
  imports Prelude
begin

text \<open>
  The connection that the browser's write-ahead log reopens, \<open>collab/recoverable-database.ts\<close>: callers share one connection and
  each tries twice to create a transaction.  The class is cut at its awaits; opening, losing and upgrading
  of databases and the answers of \<open>db.transaction\<close> are inputs that come in any order.
\<close>

section \<open>State\<close>

datatype 'e cn_progress = Connecting | Connected | Refused 'e

text \<open>One call of \<open>openDB\<close>; \<open>cn_listening\<close> once the opener has subscribed to \<open>versionchange\<close>.\<close>

record 'e connection =
  cn_state :: "'e cn_progress"
  cn_closed :: bool
  cn_listening :: bool

datatype 'e tx_error = OpenError 'e | InvalidStateError | CreateError 'e

text \<open>
  Where a call of \<open>transaction\<close> stands: waiting for \<open>open\<close> (its own call of \<open>openDB\<close> or that of another), about to create the
  transaction, waiting for the connection that is current after a failure, or done.  The first number
  is the attempt.
\<close>

datatype 'e tx_caller =
    Waiting nat nat bool \<comment> \<open>connection, whether this call opened it\<close>
  | Holding nat nat
  | Checking nat nat nat \<comment> \<open>the database that failed, the current connection\<close>
  | Returned nat
  | Threw "'e tx_error"

record 'e database =
  rd_connection :: "nat option"
  rd_opened :: "'e connection list"
  rd_callers :: "'e tx_caller list"

definition new_database :: "'e database" where
  "new_database = \<lparr>rd_connection = None, rd_opened = [], rd_callers = []\<rparr>"

section \<open>Operations\<close>

definition cn_update :: "nat \<Rightarrow> ('e connection \<Rightarrow> 'e connection) \<Rightarrow> 'e database \<Rightarrow> 'e database" where
  "cn_update c f d = (if c < length (rd_opened d) then d\<lparr>rd_opened := (rd_opened d)[c := f (rd_opened d ! c)]\<rparr> else d)"

text \<open>\<open>if (this.connection === connection) this.connection = undefined\<close>\<close>

definition forget_connection :: "nat \<Rightarrow> 'e database \<Rightarrow> 'e database" where
  "forget_connection c d = (if rd_connection d = Some c then d\<lparr>rd_connection := None\<rparr> else d)"

definition close_db :: "nat \<Rightarrow> 'e database \<Rightarrow> 'e database" where
  "close_db c = cn_update c (\<lambda>n. n\<lparr>cn_closed := True\<rparr>)"

definition open_begin :: "nat \<Rightarrow> 'e database \<Rightarrow> 'e tx_caller \<times> 'e database" where
  "open_begin attempt d =
    (case rd_connection d of
       Some c \<Rightarrow> (Waiting attempt c False, d)
     | None \<Rightarrow>
         (Waiting attempt (length (rd_opened d)) True,
          d\<lparr>rd_connection := Some (length (rd_opened d)),
            rd_opened := rd_opened d @ [\<lparr>cn_state = Connecting, cn_closed = False, cn_listening = False\<rparr>]\<rparr>))"

text \<open>The end of the \<open>catch\<close> block and the next round of the loop.\<close>

definition give_up_or_retry :: "nat \<Rightarrow> nat \<Rightarrow> 'e database \<Rightarrow> 'e tx_caller \<times> 'e database" where
  "give_up_or_retry attempt c d =
    (let d1 = close_db c d in if attempt = 1 then (Threw InvalidStateError, d1) else open_begin (attempt + 1) d1)"

datatype 'e tx_answer = Created | InvalidState | OtherFailure 'e

text \<open>A caller goes on as far as it can; the answer is that of \<open>db.transaction\<close>, where it gets there.\<close>

definition tx_resume :: "'e tx_caller \<Rightarrow> 'e tx_answer \<Rightarrow> 'e database \<Rightarrow> 'e tx_caller \<times> 'e database" where
  "tx_resume caller answer d =
    (case caller of
       Waiting attempt c opener \<Rightarrow>
         (case cn_state (rd_opened d ! c) of
            Connecting \<Rightarrow> (caller, d)
          | Connected \<Rightarrow> (Holding attempt c, if opener then cn_update c (\<lambda>n. n\<lparr>cn_listening := True\<rparr>) d else d)
          | Refused e \<Rightarrow> (Threw (OpenError e), if opener then forget_connection c d else d))
     | Holding attempt c \<Rightarrow>
         (case answer of
            Created \<Rightarrow> (Returned c, d)
          | OtherFailure e \<Rightarrow> (Threw (CreateError e), d)
          | InvalidState \<Rightarrow>
              (case rd_connection d of
                 None \<Rightarrow> give_up_or_retry attempt c d
               | Some current \<Rightarrow> (Checking attempt c current, d)))
     | Checking attempt c current \<Rightarrow>
         (case cn_state (rd_opened d ! current) of
            Connecting \<Rightarrow> (caller, d)
          | Refused e \<Rightarrow> (Threw (OpenError e), d)
          | Connected \<Rightarrow> give_up_or_retry attempt c (if current = c then forget_connection c d else d))
     | _ \<Rightarrow> (caller, d))"

datatype 'e db_event =
    Call
  | Resume nat "'e tx_answer"
  | Opens nat
  | Refuses nat 'e
  | Terminates nat
  | VersionChanges nat

definition connected_open :: "nat \<Rightarrow> 'e database \<Rightarrow> bool" where
  "connected_open c d \<longleftrightarrow> c < length (rd_opened d) \<and> cn_state (rd_opened d ! c) = Connected \<and> \<not> cn_closed (rd_opened d ! c)"

text \<open>What cannot happen changes nothing: a connection opens once, only an open one is lost, and a closed one creates no transaction.\<close>

definition may_answer :: "'e tx_caller \<Rightarrow> 'e tx_answer \<Rightarrow> 'e database \<Rightarrow> bool" where
  "may_answer caller answer d \<longleftrightarrow>
    (case caller of
       Holding a c \<Rightarrow> (case answer of Created \<Rightarrow> \<not> cn_closed (rd_opened d ! c) | _ \<Rightarrow> True)
     | _ \<Rightarrow> True)"

fun db_step :: "'e database \<Rightarrow> 'e db_event \<Rightarrow> 'e database" where
  "db_step d Call = (case open_begin 0 d of (caller, d1) \<Rightarrow> d1\<lparr>rd_callers := rd_callers d1 @ [caller]\<rparr>)"
| "db_step d (Resume i answer) =
     (if i < length (rd_callers d) \<and> may_answer (rd_callers d ! i) answer d
      then (case tx_resume (rd_callers d ! i) answer d of (caller, d1) \<Rightarrow> d1\<lparr>rd_callers := (rd_callers d1)[i := caller]\<rparr>)
      else d)"
| "db_step d (Opens c) =
     (if c < length (rd_opened d) \<and> cn_state (rd_opened d ! c) = Connecting then cn_update c (\<lambda>n. n\<lparr>cn_state := Connected\<rparr>) d else d)"
| "db_step d (Refuses c e) =
     (if c < length (rd_opened d) \<and> cn_state (rd_opened d ! c) = Connecting then cn_update c (\<lambda>n. n\<lparr>cn_state := Refused e\<rparr>) d else d)"
| "db_step d (Terminates c) = (if connected_open c d then forget_connection c (close_db c d) else d)"
| "db_step d (VersionChanges c) =
     (if connected_open c d \<and> cn_listening (rd_opened d ! c) then forget_connection c (close_db c d) else d)"

definition db_run :: "'e db_event list \<Rightarrow> 'e database" where
  "db_run events = foldl db_step new_database events"

section \<open>The invariant\<close>

text \<open>A connection that failed to create a transaction and was not current then does not become current again.\<close>

fun tx_ok :: "nat option \<Rightarrow> 'e connection list \<Rightarrow> 'e tx_caller \<Rightarrow> bool" where
  "tx_ok cur ns (Waiting a c opener) = (a \<le> 1 \<and> c < length ns)"
| "tx_ok cur ns (Holding a c) = (a \<le> 1 \<and> c < length ns \<and> cn_state (ns ! c) = Connected)"
| "tx_ok cur ns (Checking a c d) =
     (a \<le> 1 \<and> c < length ns \<and> cn_state (ns ! c) = Connected \<and> d < length ns \<and> (d = c \<or> cur \<noteq> Some c))"
| "tx_ok cur ns _ = True"

text \<open>How many connections a call may have opened so far.\<close>

fun tries :: "'e tx_caller \<Rightarrow> nat" where
  "tries (Waiting a c opener) = a + 1"
| "tries (Holding a c) = a + 1"
| "tries (Checking a c current) = a + 1"
| "tries _ = 2"

definition usable :: "nat option \<Rightarrow> 'e connection list \<Rightarrow> 'e tx_caller list \<Rightarrow> bool" where
  "usable current ns ks \<longleftrightarrow>
    (\<forall>c. current = Some c \<longrightarrow> c < length ns \<and> \<not> cn_closed (ns ! c) \<and>
       (cn_state (ns ! c) \<noteq> Connected \<longrightarrow> (\<exists>a. Waiting a c True \<in> set ks)))"

definition db_inv :: "'e database \<Rightarrow> bool" where
  "db_inv d \<longleftrightarrow> usable (rd_connection d) (rd_opened d) (rd_callers d) \<and>
    list_all (tx_ok (rd_connection d) (rd_opened d)) (rd_callers d) \<and>
    length (rd_opened d) \<le> sum_list (map tries (rd_callers d))"

lemma tries_le: "tx_ok cur ns k \<Longrightarrow> tries k \<le> 2" by (cases k) auto

lemma tx_ok_update:
  "tx_ok cur ns k \<Longrightarrow> cn_state n = cn_state (ns ! c) \<or> cn_state (ns ! c) = Connecting \<Longrightarrow> tx_ok cur (ns[c := n]) k"
  by (cases "c < length ns"; cases k) (auto simp: nth_list_update list_update_beyond)

lemma tx_ok_current: "tx_ok cur ns k \<Longrightarrow> cur' = cur \<or> cur' = None \<Longrightarrow> tx_ok cur' ns k"
  by (cases k) auto

lemma tx_ok_fresh: "tx_ok cur ns k \<Longrightarrow> tx_ok (Some (length ns)) (ns @ ms) k"
  by (cases k) (auto simp: nth_append)

text \<open>
  A caller that goes on takes nothing from the connection that is current, unless it is its opener, who stays until it
  is settled.
\<close>

lemma caller_moves:
  assumes "usable cur ns ks" and "\<And>b c. ks ! i = Waiting b c True \<Longrightarrow> cur = Some c \<Longrightarrow> cn_state (ns ! c) = Connected"
  shows "usable cur ns (ks[i := y])"
  unfolding usable_def
proof (intro allI impI conjI)
  fix c assume c: "cur = Some c"
  show "c < length ns" "\<not> cn_closed (ns ! c)" using assms(1) c by (simp_all add: usable_def)
  assume "cn_state (ns ! c) \<noteq> Connected"
  then obtain b where b: "Waiting b c True \<in> set ks" using assms(1) c by (auto simp: usable_def)
  then have "Waiting b c True \<noteq> ks ! i" using assms(2)[of b c] c \<open>cn_state (ns ! c) \<noteq> Connected\<close> by auto
  from in_set_update[OF b this] show "\<exists>a. Waiting a c True \<in> set (ks[i := y])" by blast
qed

lemmas database_ops = cn_update_def forget_connection_def close_db_def

lemma forgets:
  "rd_connection (forget_connection c d) = (if rd_connection d = Some c then None else rd_connection d)"
  "rd_opened (forget_connection c d) = rd_opened d" "rd_callers (forget_connection c d) = rd_callers d"
  by (simp_all add: forget_connection_def)

lemma updates:
  "rd_connection (cn_update c f d) = rd_connection d" "rd_callers (cn_update c f d) = rd_callers d"
  "length (rd_opened (cn_update c f d)) = length (rd_opened d)"
  "rd_opened (cn_update c f d) = (rd_opened d)[c := f (rd_opened d ! c)]"
  by (simp_all add: cn_update_def list_update_beyond)

text \<open>What happens to connections from outside.\<close>

lemma conn_kept:
  assumes "db_inv d" and "c < length (rd_opened d)"
    and "cn_state (f (rd_opened d ! c)) = cn_state (rd_opened d ! c) \<or> cn_state (rd_opened d ! c) = Connecting"
    and "cn_closed (f (rd_opened d ! c)) = cn_closed (rd_opened d ! c)"
  shows "db_inv (cn_update c f d)"
  using assms tx_ok_update[of "rd_connection d" "rd_opened d"]
  by (auto simp: db_inv_def usable_def list_all_iff updates nth_list_update)

lemma lost_kept:
  assumes "db_inv d"
  shows "db_inv (forget_connection c (close_db c d))"
proof -
  let ?ns = "rd_opened (close_db c d)" and ?cur = "rd_connection (forget_connection c (close_db c d))"
  have "tx_ok (rd_connection d) ?ns k" if "tx_ok (rd_connection d) (rd_opened d) k" for k
    using tx_ok_update[OF that] by (simp add: close_db_def updates)
  then have "tx_ok ?cur ?ns k" if "tx_ok (rd_connection d) (rd_opened d) k" for k
    using that tx_ok_current[of "rd_connection d" ?ns k ?cur] by (auto simp: forgets close_db_def updates)
  moreover have "usable ?cur ?ns (rd_callers d)"
    using assms by (auto simp: db_inv_def usable_def forgets close_db_def updates nth_list_update split: if_splits)
  ultimately show ?thesis using assms by (auto simp: db_inv_def list_all_iff forgets close_db_def updates)
qed

section \<open>A caller that goes on\<close>

definition resumed :: "nat \<Rightarrow> 'e database \<Rightarrow> 'e tx_caller \<times> 'e database \<Rightarrow> bool" where
  "resumed i d out \<longleftrightarrow> rd_callers (snd out) = rd_callers d \<and>
    tx_ok (rd_connection (snd out)) (rd_opened (snd out)) (fst out) \<and>
    (\<forall>k'. tx_ok (rd_connection d) (rd_opened d) k' \<longrightarrow> tx_ok (rd_connection (snd out)) (rd_opened (snd out)) k') \<and>
    length (rd_opened (snd out)) + tries (rd_callers d ! i) \<le> length (rd_opened d) + tries (fst out) \<and>
    usable (rd_connection (snd out)) (rd_opened (snd out)) ((rd_callers d)[i := fst out])"

abbreviation callers_usable :: "'e database \<Rightarrow> bool" where
  "callers_usable d \<equiv> usable (rd_connection d) (rd_opened d) (rd_callers d)"

lemma open_begin_resumed:
  assumes "callers_usable d" and "tries (rd_callers d ! i) \<le> a" and "a \<le> 1" and "i < length (rd_callers d)"
    and "\<And>b c. rd_callers d ! i \<noteq> Waiting b c True"
  shows "resumed i d (open_begin a d)"
proof (cases "rd_connection d")
  case None
  then show ?thesis using assms(2-4) tx_ok_fresh[of None "rd_opened d"]
    by (auto simp: resumed_def open_begin_def usable_def nth_append intro!: exI[of _ a] set_update_memI)
next
  case (Some c)
  moreover have "usable (rd_connection d) (rd_opened d) ((rd_callers d)[i := Waiting a c False])"
    by (rule caller_moves[OF assms(1)]) (use assms(5) in blast)
  ultimately show ?thesis using assms(1-3) by (auto simp: resumed_def open_begin_def usable_def)
qed

lemma retry_resumed:
  assumes "callers_usable d" and "rd_connection d \<noteq> Some c" and "tries (rd_callers d ! i) \<le> a + 1" and "a \<le> 1"
    and "i < length (rd_callers d)" and "\<And>b c. rd_callers d ! i \<noteq> Waiting b c True"
  shows "resumed i d (give_up_or_retry a c d)"
proof -
  let ?d = "close_db c d"
  have d: "rd_connection ?d = rd_connection d" "rd_callers ?d = rd_callers d" "length (rd_opened ?d) = length (rd_opened d)"
    by (simp_all add: close_db_def updates)
  have ok: "tx_ok (rd_connection d) (rd_opened ?d) k'" if "tx_ok (rd_connection d) (rd_opened d) k'" for k'
    using tx_ok_update[OF that] by (simp add: close_db_def updates)
  have u: "callers_usable ?d"
    using assms(1,2) by (auto simp: usable_def close_db_def updates nth_list_update)
  show ?thesis
  proof (cases "a = 1")
    case True
    have "usable (rd_connection ?d) (rd_opened ?d) ((rd_callers ?d)[i := Threw InvalidStateError])"
      by (rule caller_moves[OF u]) (use assms(6) d in simp)
    then show ?thesis using True assms(3) ok d by (simp add: resumed_def give_up_or_retry_def)
  next
    case False
    have "resumed i ?d (open_begin (a + 1) ?d)"
      by (rule open_begin_resumed[OF u]) (use False assms(3-6) d in simp_all)
    then show ?thesis using False ok d by (simp add: resumed_def give_up_or_retry_def)
  qed
qed

lemma resumed_same: "callers_usable d \<Longrightarrow> tx_ok (rd_connection d) (rd_opened d) (rd_callers d ! i) \<Longrightarrow> resumed i d (rd_callers d ! i, d)"
  by (simp add: resumed_def)

lemma resumed_alone:
  assumes "callers_usable d" and "tries (rd_callers d ! i) \<le> tries y" and "tx_ok (rd_connection d) (rd_opened d) y"
    and "\<And>b c. rd_callers d ! i = Waiting b c True \<Longrightarrow> cn_state (rd_opened d ! c) = Connected"
  shows "resumed i d (y, d)"
  using caller_moves[OF assms(1), of i y] assms by (simp add: resumed_def)

lemma resume_kept:
  assumes "db_inv d" and "i < length (rd_callers d)"
  shows "resumed i d (tx_resume (rd_callers d ! i) answer d)"
proof -
  let ?k = "rd_callers d ! i"
  have u: "callers_usable d" and k: "tx_ok (rd_connection d) (rd_opened d) ?k"
    using assms by (auto simp: db_inv_def list_all_iff)
  note same = resumed_same[OF u k]
  show ?thesis
  proof (cases ?k)
    case (Waiting a c opener)
    then have c: "c < length (rd_opened d)" "a \<le> 1" using k by simp_all
    show ?thesis
    proof (cases "cn_state (rd_opened d ! c)")
      case Connecting
      then show ?thesis using Waiting same by (simp add: tx_resume_def)
    next
      case Connected
      let ?f = "\<lambda>n. n\<lparr>cn_listening := True\<rparr>"
      have alone: "resumed i d (Holding a c, d)"
        by (rule resumed_alone[OF u]) (use Waiting Connected c in simp_all)
      have ok: "tx_ok (rd_connection d) ((rd_opened d)[c := ?f (rd_opened d ! c)]) k'" if "tx_ok (rd_connection d) (rd_opened d) k'" for k'
        using tx_ok_update[OF that] by simp
      have "usable (rd_connection d) ((rd_opened d)[c := ?f (rd_opened d ! c)]) ((rd_callers d)[i := Holding a c])"
        using alone c by (auto simp: resumed_def usable_def nth_list_update)
      then have "resumed i d (Holding a c, cn_update c ?f d)"
        using alone ok by (simp add: resumed_def updates)
      then show ?thesis using alone Waiting Connected by (simp add: tx_resume_def)
    next
      case (Refused e)
      let ?d = "forget_connection c d"
      have "usable (rd_connection ?d) (rd_opened ?d) (rd_callers ?d)" using u by (auto simp: usable_def forgets)
      then have "usable (rd_connection ?d) (rd_opened ?d) ((rd_callers ?d)[i := Threw (OpenError e)])"
        by (rule caller_moves) (use Waiting in \<open>auto simp: forgets split: if_splits\<close>)
      then have "resumed i d (Threw (OpenError e), ?d)"
        using Waiting c tx_ok_current[of "rd_connection d" "rd_opened d" _ "rd_connection ?d"] by (simp add: resumed_def forgets)
      moreover have "resumed i d (Threw (OpenError e), d)" if "\<not> opener"
        by (rule resumed_alone[OF u]) (use Waiting c that in simp_all)
      ultimately show ?thesis using Waiting Refused by (simp add: tx_resume_def)
    qed
  next
    case (Holding a c)
    show ?thesis
    proof (cases "answer = InvalidState \<and> rd_connection d = None")
      case True
      have "resumed i d (give_up_or_retry a c d)"
        by (rule retry_resumed[OF u]) (use True k Holding assms(2) in simp_all)
      then show ?thesis using True Holding by (simp add: tx_resume_def)
    next
      case False
      have alone: "resumed i d (y, d)" if "tries ?k \<le> tries y" "tx_ok (rd_connection d) (rd_opened d) y" for y
        by (rule resumed_alone[OF u that]) (use Holding in simp)
      have "resumed i d (Checking a c current, d)" if "rd_connection d = Some current" for current
        by (rule alone) (use that k Holding u in \<open>auto simp: usable_def\<close>)
      moreover have "resumed i d (Returned c, d)" "resumed i d (Threw (CreateError e), d)" for e
        using alone k Holding by simp_all
      ultimately show ?thesis using False Holding
        by (cases answer; cases "rd_connection d") (simp_all add: tx_resume_def)
    qed
  next
    case (Checking a c current)
    show ?thesis
    proof (cases "cn_state (rd_opened d ! current)")
      case Connecting
      then show ?thesis using Checking same by (simp add: tx_resume_def)
    next
      case Connected
      let ?d = "if current = c then forget_connection c d else d"
      have d: "rd_connection ?d \<noteq> Some c" "rd_callers ?d = rd_callers d" "rd_opened ?d = rd_opened d" "callers_usable ?d"
        "rd_connection ?d = rd_connection d \<or> rd_connection ?d = None"
        using u k Checking by (auto simp: forgets usable_def)
      have "resumed i ?d (give_up_or_retry a c ?d)"
        by (rule retry_resumed[OF d(4,1)]) (use k Checking d(2) assms(2) in simp_all)
      then have "resumed i d (give_up_or_retry a c ?d)"
        using tx_ok_current[OF _ d(5)] d(2,3) by (simp only: resumed_def) blast
      then show ?thesis using Checking Connected by (simp add: tx_resume_def)
    next
      case (Refused e)
      have "resumed i d (Threw (OpenError e), d)" by (rule resumed_alone[OF u]) (use Checking k in simp_all)
      then show ?thesis using Refused Checking by (simp add: tx_resume_def)
    qed
  qed (use same in \<open>simp_all add: tx_resume_def\<close>)
qed

lemma resumed_inv:
  assumes "db_inv d" and "i < length (rd_callers d)" and "resumed i d (k, d1)"
  shows "db_inv (d1\<lparr>rd_callers := (rd_callers d1)[i := k]\<rparr>)"
proof -
  have r: "rd_callers d1 = rd_callers d" "tx_ok (rd_connection d1) (rd_opened d1) k"
      "\<And>k'. tx_ok (rd_connection d) (rd_opened d) k' \<Longrightarrow> tx_ok (rd_connection d1) (rd_opened d1) k'"
      "length (rd_opened d1) + tries (rd_callers d ! i) \<le> length (rd_opened d) + tries k"
      "usable (rd_connection d1) (rd_opened d1) ((rd_callers d)[i := k])"
    using assms(3) by (simp_all add: resumed_def)
  have "list_all (tx_ok (rd_connection d1) (rd_opened d1)) ((rd_callers d)[i := k])"
    using assms(1) r(2,3) set_update_subset_insert[of "rd_callers d" i k] by (auto simp: db_inv_def list_all_iff)
  moreover have "length (rd_opened d1) \<le> sum_list (map tries ((rd_callers d)[i := k]))"
  proof -
    have "length (rd_opened d) \<le> sum_list (map tries (rd_callers d))" using assms(1) by (simp add: db_inv_def)
    moreover have "tries (rd_callers d ! i) \<le> sum_list (map tries (rd_callers d))" using assms(2) by (simp add: member_le_sum_list)
    ultimately show ?thesis using assms(2) r(4) by (simp add: map_update sum_list_update)
  qed
  ultimately show ?thesis using r(1,5) by (simp add: db_inv_def)
qed

lemma call_kept:
  assumes "db_inv d"
  shows "db_inv (db_step d Call)"
  using assms tx_ok_fresh[of None "rd_opened d"]
  by (cases "rd_connection d") (fastforce simp: db_inv_def open_begin_def usable_def list_all_iff nth_append)+

lemma db_step_kept: "db_inv d \<Longrightarrow> db_inv (db_step d x)"
proof (induction x)
  case Call
  then show ?case by (rule call_kept)
next
  case (Resume i answer)
  obtain k d1 where o: "tx_resume (rd_callers d ! i) answer d = (k, d1)" by (cases "tx_resume (rd_callers d ! i) answer d")
  then show ?case using Resume resume_kept[of d i answer] resumed_inv[of d i k d1] by simp
next
  case (Opens c)
  then show ?case using conn_kept[OF Opens, of c] by simp
next
  case (Refuses c e)
  then show ?case using conn_kept[OF Refuses, of c] by simp
next
  case (Terminates c)
  then show ?case using lost_kept[OF Terminates, of c] by simp
next
  case (VersionChanges c)
  then show ?case using lost_kept[OF VersionChanges, of c] by simp
qed

lemma db_run_kept: "db_inv (db_run xs)"
proof -
  have "db_inv (foldl db_step d xs)" if "db_inv d" for d
    using that by (induction xs arbitrary: d) (simp_all add: db_step_kept)
  then show ?thesis by (simp add: db_run_def db_inv_def new_database_def usable_def)
qed

section \<open>The connection\<close>

text \<open>Which call made an event's step, and the calls that opened a connection during a run, in order.\<close>

fun caller_of :: "'e database \<Rightarrow> 'e db_event \<Rightarrow> nat" where
  "caller_of d (Resume i answer) = i"
| "caller_of d _ = length (rd_callers d)"

definition openers :: "'e db_event list \<Rightarrow> nat list" where
  "openers events = snd (foldl
     (\<lambda>(d, os) x. (db_step d x,
        os @ (if length (rd_opened d) < length (rd_opened (db_step d x)) then [caller_of d x] else []))) (new_database, []) events)"

lemma openers_snoc:
  "openers (events @ [x]) = openers events @
     (if length (rd_opened (db_run events)) < length (rd_opened (db_run (events @ [x]))) then [caller_of (db_run events) x] else [])"
proof -
  have "fst (foldl (\<lambda>(d, os) x. (db_step d x,
        os @ (if length (rd_opened d) < length (rd_opened (db_step d x)) then [caller_of d x] else []))) (d, os) events) = foldl db_step d events" for d os
    by (induction events arbitrary: d os) simp_all
  then show ?thesis by (simp add: openers_def db_run_def case_prod_beta)
qed

lemma open_begin_grows:
  "length (rd_opened (snd (open_begin a d))) = length (rd_opened d) + (if rd_connection d = None then 1 else 0)"
  by (simp add: open_begin_def split: option.split)

lemma retry_grows:
  "length (rd_opened (snd (give_up_or_retry a c d))) = length (rd_opened d) + (if a \<noteq> 1 \<and> rd_connection d = None then 1 else 0)"
  using open_begin_grows[of "a + 1" "close_db c d"] by (auto simp: give_up_or_retry_def Let_def close_db_def updates)

lemma tx_resume_grows:
  "length (rd_opened (snd (tx_resume k answer d))) \<in> {length (rd_opened d), Suc (length (rd_opened d))}"
  by (cases k) (auto simp: tx_resume_def retry_grows forgets updates split: cn_progress.splits tx_answer.splits option.splits)

lemma step_grows: "length (rd_opened (db_step d x)) \<in> {length (rd_opened d), Suc (length (rd_opened d))}"
proof (cases x)
  case Call
  then show ?thesis using open_begin_grows[of 0 d] by (auto simp: case_prod_beta)
next
  case (Resume i answer)
  then show ?thesis using tx_resume_grows[of "rd_callers d ! i" answer d] by (auto simp: case_prod_beta)
qed (auto simp: forgets close_db_def updates)

text \<open>What a step opens counts among the tries of the call that made it; the tries of the others stay.\<close>

lemma step_tries:
  assumes "db_inv d"
  shows "length (rd_callers d) \<le> length (rd_callers (db_step d x))"
    and "i < length (rd_callers d) \<Longrightarrow> tries (rd_callers d ! i) +
      (if length (rd_opened d) < length (rd_opened (db_step d x)) \<and> caller_of d x = i then 1 else 0) \<le> tries (rd_callers (db_step d x) ! i)"
    and "length (rd_opened d) < length (rd_opened (db_step d x)) \<Longrightarrow> caller_of d x < length (rd_callers (db_step d x))"
proof -
  show "length (rd_callers d) \<le> length (rd_callers (db_step d x))"
  proof (cases x)
    case Call
    then show ?thesis by (cases "rd_connection d") (simp_all add: open_begin_def)
  next
    case (Resume j answer)
    show ?thesis
    proof (cases "j < length (rd_callers d)")
      case True
      obtain k d1 where o: "tx_resume (rd_callers d ! j) answer d = (k, d1)" by (cases "tx_resume (rd_callers d ! j) answer d")
      then have "rd_callers d1 = rd_callers d" using resume_kept[OF assms True, of answer] by (simp add: resumed_def)
      then show ?thesis using Resume o by simp
    qed (use Resume in simp)
  qed (simp_all add: forgets close_db_def updates)
  show "tries (rd_callers d ! i) +
      (if length (rd_opened d) < length (rd_opened (db_step d x)) \<and> caller_of d x = i then 1 else 0) \<le> tries (rd_callers (db_step d x) ! i)"
    if i: "i < length (rd_callers d)"
  proof (cases x)
    case Call
    then show ?thesis using i by (cases "rd_connection d") (simp_all add: open_begin_def nth_append)
  next
    case (Resume j answer)
    show ?thesis
    proof (cases "j < length (rd_callers d) \<and> may_answer (rd_callers d ! j) answer d")
      case True
      obtain k d1 where o: "tx_resume (rd_callers d ! j) answer d = (k, d1)" by (cases "tx_resume (rd_callers d ! j) answer d")
      then have r: "rd_callers d1 = rd_callers d" "length (rd_opened d1) + tries (rd_callers d ! j) \<le> length (rd_opened d) + tries k"
        using resume_kept[OF assms, of j answer] True by (simp_all add: resumed_def)
      have "length (rd_opened d) \<le> length (rd_opened d1)" using tx_resume_grows[of "rd_callers d ! j" answer d] o by auto
      then show ?thesis using Resume True o r i by (auto simp: nth_list_update)
    qed (use Resume in auto)
  qed (simp_all add: forgets close_db_def updates)
  show "caller_of d x < length (rd_callers (db_step d x))" if "length (rd_opened d) < length (rd_opened (db_step d x))"
  proof (cases x)
    case (Resume j answer)
    then have j: "j < length (rd_callers d)" using that by (auto split: if_splits)
    then show ?thesis using Resume \<open>length (rd_callers d) \<le> length (rd_callers (db_step d x))\<close> by simp
  qed (use that in \<open>cases "rd_connection d"; simp add: open_begin_def forgets close_db_def updates split: if_splits\<close>)+
qed

lemma openers_tries:
  "length (openers events) = length (rd_opened (db_run events)) \<and>
   (\<forall>i. count_list (openers events) i \<le> (if i < length (rd_callers (db_run events)) then tries (rd_callers (db_run events) ! i) else 0))"
proof (induction events rule: rev_induct)
  case Nil
  then show ?case by (simp add: openers_def db_run_def new_database_def)
next
  case (snoc x events)
  let ?d = "db_run events" and ?e = "db_run (events @ [x])"
  have e: "?e = db_step ?d x" by (simp add: db_run_def)
  note t = step_tries[OF db_run_kept[of events], where x = x, folded e]
  have "count_list (openers (events @ [x])) i \<le> (if i < length (rd_callers ?e) then tries (rd_callers ?e ! i) else 0)" for i
  proof (cases "i < length (rd_callers ?d)")
    case True
    then show ?thesis using spec[OF conjunct2[OF snoc], of i] t(1) t(2)[of i] by (auto simp: openers_snoc split: if_splits)
  next
    case False
    have "1 \<le> tries k" for k :: "'a tx_caller" by (cases k) auto
    then show ?thesis using spec[OF conjunct2[OF snoc], of i] False t(3) by (auto simp: openers_snoc)
  qed
  then show ?case using snoc step_grows[of ?d x] by (auto simp: openers_snoc e)
qed

text \<open>
  C40.  Only a usable connection is kept.  Whatever calls are made, whichever way databases open, are lost or upgraded, and in whatever
  order the calls go on: the connection that later calls share is never one that was closed or lost, and if it has not
  opened its opener is there to forget it should it fail.  Every connection was opened by some call, and no call
  opens more than two.
\<close>

theorem kept_connection_is_usable:
  "(\<forall>c. rd_connection (db_run events) = Some c \<longrightarrow>
      c < length (rd_opened (db_run events)) \<and> \<not> cn_closed (rd_opened (db_run events) ! c) \<and>
      (cn_state (rd_opened (db_run events) ! c) \<noteq> Connected \<longrightarrow> (\<exists>a. Waiting a c True \<in> set (rd_callers (db_run events))))) \<and>
    length (openers events) = length (rd_opened (db_run events)) \<and> (\<forall>i. count_list (openers events) i \<le> 2)"
proof -
  let ?d = "db_run events"
  have inv: "db_inv ?d" by (rule db_run_kept)
  have "count_list (openers events) i \<le> 2" for i
  proof (cases "i < length (rd_callers ?d)")
    case True
    then have "tries (rd_callers ?d ! i) \<le> 2" using inv tries_le by (auto simp: db_inv_def list_all_length)
    then show ?thesis using spec[OF conjunct2[OF openers_tries[of events]], of i] True by simp
  next
    case False
    then show ?thesis using spec[OF conjunct2[OF openers_tries[of events]], of i] by simp
  qed
  then show ?thesis using inv openers_tries[of events] by (auto simp: db_inv_def usable_def)
qed

text \<open>A call that finds the shared connection dead opens another and creates its transaction there.\<close>

theorem call_recovers:
  assumes "rd_connection d = Some c" and "connected_open c d" and "n = length (rd_callers d)" and "m = length (rd_opened d)"
  defines "d' \<equiv> foldl db_step d [Call, Resume n Created, Resume n InvalidState, Resume n Created, Opens m, Resume n Created, Resume n Created]"
  shows "rd_callers d' = rd_callers d @ [Returned m] \<and> rd_connection d' = Some m \<and> connected_open m d' \<and> cn_closed (rd_opened d' ! c)"
  using assms(1-4) unfolding d'_def
  by (simp add: open_begin_def tx_resume_def connected_open_def may_answer_def give_up_or_retry_def close_db_def forget_connection_def
      cn_update_def nth_append nth_list_update list_update_append)

theorem kept_connection_is_usable_witness:
  "let d = db_run [Call, Opens 0, Resume 0 Created, Terminates 0, Resume 0 InvalidState] :: nat database
   in rd_connection d = Some 1 \<and> \<not> cn_closed (rd_opened d ! 1) \<and> (\<exists>a. Waiting a 1 True \<in> set (rd_callers d)) \<and>
      count_list (openers [Call, Opens 0, Resume 0 Created, Terminates 0, Resume 0 InvalidState :: nat db_event]) 0 \<le> 2"
proof -
  let ?events = "[Call, Opens 0, Resume 0 Created, Terminates 0, Resume 0 InvalidState] :: nat db_event list"
  have "rd_connection (db_run ?events) = Some 1" "cn_state (rd_opened (db_run ?events) ! 1) \<noteq> Connected"
    by (simp_all add: db_run_def new_database_def open_begin_def tx_resume_def may_answer_def connected_open_def
        forget_connection_def give_up_or_retry_def close_db_def cn_update_def)
  then show ?thesis using kept_connection_is_usable[of ?events] by (simp add: Let_def)
qed

text \<open>
  A call is told of an opening that was not its own: it was about to check whether the connection had been replaced, and the
  reopening by another call is refused.  Its second attempt is never made.
\<close>

lemma retry_lost:
  "rd_callers (db_run [Call, Opens 0, Resume 0 Created, Call, Resume 1 Created, Resume 0 InvalidState, Resume 0 Created,
      Resume 1 InvalidState, Refuses 1 e, Resume 1 Created]) ! 1 = Threw (OpenError e)"
  by (simp add: db_run_def new_database_def open_begin_def tx_resume_def may_answer_def
      forget_connection_def give_up_or_retry_def close_db_def cn_update_def)

end
