(* ===== verification/Spec2Isabelle.thy ===== *)
theory Spec2Isabelle
  imports Queues Backoff Framing Coordinator_Requests Panes Wal_Properties Websocket_Runs Route_Examples Runner_Properties Machine_Scopes Sync_Examples Solid_History Recoverable_Database
begin

text \<open>
  \<^bold>\<open>A verification library for the client core of Macro.\<close>

  Macro is a workspace application (documents, mail, chat, tasks) whose web client keeps shared
  documents and cached data consistent over unreliable connections and several tabs.  The
  theories here model the parts of the client that carry that logic, from the TypeScript sources
  under \<open>packages/collaboration/src\<close> and \<open>apps/web/src/lib\<close>, and prove what makes each of
  them correct.

  \<^bold>\<open>The parts and their theories.\<close>

  \<^item> \<open>websocket/core/queue\<close>: \<open>Queues\<close> models \<open>ArrayQueue\<close> and \<open>RingQueue\<close> method by method.  The
    \<open>Queue\<close> interface is the locale \<open>js_queue\<close>, interpreted on both; its lemmas give the FIFO
    behaviour with the oldest elements dropped at capacity.
  \<^item> \<open>websocket/core/backoff\<close>: \<open>Backoff\<close> models the three backoffs; the interface is the locale
    \<open>backoff_series\<close>, interpreted on each and on their union, and gives the exact delays.
  \<^item> \<open>websocket/platform/framing\<close>: \<open>Framing\<close> models framing, reassembly and the framed socket; it
    shows that whole messages arrive, once, whatever the chunk size.
  \<^item> \<open>websocket/core/websocket.ts\<close> and the option, event and serializer files beside it: \<open>Websocket\<close>
    has the state record, one definition per method and handler, and \<open>ws_step\<close>, the inputs from the
    application, the network and the timers.  \<open>Websocket_Properties\<close> proves that at most one native
    socket is attached; \<open>Websocket_Runs\<close> what closing, opening and dispatching do, and the two runs
    in which listeners break the class.  The buffer is one of the queues and the retry delay one
    of the backoffs above.
  \<^item> \<open>collab/wal.ts\<close>: \<open>Wal_Store\<close> models the memory and the browser store of the write-ahead log,
    with the contract \<open>wal_store_laws\<close> interpreted on both; \<open>Wal_Syncer\<close> models the syncer as a
    step function over interleaved appends and flushes, for any store that meets the contract;
    \<open>Wal_Properties\<close> instantiates it: nothing is lost, one flush at a time, quiescence means
    delivery, and the schedule that strands an update.  \<open>Recoverable_Database\<close> (\<open>recoverable-database.ts\<close>) is the
    connection below it, which callers share and reopen.
  \<^item> \<open>lib/graphql-cache/worker/coordinator-core.ts\<close>: \<open>Coordinator\<close> models the whole reducer that
    elects the tab which owns the cache engine, routes requests to it and recovers when it is lost.
    \<open>Coordinator_Invariant\<close> states the invariant and shows that every event keeps it and meets no
    failed assertion; \<open>Coordinator_Properties\<close> follows elections, epochs and route ids over runs;
    \<open>Coordinator_Requests\<close> follows single requests and the wipe that is owed.
  \<^item> \<open>lib/split-router/panes\<close>: \<open>Pane_History\<close> models a pane's history, \<open>Pane_Diff\<close> the matching of
    the panes of a URL with those on screen, \<open>Panes\<close> the open panes over a store (the contract
    \<open>pane_store_laws\<close>, interpreted on the memory store).

  \<^item> \<open>lib/split-router/routes\<close>: \<open>Route_Path\<close> (\<open>path.ts\<close>) and \<open>Route_Manifest\<close> (\<open>manifest.ts\<close>) compile
    route patterns and the route table; \<open>Route_Search\<close> (\<open>search.ts\<close>, \<open>queries.ts\<close>) is the search state
    of a pane; \<open>Route_Codec\<close> (\<open>codec.ts\<close>) reads and writes the URL; \<open>Route_Targets\<close> (\<open>targets.ts\<close>)
    resolves navigation targets.  \<open>Url_Encoding\<close> holds the standard library's percent coding, UTF-8 and
    query strings.  \<open>Route_Table\<close> shows which branch a path decodes to; \<open>Route_Roundtrip\<close> (with the
    locale \<open>segment_codec\<close>, interpreted on the code's segment encoding) and \<open>Route_Url\<close> that a URL
    written for the open panes is read back as the same panes; \<open>Route_Examples\<close> evaluates a table.
  \<^item> \<open>packages/machine\<close>: \<open>Machine\<close> models \<open>step\<close> and \<open>simulate\<close>; its locale \<open>machine_invariant\<close>
    carries an invariant over a simulation and is interpreted on the two machines below.  \<open>Create_Machine\<close>
    models a running machine (\<open>create-machine.ts\<close>): the queue of events, the scopes of states with what
    they own, subscribers and errors.  \<open>Machine_Runs\<close> proves that what runs is the simulation of the events in
    order, \<open>Machine_Scopes\<close> that a state's scope is cleaned up when it is left and that one call is bounded.
  \<^item> \<open>lib/split-router/router\<close>: \<open>Router_Run\<close> models the machine of one navigation (\<open>run.ts\<close>), \<open>Url_Gate\<close>
    the gate that serialises URL navigations and undoes those that fail (\<open>url-gate.ts\<close>),
    \<open>Router_Runner\<close> the runner that wires a machine per pane, one for the URL and the gate together
    (\<open>runner.ts\<close>, with the drain loop of \<open>create-machine.ts\<close>).  \<open>Runner_Properties\<close> proves that every
    navigation is settled exactly once, and all of them when the runner is disposed.
  \<^item> The work of a navigation, in the same directory: \<open>Router_Entries\<close> (\<open>entries.ts\<close>) builds and compares
    entries; \<open>Leave_Guards\<close> (\<open>leave-guards.ts\<close>), \<open>Route_Middleware\<close> (\<open>middleware.ts\<close>) and \<open>Phases\<close> (\<open>phases.ts\<close>,
    \<open>preload.ts\<close>) are its guards, middleware and preload, and \<open>Phases\<close> ties them to the machine of
    \<open>Router_Run\<close>.  \<open>Router_Examples\<close> evaluates them.
  \<^item> \<open>lib/split-router/history\<close>: \<open>Router_History\<close> has the interface of a history adapter with its contract
    \<open>history_laws\<close>, interpreted on the adapter in memory (\<open>memory.ts\<close>), the slice of \<open>history.state\<close> and the
    base path (\<open>shared.ts\<close>), and the adapter over \<open>window.history\<close> (\<open>browser.ts\<close>), of which it shows that an undone move
    leaves everything as it was, and where that fails.  \<open>Solid_History\<close> is the adapter over Solid Router
    (\<open>solid-router.ts\<close>): it refines one that keeps every write until the next task.  Its writes land
    later, so it meets \<open>history_laws\<close> only once they have (\<open>own_write_lands\<close>).
  \<^item> The router as a whole, again in \<open>router\<close>: the record \<open>router\<close> of \<open>Router_Url\<close> (\<open>url.ts\<close>, \<open>url-navigation.ts\<close>) holds
    the open panes, the URL last known, the state of the adapter, registered claims and what is on its
    way.  \<open>Router_Claims\<close> (\<open>claims.ts\<close>), \<open>Pane_Navigation\<close> (\<open>pane-navigation.ts\<close>) and \<open>Pane_List\<close> (\<open>pane-list.ts\<close>) are
    its operations.  An operation gives the navigation it hands to the runner and, as a value of
    \<open>router_commit\<close>, what the navigation's \<open>apply\<close> closes over; \<open>apply_commit\<close> is that \<open>apply\<close>.
    \<open>Router_Sync\<close> shows what every commit keeps, inside \<open>history_laws\<close>; \<open>Router_Reload\<close> that the URL stays in step with the panes
    over any run, and that a reload at that URL brings the panes back; \<open>Router_Exclusive\<close> that a claimed
    resource is shown once; \<open>Pane_Requests\<close> that what a pane asks for meets the hypotheses of these, under
    one top-level route.  \<open>Sync_Examples\<close> runs a router with two panes.

  \<open>Prelude\<close> holds what they share: JavaScript numbers as far as the code tests them, sequencing of
  results that may be errors, and lemmas on lists.

  \<^bold>\<open>How the code is rendered.\<close>  Objects are records, tagged unions datatypes, thrown errors and
  failed assertions values of a sum type, asynchronous code is cut at its awaits into steps of
  a state machine whose inputs may come in any order, and browser objects (native sockets, timers,
  IndexedDB rows) are part of the state.  Loops that need not end are partial functions into
  \<open>option\<close>: the loop of the ring queue's \<open>forEach\<close>, the retry loop of the browser log, the redirects of
  middleware and the loop that empties the websocket's buffer; for each a theorem says when it returns, and for the last
  one also when it does not.  The only bound is the one the code has: a machine gives up after
  \<open>MAX_CHAINED_DISPATCHES\<close> chained events.  \<open>runner_settles_each_once\<close> shows that the runner's gate does not as long as
  at most 997 URL navigations were started, and what holds of the runner when it does;
  \<open>many_replaced_shut_the_gate\<close> shows that it can leave the gate shut.

  \<^bold>\<open>Parameters.\<close>  Code that is not in the repository, or that the application supplies, is an
  argument: listeners, transports and stores of the websocket and the log, schemas and formatters
  of routes, the case mapping of strings (\<open>toLowerCase\<close>), the platform's URL parser, deep equality and
  \<open>structuredClone\<close> of values, the identity of schemas and of props, the answers of guards and middleware, the policy that
  places panes, and the supplies of pane and entry ids.  What is asked of them is a named hypothesis:
  \<open>deq_reflexive\<close> (a value equals itself) and its converse, \<open>fresh_supply\<close> (ids are new), \<open>history_laws\<close> (what is written is
  what is read), \<open>identity_of_schemas\<close>.

  \<^bold>\<open>Not modelled.\<close>  User interface components, the server side, generated clients and schemas, log
  output, telemetry and timestamps.  Of the parts above: plain getters of the websocket and of the
  framed socket; the validators of the coordinator's wire messages; the rendering of one IndexedDB
  transaction is atomic.  The queries that only serve views; the record of pending navigations that the interface shows,
  commit callbacks, a \<open>revert\<close> that throws, the budget timer of a preload and the warming of component
  chunks.  A run of \<open>Router_Reload\<close> takes note of a URL from outside and applies or undoes its navigation in one step: the
  gate of \<open>Url_Gate\<close> keeps commits of panes apart from it.
  The directory \<open>solid\<close>, \<open>routes/define.ts\<close> and \<open>routes/search-params.ts\<close> are views and typed builders over what is modelled.  The document engine
  (\<open>collab/engine.ts\<close>, \<open>collab/manager.ts\<close>) works on a third-party CRDT; \<open>websocket-builder.ts\<close> and the Tauri
  socket are wiring.
\<close>

end
